(* ===== verification/Glyim_Prelude.thy ===== *)
theory Glyim_Prelude
  imports Main "HOL-Library.Word"
begin

text \<open>
  Shared vocabulary of the development: the machine integer types of the Rust
  sources, the \<open>Result\<close> type as a sum with its bind, little-endian byte
  encodings (\<open>to_le_bytes\<close> / \<open>from_le_bytes\<close>), Rust's truncating division on
  \<open>i64\<close>, and list lemmas used by several components.  The collection
  \<open>result_simps\<close> unfolds the plumbing of \<open>Result\<close> values, \<open>vm_simps\<close> the
  bytecode machine.
\<close>

named_theorems result_simps
named_theorems vm_simps

subsection \<open>Machine integers\<close>

type_synonym u8 = "8 word"
type_synonym u32 = "32 word"
type_synonym u64 = "64 word"
type_synonym i64 = "64 word"

lemma unat_less_pow: "unat (w :: 'a::len word) < 2 ^ LENGTH('a)"
  by (rule unsigned_less)

text \<open>\<open>b as i64\<close> for a Rust \<open>bool\<close>.\<close>

definition bool_word :: "bool \<Rightarrow> 'a::len word" where
  "bool_word b = (if b then 1 else 0)"

lemma bool_word_simps [simp]:
  "bool_word True = 1" "bool_word False = 0"
  by (simp_all add: bool_word_def)

lemma bool_word_eq_0 [simp]: "bool_word b = (0 :: 'a::len word) \<longleftrightarrow> \<not> b"
  by (simp add: bool_word_def)

text \<open>
  Rust's integer division truncates towards zero.  \<open>checked_div\<close> and
  \<open>checked_rem\<close> of \<open>i64\<close> are \<open>None\<close> for a zero divisor and for the one
  overflowing quotient \<open>i64::MIN / -1\<close>.
\<close>

definition trunc_div :: "int \<Rightarrow> int \<Rightarrow> int" where
  "trunc_div a b = sgn a * sgn b * (\<bar>a\<bar> div \<bar>b\<bar>)"

definition trunc_rem :: "int \<Rightarrow> int \<Rightarrow> int" where
  "trunc_rem a b = sgn a * (\<bar>a\<bar> mod \<bar>b\<bar>)"

definition i64_div_overflows :: "i64 \<Rightarrow> i64 \<Rightarrow> bool" where
  "i64_div_overflows a b \<longleftrightarrow> sint a = - (2 ^ 63) \<and> sint b = -1"

definition checked_div_i64 :: "i64 \<Rightarrow> i64 \<Rightarrow> i64 option" where
  "checked_div_i64 a b =
     (if b = 0 \<or> i64_div_overflows a b then None
      else Some (word_of_int (trunc_div (sint a) (sint b))))"

definition checked_rem_i64 :: "i64 \<Rightarrow> i64 \<Rightarrow> i64 option" where
  "checked_rem_i64 a b =
     (if b = 0 \<or> i64_div_overflows a b then None
      else Some (word_of_int (trunc_rem (sint a) (sint b))))"

lemma trunc_div_rem: "trunc_div a b * b + trunc_rem a b = a"
proof -
  have "sgn a * sgn b * (\<bar>a\<bar> div \<bar>b\<bar>) * b + sgn a * (\<bar>a\<bar> mod \<bar>b\<bar>)
      = sgn a * ((\<bar>a\<bar> div \<bar>b\<bar>) * \<bar>b\<bar> + \<bar>a\<bar> mod \<bar>b\<bar>)"
    by (simp add: algebra_simps abs_sgn)
  also have "\<dots> = sgn a * \<bar>a\<bar>" by simp
  also have "\<dots> = a" by (simp add: mult_sgn_abs)
  finally show ?thesis by (simp add: trunc_div_def trunc_rem_def)
qed

subsection \<open>Results\<close>

text \<open>\<open>Result<T, E>\<close> is \<open>E + T\<close>; \<open>rbind\<close> is the \<open>?\<close> operator.\<close>

definition rbind :: "'e + 'a \<Rightarrow> ('a \<Rightarrow> 'e + 'b) \<Rightarrow> 'e + 'b" where
  "rbind r f = (case r of Inl e \<Rightarrow> Inl e | Inr x \<Rightarrow> f x)"

lemma rbind_Inl [simp]: "rbind (Inl e) f = Inl e"
  by (simp add: rbind_def)

lemma rbind_Inr [simp]: "rbind (Inr x) f = f x"
  by (simp add: rbind_def)

lemma rbind_eq_Inr [result_simps]:
  "rbind r f = Inr y \<longleftrightarrow> (\<exists>x. r = Inr x \<and> f x = Inr y)"
  by (cases r) auto

lemma rbind_eq_Inl [result_simps]:
  "rbind r f = Inl e \<longleftrightarrow> r = Inl e \<or> (\<exists>x. r = Inr x \<and> f x = Inl e)"
  by (cases r) auto

definition ok_or :: "'a option \<Rightarrow> 'e \<Rightarrow> 'e + 'a" where
  "ok_or m e = (case m of None \<Rightarrow> Inl e | Some x \<Rightarrow> Inr x)"

lemma ok_or_simps [simp]: "ok_or None e = Inl e" "ok_or (Some x) e = Inr x"
  by (simp_all add: ok_or_def)

lemma ok_or_eq [result_simps]:
  "ok_or m e = Inr x \<longleftrightarrow> m = Some x"
  "ok_or m e = Inl e' \<longleftrightarrow> m = None \<and> e' = e"
  by (cases m; auto)+

text \<open>\<open>slice.get(i)\<close>.\<close>

definition get :: "'a list \<Rightarrow> nat \<Rightarrow> 'a option" where
  "get xs i = (if i < length xs then Some (xs ! i) else None)"

lemma get_Some [result_simps]: "get xs i = Some x \<longleftrightarrow> i < length xs \<and> xs ! i = x"
  by (auto simp: get_def)

lemma get_None [result_simps]: "get xs i = None \<longleftrightarrow> length xs \<le> i"
  by (auto simp: get_def)

subsection \<open>Little-endian bytes\<close>

fun le_bytes :: "nat \<Rightarrow> nat \<Rightarrow> u8 list" where
  "le_bytes 0 k = []"
| "le_bytes (Suc n) k = word_of_nat (k mod 256) # le_bytes n (k div 256)"

fun le_val :: "u8 list \<Rightarrow> nat" where
  "le_val [] = 0"
| "le_val (b # bs) = unat b + 256 * le_val bs"

lemma length_le_bytes [simp]: "length (le_bytes n k) = n"
  by (induction n arbitrary: k) auto

lemma le_val_bound: "le_val bs < 256 ^ length bs"
proof (induction bs)
  case (Cons b bs)
  have "unat b < 256" using unat_less_pow [of b] by simp
  moreover have "256 * le_val bs + 256 \<le> 256 * 256 ^ length bs"
    using Cons.IH by simp
  ultimately show ?case by simp
qed simp

lemma le_val_le_bytes: "le_val (le_bytes n k) = k mod 256 ^ n"
proof (induction n arbitrary: k)
  case (Suc n)
  have "unat (word_of_nat (k mod 256) :: u8) = k mod 256"
    by (simp add: unat_of_nat)
  then show ?case using Suc.IH [of "k div 256"]
    by (simp add: mod_mult2_eq mult.commute)
qed simp

lemma le_bytes_le_val: "le_bytes (length bs) (le_val bs) = bs"
proof (induction bs)
  case (Cons b bs)
  have b: "unat b < 256" using unat_less_pow [of b] by simp
  then have "(unat b + 256 * le_val bs) mod 256 = unat b"
    and "(unat b + 256 * le_val bs) div 256 = le_val bs" by simp_all
  with Cons.IH show ?case by simp
qed simp

definition u32_to_le :: "u32 \<Rightarrow> u8 list" where
  "u32_to_le w = le_bytes 4 (unat w)"

definition u32_from_le :: "u8 list \<Rightarrow> u32" where
  "u32_from_le bs = word_of_nat (le_val bs)"

definition i64_to_le :: "i64 \<Rightarrow> u8 list" where
  "i64_to_le w = le_bytes 8 (unat w)"

definition i64_from_le :: "u8 list \<Rightarrow> i64" where
  "i64_from_le bs = word_of_nat (le_val bs)"

lemma length_u32_to_le [simp]: "length (u32_to_le w) = 4"
  by (simp add: u32_to_le_def)

lemma length_i64_to_le [simp]: "length (i64_to_le w) = 8"
  by (simp add: i64_to_le_def)

lemma u32_le_roundtrip [simp]: "u32_from_le (u32_to_le w) = w"
proof -
  have "unat w mod 256 ^ 4 = unat w" using unat_less_pow [of w] by simp
  then show ?thesis by (simp add: u32_from_le_def u32_to_le_def le_val_le_bytes)
qed

lemma i64_le_roundtrip [simp]: "i64_from_le (i64_to_le w) = w"
proof -
  have "unat w mod 256 ^ 8 = unat w" using unat_less_pow [of w] by simp
  then show ?thesis by (simp add: i64_from_le_def i64_to_le_def le_val_le_bytes)
qed

subsection \<open>Lists\<close>

lemma take_drop_append_mid:
  "length xs = n \<Longrightarrow> length ys = k \<Longrightarrow> take k (drop n (xs @ ys @ zs)) = ys"
  by simp

subsection \<open>Loops over calls that may panic\<close>

fun fold_opt :: "('a \<Rightarrow> 's \<Rightarrow> 's option) \<Rightarrow> 'a list \<Rightarrow> 's \<Rightarrow> 's option" where
  "fold_opt f [] s = Some s"
| "fold_opt f (x # xs) s = Option.bind (f x s) (fold_opt f xs)"

fun map_opt :: "('a \<Rightarrow> 'b option) \<Rightarrow> 'a list \<Rightarrow> 'b list option" where
  "map_opt f [] = Some []"
| "map_opt f (x # xs) = Option.bind (f x) (\<lambda>y. Option.bind (map_opt f xs) (\<lambda>ys. Some (y # ys)))"

text \<open>Short-circuiting \<open>any\<close>.\<close>

fun any_opt :: "('a \<Rightarrow> bool option) \<Rightarrow> 'a list \<Rightarrow> bool option" where
  "any_opt f [] = Some False"
| "any_opt f (x # xs) = (case f x of None \<Rightarrow> None | Some b \<Rightarrow> if b then Some True else any_opt f xs)"

lemma fold_opt_append: "fold_opt f (xs @ ys) s = Option.bind (fold_opt f xs s) (fold_opt f ys)"
  by (induction xs arbitrary: s) (simp, simp split: Option.bind_split)

lemma fold_keeps: "(\<And>x s. P s \<Longrightarrow> P (f x s)) \<Longrightarrow> P s \<Longrightarrow> P (fold f xs s)"
  by (induction xs arbitrary: s) auto

lemma map_opt_nth:
  "map_opt f xs = Some ys \<Longrightarrow> length ys = length xs \<and> (\<forall>k<length xs. f (xs ! k) = Some (ys ! k))"
  by (induction xs arbitrary: ys) (auto simp: bind_eq_Some_conv nth_Cons split: nat.splits)

lemma map_opt_set: "map_opt f xs = Some ys \<Longrightarrow> x \<in> set xs \<Longrightarrow> \<exists>y\<in>set ys. f x = Some y"
  by (induction xs arbitrary: ys) (auto simp: bind_eq_Some_conv)

end
