(* ===== verification/Glyim_Types.thy ===== *)
theory Glyim_Types
  imports Glyim_Prelude "HOL-Library.Sublist"
begin

text \<open>
  The data the compiler's middle end shares: the primitive enums and the target
  description of \<^verbatim>\<open>crates/glyim-core/src/primitives.rs\<close>, the alignment check of
  \<^verbatim>\<open>abi.rs\<close>, spans of \<^verbatim>\<open>crates/glyim-span/src/lib.rs\<close>, and the type language of
  \<^verbatim>\<open>crates/glyim-type\<close> (\<open>Ty\<close>, \<open>TyKind\<close>, \<open>Const\<close>, \<open>Region\<close>, predicates,
  signatures, algebraic data types).  Index newtypes (\<open>Ty\<close>, \<open>LocalIdx\<close>, the
  definition ids) are their raw \<open>u32\<close>; an interned \<open>Name\<close> is its key.
\<close>

subsection \<open>Targets\<close>

datatype target_abi = X86_64SystemV | X86_64Windows | AArch64AAPCS | AArch64Windows | Wasm32

record target_info =
  ti_pointer_width :: nat
  ti_triple :: string
  ti_abi :: target_abi

text \<open>\<open>str::split\<close> on a character: always at least one part.\<close>

fun split_on :: "char \<Rightarrow> string \<Rightarrow> string list" where
  "split_on c [] = [[]]"
| "split_on c (x # xs) =
    (if x = c then [] # split_on c xs
     else (case split_on c xs of [] \<Rightarrow> [[x]] | p # ps \<Rightarrow> (x # p) # ps))"

definition str_contains :: "string \<Rightarrow> string \<Rightarrow> bool" where
  "str_contains s pat \<longleftrightarrow> list_ex (\<lambda>suf. prefix pat suf) (suffixes s)"

definition from_triple :: "string \<Rightarrow> target_info" where
  "from_triple triple =
    (let parts = split_on (CHR ''-'') triple;
         arch = (case get parts 0 of Some a \<Rightarrow> a | None \<Rightarrow> []);
         os = (case get parts 2 of Some a \<Rightarrow> a | None \<Rightarrow> []);
         pointer_width =
           (if arch \<in> {''x86_64'', ''aarch64'', ''arm64'', ''riscv64'', ''powerpc64'', ''mips64''} then 64
            else if arch \<in> {''i386'', ''i686'', ''arm'', ''armv7'', ''wasm32'', ''riscv32'', ''powerpc'',
                            ''mips''} then 32
            else if str_contains arch ''64'' then 64 else 32);
         abi =
           (if arch = ''x86_64'' \<and> os \<in> {''windows'', ''win32''} then X86_64Windows
            else if arch \<in> {''aarch64'', ''arm64''} \<and> os = ''windows'' then AArch64Windows
            else if arch \<in> {''aarch64'', ''arm64''} then AArch64AAPCS
            else if arch = ''wasm32'' then Wasm32
            else X86_64SystemV)
     in \<lparr>ti_pointer_width = pointer_width, ti_triple = triple, ti_abi = abi\<rparr>)"

definition default_target :: target_info where
  "default_target = \<lparr>ti_pointer_width = 64, ti_triple = ''x86_64-unknown-linux-gnu'',
     ti_abi = X86_64SystemV\<rparr>"

definition pointer_size :: "target_info \<Rightarrow> nat" where
  "pointer_size t = ti_pointer_width t div 8"

definition pointer_align :: "target_info \<Rightarrow> nat" where
  "pointer_align t = pointer_size t"

subsection \<open>Primitive enums\<close>

datatype int_ty = I8 | I16 | I32 | I64 | Isize
datatype uint_ty = U8 | U16 | U32 | U64 | Usize
datatype float_ty = F32 | F64

fun int_bit_width :: "target_info \<Rightarrow> int_ty \<Rightarrow> nat" where
  "int_bit_width t I8 = 8"
| "int_bit_width t I16 = 16"
| "int_bit_width t I32 = 32"
| "int_bit_width t I64 = 64"
| "int_bit_width t Isize = ti_pointer_width t"

fun uint_bit_width :: "target_info \<Rightarrow> uint_ty \<Rightarrow> nat" where
  "uint_bit_width t U8 = 8"
| "uint_bit_width t U16 = 16"
| "uint_bit_width t U32 = 32"
| "uint_bit_width t U64 = 64"
| "uint_bit_width t Usize = ti_pointer_width t"

fun float_bit_width :: "float_ty \<Rightarrow> nat" where
  "float_bit_width F32 = 32"
| "float_bit_width F64 = 64"

datatype mutability = MutNot | MutMut
datatype safety = Safe | Unsafe
datatype abi = AbiC | AbiGlyim | AbiSystem

datatype bin_op =
    Bin_Add | Bin_Sub | Bin_Mul | Bin_Div | Bin_Rem
  | Bin_Eq | Bin_Ne | Bin_Lt | Bin_Gt | Bin_LtEq | Bin_GtEq
  | Bin_And | Bin_Or | Bin_BitAnd | Bin_BitOr | Bin_BitXor | Bin_Shl | Bin_Shr

definition is_comparison :: "bin_op \<Rightarrow> bool" where
  "is_comparison op \<longleftrightarrow> op \<in> {Bin_Eq, Bin_Ne, Bin_Lt, Bin_Gt, Bin_LtEq, Bin_GtEq}"

datatype un_op = Un_Not | Un_Neg | Un_Deref

subsection \<open>Alignment validation\<close>

definition ALIGN_MAX :: nat where
  "ALIGN_MAX = 64"

text \<open>\<open>u64::is_power_of_two\<close>: exactly one bit is set.\<close>

definition is_power_of_two :: "nat \<Rightarrow> bool" where
  "is_power_of_two n \<longleftrightarrow> list_ex (\<lambda>k. n = 2 ^ k) [0..<64]"

datatype align_error = AlignZero | AlignNotPowerOfTwo nat | AlignTooLarge nat nat

definition validate_alignment :: "nat \<Rightarrow> align_error + unit" where
  "validate_alignment align =
    (if align = 0 then Inl AlignZero
     else if \<not> is_power_of_two align then Inl (AlignNotPowerOfTwo align)
     else if ALIGN_MAX < align then Inl (AlignTooLarge align ALIGN_MAX)
     else Inr ())"

subsection \<open>Spans\<close>

type_synonym name = nat

record span =
  sp_file :: u32
  sp_lo :: u32
  sp_hi :: u32
  sp_ctx :: u32

definition span_DUMMY :: span where
  "span_DUMMY = \<lparr>sp_file = - 1, sp_lo = 0, sp_hi = 0, sp_ctx = 0\<rparr>"

definition is_dummy :: "span \<Rightarrow> bool" where
  "is_dummy s \<longleftrightarrow> s = span_DUMMY"

definition sans_ctx :: "span \<Rightarrow> span" where
  "sans_ctx s = s\<lparr>sp_ctx := 0\<rparr>"

definition span_len :: "span \<Rightarrow> nat" where
  "span_len s = unat (sp_hi s) - unat (sp_lo s)"

text \<open>\<open>Span::to\<close>; in a debug build spans of different files panic.\<close>

definition span_to :: "span \<Rightarrow> span \<Rightarrow> span" where
  "span_to s other = \<lparr>sp_file = sp_file s, sp_lo = min (sp_lo s) (sp_lo other),
     sp_hi = max (sp_hi s) (sp_hi other), sp_ctx = sp_ctx s\<rparr>"

subsection \<open>Types\<close>

type_synonym ty = u32

definition Ty_ERROR :: ty where "Ty_ERROR = 0"
definition Ty_NEVER :: ty where "Ty_NEVER = 1"
definition Ty_UNIT :: ty where "Ty_UNIT = 2"
definition Ty_BOOL :: ty where "Ty_BOOL = 3"
definition Ty_U8 :: ty where "Ty_U8 = 4"
definition Ty_U16 :: ty where "Ty_U16 = 5"
definition Ty_U32 :: ty where "Ty_U32 = 6"
definition Ty_U64 :: ty where "Ty_U64 = 7"
definition Ty_USIZE :: ty where "Ty_USIZE = 8"

datatype bound_region_kind = BrAnon u32 | BrNamed name | BrEnv

record early_bound_region =
  ebr_index :: u32
  ebr_name :: name

record placeholder_region =
  plr_universe :: u32
  plr_bound :: bound_region_kind
  plr_index :: u32

datatype region =
    ReStatic
  | ReEarlyBound early_bound_region
  | ReLateBound u32 u32 bound_region_kind
  | ReVar u32
  | RePlaceholder placeholder_region
  | ReErased
  | ReError

record substitution =
  sub_index :: u32
  sub_len :: nat

record param_const =
  pc_index :: u32
  pc_name :: name

type_synonym i128 = "128 word"
type_synonym u128 = "128 word"

datatype const_kind =
    CkInt i128 | CkUint u128 | CkFloatBits u64 | CkBool bool | CkChar u32 | CkString name
  | CkUnit | CkInfer u32 | CkParam param_const | CkError

record ty_const =
  ct_kind :: const_kind
  ct_ty :: ty

datatype generic_arg = GaTy ty | GaLifetime region | GaConst ty_const

record fn_sig =
  fs_inputs :: substitution
  fs_output :: ty
  fs_c_variadic :: bool
  fs_unsafety :: safety
  fs_abi :: abi

record trait_ref =
  tr_def_id :: u32
  tr_substs :: substitution

datatype impl_polarity = Positive | Negative

record trait_predicate =
  tp_trait_ref :: trait_ref
  tp_polarity :: impl_polarity

datatype predicate =
    PTrait trait_predicate
  | PRegionOutlives region region
  | PTypeOutlives ty region
  | PWellFormed ty
  | PCoerce ty ty

datatype bound_ty_kind = BtAnon | BtParam name
datatype bound_variable_kind = BvTy bound_ty_kind | BvRegion bound_region_kind | BvConst

record 'a ty_binder =
  bi_value :: 'a
  bi_bound_vars :: "bound_variable_kind list"

record projection_ty =
  pt_trait_ref :: trait_ref
  pt_item_name :: name

datatype infer_var = IvTy u32 | IvInt u32 | IvFloat u32

record param_ty =
  pty_index :: u32
  pty_name :: name

record bound_ty =
  bty_var :: u32
  bty_kind :: bound_ty_kind

datatype ty_kind =
    TNever | TUnit | TBool | TInt int_ty | TUint uint_ty | TFloat float_ty | TChar | TString
  | TInfer infer_var
  | TAdt u32 substitution
  | TFnDef u32 substitution
  | TClosure u32 substitution
  | TFnPtr fn_sig
  | TRef region ty mutability
  | TRawPtr ty mutability
  | TSlice ty
  | TArray ty ty_const
  | TTuple substitution
  | TDynamic "predicate list ty_binder" region
  | TOpaque u32 substitution
  | TProjection projection_ty
  | TParam param_ty
  | TBound u32 bound_ty
  | TError

datatype adt_kind = AdtStruct | AdtEnum | AdtUnion
datatype variant_style = StyleUnit | StyleTuple | StyleStruct

record field_def =
  fd_name :: name
  fd_ty :: ty

record variant_def =
  vd_name :: name
  vd_fields :: "field_def list"
  vd_style :: variant_style

record adt_def =
  ad_kind :: adt_kind
  ad_fields :: "field_def list"
  ad_variants :: "variant_def list"
  ad_generic_params :: "name list"

record method_def =
  md_name :: name
  md_sig :: fn_sig
  md_fn_def_id :: "u32 option"

record trait_def =
  td_name :: name
  td_methods :: "method_def list"
  td_associated_types :: "name list"

subsection \<open>Properties\<close>

lemma is_power_of_two_iff: "is_power_of_two n \<longleftrightarrow> (\<exists>k < 64. n = 2 ^ k)"
  by (auto simp: is_power_of_two_def list_ex_iff)

lemma from_triple_width: "ti_pointer_width (from_triple s) \<in> {32, 64}"
  by (simp add: from_triple_def Let_def)

lemma validate_alignment_ok:
  "validate_alignment a = Inr () \<longleftrightarrow> a \<in> {1, 2, 4, 8, 16, 32, 64}"
proof
  assume "validate_alignment a = Inr ()"
  then have "is_power_of_two a" "a \<le> 64"
    by (auto simp: validate_alignment_def ALIGN_MAX_def split: if_splits)
  then obtain k where k: "a = 2 ^ k" by (auto simp: is_power_of_two_iff)
  with \<open>a \<le> 64\<close> have "(2::nat) ^ k \<le> 2 ^ 6" by simp
  then have "k \<le> 6" by (rule power_le_imp_le_exp [rotated]) simp
  then have "k \<in> {0, 1, 2, 3, 4, 5, 6}" by auto
  with k show "a \<in> {1, 2, 4, 8, 16, 32, 64}" by auto
next
  assume "a \<in> {1, 2, 4, 8, 16, 32, 64}"
  then show "validate_alignment a = Inr ()"
    by (auto simp: validate_alignment_def ALIGN_MAX_def is_power_of_two_def upt_rec)
qed

text \<open>The span of two spans covers both, and is the least span of that file that does.\<close>

lemma span_to_covers:
  "sp_lo (span_to s t) \<le> sp_lo s" "sp_lo (span_to s t) \<le> sp_lo t"
  "sp_hi s \<le> sp_hi (span_to s t)" "sp_hi t \<le> sp_hi (span_to s t)"
  by (simp_all add: span_to_def)

end
