(* ===== verification/Lexer.thy ===== *)
theory Lexer
  imports Glyim_Types
begin

unbundle bit_operations_syntax

text \<open>
  The lexer (\<^verbatim>\<open>crates/glyim-frontend/src/lexer.rs\<close>).  A source is a list of Unicode
  scalar values; a lexer state holds the byte position, the characters from there on and the
  diagnostics so far.  \<open>char::is_alphabetic\<close> and \<open>char::is_alphanumeric\<close> are arguments
  beyond ASCII (their Unicode tables are not modelled).  The token kinds of \<open>SyntaxKind\<close> are grouped into
  keywords, operators with punctuation, and the rest.
\<close>

subsection \<open>Tokens\<close>

type_synonym uchar = u32

datatype keyword = KwFn | KwLet | KwStruct | KwEnum | KwIf | KwElse | KwReturn | KwMatch | KwMod
    | KwComptime | KwSelf | KwSuper | KwCrate | KwTrue | KwFalse | KwMut | KwRef | KwAs |
    KwWhile | KwFor | KwLoop | KwIn | KwBreak | KwContinue | KwTrait | KwImpl | KwWhere | KwDyn
    | KwType | KwPub | KwPriv | KwExtern | KwUnsafe | KwUse | KwConst | KwStatic | KwMove |
    KwMacro | KwMacroRules | KwAsync | KwAwait

datatype punct =
    Plus | Minus | Star | Slash | Percent | Eq | EqEq | Bang | BangEq | Lt | Gt | LtEq | GtEq | And | Or
  | AndAnd | OrOr | Caret | Shl | Shr | PlusEq | MinusEq | StarEq | SlashEq | OrEq | AndEq | CaretEq
  | ShlEq | ShrEq | Arrow | FatArrow | Dot | DotDot | DotDotEq | Comma | Semicolon | Colon | ColonColon
  | At | Hash | Dollar | Tilde | Question | LParen | RParen | LBrace | RBrace | LBracket | RBracket

datatype syntax_kind =
    SkKeyword keyword | SkPunct punct | SkUnderscore | SkIdent | SkLifetime | SkIntLit | SkFloatLit
  | SkStringLit | SkCharLit | SkByteLit | SkError

text \<open>The numeric order of the keyword kinds, and the range test of \<open>SyntaxKind::is_keyword\<close>.\<close>

definition keyword_order :: "keyword list" where
  "keyword_order = [
    KwFn, KwLet, KwStruct, KwEnum, KwIf, KwElse, KwReturn, KwMatch, KwMod, KwComptime, KwSelf, KwSuper,
     KwCrate, KwTrue, KwFalse, KwMut, KwRef, KwAs, KwWhile, KwFor, KwLoop, KwIn, KwBreak, KwContinue,
     KwTrait, KwImpl, KwWhere, KwDyn, KwType, KwPub, KwPriv, KwExtern, KwUnsafe, KwUse, KwConst,
     KwStatic, KwMove, KwMacro, KwMacroRules, KwAsync, KwAwait]"

definition keyword_raw :: "keyword \<Rightarrow> nat" where
  "keyword_raw k = length (takeWhile (\<lambda>k'. k' \<noteq> k) keyword_order)"

fun is_keyword :: "syntax_kind \<Rightarrow> bool" where
  "is_keyword (SkKeyword k) = (keyword_raw KwFn \<le> keyword_raw k \<and> keyword_raw k \<le> keyword_raw KwMacroRules)"
| "is_keyword _ = False"

fun is_literal :: "syntax_kind \<Rightarrow> bool" where
  "is_literal SkIntLit = True"
| "is_literal SkFloatLit = True"
| "is_literal SkStringLit = True"
| "is_literal SkCharLit = True"
| "is_literal _ = False"

lemma is_keyword_iff: "is_keyword (SkKeyword k) \<longleftrightarrow> k \<noteq> KwAsync \<and> k \<noteq> KwAwait"
  by (cases k) (simp_all add: keyword_raw_def keyword_order_def)

record token =
  tk_kind :: syntax_kind
  tk_span :: span
  tk_text :: "uchar list"

datatype lex_message =
    UnexpectedCharacter uchar | IncompleteExponent "uchar list" | InvalidSuffix "uchar list"
  | UnterminatedString | UnterminatedChar | UnterminatedByte

record lex_diagnostic =
  ldg_span :: span
  ldg_message :: lex_message

record lex_result =
  lr_tokens :: "token list"
  lr_diagnostics :: "lex_diagnostic list"

record char_class =
  cc_alphabetic :: "uchar \<Rightarrow> bool"
  cc_alphanumeric :: "uchar \<Rightarrow> bool"

subsection \<open>Characters\<close>

definition uc :: "char \<Rightarrow> uchar" where
  "uc c = of_char c"

definition ucs :: "string \<Rightarrow> uchar list" where
  "ucs s = map uc s"

definition in_range :: "char \<Rightarrow> uchar \<Rightarrow> char \<Rightarrow> bool" where
  "in_range lo c hi \<longleftrightarrow> uc lo \<le> c \<and> c \<le> uc hi"

definition is_ascii_digit :: "uchar \<Rightarrow> bool" where
  "is_ascii_digit c = in_range (CHR ''0'') c (CHR ''9'')"

definition is_ascii_hexdigit :: "uchar \<Rightarrow> bool" where
  "is_ascii_hexdigit c \<longleftrightarrow> is_ascii_digit c \<or> in_range (CHR ''a'') c (CHR ''f'') \<or> in_range (CHR ''A'') c (CHR ''F'')"

definition is_ident_start :: "uchar \<Rightarrow> bool" where
  "is_ident_start c \<longleftrightarrow> in_range (CHR ''a'') c (CHR ''z'') \<or> in_range (CHR ''A'') c (CHR ''Z'') \<or> c = uc (CHR ''_'')"

definition len_utf8 :: "uchar \<Rightarrow> nat" where
  "len_utf8 c = (if c < 0x80 then 1 else if c < 0x800 then 2 else if c < 0x10000 then 3 else 4)"

text \<open>\<open>char::is_alphabetic\<close> and \<open>char::is_alphanumeric\<close>: computed on ASCII, an argument beyond.\<close>

definition ascii_letter :: "uchar \<Rightarrow> bool" where
  "ascii_letter c \<longleftrightarrow> in_range (CHR ''a'') c (CHR ''z'') \<or> in_range (CHR ''A'') c (CHR ''Z'')"

definition is_alphabetic :: "char_class \<Rightarrow> uchar \<Rightarrow> bool" where
  "is_alphabetic cc c \<longleftrightarrow> ascii_letter c \<or> 0x7F < c \<and> cc_alphabetic cc c"

definition is_alphanumeric :: "char_class \<Rightarrow> uchar \<Rightarrow> bool" where
  "is_alphanumeric cc c \<longleftrightarrow> ascii_letter c \<or> is_ascii_digit c \<or> 0x7F < c \<and> cc_alphanumeric cc c"

text \<open>The quotation marks, the backslash and the line feed.\<close>

definition dquote :: uchar where "dquote = 34"
definition squote :: uchar where "squote = 39"
definition backslash :: uchar where "backslash = 92"
definition newline :: uchar where "newline = 10"

subsection \<open>The state\<close>

record lexer =
  lx_file :: u32
  lx_pos :: nat
  lx_rest :: "uchar list"
  lx_diags :: "lex_diagnostic list"

definition lexer_new :: "uchar list \<Rightarrow> u32 \<Rightarrow> lexer" where
  "lexer_new source file_id = \<lparr>lx_file = file_id, lx_pos = 0, lx_rest = source, lx_diags = []\<rparr>"

definition lx_span :: "lexer \<Rightarrow> nat \<Rightarrow> nat \<Rightarrow> span" where
  "lx_span st start stop = \<lparr>sp_file = lx_file st, sp_lo = word_of_nat start, sp_hi = word_of_nat stop, sp_ctx = 0\<rparr>"

definition peek :: "lexer \<Rightarrow> uchar option" where
  "peek st = (case lx_rest st of [] \<Rightarrow> None | c # _ \<Rightarrow> Some c)"

definition peek_next :: "lexer \<Rightarrow> uchar option" where
  "peek_next st = (case lx_rest st of _ # c # _ \<Rightarrow> Some c | _ \<Rightarrow> None)"

definition advance :: "lexer \<Rightarrow> lexer" where
  "advance st = (case lx_rest st of [] \<Rightarrow> st
     | c # cs \<Rightarrow> st\<lparr>lx_pos := lx_pos st + len_utf8 c, lx_rest := cs\<rparr>)"

definition at :: "lexer \<Rightarrow> char \<Rightarrow> bool" where
  "at st c \<longleftrightarrow> peek st = Some (uc c)"

definition next_at :: "lexer \<Rightarrow> char \<Rightarrow> bool" where
  "next_at st c \<longleftrightarrow> peek_next st = Some (uc c)"

text \<open>The source slice between two states.\<close>

definition slice_text :: "lexer \<Rightarrow> lexer \<Rightarrow> uchar list" where
  "slice_text st st' = take (length (lx_rest st) - length (lx_rest st')) (lx_rest st)"

definition lex_error :: "span \<Rightarrow> lex_message \<Rightarrow> lexer \<Rightarrow> lexer" where
  "lex_error sp m st = st\<lparr>lx_diags := lx_diags st @ [\<lparr>ldg_span = sp, ldg_message = m\<rparr>]\<rparr>"

lemma rest_lex_error [simp]: "lx_rest (lex_error sp m st) = lx_rest st"
  by (simp add: lex_error_def)

lemma length_advance [termination_simp]: "peek st = Some c \<Longrightarrow> length (lx_rest (advance st)) < length (lx_rest st)"
  by (simp add: peek_def advance_def split: list.splits)

lemma length_advance_le [termination_simp]: "length (lx_rest (advance st)) \<le> length (lx_rest st)"
  by (simp add: advance_def split: list.splits)

subsection \<open>Loops\<close>

function skip_while :: "(uchar \<Rightarrow> bool) \<Rightarrow> lexer \<Rightarrow> lexer" where
  "skip_while P st =
    (case peek st of None \<Rightarrow> st | Some c \<Rightarrow> if P c then skip_while P (advance st) else st)"
  by pat_completeness auto
termination
  by (relation "measure (\<lambda>(P, st). length (lx_rest st))") (auto simp: length_advance)

declare skip_while.simps [simp del]

function block_comment :: "u32 \<Rightarrow> lexer \<Rightarrow> lexer" where
  "block_comment depth st =
    (if depth = 0 then st
     else (case peek st of
             None \<Rightarrow> st
           | Some c \<Rightarrow>
              if c = uc (CHR ''/'') \<and> next_at st (CHR ''*'') then block_comment (depth + 1) (advance (advance st))
              else if c = uc (CHR ''*'') \<and> next_at st (CHR ''/'') then block_comment (depth - 1) (advance (advance st))
              else block_comment depth (advance st)))"
  by pat_completeness auto
termination
  by (relation "measure (\<lambda>(d, st). length (lx_rest st))")
     (auto intro: le_less_trans [OF length_advance_le length_advance] length_advance)

declare block_comment.simps [simp del]

lemma skip_while_length [termination_simp]: "length (lx_rest (skip_while P st)) \<le> length (lx_rest st)"
proof (induction P st rule: skip_while.induct)
  case (1 P st)
  then show ?case
    using length_advance_le [of st] by (subst skip_while.simps) (auto split: option.splits intro: order_trans)
qed

lemma block_comment_length [termination_simp]: "length (lx_rest (block_comment d st)) \<le> length (lx_rest st)"
proof (induction d st rule: block_comment.induct)
  case (1 d st)
  note le = length_advance_le [of st] length_advance_le [of "advance st"]
  show ?case
    using 1 le by (subst block_comment.simps) (auto split: option.splits intro: order_trans)
qed

definition is_space :: "uchar \<Rightarrow> bool" where
  "is_space c \<longleftrightarrow> c = 32 \<or> c = 9 \<or> c = newline \<or> c = 13"

function trivia :: "lexer \<Rightarrow> lexer" where
  "trivia st =
    (case peek st of
       None \<Rightarrow> st
     | Some c \<Rightarrow>
        if is_space c then trivia (advance st)
        else if c = uc (CHR ''/'') \<and> next_at st (CHR ''/'')
        then trivia (skip_while (\<lambda>c. c \<noteq> newline) (advance (advance st)))
        else if c = uc (CHR ''/'') \<and> next_at st (CHR ''*'')
        then trivia (block_comment 1 (advance (advance st)))
        else st)"
  by pat_completeness auto
termination
  by (relation "measure (\<lambda>st. length (lx_rest st))")
     (auto intro: length_advance le_less_trans [OF skip_while_length] le_less_trans [OF block_comment_length]
        le_less_trans [OF length_advance_le length_advance])

declare trivia.simps [simp del]

definition lex_trivia :: "lexer \<Rightarrow> bool \<times> lexer" where
  "lex_trivia st = (let st' = trivia st in (lx_pos st < lx_pos st', st'))"

subsection \<open>Identifiers and numbers\<close>

definition ident_char :: "char_class \<Rightarrow> uchar \<Rightarrow> bool" where
  "ident_char cc c \<longleftrightarrow> is_alphanumeric cc c \<or> c = uc (CHR ''_'')"

definition lex_ident_or_keyword :: "char_class \<Rightarrow> lexer \<Rightarrow> lexer" where
  "lex_ident_or_keyword cc st = skip_while (ident_char cc) st"

definition number_suffixes :: "string list" where
  "number_suffixes = [''i8'', ''i16'', ''i32'', ''i64'', ''isize'', ''u8'', ''u16'', ''u32'', ''u64'', ''usize'',
     ''f32'', ''f64'']"

definition is_valid_number_suffix :: "uchar list \<Rightarrow> bool" where
  "is_valid_number_suffix sfx = list_ex (\<lambda>s. sfx = ucs s) number_suffixes"

definition lex_number_suffix :: "char_class \<Rightarrow> lexer \<Rightarrow> lexer" where
  "lex_number_suffix cc st =
    (let st' = skip_while (ident_char cc) st in
     if lx_pos st < lx_pos st'
     then let sfx = slice_text st st' in
          if is_valid_number_suffix sfx then st'
          else lex_error (lx_span st (lx_pos st) (lx_pos st')) (InvalidSuffix sfx) st'
     else st')"

definition digit_or_underscore :: "uchar \<Rightarrow> bool" where
  "digit_or_underscore c \<longleftrightarrow> is_ascii_digit c \<or> c = uc (CHR ''_'')"

definition lex_radix :: "char_class \<Rightarrow> (uchar \<Rightarrow> bool) \<Rightarrow> lexer \<Rightarrow> lexer" where
  "lex_radix cc digit st =
    lex_number_suffix cc (skip_while (\<lambda>c. digit c \<or> c = uc (CHR ''_'')) (advance (advance st)))"

definition lex_exponent :: "bool \<Rightarrow> lexer \<Rightarrow> syntax_kind option \<times> bool \<times> lexer" where
  "lex_exponent is_float st =
    (if at st (CHR ''e'') \<or> at st (CHR ''E'')
     then let st1 = advance st;
              st2 = (if at st1 (CHR ''+'') \<or> at st1 (CHR ''-'') then advance st1 else st1);
              st3 = skip_while digit_or_underscore st2
          in if lx_pos st3 = lx_pos st2
             then (Some (if is_float then SkFloatLit else SkIntLit), is_float,
                   (lex_error (lx_span st (lx_pos st) (lx_pos st3)) (IncompleteExponent (slice_text st st3)) st3)
                     \<lparr>lx_pos := lx_pos st, lx_rest := lx_rest st\<rparr>)
             else (None, True, st3)
     else (None, is_float, st))"

definition lex_decimal :: "char_class \<Rightarrow> lexer \<Rightarrow> syntax_kind \<times> lexer" where
  "lex_decimal cc st =
    (let st1 = skip_while digit_or_underscore st;
         frac = at st1 (CHR ''.'') \<and> (case peek_next st1 of Some n \<Rightarrow> is_ascii_digit n | None \<Rightarrow> False);
         st2 = (if frac then skip_while digit_or_underscore (advance st1) else st1)
     in case lex_exponent frac st2 of
          (Some kind, _, st3) \<Rightarrow> (kind, st3)
        | (None, is_float, st3) \<Rightarrow> (if is_float then SkFloatLit else SkIntLit, lex_number_suffix cc st3))"

definition lex_number :: "char_class \<Rightarrow> lexer \<Rightarrow> syntax_kind \<times> lexer" where
  "lex_number cc st =
    (if at st (CHR ''0'') \<and> (next_at st (CHR ''x'') \<or> next_at st (CHR ''X''))
     then (SkIntLit, lex_radix cc is_ascii_hexdigit st)
     else if at st (CHR ''0'') \<and> (next_at st (CHR ''b'') \<or> next_at st (CHR ''B''))
     then (SkIntLit, lex_radix cc (\<lambda>c. c = uc (CHR ''0'') \<or> c = uc (CHR ''1'')) st)
     else if at st (CHR ''0'') \<and> (next_at st (CHR ''o'') \<or> next_at st (CHR ''O''))
     then (SkIntLit, lex_radix cc (\<lambda>c. in_range (CHR ''0'') c (CHR ''7'')) st)
     else lex_decimal cc st)"

subsection \<open>Quoted literals\<close>

text \<open>The body of a literal up to the closing quote; the flag says whether it was found.\<close>

function quoted :: "uchar \<Rightarrow> lexer \<Rightarrow> bool \<times> lexer" where
  "quoted q st =
    (case peek st of
       None \<Rightarrow> (False, st)
     | Some c \<Rightarrow>
        if c = q then (True, advance st)
        else if c = backslash then quoted q (advance (advance st))
        else quoted q (advance st))"
  by pat_completeness auto
termination
  by (relation "measure (\<lambda>(q, st). length (lx_rest st))")
     (auto intro: le_less_trans [OF length_advance_le length_advance] length_advance)

declare quoted.simps [simp del]

definition lex_string :: "lexer \<Rightarrow> lexer" where
  "lex_string st =
    (case quoted dquote (advance st) of
       (True, st') \<Rightarrow> st'
     | (False, st') \<Rightarrow> lex_error (lx_span st (lx_pos st) (lx_pos st')) UnterminatedString st')"

definition lex_char :: "lexer \<Rightarrow> lexer" where
  "lex_char st =
    (case quoted squote (advance st) of
       (True, st') \<Rightarrow> st'
     | (False, st') \<Rightarrow> lex_error (lx_span st (lx_pos st) (lx_pos st')) UnterminatedChar st')"

definition lex_byte_lit :: "lexer \<Rightarrow> lexer" where
  "lex_byte_lit st =
    (let st1 = advance st in
     case peek st1 of
       None \<Rightarrow> st1
     | Some c \<Rightarrow>
        if c = squote \<or> c = dquote
        then (case quoted c (advance st1) of
                (True, st') \<Rightarrow> st'
              | (False, st') \<Rightarrow> lex_error (lx_span st (lx_pos st') (lx_pos st')) UnterminatedByte st')
        else st1)"

text \<open>The identifier that would follow a quote, and whether the quote starts a lifetime.\<close>

definition is_lifetime :: "char_class \<Rightarrow> lexer \<Rightarrow> bool" where
  "is_lifetime cc st =
    (case peek st of
       None \<Rightarrow> False
     | Some first \<Rightarrow>
        (is_alphabetic cc first \<or> first = uc (CHR ''_'')) \<and>
        peek (skip_while (ident_char cc) (advance st)) \<noteq> Some squote)"

definition lex_quote :: "char_class \<Rightarrow> lexer \<Rightarrow> syntax_kind \<times> lexer" where
  "lex_quote cc st =
    (let st1 = advance st in
     if is_lifetime cc st1 then (SkLifetime, skip_while (ident_char cc) (advance st1))
     else (SkCharLit, lex_char st))"

subsection \<open>Operators\<close>

definition lex_dot :: "lexer \<Rightarrow> punct \<times> lexer" where
  "lex_dot st =
    (let st1 = advance st in
     if at st1 (CHR ''.'')
     then let st2 = advance st1 in if at st2 (CHR ''='') then (DotDotEq, advance st2) else (DotDot, st2)
     else (Dot, st1))"

definition lex_opt :: "char \<Rightarrow> punct \<Rightarrow> punct \<Rightarrow> lexer \<Rightarrow> punct \<times> lexer" where
  "lex_opt c yes no st = (let st1 = advance st in if at st1 c then (yes, advance st1) else (no, st1))"

definition lex_opt2 :: "char \<Rightarrow> punct \<Rightarrow> char \<Rightarrow> punct \<Rightarrow> punct \<Rightarrow> lexer \<Rightarrow> punct \<times> lexer" where
  "lex_opt2 c k c' k' no st =
    (let st1 = advance st in
     if at st1 c then (k, advance st1) else if at st1 c' then (k', advance st1) else (no, st1))"

definition lex_colon :: "lexer \<Rightarrow> punct \<times> lexer" where "lex_colon = lex_opt (CHR '':'') ColonColon Colon"
definition lex_plus :: "lexer \<Rightarrow> punct \<times> lexer" where "lex_plus = lex_opt (CHR ''='') PlusEq Plus"
definition lex_minus :: "lexer \<Rightarrow> punct \<times> lexer" where
  "lex_minus = lex_opt2 (CHR ''>'') Arrow (CHR ''='') MinusEq Minus"
definition lex_star :: "lexer \<Rightarrow> punct \<times> lexer" where "lex_star = lex_opt (CHR ''='') StarEq Star"
definition lex_slash :: "lexer \<Rightarrow> punct \<times> lexer" where "lex_slash = lex_opt (CHR ''='') SlashEq Slash"
definition lex_eq :: "lexer \<Rightarrow> punct \<times> lexer" where
  "lex_eq = lex_opt2 (CHR ''='') EqEq (CHR ''>'') FatArrow Eq"
definition lex_bang :: "lexer \<Rightarrow> punct \<times> lexer" where "lex_bang = lex_opt (CHR ''='') BangEq Bang"
definition lex_and :: "lexer \<Rightarrow> punct \<times> lexer" where
  "lex_and = lex_opt2 (CHR ''&'') AndAnd (CHR ''='') AndEq And"
definition lex_or :: "lexer \<Rightarrow> punct \<times> lexer" where
  "lex_or = lex_opt2 (CHR ''|'') OrOr (CHR ''='') OrEq Or"
definition lex_caret :: "lexer \<Rightarrow> punct \<times> lexer" where "lex_caret = lex_opt (CHR ''='') CaretEq Caret"

definition lex_shift :: "char \<Rightarrow> punct \<Rightarrow> punct \<Rightarrow> punct \<Rightarrow> punct \<Rightarrow> lexer \<Rightarrow> punct \<times> lexer" where
  "lex_shift c eq shift shift_eq no st =
    (let st1 = advance st in
     if at st1 (CHR ''='') then (eq, advance st1)
     else if at st1 c
     then let st2 = advance st1 in if at st2 (CHR ''='') then (shift_eq, advance st2) else (shift, st2)
     else (no, st1))"

definition lex_lt :: "lexer \<Rightarrow> punct \<times> lexer" where "lex_lt = lex_shift (CHR ''<'') LtEq Shl ShlEq Lt"
definition lex_gt :: "lexer \<Rightarrow> punct \<times> lexer" where "lex_gt = lex_shift (CHR ''>'') GtEq Shr ShrEq Gt"

text \<open>The punctuation of a single character.\<close>

definition single_puncts :: "(char \<times> punct) list" where
  "single_puncts = [(CHR ''('', LParen), (CHR '')'', RParen), (CHR ''{'', LBrace), (CHR ''}'', RBrace),
     (CHR ''['', LBracket), (CHR '']'', RBracket), (CHR '','', Comma), (CHR '';'', Semicolon), (CHR ''%'', Percent),
     (CHR ''@'', At), (CHR ''#'', Hash), (CHR ''$'', Dollar), (CHR ''~'', Tilde), (CHR ''?'', Question)]"

definition op_lexers :: "(char \<times> (lexer \<Rightarrow> punct \<times> lexer)) list" where
  "op_lexers = [(CHR ''.'', lex_dot), (CHR '':'', lex_colon), (CHR ''+'', lex_plus), (CHR ''-'', lex_minus),
     (CHR ''*'', lex_star), (CHR ''/'', lex_slash), (CHR ''='', lex_eq), (CHR ''!'', lex_bang), (CHR ''<'', lex_lt),
     (CHR ''>'', lex_gt), (CHR ''&'', lex_and), (CHR ''|'', lex_or), (CHR ''^'', lex_caret)]"

definition lookup_uc :: "(char \<times> 'a) list \<Rightarrow> uchar \<Rightarrow> 'a option" where
  "lookup_uc tbl c = map_of (map (\<lambda>(k, v). (uc k, v)) tbl) c"

subsection \<open>Keywords\<close>

definition keyword_table :: "(string \<times> keyword) list" where
  "keyword_table =
    [(''fn'', KwFn),
     (''let'', KwLet),
     (''struct'', KwStruct),
     (''enum'', KwEnum),
     (''if'', KwIf),
     (''else'', KwElse),
     (''return'', KwReturn),
     (''match'', KwMatch),
     (''mod'', KwMod),
     (''comptime'', KwComptime),
     (''self'', KwSelf),
     (''super'', KwSuper),
     (''crate'', KwCrate),
     (''true'', KwTrue),
     (''false'', KwFalse),
     (''mut'', KwMut),
     (''move'', KwMove),
     (''ref'', KwRef),
     (''as'', KwAs),
     (''while'', KwWhile),
     (''for'', KwFor),
     (''in'', KwIn),
     (''break'', KwBreak),
     (''continue'', KwContinue),
     (''loop'', KwLoop),
     (''trait'', KwTrait),
     (''impl'', KwImpl),
     (''where'', KwWhere),
     (''dyn'', KwDyn),
     (''type'', KwType),
     (''use'', KwUse),
     (''pub'', KwPub),
     (''priv'', KwPriv),
     (''extern'', KwExtern),
     (''unsafe'', KwUnsafe),
     (''const'', KwConst),
     (''static'', KwStatic),
     (''async'', KwAsync),
     (''await'', KwAwait),
     (''macro'', KwMacro),
     (''macro_rules'', KwMacroRules)]"

definition lookup_keyword :: "uchar list \<Rightarrow> syntax_kind" where
  "lookup_keyword ident =
    (case map_of (map (\<lambda>(s, k). (ucs s, k)) keyword_table) ident of
       Some k \<Rightarrow> SkKeyword k
     | None \<Rightarrow> if ident = ucs ''_'' then SkUnderscore else SkIdent)"

subsection \<open>The main loop\<close>

text \<open>One token, from a state whose next character is \<open>c\<close>.\<close>

definition lex_token :: "char_class \<Rightarrow> uchar \<Rightarrow> lexer \<Rightarrow> syntax_kind \<times> lexer" where
  "lex_token cc c st =
    (if is_ident_start c
     then if (c = uc (CHR ''b'') \<or> c = uc (CHR ''B'')) \<and> (peek_next st = Some squote \<or> peek_next st = Some dquote)
          then (SkByteLit, lex_byte_lit st)
          else let st' = lex_ident_or_keyword cc st in (lookup_keyword (slice_text st st'), st')
     else if is_ascii_digit c then lex_number cc st
     else if c = dquote then (SkStringLit, lex_string st)
     else if c = squote then lex_quote cc st
     else (case lookup_uc single_puncts c of
             Some k \<Rightarrow> (SkPunct k, advance st)
           | None \<Rightarrow>
              (case lookup_uc op_lexers c of
                 Some lex_op \<Rightarrow> (let (k, st') = lex_op st in (SkPunct k, st'))
               | None \<Rightarrow>
                  (let st' = advance st in
                   (SkError, lex_error (lx_span st (lx_pos st) (lx_pos st')) (UnexpectedCharacter c) st')))))"

definition make_token :: "syntax_kind \<Rightarrow> lexer \<Rightarrow> lexer \<Rightarrow> token" where
  "make_token kind st st' =
    \<lparr>tk_kind = kind, tk_span = lx_span st (lx_pos st) (lx_pos st'), tk_text = slice_text st st'\<rparr>"

subsection \<open>What a state has consumed\<close>

definition utf8_len :: "uchar list \<Rightarrow> nat" where
  "utf8_len xs = sum_list (map len_utf8 xs)"

definition consumes :: "uchar list \<Rightarrow> lexer \<Rightarrow> lexer \<Rightarrow> bool" where
  "consumes xs st st' \<longleftrightarrow> lx_rest st = xs @ lx_rest st' \<and> lx_pos st' = lx_pos st + utf8_len xs \<and> lx_file st' = lx_file st"

definition advances :: "lexer \<Rightarrow> lexer \<Rightarrow> bool" where
  "advances st st' \<longleftrightarrow> (\<exists>xs. consumes xs st st')"

lemma len_utf8_pos: "0 < len_utf8 c"
  by (simp add: len_utf8_def)

lemma utf8_len_simps [simp]: "utf8_len [] = 0" "utf8_len (x # xs) = len_utf8 x + utf8_len xs"
    "utf8_len (xs @ ys) = utf8_len xs + utf8_len ys"
  by (simp_all add: utf8_len_def)

lemma utf8_len_pos: "0 < utf8_len xs \<longleftrightarrow> xs \<noteq> []"
  using len_utf8_pos by (cases xs) (auto simp: add_pos_nonneg)

lemma consumes_refl [simp]: "consumes [] st st"
  by (simp add: consumes_def)

lemma consumes_trans: "consumes xs st st1 \<Longrightarrow> consumes ys st1 st2 \<Longrightarrow> consumes (xs @ ys) st st2"
  by (simp add: consumes_def)

lemma consumes_advance: "peek st = Some c \<Longrightarrow> consumes [c] st (advance st)"
  by (auto simp: consumes_def peek_def advance_def split: list.splits)

lemma consumes_advance2: "peek st = Some c \<Longrightarrow> peek_next st = Some d \<Longrightarrow> consumes [c, d] st (advance (advance st))"
  by (auto simp: consumes_def peek_def peek_next_def advance_def split: list.splits)

lemma consumes_lex_error [simp]: "consumes xs st (lex_error sp m st') \<longleftrightarrow> consumes xs st st'"
  by (simp add: consumes_def lex_error_def)

lemma consumes_slice: "consumes xs st st' \<Longrightarrow> slice_text st st' = xs"
  by (simp add: consumes_def slice_text_def)

lemma consumes_moved: "consumes xs st st' \<Longrightarrow> lx_pos st < lx_pos st' \<longleftrightarrow> xs \<noteq> []"
  using utf8_len_pos [of xs] by (simp add: consumes_def)

lemma consumes_length: "consumes xs st st' \<Longrightarrow> length (lx_rest st) = length xs + length (lx_rest st')"
  by (simp add: consumes_def)

lemma advances_refl [simp]: "advances st st"
  unfolding advances_def by (rule exI [of _ "[]"]) simp

lemma advances_trans [trans]: "advances st st1 \<Longrightarrow> advances st1 st2 \<Longrightarrow> advances st st2"
  unfolding advances_def using consumes_trans by blast

lemma advances_advance [simp]: "advances st (advance st)"
proof (cases "peek st")
  case None
  then have "advance st = st" by (simp add: peek_def advance_def split: list.splits)
  then show ?thesis by simp
next
  case (Some c)
  then show ?thesis unfolding advances_def using consumes_advance by blast
qed

lemma advances_lex_error [simp]: "advances st (lex_error sp m st') \<longleftrightarrow> advances st st'"
  by (simp add: advances_def)

lemma skip_while_consumes:
  "consumes (takeWhile P (lx_rest st)) st (skip_while P st) \<and>
   (case peek (skip_while P st) of None \<Rightarrow> True | Some c \<Rightarrow> \<not> P c)"
proof (induction P st rule: skip_while.induct)
  case (1 P st)
  show ?case
  proof (cases "peek st")
    case None
    then show ?thesis by (simp add: skip_while.simps peek_def split: list.splits)
  next
    case (Some c)
    then obtain cs where r: "lx_rest st = c # cs" by (auto simp: peek_def split: list.splits)
    show ?thesis
    proof (cases "P c")
      case True
      have "lx_rest (advance st) = cs" using r by (simp add: advance_def)
      then show ?thesis
        using 1 [OF Some True] consumes_trans [OF consumes_advance [OF Some]] Some True r
        by (subst (1 2) skip_while.simps) simp
    next
      case False
      then show ?thesis using Some r by (simp add: skip_while.simps)
    qed
  qed
qed

lemma advances_skip_while [simp]: "advances st (skip_while P st)"
  unfolding advances_def using skip_while_consumes by blast

lemma advances_advance2: "advances st (advance (advance st))"
  using advances_trans advances_advance by blast

lemma advances_block_comment [simp]: "advances st (block_comment d st)"
proof (induction d st rule: block_comment.induct)
  case (1 d st)
  then show ?case
    by (subst block_comment.simps)
       (auto split: option.splits intro: advances_trans [OF advances_advance] advances_trans [OF advances_advance2])
qed

lemma advances_quoted: "quoted q st = (b, st') \<Longrightarrow> advances st st'"
proof (induction q st arbitrary: st' rule: quoted.induct)
  case (1 q st)
  from 1(3) 1(1,2) show ?case
    by (subst (asm) quoted.simps)
       (auto split: option.splits if_splits intro: advances_trans [OF advances_advance] advances_trans [OF advances_advance2])
qed

subsection \<open>Every token consumes\<close>

text \<open>A lexer of one token: from a state with a next character it moves on by at least one.\<close>

definition token_step :: "lexer \<Rightarrow> lexer \<Rightarrow> bool" where
  "token_step st st' \<longleftrightarrow> advances (advance st) st'"

lemma token_step_length:
  "peek st = Some c \<Longrightarrow> token_step st st' \<Longrightarrow> length (lx_rest st') < length (lx_rest st)"
  using length_advance [of st c] by (auto simp: token_step_def advances_def dest!: consumes_length)

lemma token_step_advance [simp]: "token_step st (advance st)" "token_step st (advance (advance st))"
    "token_step st (advance (advance (advance st)))"
  by (simp_all add: token_step_def advances_advance2)

lemma token_step_trans: "token_step st st1 \<Longrightarrow> advances st1 st2 \<Longrightarrow> token_step st st2"
  by (auto simp: token_step_def intro: advances_trans)

lemma lex_number_suffix_advances: "advances st (lex_number_suffix cc st)"
  by (simp add: lex_number_suffix_def Let_def)

lemma lex_exponent_advances: "lex_exponent f st = (k, f', st') \<Longrightarrow> advances st st'"
proof -
  have "advances st (X\<lparr>lx_pos := lx_pos st, lx_rest := lx_rest st\<rparr>)" if "advances st X" for X
    using that unfolding advances_def consumes_def by (intro exI [of _ "[]"]) auto
  moreover have "advances st (skip_while P (advance st))" "advances st (skip_while P (advance (advance st)))" for P
    using advances_trans [OF advances_advance advances_skip_while]
      advances_trans [OF advances_advance2 advances_skip_while] by blast+
  ultimately show "lex_exponent f st = (k, f', st') \<Longrightarrow> advances st st'"
    by (auto simp: lex_exponent_def Let_def split: if_splits)
qed

lemma digit_step:
  assumes "peek st = Some c" "digit_or_underscore c"
  shows "token_step st (skip_while digit_or_underscore st)"
proof -
  have "skip_while digit_or_underscore st = skip_while digit_or_underscore (advance st)"
    using assms by (subst skip_while.simps) simp
  then show ?thesis by (simp add: token_step_def)
qed

lemma lex_decimal_step:
  assumes "peek st = Some c" "is_ascii_digit c" "lex_decimal cc st = (k, st')"
  shows "token_step st st'"
proof -
  let ?st1 = "skip_while digit_or_underscore st"
  have "token_step st ?st1" using assms by (intro digit_step) (auto simp: digit_or_underscore_def)
  moreover have "advances ?st1 (skip_while digit_or_underscore (advance ?st1))"
    using advances_trans [OF advances_advance advances_skip_while] .
  ultimately have frac: "token_step st (skip_while digit_or_underscore (advance ?st1))" and int: "token_step st ?st1"
    using token_step_trans by blast+
  have "token_step st st2 \<Longrightarrow> lex_exponent f st2 = (kd, f', st3) \<Longrightarrow>
      token_step st st3 \<and> token_step st (lex_number_suffix cc st3)" for f st2 kd f' st3
    using token_step_trans lex_exponent_advances lex_number_suffix_advances by metis
  from this [OF frac] this [OF int] assms(3) show ?thesis
    by (auto simp: lex_decimal_def Let_def split: prod.splits option.splits if_splits)
qed

lemma lex_number_step:
  assumes "peek st = Some c" "is_ascii_digit c" "lex_number cc st = (k, st')"
  shows "token_step st st'"
proof -
  have "token_step st (lex_radix cc d st)" for d
    unfolding lex_radix_def
    using token_step_trans [OF token_step_trans [OF token_step_advance(2) advances_skip_while] lex_number_suffix_advances] .
  then show ?thesis
    using assms lex_decimal_step [OF assms(1,2)] by (auto simp: lex_number_def split: if_splits)
qed

lemma lex_string_step: "token_step st (lex_string st)"
  using advances_quoted [of dquote "advance st"] by (auto simp: lex_string_def token_step_def split: prod.splits bool.splits)

lemma lex_char_step: "token_step st (lex_char st)"
  using advances_quoted [of squote "advance st"] by (auto simp: lex_char_def token_step_def split: prod.splits bool.splits)

lemma lex_byte_lit_step: "token_step st (lex_byte_lit st)"
proof -
  have "advances (advance st) st'" if "quoted c (advance (advance st)) = (b, st')" for c b st'
    using advances_trans [OF advances_advance advances_quoted [OF that]] .
  then show ?thesis
    by (auto simp: lex_byte_lit_def Let_def token_step_def split: option.splits prod.splits bool.splits)
qed

lemma lex_quote_step: "lex_quote cc st = (k, st') \<Longrightarrow> token_step st st'"
  using lex_char_step token_step_trans [OF token_step_advance(2) advances_skip_while]
  by (auto simp: lex_quote_def Let_def split: if_splits)

lemmas op_defs = lex_dot_def lex_opt_def lex_opt2_def lex_colon_def lex_plus_def lex_minus_def lex_star_def
  lex_slash_def lex_eq_def lex_bang_def lex_and_def lex_or_def lex_caret_def lex_shift_def lex_lt_def lex_gt_def

lemma op_lexers_step:
  assumes "lookup_uc op_lexers c = Some f" "f st = (k, st')"
  shows "token_step st st'"
proof -
  have "list_all (\<lambda>(_, g). \<forall>k s. g st = (k, s) \<longrightarrow> token_step st s) op_lexers"
    by (simp add: op_lexers_def) (simp add: op_defs Let_def)
  moreover obtain ch where "(ch, f) \<in> set op_lexers"
    using assms(1) by (auto simp: lookup_uc_def dest!: map_of_SomeD)
  ultimately show ?thesis using assms(2) by (fastforce simp: list_all_iff)
qed

lemma ident_start_char: "is_ident_start c \<Longrightarrow> ident_char cc c"
  by (auto simp: is_ident_start_def ident_char_def is_alphanumeric_def ascii_letter_def)

lemma lex_ident_step:
  assumes "peek st = Some c" "is_ident_start c"
  shows "token_step st (lex_ident_or_keyword cc st)"
proof -
  have "skip_while (ident_char cc) st = skip_while (ident_char cc) (advance st)"
    using assms ident_start_char by (subst skip_while.simps) simp
  then show ?thesis by (simp add: token_step_def lex_ident_or_keyword_def)
qed

lemma lex_token_step:
  assumes "peek st = Some c" "lex_token cc c st = (k, st')"
  shows "token_step st st'"
  using assms lex_ident_step [OF assms(1)] lex_number_step [OF assms(1)] op_lexers_step lex_quote_step
  by (auto simp: lex_token_def Let_def lex_byte_lit_step lex_string_step token_step_def [of _ "lex_error _ _ _"]
      split: if_splits option.splits prod.splits)

lemma trivia_advances: "advances st (trivia st)"
proof (induction st rule: trivia.induct)
  case (1 st)
  have "advances st (skip_while P (advance (advance st)))" "advances st (block_comment 1 (advance (advance st)))" for P
    using advances_trans [OF advances_advance2 advances_skip_while]
      advances_trans [OF advances_advance2 advances_block_comment] by blast+
  then show ?case
    using 1 by (subst trivia.simps) (auto split: option.splits intro: advances_trans [OF advances_advance] advances_trans)
qed

function lex_loop :: "char_class \<Rightarrow> lexer \<Rightarrow> token list \<Rightarrow> lex_result" where
  "lex_loop cc st tokens =
    (if lx_rest st = [] then \<lparr>lr_tokens = tokens, lr_diagnostics = lx_diags st\<rparr>
     else let (moved, st1) = lex_trivia st in
       if moved then lex_loop cc st1 tokens
       else (case peek st1 of
               None \<Rightarrow> \<lparr>lr_tokens = tokens, lr_diagnostics = lx_diags st1\<rparr>
             | Some c \<Rightarrow>
                let (kind, st2) = lex_token cc c st1 in lex_loop cc st2 (tokens @ [make_token kind st1 st2])))"
  by pat_completeness auto
termination
proof (relation "measure (\<lambda>(cc, st, tokens). length (lx_rest st))", goal_cases)
  case (2 cc st tokens x moved st1)
  obtain xs where xs: "consumes xs st (trivia st)" using trivia_advances [of st] by (auto simp: advances_def)
  have "st1 = trivia st" "lx_pos st < lx_pos (trivia st)" using 2 by (auto simp: lex_trivia_def Let_def)
  then show ?case using consumes_moved [OF xs] consumes_length [OF xs] by simp
next
  case (3 cc st tokens x moved st1 c y kind st2)
  then have "length (lx_rest st2) < length (lx_rest st1)"
    using token_step_length lex_token_step by (metis)
  moreover have "length (lx_rest st1) \<le> length (lx_rest st)"
    using 3 trivia_advances [of st] by (auto simp: lex_trivia_def Let_def advances_def dest: consumes_length)
  ultimately show ?case by simp
qed simp

declare lex_loop.simps [simp del]

definition lex :: "char_class \<Rightarrow> uchar list \<Rightarrow> u32 \<Rightarrow> lex_result" where
  "lex cc source file_id = lex_loop cc (lexer_new source file_id) []"

end
