(* ===== verification/Parser.thy ===== *)
theory Parser
  imports Lexer
begin

text \<open>
  The recursive-descent parser of \<^verbatim>\<open>crates/glyim-frontend/src/parser\<close>.  The tree builder belongs to a third-party crate, so
  the parser's output is the sequence of calls it makes on the builder; a checkpoint is the number of calls before it.  A
  parsing function is a state transformer that is \<open>None\<close> when it runs out of fuel.  Calls that the grammar makes
  recursively go through the argument \<open>call\<close>, one unit of fuel each; a loop may take as many turns as fuel is left at its
  place.  Tokens never are blanks or comments, so the look-ahead functions that skip blanks look at the next tokens.
\<close>

subsection \<open>Builder calls and state\<close>

datatype item_node =
    SourceFile | Module | FnDef | StructDef | EnumDef | TraitDef | ImplDef | TypeAlias | ConstDef | StaticDef | UseDecl
  | ExternBlock | ParamList | Param | TypeParamList | TypeParam | WhereClause | WherePredicate | Bound | UsePath | UseTree
  | VariantList | EnumVariant | FieldList | StructField

datatype vis_node = Visibility | VisCrate | VisSuper | VisSelf | VisPath

datatype macro_node = MacroCall | MacroDef | MacroArm | TokenTree | MetaVar | MetaVarCrate

datatype expr_node =
    Block | LetStmt | ExprStmt | IfExpr | WhileExpr | LoopExpr | ForExpr | MatchExpr | MatchArm | MatchArmList | ReturnExpr
  | BreakExpr | ContinueExpr | CallExpr | MethodCallExpr | FieldExpr | IndexExpr | UnaryExpr | BinaryExpr | CastExpr
  | AssignExpr | RangeExpr | TupleExpr | ArrayExpr | StructExpr | ClosureExpr | PathExpr | LitExpr | AwaitExpr | TryExpr

datatype type_node =
    PathType | RefType | RawPtrType | ArrayType | SliceType | TupleType | NeverType | InferType | DynType | ImplTraitType
  | FnType | LifetimeNode | GenericArgList

datatype pat_node = PatIdent | PatWild | PatLit | PatRange | PatTuple | PatStruct | PatOr | PatSlice | PatRef

datatype node_kind =
    NkItem item_node | NkVis vis_node | NkMacro macro_node | NkExpr expr_node | NkType type_node | NkPat pat_node

datatype builder_call =
    BcStart node_kind
  | BcStartAt nat node_kind
  | BcToken syntax_kind "uchar list"
  | BcFinish

datatype parse_message =
    PmText string
  | PmExpected syntax_kind syntax_kind
  | PmFound string syntax_kind

record parse_diagnostic =
  pdg_span :: span
  pdg_message :: parse_message

record parser =
  ps_tokens :: "token list"
  ps_pos :: nat
  ps_calls :: "builder_call list"
  ps_diagnostics :: "parse_diagnostic list"
  ps_last_was_path :: bool
  ps_suppress_struct_lit :: bool
  ps_pending_gt :: nat

definition parser_new :: "token list \<Rightarrow> parser" where
  "parser_new ts = \<lparr>ps_tokens = ts, ps_pos = 0, ps_calls = [], ps_diagnostics = [], ps_last_was_path = False,
     ps_suppress_struct_lit = False, ps_pending_gt = 0\<rparr>"

definition current :: "parser \<Rightarrow> token option" where
  "current p = get (ps_tokens p) (ps_pos p)"

definition current_kind :: "parser \<Rightarrow> syntax_kind" where
  "current_kind p =
    (if 0 < ps_pending_gt p then SkPunct Gt else case current p of Some t \<Rightarrow> tk_kind t | None \<Rightarrow> SkError)"

definition kind_at :: "parser \<Rightarrow> nat \<Rightarrow> syntax_kind" where
  "kind_at p i = (case get (ps_tokens p) i of Some t \<Rightarrow> tk_kind t | None \<Rightarrow> SkError)"

definition peek_non_ws_kind :: "nat \<Rightarrow> parser \<Rightarrow> syntax_kind" where
  "peek_non_ws_kind n p = kind_at p (ps_pos p + 1 + n)"

definition next_non_ws_kind :: "parser \<Rightarrow> syntax_kind" where
  "next_non_ws_kind p = kind_at p (ps_pos p + 1)"

definition peek_kind :: "parser \<Rightarrow> syntax_kind option" where
  "peek_kind p = map_option tk_kind (get (ps_tokens p) (ps_pos p + 1))"

subsection \<open>Primitive operations\<close>

type_synonym parse = "parser \<Rightarrow> parser option"

definition emit_call :: "builder_call \<Rightarrow> parser \<Rightarrow> parser" where
  "emit_call c p = p\<lparr>ps_calls := ps_calls p @ [c]\<rparr>"

definition gt_text :: "uchar list" where "gt_text = ucs ''>''"

definition bump :: parse where
  "bump p = Some
    (if 0 < ps_pending_gt p then (emit_call (BcToken (SkPunct Gt) gt_text) p)\<lparr>ps_pending_gt := ps_pending_gt p - 1\<rparr>
     else case current p of
            Some t \<Rightarrow> (emit_call (BcToken (tk_kind t) (tk_text t)) p)\<lparr>ps_pos := ps_pos p + 1\<rparr>
          | None \<Rightarrow> p)"

definition parse_error :: "parse_message \<Rightarrow> parse" where
  "parse_error m p = Some (p\<lparr>ps_diagnostics := ps_diagnostics p @
     [\<lparr>pdg_span = (case current p of Some t \<Rightarrow> tk_span t | None \<Rightarrow> span_DUMMY), pdg_message = m\<rparr>]\<rparr>)"

text \<open>A word in single quotes, in messages that end with it.\<close>

definition quoted_text :: "string \<Rightarrow> string" where
  "quoted_text s = CHR 0x27 # s @ [CHR 0x27]"

definition error_text :: "string \<Rightarrow> parse" where
  "error_text s = parse_error (PmText s)"

definition error_found :: "string \<Rightarrow> parse" where
  "error_found s p = parse_error (PmFound s (current_kind p)) p"

definition expect :: "syntax_kind \<Rightarrow> parse" where
  "expect k p = (if current_kind p = k then bump p else parse_error (PmExpected k (current_kind p)) p)"

definition bump_expected :: "syntax_kind \<Rightarrow> parse" where
  "bump_expected k p =
    Option.bind (if current_kind p \<noteq> k then parse_error (PmExpected k (current_kind p)) p else Some p) (\<lambda>p.
      if current p \<noteq> None \<or> 0 < ps_pending_gt p then bump p else Some p)"

definition start_node :: "node_kind \<Rightarrow> parse" where
  "start_node k p = Some (emit_call (BcStart k) p)"

definition start_node_at :: "nat \<Rightarrow> node_kind \<Rightarrow> parse" where
  "start_node_at cp k p = Some (emit_call (BcStartAt cp k) p)"

definition finish_node :: parse where
  "finish_node p = Some (emit_call BcFinish p)"

definition emit_token :: "syntax_kind \<Rightarrow> uchar list \<Rightarrow> parse" where
  "emit_token k s p = Some (emit_call (BcToken k s) p)"

definition skip_token :: parse where
  "skip_token p = Some (if current p \<noteq> None then p\<lparr>ps_pos := ps_pos p + 1\<rparr> else p)"

definition set_last_was_path :: "bool \<Rightarrow> parse" where
  "set_last_was_path b p = Some (p\<lparr>ps_last_was_path := b\<rparr>)"

definition set_suppress :: "bool \<Rightarrow> parse" where
  "set_suppress b p = Some (p\<lparr>ps_suppress_struct_lit := b\<rparr>)"

subsection \<open>Control flow\<close>

primrec steps :: "parse list \<Rightarrow> parse" where
  "steps [] p = Some p"
| "steps (a # as) p = Option.bind (a p) (steps as)"

definition if_kind :: "syntax_kind list \<Rightarrow> parse \<Rightarrow> parse \<Rightarrow> parse" where
  "if_kind ks a b p = (if current_kind p \<in> set ks then a p else b p)"

definition when_kind :: "syntax_kind list \<Rightarrow> parse \<Rightarrow> parse" where
  "when_kind ks a = if_kind ks a (steps [])"

definition unless_kind :: "syntax_kind list \<Rightarrow> parse \<Rightarrow> parse" where
  "unless_kind ks a = if_kind ks (steps []) a"

primrec match_kind :: "(syntax_kind list \<times> parse) list \<Rightarrow> parse \<Rightarrow> parse" where
  "match_kind [] d = d"
| "match_kind (r # rs) d = if_kind (fst r) (snd r) (match_kind rs d)"

definition if_state :: "(parser \<Rightarrow> bool) \<Rightarrow> parse \<Rightarrow> parse \<Rightarrow> parse" where
  "if_state c a b p = (if c p then a p else b p)"

definition with_checkpoint :: "(nat \<Rightarrow> parse) \<Rightarrow> parse" where
  "with_checkpoint f p = f (length (ps_calls p)) p"

primrec loop :: "nat \<Rightarrow> (parser \<Rightarrow> bool) \<Rightarrow> parse \<Rightarrow> parse" where
  "loop 0 c a p = None"
| "loop (Suc k) c a p = (if c p then Option.bind (a p) (loop k c a) else Some p)"

definition while_kind :: "nat \<Rightarrow> syntax_kind list \<Rightarrow> parse \<Rightarrow> parse" where
  "while_kind n ks = loop n (\<lambda>p. current_kind p \<in> set ks)"

definition until_kind :: "nat \<Rightarrow> syntax_kind list \<Rightarrow> parse \<Rightarrow> parse" where
  "until_kind n ks = loop n (\<lambda>p. current_kind p \<notin> set ks \<and> current p \<noteq> None)"

text \<open>A loop over a kind whose body says whether to go on.\<close>

primrec while_break :: "nat \<Rightarrow> syntax_kind list \<Rightarrow> (parser \<Rightarrow> (bool \<times> parser) option) \<Rightarrow> parse" where
  "while_break 0 ks a p = None"
| "while_break (Suc k) ks a p =
    (if current_kind p \<in> set ks
     then Option.bind (a p) (\<lambda>(go, p'). if go then while_break k ks a p' else Some p')
     else Some p)"

definition going :: "bool \<Rightarrow> parse \<Rightarrow> parser \<Rightarrow> (bool \<times> parser) option" where
  "going b a p = map_option (Pair b) (a p)"

definition bump_if_any :: parse where
  "bump_if_any = if_state (\<lambda>p. current p \<noteq> None) bump (steps [])"

datatype grammar_nt = NtStmt | NtExpr | NtUnary | NtIf | NtPat | NtType | NtItem | NtTokenTree | NtUseTree

type_synonym call = "grammar_nt \<Rightarrow> parse"

definition kws :: "keyword list \<Rightarrow> syntax_kind list" where "kws = map SkKeyword"
definition pns :: "punct list \<Rightarrow> syntax_kind list" where "pns = map SkPunct"

text \<open>\<open>Ident | KwSelf | KwSuper | KwCrate\<close>, the kinds that can begin a path.\<close>

definition path_kinds :: "syntax_kind list" where
  "path_kinds = SkIdent # kws [KwSelf, KwSuper, KwCrate]"

abbreviation comma_opt :: parse where
  "comma_opt \<equiv> when_kind (pns [Comma]) bump"

text \<open>\<open>while kind != close { item; optional comma }\<close>.\<close>

definition items_until :: "nat \<Rightarrow> punct \<Rightarrow> parse \<Rightarrow> parse" where
  "items_until n close a = until_kind n (pns [close]) (steps [a, comma_opt])"

end
