(* ===== verification/Parser_Grammar.thy ===== *)
theory Parser_Grammar
  imports Parser
begin

text \<open>
  The grammar functions of \<^verbatim>\<open>crates/glyim-frontend/src/parser\<close> (\<^verbatim>\<open>expr.rs\<close>, \<^verbatim>\<open>pat.rs\<close>, \<^verbatim>\<open>ty.rs\<close>, \<^verbatim>\<open>stmt.rs\<close>, \<^verbatim>\<open>item.rs\<close>), one
  definition each.  A \<open>break\<close> that leaves the parser at a kind on which the loop ends anyway is the loop's own condition.
\<close>

subsection \<open>Paths and type arguments\<close>

text \<open>\<open>>>\<close> closes two lists: both tokens are emitted and the second is queued.\<close>

definition split_shr :: parse where
  "split_shr = steps [emit_token (SkPunct Gt) gt_text, emit_token (SkPunct Gt) gt_text,
     (\<lambda>p. Some (p\<lparr>ps_pos := ps_pos p + 1, ps_pending_gt := ps_pending_gt p + 1\<rparr>))]"

definition close_angle :: parse where
  "close_angle = if_kind (pns [Shr]) split_shr (when_kind (pns [Gt]) bump)"

definition parse_type_arg_list :: "call \<Rightarrow> nat \<Rightarrow> parse" where
  "parse_type_arg_list call n = steps [
     bump,
     until_kind n (pns [Gt, Shr]) (steps [
       call NtType,
       when_kind (pns [Eq]) (steps [bump, call NtType]),
       comma_opt]),
     close_angle]"

definition path_segment :: "call \<Rightarrow> nat \<Rightarrow> parser \<Rightarrow> (bool \<times> parser) option" where
  "path_segment call n p = Option.bind (bump p) (\<lambda>p.
     if current_kind p \<in> set path_kinds then going True bump p
     else if current_kind p = SkPunct Lt then going True (parse_type_arg_list call n) p
     else if current_kind p \<in> set (pns [Star, LBrace]) then Some (False, p)
     else going False (error_text (''expected identifier, '<', '*', or '{{' after '' @ quoted_text ''::'')) p)"

definition parse_path_inner :: "call \<Rightarrow> nat \<Rightarrow> parse" where
  "parse_path_inner call n = if_kind path_kinds
     (steps [bump, while_break n (pns [ColonColon]) (path_segment call n)])
     (error_text ''expected identifier in path'')"

definition parse_path :: "call \<Rightarrow> nat \<Rightarrow> parse" where
  "parse_path call n = steps [start_node (NkItem UsePath), parse_path_inner call n, finish_node]"

definition parse_path_expr :: "call \<Rightarrow> nat \<Rightarrow> parse" where
  "parse_path_expr call n = steps [start_node (NkExpr PathExpr), parse_path call n, finish_node, set_last_was_path True]"

subsection \<open>Blocks and compound expressions\<close>

definition parse_block_inner :: "call \<Rightarrow> nat \<Rightarrow> parse" where
  "parse_block_inner call n = until_kind n (pns [RBrace]) (call NtStmt)"

definition parse_block :: "call \<Rightarrow> nat \<Rightarrow> parse" where
  "parse_block call n = steps [
     start_node (NkExpr Block), expect (SkPunct LBrace), parse_block_inner call n, expect (SkPunct RBrace), finish_node]"

definition parse_label :: parse where
  "parse_label = if_state (\<lambda>p. current_kind p \<in> {SkIdent, SkLifetime} \<and> peek_kind p = Some (SkPunct Colon))
     (steps [bump, bump]) (steps [])"

text \<open>The condition of \<open>if\<close> and \<open>while\<close>; struct literals are off in it.\<close>

definition parse_condition :: "call \<Rightarrow> parse" where
  "parse_condition call = steps [
     set_suppress True,
     if_kind (kws [KwLet]) (steps [bump, call NtPat, expect (SkPunct Eq), call NtExpr]) (call NtExpr),
     set_suppress False]"

definition parse_if_expr :: "call \<Rightarrow> nat \<Rightarrow> parse" where
  "parse_if_expr call n = steps [
     start_node (NkExpr IfExpr),
     bump_expected (SkKeyword KwIf),
     parse_condition call,
     parse_block call n,
     when_kind (kws [KwElse]) (steps [bump, if_kind (kws [KwIf]) (call NtIf) (parse_block call n)]),
     finish_node]"

definition parse_while_expr :: "call \<Rightarrow> nat \<Rightarrow> parse" where
  "parse_while_expr call n = steps [
     start_node (NkExpr WhileExpr), parse_label, bump, parse_condition call, parse_block call n, finish_node]"

definition parse_for_expr :: "call \<Rightarrow> nat \<Rightarrow> parse" where
  "parse_for_expr call n = steps [
     start_node (NkExpr ForExpr), parse_label, bump,
     set_suppress True, call NtPat, expect (SkKeyword KwIn), call NtExpr, set_suppress False,
     parse_block call n, finish_node]"

definition parse_loop_expr :: "call \<Rightarrow> nat \<Rightarrow> parse" where
  "parse_loop_expr call n = steps [
     start_node (NkExpr LoopExpr), parse_label, bump,
     if_kind (pns [LBrace]) (parse_block call n) (error_text ''expected '{{' after loop''),
     finish_node]"

subsection \<open>Patterns\<close>

definition literal_kinds :: "syntax_kind list" where
  "literal_kinds = [SkIntLit, SkFloatLit, SkStringLit, SkCharLit] @ kws [KwTrue, KwFalse]"

definition pat_field :: "call \<Rightarrow> nat \<Rightarrow> parse" where
  "pat_field call n = steps [
     match_kind [
       (pns [DotDot], steps [bump, comma_opt]),
       ([SkIdent], with_checkpoint (\<lambda>cp. steps [
          bump,
          if_kind (pns [Colon])
            (steps [start_node_at cp (NkPat PatIdent), finish_node, bump, call NtPat])
            (steps [start_node_at cp (NkPat PatIdent), finish_node])]))]
       (steps [error_text ''expected field pattern'', bump_if_any]),
     comma_opt]"

definition pat_path :: "call \<Rightarrow> nat \<Rightarrow> parse" where
  "pat_path call n = with_checkpoint (\<lambda>cp. steps [
     start_node (NkItem UsePath), parse_path_inner call n, finish_node,
     match_kind [
       (pns [LParen], steps [
          start_node_at cp (NkPat PatStruct), start_node (NkPat PatTuple), bump,
          items_until n RParen (call NtPat),
          expect (SkPunct RParen), finish_node, finish_node]),
       (pns [LBrace], steps [
          start_node_at cp (NkPat PatStruct), bump,
          until_kind n (pns [RBrace]) (pat_field call n),
          expect (SkPunct RBrace), finish_node])]
       (steps [])])"

definition pat_literal :: "call \<Rightarrow> parse" where
  "pat_literal call = with_checkpoint (\<lambda>cp. steps [
     bump,
     if_kind (pns [DotDot, DotDotEq])
       (steps [
          start_node_at cp (NkPat PatRange), bump,
          unless_kind (pns [FatArrow, Comma, RBrace, RParen, RBracket])
            (steps [unless_kind literal_kinds (error_text ''range endpoint must be a literal''), call NtPat]),
          finish_node])
       (steps [start_node_at cp (NkPat PatLit), finish_node])])"

definition parse_pat_inner :: "call \<Rightarrow> nat \<Rightarrow> parse" where
  "parse_pat_inner call n = match_kind [
     (pns [LBracket], steps [
        start_node (NkPat PatSlice), bump,
        until_kind n (pns [RBracket]) (if_kind (pns [DotDot]) (steps [bump, comma_opt]) (steps [call NtPat, comma_opt])),
        expect (SkPunct RBracket), finish_node]),
     (pns [Bang], steps [start_node (NkType NeverType), bump, finish_node]),
     ([SkUnderscore], steps [start_node (NkPat PatWild), bump, finish_node]),
     (path_kinds,
        if_state (\<lambda>p. case peek_kind p of Some k \<Rightarrow> k \<in> set (pns [ColonColon, LParen, LBrace]) | None \<Rightarrow> False)
          (pat_path call n)
          (steps [start_node (NkPat PatIdent), bump, finish_node])),
     (literal_kinds, pat_literal call)]
     (steps [error_found ''expected pattern'', bump_if_any])"

definition parse_pat_single :: "call \<Rightarrow> nat \<Rightarrow> parse" where
  "parse_pat_single call n = match_kind [
     (kws [KwRef], steps [bump, when_kind (kws [KwMut]) bump, parse_pat_inner call n]),
     (kws [KwMut], steps [bump, parse_pat_inner call n]),
     (pns [AndAnd], steps [
        start_node (NkPat PatRef), bump, start_node (NkPat PatRef), bump, parse_pat_inner call n, finish_node, finish_node]),
     (pns [And], steps [bump, when_kind (kws [KwMut]) bump, parse_pat_inner call n]),
     (pns [LParen], steps [
        start_node (NkPat PatTuple), bump, items_until n RParen (call NtPat), expect (SkPunct RParen), finish_node])]
     (parse_pat_inner call n)"

definition parse_pat :: "call \<Rightarrow> nat \<Rightarrow> parse" where
  "parse_pat call n = with_checkpoint (\<lambda>cp. steps [
     parse_pat_single call n,
     when_kind (pns [Or]) (steps [
       start_node_at cp (NkPat PatOr),
       while_kind n (pns [Or]) (steps [bump, parse_pat_single call n]),
       finish_node])])"

subsection \<open>Types\<close>

text \<open>\<open>loop { parse_type; if + { bump } else { break } }\<close>.\<close>

definition bounds_list :: "call \<Rightarrow> nat \<Rightarrow> parse" where
  "bounds_list call n = steps [call NtType, while_kind n (pns [Plus]) (steps [bump, call NtType])]"

definition type_path :: "call \<Rightarrow> nat \<Rightarrow> parse" where
  "type_path call n = steps [
     start_node (NkType PathType),
     parse_path call n,
     match_kind [
       (pns [Lt], parse_type_arg_list call n),
       (pns [LParen], steps [
          start_node (NkType GenericArgList), bump, items_until n RParen (call NtType), expect (SkPunct RParen), finish_node])]
       (steps []),
     when_kind (pns [Arrow]) (steps [bump, call NtType]),
     finish_node]"

text \<open>\<open>&&\<close> is emitted as two ampersands.\<close>

definition split_and :: parse where
  "split_and = steps [
     start_node (NkType RefType), emit_token (SkPunct And) (ucs ''&''),
     start_node (NkType RefType), emit_token (SkPunct And) (ucs ''&''), skip_token]"

definition ref_ref_type :: "call \<Rightarrow> parse" where
  "ref_ref_type call = steps [split_and, call NtType, finish_node, finish_node]"

definition parse_type :: "call \<Rightarrow> nat \<Rightarrow> parse" where
  "parse_type call n = match_kind [
     (pns [AndAnd], if_state (\<lambda>p. current p \<noteq> None) (ref_ref_type call) (steps [])),
     (pns [And], steps [
        start_node (NkType RefType), bump,
        while_kind n (SkLifetime # kws [KwMut]) bump,
        call NtType, finish_node]),
     ([SkLifetime], steps [start_node (NkType LifetimeNode), bump, finish_node]),
     (pns [Star], steps [
        start_node (NkType RawPtrType), bump, when_kind (kws [KwConst, KwMut]) bump, call NtType, finish_node]),
     (pns [LBracket], with_checkpoint (\<lambda>cp. steps [
        bump, call NtType,
        if_kind (pns [Semicolon])
          (steps [start_node_at cp (NkType ArrayType), bump, call NtExpr, expect (SkPunct RBracket), finish_node])
          (steps [start_node_at cp (NkType SliceType), expect (SkPunct RBracket), finish_node])])),
     (pns [LParen], steps [
        start_node (NkType TupleType), bump, items_until n RParen (call NtType), expect (SkPunct RParen), finish_node]),
     (pns [Bang], steps [start_node (NkType NeverType), bump, finish_node]),
     ([SkUnderscore], steps [start_node (NkType InferType), bump, finish_node]),
     (kws [KwDyn], steps [start_node (NkType DynType), bump, bounds_list call n, finish_node]),
     (kws [KwImpl], steps [start_node (NkType ImplTraitType), bump, bounds_list call n, finish_node]),
     (kws [KwFn], steps [
        start_node (NkType FnType), bump, expect (SkPunct LParen), items_until n RParen (call NtType), expect (SkPunct RParen),
        when_kind (pns [Arrow]) (steps [bump, call NtType]), finish_node]),
     (path_kinds, type_path call n)]
     (steps [error_found ''expected type'', bump_if_any])"

subsection \<open>Expressions\<close>

definition expr_ends :: "syntax_kind list" where
  "expr_ends = pns [Semicolon, RBrace, Comma, FatArrow, RParen, RBracket, Eq]"

text \<open>The operand of \<open>return\<close> and \<open>break\<close>.\<close>

definition jump_expr :: "call \<Rightarrow> expr_node \<Rightarrow> parse" where
  "jump_expr call k = steps [start_node (NkExpr k), bump, unless_kind expr_ends (call NtExpr), finish_node]"

definition closure_param :: "call \<Rightarrow> nat \<Rightarrow> parse" where
  "closure_param call n = steps [
     start_node (NkItem Param), parse_pat_single call n,
     when_kind (pns [Colon]) (steps [bump, call NtType]),
     finish_node, comma_opt]"

definition closure_params :: "call \<Rightarrow> nat \<Rightarrow> parse" where
  "closure_params call n = steps [
     until_kind n (pns [Or]) (closure_param call n),
     if_kind (pns [Or]) bump (error_text ''expected '|' to close closure parameters'')]"

definition parse_closure_expr :: "call \<Rightarrow> nat \<Rightarrow> parse" where
  "parse_closure_expr call n = steps [
     start_node (NkExpr ClosureExpr),
     when_kind (kws [KwMove]) bump,
     if_kind (pns [OrOr])
       (steps [bump, start_node (NkItem ParamList)])
       (steps [if_kind (pns [Or]) bump (error_text ''expected '|' or '||' to start a closure''),
          start_node (NkItem ParamList), closure_params call n]),
     finish_node,
     when_kind (pns [Arrow]) (steps [bump, call NtType]),
     if_kind (pns [LBrace]) (parse_block call n) (call NtExpr),
     finish_node]"

definition parse_match_arm :: "call \<Rightarrow> nat \<Rightarrow> parse" where
  "parse_match_arm call n = steps [
     start_node (NkExpr MatchArm), call NtPat,
     when_kind (kws [KwIf]) (steps [bump, call NtExpr]),
     expect (SkPunct FatArrow),
     if_kind (pns [LBrace]) (parse_block call n) (call NtExpr),
     comma_opt, finish_node]"

definition parse_match_expr :: "call \<Rightarrow> nat \<Rightarrow> parse" where
  "parse_match_expr call n = steps [
     start_node (NkExpr MatchExpr), bump,
     set_suppress True, call NtExpr, set_suppress False,
     expect (SkPunct LBrace), start_node (NkExpr MatchArmList),
     until_kind n (pns [RBrace]) (parse_match_arm call n),
     finish_node, expect (SkPunct RBrace), finish_node]"

definition parse_paren_expr :: "call \<Rightarrow> nat \<Rightarrow> parse" where
  "parse_paren_expr call n = with_checkpoint (\<lambda>cp. steps [
     bump,
     if_kind (pns [RParen])
       (steps [bump, start_node_at cp (NkExpr TupleExpr), finish_node])
       (steps [call NtExpr,
          if_kind (pns [Comma])
            (steps [start_node_at cp (NkExpr TupleExpr), while_kind n (pns [Comma]) (steps [bump, call NtExpr]),
               expect (SkPunct RParen), finish_node])
            (expect (SkPunct RParen))])])"

text \<open>\<open>while kind == , { bump; if kind == close { break }; parse_expr }\<close>.\<close>

definition more_exprs :: "call \<Rightarrow> nat \<Rightarrow> punct \<Rightarrow> parse" where
  "more_exprs call n close = while_kind n (pns [Comma]) (steps [bump, unless_kind (pns [close]) (call NtExpr)])"

definition parse_array_expr :: "call \<Rightarrow> nat \<Rightarrow> parse" where
  "parse_array_expr call n = steps [
     start_node (NkExpr ArrayExpr), bump,
     unless_kind (pns [RBracket]) (steps [call NtExpr,
       if_kind (pns [Semicolon]) (steps [bump, call NtExpr]) (more_exprs call n RBracket)]),
     expect (SkPunct RBracket), finish_node]"

definition labeled_expr :: "call \<Rightarrow> nat \<Rightarrow> parse" where
  "labeled_expr call n = steps [
     bump, bump,
     match_kind [
       (kws [KwLoop], parse_loop_expr call n),
       (kws [KwWhile], parse_while_expr call n),
       (kws [KwFor], parse_for_expr call n),
       (pns [LBrace], parse_block call n)]
       (error_text ''expected loop, while, for, or block after label'')]"

definition unlabeled_expr :: "call \<Rightarrow> nat \<Rightarrow> parse" where
  "unlabeled_expr call n = match_kind [
     (path_kinds, parse_path_expr call n),
     (SkByteLit # literal_kinds, steps [start_node (NkExpr LitExpr), bump, finish_node]),
     (pns [LParen], parse_paren_expr call n),
     (kws [KwMove], parse_closure_expr call n),
     (pns [Or, OrOr], parse_closure_expr call n),
     (kws [KwUnsafe], steps [bump, if_kind (pns [LBrace]) (parse_block call n) (error_text ''expected '{{' after unsafe'')]),
     (pns [LBrace], parse_block call n),
     (kws [KwIf], parse_if_expr call n),
     (kws [KwWhile], parse_while_expr call n),
     (kws [KwLoop], parse_loop_expr call n),
     (kws [KwFor], parse_for_expr call n),
     (kws [KwReturn], jump_expr call ReturnExpr),
     (kws [KwBreak], jump_expr call BreakExpr),
     (kws [KwContinue], steps [start_node (NkExpr ContinueExpr), bump, finish_node]),
     (pns [LBracket], parse_array_expr call n),
     (kws [KwMatch], parse_match_expr call n)]
     (steps [error_found ''expected expression'', bump_if_any])"

definition parse_primary_expr :: "call \<Rightarrow> nat \<Rightarrow> parse" where
  "parse_primary_expr call n = steps [
     set_last_was_path False,
     if_state (\<lambda>p. current_kind p \<in> {SkIdent, SkLifetime} \<and> peek_kind p = Some (SkPunct Colon))
       (labeled_expr call n) (unlabeled_expr call n)]"

text \<open>A shorthand field emits its name twice, once for the field and once for its value.\<close>

definition field_shorthand :: "nat \<Rightarrow> token \<Rightarrow> parse" where
  "field_shorthand cp t = steps [
     start_node_at cp (NkItem StructField),
     start_node (NkExpr PathExpr), start_node (NkItem UsePath), emit_token (tk_kind t) (tk_text t),
     finish_node, finish_node, finish_node]"

definition named_field :: "call \<Rightarrow> nat \<Rightarrow> parse" where
  "named_field call cp = (\<lambda>p.
     case current p of
       None \<Rightarrow> None
     | Some t \<Rightarrow> steps [
         bump,
         if_kind (pns [Colon])
           (steps [bump, start_node_at cp (NkItem StructField), finish_node, call NtExpr])
           (field_shorthand cp t)] p)"

definition struct_literal_field :: "call \<Rightarrow> parse" where
  "struct_literal_field call = steps [
     match_kind [
       ([SkIdent], with_checkpoint (named_field call)),
       (pns [DotDot], steps [bump, unless_kind (pns [RBrace]) (call NtExpr)])]
       (steps [error_text (''expected field name or '' @ quoted_text ''..''), bump_if_any]),
     comma_opt]"

definition call_args :: "call \<Rightarrow> nat \<Rightarrow> parse" where
  "call_args call n = steps [
     bump, unless_kind (pns [RParen]) (steps [call NtExpr, more_exprs call n RParen]), expect (SkPunct RParen), finish_node]"

definition postfix_dot :: "call \<Rightarrow> nat \<Rightarrow> nat \<Rightarrow> parse" where
  "postfix_dot call n cp = steps [
     bump,
     if_kind (kws [KwAwait])
       (steps [bump, start_node_at cp (NkExpr AwaitExpr), finish_node])
       (steps [
          if_kind [SkIdent, SkIntLit, SkFloatLit] bump (error_text (''expected field name or index after '' @ quoted_text ''.'')),
          when_kind (pns [ColonColon]) (steps [bump, when_kind (pns [Lt]) (parse_type_arg_list call n)]),
          if_kind (pns [LParen])
            (steps [start_node_at cp (NkExpr MethodCallExpr), call_args call n])
            (steps [start_node_at cp (NkExpr FieldExpr), finish_node])])]"

definition postfix_step :: "call \<Rightarrow> nat \<Rightarrow> nat \<Rightarrow> parse" where
  "postfix_step call n cp = match_kind [
     (pns [Dot], postfix_dot call n cp),
     (pns [LParen], steps [start_node_at cp (NkExpr CallExpr), call_args call n]),
     (pns [LBracket], steps [
        start_node_at cp (NkExpr IndexExpr), bump, call NtExpr, expect (SkPunct RBracket), finish_node]),
     (pns [Question], steps [start_node_at cp (NkExpr TryExpr), bump, finish_node]),
     (kws [KwAs], steps [start_node_at cp (NkExpr CastExpr), bump, call NtType, finish_node]),
     (pns [LBrace], steps [
        start_node_at cp (NkExpr StructExpr), bump,
        until_kind n (pns [RBrace]) (struct_literal_field call),
        expect (SkPunct RBrace), finish_node])]
     (steps [])"

definition postfix_goes_on :: "parser \<Rightarrow> bool" where
  "postfix_goes_on p \<longleftrightarrow>
    current_kind p \<in> set (pns [Dot, LParen, LBracket, Question] @ kws [KwAs]) \<or>
    current_kind p = SkPunct LBrace \<and> ps_last_was_path p \<and> \<not> ps_suppress_struct_lit p"

definition parse_postfix_expr :: "call \<Rightarrow> nat \<Rightarrow> parse" where
  "parse_postfix_expr call n = with_checkpoint (\<lambda>cp. steps [
     parse_primary_expr call n,
     if_state (\<lambda>p. current_kind p = SkPunct Bang \<and> ps_last_was_path p)
       (steps [start_node_at cp (NkMacro MacroCall), bump, call NtTokenTree, finish_node])
       (loop n postfix_goes_on (postfix_step call n cp))])"

definition parse_unary_expr :: "call \<Rightarrow> nat \<Rightarrow> parse" where
  "parse_unary_expr call n = if_kind (pns [Bang, Minus, Star, And])
     (steps [start_node (NkExpr UnaryExpr), bump, when_kind (kws [KwMut]) bump, call NtUnary, finish_node])
     (parse_postfix_expr call n)"

text \<open>The left-associative levels: after one node is finished, the next one starts behind it.\<close>

definition infix_step :: "parse \<Rightarrow> parse" where
  "infix_step operand = steps [bump, operand, finish_node]"

primrec infix_loop :: "nat \<Rightarrow> syntax_kind list \<Rightarrow> parse \<Rightarrow> nat \<Rightarrow> parse" where
  "infix_loop 0 ks operand cp p = None"
| "infix_loop (Suc k) ks operand cp p =
    (if current_kind p \<in> set ks
     then Option.bind (steps [start_node_at cp (NkExpr BinaryExpr), infix_step operand] p) (\<lambda>p'.
            with_checkpoint (infix_loop k ks operand) p')
     else Some p)"

definition infix_level :: "nat \<Rightarrow> syntax_kind list \<Rightarrow> parse \<Rightarrow> parse" where
  "infix_level n ks operand = with_checkpoint (\<lambda>cp. steps [operand, infix_loop n ks operand cp])"

definition parse_multiplicative_expr :: "call \<Rightarrow> nat \<Rightarrow> parse" where
  "parse_multiplicative_expr call n = infix_level n (pns [Star, Slash, Percent]) (parse_unary_expr call n)"

definition parse_additive_expr :: "call \<Rightarrow> nat \<Rightarrow> parse" where
  "parse_additive_expr call n = infix_level n (pns [Plus, Minus]) (parse_multiplicative_expr call n)"

definition parse_bitwise_expr :: "call \<Rightarrow> nat \<Rightarrow> parse" where
  "parse_bitwise_expr call n = infix_level n (pns [And, Or, Caret, Shl, Shr]) (parse_additive_expr call n)"

definition parse_comparison_expr :: "call \<Rightarrow> nat \<Rightarrow> parse" where
  "parse_comparison_expr call n = with_checkpoint (\<lambda>cp. steps [
     parse_bitwise_expr call n,
     when_kind (pns [EqEq, BangEq, Lt, Gt, LtEq, GtEq])
       (steps [start_node_at cp (NkExpr BinaryExpr), bump, parse_bitwise_expr call n, finish_node])])"

text \<open>The logical levels start their node behind the left operand.\<close>

definition logical_level :: "nat \<Rightarrow> punct \<Rightarrow> parse \<Rightarrow> parse" where
  "logical_level n op operand = steps [operand,
     while_kind n (pns [op]) (steps [start_node (NkExpr BinaryExpr), bump, operand, finish_node])]"

definition parse_and_expr :: "call \<Rightarrow> nat \<Rightarrow> parse" where
  "parse_and_expr call n = logical_level n AndAnd (parse_comparison_expr call n)"

definition parse_or_expr :: "call \<Rightarrow> nat \<Rightarrow> parse" where
  "parse_or_expr call n = logical_level n OrOr (parse_and_expr call n)"

definition range_rest :: "call \<Rightarrow> nat \<Rightarrow> nat \<Rightarrow> parse" where
  "range_rest call n cp = steps [
     start_node_at cp (NkExpr RangeExpr), bump,
     unless_kind (pns [Eq, Semicolon, Comma, RParen, RBrace, RBracket]) (parse_or_expr call n),
     finish_node]"

definition parse_range_expr :: "call \<Rightarrow> nat \<Rightarrow> parse" where
  "parse_range_expr call n = with_checkpoint (\<lambda>cp.
     if_kind (pns [DotDot, DotDotEq])
       (range_rest call n cp)
       (steps [parse_or_expr call n, when_kind (pns [DotDot, DotDotEq]) (range_rest call n cp)]))"

definition parse_assignment_expr :: "call \<Rightarrow> nat \<Rightarrow> parse" where
  "parse_assignment_expr call n = with_checkpoint (\<lambda>cp. steps [
     parse_range_expr call n,
     when_kind (pns [Eq, PlusEq, MinusEq, StarEq, SlashEq, OrEq, AndEq, CaretEq, ShlEq, ShrEq])
       (steps [start_node_at cp (NkExpr AssignExpr), bump, call NtExpr, finish_node])])"

end
