(* ===== verification/Parser_Items.thy ===== *)
theory Parser_Items
  imports Parser_Grammar
begin

text \<open>
  Statements, token trees and items (\<^verbatim>\<open>stmt.rs\<close>, \<^verbatim>\<open>item.rs\<close>), the recursion through all grammar functions and the parser of a
  source file.
\<close>

subsection \<open>Token trees\<close>

definition tree_leaf :: parse where
  "tree_leaf = steps [start_node (NkMacro TokenTree), bump, finish_node]"

definition tree_or_leaf :: "call \<Rightarrow> parse" where
  "tree_or_leaf call = if_kind (pns [LParen, LBrace, LBracket]) (call NtTokenTree) tree_leaf"

definition dollar_tree :: "call \<Rightarrow> parse" where
  "dollar_tree call = steps [
     start_node (NkMacro TokenTree), bump,
     match_kind [
       (pns [LParen], steps [
          call NtTokenTree,
          when_kind (pns [Comma, Semicolon]) bump,
          if_kind (pns [Plus, Star, Question]) bump (error_text ''expected repetition operator after $(...)'')]),
       ([SkIdent], with_checkpoint (\<lambda>cp. steps [
          bump,
          if_kind (pns [Colon])
            (steps [bump, if_kind [SkIdent]
               (steps [start_node_at cp (NkMacro MetaVar), bump, finish_node])
               (error_text (''expected fragment specifier after '' @ quoted_text '':''))])
            (steps [start_node_at cp (NkMacro MetaVar), finish_node])])),
       (kws [KwCrate], steps [start_node (NkMacro MetaVarCrate), bump, finish_node])]
       (steps [error_text (''expected '(' or identifier after '' @ quoted_text ''$''), bump]),
     finish_node]"

definition parse_token_tree :: "call \<Rightarrow> nat \<Rightarrow> parse" where
  "parse_token_tree call n = match_kind [
     (pns [LParen], steps [
        start_node (NkMacro TokenTree), bump,
        items_until n RParen (if_kind (pns [Dollar]) (dollar_tree call) (tree_or_leaf call)),
        expect (SkPunct RParen), finish_node]),
     (pns [LBrace], steps [
        start_node (NkMacro TokenTree), bump, until_kind n (pns [RBrace]) (tree_or_leaf call),
        expect (SkPunct RBrace), finish_node]),
     (pns [LBracket], steps [
        start_node (NkMacro TokenTree), bump, until_kind n (pns [RBracket]) (tree_or_leaf call),
        expect (SkPunct RBracket), finish_node])]
     tree_leaf"

definition macro_arm :: "call \<Rightarrow> parse" where
  "macro_arm call = steps [
     start_node (NkMacro MacroArm), call NtTokenTree, expect (SkPunct FatArrow), call NtTokenTree, finish_node,
     when_kind (pns [Comma, Semicolon]) bump]"

definition parse_macro_def :: "call \<Rightarrow> nat \<Rightarrow> parse" where
  "parse_macro_def call n = steps [
     start_node (NkMacro MacroDef),
     if_kind (kws [KwMacroRules])
       (steps [bump_expected (SkKeyword KwMacroRules), bump_expected (SkPunct Bang), bump_expected SkIdent])
       (steps [bump_expected (SkKeyword KwMacro), bump_expected SkIdent, bump_expected (SkPunct Bang)]),
     expect (SkPunct LBrace),
     until_kind n (pns [RBrace]) (if_kind (pns [Comma, Semicolon]) bump (macro_arm call)),
     expect (SkPunct RBrace), finish_node]"

subsection \<open>Parts of items\<close>

definition vis_leaf :: "vis_node \<Rightarrow> parse" where
  "vis_leaf k = steps [start_node (NkVis k), bump, finish_node]"

definition parse_visibility :: "call \<Rightarrow> nat \<Rightarrow> parse" where
  "parse_visibility call n = when_kind (kws [KwPub]) (steps [
     start_node (NkVis Visibility), bump,
     when_kind (pns [LParen]) (steps [
       bump,
       match_kind [
         (kws [KwCrate], vis_leaf VisCrate),
         (kws [KwSuper], vis_leaf VisSuper),
         (kws [KwSelf], vis_leaf VisSelf),
         ([SkIdent], steps [start_node (NkVis VisPath), parse_path call n, finish_node])]
         (error_text ''expected crate, super, self, or path in visibility''),
       expect (SkPunct RParen)]),
     finish_node])"

definition type_param :: "call \<Rightarrow> nat \<Rightarrow> parse" where
  "type_param call n = steps [
     start_node (NkItem TypeParam),
     if_kind [SkLifetime] bump (bump_expected SkIdent),
     when_kind (pns [Colon]) (steps [bump, bounds_list call n]),
     when_kind (pns [Eq]) (steps [bump, call NtType]),
     finish_node, comma_opt]"

definition parse_type_param_list :: "call \<Rightarrow> nat \<Rightarrow> parse" where
  "parse_type_param_list call n = steps [
     start_node (NkItem TypeParamList), expect (SkPunct Lt),
     until_kind n (pns [Gt, Shr]) (type_param call n),
     close_angle, finish_node]"

definition type_params_opt :: "call \<Rightarrow> nat \<Rightarrow> parse" where
  "type_params_opt call n = when_kind (pns [Lt]) (parse_type_param_list call n)"

definition where_bound :: "call \<Rightarrow> parse" where
  "where_bound call = steps [start_node (NkItem Bound), call NtType, finish_node]"

definition where_predicate :: "call \<Rightarrow> nat \<Rightarrow> parse" where
  "where_predicate call n = steps [
     start_node (NkItem WherePredicate), call NtType,
     when_kind (pns [Colon]) (steps [bump, where_bound call, while_kind n (pns [Plus]) (steps [bump, where_bound call])]),
     finish_node]"

text \<open>After a comma the loop goes on where another predicate follows.\<close>

definition where_more :: "call \<Rightarrow> nat \<Rightarrow> parser \<Rightarrow> (bool \<times> parser) option" where
  "where_more call n p = Option.bind (bump p) (\<lambda>p.
     if current_kind p \<in> set (SkLifetime # path_kinds) then going True (where_predicate call n) p else Some (False, p))"

definition parse_where_clause :: "call \<Rightarrow> nat \<Rightarrow> parse" where
  "parse_where_clause call n = steps [
     start_node (NkItem WhereClause), expect (SkKeyword KwWhere),
     where_predicate call n, while_break n (pns [Comma]) (where_more call n),
     finish_node]"

definition where_opt :: "call \<Rightarrow> nat \<Rightarrow> parse" where
  "where_opt call n = when_kind (kws [KwWhere]) (parse_where_clause call n)"

definition initializer_opt :: "call \<Rightarrow> parse" where
  "initializer_opt call = when_kind (pns [Eq]) (steps [bump, call NtExpr])"

definition named_param :: "call \<Rightarrow> parse" where
  "named_param call = steps [bump_expected SkIdent, expect (SkPunct Colon), call NtType]"

definition parse_param :: "call \<Rightarrow> parse" where
  "parse_param call = steps [
     start_node (NkItem Param),
     match_kind [
       (pns [And], steps [
          bump, when_kind (kws [KwMut]) bump, when_kind [SkLifetime] bump,
          if_kind (kws [KwSelf]) (steps [start_node (NkType RefType), call NtType, finish_node]) (named_param call)]),
       (kws [KwMut], steps [bump, if_kind (kws [KwSelf]) bump (named_param call)]),
       (kws [KwSelf], bump)]
       (named_param call),
     finish_node]"

subsection \<open>Items\<close>

definition extern_prefix :: parse where
  "extern_prefix = when_kind (kws [KwExtern]) (steps [bump, when_kind [SkStringLit] bump])"

definition at_fn_modifier :: "parser \<Rightarrow> bool" where
  "at_fn_modifier p \<longleftrightarrow> current_kind p \<in> set (kws [KwConst, KwAsync]) \<and> next_non_ws_kind p = SkKeyword KwFn"

definition parse_fn_def :: "call \<Rightarrow> nat \<Rightarrow> parse" where
  "parse_fn_def call n = steps [
     start_node (NkItem FnDef),
     extern_prefix,
     if_state at_fn_modifier bump (steps []),
     bump_expected (SkKeyword KwFn), bump_expected SkIdent,
     type_params_opt call n,
     expect (SkPunct LParen),
     unless_kind (pns [RParen]) (steps [
       start_node (NkItem ParamList), items_until n RParen (parse_param call), finish_node]),
     expect (SkPunct RParen),
     when_kind (pns [Arrow]) (steps [bump, call NtType]),
     where_opt call n,
     if_kind (pns [LBrace]) (parse_block call n) (expect (SkPunct Semicolon)),
     finish_node]"

definition struct_field :: "call \<Rightarrow> nat \<Rightarrow> parse" where
  "struct_field call n = steps [
     parse_visibility call n,
     if_kind [SkIdent] (steps [bump, when_kind (pns [Colon]) (steps [bump, call NtType])])
       (steps [error_text ''expected field name'', bump]),
     comma_opt]"

definition parse_struct_def :: "call \<Rightarrow> nat \<Rightarrow> parse" where
  "parse_struct_def call n = steps [
     start_node (NkItem StructDef),
     bump_expected (SkKeyword KwStruct), bump_expected SkIdent,
     type_params_opt call n, where_opt call n,
     match_kind [
       (pns [LParen], steps [
          bump, items_until n RParen (steps [parse_visibility call n, call NtType]),
          expect (SkPunct RParen), expect (SkPunct Semicolon)]),
       (pns [LBrace], steps [
          bump, until_kind n (pns [RBrace]) (struct_field call n), expect (SkPunct RBrace)])]
       (expect (SkPunct Semicolon)),
     finish_node]"

definition variant_field :: "call \<Rightarrow> parse" where
  "variant_field call = steps [
     start_node (NkItem StructField),
     if_kind [SkIdent] (steps [bump, when_kind (pns [Colon]) (steps [bump, call NtType])])
       (steps [error_text ''expected field name'', bump_if_any]),
     finish_node, comma_opt]"

definition enum_variant :: "call \<Rightarrow> nat \<Rightarrow> parse" where
  "enum_variant call n = steps [
     start_node (NkItem EnumVariant), bump_expected SkIdent,
     when_kind (pns [LParen]) (steps [bump, items_until n RParen (call NtType), expect (SkPunct RParen)]),
     when_kind (pns [LBrace]) (steps [
       start_node (NkItem FieldList), bump, until_kind n (pns [RBrace]) (variant_field call),
       finish_node, expect (SkPunct RBrace)]),
     initializer_opt call,
     finish_node, comma_opt]"

definition parse_enum_def :: "call \<Rightarrow> nat \<Rightarrow> parse" where
  "parse_enum_def call n = steps [
     start_node (NkItem EnumDef),
     bump_expected (SkKeyword KwEnum), bump_expected SkIdent,
     type_params_opt call n, where_opt call n,
     expect (SkPunct LBrace), start_node (NkItem VariantList),
     until_kind n (pns [RBrace]) (enum_variant call n),
     finish_node, expect (SkPunct RBrace), finish_node]"

definition const_head :: "call \<Rightarrow> parse" where
  "const_head call = steps [bump_expected SkIdent, expect (SkPunct Colon), call NtType]"

text \<open>\<open>const\<close> in a module or a trait; in an impl the value is required.\<close>

definition const_item :: "call \<Rightarrow> parse" where
  "const_item call = steps [
     start_node (NkItem ConstDef), bump, const_head call, initializer_opt call, expect (SkPunct Semicolon), finish_node]"

definition impl_const :: "call \<Rightarrow> parse" where
  "impl_const call = steps [
     start_node (NkItem ConstDef), bump, const_head call, expect (SkPunct Eq), call NtExpr,
     expect (SkPunct Semicolon), finish_node]"

definition static_item :: "call \<Rightarrow> parse" where
  "static_item call = steps [
     start_node (NkItem StaticDef), bump, when_kind (kws [KwRef]) bump, when_kind (kws [KwMut]) bump,
     const_head call, initializer_opt call, expect (SkPunct Semicolon), finish_node]"

definition extern_static :: "call \<Rightarrow> parse" where
  "extern_static call = steps [
     start_node (NkItem StaticDef), bump, when_kind (kws [KwMut]) bump,
     const_head call, expect (SkPunct Semicolon), finish_node]"

definition alias_item :: "call \<Rightarrow> nat \<Rightarrow> parse" where
  "alias_item call n = steps [
     start_node (NkItem TypeAlias), bump, bump_expected SkIdent, type_params_opt call n,
     when_kind (pns [Eq]) (steps [bump, call NtType]), expect (SkPunct Semicolon), finish_node]"

definition trait_type :: "call \<Rightarrow> nat \<Rightarrow> parse" where
  "trait_type call n = steps [
     start_node (NkItem TypeAlias), bump, bump_expected SkIdent,
     when_kind (pns [Colon]) (steps [bump, bounds_list call n]), expect (SkPunct Semicolon), finish_node]"

definition impl_type :: "call \<Rightarrow> parse" where
  "impl_type call = steps [
     start_node (NkItem TypeAlias), bump, bump_expected SkIdent,
     when_kind (pns [Eq]) (steps [bump, call NtType]), expect (SkPunct Semicolon), finish_node]"

definition extern_items :: "call \<Rightarrow> nat \<Rightarrow> parse" where
  "extern_items call n = steps [
     bump,
     until_kind n (pns [RBrace]) (match_kind [
       (kws [KwFn], parse_fn_def call n),
       (kws [KwStatic], extern_static call)]
       (steps [error_text ''expected fn or static in extern block'', bump])),
     expect (SkPunct RBrace)]"

definition parse_extern_block :: "call \<Rightarrow> nat \<Rightarrow> parse" where
  "parse_extern_block call n = steps [
     start_node (NkItem ExternBlock), bump, when_kind [SkStringLit] bump,
     if_kind (pns [LBrace]) (extern_items call n) (expect (SkPunct Semicolon)), finish_node]"

text \<open>The same node at the level of items, where \<open>extern crate\<close> is possible too.\<close>

definition extern_item :: "call \<Rightarrow> nat \<Rightarrow> parse" where
  "extern_item call n = steps [
     start_node (NkItem ExternBlock), bump, when_kind [SkStringLit] bump,
     match_kind [
       (kws [KwCrate], steps [
          bump, bump_expected SkIdent, when_kind (kws [KwAs]) (steps [bump, bump_expected SkIdent])]),
       (pns [LBrace], extern_items call n)]
       (expect (SkPunct Semicolon)),
     finish_node]"

definition trait_member :: "call \<Rightarrow> nat \<Rightarrow> parse" where
  "trait_member call n = match_kind [
     (kws [KwFn], parse_fn_def call n),
     (kws [KwType], trait_type call n),
     (kws [KwConst], const_item call),
     (kws [KwExtern], parse_extern_block call n),
     (kws [KwUnsafe], call NtItem)]
     (steps [error_found ''expected trait item'', bump])"

definition parse_trait_def :: "call \<Rightarrow> nat \<Rightarrow> parse" where
  "parse_trait_def call n = steps [
     start_node (NkItem TraitDef),
     bump_expected (SkKeyword KwTrait), bump_expected SkIdent,
     type_params_opt call n,
     when_kind (pns [Colon]) (steps [bump, bounds_list call n]),
     where_opt call n,
     expect (SkPunct LBrace), until_kind n (pns [RBrace]) (trait_member call n), expect (SkPunct RBrace), finish_node]"

definition impl_member :: "call \<Rightarrow> nat \<Rightarrow> parse" where
  "impl_member call n = match_kind [
     (kws [KwFn], parse_fn_def call n),
     (kws [KwType], impl_type call),
     (kws [KwConst], impl_const call),
     (kws [KwExtern], parse_extern_block call n),
     (kws [KwUnsafe], call NtItem)]
     (steps [error_found ''expected impl item'', bump])"

definition parse_impl_def :: "call \<Rightarrow> nat \<Rightarrow> parse" where
  "parse_impl_def call n = steps [
     start_node (NkItem ImplDef),
     bump_expected (SkKeyword KwImpl),
     type_params_opt call n,
     call NtType,
     when_kind (kws [KwFor]) (steps [bump, call NtType]),
     where_opt call n,
     expect (SkPunct LBrace), until_kind n (pns [RBrace]) (impl_member call n), expect (SkPunct RBrace), finish_node]"

definition use_segment :: "parser \<Rightarrow> (bool \<times> parser) option" where
  "use_segment p = Option.bind (bump p) (\<lambda>p.
     if current_kind p \<in> set (pns [Star, LBrace]) then Some (False, p)
     else if current_kind p \<in> set path_kinds then going True bump p
     else going False (error_text (''expected identifier, '*', or '{{' after '' @ quoted_text ''::'')) p)"

text \<open>Where no segment is found the node that was started is not finished.\<close>

definition parse_use_path :: "nat \<Rightarrow> parse" where
  "parse_use_path n = steps [
     start_node (NkItem UsePath),
     if_kind path_kinds
       (steps [bump, while_break n (pns [ColonColon]) use_segment, finish_node])
       (error_text ''expected identifier in use path'')]"

definition parse_use_tree :: "call \<Rightarrow> nat \<Rightarrow> parse" where
  "parse_use_tree call n = steps [
     start_node (NkItem UseTree),
     parse_use_path n,
     when_kind (pns [Star]) bump,
     when_kind (kws [KwAs]) (steps [
       bump, if_kind [SkIdent, SkUnderscore] bump (error_text ''expected identifier or `_` after `as`'')]),
     when_kind (pns [LBrace]) (steps [bump, items_until n RBrace (call NtUseTree), expect (SkPunct RBrace)]),
     finish_node]"

definition parse_use_decl :: "call \<Rightarrow> nat \<Rightarrow> parse" where
  "parse_use_decl call n = steps [
     start_node (NkItem UseDecl), bump_expected (SkKeyword KwUse), call NtUseTree, expect (SkPunct Semicolon), finish_node]"

definition mod_item :: "call \<Rightarrow> nat \<Rightarrow> parse" where
  "mod_item call n = steps [
     start_node (NkItem Module), bump, bump_expected SkIdent,
     if_kind (pns [LBrace])
       (steps [bump, until_kind n (pns [RBrace]) (call NtItem), expect (SkPunct RBrace)])
       (expect (SkPunct Semicolon)),
     finish_node]"

definition item_kinds :: "syntax_kind list" where
  "item_kinds = kws [KwFn, KwStruct, KwUse, KwEnum, KwTrait, KwImpl, KwMod, KwConst, KwStatic, KwType, KwExtern]"

text \<open>After an unexpected token everything up to the beginning of an item is skipped.\<close>

definition skip_to_item :: "nat \<Rightarrow> parse" where
  "skip_to_item n = steps [
     error_found ''expected item'',
     until_kind n (item_kinds @ kws [KwPub, KwUnsafe, KwMacroRules]) bump]"

definition at_extern_fn :: "parser \<Rightarrow> bool" where
  "at_extern_fn p \<longleftrightarrow>
    next_non_ws_kind p = SkKeyword KwFn \<or>
    current_kind p = SkKeyword KwExtern \<and> next_non_ws_kind p = SkStringLit \<and> peek_non_ws_kind 1 p = SkKeyword KwFn"

definition item_body :: "call \<Rightarrow> nat \<Rightarrow> parse" where
  "item_body call n = match_kind [
     (kws [KwFn], parse_fn_def call n),
     (kws [KwStruct], parse_struct_def call n),
     (kws [KwUse], parse_use_decl call n),
     (kws [KwEnum], parse_enum_def call n),
     (kws [KwTrait], parse_trait_def call n),
     (kws [KwImpl], parse_impl_def call n),
     (kws [KwMod], mod_item call n),
     (kws [KwConst], const_item call),
     (kws [KwStatic], static_item call),
     (kws [KwType], alias_item call n),
     (kws [KwMacroRules, KwMacro], parse_macro_def call n),
     (kws [KwExtern], if_state at_extern_fn (parse_fn_def call n) (extern_item call n))]
     (skip_to_item n)"

definition item_tail :: "call \<Rightarrow> nat \<Rightarrow> parse" where
  "item_tail call n = if_state at_fn_modifier (parse_fn_def call n) (item_body call n)"

definition parse_item :: "call \<Rightarrow> nat \<Rightarrow> parse" where
  "parse_item call n = steps [
     parse_visibility call n,
     if_kind (kws [KwUnsafe])
       (steps [bump,
          if_kind (item_kinds @ kws [KwAsync, KwMacro, KwMacroRules]) (item_tail call n)
            (error_text (''expected item after '' @ quoted_text ''unsafe''))])
       (item_tail call n)]"

subsection \<open>Statements\<close>

definition parse_let :: "call \<Rightarrow> parse" where
  "parse_let call = steps [
     start_node (NkExpr LetStmt), bump, call NtPat,
     when_kind (pns [Colon]) (steps [bump, call NtType]),
     initializer_opt call,
     if_kind (pns [Semicolon]) bump (error_text ''expected ';' after let statement''),
     finish_node]"

definition expr_stmt :: "call \<Rightarrow> parse" where
  "expr_stmt call = steps [start_node (NkExpr ExprStmt), call NtExpr, when_kind (pns [Semicolon]) bump, finish_node]"

definition stmt_expr_kinds :: "syntax_kind list" where
  "stmt_expr_kinds = [SkByteLit] @ literal_kinds @ path_kinds
     @ pns [LParen, LBrace, LBracket, Or, OrOr, Bang, Minus, Star, And]
     @ kws [KwIf, KwWhile, KwFor, KwLoop, KwMatch, KwReturn, KwBreak, KwContinue, KwUnsafe]"

definition parse_stmt :: "call \<Rightarrow> nat \<Rightarrow> parse" where
  "parse_stmt call n = match_kind [
     (kws [KwLet], parse_let call),
     (kws [KwIf, KwWhile, KwFor, KwLoop, KwMatch, KwReturn, KwBreak, KwContinue, KwMove], expr_stmt call),
     (kws [KwFn, KwStruct, KwEnum, KwTrait, KwImpl, KwMod, KwConst, KwStatic, KwType, KwExtern, KwPub], call NtItem),
     (kws [KwUnsafe], if_state (\<lambda>p. peek_kind p = Some (SkPunct LBrace)) (expr_stmt call) (call NtItem)),
     (pns [LBrace], expr_stmt call),
     (stmt_expr_kinds, steps [
        start_node (NkExpr ExprStmt), call NtExpr,
        match_kind [(pns [Semicolon], bump), (pns [RBrace], steps [])] (error_text ''expected ';' after expression''),
        finish_node])]
     (steps [error_found ''unexpected token in statement'', bump_if_any])"

subsection \<open>The recursion\<close>

fun grammar :: "call \<Rightarrow> nat \<Rightarrow> grammar_nt \<Rightarrow> parse" where
  "grammar call n NtStmt = parse_stmt call n"
| "grammar call n NtExpr = parse_assignment_expr call n"
| "grammar call n NtUnary = parse_unary_expr call n"
| "grammar call n NtIf = parse_if_expr call n"
| "grammar call n NtPat = parse_pat call n"
| "grammar call n NtType = parse_type call n"
| "grammar call n NtItem = parse_item call n"
| "grammar call n NtTokenTree = parse_token_tree call n"
| "grammar call n NtUseTree = parse_use_tree call n"

primrec parse_nt :: "nat \<Rightarrow> grammar_nt \<Rightarrow> parse" where
  "parse_nt 0 nt p = None"
| "parse_nt (Suc n) nt p = grammar (parse_nt n) n nt p"

definition parse_source_file :: "nat \<Rightarrow> parse" where
  "parse_source_file n = steps [
     start_node (NkItem SourceFile), loop n (\<lambda>p. current p \<noteq> None) (parse_nt n NtItem), finish_node]"

text \<open>\<open>parse_to_syntax\<close> up to the tree, which the builder makes of the calls.\<close>

definition parse_to_calls :: "nat \<Rightarrow> char_class \<Rightarrow> uchar list \<Rightarrow> u32 \<Rightarrow>
    (builder_call list \<times> lex_diagnostic list \<times> parse_diagnostic list) option" where
  "parse_to_calls n cc source file_id =
    (let lexed = lex cc source file_id
     in map_option (\<lambda>p. (ps_calls p, lr_diagnostics lexed, ps_diagnostics p))
          (parse_source_file n (parser_new (lr_tokens lexed))))"

end
