(* ===== verification/Parser_Logic.thy ===== *)
theory Parser_Logic
  imports Parser_Items
begin

text \<open>
  One pass over the grammar for every property of parsing functions that is closed under their control flow: \<open>ok i j a\<close>
  reads "from nesting level \<open>i\<close> the function \<open>a\<close> leads to level \<open>j\<close>".  The locale states the closure laws, proves \<open>ok\<close> of
  all grammar functions, and is interpreted for the losslessness and for the nesting of the tree.
\<close>

subsection \<open>Control flow as conditionals\<close>

lemma steps_Nil_eq: "steps [] = Some"
  by (simp add: fun_eq_iff)

lemma steps_single: "steps [a] = a"
  by (simp add: fun_eq_iff steps_Nil_eq bind_runit)

lemma bind_steps_Nil: "Option.bind x (steps []) = x" "Option.bind x (steps [a]) = Option.bind x a"
  by (simp_all only: steps_Nil_eq bind_runit steps_single)

lemma if_kind_eq: "if_kind ks a b = if_state (\<lambda>p. current_kind p \<in> set ks) a b"
  by (simp add: if_kind_def if_state_def fun_eq_iff)

lemma loop_Suc: "loop (Suc k) c a = if_state c (steps [a, loop k c a]) (steps [])"
  by (simp add: if_state_def fun_eq_iff bind_steps_Nil)

lemma loop_0: "loop 0 c a = (\<lambda>p. None)"
  by (simp add: fun_eq_iff)

lemma infix_loop_Suc:
  "infix_loop (Suc k) ks operand cp =
   if_state (\<lambda>p. current_kind p \<in> set ks)
     (steps [start_node_at cp (NkExpr BinaryExpr), infix_step operand, with_checkpoint (infix_loop k ks operand)]) (steps [])"
proof -
  have "steps [start_node_at cp (NkExpr BinaryExpr), infix_step operand, with_checkpoint (infix_loop k ks operand)] p =
      Option.bind (steps [start_node_at cp (NkExpr BinaryExpr), infix_step operand] p) (with_checkpoint (infix_loop k ks operand))" for p
    by (simp add: start_node_at_def bind_steps_Nil)
  then show ?thesis by (simp add: if_state_def fun_eq_iff del: steps.simps(2))
qed

lemma infix_loop_0: "infix_loop 0 ks operand cp = (\<lambda>p. None)"
  by (simp add: fun_eq_iff)

text \<open>A body that says whether to go on, without what it says.\<close>

definition body_of :: "(parser \<Rightarrow> (bool \<times> parser) option) \<Rightarrow> parse" where
  "body_of a p = map_option snd (a p)"

lemma body_of_bump:
  assumes "\<And>p. map_option snd (f p) = b p"
  shows "body_of (\<lambda>p. Option.bind (bump p) f) = steps [bump, b]"
  by (auto simp: body_of_def fun_eq_iff bump_def assms bind_steps_Nil)

lemma body_path_segment: "body_of (path_segment call n) = steps [bump,
    if_kind path_kinds bump
      (if_kind [SkPunct Lt] (parse_type_arg_list call n)
        (if_kind (pns [Star, LBrace]) (steps []) (error_text (''expected identifier, '<', '*', or '{{' after '' @ quoted_text ''::''))))]"
  unfolding path_segment_def
  by (rule body_of_bump) (auto simp: going_def if_kind_def option.map_comp option.map_ident o_def)

lemma body_where_more: "body_of (where_more call n) = steps [bump,
    if_kind (SkLifetime # path_kinds) (where_predicate call n) (steps [])]"
  unfolding where_more_def
  by (rule body_of_bump) (auto simp: going_def if_kind_def option.map_comp option.map_ident o_def)

lemma body_use_segment: "body_of use_segment = steps [bump,
    if_kind (pns [Star, LBrace]) (steps []) (if_kind path_kinds bump (error_text (''expected identifier, '*', or '{{' after '' @ quoted_text ''::'')))]"
  unfolding use_segment_def
  by (rule body_of_bump) (auto simp: going_def if_kind_def option.map_comp option.map_ident o_def)

lemma expect_eq: "expect k = if_state (\<lambda>p. current_kind p = k) bump (\<lambda>p. parse_error (PmExpected k (current_kind p)) p)"
  by (simp add: expect_def if_state_def fun_eq_iff)

lemma bump_expected_eq: "bump_expected k = steps [
    if_state (\<lambda>p. current_kind p \<noteq> k) (\<lambda>p. parse_error (PmExpected k (current_kind p)) p) (steps []),
    if_state (\<lambda>p. current p \<noteq> None \<or> 0 < ps_pending_gt p) bump (steps [])]"
  by (simp add: bump_expected_def if_state_def [abs_def] bind_steps_Nil steps_Nil_eq fun_eq_iff)

subsection \<open>The logic\<close>

locale parse_flow =
  fixes ok :: "nat \<Rightarrow> nat \<Rightarrow> parse \<Rightarrow> bool"
  assumes fail: "ok i j (\<lambda>p. None)"
    and nil: "ok i i (steps [])"
    and cons: "ok i j a \<Longrightarrow> ok j k (steps as) \<Longrightarrow> ok i k (steps (a # as))"
    and branch: "ok i j a \<Longrightarrow> ok i j b \<Longrightarrow> ok i j (if_state c a b)"
    and checkpoint: "(\<And>cp. ok i j (f cp)) \<Longrightarrow> ok i j (with_checkpoint f)"
    and start: "ok i (Suc i) (start_node nk)"
    and start_at: "ok i (Suc i) (start_node_at cp nk)"
    and finish: "ok (Suc i) i finish_node"
    and bumps: "ok i i bump"
    and err: "ok i i (\<lambda>p. parse_error (m p) p)"
    and flag: "ok i i (set_last_was_path v)" "ok i i (set_suppress v)"
    and go_on: "ok i i (body_of g) \<Longrightarrow> ok i i (while_break n ks g)"
begin

lemma kind_branch: "ok i j a \<Longrightarrow> ok i j b \<Longrightarrow> ok i j (if_kind ks a b)"
  unfolding if_kind_eq by (rule branch)

lemma whens: "ok i i a \<Longrightarrow> ok i i (when_kind ks a)"
  unfolding when_kind_def by (rule kind_branch nil | assumption)+

lemma unlesses: "ok i i a \<Longrightarrow> ok i i (unless_kind ks a)"
  unfolding unless_kind_def by (rule kind_branch nil | assumption)+

lemma match_nil: "ok i j d \<Longrightarrow> ok i j (match_kind [] d)"
  by simp

lemma match_cons: "ok i j a \<Longrightarrow> ok i j (match_kind rs d) \<Longrightarrow> ok i j (match_kind ((ks, a) # rs) d)"
  by (simp add: kind_branch)

lemma loops: "ok i i a \<Longrightarrow> ok i i (loop k c a)"
  by (induction k) (auto simp only: loop_0 loop_Suc intro!: fail branch cons nil)

lemma kind_loops: "ok i i a \<Longrightarrow> ok i i (while_kind k ks a)" "ok i i a \<Longrightarrow> ok i i (until_kind k ks a)"
  unfolding while_kind_def until_kind_def by (rule loops, assumption)+

lemma texts: "ok i i (error_text s)" "ok i i (error_found s)"
proof -
  show "ok i i (error_text s)" using err [of i "\<lambda>_. PmText s"] unfolding error_text_def by simp
  have "error_found s = (\<lambda>p. parse_error (PmFound s (current_kind p)) p)" by (simp add: error_found_def fun_eq_iff)
  then show "ok i i (error_found s)" by (simp add: err)
qed

lemma expects: "ok i i (expect k)" "ok i i (bump_expected k)" "ok i i bump_if_any"
  unfolding expect_eq bump_expected_eq bump_if_any_def by (rule branch bumps err cons nil | assumption)+

lemmas flow = nil cons branch checkpoint start start_at finish bumps flag kind_branch whens unlesses match_nil match_cons
  loops kind_loops texts expects

lemma items: "ok i i a \<Longrightarrow> ok i i (items_until k c a)"
  unfolding items_until_def by (rule flow | assumption)+

lemma labels: "ok i i parse_label"
  unfolding parse_label_def by (rule flow | assumption)+

lemma infixes: "(\<And>i. ok i i a) \<Longrightarrow> ok i i (infix_loop k ks a cp)"
proof (induction k arbitrary: cp)
  case 0
  show ?case by (simp only: infix_loop_0 fail)
next
  case (Suc k)
  show ?case unfolding infix_loop_Suc infix_step_def by (rule flow Suc.IH Suc.prems)+
qed

lemma levels:
  "(\<And>i. ok i i a) \<Longrightarrow> ok i i (infix_level k ks a)"
  "(\<And>i. ok i i a) \<Longrightarrow> ok i i (logical_level k op a)"
  unfolding infix_level_def logical_level_def by (rule infixes flow | assumption)+

end

text \<open>The places of the grammar where more happens than calls and bumps, and the calls that are covered.\<close>

locale parse_logic = parse_flow +
  fixes calls :: "grammar_nt set"
  assumes most: "nt \<noteq> NtUseTree \<Longrightarrow> nt \<in> calls"
    and shr: "ok i i b \<Longrightarrow> ok i i (if_kind (pns [Shr]) split_shr b)"
    and and_and: "(\<And>i. ok i i (call NtType)) \<Longrightarrow> ok i i b \<Longrightarrow>
      ok i i (if_kind (pns [AndAnd]) (if_state (\<lambda>p. current p \<noteq> None) (ref_ref_type call) (steps [])) b)"
    and field: "(\<And>i. ok i i (call NtExpr)) \<Longrightarrow> ok i i b \<Longrightarrow>
      ok i i (if_kind [SkIdent] (with_checkpoint (named_field call)) b)"
    and use_item: "(\<And>nt i. nt \<in> calls \<Longrightarrow> ok i i (call nt)) \<Longrightarrow> ok i i b \<Longrightarrow>
      ok i i (if_kind (kws [KwUse]) (parse_use_decl call n) b)"

subsection \<open>The grammar\<close>

locale grammar_logic = parse_logic +
  fixes call :: call
  assumes call: "nt \<in> calls \<Longrightarrow> ok i i (call nt)"
begin

lemma called: "ok i i (call NtStmt)" "ok i i (call NtExpr)" "ok i i (call NtUnary)" "ok i i (call NtIf)" "ok i i (call NtPat)"
  "ok i i (call NtType)" "ok i i (call NtItem)" "ok i i (call NtTokenTree)"
  by (simp_all add: call most)

lemma close: "ok i i close_angle"
  unfolding close_angle_def by (rule shr flow | assumption)+

lemma type_args: "ok i i (parse_type_arg_list call n)"
  unfolding parse_type_arg_list_def by (rule flow called close | assumption)+

lemma path_inner: "ok i i (parse_path_inner call n)"
  unfolding parse_path_inner_def by (rule flow go_on | assumption)+ (simp only: body_path_segment, (rule flow type_args | assumption)+)

lemma paths: "ok i i (parse_path call n)" "ok i i (parse_path_expr call n)"
  unfolding parse_path_expr_def parse_path_def by (rule flow path_inner | assumption)+

lemma blocks: "ok i i (parse_block call n)" "ok i i (parse_condition call)"
  unfolding parse_block_def parse_block_inner_def parse_condition_def by (rule flow called | assumption)+

lemma compound: "ok i i (parse_if_expr call n)" "ok i i (parse_while_expr call n)" "ok i i (parse_for_expr call n)"
  "ok i i (parse_loop_expr call n)"
  unfolding parse_if_expr_def parse_while_expr_def parse_for_expr_def parse_loop_expr_def
  by (rule flow called blocks labels | assumption)+

lemma pat_parts: "ok i i (pat_field call n)" "ok i i (pat_path call n)" "ok i i (pat_literal call)"
proof -
  show f: "ok i i (pat_field call n)" for i unfolding pat_field_def by (rule flow called | assumption)+
  show "ok i i (pat_path call n)" unfolding pat_path_def
    by (rule path_inner f items flow called | assumption)+
  show "ok i i (pat_literal call)" unfolding pat_literal_def by (rule flow called | assumption)+
qed

lemma pats: "ok i i (parse_pat_inner call n)" "ok i i (parse_pat_single call n)" "ok i i (parse_pat call n)"
proof -
  show inner: "ok i i (parse_pat_inner call n)" for i
    unfolding parse_pat_inner_def by (rule pat_parts flow called)+
  show single: "ok i i (parse_pat_single call n)" for i
    unfolding parse_pat_single_def by (rule inner items flow called)+
  show "ok i i (parse_pat call n)" unfolding parse_pat_def by (rule single flow)+
qed

lemma type_parts: "ok i i (bounds_list call n)" "ok i i (type_path call n)"
  unfolding bounds_list_def type_path_def by (rule paths type_args items flow called)+

lemma match_and_and:
  "ok i i (match_kind rs d) \<Longrightarrow>
   ok i i (match_kind ((pns [AndAnd], if_state (\<lambda>p. current p \<noteq> None) (ref_ref_type call) (steps [])) # rs) d)"
  using and_and [of call] called by simp

lemma types: "ok i i (parse_type call n)"
  unfolding parse_type_def by (rule match_and_and type_parts items flow called)+

lemma closures: "ok i i (parse_closure_expr call n)"
  unfolding parse_closure_expr_def closure_params_def closure_param_def by (rule pats blocks flow called)+

lemma matches: "ok i i (parse_match_expr call n)"
  unfolding parse_match_expr_def parse_match_arm_def by (rule blocks flow called)+

lemma groups: "ok i i (more_exprs call n c)" "ok i i (parse_paren_expr call n)" "ok i i (parse_array_expr call n)"
  "ok i i (jump_expr call k)"
proof -
  show m: "ok i i (more_exprs call n c)" for i c unfolding more_exprs_def by (rule flow called)+
  show "ok i i (parse_paren_expr call n)" unfolding parse_paren_expr_def by (rule flow called)+
  show "ok i i (parse_array_expr call n)" unfolding parse_array_expr_def by (rule m flow called)+
  show "ok i i (jump_expr call k)" unfolding jump_expr_def by (rule flow called)+
qed

lemma primary: "ok i i (parse_primary_expr call n)"
  unfolding parse_primary_expr_def labeled_expr_def unlabeled_expr_def
  by (rule compound blocks paths closures matches groups flow called)+

lemma match_field: "ok i i (match_kind rs d) \<Longrightarrow> ok i i (match_kind (([SkIdent], with_checkpoint (named_field call)) # rs) d)"
  using field [of call] called by simp

lemma struct_fields: "ok i i (struct_literal_field call)"
  unfolding struct_literal_field_def by (rule match_field flow called)+

lemma args: "ok (Suc i) i (call_args call n)"
  unfolding call_args_def by (rule groups flow called)+

lemma postfix: "ok i i (parse_postfix_expr call n)"
proof -
  have step: "ok i i (postfix_step call n cp)" for i cp
    unfolding postfix_step_def postfix_dot_def by (rule args type_args struct_fields flow called)+
  show ?thesis unfolding parse_postfix_expr_def by (rule primary step flow called)+
qed

lemma exprs: "ok i i (parse_unary_expr call n)" "ok i i (parse_assignment_expr call n)"
proof -
  show unary: "ok i i (parse_unary_expr call n)" for i
    unfolding parse_unary_expr_def by (rule postfix flow called)+
  have bitwise: "ok i i (parse_bitwise_expr call n)" for i
    unfolding parse_bitwise_expr_def parse_additive_expr_def parse_multiplicative_expr_def by (rule levels unary)+
  have or_expr: "ok i i (parse_or_expr call n)" for i
    unfolding parse_or_expr_def parse_and_expr_def parse_comparison_expr_def by (rule bitwise levels flow)+
  show "ok i i (parse_assignment_expr call n)"
    unfolding parse_assignment_expr_def parse_range_expr_def range_rest_def by (rule or_expr flow called)+
qed

lemma trees: "ok i i (parse_token_tree call n)" "ok i i (parse_macro_def call n)"
  unfolding parse_token_tree_def dollar_tree_def tree_or_leaf_def tree_leaf_def parse_macro_def_def macro_arm_def
  by (rule items flow called)+

lemma item_parts: "ok i i (parse_visibility call n)" "ok i i (type_params_opt call n)" "ok i i (where_opt call n)"
  "ok i i (initializer_opt call)" "ok i i (const_head call)" "ok i i (parse_param call)"
proof -
  show "ok i i (parse_visibility call n)" unfolding parse_visibility_def vis_leaf_def by (rule paths flow)+
  show "ok i i (type_params_opt call n)"
    unfolding type_params_opt_def parse_type_param_list_def type_param_def by (rule close type_parts flow called)+
  have pred: "ok i i (where_predicate call n)" for i
    unfolding where_predicate_def where_bound_def by (rule flow called)+
  show "ok i i (where_opt call n)" unfolding where_opt_def parse_where_clause_def
    by (rule pred flow go_on)+ (simp only: body_where_more, (rule pred flow)+)
  show "ok i i (initializer_opt call)" "ok i i (const_head call)" "ok i i (parse_param call)"
    unfolding initializer_opt_def const_head_def parse_param_def named_param_def by (rule flow called)+
qed

lemma fns: "ok i i (parse_fn_def call n)"
  unfolding parse_fn_def_def extern_prefix_def by (rule item_parts items blocks flow called)+

lemma data_items: "ok i i (parse_struct_def call n)" "ok i i (parse_enum_def call n)"
  unfolding parse_struct_def_def struct_field_def parse_enum_def_def enum_variant_def variant_field_def
  by (rule item_parts items flow called)+

lemma simple_items: "ok i i (const_item call)" "ok i i (impl_const call)" "ok i i (static_item call)"
  "ok i i (extern_static call)" "ok i i (alias_item call n)" "ok i i (trait_type call n)" "ok i i (impl_type call)"
  unfolding const_item_def impl_const_def static_item_def extern_static_def alias_item_def trait_type_def impl_type_def
  by (rule item_parts type_parts flow called)+

lemma externs: "ok i i (parse_extern_block call n)" "ok i i (extern_item call n)"
  unfolding parse_extern_block_def extern_item_def extern_items_def by (rule fns simple_items flow called)+

lemma traits: "ok i i (parse_trait_def call n)" "ok i i (parse_impl_def call n)"
  unfolding parse_trait_def_def trait_member_def parse_impl_def_def impl_member_def
  by (rule fns externs simple_items item_parts type_parts flow called)+

lemma match_use: "ok i i (match_kind rs d) \<Longrightarrow> ok i i (match_kind ((kws [KwUse], parse_use_decl call n) # rs) d)"
  using use_item [of call, OF call] by simp

lemma item: "ok i i (parse_item call n)"
proof -
  have body: "ok i i (item_body call n)" for i
    unfolding item_body_def mod_item_def skip_to_item_def
    by (rule match_use fns data_items traits simple_items externs trees flow called)+
  show ?thesis unfolding parse_item_def item_tail_def by (rule body fns item_parts flow)+
qed

lemma stmt: "ok i i (parse_stmt call n)"
  unfolding parse_stmt_def parse_let_def expr_stmt_def by (rule item_parts flow called)+

lemma grammar_ok: "nt \<noteq> NtUseTree \<Longrightarrow> ok i i (grammar call n nt)"
  by (cases nt) (simp_all add: stmt exprs compound pats types item trees)

end

end
