(* ===== verification/Lexer_Grammar.thy ===== *)
theory Lexer_Grammar
  imports Lexer "HOL-Library.Sublist"
begin

text \<open>
  The lexical grammar the lexer implements, and the proof that it does.  Trivia are blanks, line
  comments and nested block comments; \<open>token_shape\<close> says for every kind which texts it has, given what
  follows in the source; \<open>tiled\<close> cuts a source into gaps of trivia and tokens with their byte spans.
\<close>

subsection \<open>The grammar\<close>

definition starts :: "(uchar \<Rightarrow> bool) \<Rightarrow> uchar list \<Rightarrow> bool" where
  "starts P xs = (case xs of [] \<Rightarrow> False | c # _ \<Rightarrow> P c)"

definition opens :: "uchar list \<Rightarrow> bool" where
  "opens xs = prefix (ucs ''/*'') xs"

definition closes :: "uchar list \<Rightarrow> bool" where
  "closes xs = prefix (ucs ''*/'') xs"

text \<open>The text of a block comment from nesting depth \<open>d\<close> on, and whether it is closed.\<close>

inductive comment_run :: "nat \<Rightarrow> uchar list \<Rightarrow> bool \<Rightarrow> bool" where
  comment_closed: "comment_run 0 [] True"
| comment_eof: "comment_run (Suc d) [] False"
| comment_open: "comment_run (Suc (Suc d)) xs b \<Longrightarrow> comment_run (Suc d) (ucs ''/*'' @ xs) b"
| comment_close: "comment_run d xs b \<Longrightarrow> comment_run (Suc d) (ucs ''*/'' @ xs) b"
| comment_char: "\<not> opens (c # xs) \<Longrightarrow> \<not> closes (c # xs) \<Longrightarrow> comment_run (Suc d) xs b \<Longrightarrow> comment_run (Suc d) (c # xs) b"

text \<open>Trivia \<open>xs\<close> in front of the rest \<open>ys\<close> of the source.\<close>

inductive gap :: "uchar list \<Rightarrow> uchar list \<Rightarrow> bool" where
  gap_nil: "gap [] ys"
| gap_space: "is_space c \<Longrightarrow> gap xs ys \<Longrightarrow> gap (c # xs) ys"
| gap_line: "list_all (\<lambda>c. c \<noteq> newline) line \<Longrightarrow> \<not> starts (\<lambda>c. c \<noteq> newline) (xs @ ys) \<Longrightarrow> gap xs ys \<Longrightarrow>
    gap (ucs ''//'' @ line @ xs) ys"
| gap_block: "comment_run 1 body closed \<Longrightarrow> closed \<or> xs @ ys = [] \<Longrightarrow> gap xs ys \<Longrightarrow> gap (ucs ''/*'' @ body @ xs) ys"

definition trivia_start :: "uchar list \<Rightarrow> bool" where
  "trivia_start xs \<longleftrightarrow> starts is_space xs \<or> prefix (ucs ''//'') xs \<or> prefix (ucs ''/*'') xs"

text \<open>The text of a quoted literal after the opening quote, and whether the closing quote is there.\<close>

inductive quoted_body :: "uchar \<Rightarrow> uchar list \<Rightarrow> bool \<Rightarrow> bool" for q where
  quoted_close: "quoted_body q [q] True"
| quoted_eof: "quoted_body q [] False"
| quoted_escape: "quoted_body q xs b \<Longrightarrow> quoted_body q (backslash # c # xs) b"
| quoted_escape_eof: "quoted_body q [backslash] False"
| quoted_char: "c \<noteq> q \<Longrightarrow> c \<noteq> backslash \<Longrightarrow> quoted_body q xs b \<Longrightarrow> quoted_body q (c # xs) b"

fun punct_text :: "punct \<Rightarrow> string" where
  "punct_text Plus = ''+''" | "punct_text Minus = ''-''" | "punct_text Star = ''*''" | "punct_text Slash = ''/''"
| "punct_text Percent = ''%''" | "punct_text Eq = ''=''" | "punct_text EqEq = ''==''" | "punct_text Bang = ''!''"
| "punct_text BangEq = ''!=''" | "punct_text Lt = ''<''" | "punct_text Gt = ''>''" | "punct_text LtEq = ''<=''"
| "punct_text GtEq = ''>=''" | "punct_text And = ''&''" | "punct_text Or = ''|''" | "punct_text AndAnd = ''&&''"
| "punct_text OrOr = ''||''" | "punct_text Caret = ''^''" | "punct_text Shl = ''<<''" | "punct_text Shr = ''>>''"
| "punct_text PlusEq = ''+=''" | "punct_text MinusEq = ''-=''" | "punct_text StarEq = ''*=''"
| "punct_text SlashEq = ''/=''" | "punct_text OrEq = ''|=''" | "punct_text AndEq = ''&=''"
| "punct_text CaretEq = ''^=''" | "punct_text ShlEq = ''<<=''" | "punct_text ShrEq = ''>>=''"
| "punct_text Arrow = ''->''" | "punct_text FatArrow = ''=>''" | "punct_text Dot = ''.''"
| "punct_text DotDot = ''..''" | "punct_text DotDotEq = ''..=''" | "punct_text Comma = '',''"
| "punct_text Semicolon = '';''" | "punct_text Colon = '':''" | "punct_text ColonColon = ''::''"
| "punct_text At = ''@''" | "punct_text Hash = ''#''" | "punct_text Dollar = ''$''" | "punct_text Tilde = ''~''"
| "punct_text Question = ''?''" | "punct_text LParen = ''(''" | "punct_text RParen = '')''"
| "punct_text LBrace = ''{''" | "punct_text RBrace = ''}''" | "punct_text LBracket = ''[''"
| "punct_text RBracket = '']''"

text \<open>No operator that the source could go on with is longer than \<open>p\<close>.\<close>

definition maximal_punct :: "punct \<Rightarrow> uchar list \<Rightarrow> bool" where
  "maximal_punct p rest \<longleftrightarrow>
    (\<forall>p'. prefix (ucs (punct_text p')) (ucs (punct_text p) @ rest) \<longrightarrow> length (punct_text p') \<le> length (punct_text p))"

definition radix_digit :: "(char \<times> (uchar \<Rightarrow> bool)) list" where
  "radix_digit =
    [(CHR ''x'', is_ascii_hexdigit), (CHR ''X'', is_ascii_hexdigit),
     (CHR ''b'', \<lambda>c. c = uc (CHR ''0'') \<or> c = uc (CHR ''1'')), (CHR ''B'', \<lambda>c. c = uc (CHR ''0'') \<or> c = uc (CHR ''1'')),
     (CHR ''o'', \<lambda>c. in_range (CHR ''0'') c (CHR ''7'')), (CHR ''O'', \<lambda>c. in_range (CHR ''0'') c (CHR ''7''))]"

text \<open>A fraction and an exponent of a decimal literal, or nothing.\<close>

inductive fraction :: "uchar list \<Rightarrow> bool" where
  no_fraction: "fraction []"
| a_fraction: "is_ascii_digit d \<Longrightarrow> list_all digit_or_underscore ds \<Longrightarrow> fraction (uc (CHR ''.'') # d # ds)"

definition exponent_mark :: "uchar list \<Rightarrow> bool" where
  "exponent_mark xs \<longleftrightarrow> (\<exists>e s. xs = e # s \<and> (e = uc (CHR ''e'') \<or> e = uc (CHR ''E'')) \<and>
     (s = [] \<or> s = ucs ''+'' \<or> s = ucs ''-''))"

inductive exponent :: "uchar list \<Rightarrow> bool" where
  no_exponent: "exponent []"
| an_exponent: "exponent_mark m \<Longrightarrow> list_all digit_or_underscore ds \<Longrightarrow> ds \<noteq> [] \<Longrightarrow> exponent (m @ ds)"

text \<open>The parts of a decimal literal take all the characters they can.\<close>

definition fraction_ends :: "uchar list \<Rightarrow> uchar list \<Rightarrow> bool" where
  "fraction_ends fp tail \<longleftrightarrow> \<not> starts digit_or_underscore (fp @ tail) \<and>
    (fp \<noteq> [] \<longrightarrow> \<not> starts digit_or_underscore tail) \<and>
    (fp = [] \<longrightarrow> \<not> (starts (\<lambda>c. c = uc (CHR ''.'')) tail \<and> starts is_ascii_digit (tl tail)))"

definition exponent_ends :: "uchar list \<Rightarrow> uchar list \<Rightarrow> bool" where
  "exponent_ends ep tail \<longleftrightarrow> (if ep = [] then \<not> starts (\<lambda>c. c = uc (CHR ''e'') \<or> c = uc (CHR ''E'')) tail
     else \<not> starts digit_or_underscore tail)"

definition number_kind :: "bool \<Rightarrow> syntax_kind" where
  "number_kind is_float = (if is_float then SkFloatLit else SkIntLit)"

text \<open>What follows a quote reads as a lifetime: an identifier that no quote ends.\<close>

definition lifetime_ahead :: "char_class \<Rightarrow> uchar list \<Rightarrow> bool" where
  "lifetime_ahead cc xs = (case xs of [] \<Rightarrow> False
     | c # cs \<Rightarrow> (is_alphabetic cc c \<or> c = uc (CHR ''_'')) \<and> \<not> starts (\<lambda>c. c = squote) (dropWhile (ident_char cc) cs))"

definition byte_prefix :: "uchar list \<Rightarrow> bool" where
  "byte_prefix xs \<longleftrightarrow> (\<exists>c q ys. xs = c # q # ys \<and> c \<in> set (ucs ''bB'') \<and> q \<in> {squote, dquote})"

text \<open>The texts of a kind, in front of the rest of the source.\<close>

inductive token_shape :: "char_class \<Rightarrow> syntax_kind \<Rightarrow> uchar list \<Rightarrow> uchar list \<Rightarrow> bool" for cc where
  shape_word: "is_ident_start c \<Longrightarrow> list_all (ident_char cc) cs \<Longrightarrow> \<not> starts (ident_char cc) rest \<Longrightarrow>
    \<not> byte_prefix (c # cs @ rest) \<Longrightarrow> token_shape cc (lookup_keyword (c # cs)) (c # cs) rest"
| shape_byte: "c \<in> set (ucs ''bB'') \<Longrightarrow> q \<in> {squote, dquote} \<Longrightarrow> quoted_body q body closed \<Longrightarrow> closed \<or> rest = [] \<Longrightarrow>
    token_shape cc SkByteLit (c # q # body) rest"
| shape_radix: "(x, digit) \<in> set radix_digit \<Longrightarrow> list_all (\<lambda>c. digit c \<or> c = uc (CHR ''_'')) ds \<Longrightarrow>
    list_all (ident_char cc) sfx \<Longrightarrow> \<not> starts (\<lambda>c. digit c \<or> c = uc (CHR ''_'')) (sfx @ rest) \<Longrightarrow>
    \<not> starts (ident_char cc) rest \<Longrightarrow> token_shape cc SkIntLit (ucs [CHR ''0'', x] @ ds @ sfx) rest"
| shape_decimal: "is_ascii_digit d \<Longrightarrow> list_all digit_or_underscore ds \<Longrightarrow> fraction fp \<Longrightarrow> exponent ep \<Longrightarrow>
    list_all (ident_char cc) sfx \<Longrightarrow> \<not> starts (ident_char cc) rest \<Longrightarrow>
    fraction_ends fp (ep @ sfx @ rest) \<Longrightarrow> exponent_ends ep (sfx @ rest) \<Longrightarrow>
    token_shape cc (number_kind (fp \<noteq> [] \<or> ep \<noteq> [])) (d # ds @ fp @ ep @ sfx) rest"
| shape_no_exponent: "is_ascii_digit d \<Longrightarrow> list_all digit_or_underscore ds \<Longrightarrow> fraction fp \<Longrightarrow> exponent_mark m \<Longrightarrow>
    fraction_ends fp (m @ rest) \<Longrightarrow> \<not> starts digit_or_underscore rest \<Longrightarrow>
    token_shape cc (number_kind (fp \<noteq> [])) (d # ds @ fp) (m @ rest)"
| shape_string: "quoted_body dquote body closed \<Longrightarrow> closed \<or> rest = [] \<Longrightarrow> token_shape cc SkStringLit (dquote # body) rest"
| shape_lifetime: "is_alphabetic cc c \<or> c = uc (CHR ''_'') \<Longrightarrow> list_all (ident_char cc) cs \<Longrightarrow>
    \<not> starts (\<lambda>c. ident_char cc c \<or> c = squote) rest \<Longrightarrow> token_shape cc SkLifetime (squote # c # cs) rest"
| shape_char: "quoted_body squote body closed \<Longrightarrow> closed \<or> rest = [] \<Longrightarrow> \<not> lifetime_ahead cc (body @ rest) \<Longrightarrow>
    token_shape cc SkCharLit (squote # body) rest"
| shape_punct: "maximal_punct p rest \<Longrightarrow> token_shape cc (SkPunct p) (ucs (punct_text p)) rest"
| shape_error: "\<not> is_ident_start c \<Longrightarrow> \<not> is_ascii_digit c \<Longrightarrow> c \<notin> {dquote, squote} \<Longrightarrow>
    \<forall>p. \<not> prefix (ucs (punct_text p)) [c] \<Longrightarrow> token_shape cc SkError [c] rest"

text \<open>A source from byte \<open>pos\<close> on as gaps and tokens.\<close>

inductive tiled :: "char_class \<Rightarrow> u32 \<Rightarrow> nat \<Rightarrow> uchar list \<Rightarrow> token list \<Rightarrow> bool" for cc fid where
  tiled_nil: "gap g [] \<Longrightarrow> tiled cc fid pos g []"
| tiled_token: "gap g (text @ rest) \<Longrightarrow> text \<noteq> [] \<Longrightarrow> \<not> trivia_start (text @ rest) \<Longrightarrow>
    token_shape cc kind text rest \<Longrightarrow> lo = pos + utf8_len g \<Longrightarrow> hi = lo + utf8_len text \<Longrightarrow>
    tiled cc fid hi rest toks \<Longrightarrow>
    tiled cc fid pos (g @ text @ rest)
      (\<lparr>tk_kind = kind, tk_span = \<lparr>sp_file = fid, sp_lo = word_of_nat lo, sp_hi = word_of_nat hi, sp_ctx = 0\<rparr>,
        tk_text = text\<rparr> # toks)"

subsection \<open>Characters and states\<close>

lemma uc_eq [simp]: "uc c = uc d \<longleftrightarrow> c = d"
proof -
  have "unat (uc x) = of_char x" for x :: char
  proof -
    have "(of_char x :: nat) mod 256 < 256" by (rule mod_less_divisor) simp
    then have "(of_char x :: nat) < 256" by (simp only: of_char_mod_256)
    then have "(of_char x :: nat) < 4294967296" by linarith
    then have "unat (word_of_nat (of_char x) :: u32) = of_char x" by (simp add: unat_of_nat)
    then show ?thesis by (simp add: uc_def of_nat_of_char)
  qed
  then show ?thesis by (metis of_char_eq_iff)
qed

lemma ucs_simps [simp]: "ucs [] = []" "ucs (c # cs) = uc c # ucs cs"
  by (simp_all add: ucs_def)

lemma starts_simps [simp]: "\<not> starts P []" "starts P (c # cs) \<longleftrightarrow> P c"
  by (simp_all add: starts_def)

lemma starts_dropWhile [simp]: "\<not> starts P (dropWhile P xs)"
  by (induction xs) auto

lemma list_all_takeWhile [simp]: "list_all P (takeWhile P xs)"
  by (induction xs) auto

lemma peek_Some: "peek st = Some c \<longleftrightarrow> (\<exists>cs. lx_rest st = c # cs)"
  by (auto simp: peek_def split: list.splits)

lemma peek_None: "peek st = None \<longleftrightarrow> lx_rest st = []"
  by (auto simp: peek_def split: list.splits)

lemma peek_next_Some: "peek_next st = Some d \<longleftrightarrow> (\<exists>c cs. lx_rest st = c # d # cs)"
  by (auto simp: peek_next_def split: list.splits)

lemma peek_Cons [simp]: "lx_rest st = c # cs \<Longrightarrow> peek st = Some c"
  by (simp add: peek_def)

lemma rest_advance: "lx_rest (advance st) = tl (lx_rest st)"
  by (simp add: advance_def split: list.splits)

lemma rest_skip_while [simp]: "lx_rest (skip_while P st) = dropWhile P (lx_rest st)"
proof -
  have "lx_rest st = takeWhile P (lx_rest st) @ lx_rest (skip_while P st)"
    using skip_while_consumes [of P st] by (simp add: consumes_def)
  then show ?thesis by (metis same_append_eq takeWhile_dropWhile_id)
qed

lemma consumes_skip_while: "consumes (takeWhile P (lx_rest st)) st (skip_while P st)"
  using skip_while_consumes by blast

lemma advances_file: "advances st st' \<Longrightarrow> lx_file st' = lx_file st"
  by (auto simp: advances_def consumes_def)

subsection \<open>Trivia\<close>

lemma next_at_opens: "c = uc (CHR ''/'') \<and> next_at st (CHR ''*'') \<longleftrightarrow> opens (lx_rest st)" if "peek st = Some c"
  using that by (auto simp: next_at_def peek_Some peek_next_Some opens_def prefix_def)

lemma next_at_closes: "c = uc (CHR ''*'') \<and> next_at st (CHR ''/'') \<longleftrightarrow> closes (lx_rest st)" if "peek st = Some c"
  using that by (auto simp: next_at_def peek_Some peek_next_Some closes_def prefix_def)

lemma consumes_pair:
  "prefix (ucs [c, d]) (lx_rest st) \<Longrightarrow> consumes (ucs [c, d]) st (advance (advance st))"
  using consumes_advance2 [of st "uc c" "uc d"] by (auto simp: prefix_def peek_Some peek_next_Some)

lemma comment_run_closed_nonempty: "comment_run d xs b \<Longrightarrow> b \<Longrightarrow> 0 < d \<Longrightarrow> xs \<noteq> []"
  by (induction rule: comment_run.induct) auto

lemma block_comment_run:
  assumes "d + length (lx_rest st) < 2 ^ 32"
  shows "\<exists>xs b. consumes xs st (block_comment (word_of_nat d) st) \<and> comment_run d xs b \<and>
    (b \<or> lx_rest (block_comment (word_of_nat d) st) = [])"
  using assms
proof (induction "length (lx_rest st)" arbitrary: d st rule: less_induct)
  case less
  let ?P = "\<lambda>d st. \<exists>xs b. consumes xs st (block_comment (word_of_nat d) st) \<and> comment_run d xs b \<and>
    (b \<or> lx_rest (block_comment (word_of_nat d) st) = [])"
  have zero: "(word_of_nat d :: u32) = 0 \<longleftrightarrow> d = 0"
    using less.prems by (auto simp: word_of_nat_eq_0_iff dest: dvd_imp_le)
  show ?case
  proof (cases "d = 0 \<or> lx_rest st = []")
    case True
    then have "block_comment (word_of_nat d) st = st" using zero
      by (subst block_comment.simps) (auto simp: peek_def)
    moreover have "comment_run d [] (d = 0)"
      using comment_closed comment_eof [of "d - 1"] by (cases d) auto
    ultimately show ?thesis using True by (intro exI [of _ "[]"] exI [of _ "d = 0"]) auto
  next
    case False
    then obtain c cs e where r: "lx_rest st = c # cs" and d: "d = Suc e"
      by (cases "lx_rest st"; cases d) auto
    consider (op) "opens (lx_rest st)" | (cl) "\<not> opens (lx_rest st)" "closes (lx_rest st)"
      | (ch) "\<not> opens (lx_rest st)" "\<not> closes (lx_rest st)" by blast
    then show ?thesis
    proof cases
      case op
      have step: "block_comment (word_of_nat d) st = block_comment (word_of_nat (Suc d)) (advance (advance st))"
        using op zero d r next_at_opens [OF peek_Cons [OF r]]
        by (subst block_comment.simps) (simp add: add.commute)
      have c2: "consumes (ucs ''/*'') st (advance (advance st))" using op consumes_pair by (simp add: opens_def)
      have "?P (Suc d) (advance (advance st))"
        using less.prems consumes_length [OF c2] by (intro less.hyps) auto
      then show ?thesis using step d consumes_trans [OF c2] comment_open by metis
    next
      case cl
      have step: "block_comment (word_of_nat d) st = block_comment (word_of_nat e) (advance (advance st))"
        using cl zero d r next_at_opens [OF peek_Cons [OF r]] next_at_closes [OF peek_Cons [OF r]]
        by (subst block_comment.simps) simp
      have c2: "consumes (ucs ''*/'') st (advance (advance st))" using cl consumes_pair by (simp add: closes_def)
      have "?P e (advance (advance st))"
        using less.prems consumes_length [OF c2] d by (intro less.hyps) auto
      then show ?thesis using step d consumes_trans [OF c2] comment_close by metis
    next
      case ch
      have step: "block_comment (word_of_nat d) st = block_comment (word_of_nat d) (advance st)"
        using ch zero d r next_at_opens [OF peek_Cons [OF r]] next_at_closes [OF peek_Cons [OF r]]
        by (subst block_comment.simps) auto
      have c1: "consumes [c] st (advance st)" using r by (simp add: consumes_advance)
      have "?P d (advance st)" using less.prems consumes_length [OF c1] by (intro less.hyps) auto
      then obtain xs b where xs: "consumes xs (advance st) (block_comment (word_of_nat d) st)" "comment_run d xs b"
          "b \<or> lx_rest (block_comment (word_of_nat d) st) = []" using step by auto
      have "xs @ lx_rest (block_comment (word_of_nat d) st) = cs"
        using xs(1) r by (simp add: consumes_def rest_advance)
      moreover have "lx_rest (block_comment (word_of_nat d) st) = [] \<or> xs \<noteq> []"
        using xs comment_run_closed_nonempty [OF xs(2)] d by auto
      ultimately have "\<not> opens (c # xs)" "\<not> closes (c # xs)"
        using ch r by (auto simp: opens_def closes_def prefix_Cons)
      then show ?thesis
        using comment_char [of c xs e b] xs consumes_trans [OF c1 xs(1)] d by auto
    qed
  qed
qed

lemma trivia_idle: "\<not> trivia_start (lx_rest st) \<Longrightarrow> trivia st = st"
  by (subst trivia.simps)
     (auto simp: trivia_start_def peek_Some next_at_def peek_next_Some prefix_def split: option.splits)

lemma trivia_gap:
  assumes "length (lx_rest st) < 2 ^ 32"
  shows "\<exists>g. consumes g st (trivia st) \<and> gap g (lx_rest (trivia st)) \<and> \<not> trivia_start (lx_rest (trivia st))"
  using assms
proof (induction "length (lx_rest st)" arbitrary: st rule: less_induct)
  case less
  let ?P = "\<lambda>st. \<exists>g. consumes g st (trivia st) \<and> gap g (lx_rest (trivia st)) \<and> \<not> trivia_start (lx_rest (trivia st))"
  have rec: "?P st1" if "consumes xs st st1" "xs \<noteq> []" for xs st1
    using less.prems consumes_length [OF that(1)] that(2) by (intro less.hyps) auto
  have line: "c = uc (CHR ''/'') \<and> next_at st (CHR ''/'') \<longleftrightarrow> prefix (ucs ''//'') (lx_rest st)" if "peek st = Some c" for c
    using that by (auto simp: next_at_def peek_Some peek_next_Some prefix_def)
  consider (sp) c cs where "lx_rest st = c # cs" "is_space c"
    | (li) c where "peek st = Some c" "\<not> is_space c" "prefix (ucs ''//'') (lx_rest st)"
    | (bl) c where "peek st = Some c" "\<not> is_space c" "\<not> prefix (ucs ''//'') (lx_rest st)" "opens (lx_rest st)"
    | (st) "\<not> trivia_start (lx_rest st)"
    by (cases "lx_rest st") (auto simp: trivia_start_def opens_def)
  then show ?case
  proof cases
    case sp
    have c: "consumes [c] st (advance st)" using sp by (simp add: consumes_advance)
    have "trivia st = trivia (advance st)" using sp by (subst trivia.simps) simp
    then show ?thesis using rec [OF c] consumes_trans [OF c] gap_space [OF sp(2)] by force
  next
    case li
    let ?st1 = "advance (advance st)"
    let ?line = "takeWhile (\<lambda>c. c \<noteq> newline) (lx_rest ?st1)"
    have c: "consumes (ucs ''//'' @ ?line) st (skip_while (\<lambda>c. c \<noteq> newline) ?st1)"
      using consumes_trans [OF consumes_pair consumes_skip_while] li(3) by blast
    have t: "trivia st = trivia (skip_while (\<lambda>c. c \<noteq> newline) ?st1)"
      using li line by (subst trivia.simps) simp
    obtain g where g: "consumes g (skip_while (\<lambda>c. c \<noteq> newline) ?st1) (trivia st)" "gap g (lx_rest (trivia st))"
        "\<not> trivia_start (lx_rest (trivia st))"
      using rec [OF c] t by auto
    have "g @ lx_rest (trivia st) = dropWhile (\<lambda>c. c \<noteq> newline) (lx_rest ?st1)"
      using g(1) by (simp add: consumes_def)
    then have "\<not> starts (\<lambda>c. c \<noteq> newline) (g @ lx_rest (trivia st))"
      using starts_dropWhile [of "\<lambda>c. c \<noteq> newline"] by (simp only:) simp
    then have "gap (ucs ''//'' @ ?line @ g) (lx_rest (trivia st))"
      using g(2) by (intro gap_line) simp_all
    then show ?thesis using consumes_trans [OF c g(1)] g(3) by auto
  next
    case bl
    let ?st1 = "advance (advance st)"
    have c: "consumes (ucs ''/*'') st ?st1" using consumes_pair bl(4) by (simp add: opens_def)
    obtain body b where b: "consumes body ?st1 (block_comment 1 ?st1)" "comment_run 1 body b"
        "b \<or> lx_rest (block_comment 1 ?st1) = []"
      using block_comment_run [of 1 ?st1] consumes_length [OF c] less.prems by auto
    have t: "trivia st = trivia (block_comment 1 ?st1)"
      using bl line next_at_opens [OF bl(1)] by (subst trivia.simps) simp
    obtain g where g: "consumes g (block_comment 1 ?st1) (trivia st)" "gap g (lx_rest (trivia st))"
        "\<not> trivia_start (lx_rest (trivia st))"
      using rec [OF consumes_trans [OF c b(1)]] t by auto
    have "b \<or> g @ lx_rest (trivia st) = []" using b(3) g(1) by (auto simp: consumes_def)
    then have "gap (ucs ''/*'' @ body @ g) (lx_rest (trivia st))" using gap_block [OF b(2)] g(2) by simp
    then show ?thesis using consumes_trans [OF consumes_trans [OF c b(1)] g(1)] g(3) by auto
  next
    case st
    then show ?thesis using trivia_idle [OF st] gap_nil by (intro exI [of _ "[]"]) auto
  qed
qed

subsection \<open>Tokens\<close>

lemma quoted_shape:
  assumes "quoted q st = (b, st')" "q \<noteq> backslash"
  shows "\<exists>xs. consumes xs st st' \<and> quoted_body q xs b \<and> (b \<or> lx_rest st' = [])"
  using assms
proof (induction "length (lx_rest st)" arbitrary: st rule: less_induct)
  case less
  have rec: "\<exists>ys. consumes ys st1 st' \<and> quoted_body q ys b \<and> (b \<or> lx_rest st' = [])"
    if "consumes xs st st1" "xs \<noteq> []" "quoted q st = quoted q st1" for xs st1
    using less.prems consumes_length [OF that(1)] that(2,3) by (intro less.hyps) auto
  show ?case
  proof (cases "lx_rest st")
    case Nil
    then show ?thesis
      using less.prems quoted_eof by (subst (asm) quoted.simps) (auto simp: peek_def intro: exI [of _ "[]"])
  next
    case (Cons c cs)
    have c: "consumes [c] st (advance st)" using Cons by (simp add: consumes_advance)
    consider "c = q" | "c \<noteq> q" "c = backslash" "cs = []" | e es where "c \<noteq> q" "c = backslash" "cs = e # es"
      | "c \<noteq> q" "c \<noteq> backslash" by (cases cs) auto
    then show ?thesis
    proof cases
      case 1
      then show ?thesis using less.prems Cons c quoted_close by (subst (asm) quoted.simps) auto
    next
      case 2
      then have "advance (advance st) = advance st" using Cons by (simp add: advance_def)
      then have "(b, st') = (False, advance st)" using less.prems 2 Cons
        by (subst (asm) quoted.simps) (simp add: quoted.simps peek_def rest_advance)
      then show ?thesis using c 2 Cons quoted_escape_eof by (auto simp: rest_advance)
    next
      case 3
      have c2: "consumes [c, e] st (advance (advance st))"
        using Cons 3 by (intro consumes_advance2) (auto simp: peek_next_def)
      have "quoted q st = quoted q (advance (advance st))" using Cons 3 by (subst quoted.simps) simp
      then show ?thesis using rec [OF c2] consumes_trans [OF c2] quoted_escape 3 by force
    next
      case 4
      have "quoted q st = quoted q (advance st)" using Cons 4 by (subst quoted.simps) simp
      then show ?thesis using rec [OF c] consumes_trans [OF c] quoted_char [OF 4] by force
    qed
  qed
qed

text \<open>\<open>lexes cc st k st'\<close>: from \<open>st\<close> to \<open>st'\<close> stands a text of kind \<open>k\<close>.\<close>

definition lexes :: "char_class \<Rightarrow> lexer \<Rightarrow> syntax_kind \<Rightarrow> lexer \<Rightarrow> bool" where
  "lexes cc st k st' \<longleftrightarrow> (\<exists>text. consumes text st st' \<and> text \<noteq> [] \<and> token_shape cc k text (lx_rest st'))"

lemma lexesI: "consumes text st st' \<Longrightarrow> text \<noteq> [] \<Longrightarrow> token_shape cc k text (lx_rest st') \<Longrightarrow> lexes cc st k st'"
  by (auto simp: lexes_def)

lemma lexes_lex_error [simp]: "lexes cc st k (lex_error sp m st') \<longleftrightarrow> lexes cc st k st'"
  by (simp add: lexes_def)

lemma quotes_distinct [simp]: "squote \<noteq> backslash" "dquote \<noteq> backslash" "backslash \<noteq> squote" "backslash \<noteq> dquote"
    "squote \<noteq> dquote" "dquote \<noteq> squote"
  by (simp_all add: squote_def dquote_def backslash_def)

lemma lexes_word:
  assumes "lx_rest st = c # cs" "is_ident_start c" "\<not> byte_prefix (c # cs)"
  shows "lexes cc st (lookup_keyword (slice_text st (lex_ident_or_keyword cc st))) (lex_ident_or_keyword cc st)"
proof -
  let ?w = "c # takeWhile (ident_char cc) cs"
  have w: "consumes ?w st (lex_ident_or_keyword cc st)"
    using consumes_skip_while [of "ident_char cc" st] assms ident_start_char by (simp add: lex_ident_or_keyword_def)
  have "lx_rest (lex_ident_or_keyword cc st) = dropWhile (ident_char cc) cs"
    using assms ident_start_char by (simp add: lex_ident_or_keyword_def)
  then show ?thesis
    using w shape_word [of c cc "takeWhile (ident_char cc) cs" "dropWhile (ident_char cc) cs"] assms
    by (intro lexesI [OF w]) (simp_all add: consumes_slice [OF w])
qed

lemma lexes_string:
  assumes "lx_rest st = dquote # cs"
  shows "lexes cc st SkStringLit (lex_string st)"
proof -
  obtain b st' where q: "quoted dquote (advance st) = (b, st')" by fastforce
  then obtain xs where x: "consumes xs (advance st) st'" "quoted_body dquote xs b" "b \<or> lx_rest st' = []"
    using quoted_shape by fastforce
  have "lexes cc st SkStringLit st'"
    using assms x consumes_trans [OF consumes_advance x(1)] by (intro lexesI [of "dquote # xs"] shape_string) auto
  then show ?thesis using q by (cases b) (simp_all add: lex_string_def)
qed

lemma lexes_char: "lx_rest st = squote # cs \<Longrightarrow> \<not> lifetime_ahead cc cs \<Longrightarrow> lexes cc st SkCharLit (lex_char st)"
proof -
  assume a: "lx_rest st = squote # cs" "\<not> lifetime_ahead cc cs"
  obtain b st' where q: "quoted squote (advance st) = (b, st')" by fastforce
  then obtain xs where x: "consumes xs (advance st) st'" "quoted_body squote xs b" "b \<or> lx_rest st' = []"
    using quoted_shape by fastforce
  have "xs @ lx_rest st' = cs" using x(1) a by (simp add: consumes_def rest_advance)
  then have "lexes cc st SkCharLit st'"
    using a x consumes_trans [OF consumes_advance x(1)] by (intro lexesI [of "squote # xs"] shape_char) auto
  then show ?thesis using q by (cases b) (simp_all add: lex_char_def)
qed

lemma is_lifetime_ahead: "is_lifetime cc st = lifetime_ahead cc (lx_rest st)"
proof (cases "lx_rest st")
  case Nil
  then show ?thesis by (simp add: is_lifetime_def lifetime_ahead_def peek_def)
next
  case (Cons c cs)
  have "peek st' = Some squote \<longleftrightarrow> starts (\<lambda>c. c = squote) (lx_rest st')" for st'
    by (simp add: peek_def starts_def split: list.splits)
  then show ?thesis using Cons by (simp add: is_lifetime_def lifetime_ahead_def rest_advance)
qed

lemma lexes_quote:
  assumes "lx_rest st = squote # cs" "lex_quote cc st = (k, st')"
  shows "lexes cc st k st'"
proof (cases "lifetime_ahead cc cs")
  case True
  then obtain c ds where c: "cs = c # ds" "is_alphabetic cc c \<or> c = uc (CHR ''_'')"
      "\<not> starts (\<lambda>c. c = squote) (dropWhile (ident_char cc) ds)"
    by (auto simp: lifetime_ahead_def split: list.splits)
  let ?st2 = "advance (advance st)"
  have 2: "consumes [squote, c] st ?st2" using assms c by (intro consumes_advance2) (auto simp: peek_next_def)
  have r: "lx_rest ?st2 = ds" using assms c by (simp add: rest_advance)
  have k: "k = SkLifetime" "st' = skip_while (ident_char cc) ?st2"
    using assms True by (auto simp: lex_quote_def is_lifetime_ahead rest_advance)
  have "\<not> starts (\<lambda>c. ident_char cc c \<or> c = squote) (dropWhile (ident_char cc) ds)"
    using c(3) starts_dropWhile [of "ident_char cc" ds] by (cases "dropWhile (ident_char cc) ds") (simp_all del: dropWhile_eq_Nil_conv)
  then have "token_shape cc k (squote # c # takeWhile (ident_char cc) ds) (lx_rest st')"
    using c(2) unfolding k by (intro shape_lifetime) (simp_all add: r)
  then show ?thesis
    using consumes_trans [OF 2 consumes_skip_while [of "ident_char cc"]] unfolding k
    by (intro lexesI [of "squote # c # takeWhile (ident_char cc) ds"]) (simp_all add: r)
next
  case False
  then show ?thesis
    using assms lexes_char [of st cs cc] by (auto simp: lex_quote_def is_lifetime_ahead rest_advance)
qed

lemma lexes_byte:
  assumes "byte_prefix (lx_rest st)"
  shows "lexes cc st SkByteLit (lex_byte_lit st)"
proof -
  obtain c q cs where r: "lx_rest st = c # q # cs" "c \<in> set (ucs ''bB'')" "q \<in> {squote, dquote}"
    using assms by (auto simp: byte_prefix_def)
  have 2: "consumes [c, q] st (advance (advance st))" using r by (intro consumes_advance2) (auto simp: peek_next_def)
  obtain b st' where q: "quoted q (advance (advance st)) = (b, st')" by fastforce
  then obtain xs where x: "consumes xs (advance (advance st)) st'" "quoted_body q xs b" "b \<or> lx_rest st' = []"
    using quoted_shape [OF q] r(3) by fastforce
  have "lexes cc st SkByteLit st'"
    using r x consumes_trans [OF 2 x(1)] by (intro lexesI [of "c # q # xs"] shape_byte) auto
  moreover have "peek (advance st) = Some q" using r by (simp add: peek_def rest_advance)
  ultimately show ?thesis using q r(3) by (cases b) (auto simp: lex_byte_lit_def)
qed

lemma byte_prefix_peek:
  "lx_rest st = c # cs \<Longrightarrow> byte_prefix (c # cs) \<longleftrightarrow>
    (c = uc (CHR ''b'') \<or> c = uc (CHR ''B'')) \<and> (peek_next st = Some squote \<or> peek_next st = Some dquote)"
  by (auto simp: byte_prefix_def peek_next_Some)

subsection \<open>Numbers\<close>

lemma suffix_consumes:
  "consumes (takeWhile (ident_char cc) (lx_rest st)) st (lex_number_suffix cc st)"
  "lx_rest (lex_number_suffix cc st) = dropWhile (ident_char cc) (lx_rest st)"
  using consumes_skip_while by (auto simp: lex_number_suffix_def Let_def)

lemma lexes_radix:
  assumes "lx_rest st = ucs [CHR ''0'', x] @ cs" "(x, digit) \<in> set radix_digit"
  shows "lexes cc st SkIntLit (lex_radix cc digit st)"
proof -
  let ?P = "\<lambda>c. digit c \<or> c = uc (CHR ''_'')" and ?I = "ident_char cc"
  have 2: "consumes (ucs [CHR ''0'', x]) st (advance (advance st))"
    using assms by (intro consumes_pair) simp
  have r: "lx_rest (advance (advance st)) = cs" using assms by (simp add: rest_advance)
  have c: "consumes (ucs [CHR ''0'', x] @ takeWhile ?P cs @ takeWhile ?I (dropWhile ?P cs)) st (lex_radix cc digit st)"
    using consumes_trans [OF consumes_trans [OF 2 consumes_skip_while [of ?P]] suffix_consumes(1) [of cc]]
    by (simp add: r lex_radix_def)
  have rest: "lx_rest (lex_radix cc digit st) = dropWhile ?I (dropWhile ?P cs)"
    by (simp add: r suffix_consumes lex_radix_def)
  have "\<not> starts ?P (takeWhile ?I (dropWhile ?P cs) @ dropWhile ?I (dropWhile ?P cs))"
    by (simp only: takeWhile_dropWhile_id starts_dropWhile not_False_eq_True)
  then show ?thesis
    using assms(2) list_all_takeWhile [of ?P cs]
    by (intro lexesI [OF c] shape_radix [of x digit]) (simp_all add: rest)
qed

lemma starts_dropWhile_iff: "starts Q (dropWhile P xs) \<Longrightarrow> \<exists>c cs. dropWhile P xs = c # cs \<and> Q c"
  by (cases "dropWhile P xs") auto

text \<open>The whole digits and the fraction.\<close>

definition decimal_point :: "lexer \<Rightarrow> bool" where
  "decimal_point st \<longleftrightarrow> at st (CHR ''.'') \<and> (case peek_next st of Some n \<Rightarrow> is_ascii_digit n | None \<Rightarrow> False)"

definition after_fraction :: "lexer \<Rightarrow> lexer" where
  "after_fraction st = (if decimal_point st then skip_while digit_or_underscore (advance st) else st)"

lemma fraction_consumes:
  assumes "\<not> starts digit_or_underscore (lx_rest st)"
  shows "\<exists>fp. consumes fp st (after_fraction st) \<and> fraction fp \<and> (fp \<noteq> [] \<longleftrightarrow> decimal_point st) \<and>
    fraction_ends fp (lx_rest (after_fraction st))"
proof (cases "decimal_point st")
  case True
  then obtain d cs where r: "lx_rest st = uc (CHR ''.'') # d # cs" "is_ascii_digit d"
    by (auto simp: decimal_point_def at_def peek_Some peek_next_Some split: option.splits)
  have 1: "consumes [uc (CHR ''.'')] st (advance st)" using r by (simp add: consumes_advance)
  have "takeWhile digit_or_underscore (lx_rest (advance st)) = d # takeWhile digit_or_underscore cs"
    using r by (simp add: rest_advance digit_or_underscore_def)
  then show ?thesis
    using consumes_trans [OF 1 consumes_skip_while [of digit_or_underscore]] a_fraction [OF r(2)] True assms r
    by (intro exI [of _ "uc (CHR ''.'') # d # takeWhile digit_or_underscore cs"])
       (simp add: after_fraction_def fraction_ends_def)
next
  case False
  then have "\<not> (starts (\<lambda>c. c = uc (CHR ''.'')) (lx_rest st) \<and> starts is_ascii_digit (tl (lx_rest st)))"
    by (cases "lx_rest st"; cases "tl (lx_rest st)") (auto simp: decimal_point_def at_def peek_next_def peek_def)
  then show ?thesis using False assms no_fraction
    by (intro exI [of _ "[]"]) (simp add: after_fraction_def fraction_ends_def)
qed

lemma exponent_consumes:
  assumes "lex_exponent f st = (k, f', st')"
  shows "(case k of
      Some kind \<Rightarrow> kind = number_kind f \<and> consumes [] st st' \<and>
        (\<exists>m rest. lx_rest st' = m @ rest \<and> exponent_mark m \<and> \<not> starts digit_or_underscore rest)
    | None \<Rightarrow> (\<exists>ep. consumes ep st st' \<and> exponent ep \<and> f' = (f \<or> ep \<noteq> []) \<and> exponent_ends ep (lx_rest st')))"
proof (cases "at st (CHR ''e'') \<or> at st (CHR ''E'')")
  case False
  then have "exponent_ends [] (lx_rest st)"
    by (auto simp: exponent_ends_def at_def peek_def starts_def split: list.splits)
  then show ?thesis using assms False no_exponent by (auto simp: lex_exponent_def intro: exI [of _ "[]"])
next
  case True
  then obtain e cs where r: "lx_rest st = e # cs" and e: "e = uc (CHR ''e'') \<or> e = uc (CHR ''E'')"
    by (auto simp: at_def peek_Some)
  let ?st1 = "advance st"
  define st2 where "st2 = (if at ?st1 (CHR ''+'') \<or> at ?st1 (CHR ''-'') then advance ?st1 else ?st1)"
  obtain s where s: "consumes s ?st1 st2" "s = [] \<or> s = ucs ''+'' \<or> s = ucs ''-''"
  proof (cases "at ?st1 (CHR ''+'') \<or> at ?st1 (CHR ''-'')")
    case True
    then show ?thesis using that consumes_advance [of ?st1] unfolding st2_def at_def by fastforce
  qed (use that [of "[]"] in \<open>simp add: st2_def\<close>)
  have m: "exponent_mark (e # s)" using e s(2) by (auto simp: exponent_mark_def)
  have 2: "consumes (e # s) st st2" using consumes_trans [OF consumes_advance s(1)] r by simp
  let ?ds = "takeWhile digit_or_underscore (lx_rest st2)"
  let ?st3 = "skip_while digit_or_underscore st2"
  have 3: "consumes ?ds st2 ?st3" by (rule consumes_skip_while)
  show ?thesis
  proof (cases "?ds = []")
    case True
    then have "lx_pos ?st3 = lx_pos st2" using 3 by (simp add: consumes_def)
    then have k: "k = Some (number_kind f)" "lx_rest st' = lx_rest st" "lx_pos st' = lx_pos st" "lx_file st' = lx_file ?st3"
      using assms r e unfolding lex_exponent_def at_def
      by (auto simp: number_kind_def Let_def st2_def [unfolded at_def, symmetric] lex_error_def)
    have "\<not> starts digit_or_underscore (lx_rest st2)"
      using True by (cases "lx_rest st2") (auto split: if_splits)
    moreover have "lx_rest st' = (e # s) @ lx_rest st2" using k 2 by (simp add: consumes_def)
    ultimately have "\<exists>m rest. lx_rest st' = m @ rest \<and> exponent_mark m \<and> \<not> starts digit_or_underscore rest"
      using m by blast
    then show ?thesis using k 2 3 by (simp add: consumes_def)
  next
    case False
    then have "lx_pos ?st3 \<noteq> lx_pos st2" using 3 utf8_len_pos [of ?ds] by (simp add: consumes_def)
    then have k: "k = None" "f'" "st' = ?st3"
      using assms r e unfolding lex_exponent_def at_def
      by (auto simp: Let_def st2_def [unfolded at_def, symmetric])
    have "exponent ((e # s) @ ?ds)" using m False by (intro an_exponent) simp_all
    moreover have "exponent_ends ((e # s) @ ?ds) (lx_rest st')" using k by (simp add: exponent_ends_def)
    ultimately show ?thesis using k consumes_trans [OF 2 3] by auto
  qed
qed

lemma lexes_decimal:
  assumes "lx_rest st = d # cs" "is_ascii_digit d" "lex_decimal cc st = (k, st')"
  shows "lexes cc st k st'"
proof -
  let ?st1 = "skip_while digit_or_underscore st"
  let ?ds = "takeWhile digit_or_underscore cs"
  have 1: "consumes (d # ?ds) st ?st1"
    using consumes_skip_while [of digit_or_underscore st] assms by (simp add: digit_or_underscore_def)
  have "\<not> starts digit_or_underscore (lx_rest ?st1)" by simp
  then obtain fp where fp: "consumes fp ?st1 (after_fraction ?st1)" "fraction fp" "fp \<noteq> [] \<longleftrightarrow> decimal_point ?st1"
      "fraction_ends fp (lx_rest (after_fraction ?st1))"
    using fraction_consumes by blast
  obtain ke f' st3 where e: "lex_exponent (decimal_point ?st1) (after_fraction ?st1) = (ke, f', st3)"
    by (metis prod_cases3)
  have k: "(k, st') = (case ke of Some kind \<Rightarrow> (kind, st3) | None \<Rightarrow> (number_kind f', lex_number_suffix cc st3))"
    using assms(3) e unfolding lex_decimal_def Let_def decimal_point_def [symmetric] after_fraction_def [symmetric]
    by (auto simp: number_kind_def split: option.splits)
  note 2 = consumes_trans [OF 1 fp(1)]
  show ?thesis
  proof (cases ke)
    case None
    with exponent_consumes [OF e] obtain ep where ep: "consumes ep (after_fraction ?st1) st3" "exponent ep"
        "f' = (decimal_point ?st1 \<or> ep \<noteq> [])" "exponent_ends ep (lx_rest st3)" by auto
    let ?sfx = "takeWhile (ident_char cc) (lx_rest st3)"
    have c: "consumes (d # ?ds @ fp @ ep @ ?sfx) st st'"
      using k None consumes_trans [OF consumes_trans [OF 2 ep(1)] suffix_consumes(1)] by simp
    have r: "?sfx @ lx_rest st' = lx_rest st3" "lx_rest (after_fraction ?st1) = ep @ lx_rest st3"
      using k None ep(1) by (simp_all add: suffix_consumes consumes_def)
    have "token_shape cc (number_kind (fp \<noteq> [] \<or> ep \<noteq> [])) (d # ?ds @ fp @ ep @ ?sfx) (lx_rest st')"
      using k None assms(2) fp ep r by (intro shape_decimal) (simp_all add: suffix_consumes)
    then show ?thesis using k None ep fp c by (auto intro: lexesI)
  next
    case (Some kind)
    with exponent_consumes [OF e] obtain m rest where m: "k = number_kind (fp \<noteq> [])" "consumes [] (after_fraction ?st1) st'"
        "lx_rest st' = m @ rest" "exponent_mark m" "\<not> starts digit_or_underscore rest"
      using k fp(3) by auto
    have "token_shape cc k (d # ?ds @ fp) (lx_rest st')"
      unfolding m(1,3) using assms(2) fp m by (intro shape_no_exponent) (simp_all add: consumes_def)
    then show ?thesis using consumes_trans [OF 2 m(2)] by (auto intro: lexesI)
  qed
qed

lemma lexes_number:
  assumes "lx_rest st = d # cs" "is_ascii_digit d" "lex_number cc st = (k, st')"
  shows "lexes cc st k st'"
proof -
  have radix: "lexes cc st SkIntLit (lex_radix cc digit st)"
    if "at st (CHR ''0'')" "next_at st x" "(x, digit) \<in> set radix_digit" for x digit
    using that by (auto simp: at_def next_at_def peek_Some peek_next_Some intro!: lexes_radix)
  show ?thesis
    using assms(3) radix lexes_decimal [OF assms(1,2)] unfolding lex_number_def radix_digit_def
    by (auto split: if_splits)
qed

subsection \<open>Operators\<close>

text \<open>The characters that would make an operator a longer one.\<close>

fun punct_next :: "punct \<Rightarrow> string" where
  "punct_next Plus = ''=''" | "punct_next Minus = ''>=''" | "punct_next Star = ''=''" | "punct_next Slash = ''=''"
| "punct_next Eq = ''=>''" | "punct_next Bang = ''=''" | "punct_next Lt = ''=<''" | "punct_next Gt = ''=>''"
| "punct_next And = ''&=''" | "punct_next Or = ''|=''" | "punct_next Caret = ''=''" | "punct_next Shl = ''=''"
| "punct_next Shr = ''=''" | "punct_next Dot = ''.''" | "punct_next DotDot = ''=''" | "punct_next Colon = '':''"
| "punct_next _ = []"

lemma prefix_starts: "prefix (x # xs) ys \<Longrightarrow> starts (\<lambda>c. c = x) ys"
  by (auto simp: prefix_def)

lemma punct_next_char: "punct_text p' = punct_text p @ c # cs \<Longrightarrow> c \<in> set (punct_next p)"
  by (cases p; cases p'; simp)

lemma maximal_punctI:
  assumes "\<forall>c\<in>set (punct_next p). \<not> starts (\<lambda>x. x = uc c) rest"
  shows "maximal_punct p rest"
  unfolding maximal_punct_def
proof (intro allI impI)
  fix p' assume "prefix (ucs (punct_text p')) (ucs (punct_text p) @ rest)"
  then consider "prefix (ucs (punct_text p')) (ucs (punct_text p))"
    | x xs where "ucs (punct_text p') = ucs (punct_text p) @ x # xs" "prefix (x # xs) rest"
    by (auto simp: prefix_append neq_Nil_conv) (metis append_Nil2 neq_Nil_conv prefix_order.order_refl)
  then show "length (punct_text p') \<le> length (punct_text p)"
  proof cases
    case 1
    then show ?thesis using prefix_length_le by (fastforce simp: ucs_def)
  next
    case 2
    then obtain c cs where "punct_text p' = punct_text p @ c # cs" "x = uc c"
      using inj_map_eq_map [of uc] by (auto simp: ucs_def map_eq_append_conv inj_def)
    then show ?thesis using punct_next_char assms prefix_starts [OF 2(2)] by blast
  qed
qed

lemma punct_text_first:
  "\<exists>ch cs. punct_text p = ch # cs \<and> (lookup_uc single_puncts (uc ch) \<noteq> None \<or> lookup_uc op_lexers (uc ch) \<noteq> None)"
  for p
  by (cases p) (simp_all add: lookup_uc_def single_puncts_def op_lexers_def)

definition lexes_punct :: "lexer \<Rightarrow> punct \<times> lexer \<Rightarrow> bool" where
  "lexes_punct st r \<longleftrightarrow> consumes (ucs (punct_text (fst r))) st (snd r) \<and> (\<forall>c\<in>set (punct_next (fst r)). \<not> at (snd r) c)"

lemma consumes_at: "consumes xs st st1 \<Longrightarrow> at st1 c \<Longrightarrow> consumes (xs @ [uc c]) st (advance st1)"
  using consumes_trans consumes_advance unfolding at_def by blast

lemma lexes_opt:
  assumes "at st a" "punct_text yes = [a, c]" "punct_text no = [a]" "punct_next yes = []" "punct_next no = [c]"
  shows "lexes_punct st (lex_opt c yes no st)"
  using consumes_at [OF consumes_refl assms(1)] consumes_at [of "[uc a]" st "advance st" c] assms(2-)
  by (auto simp: lexes_punct_def lex_opt_def Let_def)

lemma lexes_opt2:
  assumes "at st a" "punct_text k = [a, c]" "punct_text k' = [a, c']" "punct_text no = [a]"
    "punct_next k = []" "punct_next k' = []" "punct_next no = [c, c']"
  shows "lexes_punct st (lex_opt2 c k c' k' no st)"
  using consumes_at [OF consumes_refl assms(1)] consumes_at [of "[uc a]" st "advance st"] assms(2-)
  by (auto simp: lexes_punct_def lex_opt2_def Let_def)

lemma lexes_shift:
  assumes "at st a" "punct_text eq = [a, CHR ''='']" "punct_text shift = [a, c]" "punct_text shift_eq = [a, c, CHR ''='']"
    "punct_text no = [a]" "punct_next eq = []" "punct_next shift = [CHR ''='']" "punct_next shift_eq = []"
    "punct_next no = [CHR ''='', c]"
  shows "lexes_punct st (lex_shift c eq shift shift_eq no st)"
  using consumes_at [OF consumes_refl assms(1)] consumes_at [of "[uc a]" st "advance st"]
    consumes_at [of "[uc a, uc c]" st "advance (advance st)"] assms(2-)
  by (auto simp: lexes_punct_def lex_shift_def Let_def)

lemma lexes_dot: "at st (CHR ''.'') \<Longrightarrow> lexes_punct st (lex_dot st)"
  using consumes_at [OF consumes_refl, of st "CHR ''.''"] consumes_at [of "ucs ''.''" st "advance st"]
    consumes_at [of "ucs ''..''" st "advance (advance st)"]
  by (auto simp: lexes_punct_def lex_dot_def Let_def)

lemma op_lexers_lexes:
  assumes "lookup_uc op_lexers c = Some f" "peek st = Some c"
  shows "lexes_punct st (f st)"
proof -
  have "list_all (\<lambda>(a, g). at st a \<longrightarrow> lexes_punct st (g st)) op_lexers"
    unfolding op_lexers_def list.pred_inject case_prod_conv lex_colon_def lex_plus_def lex_minus_def lex_star_def
      lex_slash_def lex_eq_def lex_bang_def lex_and_def lex_or_def lex_caret_def lex_lt_def lex_gt_def
    by (intro conjI impI list.pred_inject(1); erule lexes_dot lexes_opt lexes_opt2 lexes_shift; simp)
  moreover obtain a where "(a, f) \<in> set op_lexers" "c = uc a"
    using assms(1) by (auto simp: lookup_uc_def dest!: map_of_SomeD)
  ultimately show ?thesis using assms(2) by (fastforce simp: list_all_iff at_def)
qed

lemma lexes_punct_lexes: "lexes_punct st (k, st') \<Longrightarrow> lexes cc st (SkPunct k) st'"
proof -
  assume a: "lexes_punct st (k, st')"
  then have "\<forall>c\<in>set (punct_next k). \<not> starts (\<lambda>x. x = uc c) (lx_rest st')"
    by (auto simp: lexes_punct_def at_def peek_def starts_def split: list.splits)
  moreover have "ucs (punct_text k) \<noteq> []" using punct_text_first [of k] by auto
  ultimately show ?thesis
    using a by (intro lexesI [of "ucs (punct_text k)"] shape_punct maximal_punctI) (auto simp: lexes_punct_def)
qed

lemma single_puncts_lexes:
  assumes "lookup_uc single_puncts c = Some k" "peek st = Some c"
  shows "lexes_punct st (k, advance st)"
proof -
  have "list_all (\<lambda>(a, k). punct_text k = [a] \<and> punct_next k = []) single_puncts"
    by (simp add: single_puncts_def)
  moreover obtain a where "(a, k) \<in> set single_puncts" "c = uc a"
    using assms(1) by (auto simp: lookup_uc_def dest!: map_of_SomeD)
  ultimately show ?thesis
    using assms(2) consumes_advance [OF assms(2)] by (fastforce simp: list_all_iff lexes_punct_def)
qed

lemma lexes_error:
  assumes "lx_rest st = c # cs" "\<not> is_ident_start c" "\<not> is_ascii_digit c" "c \<notin> {dquote, squote}"
    "lookup_uc single_puncts c = None" "lookup_uc op_lexers c = None"
  shows "lexes cc st SkError (advance st)"
proof -
  have "\<not> prefix (ucs (punct_text p)) [c]" for p
    using punct_text_first [of p] assms(5,6) by auto
  then show ?thesis
    using assms(1-4) consumes_advance [of st c] by (intro lexesI [of "[c]"] shape_error) auto
qed

subsection \<open>The token stream\<close>

lemma lex_token_lexes:
  assumes "lx_rest st = c # cs" "lex_token cc c st = (k, st')"
  shows "lexes cc st k st'"
proof -
  note byte = byte_prefix_peek [OF assms(1)]
  have p: "peek st = Some c" using assms(1) by simp
  show ?thesis
    using assms lexes_word [OF assms(1)] lexes_byte [of st cc] lexes_number [OF assms(1)] lexes_string [of st cs cc]
      lexes_quote [of st cs cc] single_puncts_lexes [OF _ p] op_lexers_lexes [OF _ p] lexes_error [OF assms(1)]
    unfolding lex_token_def byte [symmetric] Let_def
    by (auto split: if_splits option.splits prod.splits simp: lexes_punct_lexes intro!: lexes_punct_lexes)
qed

lemma lex_loop_token:
  assumes "consumes g st (trivia st)" "lx_rest (trivia st) = c # cs" "\<not> trivia_start (c # cs)"
    "lex_token cc c (trivia st) = (k, st2)"
  shows "lex_loop cc st acc = lex_loop cc st2 (acc @ [make_token k (trivia st) st2])"
proof -
  have idle: "trivia (trivia st) = trivia st" using assms(2,3) by (simp add: trivia_idle)
  have "lex_loop cc (trivia st) acc = lex_loop cc st2 (acc @ [make_token k (trivia st) st2])"
    using assms idle by (subst lex_loop.simps) (simp add: lex_trivia_def)
  moreover have "lx_rest st \<noteq> []" using assms(1,2) by (auto simp: consumes_def)
  ultimately show ?thesis
    using assms(2,4) by (subst lex_loop.simps) (simp add: lex_trivia_def Let_def)
qed

lemma lex_loop_end:
  assumes "consumes g st (trivia st)" "lx_rest (trivia st) = []"
  shows "lex_loop cc st acc = \<lparr>lr_tokens = acc, lr_diagnostics = lx_diags (trivia st)\<rparr>"
proof (cases "lx_rest st = []")
  case True
  then have "trivia st = st" by (simp add: trivia_idle trivia_start_def)
  then show ?thesis using True by (simp add: lex_loop.simps)
next
  case False
  have "lex_loop cc (trivia st) acc = \<lparr>lr_tokens = acc, lr_diagnostics = lx_diags (trivia st)\<rparr>"
    using assms(2) by (simp add: lex_loop.simps)
  then show ?thesis using False assms by (subst lex_loop.simps) (simp add: lex_trivia_def peek_def Let_def)
qed

lemma lex_loop_tiled:
  assumes "length (lx_rest st) < 2 ^ 32"
  shows "\<exists>toks. lr_tokens (lex_loop cc st acc) = acc @ toks \<and> tiled cc (lx_file st) (lx_pos st) (lx_rest st) toks"
  using assms
proof (induction "length (lx_rest st)" arbitrary: st acc rule: less_induct)
  case less
  obtain g where g: "consumes g st (trivia st)" "gap g (lx_rest (trivia st))" "\<not> trivia_start (lx_rest (trivia st))"
    using trivia_gap [OF less.prems] by blast
  show ?case
  proof (cases "lx_rest (trivia st)")
    case Nil
    then have "tiled cc (lx_file st) (lx_pos st) (lx_rest st) []"
      using g tiled_nil by (simp add: consumes_def)
    then show ?thesis using lex_loop_end [OF g(1) Nil] by simp
  next
    case (Cons c cs)
    obtain k st2 where k: "lex_token cc c (trivia st) = (k, st2)" by fastforce
    then obtain w where w: "consumes w (trivia st) st2" "w \<noteq> []" "token_shape cc k w (lx_rest st2)"
      using lex_token_lexes [OF Cons k] unfolding lexes_def by blast
    let ?tok = "make_token k (trivia st) st2"
    have step: "lex_loop cc st acc = lex_loop cc st2 (acc @ [?tok])"
      using lex_loop_token [OF g(1) Cons] g(3) Cons k by simp
    have len: "length (lx_rest st2) < length (lx_rest st)"
      using consumes_length [OF g(1)] consumes_length [OF w(1)] w(2) by simp
    obtain toks where toks: "lr_tokens (lex_loop cc st2 (acc @ [?tok])) = (acc @ [?tok]) @ toks"
        "tiled cc (lx_file st2) (lx_pos st2) (lx_rest st2) toks"
      using less.hyps [OF len] less.prems len by fastforce
    have "tiled cc (lx_file st) (lx_pos st) (g @ w @ lx_rest st2) (?tok # toks)"
      unfolding make_token_def lx_span_def consumes_slice [OF w(1)]
      using g w toks(2) tiled_token [of g w "lx_rest st2" cc k _ "lx_pos st"] by (auto simp: consumes_def)
    then show ?thesis using step toks g(1) w(1) by (auto simp: consumes_def)
  qed
qed

end
