(* ===== verification/Lexer_Props.thy ===== *)
theory Lexer_Props
  imports Lexer_Grammar
begin

text \<open>
  The properties of the lexer: the token stream is a tiling of the source in the lexical grammar, spans are
  ordered and lie in the source, and words and operators that are printed with blanks between them are read back.
\<close>

subsection \<open>The source is tiled\<close>

text \<open>C7. The tokens of a source tile it: between the start, the tokens and the end there are only blanks and
  comments (block comments nest), every token's text is the piece of the source between its byte positions, and the
  text has the shape of its kind, operators and words being as long as they can be.\<close>

theorem lex_tiles:
  assumes "length source < 2 ^ 32"
  shows "tiled cc file_id 0 source (lr_tokens (lex cc source file_id))"
  using lex_loop_tiled [of "lexer_new source file_id" cc "[]"] assms by (auto simp: lex_def lexer_new_def)

definition ascii_only :: char_class where
  "ascii_only = \<lparr>cc_alphabetic = (\<lambda>_. False), cc_alphanumeric = (\<lambda>_. False)\<rparr>"

theorem lex_tiles_witness:
  "tiled ascii_only 0 0 (ucs ''fn f /* a */ 1..=2'') (lr_tokens (lex ascii_only (ucs ''fn f /* a */ 1..=2'') 0)) \<and>
   map tk_kind (lr_tokens (lex ascii_only (ucs ''fn f /* a */ 1..=2'') 0)) =
     [SkKeyword KwFn, SkIdent, SkIntLit, SkPunct DotDotEq, SkIntLit]"
proof
  show "tiled ascii_only 0 0 (ucs ''fn f /* a */ 1..=2'') (lr_tokens (lex ascii_only (ucs ''fn f /* a */ 1..=2'') 0))"
    by (rule lex_tiles) simp
qed code_simp

subsection \<open>Spans\<close>

definition span_follows :: "token \<Rightarrow> token \<Rightarrow> bool" where
  "span_follows t u \<longleftrightarrow> sp_hi (tk_span t) \<le> sp_lo (tk_span u)"

lemma tiled_spans:
  assumes "tiled cc fid pos src toks" "pos + utf8_len src < 2 ^ 32"
  shows "sorted_wrt span_follows toks \<and> (\<forall>t\<in>set toks.
    pos \<le> unat (sp_lo (tk_span t)) \<and> unat (sp_lo (tk_span t)) < unat (sp_hi (tk_span t)) \<and>
    unat (sp_hi (tk_span t)) \<le> pos + utf8_len src)"
  using assms
proof (induction rule: tiled.induct)
  case (tiled_nil g pos)
  then show ?case by simp
next
  case (tiled_token g w rest kind lo pos hi toks)
  have "unat (word_of_nat lo :: u32) = lo" "unat (word_of_nat hi :: u32) = hi"
    using tiled_token.hyps(5,6) tiled_token.prems by (simp_all add: unat_of_nat del: of_nat_add)
  moreover have "0 < utf8_len w" using tiled_token utf8_len_pos by blast
  ultimately show ?case using tiled_token by (auto simp: span_follows_def word_le_nat_alt simp del: of_nat_add)
qed

text \<open>C40. In a source of less than 4 GiB the tokens' spans are in order, do not overlap, are not empty and
  lie within the source.\<close>

theorem lex_spans_ordered:
  assumes "utf8_len source < 2 ^ 32"
  shows "sorted_wrt span_follows (lr_tokens (lex cc source file_id)) \<and>
    (\<forall>t\<in>set (lr_tokens (lex cc source file_id)). sp_lo (tk_span t) < sp_hi (tk_span t) \<and>
       unat (sp_hi (tk_span t)) \<le> utf8_len source)"
proof -
  have "length xs \<le> utf8_len xs" for xs
  proof (induction xs)
    case (Cons x xs)
    then show ?case using len_utf8_pos [of x] by simp
  qed simp
  then have "tiled cc file_id 0 source (lr_tokens (lex cc source file_id))"
    using assms lex_loop_tiled [of "lexer_new source file_id" cc "[]"] le_less_trans
    by (fastforce simp: lex_def lexer_new_def)
  from tiled_spans [OF this] show ?thesis using assms by (auto simp: word_less_nat_alt)
qed

theorem lex_spans_ordered_witness:
  "utf8_len (ucs ''a+=b'') < 2 ^ 32 \<and> sorted_wrt span_follows (lr_tokens (lex ascii_only (ucs ''a+=b'') 0))"
  using lex_spans_ordered [of "ucs ''a+=b''" ascii_only 0]
  by (simp add: utf8_len_def len_utf8_def)

subsection \<open>Printing and reading back\<close>

text \<open>Words and operators, and their text with a blank after each.\<close>

datatype lexeme = Word "uchar list" | Op punct

fun lexeme_text :: "lexeme \<Rightarrow> uchar list" where
  "lexeme_text (Word w) = w"
| "lexeme_text (Op p) = ucs (punct_text p)"

fun lexeme_kind :: "lexeme \<Rightarrow> syntax_kind" where
  "lexeme_kind (Word w) = lookup_keyword w"
| "lexeme_kind (Op p) = SkPunct p"

fun lexeme_ok :: "char_class \<Rightarrow> lexeme \<Rightarrow> bool" where
  "lexeme_ok cc (Word w) = (case w of [] \<Rightarrow> False | c # cs \<Rightarrow> is_ident_start c \<and> list_all (ident_char cc) cs)"
| "lexeme_ok cc (Op p) = True"

definition render :: "lexeme list \<Rightarrow> uchar list" where
  "render ts = concat (map (\<lambda>t. lexeme_text t @ ucs '' '') ts)"

lemma skip_while_diags [simp]: "lx_diags (skip_while P st) = lx_diags st"
proof (induction P st rule: skip_while.induct)
  case (1 P st)
  then show ?case by (subst skip_while.simps) (auto simp: advance_def split: option.splits list.splits)
qed

lemma advance_diags [simp]: "lx_diags (advance st) = lx_diags st"
  by (simp add: advance_def split: list.splits)

lemma not_ident_chars [simp]: "\<not> ident_char cc (uc (CHR '' ''))" "\<not> ident_char cc squote" "\<not> ident_char cc dquote"
  by (simp_all add: ident_char_def is_alphanumeric_def ascii_letter_def is_ascii_digit_def in_range_def uc_def
      squote_def dquote_def)

lemma takeWhile_word:
  "list_all P w \<Longrightarrow> \<not> P b \<Longrightarrow> takeWhile P (w @ b # rest) = w \<and> dropWhile P (w @ b # rest) = b # rest"
  by (induction w) auto

lemma lex_token_word:
  assumes "lx_rest st = (c # cs) @ uc (CHR '' '') # rest" "is_ident_start c" "list_all (ident_char cc) cs"
  shows "\<exists>st2. lex_token cc c st = (lookup_keyword (c # cs), st2) \<and> consumes (c # cs) st st2 \<and> lx_diags st2 = lx_diags st"
proof -
  have b: "\<not> byte_prefix (lx_rest st)"
    using assms not_ident_chars by (cases cs) (auto simp: byte_prefix_def uc_def squote_def dquote_def)
  have w: "consumes (c # cs) st (lex_ident_or_keyword cc st)"
    using consumes_skip_while [of "ident_char cc" st] assms ident_start_char
      takeWhile_word [of "ident_char cc" cs "uc (CHR '' '')" rest]
    by (simp add: lex_ident_or_keyword_def)
  have "lex_token cc c st = (lookup_keyword (c # cs), lex_ident_or_keyword cc st)"
    using b assms byte_prefix_peek [of st c "cs @ uc (CHR '' '') # rest"] consumes_slice [OF w]
    by (auto simp: lex_token_def)
  then show ?thesis using w by (simp add: lex_ident_or_keyword_def)
qed

lemma punct_heads:
  "\<not> is_ident_start (uc (hd (punct_text p)))" "\<not> is_ascii_digit (uc (hd (punct_text p)))"
  "uc (hd (punct_text p)) \<noteq> dquote" "uc (hd (punct_text p)) \<noteq> squote" "\<not> is_space (uc (hd (punct_text p)))"
  by (cases p; simp add: is_ident_start_def is_ascii_digit_def in_range_def uc_def dquote_def squote_def is_space_def newline_def)+

lemma lex_token_punct:
  assumes "lx_rest st = ucs (punct_text p) @ uc (CHR '' '') # rest"
  shows "\<exists>st2. lex_token cc (uc (hd (punct_text p))) st = (SkPunct p, st2) \<and> lx_diags st2 = lx_diags st"
  using assms punct_heads [of p]
  by (cases p) (simp_all add: lex_token_def lookup_uc_def single_puncts_def op_lexers_def op_defs at_def peek_def rest_advance)

lemma render_Cons: "render (t # ts) = lexeme_text t @ uc (CHR '' '') # render ts"
  by (simp add: render_def)

lemma lexeme_step:
  assumes "lx_rest st = lexeme_text t @ uc (CHR '' '') # rest" "lexeme_ok cc t"
  shows "\<exists>c cs st2. lx_rest st = c # cs \<and> \<not> trivia_start (c # cs) \<and> lex_token cc c st = (lexeme_kind t, st2) \<and>
    consumes (lexeme_text t) st st2 \<and> lx_diags st2 = lx_diags st"
proof (cases t)
  case (Word w)
  then obtain c cs where w: "w = c # cs" "is_ident_start c" "list_all (ident_char cc) cs"
    using assms(2) by (auto split: list.splits)
  have "\<not> is_space c" "c \<noteq> uc (CHR ''/'')"
    using w(2) by (auto simp: is_ident_start_def is_space_def newline_def in_range_def uc_def)
  then have "\<not> trivia_start (lx_rest st)" using assms(1) Word w(1) by (simp add: trivia_start_def)
  then show ?thesis using lex_token_word [of st c cs rest cc] assms(1) Word w by auto
next
  case (Op p)
  then have r: "lx_rest st = ucs (punct_text p) @ uc (CHR '' '') # rest" using assms by simp
  obtain c cs where pt: "punct_text p = c # cs" using punct_text_first by blast
  have "\<not> trivia_start (lx_rest st)"
    unfolding r using punct_heads(5) [of p] by (cases p) (simp_all add: trivia_start_def)
  moreover obtain st2 where st2: "lex_token cc (uc c) st = (SkPunct p, st2)" "lx_diags st2 = lx_diags st"
    using lex_token_punct [OF r, of cc] pt by auto
  moreover have "consumes (ucs (punct_text p)) st st2"
  proof -
    have "lx_rest st = uc c # ucs cs @ uc (CHR '' '') # rest" using r pt by simp
    from lex_token_lexes [OF this st2(1)] obtain w where "consumes w st st2" "token_shape cc (SkPunct p) w (lx_rest st2)"
      by (auto simp: lexes_def)
    then show ?thesis
      by (auto elim: token_shape.cases simp: lookup_keyword_def number_kind_def split: option.splits if_splits)
  qed
  ultimately show ?thesis using r pt Op by auto
qed

lemma trivia_blank: "lx_rest st = uc (CHR '' '') # rest \<Longrightarrow> trivia st = trivia (advance st)"
  by (subst trivia.simps) (simp add: is_space_def uc_def)

lemma lex_loop_render:
  assumes "list_all (lexeme_ok cc) ts" "lx_rest st = lead @ render ts" "lead = [] \<or> lead = ucs '' ''"
  shows "\<exists>toks. lex_loop cc st acc = \<lparr>lr_tokens = acc @ toks, lr_diagnostics = lx_diags st\<rparr> \<and>
    map (\<lambda>t. (tk_kind t, tk_text t)) toks = map (\<lambda>t. (lexeme_kind t, lexeme_text t)) ts"
  using assms
proof (induction ts arbitrary: st acc lead)
  case Nil
  define st1 where "st1 = (if lead = [] then st else advance st)"
  have 1: "consumes lead st st1" "lx_rest st1 = []" "lx_diags st1 = lx_diags st"
    using Nil consumes_advance [of st] by (auto simp: st1_def render_def rest_advance)
  then have "trivia st = st1"
    using Nil trivia_blank [of st "[]"] by (auto simp: st1_def render_def trivia_idle trivia_start_def)
  then show ?case using lex_loop_end [of lead st] 1 by simp
next
  case (Cons t ts)
  define st1 where "st1 = (if lead = [] then st else advance st)"
  have 1: "consumes lead st st1" "lx_rest st1 = lexeme_text t @ uc (CHR '' '') # render ts" "lx_diags st1 = lx_diags st"
    using Cons.prems consumes_advance [of st] by (auto simp: st1_def render_Cons rest_advance)
  obtain c cs st2 where 2: "lx_rest st1 = c # cs" "\<not> trivia_start (c # cs)" "lex_token cc c st1 = (lexeme_kind t, st2)"
      "consumes (lexeme_text t) st1 st2" "lx_diags st2 = lx_diags st1"
    using lexeme_step [OF 1(2), of cc] Cons.prems(1) by auto
  have "trivia st = st1"
    using Cons.prems(2,3) 1(2) 2(1,2) trivia_blank [of st "render (t # ts)"] by (auto simp: st1_def trivia_idle)
  with 1 2 have step: "lex_loop cc st acc = lex_loop cc st2 (acc @ [make_token (lexeme_kind t) st1 st2])"
    using lex_loop_token [of lead st c cs cc] by simp
  have "lx_rest st2 = ucs '' '' @ render ts" using 1(2) 2(4) by (simp add: consumes_def)
  from Cons.IH [OF _ this] obtain toks where "lex_loop cc st2 (acc @ [make_token (lexeme_kind t) st1 st2]) =
      \<lparr>lr_tokens = (acc @ [make_token (lexeme_kind t) st1 st2]) @ toks, lr_diagnostics = lx_diags st2\<rparr>"
      "map (\<lambda>t. (tk_kind t, tk_text t)) toks = map (\<lambda>t. (lexeme_kind t, lexeme_text t)) ts"
    using Cons.prems(1) by fastforce
  then show ?case
    using step 1(3) 2(5) consumes_slice [OF 2(4)]
    by (intro exI [of _ "make_token (lexeme_kind t) st1 st2 # toks"]) (simp add: make_token_def)
qed

text \<open>C39. Words (identifiers and keywords) and operators printed with a blank after each are read back: the lexer
  returns a token of the same kind and text for each, in order, and no diagnostic.\<close>

theorem lex_render:
  assumes "list_all (lexeme_ok cc) ts"
  shows "map (\<lambda>t. (tk_kind t, tk_text t)) (lr_tokens (lex cc (render ts) file_id)) =
      map (\<lambda>t. (lexeme_kind t, lexeme_text t)) ts \<and>
    lr_diagnostics (lex cc (render ts) file_id) = []"
  using lex_loop_render [of cc ts "lexer_new (render ts) file_id" "[]" "[]"] assms
  by (auto simp: lex_def lexer_new_def)

theorem lex_render_witness:
  "map tk_kind (lr_tokens (lex ascii_only (render [Word (ucs ''let''), Word (ucs ''b''), Op ShlEq]) 0)) =
    [SkKeyword KwLet, SkIdent, SkPunct ShlEq]"
proof -
  let ?ts = "[Word (ucs ''let''), Word (ucs ''b''), Op ShlEq]"
  have "list_all (lexeme_ok ascii_only) ?ts" by code_simp
  from lex_render [OF this, of 0]
  have "map fst (map (\<lambda>t. (tk_kind t, tk_text t)) (lr_tokens (lex ascii_only (render ?ts) 0))) =
      map fst (map (\<lambda>t. (lexeme_kind t, lexeme_text t)) ?ts)" by simp
  moreover have "map lexeme_kind ?ts = [SkKeyword KwLet, SkIdent, SkPunct ShlEq]" by code_simp
  ultimately show ?thesis by (simp add: comp_def)
qed

end
