(* ===== verification/Parser_Props.thy ===== *)
theory Parser_Props
  imports Parser_Logic Lexer_Props
begin

text \<open>
  What the parser guarantees: the tokens of the tree are those of the source with a few listed exceptions, the nodes are
  properly nested where no \<open>use\<close> item occurs.
\<close>

subsection \<open>No token is lost\<close>

fun token_of :: "builder_call \<Rightarrow> (syntax_kind \<times> uchar list) list" where
  "token_of (BcToken k s) = [(k, s)]"
| "token_of _ = []"

definition token_calls :: "builder_call list \<Rightarrow> (syntax_kind \<times> uchar list) list" where
  "token_calls cs = concat (map token_of cs)"

lemma token_calls_simps [simp]:
  "token_calls [] = []" "token_calls (cs @ ds) = token_calls cs @ token_calls ds" "token_calls (c # cs) = token_of c @ token_calls cs"
  by (simp_all add: token_calls_def)

text \<open>How the leaves of a tree may differ from the tokens they stand for: \<open>>>\<close> and \<open>&&\<close> may be split, a \<open>>\<close> may be
  repeated, and a name that has been read may be emitted again.\<close>

inductive prints :: "token list \<Rightarrow> (syntax_kind \<times> uchar list) list \<Rightarrow> bool" where
  none: "prints [] []"
| same: "prints ts es \<Longrightarrow> prints (ts @ [t]) (es @ [(tk_kind t, tk_text t)])"
| split_gt: "prints ts es \<Longrightarrow> tk_kind t = SkPunct Shr \<Longrightarrow> prints (ts @ [t]) (es @ [(SkPunct Gt, gt_text), (SkPunct Gt, gt_text)])"
| split_amp: "prints ts es \<Longrightarrow> tk_kind t = SkPunct AndAnd \<Longrightarrow>
    prints (ts @ [t]) (es @ [(SkPunct And, ucs ''&''), (SkPunct And, ucs ''&'')])"
| more_gt: "prints ts es \<Longrightarrow> prints ts (es @ [(SkPunct Gt, gt_text)])"
| again: "prints ts es \<Longrightarrow> t \<in> set ts \<Longrightarrow> tk_kind t = SkIdent \<Longrightarrow> prints ts (es @ [(SkIdent, tk_text t)])"

definition covers :: "parser \<Rightarrow> bool" where
  "covers p \<longleftrightarrow> prints (take (ps_pos p) (ps_tokens p)) (token_calls (ps_calls p))"

definition lossless :: "parse \<Rightarrow> bool" where
  "lossless a \<longleftrightarrow> (\<forall>p p'. a p = Some p' \<longrightarrow> covers p \<longrightarrow> covers p' \<and> ps_tokens p' = ps_tokens p)"

lemma losslessI: "(\<And>p p'. a p = Some p' \<Longrightarrow> covers p \<Longrightarrow> covers p' \<and> ps_tokens p' = ps_tokens p) \<Longrightarrow> lossless a"
  by (simp add: lossless_def)

lemma losslessD: "lossless a \<Longrightarrow> a p = Some p' \<Longrightarrow> covers p \<Longrightarrow> covers p' \<and> ps_tokens p' = ps_tokens p"
  by (simp add: lossless_def)

lemma lossless_cons: "lossless a \<Longrightarrow> lossless (steps as) \<Longrightarrow> lossless (steps (a # as))"
  by (rule losslessI) (auto simp: bind_eq_Some_conv dest!: losslessD)

lemma lossless_branch: "lossless a \<Longrightarrow> lossless b \<Longrightarrow> lossless (if_state c a b)"
  by (rule losslessI) (auto simp: if_state_def dest: losslessD split: if_splits)

lemma take_current: "current p = Some t \<Longrightarrow> take (Suc (ps_pos p)) (ps_tokens p) = take (ps_pos p) (ps_tokens p) @ [t]"
  by (auto simp: current_def get_Some take_Suc_conv_app_nth)

lemma covers_bump: "bump p = Some p' \<Longrightarrow> covers p \<Longrightarrow> covers p' \<and> ps_tokens p' = ps_tokens p"
  by (auto simp: bump_def covers_def emit_call_def take_current split: option.splits if_splits intro: prints.intros)

lemma lossless_still:
  "(\<And>p p'. a p = Some p' \<Longrightarrow> ps_pos p' = ps_pos p \<and> ps_tokens p' = ps_tokens p \<and> token_calls (ps_calls p') = token_calls (ps_calls p)) \<Longrightarrow>
   lossless a"
  by (rule losslessI) (auto simp: covers_def)

lemma kind_current: "current_kind p = k \<Longrightarrow> k \<notin> {SkPunct Gt, SkError} \<Longrightarrow>
    ps_pending_gt p = 0 \<and> (\<exists>t. current p = Some t \<and> tk_kind t = k)"
  by (auto simp: current_kind_def split: if_splits option.splits)

lemma lossless_go_on: "lossless (body_of g) \<Longrightarrow> lossless (while_break n ks g)"
proof (induction n)
  case (Suc n)
  show ?case
  proof (rule losslessI)
    fix p p' assume r: "while_break (Suc n) ks g p = Some p'" and c: "covers p"
    show "covers p' \<and> ps_tokens p' = ps_tokens p"
    proof (cases "current_kind p \<in> set ks")
      case True
      with r obtain go p1 where g: "g p = Some (go, p1)" and q: "(if go then while_break n ks g p1 else Some p1) = Some p'"
        by (auto simp: bind_eq_Some_conv)
      then have "covers p1 \<and> ps_tokens p1 = ps_tokens p" using losslessD [OF Suc.prems _ c] by (simp add: body_of_def)
      then show ?thesis using q losslessD [OF Suc.IH [OF Suc.prems]] by (auto split: if_splits)
    qed (use r c in simp)
  qed
qed (simp add: lossless_def)

interpretation flow: parse_flow "\<lambda>_ _. lossless"
proof (unfold_locales, goal_cases)
  case (1 i j)
  show ?case by (simp add: lossless_def)
next
  case (2 i)
  show ?case by (simp add: lossless_def)
next
  case (3 i j a k as)
  then show ?case by (rule lossless_cons)
next
  case (4 i j a b c)
  then show ?case by (rule lossless_branch)
next
  case (5 i j f)
  then show ?case by (simp add: lossless_def with_checkpoint_def)
next
  case 9
  show ?case using covers_bump by (rule losslessI)
next
  case (13 i g n ks)
  then show ?case by (rule lossless_go_on)
qed (auto intro!: lossless_still simp: start_node_def start_node_at_def finish_node_def emit_call_def parse_error_def
    set_last_was_path_def set_suppress_def)

text \<open>Guarded by their kind, the places that emit other tokens than the current one.\<close>

lemma lossless_guarded:
  assumes "lossless b" "\<And>p p'. current_kind p \<in> set ks \<Longrightarrow> covers p \<Longrightarrow> a p = Some p' \<Longrightarrow> covers p' \<and> ps_tokens p' = ps_tokens p"
  shows "lossless (if_kind ks a b)"
proof (rule losslessI)
  fix p p' assume r: "if_kind ks a b p = Some p'" and c: "covers p"
  show "covers p' \<and> ps_tokens p' = ps_tokens p"
  proof (cases "current_kind p \<in> set ks")
    case True
    with r have "a p = Some p'" by (simp add: if_kind_def)
    then show ?thesis by (rule assms(2) [OF True c])
  next
    case False
    with r have "b p = Some p'" by (simp add: if_kind_def)
    then show ?thesis by (rule losslessD [OF assms(1) _ c])
  qed
qed

lemma lossless_shr: "lossless b \<Longrightarrow> lossless (if_kind (pns [Shr]) split_shr b)"
proof (rule lossless_guarded)
  fix p p' assume k: "current_kind p \<in> set (pns [Shr])" and c: "covers p" and r: "split_shr p = Some p'"
  obtain t where "current p = Some t" "tk_kind t = SkPunct Shr" using kind_current [of p "SkPunct Shr"] k by (auto simp: pns_def)
  then show "covers p' \<and> ps_tokens p' = ps_tokens p"
    using r c prints.split_gt by (auto simp: split_shr_def emit_token_def emit_call_def covers_def take_current)
qed

lemma split_and_covers:
  assumes "current_kind p = SkPunct AndAnd" "covers p" "split_and p = Some p'"
  shows "covers p' \<and> ps_tokens p' = ps_tokens p"
proof -
  obtain t where "current p = Some t" "tk_kind t = SkPunct AndAnd" using kind_current [OF assms(1)] by auto
  then show ?thesis
    using assms(2,3) prints.split_amp
    by (auto simp: split_and_def start_node_def emit_token_def emit_call_def skip_token_def current_def covers_def
        take_current [unfolded current_def])
qed

lemma lossless_and_and:
  assumes "lossless (call NtType)" "lossless b"
  shows "lossless (if_kind (pns [AndAnd]) (if_state (\<lambda>p. current p \<noteq> None) (ref_ref_type call) (steps [])) b)"
proof (rule lossless_guarded [OF assms(2)])
  fix p p' assume k: "current_kind p \<in> set (pns [AndAnd])" and c: "covers p"
    and r: "if_state (\<lambda>p. current p \<noteq> None) (ref_ref_type call) (steps []) p = Some p'"
  have rest: "lossless (steps [call NtType, finish_node, finish_node])"
    by (rule lossless_cons assms flow.finish flow.nil)+
  from r consider "p' = p" | p1 where "split_and p = Some p1" "steps [call NtType, finish_node, finish_node] p1 = Some p'"
    by (auto simp: if_state_def ref_ref_type_def bind_eq_Some_conv simp del: steps.simps(2) split: if_splits)
      (auto simp: bind_eq_Some_conv)
  then show "covers p' \<and> ps_tokens p' = ps_tokens p"
  proof cases
    case (2 p1)
    have "covers p1 \<and> ps_tokens p1 = ps_tokens p" using split_and_covers [OF _ c 2(1)] k by (simp add: pns_def)
    then show ?thesis using losslessD [OF rest 2(2)] by simp
  qed (use c in simp)
qed

lemma field_shorthand_covers:
  assumes "covers p" "t \<in> set (take (ps_pos p) (ps_tokens p))" "tk_kind t = SkIdent" "field_shorthand cp t p = Some p'"
  shows "covers p' \<and> ps_tokens p' = ps_tokens p"
  using assms prints.again [of "take (ps_pos p) (ps_tokens p)" "token_calls (ps_calls p)" t]
  by (auto simp: field_shorthand_def start_node_at_def start_node_def emit_token_def finish_node_def emit_call_def covers_def)

lemma lossless_field:
  assumes "lossless (call NtExpr)" "lossless b"
  shows "lossless (if_kind [SkIdent] (with_checkpoint (named_field call)) b)"
proof (rule lossless_guarded [OF assms(2)])
  fix p p' assume k: "current_kind p \<in> set [SkIdent]" and c: "covers p"
    and r: "with_checkpoint (named_field call) p = Some p'"
  obtain t where t: "current p = Some t" "tk_kind t = SkIdent" "ps_pending_gt p = 0" using kind_current [of p SkIdent] k by auto
  obtain p1 where b: "bump p = Some p1" by (simp add: bump_def)
  have p1: "covers p1" "ps_tokens p1 = ps_tokens p" "t \<in> set (take (ps_pos p1) (ps_tokens p1))"
    using covers_bump [OF b c] b t take_current [OF t(1)] by (auto simp: bump_def emit_call_def)
  have rest: "lossless (steps [bump, start_node_at cp nk, finish_node, call NtExpr])" for cp nk
    by (rule lossless_cons assms flow.finish flow.start_at flow.bumps flow.nil)+
  from r obtain cp where "if_kind (pns [Colon]) (steps [bump, start_node_at cp (NkItem StructField), finish_node, call NtExpr])
      (field_shorthand cp t) p1 = Some p'"
    by (auto simp: with_checkpoint_def named_field_def t b bind_steps_Nil simp del: steps.simps(2) split: if_splits)
      (auto simp: b bind_steps_Nil)
  then show "covers p' \<and> ps_tokens p' = ps_tokens p"
    using p1 losslessD [OF rest] field_shorthand_covers [OF p1(1,3) t(2)] by (auto simp: if_kind_def split: if_splits)
qed

lemma lossless_use_path: "lossless (parse_use_path n)"
  unfolding parse_use_path_def
  by (rule flow.flow flow.go_on)+ (simp only: body_use_segment, (rule flow.flow)+)

lemma lossless_use_tree: "(\<And>nt. lossless (call nt)) \<Longrightarrow> lossless (parse_use_tree call n)"
  unfolding parse_use_tree_def by (rule flow.flow flow.items lossless_use_path | assumption)+

lemma lossless_use_decl: "(\<And>nt. lossless (call nt)) \<Longrightarrow> lossless (parse_use_decl call n)"
  unfolding parse_use_decl_def by (rule flow.flow | assumption)+

interpretation lossless: parse_logic "\<lambda>_ _. lossless" UNIV
proof (unfold_locales, goal_cases)
  case (2 i b)
  then show ?case by (rule lossless_shr)
next
  case (3 call i b)
  then show ?case by (intro lossless_and_and)
next
  case (4 call i b)
  then show ?case by (intro lossless_field)
next
  case (5 call i b n)
  then show ?case by (intro flow.kind_branch lossless_use_decl) simp_all
qed simp

lemma lossless_parse_nt: "lossless (parse_nt n nt)"
proof (induction n arbitrary: nt)
  case 0
  show ?case by (simp add: lossless_def)
next
  case (Suc n)
  have g: "grammar_logic (\<lambda>_ _. lossless) UNIV (parse_nt n)"
    using Suc lossless.parse_logic_axioms by (simp add: grammar_logic_def grammar_logic_axioms_def)
  have "lossless (grammar (parse_nt n) n nt)"
    using grammar_logic.grammar_ok [OF g] lossless_use_tree [of "parse_nt n", OF Suc] by (cases "nt = NtUseTree") auto
  then show ?case by (simp add: lossless_def)
qed

interpretation lossless_nt: grammar_logic "\<lambda>_ _. lossless" UNIV "parse_nt n" for n
  by unfold_locales (simp add: lossless_parse_nt)

lemma loop_ends: "loop n c a p = Some p' \<Longrightarrow> \<not> c p'"
  by (induction n arbitrary: p) (auto simp: bind_eq_Some_conv split: if_splits)

lemma source_file_parts:
  assumes "parse_source_file n p0 = Some p"
  obtains p1 where "loop n (\<lambda>p. current p \<noteq> None) (parse_nt n NtItem) (emit_call (BcStart (NkItem SourceFile)) p0) = Some p1"
    "p = emit_call BcFinish p1"
  using assms by (auto simp: parse_source_file_def start_node_def finish_node_def bind_eq_Some_conv)

lemma parse_source_file_prints:
  assumes "parse_source_file n (parser_new ts) = Some p"
  shows "prints ts (token_calls (ps_calls p))"
proof -
  obtain p1 where l: "loop n (\<lambda>p. current p \<noteq> None) (parse_nt n NtItem) (emit_call (BcStart (NkItem SourceFile)) (parser_new ts)) = Some p1"
    and p: "p = emit_call BcFinish p1" by (rule source_file_parts [OF assms])
  have "covers (emit_call (BcStart (NkItem SourceFile)) (parser_new ts))"
    by (simp add: covers_def emit_call_def parser_new_def prints.none)
  from losslessD [OF flow.loops [OF lossless_parse_nt] l this]
  have c: "covers p1" "ps_tokens p1 = ts" by (simp_all add: emit_call_def parser_new_def)
  have "current p1 = None" using loop_ends [OF l] by simp
  then show ?thesis using c by (simp add: p covers_def emit_call_def current_def get_None)
qed


text \<open>A source with an error in it: the semicolon of the first module is missing.\<close>

definition two_modules :: "uchar list" where
  "two_modules = ucs ''mod m mod n;''"


subsection \<open>Nesting\<close>

text \<open>The nesting level after a sequence of calls, if no node is finished that was not started.\<close>

fun level :: "nat \<Rightarrow> builder_call list \<Rightarrow> nat option" where
  "level i [] = Some i"
| "level i (BcStart _ # cs) = level (Suc i) cs"
| "level i (BcStartAt _ _ # cs) = level (Suc i) cs"
| "level i (BcToken _ _ # cs) = level i cs"
| "level i (BcFinish # cs) = (case i of 0 \<Rightarrow> None | Suc j \<Rightarrow> level j cs)"

lemma level_append: "level i (cs @ ds) = Option.bind (level i cs) (\<lambda>j. level j ds)"
  by (induction i cs rule: level.induct) (auto split: nat.split)

definition no_use :: "parser \<Rightarrow> bool" where
  "no_use p \<longleftrightarrow> (\<forall>t \<in> set (ps_tokens p). tk_kind t \<noteq> SkKeyword KwUse)"

definition nests :: "nat \<Rightarrow> nat \<Rightarrow> parse \<Rightarrow> bool" where
  "nests i j a \<longleftrightarrow> (\<forall>p p'. a p = Some p' \<longrightarrow> no_use p \<longrightarrow>
     ps_tokens p' = ps_tokens p \<and> (\<exists>cs. ps_calls p' = ps_calls p @ cs \<and> level i cs = Some j))"

lemma nestsI:
  "(\<And>p p'. a p = Some p' \<Longrightarrow> no_use p \<Longrightarrow> ps_tokens p' = ps_tokens p \<and> (\<exists>cs. ps_calls p' = ps_calls p @ cs \<and> level i cs = Some j)) \<Longrightarrow>
   nests i j a"
  by (simp add: nests_def)

lemma nestsD:
  assumes "nests i j a" "a p = Some p'" "no_use p"
  obtains cs where "ps_tokens p' = ps_tokens p" "no_use p'" "ps_calls p' = ps_calls p @ cs" "level i cs = Some j"
  using assms unfolding nests_def no_use_def by metis

lemma nests_cons:
  assumes "nests i j a" "nests j k (steps as)"
  shows "nests i k (steps (a # as))"
proof (rule nestsI)
  fix p p' assume r: "steps (a # as) p = Some p'" and u: "no_use p"
  then obtain p1 where p1: "a p = Some p1" "steps as p1 = Some p'" by (auto simp: bind_eq_Some_conv)
  obtain cs where cs: "ps_tokens p1 = ps_tokens p" "no_use p1" "ps_calls p1 = ps_calls p @ cs" "level i cs = Some j"
    by (rule nestsD [OF assms(1) p1(1) u])
  obtain ds where ds: "ps_tokens p' = ps_tokens p1" "ps_calls p' = ps_calls p1 @ ds" "level j ds = Some k"
    by (rule nestsD [OF assms(2) p1(2) cs(2)])
  show "ps_tokens p' = ps_tokens p \<and> (\<exists>cs. ps_calls p' = ps_calls p @ cs \<and> level i cs = Some k)"
    using cs ds by (intro conjI exI [of _ "cs @ ds"]) (simp_all add: level_append)
qed

lemma nests_branch:
  assumes "nests i j a" "nests i j b"
  shows "nests i j (if_state c a b)"
proof (rule nestsI)
  fix p p' assume "if_state c a b p = Some p'" and u: "no_use p"
  then have "(if c p then a else b) p = Some p'" "nests i j (if c p then a else b)" using assms by (auto simp: if_state_def)
  then show "ps_tokens p' = ps_tokens p \<and> (\<exists>cs. ps_calls p' = ps_calls p @ cs \<and> level i cs = Some j)"
    using u unfolding nests_def by blast
qed

lemma nests_go_on: "nests i i (body_of g) \<Longrightarrow> nests i i (while_break n ks g)"
proof (induction n)
  case (Suc n)
  have "while_break (Suc n) ks g p = Some p' \<Longrightarrow>
      (steps [body_of g, while_break n ks g] p = Some p' \<or> body_of g p = Some p' \<or> p' = p)" for p p'
    by (auto simp: body_of_def bind_eq_Some_conv bind_steps_Nil split: if_splits)
  moreover have "nests i i (steps [body_of g, while_break n ks g])"
    by (rule nests_cons, rule Suc.prems, rule nests_cons, rule Suc.IH, rule Suc.prems, simp add: nests_def)
  ultimately show ?case using Suc.prems unfolding nests_def by fastforce
qed (simp add: nests_def)

lemma nests_call: "(\<And>p. a p = Some (emit_call c p)) \<Longrightarrow> level i [c] = Some j \<Longrightarrow> nests i j a"
  by (auto simp: nests_def emit_call_def)

lemma nests_bump: "nests i i bump"
  by (auto simp: nests_def bump_def emit_call_def split: option.splits)

interpretation nesting: parse_flow nests
proof (unfold_locales, goal_cases)
  case (3 i j a k as)
  then show ?case by (rule nests_cons)
next
  case (4 i j a b c)
  then show ?case by (rule nests_branch)
next
  case (5 i j f)
  then show ?case by (simp add: nests_def with_checkpoint_def)
next
  case (6 i nk)
  show ?case by (rule nests_call, simp add: start_node_def, simp)
next
  case (7 i cp nk)
  show ?case by (rule nests_call, simp add: start_node_at_def, simp)
next
  case (8 i)
  show ?case by (rule nests_call, simp add: finish_node_def, simp)
next
  case (9 i)
  show ?case by (rule nests_bump)
next
  case (13 i g n ks)
  then show ?case by (rule nests_go_on)
qed (auto simp: nests_def parse_error_def set_last_was_path_def set_suppress_def)

lemma nests_token: "nests i i (emit_token k s)"
  by (rule nests_call, simp add: emit_token_def, simp)

lemma nests_move: "(\<And>p p'. a p = Some p' \<Longrightarrow> ps_tokens p' = ps_tokens p \<and> ps_calls p' = ps_calls p) \<Longrightarrow> nests i i a"
  unfolding nests_def by fastforce

lemma nests_shr: "nests i i split_shr"
proof -
  have m: "nests i i (\<lambda>p. Some (p\<lparr>ps_pos := ps_pos p + 1, ps_pending_gt := ps_pending_gt p + 1\<rparr>))"
    by (rule nests_move) auto
  show ?thesis unfolding split_shr_def by (rule nests_cons nests_token nesting.nil m)+
qed

lemma nests_ref_ref: "(\<And>i. nests i i (call NtType)) \<Longrightarrow> nests i i (ref_ref_type call)"
proof -
  assume c: "\<And>i. nests i i (call NtType)"
  have s: "nests i i skip_token" for i by (rule nests_move) (auto simp: skip_token_def)
  have a: "nests i (Suc (Suc i)) split_and"
    unfolding split_and_def by (rule nests_cons nesting.start nests_token s nesting.nil)+
  show ?thesis unfolding ref_ref_type_def by (rule nests_cons a c nesting.finish nesting.nil)+
qed

lemma nests_named_field: "(\<And>i. nests i i (call NtExpr)) \<Longrightarrow> nests i i (named_field call cp)"
proof -
  assume c: "\<And>i. nests i i (call NtExpr)"
  have "nests i i (steps [bump, if_kind (pns [Colon])
      (steps [bump, start_node_at cp (NkItem StructField), finish_node, call NtExpr]) (field_shorthand cp t)])" for t
    unfolding field_shorthand_def by (rule nesting.flow nests_token c)+
  then show ?thesis unfolding nests_def named_field_def by (fastforce split: option.splits)
qed

lemma no_use_kind: "no_use p \<Longrightarrow> current_kind p \<noteq> SkKeyword KwUse"
  by (auto simp: no_use_def current_kind_def current_def get_Some split: option.splits if_splits)

lemma nests_no_use: "nests i i b \<Longrightarrow> nests i i (if_kind (kws [KwUse]) a b)"
  unfolding nests_def if_kind_def kws_def by (auto dest: no_use_kind)

interpretation nesting: parse_logic nests "- {NtUseTree}"
proof (unfold_locales, goal_cases)
  case (2 i b)
  then show ?case by (intro nesting.kind_branch nests_shr)
next
  case (3 call i b)
  then show ?case by (intro nesting.kind_branch nesting.branch nests_ref_ref nesting.nil)
next
  case (4 call i b)
  then show ?case by (intro nesting.kind_branch nesting.checkpoint nests_named_field)
next
  case (5 call i b n)
  then show ?case by (intro nests_no_use)
qed simp

lemma nests_parse_nt: "nt \<noteq> NtUseTree \<Longrightarrow> nests i i (parse_nt n nt)"
proof (induction n arbitrary: i nt)
  case 0
  show ?case by (simp add: nests_def)
next
  case (Suc n)
  have g: "grammar_logic nests (- {NtUseTree}) (parse_nt n)"
    using Suc.IH nesting.parse_logic_axioms by (simp add: grammar_logic_def grammar_logic_axioms_def)
  have "nests i i (grammar (parse_nt n) n nt)" using grammar_logic.grammar_ok [OF g Suc.prems] .
  then show ?case by (simp add: nests_def)
qed

interpretation nesting_nt: grammar_logic nests "- {NtUseTree}" "parse_nt n" for n
  by unfold_locales (simp add: nests_parse_nt)

end
