(* ===== verification/Parser_Returns.thy ===== *)
theory Parser_Returns
  imports Parser_Props
begin

text \<open>
  Termination of the parser on sources without \<open>use\<close>.  The measure of a state is twice the number of tokens left plus the
  number of queued \<open>>\<close>; \<open>safe m\<close> functions return from every state of measure at most \<open>m\<close> without increasing it, \<open>eats m\<close>
  functions lower it whenever a token is left.  A loop whose body eats ends; a recursive call is made either after a
  token has been eaten or to a nonterminal of lower rank.
\<close>

subsection \<open>Judgements\<close>

definition left :: "parser \<Rightarrow> nat" where
  "left p = 2 * (length (ps_tokens p) - ps_pos p) + ps_pending_gt p"

definition safe :: "nat \<Rightarrow> parse \<Rightarrow> bool" where
  "safe m a \<longleftrightarrow> (\<forall>p. no_use p \<longrightarrow> left p \<le> m \<longrightarrow> (\<exists>p'. a p = Some p' \<and> no_use p' \<and> left p' \<le> left p))"

definition eats :: "nat \<Rightarrow> parse \<Rightarrow> bool" where
  "eats m a \<longleftrightarrow> (\<forall>p. no_use p \<longrightarrow> left p \<le> m \<longrightarrow> current p \<noteq> None \<longrightarrow> (\<exists>p'. a p = Some p' \<and> no_use p' \<and> left p' < left p))"

definition still :: "parse \<Rightarrow> bool" where
  "still a \<longleftrightarrow> (\<forall>p. \<exists>p'. a p = Some p' \<and> ps_tokens p' = ps_tokens p \<and> ps_pos p' = ps_pos p \<and> ps_pending_gt p' = ps_pending_gt p)"

definition live_kinds :: "syntax_kind list \<Rightarrow> bool" where
  "live_kinds ks \<longleftrightarrow> SkPunct Gt \<notin> set ks \<and> SkError \<notin> set ks"

lemma live_kind: "live_kinds ks \<Longrightarrow> current_kind p \<in> set ks \<Longrightarrow> current p \<noteq> None"
proof -
  assume "live_kinds ks" "current_kind p \<in> set ks"
  then have "current_kind p \<notin> {SkPunct Gt, SkError}" unfolding live_kinds_def by force
  from kind_current [OF refl this] show ?thesis by auto
qed

lemma safe_mono: "safe m a \<Longrightarrow> k \<le> m \<Longrightarrow> safe k a"
  by (auto simp: safe_def)

lemma eats_mono: "eats m a \<Longrightarrow> k \<le> m \<Longrightarrow> eats k a"
  by (auto simp: eats_def)

lemma still_left:
  assumes "still a"
  obtains p' where "a p = Some p'" "no_use p' = no_use p" "left p' = left p" "current p' = current p" "current_kind p' = current_kind p"
proof -
  obtain p' where "a p = Some p'" "ps_tokens p' = ps_tokens p" "ps_pos p' = ps_pos p" "ps_pending_gt p' = ps_pending_gt p"
    using assms unfolding still_def by blast
  then show ?thesis by (intro that [of p']) (simp_all add: no_use_def left_def current_def current_kind_def)
qed

lemma stills: "still (steps [])" "still (start_node k)" "still (start_node_at cp k)" "still finish_node"
  "still (\<lambda>p. parse_error (f p) p)" "still (parse_error msg)" "still (error_text s)" "still (error_found s)" "still (set_suppress b)"
  "still (set_last_was_path b)" "still (emit_token tk ws)"
  by (simp_all add: still_def start_node_def start_node_at_def finish_node_def parse_error_def error_text_def error_found_def
      set_suppress_def set_last_was_path_def emit_token_def emit_call_def)

lemma still_safe: "still a \<Longrightarrow> safe m a"
  unfolding safe_def by (blast elim: still_left intro: eq_refl)

lemmas safe_stills = stills [THEN still_safe]

lemma safe_cons: "safe m a \<Longrightarrow> safe m (steps as) \<Longrightarrow> safe m (steps (a # as))"
  unfolding safe_def
proof (intro allI impI)
  fix p assume a: "\<forall>p. no_use p \<longrightarrow> left p \<le> m \<longrightarrow> (\<exists>p'. a p = Some p' \<and> no_use p' \<and> left p' \<le> left p)"
    and as: "\<forall>p. no_use p \<longrightarrow> left p \<le> m \<longrightarrow> (\<exists>p'. steps as p = Some p' \<and> no_use p' \<and> left p' \<le> left p)"
    and p: "no_use p" "left p \<le> m"
  obtain p1 where p1: "a p = Some p1" "no_use p1" "left p1 \<le> left p" using a p by blast
  moreover obtain p' where "steps as p1 = Some p'" "no_use p'" "left p' \<le> left p1"
    using as p1 p(2) order_trans by blast
  ultimately show "\<exists>p'. steps (a # as) p = Some p' \<and> no_use p' \<and> left p' \<le> left p" by auto
qed

lemma safe_branch: "safe m a \<Longrightarrow> safe m b \<Longrightarrow> safe m (if_state c a b)"
  by (simp add: safe_def if_state_def)

lemma safe_guard: "(\<And>p. c p \<Longrightarrow> current p \<noteq> None) \<Longrightarrow> eats m a \<Longrightarrow> safe m b \<Longrightarrow> safe m (if_state c a b)"
  unfolding safe_def eats_def if_state_def by (metis less_imp_le)

lemma safe_kind: "safe m a \<Longrightarrow> safe m b \<Longrightarrow> safe m (if_kind ks a b)"
  unfolding if_kind_eq by (rule safe_branch)

lemma safe_checkpoint: "(\<And>cp. safe m (f cp)) \<Longrightarrow> safe m (with_checkpoint f)"
  by (simp add: safe_def with_checkpoint_def)

lemma eats_still: "still a \<Longrightarrow> eats m (steps as) \<Longrightarrow> eats m (steps (a # as))"
  unfolding eats_def
proof (intro allI impI)
  fix p assume a: "still a" and p: "no_use p" "left p \<le> m" "current p \<noteq> None"
    and as: "\<forall>p. no_use p \<longrightarrow> left p \<le> m \<longrightarrow> current p \<noteq> None \<longrightarrow> (\<exists>p'. steps as p = Some p' \<and> no_use p' \<and> left p' < left p)"
  obtain p1 where p1: "a p = Some p1" "no_use p1 = no_use p" "left p1 = left p" "current p1 = current p"
    using a by (rule still_left)
  then obtain p' where "steps as p1 = Some p'" "no_use p'" "left p' < left p1" using as p by fastforce
  with p1 show "\<exists>p'. steps (a # as) p = Some p' \<and> no_use p' \<and> left p' < left p" by auto
qed

lemma eats_cons: "eats m a \<Longrightarrow> (\<And>k. k < m \<Longrightarrow> safe k (steps as)) \<Longrightarrow> eats m (steps (a # as))"
proof -
  assume a: "eats m a" and as: "\<And>k. k < m \<Longrightarrow> safe k (steps as)"
  show ?thesis
    unfolding eats_def
  proof (intro allI impI)
    fix p assume p: "no_use p" "left p \<le> m" "current p \<noteq> None"
    obtain p1 where p1: "a p = Some p1" "no_use p1" "left p1 < left p" using a p unfolding eats_def by blast
    then obtain p' where "steps as p1 = Some p'" "no_use p'" "left p' \<le> left p1"
      using as [of "left p1"] p(2) unfolding safe_def by fastforce
    with p1 show "\<exists>p'. steps (a # as) p = Some p' \<and> no_use p' \<and> left p' < left p" by auto
  qed
qed

lemma eats_branch: "eats m a \<Longrightarrow> eats m b \<Longrightarrow> eats m (if_state c a b)"
  by (simp add: eats_def if_state_def)

lemma eats_checkpoint: "(\<And>cp. eats m (f cp)) \<Longrightarrow> eats m (with_checkpoint f)"
  by (simp add: eats_def with_checkpoint_def)

lemma safe_loop: "(\<And>p. c p \<Longrightarrow> current p \<noteq> None) \<Longrightarrow> eats m a \<Longrightarrow> m < n \<Longrightarrow> safe m (loop n c a)"
proof (induction n arbitrary: m)
  case (Suc n)
  have "eats m (steps [a, loop n c a])"
    by (rule eats_cons [OF Suc.prems(2)])
      (use Suc.IH [OF Suc.prems(1) eats_mono [OF Suc.prems(2)]] Suc.prems(3) in \<open>simp add: steps_single\<close>)
  then show ?case unfolding loop_Suc by (intro safe_guard Suc.prems(1) safe_stills)
qed simp

subsection \<open>Rules for the control flow\<close>

lemma left_simps [simp]:
  "left (p\<lparr>ps_calls := cs\<rparr>) = left p" "left (emit_call c p) = left p" "no_use (emit_call c p) = no_use p"
  "no_use (p\<lparr>ps_pos := i\<rparr>) = no_use p" "no_use (p\<lparr>ps_pending_gt := i\<rparr>) = no_use p"
  by (simp_all add: left_def emit_call_def no_use_def)

lemma bump_left: "\<exists>p'. bump p = Some p' \<and> no_use p' = no_use p \<and> left p' \<le> left p \<and> (current p \<noteq> None \<longrightarrow> left p' < left p)"
  by (auto simp: bump_def left_def emit_call_def no_use_def current_def get_Some get_None split: option.splits)

lemma bump_rules: "safe m bump" "eats m bump"
  using bump_left unfolding safe_def eats_def by metis+

lemma safe_expect: "safe m (expect k)" "safe m (bump_expected k)" "safe m bump_if_any"
  unfolding expect_eq bump_expected_eq bump_if_any_def by (rule safe_branch safe_cons bump_rules safe_stills)+

lemma eats_bump_expected: "eats m (bump_expected k)"
proof -
  have "eats m (if_state (\<lambda>p. current p \<noteq> None \<or> 0 < ps_pending_gt p) bump (steps []))"
    using bump_rules(2) [of m] by (auto simp: eats_def if_state_def)
  then have "eats m (steps [if_state (\<lambda>p. current p \<noteq> None \<or> 0 < ps_pending_gt p) bump (steps [])])" by (simp only: steps_single)
  moreover have "still (if_state (\<lambda>p. current_kind p \<noteq> k) (\<lambda>p. parse_error (PmExpected k (current_kind p)) p) (steps []))"
    by (auto simp: still_def if_state_def parse_error_def)
  ultimately show ?thesis unfolding bump_expected_eq by (rule eats_still [rotated])
qed

lemma eats_bump_if_any: "eats m bump_if_any"
  using bump_rules(2) [of m] by (auto simp: bump_if_any_def eats_def if_state_def)

lemma safe_live: "live_kinds ks \<Longrightarrow> eats m a \<Longrightarrow> safe m b \<Longrightarrow> safe m (if_kind ks a b)"
  unfolding if_kind_eq by (rule safe_guard) (rule live_kind)

lemma eats_kind: "eats m a \<Longrightarrow> eats m b \<Longrightarrow> eats m (if_kind ks a b)"
  unfolding if_kind_eq by (rule eats_branch)

lemma safe_while: "live_kinds ks \<Longrightarrow> m < n \<Longrightarrow> eats m a \<Longrightarrow> safe m (while_kind n ks a)"
  unfolding while_kind_def by (rule safe_loop) (rule live_kind)

lemma safe_until: "m < n \<Longrightarrow> eats m a \<Longrightarrow> safe m (until_kind n ks a)"
  unfolding until_kind_def by (rule safe_loop) auto

lemma safe_items: "m < n \<Longrightarrow> eats m (steps [a, comma_opt]) \<Longrightarrow> safe m (items_until n c a)"
  unfolding items_until_def by (rule safe_until)

lemma safe_when: "safe m a \<Longrightarrow> safe m (when_kind ks a)"
  unfolding when_kind_def by (intro safe_kind safe_stills)

lemma safe_unless: "safe m a \<Longrightarrow> safe m (unless_kind ks a)"
  unfolding unless_kind_def by (intro safe_kind safe_stills)

lemma safe_match: "safe m d \<Longrightarrow> safe m (match_kind [] d)"
  "safe m a \<Longrightarrow> safe m (match_kind rs d) \<Longrightarrow> safe m (match_kind ((ks, a) # rs) d)"
  by (simp_all add: safe_kind)

lemma safe_go_on: "(\<And>k. k \<le> m \<Longrightarrow> safe k (body_of g)) \<Longrightarrow> live_kinds ks \<Longrightarrow> eats m (body_of g) \<Longrightarrow> m < n \<Longrightarrow> safe m (while_break n ks g)"
proof (induction n arbitrary: m)
  case (Suc n)
  show ?case
    unfolding safe_def
  proof (intro allI impI)
    fix p assume p: "no_use p" "left p \<le> m"
    show "\<exists>p'. while_break (Suc n) ks g p = Some p' \<and> no_use p' \<and> left p' \<le> left p"
    proof (cases "current_kind p \<in> set ks")
      case True
      then obtain p1 where "body_of g p = Some p1" and p1: "no_use p1" "left p1 < left p"
        using p live_kind [OF Suc.prems(2) True] Suc.prems(3) unfolding eats_def by blast
      then obtain go where g: "g p = Some (go, p1)" by (auto simp: body_of_def)
      have "safe (left p1) (while_break n ks g)"
        using Suc.prems p p1 by (intro Suc.IH) (auto intro: eats_mono)
      then obtain p2 where "while_break n ks g p1 = Some p2" "no_use p2" "left p2 \<le> left p1"
        using p1 unfolding safe_def by blast
      then show ?thesis using True g p1 by (cases go) auto
    qed (use p in simp)
  qed
qed simp

text \<open>Eating in a sequence, by the head of its first part.\<close>

lemma eats_first:
  "eats m (steps as) \<Longrightarrow> eats m (steps (start_node nk # as))"
  "eats m (steps as) \<Longrightarrow> eats m (steps (start_node_at cp nk # as))"
  "eats m (steps as) \<Longrightarrow> eats m (steps (finish_node # as))"
  "eats m (steps as) \<Longrightarrow> eats m (steps (error_text s # as))"
  "eats m (steps as) \<Longrightarrow> eats m (steps (error_found s # as))"
  "eats m (steps as) \<Longrightarrow> eats m (steps (set_suppress v # as))"
  "eats m (steps as) \<Longrightarrow> eats m (steps (set_last_was_path v # as))"
  by (rule eats_still, rule stills, assumption)+

lemma eats_bumps:
  "(\<And>k. k < m \<Longrightarrow> safe k (steps as)) \<Longrightarrow> eats m (steps (bump # as))"
  "(\<And>k. k < m \<Longrightarrow> safe k (steps as)) \<Longrightarrow> eats m (steps (bump_expected kd # as))"
  "(\<And>k. k < m \<Longrightarrow> safe k (steps as)) \<Longrightarrow> eats m (steps (bump_if_any # as))"
  by (rule eats_cons, rule bump_rules eats_bump_expected eats_bump_if_any, assumption)+

lemma steps_append: "steps (steps as # bs) = steps (as @ bs)"
  by (induction as) (simp_all add: fun_eq_iff bind_assoc)

lemma eats_choice: "eats m (steps (a # as)) \<Longrightarrow> eats m (steps (b # as)) \<Longrightarrow> eats m (steps (if_state c a b # as))"
  unfolding eats_def if_state_def by (auto split: if_splits)

lemma eats_choices:
  "eats m (steps (a # as)) \<Longrightarrow> eats m (steps (b # as)) \<Longrightarrow> eats m (steps (if_kind ks a b # as))"
  "eats m (steps (a # as)) \<Longrightarrow> eats m (steps as) \<Longrightarrow> eats m (steps (when_kind ks a # as))"
  "eats m (steps (d # as)) \<Longrightarrow> eats m (steps (match_kind [] d # as))"
  "eats m (steps (a # as)) \<Longrightarrow> eats m (steps (match_kind rs d # as)) \<Longrightarrow> eats m (steps (match_kind ((ls, a) # rs) d # as))"
  "eats m (steps (bs @ as)) \<Longrightarrow> eats m (steps (steps bs # as))"
  by (simp_all add: if_kind_eq when_kind_def steps_append eats_choice del: steps.simps)

lemma eats_checkpoints: "(\<And>cp. eats m (steps (f cp # as))) \<Longrightarrow> eats m (steps (with_checkpoint f # as))"
  unfolding eats_def with_checkpoint_def by auto

lemma eats_now:
  assumes "safe m (steps as)"
  shows "eats m (steps (bump # as))" "eats m (steps (bump_expected kd # as))" "eats m (steps (bump_if_any # as))"
    "eats m a \<Longrightarrow> eats m (steps (a # as))"
  using eats_bumps(1,2,3) [of m as] eats_cons [of m _ as] safe_mono [OF assms] by (simp_all del: steps.simps)

lemma live_simps [simp]:
  "live_kinds [] = True" "live_kinds (k # ks) = (k \<noteq> SkPunct Gt \<and> k \<noteq> SkError \<and> live_kinds ks)"
  "live_kinds (pns ps) = (Gt \<notin> set ps)" "live_kinds (kws ws) = True" "live_kinds path_kinds = True" "live_kinds literal_kinds = True"
  "live_kinds (ks @ ls) = (live_kinds ks \<and> live_kinds ls)"
  by (auto simp: live_kinds_def pns_def kws_def path_kinds_def literal_kinds_def)

subsection \<open>Eating at given kinds\<close>

definition eats_at :: "syntax_kind list \<Rightarrow> nat \<Rightarrow> parse \<Rightarrow> bool" where
  "eats_at ks m a \<longleftrightarrow> (\<forall>p. no_use p \<longrightarrow> left p \<le> m \<longrightarrow> current p \<noteq> None \<longrightarrow> current_kind p \<in> set ks \<longrightarrow>
     (\<exists>p'. a p = Some p' \<and> no_use p' \<and> left p' < left p))"

lemma at_any: "eats m a \<Longrightarrow> eats_at ks m a"
  by (simp add: eats_at_def eats_def)

lemma at_none: "eats_at [] m a"
  by (simp add: eats_at_def)

lemma at_still: "still a \<Longrightarrow> eats_at ks m (steps as) \<Longrightarrow> eats_at ks m (steps (a # as))"
  unfolding eats_at_def
proof (intro allI impI)
  fix p assume a: "still a" and p: "no_use p" "left p \<le> m" "current p \<noteq> None" "current_kind p \<in> set ks"
    and as: "\<forall>p. no_use p \<longrightarrow> left p \<le> m \<longrightarrow> current p \<noteq> None \<longrightarrow> current_kind p \<in> set ks \<longrightarrow>
      (\<exists>p'. steps as p = Some p' \<and> no_use p' \<and> left p' < left p)"
  obtain p1 where p1: "a p = Some p1" "no_use p1 = no_use p" "left p1 = left p" "current p1 = current p" "current_kind p1 = current_kind p"
    using a by (rule still_left)
  then obtain p' where "steps as p1 = Some p'" "no_use p'" "left p' < left p1" using as p by fastforce
  with p1 show "\<exists>p'. steps (a # as) p = Some p' \<and> no_use p' \<and> left p' < left p" by auto
qed

lemma at_first:
  "eats_at ks m (steps as) \<Longrightarrow> eats_at ks m (steps (start_node nk # as))"
  "eats_at ks m (steps as) \<Longrightarrow> eats_at ks m (steps (start_node_at cp nk # as))"
  by (rule at_still, rule stills, assumption)+

lemma at_checkpoint: "(\<And>cp. eats_at ks m (f cp)) \<Longrightarrow> eats_at ks m (with_checkpoint f)"
  unfolding eats_at_def with_checkpoint_def by auto

lemma at_state: "eats_at ks m a \<Longrightarrow> eats_at ks m b \<Longrightarrow> eats_at ks m (if_state c a b)"
  unfolding eats_at_def if_state_def by auto

lemma at_kinds: "eats_at (filter (\<lambda>k. k \<in> set ls) ks) m a \<Longrightarrow> eats_at (filter (\<lambda>k. k \<notin> set ls) ks) m b \<Longrightarrow> eats_at ks m (if_kind ls a b)"
  unfolding eats_at_def if_kind_def by auto

lemma at_match: "eats_at ks m d \<Longrightarrow> eats_at ks m (match_kind [] d)"
  "eats_at (filter (\<lambda>k. k \<in> set ls) ks) m a \<Longrightarrow> eats_at (filter (\<lambda>k. k \<notin> set ls) ks) m (match_kind rs d) \<Longrightarrow>
   eats_at ks m (match_kind ((ls, a) # rs) d)"
  by (simp_all add: at_kinds)

lemma at_then: "eats m a \<Longrightarrow> set ks \<subseteq> set ls \<Longrightarrow> eats_at ks m (if_kind ls a b)"
  "eats m (steps (a # as)) \<Longrightarrow> set ks \<subseteq> set ls \<Longrightarrow> eats_at ks m (steps (if_kind ls a b # as))"
  "eats m (steps (a # as)) \<Longrightarrow> set ks \<subseteq> set ls \<Longrightarrow> eats_at ks m (steps (when_kind ls a # as))"
  by (auto simp: eats_at_def eats_def if_kind_def when_kind_def)

lemma at_choices:
  "eats_at (filter (\<lambda>k. k \<in> set ls) ks) m (steps (a # as)) \<Longrightarrow> eats_at (filter (\<lambda>k. k \<notin> set ls) ks) m (steps (b # as)) \<Longrightarrow>
   eats_at ks m (steps (if_kind ls a b # as))"
  "eats_at (filter (\<lambda>k. k \<in> set ls) ks) m (steps (a # as)) \<Longrightarrow> eats_at (filter (\<lambda>k. k \<notin> set ls) ks) m (steps as) \<Longrightarrow>
   eats_at ks m (steps (when_kind ls a # as))"
  "eats_at ks m (steps (bs @ as)) \<Longrightarrow> eats_at ks m (steps (steps bs # as))"
  by (auto simp: steps_append simp del: steps.simps) (auto simp: eats_at_def if_kind_def when_kind_def)

lemma at_expect: "set ks \<subseteq> {k} \<Longrightarrow> (\<And>j. j < m \<Longrightarrow> safe j (steps as)) \<Longrightarrow> eats_at ks m (steps (expect k # as))"
  using eats_bumps(1) [of m as] by (auto simp: eats_at_def eats_def expect_def)

lemma at_cons: "eats_at ks m a \<Longrightarrow> (\<And>j. j < m \<Longrightarrow> safe j (steps as)) \<Longrightarrow> eats_at ks m (steps (a # as))"
proof -
  assume a: "eats_at ks m a" and as: "\<And>k. k < m \<Longrightarrow> safe k (steps as)"
  show ?thesis
    unfolding eats_at_def
  proof (intro allI impI)
    fix p assume p: "no_use p" "left p \<le> m" "current p \<noteq> None" "current_kind p \<in> set ks"
    obtain p1 where p1: "a p = Some p1" "no_use p1" "left p1 < left p" using a p unfolding eats_at_def by blast
    then obtain p' where "steps as p1 = Some p'" "no_use p'" "left p' \<le> left p1"
      using as [of "left p1"] p(2) unfolding safe_def by fastforce
    with p1 show "\<exists>p'. steps (a # as) p = Some p' \<and> no_use p' \<and> left p' < left p" by auto
  qed
qed

lemma safe_at: "live_kinds ks \<Longrightarrow> eats_at ks m a \<Longrightarrow> safe m b \<Longrightarrow> safe m (if_kind ks a b)"
  unfolding safe_def eats_at_def if_kind_def using live_kind by (metis less_imp_le)

lemma eats_match: "eats m d \<Longrightarrow> eats m (match_kind [] d)"
  "eats_at ks m a \<Longrightarrow> eats m (match_kind rs d) \<Longrightarrow> eats m (match_kind ((ks, a) # rs) d)"
  unfolding eats_def eats_at_def by (auto simp: if_kind_def)

lemma safe_loop_at:
  assumes "\<And>p. c p \<Longrightarrow> current_kind p \<in> set ks" "live_kinds ks" "eats_at ks m a" "m < n"
  shows "safe m (loop n c a)"
proof -
  have "eats m (\<lambda>p. if c p then a p else if current p = None then None else Some (p\<lparr>ps_pos := ps_pos p + 1\<rparr>))"
    using assms(1,3) by (auto simp: eats_def eats_at_def left_def current_def no_use_def get_def split: if_splits)
  then have l: "safe m (loop n c (\<lambda>p. if c p then a p else if current p = None then None else Some (p\<lparr>ps_pos := ps_pos p + 1\<rparr>)))"
    by (intro safe_loop) (use assms live_kind in blast)+
  have "loop k c (\<lambda>p. if c p then a p else if current p = None then None else Some (p\<lparr>ps_pos := ps_pos p + 1\<rparr>)) = loop k c a" for k
  proof (induction k)
    case (Suc k)
    show ?case by (rule ext) (simp add: Suc.IH)
  qed (simp add: fun_eq_iff)
  with l show ?thesis by simp
qed

lemmas safe_rules = safe_stills bump_rules(1) safe_expect safe_cons safe_when safe_unless safe_match safe_kind safe_branch
  safe_checkpoint safe_while safe_until safe_items

lemmas eats_rules = bump_rules(2) eats_first eats_now(1-3) eats_choices eats_match eats_kind eats_branch eats_checkpoint eats_checkpoints at_any

subsection \<open>After a token has been eaten\<close>

text \<open>Here every recursive call returns from states of measure at most \<open>m\<close>, and loops have more turns than that.\<close>

locale parse_after =
  fixes call :: call and n m :: nat
  assumes called: "nt \<noteq> NtUseTree \<Longrightarrow> safe m (call nt)" "nt \<noteq> NtUseTree \<Longrightarrow> eats m (call nt)"
    and fuel: "m < n"
begin

lemma calls: "safe m (call NtStmt)" "safe m (call NtExpr)" "safe m (call NtUnary)" "safe m (call NtIf)" "safe m (call NtPat)"
  "safe m (call NtType)" "safe m (call NtItem)" "safe m (call NtTokenTree)"
  by (simp_all add: called)

lemma eats_calls: "eats m (call NtStmt)" "eats m (call NtItem)"
  "safe m (steps as) \<Longrightarrow> eats m (steps (call NtExpr # as))" "safe m (steps as) \<Longrightarrow> eats m (steps (call NtPat # as))"
  "safe m (steps as) \<Longrightarrow> eats m (steps (call NtType # as))" "safe m (steps as) \<Longrightarrow> eats m (steps (call NtTokenTree # as))"
  by (simp_all add: called eats_now(4))

lemmas base = safe_rules calls fuel
lemmas ebase = eats_rules eats_calls

lemma go_on: "safe m (body_of g) \<Longrightarrow> live_kinds ks \<Longrightarrow> eats m (body_of g) \<Longrightarrow> safe m (while_break n ks g)"
  using safe_go_on [of m g ks n] safe_mono fuel by blast

lemma split: "safe m b \<Longrightarrow> safe m (if_kind (pns [Shr]) split_shr b)"
proof (rule safe_live)
  have "left p' < left p" if "current p \<noteq> None" "p' = p\<lparr>ps_pos := ps_pos p + 1, ps_pending_gt := ps_pending_gt p + 1\<rparr>" for p p'
    using that by (auto simp: left_def current_def get_def split: if_splits)
  then show "eats m split_shr"
    by (auto simp: eats_def split_shr_def emit_token_def left_def current_def emit_call_def no_use_def get_def split: if_splits)
qed simp_all

lemma close: "safe m close_angle"
  unfolding close_angle_def by (rule split base)+

lemma type_args: "safe m (parse_type_arg_list call n)"
  unfolding parse_type_arg_list_def by (rule close base ebase | simp)+

lemma path_inner: "safe m (parse_path_inner call n)"
proof -
  have "safe m (body_of (path_segment call n))" "eats m (body_of (path_segment call n))"
    unfolding body_path_segment by (rule type_args base ebase)+
  then show ?thesis unfolding parse_path_inner_def by - (rule go_on base | assumption | simp)+
qed

lemma paths: "safe m (parse_path call n)" "safe m (parse_path_expr call n)"
  unfolding parse_path_expr_def parse_path_def by (rule path_inner base)+

lemma blocks: "safe m (parse_block call n)" "safe m (parse_condition call)"
  unfolding parse_block_def parse_block_inner_def parse_condition_def by (rule base ebase)+

lemma labels: "safe m parse_label"
  unfolding parse_label_def by (rule base)+

lemma compound: "safe m (parse_if_expr call n)" "safe m (parse_while_expr call n)" "safe m (parse_for_expr call n)"
  "safe m (parse_loop_expr call n)"
  unfolding parse_if_expr_def parse_while_expr_def parse_for_expr_def parse_loop_expr_def by (rule blocks labels base)+

lemma pat_parts: "safe m (pat_path call n)" "safe m (pat_literal call)"
proof -
  have "eats m (pat_field call n)" unfolding pat_field_def by (rule base ebase | simp)+
  then show "safe m (pat_path call n)" unfolding pat_path_def by - (rule path_inner base ebase | assumption)+
  show "safe m (pat_literal call)" unfolding pat_literal_def by (rule base)+
qed

lemma pats: "safe m (parse_pat_inner call n)" "safe m (parse_pat_single call n)" "safe m (parse_pat call n)"
proof -
  show inner: "safe m (parse_pat_inner call n)"
    unfolding parse_pat_inner_def by (rule pat_parts base ebase | simp)+
  show single: "safe m (parse_pat_single call n)"
    unfolding parse_pat_single_def by (rule inner base ebase | simp)+
  show "safe m (parse_pat call n)" unfolding parse_pat_def by (rule single base ebase | simp)+
qed

lemma ref_ref: "eats_at (pns [AndAnd]) m (if_state (\<lambda>p. current p \<noteq> None) (ref_ref_type call) (steps []))"
proof -
  have sk: "eats m (steps (skip_token # as))" if "safe m (steps as)" for as
    using that by (intro eats_now(4)) (auto simp: eats_def skip_token_def left_def current_def no_use_def get_def)
  have "eats m (ref_ref_type call)"
    unfolding ref_ref_type_def split_and_def
    by (rule eats_choices(5), simp only: append.simps, (rule eats_still, rule stills)+, rule sk, (rule base)+)
  then show ?thesis by (auto simp: eats_at_def eats_def if_state_def)
qed

lemma named: "eats_at [SkIdent] m (with_checkpoint (named_field call))"
proof (rule at_checkpoint)
  fix cp
  have "eats m (steps [bump, if_kind (pns [Colon])
      (steps [bump, start_node_at cp (NkItem StructField), finish_node, call NtExpr]) (field_shorthand cp t)])" for t
    unfolding field_shorthand_def by (rule base ebase)+
  then show "eats_at [SkIdent] m (named_field call cp)"
    unfolding eats_at_def eats_def named_field_def by fastforce
qed

lemma path_at: "eats_at path_kinds m (parse_path_inner call n)" "eats_at path_kinds m (parse_path call n)"
  "eats_at path_kinds m (parse_path_expr call n)" "eats_at path_kinds m (pat_path call n)"
proof -
  have seg: "safe m (body_of (path_segment call n))" "eats m (body_of (path_segment call n))"
    unfolding body_path_segment by (rule type_args base ebase)+
  have "eats m (steps [bump, while_break n (pns [ColonColon]) (path_segment call n)])"
    by (rule go_on base ebase seg | simp)+
  then show inner: "eats_at path_kinds m (parse_path_inner call n)"
    unfolding parse_path_inner_def by (rule at_then) simp
  then have now: "safe m (steps as) \<Longrightarrow> eats_at path_kinds m (steps (parse_path_inner call n # as))" for as
    using at_cons safe_mono by fastforce
  show path: "eats_at path_kinds m (parse_path call n)"
    unfolding parse_path_def by (rule at_first now base)+
  then have p: "safe m (steps as) \<Longrightarrow> eats_at path_kinds m (steps (parse_path call n # as))" for as
    using at_cons safe_mono by fastforce
  show "eats_at path_kinds m (parse_path_expr call n)"
    unfolding parse_path_expr_def by (rule at_first p base)+
  have "eats m (pat_field call n)" unfolding pat_field_def by (rule base ebase | simp)+
  then show "eats_at path_kinds m (pat_path call n)"
    unfolding pat_path_def by - (rule at_checkpoint at_first now base ebase | assumption)+
qed

lemma eats_pats: "eats m (parse_pat_inner call n)" "eats m (parse_pat_single call n)"
proof -
  have lit: "eats m (pat_literal call)" unfolding pat_literal_def by (rule base ebase)+
  have ps: "eats_at path_kinds m (if_state c (pat_path call n) (steps [start_node nk, bump, finish_node]))" for c nk
    by (rule at_state path_at(4) base ebase)+
  show inner: "eats m (parse_pat_inner call n)"
    unfolding parse_pat_inner_def by (rule ps lit base ebase | simp)+
  show "eats m (parse_pat_single call n)"
    unfolding parse_pat_single_def by (rule inner pats base ebase | simp)+
qed

lemma type_path: "safe m (type_path call n)" "eats_at path_kinds m (type_path call n)"
proof -
  show "safe m (type_path call n)" unfolding type_path_def by (rule paths type_args base ebase | simp)+
  have p: "safe m (steps as) \<Longrightarrow> eats_at path_kinds m (steps (parse_path call n # as))" for as
    using path_at(2) at_cons safe_mono by fastforce
  show "eats_at path_kinds m (type_path call n)"
    unfolding type_path_def by (rule at_first p type_args base ebase | simp)+
qed

lemma bounds: "safe m (bounds_list call n)"
  unfolding bounds_list_def by (rule base ebase | simp)+

lemma types: "safe m (parse_type call n)" "eats m (parse_type call n)"
proof -
  have "safe m b \<Longrightarrow> safe m (if_kind (pns [AndAnd]) (if_state (\<lambda>p. current p \<noteq> None) (ref_ref_type call) (steps [])) b)" for b
    by (rule safe_at ref_ref | simp)+
  then have r: "safe m (match_kind rs d) \<Longrightarrow> safe m (match_kind
      ((pns [AndAnd], if_state (\<lambda>p. current p \<noteq> None) (ref_ref_type call) (steps [])) # rs) d)" for rs d
    by simp
  show "safe m (parse_type call n)"
    unfolding parse_type_def by (rule r type_path bounds base ebase | simp)+
  show "eats m (parse_type call n)"
    unfolding parse_type_def by (rule ref_ref type_path bounds base ebase | simp)+
qed

lemma closures: "safe m (parse_closure_expr call n)" "eats_at (kws [KwMove]) m (parse_closure_expr call n)"
  "eats_at (pns [Or, OrOr]) m (parse_closure_expr call n)"
proof -
  have p: "safe m (steps as) \<Longrightarrow> eats m (steps (parse_pat_single call n # as))" for as
    using eats_now(4) eats_pats(2) by blast
  have c: "eats m (closure_param call n)" unfolding closure_param_def by (rule p base ebase)+
  have ps: "safe m (closure_params call n)" unfolding closure_params_def by (rule c base ebase)+
  show "safe m (parse_closure_expr call n)" unfolding parse_closure_expr_def by (rule ps blocks base)+
  show "eats_at (kws [KwMove]) m (parse_closure_expr call n)"
    unfolding parse_closure_expr_def by (rule at_first at_then ps blocks base ebase | simp)+
  have start: "eats_at (pns [Or, OrOr]) m (steps (if_kind (pns [OrOr])
       (steps [bump, start_node (NkItem ParamList)])
       (steps [if_kind (pns [Or]) bump (error_text s), start_node (NkItem ParamList), closure_params call n]) # as))"
    if as: "safe m (steps as)" for s as
  proof (rule at_choices(1))
    show "eats_at (filter (\<lambda>k. k \<in> set (pns [OrOr])) (pns [Or, OrOr])) m (steps (steps [bump, start_node (NkItem ParamList)] # as))"
      by (rule at_any, rule eats_choices(5), simp only: append.simps, (rule as base ebase)+)
    show "eats_at (filter (\<lambda>k. k \<notin> set (pns [OrOr])) (pns [Or, OrOr])) m (steps (steps
        [if_kind (pns [Or]) bump (error_text s), start_node (NkItem ParamList), closure_params call n] # as))"
      by (rule at_choices(3), simp only: append.simps, rule at_then, (rule as ps base ebase)+) (auto simp: pns_def)
  qed
  have skip: "eats_at (pns [Or, OrOr]) m (steps as) \<Longrightarrow> eats_at (pns [Or, OrOr]) m (steps (when_kind (kws [KwMove]) bump # as))" for as
    by (auto simp: eats_at_def when_kind_def if_kind_def pns_def kws_def)
  show "eats_at (pns [Or, OrOr]) m (parse_closure_expr call n)"
    unfolding parse_closure_expr_def by (rule at_first skip start blocks base ebase)+
qed

lemma matches: "safe m (parse_match_expr call n)"
proof -
  have "eats m (parse_match_arm call n)" unfolding parse_match_arm_def by (rule blocks base ebase)+
  then show ?thesis unfolding parse_match_expr_def by - (rule blocks base ebase | assumption)+
qed

lemma groups: "safe m (more_exprs call n c)" "safe m (parse_paren_expr call n)" "safe m (parse_array_expr call n)"
  "safe m (jump_expr call k)"
proof -
  show m: "safe m (more_exprs call n c)" for c unfolding more_exprs_def by (rule base ebase | simp)+
  show "safe m (parse_paren_expr call n)" unfolding parse_paren_expr_def by (rule base ebase | simp)+
  show "safe m (parse_array_expr call n)" unfolding parse_array_expr_def by (rule m base)+
  show "safe m (jump_expr call k)" unfolding jump_expr_def by (rule base)+
qed

lemma primary: "safe m (parse_primary_expr call n)"
  unfolding parse_primary_expr_def labeled_expr_def unlabeled_expr_def
  by (rule compound blocks paths closures matches groups base)+

end

end
