(* ===== verification/Parser_Progress.thy ===== *)
theory Parser_Progress
  imports Parser_Returns
begin

text \<open>
  The second half of the termination proof: every grammar function at a state whose measure is \<open>m\<close>, when the recursive
  calls are known to return from smaller states only.  Each function first takes a token, and what follows it is a function
  of the first half; the functions that begin with another one inherit its progress.
\<close>

subsection \<open>Rows, bumps and what is left\<close>

lemma eats_row: "eats_at ls m (steps (a # as)) \<Longrightarrow> eats m (steps (match_kind rs d # as)) \<Longrightarrow> eats m (steps (match_kind ((ls, a) # rs) d # as))"
  unfolding eats_def eats_at_def by (auto simp: if_kind_def)

lemma safe_row: "live_kinds ls \<Longrightarrow> eats m a \<Longrightarrow> safe m (match_kind rs d) \<Longrightarrow> safe m (match_kind ((ls, a) # rs) d)"
  by (simp add: safe_live)

lemma safe_row_at: "live_kinds ls \<Longrightarrow> eats_at ls m a \<Longrightarrow> safe m (match_kind rs d) \<Longrightarrow> safe m (match_kind ((ls, a) # rs) d)"
  by (simp add: safe_at)

lemma safe_when_live: "live_kinds ls \<Longrightarrow> eats m a \<Longrightarrow> safe m (when_kind ls a)"
  unfolding when_kind_def by (rule safe_live) (assumption | rule safe_stills)+

lemma bump_drops: "0 < left p \<Longrightarrow> \<exists>p'. bump p = Some p' \<and> no_use p' = no_use p \<and> left p' < left p"
  by (auto simp: bump_def left_def emit_call_def no_use_def current_def get_Some get_None get_def split: option.splits if_splits)

lemma kind_drops: "SkError \<notin> set ks \<Longrightarrow> current_kind p \<in> set ks \<Longrightarrow> 0 < left p"
  by (auto simp: current_kind_def current_def left_def get_def split: option.splits if_splits)

lemma safe_when_bump:
  assumes "SkError \<notin> set ks" "\<And>k. k < m \<Longrightarrow> safe k (steps as)"
  shows "safe m (when_kind ks (steps (start_node_at cp nk # bump # as)))"
  unfolding safe_def
proof (intro allI impI)
  fix p assume p: "no_use p" "left p \<le> m"
  show "\<exists>p'. when_kind ks (steps (start_node_at cp nk # bump # as)) p = Some p' \<and> no_use p' \<and> left p' \<le> left p"
  proof (cases "current_kind p \<in> set ks")
    case True
    define q where "q = emit_call (BcStartAt cp nk) p"
    have q: "no_use q" "left q = left p" "0 < left q" using p kind_drops [OF assms(1) True] by (simp_all add: q_def)
    obtain p1 where p1: "bump q = Some p1" "no_use p1" "left p1 < left q" using bump_drops [OF q(3)] q by blast
    then obtain p' where "steps as p1 = Some p'" "no_use p'" "left p' \<le> left p1"
      using assms(2) [of "left p1"] p q unfolding safe_def by fastforce
    then show ?thesis using p1 q True by (simp add: when_kind_def if_kind_def start_node_at_def flip: q_def)
  qed (use p in \<open>simp add: when_kind_def if_kind_def\<close>)
qed

lemma safe_bump_expected_cons:
  assumes "\<And>k. k < m \<Longrightarrow> safe k (steps as)" "safe 0 (steps as)"
  shows "safe m (steps (bump_expected kd # as))"
  unfolding safe_def
proof (intro allI impI)
  fix p assume p: "no_use p" "left p \<le> m"
  obtain p1 where p1: "bump_expected kd p = Some p1" "no_use p1" "left p1 = 0 \<or> left p1 < left p" "left p1 \<le> left p"
  proof -
    obtain q where q: "(if current_kind p \<noteq> kd then parse_error (PmExpected kd (current_kind p)) p else Some p) = Some q"
      "no_use q" "left q = left p"
      using p(1) by (cases "current_kind p = kd") (simp_all add: parse_error_def no_use_def left_def)
    show ?thesis
    proof (cases "0 < left q")
      case True
      then have "current q \<noteq> None \<or> 0 < ps_pending_gt q" by (auto simp: left_def current_def get_def)
      then show ?thesis using bump_drops [OF True] q that by (fastforce simp: bump_expected_def)
    next
      case False
      then have "current q = None" "ps_pending_gt q = 0" by (auto simp: left_def current_def get_def)
      then show ?thesis using q False that by (auto simp: bump_expected_def)
    qed
  qed
  have "safe (left p1) (steps as)" using p1 p assms by (cases "left p1 = 0") auto
  then obtain p' where "steps as p1 = Some p'" "no_use p'" "left p' \<le> left p1" using p1 unfolding safe_def by blast
  then show "\<exists>p'. steps (bump_expected kd # as) p = Some p' \<and> no_use p' \<and> left p' \<le> left p"
    using p1 by auto
qed

context parse_after
begin

lemma struct_fields: "eats m (struct_literal_field call)"
proof -
  have "eats_at [SkIdent] m (steps [with_checkpoint (named_field call), comma_opt])"
    by (rule at_cons [OF named]) (rule base)+
  then show ?thesis unfolding struct_literal_field_def by - (rule eats_row | assumption | rule base ebase | simp only: append.simps)+
qed

lemma path_more: "safe m (while_break n (pns [ColonColon]) (path_segment call n))"
proof -
  have "safe m (body_of (path_segment call n))" "eats m (body_of (path_segment call n))"
    unfolding body_path_segment by (rule type_args base ebase)+
  then show ?thesis by - (rule go_on | assumption | simp)+
qed

lemma match_arms: "eats m (parse_match_arm call n)"
  unfolding parse_match_arm_def by (rule blocks base ebase)+

lemma closure_lists: "safe m (closure_params call n)"
proof -
  have p: "safe m (steps as) \<Longrightarrow> eats m (steps (parse_pat_single call n # as))" for as
    using eats_now(4) eats_pats(2) by blast
  have c: "eats m (closure_param call n)" unfolding closure_param_def by (rule p base ebase)+
  show ?thesis unfolding closure_params_def by (rule c base ebase)+
qed

lemma lists: "safe m (items_until n RParen (call NtPat))" "safe m (items_until n RParen (call NtType))"
  by (rule base ebase)+

lemma pat_fields: "eats m (pat_field call n)"
  unfolding pat_field_def by (rule base ebase | simp)+

lemma slice_parts: "eats m (if_kind (pns [DotDot]) (steps [bump, comma_opt]) (steps [call NtPat, comma_opt]))"
  by (rule base ebase)+

lemma block_parts: "safe m (parse_block_inner call n)"
  unfolding parse_block_inner_def by (rule base ebase)+

lemma call_rest: "safe m (steps [unless_kind (pns [RParen]) (steps [call NtExpr, more_exprs call n RParen]), expect (SkPunct RParen), finish_node])"
  by (rule groups base)+

lemma token_trees: "eats m (tree_or_leaf call)" "eats m (dollar_tree call)"
proof -
  show t: "eats m (tree_or_leaf call)"
    unfolding tree_or_leaf_def tree_leaf_def by (rule called base ebase | simp)+
  show "eats m (dollar_tree call)"
    unfolding dollar_tree_def by (rule base ebase | simp)+
qed

lemma tree_items: "safe m (items_until n RParen (if_kind (pns [Dollar]) (dollar_tree call) (tree_or_leaf call)))"
proof -
  have "eats m (steps [if_kind (pns [Dollar]) (dollar_tree call) (tree_or_leaf call), comma_opt])"
    by (rule eats_choices eats_now(4) token_trees base)+
  then show ?thesis by (rule safe_items [OF fuel])
qed

lemma macro_arms: "eats m (if_kind (pns [Comma, Semicolon]) bump (macro_arm call))"
  unfolding macro_arm_def by (rule base ebase)+

lemma initializer: "safe m (initializer_opt call)"
  unfolding initializer_opt_def by (rule base)+

lemma visibility: "safe m (parse_visibility call n)"
  unfolding parse_visibility_def vis_leaf_def by (rule paths base)+

lemma type_params: "safe m (parse_type_param_list call n)" "safe m (type_params_opt call n)"
proof -
  have "eats m (type_param call n)" unfolding type_param_def by (rule bounds base ebase)+
  then show p: "safe m (parse_type_param_list call n)"
    unfolding parse_type_param_list_def by - (rule close base | assumption)+
  show "safe m (type_params_opt call n)" unfolding type_params_opt_def by (rule p base)+
qed

lemma where_clauses: "safe m (parse_where_clause call n)" "safe m (where_opt call n)"
proof -
  have p: "safe m (where_predicate call n)"
    unfolding where_predicate_def where_bound_def by (rule base ebase | simp)+
  have "safe m (body_of (where_more call n))" "eats m (body_of (where_more call n))"
    unfolding body_where_more by (rule p base ebase)+
  then show w: "safe m (parse_where_clause call n)"
    unfolding parse_where_clause_def by - (rule p go_on base | assumption | simp)+
  show "safe m (where_opt call n)" unfolding where_opt_def by (rule w base)+
qed

lemma params: "safe m (items_until n RParen (parse_param call))"
proof -
  have "eats m (steps [parse_param call, comma_opt])"
    unfolding parse_param_def named_param_def by (rule base ebase | simp only: append.simps)+
  then show ?thesis by (rule safe_items [OF fuel])
qed

lemma const_heads: "safe m (const_head call)"
  unfolding const_head_def by (rule base)+

lemma struct_parts: "eats m (struct_field call n)" "safe m (items_until n RParen (steps [parse_visibility call n, call NtType]))"
proof -
  have v: "eats m (steps as) \<Longrightarrow> safe m (steps as) \<Longrightarrow> eats m (steps (parse_visibility call n # as))" for as
    unfolding parse_visibility_def vis_leaf_def by (rule paths base ebase | assumption | simp only: append.simps)+
  show "eats m (struct_field call n)"
    unfolding struct_field_def by (rule v base ebase | simp only: append.simps)+
  have "eats m (steps [steps [parse_visibility call n, call NtType], comma_opt])"
    by (rule v base ebase | simp only: append.simps)+
  then show "safe m (items_until n RParen (steps [parse_visibility call n, call NtType]))" by (rule safe_items [OF fuel])
qed

lemma variants: "eats m (enum_variant call n)"
proof -
  have f: "eats m (variant_field call)" unfolding variant_field_def by (rule base ebase | simp only: append.simps)+
  show ?thesis unfolding enum_variant_def by (rule f initializer base ebase | simp)+
qed

end

subsection \<open>Before a token has been eaten\<close>

text \<open>Here recursive calls are known to return only from states of measure less than \<open>m\<close>.\<close>

locale parse_at =
  fixes call :: call and n m :: nat
  assumes after: "k < m \<Longrightarrow> parse_after call n k" and turns: "m < n"
begin

lemmas later = safe_rules parse_after.calls [OF after] parse_after.fuel [OF after]
lemmas ahead = eats_first eats_bumps eats_choices eats_match eats_kind eats_branch eats_checkpoint eats_checkpoints bump_rules(2) at_any

lemma fn_def: "eats m (parse_fn_def call n)"
  unfolding parse_fn_def_def extern_prefix_def
  by (rule ahead eats_choice parse_after.type_params(2) [OF after] parse_after.where_clauses(2) [OF after]
      parse_after.params [OF after] parse_after.blocks(1) [OF after] later | assumption | simp only: append.simps)+

lemma heads: "eats m (const_item call)" "eats m (impl_const call)" "eats m (static_item call)" "eats m (extern_static call)"
  "eats m (alias_item call n)" "eats m (trait_type call n)" "eats m (impl_type call)"
  unfolding const_item_def impl_const_def static_item_def extern_static_def alias_item_def trait_type_def impl_type_def
  by (rule ahead parse_after.type_params(2) [OF after] parse_after.const_heads [OF after] parse_after.initializer [OF after]
      parse_after.bounds [OF after] later | assumption | simp only: append.simps)+

lemma struct_def: "eats m (parse_struct_def call n)"
  unfolding parse_struct_def_def
  by (rule ahead parse_after.type_params(2) [OF after] parse_after.where_clauses(2) [OF after]
      parse_after.struct_parts [OF after] later | assumption | simp only: append.simps)+

lemma enum_def: "eats m (parse_enum_def call n)"
  unfolding parse_enum_def_def
  by (rule ahead parse_after.type_params(2) [OF after] parse_after.where_clauses(2) [OF after]
      parse_after.variants [OF after] later | assumption | simp only: append.simps)+

lemma module_def: "eats m (mod_item call n)"
  unfolding mod_item_def
  by (rule ahead parse_after.called(2) [OF after] later | assumption | simp only: append.simps simp_thms | simp)+

end

sublocale parse_after \<subseteq> now: parse_at call n m
  by unfold_locales (auto intro: safe_mono eats_mono called fuel less_trans)

context parse_after
begin

lemma extern_blocks: "safe m (extern_items call n)"
  unfolding extern_items_def by (rule now.fn_def now.heads base ebase | simp)+

end

context parse_at
begin

lemma extern_block: "eats m (parse_extern_block call n)" "eats m (extern_item call n)"
  unfolding parse_extern_block_def extern_item_def
  by (rule ahead parse_after.extern_blocks [OF after] later | assumption | simp only: append.simps)+

lemma token_tree: "safe m (parse_token_tree call n)" "eats m (parse_token_tree call n)"
proof -
  show "eats m (parse_token_tree call n)"
    unfolding parse_token_tree_def tree_leaf_def
    by (rule ahead parse_after.token_trees(1) [OF after] parse_after.tree_items [OF after] later | assumption | simp only: append.simps | simp)+
  show "safe m (parse_token_tree call n)"
    unfolding parse_token_tree_def tree_leaf_def
    by (rule safe_row ahead parse_after.token_trees(1) [OF after] parse_after.tree_items [OF after] later | assumption | simp only: append.simps | simp)+
qed

lemma macro_def: "eats m (parse_macro_def call n)"
  unfolding parse_macro_def_def
  by (rule ahead parse_after.macro_arms [OF after] later | assumption | simp only: append.simps)+

end

context parse_after
begin

lemma members: "eats m (trait_member call n)" "eats m (impl_member call n)"
  unfolding trait_member_def impl_member_def
  by (rule now.fn_def now.heads now.extern_block ebase base)+

end

text \<open>Eating at all but some kinds, and parsers that begin at \<open>use\<close>.\<close>

definition eats_off :: "syntax_kind list \<Rightarrow> nat \<Rightarrow> parse \<Rightarrow> bool" where
  "eats_off ks m a \<longleftrightarrow> (\<forall>p. no_use p \<longrightarrow> left p \<le> m \<longrightarrow> current p \<noteq> None \<longrightarrow> current_kind p \<notin> set ks \<longrightarrow>
     (\<exists>p'. a p = Some p' \<and> no_use p' \<and> left p' < left p))"

lemma off_match:
  "eats_off ks m d \<Longrightarrow> eats_off ks m (match_kind [] d)"
  "eats m a \<Longrightarrow> eats_off (ls @ ks) m (match_kind rs d) \<Longrightarrow> eats_off ks m (match_kind ((ls, a) # rs) d)"
  by (auto simp: eats_off_def eats_def if_kind_def)

lemma off_use: "eats_off (kws [KwUse] @ ks) m (match_kind rs d) \<Longrightarrow> eats_off ks m (match_kind ((kws [KwUse], a) # rs) d)"
  by (auto simp: eats_off_def if_kind_def kws_def dest: no_use_kind)

lemma safe_use: "safe m (match_kind rs d) \<Longrightarrow> safe m (match_kind ((kws [KwUse], a) # rs) d)"
  by (auto simp: safe_def if_kind_def kws_def dest: no_use_kind)

lemma off_any: "eats m a \<Longrightarrow> eats_off ks m a"
  by (simp add: eats_off_def eats_def)

lemma safe_skip: "m < n \<Longrightarrow> safe m (skip_to_item n)"
  unfolding skip_to_item_def by (rule safe_rules bump_rules | assumption)+

lemma off_still: "still a \<Longrightarrow> eats_off ks m (steps as) \<Longrightarrow> eats_off ks m (steps (a # as))"
  unfolding eats_off_def
proof (intro allI impI)
  fix p assume a: "still a" and p: "no_use p" "left p \<le> m" "current p \<noteq> None" "current_kind p \<notin> set ks"
    and as: "\<forall>p. no_use p \<longrightarrow> left p \<le> m \<longrightarrow> current p \<noteq> None \<longrightarrow> current_kind p \<notin> set ks \<longrightarrow>
      (\<exists>p'. steps as p = Some p' \<and> no_use p' \<and> left p' < left p)"
  obtain p1 where p1: "a p = Some p1" "no_use p1 = no_use p" "left p1 = left p" "current p1 = current p" "current_kind p1 = current_kind p"
    using a by (rule still_left)
  then obtain p' where "steps as p1 = Some p'" "no_use p'" "left p' < left p1" using as p by fastforce
  with p1 show "\<exists>p'. steps (a # as) p = Some p' \<and> no_use p' \<and> left p' < left p" by auto
qed

lemma off_until: "m < n \<Longrightarrow> eats m a \<Longrightarrow> eats_off ks m (until_kind n ks a)"
proof -
  assume n: "m < n" and a: "eats m a"
  let ?c = "\<lambda>p. current_kind p \<notin> set ks \<and> current p \<noteq> None"
  obtain j where j: "n = Suc j" using n by (cases n) auto
  have "safe k (loop j ?c a)" if "k < m" for k
    using that n j eats_mono [OF a] by (intro safe_loop) auto
  then have "eats m (steps (a # [loop j ?c a]))"
    by (intro eats_cons a safe_cons safe_stills)
  then show ?thesis
    by (simp add: eats_def eats_off_def bind_steps_Nil until_kind_def j)
qed

lemma off_skip: "set (item_kinds @ kws [KwPub, KwUnsafe, KwMacroRules]) \<subseteq> set ks \<Longrightarrow> m < n \<Longrightarrow> eats_off ks m (skip_to_item n)"
proof -
  assume ks: "set (item_kinds @ kws [KwPub, KwUnsafe, KwMacroRules]) \<subseteq> set ks" and n: "m < n"
  have "eats_off (item_kinds @ kws [KwPub, KwUnsafe, KwMacroRules]) m (skip_to_item n)"
    unfolding skip_to_item_def
    by (rule off_still, rule stills) (simp only: steps_single, rule off_until [OF n bump_rules(2)])
  then show ?thesis using ks unfolding eats_off_def by (meson subsetD)
qed

context parse_at
begin

lemma down: "k \<le> m \<Longrightarrow> parse_at call n k"
  by (rule parse_at.intro) (use after turns in auto)

lemma trait_def: "eats m (parse_trait_def call n)" "eats m (parse_impl_def call n)"
  unfolding parse_trait_def_def parse_impl_def_def
  by (rule ahead parse_after.type_params(2) [OF after] parse_after.where_clauses(2) [OF after]
      parse_after.members [OF after] parse_after.bounds [OF after] later | assumption | simp only: append.simps)+

lemmas items = fn_def struct_def enum_def trait_def module_def heads extern_block macro_def

lemma item_body: "safe m (item_body call n)" "eats_off (kws [KwPub, KwUnsafe]) m (item_body call n)"
proof -
  show "safe m (item_body call n)"
    unfolding item_body_def by (rule safe_use safe_row items eats_branch safe_match(1) safe_skip turns | simp)+
  show "eats_off (kws [KwPub, KwUnsafe]) m (item_body call n)"
    unfolding item_body_def
    by (rule off_use off_match(2) items eats_branch)+ (rule off_match(1), rule off_skip [OF _ turns], simp add: item_kinds_def kws_def)
qed

lemma item_tail: "safe m (item_tail call n)" "eats_off (kws [KwPub, KwUnsafe]) m (item_tail call n)"
proof -
  have c: "at_fn_modifier p \<Longrightarrow> current p \<noteq> None" for p
    by (rule live_kind [of "kws [KwConst, KwAsync]"]) (simp_all add: at_fn_modifier_def kws_def)
  show "safe m (item_tail call n)"
    unfolding item_tail_def by (rule safe_guard [OF c] fn_def item_body | assumption)+
  show "eats_off (kws [KwPub, KwUnsafe]) m (item_tail call n)"
    using fn_def item_body(2) unfolding item_tail_def eats_off_def eats_def if_state_def by auto
qed

lemma item_rest: "safe m (if_kind (kws [KwUnsafe])
    (steps [bump, if_kind (item_kinds @ kws [KwAsync, KwMacro, KwMacroRules]) (item_tail call n) (error_text s)]) (item_tail call n))"
  by (rule item_tail later)+

end

lemma eats_when_off: "eats m (steps (a # as)) \<Longrightarrow> eats_off ls m (steps as) \<Longrightarrow> eats m (steps (when_kind ls a # as))"
  unfolding eats_def eats_off_def by (auto simp: when_kind_def if_kind_def)

lemma off_kind: "eats m a \<Longrightarrow> eats_off (ks @ ls) m b \<Longrightarrow> eats_off ks m (if_kind ls a b)"
  unfolding eats_def eats_off_def by (auto simp: if_kind_def)

context parse_at
begin

lemma item: "safe m (parse_item call n)" "eats m (parse_item call n)"
proof -
  have v: "eats m (steps ([start_node (NkVis Visibility), bump,
     when_kind (pns [LParen]) (steps [
       bump,
       match_kind [
         (kws [KwCrate], vis_leaf VisCrate),
         (kws [KwSuper], vis_leaf VisSuper),
         (kws [KwSelf], vis_leaf VisSelf),
         ([SkIdent], steps [start_node (NkVis VisPath), parse_path call n, finish_node])]
         (error_text ''expected crate, super, self, or path in visibility''),
       expect (SkPunct RParen)]),
     finish_node] @ as))" if "\<And>k. k < m \<Longrightarrow> safe k (steps as)" for as
    unfolding vis_leaf_def append.simps
    by (rule ahead parse_after.paths [OF after] that later | assumption)+
  have rest: "k < m \<Longrightarrow> safe k (if_kind (kws [KwUnsafe])
    (steps [bump, if_kind (item_kinds @ kws [KwAsync, KwMacro, KwMacroRules]) (item_tail call n) (error_text s)]) (item_tail call n))" for k s
    using parse_at.item_rest [OF down] by simp
  show "safe m (parse_item call n)"
    unfolding parse_item_def parse_visibility_def
  proof (intro safe_cons safe_when_live safe_stills item_rest)
    show "eats m (steps [start_node (NkVis Visibility), bump,
     when_kind (pns [LParen]) (steps [
       bump,
       match_kind [
         (kws [KwCrate], vis_leaf VisCrate),
         (kws [KwSuper], vis_leaf VisSuper),
         (kws [KwSelf], vis_leaf VisSelf),
         ([SkIdent], steps [start_node (NkVis VisPath), parse_path call n, finish_node])]
         (error_text ''expected crate, super, self, or path in visibility''),
       expect (SkPunct RParen)]),
     finish_node])" using v [of "[]"] safe_stills by simp
  qed simp
  have "eats_off (kws [KwPub]) m (steps [if_kind (kws [KwUnsafe])
    (steps [bump, if_kind (item_kinds @ kws [KwAsync, KwMacro, KwMacroRules]) (item_tail call n) (error_text s)]) (item_tail call n)])" for s
    unfolding steps_single
  proof (rule off_kind)
    have "k < m \<Longrightarrow> safe k (item_tail call n)" for k using parse_at.item_tail(1) [OF down] by simp
    then show "eats m (steps [bump, if_kind (item_kinds @ kws [KwAsync, KwMacro, KwMacroRules]) (item_tail call n) (error_text s)])"
      by - (rule ahead later | assumption)+
    show "eats_off (kws [KwPub] @ kws [KwUnsafe]) m (item_tail call n)" using item_tail(2) by (simp add: kws_def)
  qed
  then show "eats m (parse_item call n)"
    unfolding parse_item_def parse_visibility_def
    by (intro eats_when_off eats_choices(5) v) (rule later rest | assumption)+
qed

lemma paths_at: "eats_at path_kinds m (parse_path_inner call n)" "eats_at path_kinds m (parse_path call n)"
  "eats_at path_kinds m (parse_path_expr call n)" "eats_at path_kinds m (pat_path call n)" "eats_at path_kinds m (type_path call n)"
proof -
  show inner: "eats_at path_kinds m (parse_path_inner call n)"
    unfolding parse_path_inner_def by (rule at_then(1), (rule ahead parse_after.path_more [OF after] later | assumption)+) simp
  note i = at_cons [OF inner]
  show path: "eats_at path_kinds m (parse_path call n)"
    unfolding parse_path_def by (rule at_first i later | assumption)+
  note p = at_cons [OF path]
  show "eats_at path_kinds m (parse_path_expr call n)"
    unfolding parse_path_expr_def by (rule at_first p later | assumption)+
  show "eats_at path_kinds m (type_path call n)"
    unfolding type_path_def by (rule at_first p parse_after.type_args [OF after] parse_after.called(2) [OF after] later
      parse_after.ebase [OF after] | assumption)+
  show "eats_at path_kinds m (pat_path call n)"
    unfolding pat_path_def by (rule at_checkpoint at_first i parse_after.lists [OF after] parse_after.pat_fields [OF after] later | assumption)+
qed

lemmas later_at = parse_after.lists [OF after] parse_after.pat_fields [OF after] parse_after.slice_parts [OF after] parse_after.pats [OF after]
  parse_after.types [OF after] parse_after.bounds [OF after] parse_after.blocks [OF after] later

lemma pat_literal_at: "eats m (pat_literal call)"
  unfolding pat_literal_def by (rule ahead later | assumption)+

lemma pats_at: "safe m (parse_pat_inner call n)" "eats m (parse_pat_inner call n)" "safe m (parse_pat_single call n)"
  "eats m (parse_pat_single call n)"
proof -
  have p: "eats_at path_kinds m (if_state c (pat_path call n) (steps [start_node nk, bump, finish_node]))" for c nk
    by (rule at_state paths_at(4) at_any ahead later | assumption)+
  show inner: "safe m (parse_pat_inner call n)" "eats m (parse_pat_inner call n)"
    unfolding parse_pat_inner_def
    by (rule safe_row_at p at_any pat_literal_at ahead later_at | assumption | simp)+
  show "safe m (parse_pat_single call n)" "eats m (parse_pat_single call n)"
    unfolding parse_pat_single_def
    by (rule safe_row inner ahead later_at | assumption | simp)+
qed

lemma pat: "safe m (parse_pat call n)" "eats m (parse_pat call n)"
proof -
  have l: "safe m (while_kind n (pns [Or]) (steps [bump, parse_pat_single call n]))"
    by (rule safe_while turns ahead later_at | assumption | simp)+
  have w: "safe m (when_kind (pns [Or]) (steps [start_node_at cp nk, while_kind n (pns [Or]) (steps [bump, parse_pat_single call n]), finish_node]))" for cp nk
    by (rule safe_when safe_cons l safe_stills)+
  show "safe m (parse_pat call n)"
    unfolding parse_pat_def by (rule safe_checkpoint safe_cons pats_at w safe_stills)+
  show "eats m (parse_pat call n)"
    unfolding parse_pat_def by (rule eats_checkpoint eats_now(4) safe_cons pats_at w safe_stills)+
qed

lemma ty: "safe m (parse_type call n)" "eats m (parse_type call n)"
proof -
  have sk: "eats m (steps (skip_token # as))" if "\<And>k. k < m \<Longrightarrow> safe k (steps as)" for as
    using that by (intro eats_cons) (auto simp: eats_def skip_token_def left_def current_def no_use_def get_def)
  have rr: "eats m (ref_ref_type call)"
    unfolding ref_ref_type_def split_and_def
    by (rule eats_choices(5), simp only: append.simps, (rule eats_still, rule stills)+, rule sk, (rule later | assumption)+)
  have r: "eats m (if_state (\<lambda>p. current p \<noteq> None) (ref_ref_type call) (steps []))"
    using rr by (simp add: eats_def if_state_def)
  show "safe m (parse_type call n)" "eats m (parse_type call n)"
    unfolding parse_type_def
    by (rule safe_row_at at_any r paths_at ahead later_at | assumption | simp)+
qed

end

context parse_at
begin

lemmas later_expr = parse_after.compound [OF after] parse_after.labels [OF after] parse_after.groups [OF after]
  parse_after.closure_lists [OF after] parse_after.match_arms [OF after] parse_after.block_parts [OF after]
  parse_after.type_args [OF after] parse_after.call_rest [OF after] parse_after.struct_fields [OF after] later_at

lemma block: "eats_at (pns [LBrace]) m (parse_block call n)"
  unfolding parse_block_def by (rule at_first at_expect later_expr | assumption | simp add: pns_def)+

lemma compound_at: "eats m (parse_if_expr call n)" "eats m (parse_while_expr call n)" "eats m (parse_for_expr call n)"
  "eats m (parse_loop_expr call n)"
  unfolding parse_if_expr_def parse_while_expr_def parse_for_expr_def parse_loop_expr_def parse_label_def
  by (rule ahead eats_choice later_expr | assumption | simp only: append.simps)+

lemma closures_at: "eats_at (kws [KwMove]) m (parse_closure_expr call n)" "eats_at (pns [Or, OrOr]) m (parse_closure_expr call n)"
proof -
  show "eats_at (kws [KwMove]) m (parse_closure_expr call n)"
    unfolding parse_closure_expr_def by (rule at_first at_then ahead later_expr | assumption | simp only: append.simps | simp)+
  have start: "eats_at (pns [Or, OrOr]) m (steps (if_kind (pns [OrOr])
       (steps [bump, start_node (NkItem ParamList)])
       (steps [if_kind (pns [Or]) bump (error_text s), start_node (NkItem ParamList), closure_params call n]) # as))"
    if as: "\<And>k. k < m \<Longrightarrow> safe k (steps as)" for s as
  proof (rule at_choices(1))
    show "eats_at (filter (\<lambda>k. k \<in> set (pns [OrOr])) (pns [Or, OrOr])) m (steps (steps [bump, start_node (NkItem ParamList)] # as))"
      by (rule at_any, (rule ahead as later_expr | assumption | simp only: append.simps)+)
    show "eats_at (filter (\<lambda>k. k \<notin> set (pns [OrOr])) (pns [Or, OrOr])) m (steps (steps
        [if_kind (pns [Or]) bump (error_text s), start_node (NkItem ParamList), closure_params call n] # as))"
      by (rule at_choices(3), simp only: append.simps, rule at_then, (rule ahead as later_expr | assumption)+) (auto simp: pns_def)
  qed
  have skip: "eats_at (pns [Or, OrOr]) m (steps as) \<Longrightarrow> eats_at (pns [Or, OrOr]) m (steps (when_kind (kws [KwMove]) bump # as))" for as
    by (auto simp: eats_at_def when_kind_def if_kind_def pns_def kws_def)
  show "eats_at (pns [Or, OrOr]) m (parse_closure_expr call n)"
    unfolding parse_closure_expr_def by (rule at_first skip start later_expr | assumption)+
qed

lemma group_at: "eats m (parse_paren_expr call n)" "eats m (parse_array_expr call n)" "eats m (jump_expr call k)"
  "eats m (parse_match_expr call n)" "eats m (labeled_expr call n)"
  unfolding parse_paren_expr_def parse_array_expr_def jump_expr_def parse_match_expr_def labeled_expr_def
  by (rule ahead later_expr parse_after.base [OF after] parse_after.ebase [OF after] | assumption | simp)+

lemma primary_at: "safe m (parse_primary_expr call n)" "eats m (parse_primary_expr call n)"
proof -
  note rows = paths_at(3) block closures_at compound_at group_at
  have u: "safe m (unlabeled_expr call n)" "eats m (unlabeled_expr call n)"
    unfolding unlabeled_expr_def
    by (rule safe_row_at at_any rows ahead later_expr | assumption | simp)+
  have c: "current_kind p \<in> {SkIdent, SkLifetime} \<and> q \<Longrightarrow> current p \<noteq> None" for p q
    by (rule live_kind [of "[SkIdent, SkLifetime]"]) simp_all
  show "safe m (parse_primary_expr call n)"
    unfolding parse_primary_expr_def by (rule safe_cons safe_stills safe_guard [OF c] rows u | assumption)+
  show "eats m (parse_primary_expr call n)"
    unfolding parse_primary_expr_def by (rule eats_first eats_choice eats_now(4) rows u safe_stills)+
qed

end

lemma rows_at: "eats m a \<Longrightarrow> eats_at (filter (\<lambda>k. k \<notin> set ls) ks) m (match_kind rs d) \<Longrightarrow> eats_at ks m (match_kind ((ls, a) # rs) d)"
  by (rule at_match(2)) (rule at_any)

lemma safe_infix_loop:
  "m < n \<Longrightarrow> live_kinds ks \<Longrightarrow> (\<And>j. j < m \<Longrightarrow> safe j operand) \<Longrightarrow> safe m (infix_loop n ks operand cp)"
proof (induction n arbitrary: m cp)
  case (Suc n)
  have "safe j (with_checkpoint (infix_loop n ks operand))" if "j < m" for j
    by (rule safe_checkpoint, rule Suc.IH) (use Suc.prems that in auto)
  then show ?case
    unfolding infix_loop_Suc infix_step_def if_kind_eq [symmetric] using Suc.prems(2,3)
    by - (rule safe_live eats_first eats_bumps eats_choices(5) safe_cons safe_stills | assumption | simp only: append.simps)+
qed simp

lemma level_progress:
  assumes "m < n" "safe m operand" "eats m operand" "\<And>j. j < m \<Longrightarrow> safe j operand"
  shows "live_kinds ks \<Longrightarrow> safe m (infix_level n ks operand)" "live_kinds ks \<Longrightarrow> eats m (infix_level n ks operand)"
    "op \<noteq> Gt \<Longrightarrow> safe m (logical_level n op operand)" "op \<noteq> Gt \<Longrightarrow> eats m (logical_level n op operand)"
proof -
  have i: "live_kinds ks \<Longrightarrow> safe m (infix_loop n ks operand cp)" for cp by (rule safe_infix_loop [OF assms(1) _ assms(4)])
  show "live_kinds ks \<Longrightarrow> safe m (infix_level n ks operand)" "live_kinds ks \<Longrightarrow> eats m (infix_level n ks operand)"
    unfolding infix_level_def by (rule safe_checkpoint eats_checkpoint eats_now(4) safe_cons i assms safe_stills | assumption)+
  have w: "op \<noteq> Gt \<Longrightarrow> safe m (while_kind n (pns [op]) (steps [start_node (NkExpr BinaryExpr), bump, operand, finish_node]))"
    by (rule safe_while assms eats_first eats_bumps safe_cons safe_stills | assumption | simp)+
  show "op \<noteq> Gt \<Longrightarrow> safe m (logical_level n op operand)" "op \<noteq> Gt \<Longrightarrow> eats m (logical_level n op operand)"
    unfolding logical_level_def by (rule eats_now(4) safe_cons w assms safe_stills | assumption)+
qed

context parse_at
begin

lemma postfix_at: "safe m (parse_postfix_expr call n)" "eats m (parse_postfix_expr call n)"
proof -
  let ?ks = "pns [Dot, LParen, LBracket, Question, LBrace] @ kws [KwAs]"
  have step: "eats_at ?ks m (postfix_step call n cp)" for cp
    unfolding postfix_step_def postfix_dot_def call_args_def
    by (rule rows_at eats_first eats_bumps eats_choices eats_choice later_expr | assumption | simp only: append.simps)+
      (simp add: pns_def kws_def at_none)
  have l: "safe m (loop n postfix_goes_on (postfix_step call n cp))" for cp
    by (rule safe_loop_at [OF _ _ step turns]) (auto simp: postfix_goes_on_def pns_def kws_def)
  have c: "current_kind p = SkPunct Bang \<and> q \<Longrightarrow> current p \<noteq> None" for p q
    by (rule live_kind [of "pns [Bang]"]) (simp_all add: pns_def)
  have t: "safe m (if_state (\<lambda>p. current_kind p = SkPunct Bang \<and> ps_last_was_path p)
       (steps [start_node_at cp (NkMacro MacroCall), bump, call NtTokenTree, finish_node])
       (loop n postfix_goes_on (postfix_step call n cp)))" for cp
    by (rule safe_guard [OF c] l ahead later_expr | assumption)+
  show "safe m (parse_postfix_expr call n)" "eats m (parse_postfix_expr call n)"
    unfolding parse_postfix_expr_def by (rule safe_checkpoint eats_checkpoint eats_now(4) safe_cons primary_at t safe_stills)+
qed

lemma unary_at: "safe m (parse_unary_expr call n)" "eats m (parse_unary_expr call n)"
  unfolding parse_unary_expr_def
  by (rule safe_live eats_kind postfix_at ahead later_expr | assumption | simp)+

end

context parse_at
begin

lemma binary_at: "safe m (parse_bitwise_expr call n)" "eats m (parse_bitwise_expr call n)"
proof -
  have u: "safe j (parse_unary_expr call n)" if "j \<le> m" for j using parse_at.unary_at(1) [OF down [OF that]] .
  have mu: "safe j (parse_multiplicative_expr call n)" "eats j (parse_multiplicative_expr call n)" if "j \<le> m" for j
    unfolding parse_multiplicative_expr_def
    by (rule level_progress, use turns that in simp, rule u [OF that], rule parse_at.unary_at(2) [OF down [OF that]],
        rule u, use that in simp, simp)+
  have ad: "safe j (parse_additive_expr call n)" "eats j (parse_additive_expr call n)" if "j \<le> m" for j
    unfolding parse_additive_expr_def
    by (rule level_progress, use turns that in simp, rule mu [OF that], rule mu [OF that], rule mu, use that in simp, simp)+
  show "safe m (parse_bitwise_expr call n)" "eats m (parse_bitwise_expr call n)"
    unfolding parse_bitwise_expr_def
    by (rule level_progress, rule turns, rule ad, simp, rule ad, simp, rule ad, simp, simp)+
qed

lemma comparison_at: "safe m (parse_comparison_expr call n)" "eats m (parse_comparison_expr call n)"
proof -
  have w: "safe m (when_kind (pns [EqEq, BangEq, Lt, Gt, LtEq, GtEq]) (steps [start_node_at cp nk, bump, parse_bitwise_expr call n, finish_node]))" for cp nk
    by (rule safe_when_bump, simp add: pns_def, rule safe_cons [OF parse_at.binary_at(1) [OF down]], simp)
      (rule safe_cons safe_stills)+
  show "safe m (parse_comparison_expr call n)" "eats m (parse_comparison_expr call n)"
    unfolding parse_comparison_expr_def
    by (rule safe_checkpoint eats_checkpoint eats_now(4) safe_cons binary_at w safe_stills)+
qed

lemma or_at: "safe m (parse_or_expr call n)" "eats m (parse_or_expr call n)"
proof -
  have a: "safe j (parse_and_expr call n)" "eats j (parse_and_expr call n)" if "j \<le> m" for j
    unfolding parse_and_expr_def
    by (rule level_progress, use turns that in simp, rule parse_at.comparison_at [OF down [OF that]],
        rule parse_at.comparison_at [OF down [OF that]], rule parse_at.comparison_at [OF down], use that in simp, simp)+
  show "safe m (parse_or_expr call n)" "eats m (parse_or_expr call n)"
    unfolding parse_or_expr_def
    by (rule level_progress, rule turns, rule a, simp, rule a, simp, rule a, simp, simp)+
qed

lemma expr: "safe m (parse_assignment_expr call n)" "eats m (parse_assignment_expr call n)"
proof -
  have o: "k < m \<Longrightarrow> safe k (parse_or_expr call n)" for k using parse_at.or_at(1) [OF down] by simp
  have r: "eats m (range_rest call n cp)" for cp
    unfolding range_rest_def by (rule ahead o later | assumption)+
  have range: "safe m (parse_range_expr call n)" "eats m (parse_range_expr call n)"
    unfolding parse_range_expr_def
    by (rule safe_checkpoint eats_checkpoint safe_live eats_kind r or_at safe_cons safe_when_live eats_now(4) safe_stills | simp)+
  have a: "eats m (steps [start_node_at cp nk, bump, call NtExpr, finish_node])" for cp nk
    by (rule ahead later | assumption)+
  show "safe m (parse_assignment_expr call n)" "eats m (parse_assignment_expr call n)"
    unfolding parse_assignment_expr_def
    by (rule safe_checkpoint eats_checkpoint range safe_cons safe_when_live a eats_now(4) safe_stills | simp)+
qed

lemma grammar_at:
  assumes "nt \<notin> {NtStmt, NtIf, NtUseTree}"
  shows "safe m (grammar call n nt)" "eats m (grammar call n nt)"
  using assms by (cases nt; simp add: expr unary_at pat ty item token_tree)+

end

lemma eats_zero: "eats 0 a"
  by (auto simp: eats_def left_def current_def get_def)

text \<open>Statements begin with expressions and items, and the condition of an \<open>if\<close> without \<open>if\<close> with an expression.\<close>

locale parse_calls = parse_at +
  assumes same: "nt \<notin> {NtStmt, NtIf, NtUseTree} \<Longrightarrow> safe m (call nt)" "nt \<notin> {NtStmt, NtIf, NtUseTree} \<Longrightarrow> eats m (call nt)"
begin

lemma calls: "safe m (call NtExpr)" "safe m (call NtItem)" "eats m (call NtExpr)" "eats m (call NtItem)" "safe m (call NtPat)"
  by (simp_all add: same)

lemma stmt: "safe m (parse_stmt call n)" "eats m (parse_stmt call n)"
proof -
  have l: "eats m (parse_let call)"
    unfolding parse_let_def by (rule ahead parse_after.initializer [OF after] later | assumption)+
  have e: "eats m (steps [start_node nk, call NtExpr, a, finish_node])" if "safe m a" for nk a
    by (rule eats_first eats_now(4) safe_cons that calls safe_stills)+
  have x: "eats m (expr_stmt call)"
    unfolding expr_stmt_def by (rule e safe_when bump_rules)+
  have s: "eats m (steps [start_node nk, call NtExpr, match_kind [(pns [Semicolon], bump), (pns [RBrace], steps [])] (error_text msg), finish_node])" for nk msg
    by (rule e safe_match bump_rules safe_stills)+
  show "safe m (parse_stmt call n)" "eats m (parse_stmt call n)"
    unfolding parse_stmt_def
    by (rule safe_row l x s calls eats_match at_any eats_branch eats_first eats_bumps safe_cons safe_stills safe_expect safe_match(1)
      | simp add: stmt_expr_kinds_def)+
qed

lemma if_expr: "safe m (parse_if_expr call n)"
proof -
  have c: "safe 0 (call NtExpr)" "safe 0 (call NtPat)" using calls safe_mono by blast+
  have "safe 0 (parse_condition call)"
    unfolding parse_condition_def by (rule safe_cons safe_stills safe_kind c bump_rules safe_expect)+
  moreover have "safe 0 (parse_block call n)"
    unfolding parse_block_def parse_block_inner_def
    by (rule safe_cons safe_stills safe_expect safe_until eats_zero | use turns in simp)+
  ultimately have z: "safe 0 (steps [parse_condition call, parse_block call n,
      when_kind (kws [KwElse]) (steps [bump, if_kind (kws [KwIf]) (call NtIf) (parse_block call n)]), finish_node])"
    by - (rule safe_cons safe_stills safe_when_live eats_zero | assumption | simp)+
  show ?thesis
    unfolding parse_if_expr_def
    by (rule safe_cons, rule safe_stills, rule safe_bump_expected_cons [OF _ z], (rule later_expr | assumption)+)
qed

end

lemma parse_nt_progress:
  assumes "nt \<noteq> NtUseTree" "2 * m + 2 + (if nt \<in> {NtStmt, NtIf} then 1 else 0) \<le> f"
  shows "safe m (parse_nt f nt) \<and> eats m (parse_nt f nt)"
  using assms
proof (induction m arbitrary: nt f rule: less_induct)
  case (less m)
  obtain n where f: "f = Suc n" using less.prems(2) by (cases f) auto
  have after: "parse_after (parse_nt j) j k" if "k < m" "2 * m + 1 \<le> j" for j k
    by unfold_locales (use less.IH [OF that(1)] that in auto)
  have at: "parse_at (parse_nt j) j m" if "2 * m + 1 \<le> j" for j
    by (rule parse_at.intro) (use after that in auto)
  have low: "safe m (parse_nt (Suc j) nt) \<and> eats m (parse_nt (Suc j) nt)"
    if "2 * m + 1 \<le> j" "nt \<notin> {NtStmt, NtIf, NtUseTree}" for j nt
    using parse_at.grammar_at [OF at that(2)] that(1) by (simp add: safe_def eats_def)
  show ?case
  proof (cases "nt \<in> {NtStmt, NtIf}")
    case False
    then show ?thesis using low [of n nt] less.prems f by (simp del: parse_nt.simps)
  next
    case True
    obtain j where n: "n = Suc j" using less.prems(2) f True by (cases n) auto
    have "parse_calls (parse_nt n) n m"
      by (intro parse_calls.intro parse_calls_axioms.intro at) (use less.prems(2) f n True low [of j] in auto)
    then have "safe m (grammar (parse_nt n) n nt)" "eats m (grammar (parse_nt n) n nt)"
      using True parse_calls.stmt parse_calls.if_expr parse_at.compound_at(1) [OF at] less.prems(2) f by auto
    then show ?thesis by (simp add: f safe_def eats_def)
  qed
qed

text \<open>The interfaces hold for the parser itself, with fuel for two turns per unit of measure.\<close>

interpretation returning: parse_after "parse_nt (2 * m + 3)" "2 * m + 3" m for m
  by unfold_locales (simp_all add: parse_nt_progress del: parse_nt.simps)

interpretation beginning: parse_calls "parse_nt (2 * m + 3)" "2 * m + 3" m for m
  by unfold_locales (simp_all add: parse_nt_progress del: parse_nt.simps)

end
