(* ===== verification/Parser_Total.thy ===== *)
theory Parser_Total
  imports Parser_Progress
begin

text \<open>
  What the parser does with every source without \<open>use\<close>: it returns, with enough fuel for four turns per token, and the
  builder calls it made are nested.  With \<open>use\<close> it may not return.
\<close>

lemma file_returns:
  assumes "\<forall>t \<in> set ts. tk_kind t \<noteq> SkKeyword KwUse" "4 * length ts + 2 \<le> n"
  obtains p mid where "parse_source_file n (parser_new ts) = Some p"
    "ps_calls p = BcStart (NkItem SourceFile) # mid @ [BcFinish]" "level 0 mid = Some 0"
proof -
  define q where "q = emit_call (BcStart (NkItem SourceFile)) (parser_new ts)"
  have q: "no_use q" "left q = 2 * length ts" "ps_calls q = [BcStart (NkItem SourceFile)]"
    using assms(1) by (simp_all add: q_def no_use_def left_def parser_new_def emit_call_def)
  have "safe (left q) (loop n (\<lambda>p. current p \<noteq> None) (parse_nt n NtItem))"
    by (rule safe_loop) (use parse_nt_progress [of NtItem "left q" n] assms(2) q(2) in auto)
  then obtain r where r: "loop n (\<lambda>p. current p \<noteq> None) (parse_nt n NtItem) q = Some r"
    using q(1) unfolding safe_def by blast
  have "nests 0 0 (loop n (\<lambda>p. current p \<noteq> None) (parse_nt n NtItem))"
    by (rule nesting.loops, rule nests_parse_nt) simp
  from nestsD [OF this r q(1)] obtain mid where "ps_calls r = ps_calls q @ mid" "level 0 mid = Some 0" by metis
  then have "ps_calls (emit_call BcFinish r) = BcStart (NkItem SourceFile) # mid @ [BcFinish]" "level 0 mid = Some 0"
    using q(3) by (simp_all add: emit_call_def)
  moreover have "parse_source_file n (parser_new ts) = Some (emit_call BcFinish r)"
    using r by (simp add: parse_source_file_def start_node_def finish_node_def q_def bind_steps_Nil)
  ultimately show ?thesis using that by blast
qed

text \<open>
  C8. Parsing ends: a source without the keyword \<open>use\<close> is parsed with fuel linear in the number of its tokens, whatever
  errors it has, and the nodes of the tree are nested: the calls are those of one root node, and between its start and its
  end no node is finished that was not started and none is left open.
\<close>

theorem parse_returns:
  assumes "\<forall>t \<in> set (lr_tokens (lex cc source file_id)). tk_kind t \<noteq> SkKeyword KwUse"
    and "4 * length (lr_tokens (lex cc source file_id)) + 2 \<le> n"
  shows "\<exists>mid pds. parse_to_calls n cc source file_id =
      Some (BcStart (NkItem SourceFile) # mid @ [BcFinish], lr_diagnostics (lex cc source file_id), pds) \<and>
    level 0 mid = Some 0"
proof -
  obtain p mid where "parse_source_file n (parser_new (lr_tokens (lex cc source file_id))) = Some p"
    "ps_calls p = BcStart (NkItem SourceFile) # mid @ [BcFinish]" "level 0 mid = Some 0"
    by (rule file_returns [OF assms])
  then show ?thesis by (simp add: parse_to_calls_def Let_def)
qed

theorem parse_returns_witness:
  "\<exists>mid pds. parse_to_calls 22 ascii_only two_modules 0 =
      Some (BcStart (NkItem SourceFile) # mid @ [BcFinish], lr_diagnostics (lex ascii_only two_modules 0), pds) \<and>
    level 0 mid = Some 0"
proof -
  have k: "map tk_kind (lr_tokens (lex ascii_only two_modules 0)) =
      [SkKeyword KwMod, SkIdent, SkKeyword KwMod, SkIdent, SkPunct Semicolon]"
    by code_simp
  have "length (map tk_kind (lr_tokens (lex ascii_only two_modules 0))) = 5" unfolding k by simp
  then have l: "4 * length (lr_tokens (lex ascii_only two_modules 0)) + 2 \<le> 22" by simp
  have "SkKeyword KwUse \<notin> set (map tk_kind (lr_tokens (lex ascii_only two_modules 0)))" unfolding k by simp
  then have u: "\<forall>t \<in> set (lr_tokens (lex ascii_only two_modules 0)). tk_kind t \<noteq> SkKeyword KwUse" by (metis image_eqI set_map)
  show ?thesis by (rule parse_returns [OF u l])
qed

subsection \<open>Use lists\<close>

text \<open>At a token that cannot begin a path nothing is taken, so the loop over a use list does not end.\<close>

definition stuck :: "parser \<Rightarrow> bool" where
  "stuck p \<longleftrightarrow> current_kind p = SkIntLit \<and> current p \<noteq> None"

definition keeps_stuck :: "parse \<Rightarrow> bool" where
  "keeps_stuck a \<longleftrightarrow> (\<forall>p p'. stuck p \<longrightarrow> a p = Some p' \<longrightarrow> stuck p')"

lemma keeps_cons: "keeps_stuck a \<Longrightarrow> keeps_stuck (steps as) \<Longrightarrow> keeps_stuck (steps (a # as))"
proof -
  assume a: "keeps_stuck a" and as: "keeps_stuck (steps as)"
  have "stuck p'" if p: "stuck p" and r: "steps (a # as) p = Some p'" for p p'
  proof -
    obtain q where "a p = Some q" "steps as q = Some p'" using r by (auto simp: bind_eq_Some_conv)
    then show ?thesis using a as p unfolding keeps_stuck_def by blast
  qed
  then show ?thesis unfolding keeps_stuck_def by blast
qed

lemma keeps_still: "still a \<Longrightarrow> keeps_stuck a"
proof -
  assume a: "still a"
  have "stuck p'" if "stuck p" "a p = Some p'" for p p'
  proof -
    obtain q where q: "a p = Some q" "current q = current p" "current_kind q = current_kind p"
      by (rule still_left [OF a, of p])
    moreover have "q = p'" using q(1) that(2) by simp
    ultimately show ?thesis using that(1) unfolding stuck_def by metis
  qed
  then show ?thesis unfolding keeps_stuck_def by blast
qed

lemma keeps_kind: "SkIntLit \<notin> set ks \<Longrightarrow> keeps_stuck b \<Longrightarrow> keeps_stuck (if_kind ks a b)"
proof -
  assume "SkIntLit \<notin> set ks" and b: "keeps_stuck b"
  then have "if_kind ks a b p = b p" if "stuck p" for p using that by (simp add: if_kind_def stuck_def)
  then show ?thesis using b unfolding keeps_stuck_def by metis
qed

lemma keeps_when: "SkIntLit \<notin> set ks \<Longrightarrow> keeps_stuck (when_kind ks a)"
  unfolding when_kind_def by (rule keeps_kind) (assumption | rule keeps_still stills)+

lemma stuck_tree: "stuck p \<Longrightarrow> parse_use_tree call n p = Some p' \<Longrightarrow> stuck p'"
proof -
  have "keeps_stuck (parse_use_tree call n)"
    unfolding parse_use_tree_def parse_use_path_def
    by (rule keeps_cons keeps_kind keeps_when keeps_still stills | simp add: path_kinds_def pns_def kws_def)+
  then show "stuck p \<Longrightarrow> parse_use_tree call n p = Some p' \<Longrightarrow> stuck p'"
    unfolding keeps_stuck_def by blast
qed

lemma stuck_nt: "stuck p \<Longrightarrow> parse_nt n NtUseTree p = Some p' \<Longrightarrow> stuck p'"
  by (cases n) (auto dest: stuck_tree)

lemma stuck_list: "stuck p \<Longrightarrow> items_until n RBrace (parse_nt k NtUseTree) p = None"
proof -
  let ?a = "steps [parse_nt k NtUseTree, comma_opt]"
  have a: "?a p = None \<or> (\<exists>p'. ?a p = Some p' \<and> stuck p')" if "stuck p" for p
    using stuck_nt [OF that] by (cases "parse_nt k NtUseTree p") (auto simp: when_kind_def if_kind_def stuck_def pns_def)
  have "stuck p \<Longrightarrow> loop n (\<lambda>p. current_kind p \<notin> set (pns [RBrace]) \<and> current p \<noteq> None) ?a p = None" for p
  proof (induction n arbitrary: p)
    case (Suc n)
    have "current_kind p \<notin> set (pns [RBrace])" "current p \<noteq> None" using Suc.prems by (simp_all add: stuck_def pns_def)
    then show ?case using a [OF Suc.prems] Suc.IH by (auto simp del: steps.simps)
  qed simp
  then show "stuck p \<Longrightarrow> items_until n RBrace (parse_nt k NtUseTree) p = None"
    by (simp add: items_until_def until_kind_def)
qed

definition use_source :: "uchar list" where
  "use_source = ucs ''use a::{5};''"

lemma use_tokens: "map tk_kind (lr_tokens (lex ascii_only use_source 0)) =
    [SkKeyword KwUse, SkIdent, SkPunct ColonColon, SkPunct LBrace, SkIntLit, SkPunct RBrace, SkPunct Semicolon]"
  by code_simp

lemmas use_run = parse_item_def [THEN fun_cong] item_tail_def [THEN fun_cong] item_body_def [THEN fun_cong]
  parse_use_decl_def [THEN fun_cong] parse_use_tree_def [THEN fun_cong] parse_use_path_def [THEN fun_cong]
  parse_visibility_def [THEN fun_cong] when_kind_def [THEN fun_cong] if_kind_def if_state_def at_fn_modifier_def use_segment_def
  start_node_def finish_node_def bump_def bump_expected_def emit_call_def current_def current_kind_def get_def
  next_non_ws_kind_def kind_at_def kws_def pns_def item_kinds_def path_kinds_def

lemma use_item_stuck:
  assumes ts: "map tk_kind ts = [SkKeyword KwUse, SkIdent, SkPunct ColonColon, SkPunct LBrace, SkIntLit, SkPunct RBrace, SkPunct Semicolon]"
  shows "parse_nt n NtItem (parser_new ts\<lparr>ps_calls := cs\<rparr>) = None"
proof -
  obtain a b c d e f g where t: "ts = [a, b, c, d, e, f, g]" "tk_kind a = SkKeyword KwUse" "tk_kind b = SkIdent"
    "tk_kind c = SkPunct ColonColon" "tk_kind d = SkPunct LBrace" "tk_kind e = SkIntLit"
    using ts by (auto simp: map_eq_Cons_conv)
  have l: "items_until k RBrace (parse_nt j NtUseTree) \<lparr>ps_tokens = ts, ps_pos = Suc (Suc (Suc (Suc 0))), ps_calls = cs, ps_diagnostics = ds,
      ps_last_was_path = x, ps_suppress_struct_lit = y, ps_pending_gt = 0\<rparr> = None" for k j cs ds x y
    by (rule stuck_list) (simp add: stuck_def current_kind_def current_def get_def t)
  show ?thesis
  proof (cases n)
    case (Suc j)
    show ?thesis
    proof (cases j)
      case 0
      then show ?thesis by (simp add: Suc use_run parser_new_def t)
    next
      case (Suc i)
      then show ?thesis
        using l by (cases i) (simp_all add: \<open>n = Suc j\<close> use_run parser_new_def t del: items_until_def)
    qed
  qed simp
qed

text \<open>Without a path the node that was started for it is not finished: one node stays open.\<close>

lemma use_leaves_node_open:
  "map_option (\<lambda>(calls, lds, pds). level 0 calls) (parse_to_calls 5 ascii_only (ucs ''use ;'') 0) = Some (Some 1)"
  by code_simp


end
