(* ===== verification/Type_Context.thy ===== *)
theory Type_Context
  imports Glyim_Types "HOL-Library.Sublist"
begin

unbundle bit_operations_syntax

text \<open>
  The type context of \<^verbatim>\<open>crates/glyim-type\<close>: the canonical type arena
  (\<^verbatim>\<open>type_arena.rs\<close>), the flag summary of a type (\<^verbatim>\<open>flags.rs\<close>), and the queries of
  the frozen context (\<^verbatim>\<open>ty_ctx.rs\<close>, \<^verbatim>\<open>cast.rs\<close>, \<^verbatim>\<open>deref.rs\<close>, \<^verbatim>\<open>auto_trait.rs\<close>).
  A handle that is not in the arena makes a query panic, and a query that recurses through
  field types may recurse forever on a recursive data type; both are \<open>None\<close>, the depth
  of the recursion being a fuel argument.
\<close>

subsection \<open>The arena\<close>

record type_arena =
  ar_types :: "ty_kind list"
  ar_flags :: "u32 list"
  ar_substs :: "generic_arg list list"
  ar_index :: "ty_kind \<Rightarrow> ty option"

definition arena_new :: type_arena where
  "arena_new = \<lparr>ar_types = [], ar_flags = [], ar_substs = [], ar_index = (\<lambda>_. None)\<rparr>"

definition alloc_ty :: "type_arena \<Rightarrow> ty_kind \<Rightarrow> u32 \<Rightarrow> ty \<times> type_arena" where
  "alloc_ty a kind flags =
    (case ar_index a kind of
       Some t \<Rightarrow> (t, a)
     | None \<Rightarrow>
         let raw = word_of_nat (length (ar_types a)) in
         (raw, a\<lparr>ar_types := ar_types a @ [kind], ar_flags := ar_flags a @ [flags],
                 ar_index := (ar_index a)(kind := Some raw)\<rparr>))"

definition arena_ty_kind :: "type_arena \<Rightarrow> ty \<Rightarrow> ty_kind option" where
  "arena_ty_kind a t = get (ar_types a) (unat t)"

definition arena_ty_flags :: "type_arena \<Rightarrow> ty \<Rightarrow> u32 option" where
  "arena_ty_flags a t = get (ar_flags a) (unat t)"

fun position :: "'a \<Rightarrow> 'a list \<Rightarrow> nat option" where
  "position x [] = None"
| "position x (y # ys) = (if y = x then Some 0 else map_option Suc (position x ys))"

definition intern_substitution :: "type_arena \<Rightarrow> generic_arg list \<Rightarrow> substitution \<times> type_arena" where
  "intern_substitution a args =
    (let len = length args mod 2 ^ 16 in
     case position args (ar_substs a) of
       Some pos \<Rightarrow> (\<lparr>sub_index = word_of_nat pos, sub_len = len\<rparr>, a)
     | None \<Rightarrow> (\<lparr>sub_index = word_of_nat (length (ar_substs a)), sub_len = len\<rparr>,
                a\<lparr>ar_substs := ar_substs a @ [args]\<rparr>))"

definition arena_substitution_args :: "type_arena \<Rightarrow> substitution \<Rightarrow> generic_arg list option" where
  "arena_substitution_args a sub =
    (if sub_len sub = 0 then Some [] else get (ar_substs a) (unat (sub_index sub)))"

subsection \<open>Flags\<close>

definition HAS_TY_INFER :: u32 where "HAS_TY_INFER = push_bit 0 1"
definition HAS_TY_PARAM :: u32 where "HAS_TY_PARAM = push_bit 1 1"
definition HAS_RE_INFER :: u32 where "HAS_RE_INFER = push_bit 2 1"
definition HAS_RE_PARAM :: u32 where "HAS_RE_PARAM = push_bit 3 1"
definition HAS_ERROR :: u32 where "HAS_ERROR = push_bit 7 1"
definition HAS_DEPTH_OVERFLOW :: u32 where "HAS_DEPTH_OVERFLOW = push_bit 8 1"
definition HAS_RE_PLACEHOLDER :: u32 where "HAS_RE_PLACEHOLDER = push_bit 9 1"
definition HAS_TY_PLACEHOLDER :: u32 where "HAS_TY_PLACEHOLDER = push_bit 10 1"
definition HAS_INTERIOR_MUTABILITY :: u32 where "HAS_INTERIOR_MUTABILITY = push_bit 11 1"

definition flags_contain :: "u32 \<Rightarrow> u32 \<Rightarrow> bool" where
  "flags_contain flags f \<longleftrightarrow> flags AND f = f"

text \<open>The type arguments of a substitution, and the union of their flags.\<close>

fun type_args :: "generic_arg list \<Rightarrow> ty list" where
  "type_args [] = []"
| "type_args (GaTy t # as) = t # type_args as"
| "type_args (_ # as) = type_args as"

fun or_flags :: "type_arena \<Rightarrow> ty list \<Rightarrow> u32 \<Rightarrow> u32 option" where
  "or_flags a [] acc = Some acc"
| "or_flags a (t # ts) acc =
    (case arena_ty_flags a t of None \<Rightarrow> None | Some f \<Rightarrow> or_flags a ts (acc OR f))"

definition subst_flags :: "type_arena \<Rightarrow> substitution \<Rightarrow> u32 \<Rightarrow> u32 option" where
  "subst_flags a substs acc =
    (case arena_substitution_args a substs of None \<Rightarrow> None | Some args \<Rightarrow> or_flags a (type_args args) acc)"

fun pred_flags :: "type_arena \<Rightarrow> predicate list \<Rightarrow> u32 \<Rightarrow> u32 option" where
  "pred_flags a [] acc = Some acc"
| "pred_flags a (PTrait tp # ps) acc =
    (case subst_flags a (tr_substs (tp_trait_ref tp)) acc of
       None \<Rightarrow> None | Some acc' \<Rightarrow> pred_flags a ps acc')"
| "pred_flags a (_ # ps) acc = pred_flags a ps acc"

definition region_flag :: "region \<Rightarrow> u32" where
  "region_flag r = (case r of ReVar _ \<Rightarrow> HAS_RE_INFER | ReEarlyBound _ \<Rightarrow> HAS_RE_PARAM
     | RePlaceholder _ \<Rightarrow> HAS_RE_PLACEHOLDER | _ \<Rightarrow> 0)"

definition compute_flags :: "type_arena \<Rightarrow> u32 set \<Rightarrow> ty_kind \<Rightarrow> nat \<Rightarrow> u32 option" where
  "compute_flags a interior_mutable kind depth =
    (if 64 < depth then Some HAS_DEPTH_OVERFLOW
     else (case kind of
       TInfer _ \<Rightarrow> Some HAS_TY_INFER
     | TParam _ \<Rightarrow> Some HAS_TY_PARAM
     | TError \<Rightarrow> Some HAS_ERROR
     | TBound _ _ \<Rightarrow> Some HAS_TY_PLACEHOLDER
     | TRef region t _ \<Rightarrow> map_option (\<lambda>f. f OR region_flag region) (or_flags a [t] 0)
     | TRawPtr t _ \<Rightarrow> or_flags a [t] 0
     | TSlice t \<Rightarrow> or_flags a [t] 0
     | TArray t _ \<Rightarrow> or_flags a [t] 0
     | TAdt adt_id substs \<Rightarrow>
         map_option (\<lambda>f. if adt_id \<in> interior_mutable then f OR HAS_INTERIOR_MUTABILITY else f)
           (subst_flags a substs 0)
     | TFnDef _ substs \<Rightarrow> subst_flags a substs 0
     | TClosure _ substs \<Rightarrow> subst_flags a substs 0
     | TTuple substs \<Rightarrow> subst_flags a substs 0
     | TOpaque _ substs \<Rightarrow> subst_flags a substs 0
     | TProjection proj \<Rightarrow> subst_flags a (tr_substs (pt_trait_ref proj)) 0
     | TFnPtr sig \<Rightarrow>
         (case subst_flags a (fs_inputs sig) 0 of
            None \<Rightarrow> None | Some f \<Rightarrow> or_flags a [fs_output sig] f)
     | TDynamic preds region \<Rightarrow>
         map_option (\<lambda>f. case region of RePlaceholder _ \<Rightarrow> f OR HAS_RE_PLACEHOLDER | _ \<Rightarrow> f)
           (pred_flags a (bi_value preds) 0)
     | _ \<Rightarrow> Some 0))"

subsection \<open>The context\<close>

datatype auto_trait = AtSend | AtSync | AtUnpin

record ty_ctx =
  tc_arena :: type_arena
  tc_adt_defs :: "u32 \<Rightarrow> adt_def option"
  tc_adt_reprs :: "u32 \<Rightarrow> ty list option"
  tc_adt_by_name :: "name \<Rightarrow> u32 option"
  tc_drop_impls :: "u32 set"
  tc_interior_mutable :: "u32 set"
  tc_variant_types :: "u32 \<Rightarrow> ty list option"
  tc_opaque_hidden :: "u32 \<Rightarrow> ty option"
  tc_deref_targets :: "ty \<Rightarrow> ty option"
  tc_deref_templates :: "u32 \<Rightarrow> (generic_arg list \<times> ty) option"
  tc_negative_impls :: "(u32 \<times> auto_trait) set"
  tc_manual_impls :: "(u32 \<times> auto_trait) set"
  tc_trait_defs :: "u32 \<Rightarrow> trait_def option"

definition ty_kind_of :: "ty_ctx \<Rightarrow> ty \<Rightarrow> ty_kind option" where
  "ty_kind_of ctx t = arena_ty_kind (tc_arena ctx) t"

definition substitution_args :: "ty_ctx \<Rightarrow> substitution \<Rightarrow> generic_arg list option" where
  "substitution_args ctx s = arena_substitution_args (tc_arena ctx) s"

definition mk_ty :: "ty_ctx \<Rightarrow> ty_kind \<Rightarrow> (ty \<times> ty_ctx) option" where
  "mk_ty ctx kind =
    (case compute_flags (tc_arena ctx) (tc_interior_mutable ctx) kind 0 of
       None \<Rightarrow> None
     | Some flags \<Rightarrow>
         let (t, a) = alloc_ty (tc_arena ctx) kind flags in Some (t, ctx\<lparr>tc_arena := a\<rparr>))"

definition mk_ref :: "ty_ctx \<Rightarrow> region \<Rightarrow> ty \<Rightarrow> mutability \<Rightarrow> (ty \<times> ty_ctx) option" where
  "mk_ref ctx region t mut = mk_ty ctx (TRef region t mut)"

definition has_drop_impl :: "ty_ctx \<Rightarrow> u32 \<Rightarrow> bool" where
  "has_drop_impl ctx adt_id \<longleftrightarrow> adt_id \<in> tc_drop_impls ctx"

definition field_ty :: "ty_ctx \<Rightarrow> u32 \<Rightarrow> nat \<Rightarrow> ty" where
  "field_ty ctx adt_id field_idx =
    (case tc_adt_defs ctx adt_id of
       Some def \<Rightarrow> (case get (ad_fields def) field_idx of Some f \<Rightarrow> fd_ty f | None \<Rightarrow> Ty_ERROR)
     | None \<Rightarrow>
         (case tc_adt_reprs ctx adt_id of
            Some tys \<Rightarrow> (case get tys field_idx of Some t \<Rightarrow> t | None \<Rightarrow> Ty_ERROR)
          | None \<Rightarrow> Ty_ERROR))"

definition adt_generic_arity :: "ty_ctx \<Rightarrow> u32 \<Rightarrow> nat" where
  "adt_generic_arity ctx adt_id =
    (case tc_adt_defs ctx adt_id of Some d \<Rightarrow> length (ad_generic_params d) | None \<Rightarrow> 0)"

fun field_index_from :: "nat \<Rightarrow> name \<Rightarrow> field_def list \<Rightarrow> nat option" where
  "field_index_from i n [] = None"
| "field_index_from i n (f # fs) = (if fd_name f = n then Some i else field_index_from (i + 1) n fs)"

definition field_index :: "ty_ctx \<Rightarrow> u32 \<Rightarrow> name \<Rightarrow> nat option" where
  "field_index ctx adt_id field_name =
    (case tc_adt_defs ctx adt_id of
       Some def \<Rightarrow> field_index_from 0 field_name (ad_fields def) | None \<Rightarrow> None)"

definition variant_type :: "ty_ctx \<Rightarrow> u32 \<Rightarrow> u32 \<Rightarrow> ty" where
  "variant_type ctx adt_id variant_idx =
    (case tc_variant_types ctx adt_id of
       Some vts \<Rightarrow> (case get vts (unat variant_idx) of Some t \<Rightarrow> t | None \<Rightarrow> Ty_ERROR)
     | None \<Rightarrow> Ty_ERROR)"

definition deref_ty :: "ty_ctx \<Rightarrow> ty \<Rightarrow> ty option option" where
  "deref_ty ctx t =
    (case ty_kind_of ctx t of
       None \<Rightarrow> None
     | Some (TRef _ inner _) \<Rightarrow> Some (Some inner)
     | Some (TRawPtr inner _) \<Rightarrow> Some (Some inner)
     | Some (TAdt adt_id sub) \<Rightarrow>
         (case tc_deref_targets ctx t of
            Some target \<Rightarrow> Some (Some target)
          | None \<Rightarrow>
             (case tc_deref_templates ctx adt_id of
                Some (_, target) \<Rightarrow>
                  (case ty_kind_of ctx target of
                     None \<Rightarrow> None
                   | Some (TParam p) \<Rightarrow>
                       (case substitution_args ctx sub of
                          None \<Rightarrow> None
                        | Some args \<Rightarrow>
                            (case get args (unat (pty_index p)) of
                               Some (GaTy s) \<Rightarrow> Some (Some s) | _ \<Rightarrow> Some None))
                   | Some _ \<Rightarrow> Some None)
              | None \<Rightarrow> Some None))
     | Some _ \<Rightarrow> Some None)"

definition is_valid_cast :: "ty_ctx \<Rightarrow> ty \<Rightarrow> ty \<Rightarrow> bool option" where
  "is_valid_cast ctx from to =
    (case (ty_kind_of ctx from, ty_kind_of ctx to) of
       (Some from_k, Some to_k) \<Rightarrow>
         Some (let to_int = (case to_k of TInt _ \<Rightarrow> True | TUint _ \<Rightarrow> True | _ \<Rightarrow> False);
                   to_num = (to_int \<or> (case to_k of TFloat _ \<Rightarrow> True | _ \<Rightarrow> False))
               in case from_k of
                    TInt _ \<Rightarrow> to_num \<or> from = to
                  | TUint _ \<Rightarrow> to_num \<or> from = to
                  | TFloat _ \<Rightarrow> to_num \<or> from = to
                  | TRawPtr _ _ \<Rightarrow> (case to_k of TRawPtr _ _ \<Rightarrow> True | TInt _ \<Rightarrow> True | _ \<Rightarrow> from = to)
                  | TRef _ _ _ \<Rightarrow> (case to_k of TRawPtr _ _ \<Rightarrow> True | TInt _ \<Rightarrow> True | _ \<Rightarrow> from = to)
                  | TBool \<Rightarrow> to_int \<or> from = to
                  | TChar \<Rightarrow> to_int \<or> from = to
                  | TAdt from_id _ \<Rightarrow>
                      (if to_int
                       then (case tc_adt_defs ctx from_id of
                               Some adt \<Rightarrow> ad_kind adt = AdtEnum \<and> list_all (\<lambda>v. vd_fields v = []) (ad_variants adt)
                             | None \<Rightarrow> False)
                       else from = to)
                  | _ \<Rightarrow> from = to)
     | _ \<Rightarrow> None)"

subsection \<open>Copy, sized and drop\<close>

text \<open>Short-circuiting \<open>all\<close> and stateful \<open>any\<close> over calls that may not return.\<close>

fun all_opt :: "('a \<Rightarrow> bool option) \<Rightarrow> 'a list \<Rightarrow> bool option" where
  "all_opt f [] = Some True"
| "all_opt f (x # xs) = (case f x of None \<Rightarrow> None | Some b \<Rightarrow> if b then all_opt f xs else Some False)"

fun any_st :: "('a \<Rightarrow> 's \<Rightarrow> (bool \<times> 's) option) \<Rightarrow> 'a list \<Rightarrow> 's \<Rightarrow> (bool \<times> 's) option" where
  "any_st f [] s = Some (False, s)"
| "any_st f (x # xs) s =
    (case f x s of None \<Rightarrow> None | Some (b, s') \<Rightarrow> if b then Some (True, s') else any_st f xs s')"

primrec is_copy :: "nat \<Rightarrow> ty_ctx \<Rightarrow> ty \<Rightarrow> bool option" where
  "is_copy 0 ctx t = None"
| "is_copy (Suc n) ctx t =
    (case ty_kind_of ctx t of
       None \<Rightarrow> None
     | Some k \<Rightarrow>
        (case k of
           TBool \<Rightarrow> Some True | TInt _ \<Rightarrow> Some True | TUint _ \<Rightarrow> Some True
         | TFloat _ \<Rightarrow> Some True | TChar \<Rightarrow> Some True
         | TNever \<Rightarrow> Some True | TUnit \<Rightarrow> Some True
         | TArray inner _ \<Rightarrow> is_copy n ctx inner
         | TTuple substs \<Rightarrow>
             (case substitution_args ctx substs of
                None \<Rightarrow> None | Some args \<Rightarrow> all_opt (is_copy n ctx) (type_args args))
         | _ \<Rightarrow> Some False))"

primrec is_sized :: "nat \<Rightarrow> ty_ctx \<Rightarrow> ty \<Rightarrow> bool option" where
  "is_sized 0 ctx t = None"
| "is_sized (Suc n) ctx t =
    (case ty_kind_of ctx t of
       None \<Rightarrow> None
     | Some k \<Rightarrow>
        (case k of
           TSlice _ \<Rightarrow> Some False | TDynamic _ _ \<Rightarrow> Some False | TOpaque _ _ \<Rightarrow> Some False
         | TArray inner _ \<Rightarrow> is_sized n ctx inner
         | TTuple substs \<Rightarrow>
             (case substitution_args ctx substs of
                None \<Rightarrow> None | Some args \<Rightarrow> all_opt (is_sized n ctx) (type_args args))
         | TAdt adt_id _ \<Rightarrow>
             (case tc_adt_defs ctx adt_id of
                Some d \<Rightarrow> all_opt (\<lambda>v. all_opt (\<lambda>f. is_sized n ctx (fd_ty f)) (vd_fields v)) (ad_variants d)
              | None \<Rightarrow> Some False)
         | _ \<Rightarrow> Some True))"

text \<open>
  \<open>needs_drop_rec\<close> with its mutable set of types under exploration: a type is removed
  again on the way out, except after the early returns for a registered \<open>Drop\<close> impl
  and for a union.
\<close>

definition type_list :: "ty_ctx \<Rightarrow> substitution \<Rightarrow> ty list option" where
  "type_list ctx substs = map_option type_args (substitution_args ctx substs)"

primrec needs_drop_rec :: "nat \<Rightarrow> ty_ctx \<Rightarrow> ty \<Rightarrow> ty list \<Rightarrow> (bool \<times> ty list) option" where
  "needs_drop_rec 0 ctx t visited = None"
| "needs_drop_rec (Suc n) ctx t visited =
    (case is_copy n ctx t of
       None \<Rightarrow> None
     | Some True \<Rightarrow> Some (False, visited)
     | Some False \<Rightarrow>
        (if t \<in> set visited then Some (False, visited)
         else let leave = map_option (\<lambda>(b, v). (b, filter (\<lambda>x. x \<noteq> t) v)); v1 = t # visited in
           (case ty_kind_of ctx t of
              None \<Rightarrow> None
            | Some k \<Rightarrow>
               (case k of
                  TString \<Rightarrow> leave (Some (True, v1))
                | TSlice inner \<Rightarrow> leave (needs_drop_rec n ctx inner v1)
                | TArray inner _ \<Rightarrow> leave (needs_drop_rec n ctx inner v1)
                | TTuple substs \<Rightarrow>
                    (case type_list ctx substs of
                       None \<Rightarrow> None | Some ts \<Rightarrow> leave (any_st (needs_drop_rec n ctx) ts v1))
                | TClosure _ substs \<Rightarrow>
                    (case type_list ctx substs of
                       None \<Rightarrow> None | Some ts \<Rightarrow> leave (any_st (needs_drop_rec n ctx) ts v1))
                | TAdt adt_id _ \<Rightarrow>
                    (if has_drop_impl ctx adt_id then Some (True, v1)
                     else (case tc_adt_defs ctx adt_id of
                            None \<Rightarrow> leave (Some (False, v1))
                          | Some adt \<Rightarrow>
                              if ad_kind adt = AdtUnion then Some (True, v1)
                              else leave (any_st (\<lambda>v. any_st (needs_drop_rec n ctx) (map fd_ty (vd_fields v)))
                                     (ad_variants adt) v1)))
                | _ \<Rightarrow> leave (Some (False, v1))))))"

definition needs_drop :: "nat \<Rightarrow> ty_ctx \<Rightarrow> ty \<Rightarrow> bool option" where
  "needs_drop n ctx t = map_option fst (needs_drop_rec n ctx t [])"

subsection \<open>The arena is canonical\<close>

definition arena_ok :: "type_arena \<Rightarrow> bool" where
  "arena_ok a \<longleftrightarrow> length (ar_flags a) = length (ar_types a) \<and>
     (\<forall>k t. ar_index a k = Some t \<longleftrightarrow> arena_ty_kind a t = Some k)"

lemma arena_new_ok: "arena_ok arena_new"
  by (simp add: arena_ok_def arena_new_def arena_ty_kind_def get_def)

lemma get_append: "get (xs @ [x]) i = (if i < length xs then get xs i else if i = length xs then Some x else None)"
  by (auto simp: get_def nth_append)

lemma unat_u32_of_nat: "n < 2 ^ 32 \<Longrightarrow> unat (word_of_nat n :: u32) = n"
  by (simp add: unat_of_nat)

lemma alloc_ty_keeps:
  assumes ok: "arena_ok a" and small: "length (ar_types a) < 2 ^ 32" and al: "alloc_ty a kind flags = (t, a')"
  shows "arena_ok a' \<and> arena_ty_kind a' t = Some kind \<and>
    (\<forall>t' k'. arena_ty_kind a t' = Some k' \<longrightarrow> arena_ty_kind a' t' = Some k')"
proof (cases "ar_index a kind")
  case (Some t0)
  then show ?thesis using ok al by (auto simp: alloc_ty_def arena_ok_def)
next
  case None
  let ?raw = "word_of_nat (length (ar_types a)) :: u32"
  have raw: "unat ?raw = length (ar_types a)" by (rule unat_u32_of_nat [OF small])
  have a': "t = ?raw" "a' = a\<lparr>ar_types := ar_types a @ [kind], ar_flags := ar_flags a @ [flags],
                 ar_index := (ar_index a)(kind := Some ?raw)\<rparr>"
    using al None by (auto simp: alloc_ty_def Let_def)
  have kind: "arena_ty_kind a' u = (if u = ?raw then Some kind else arena_ty_kind a u)" for u
  proof -
    have "u = ?raw \<longleftrightarrow> unat u = length (ar_types a)"
      using raw by (metis unsigned_word_eqI)
    then show ?thesis by (simp add: arena_ty_kind_def a'(2) get_append) (simp add: get_def)
  qed
  have fresh: "arena_ty_kind a ?raw = None" by (simp add: arena_ty_kind_def get_def raw)
  have unknown: "arena_ty_kind a u \<noteq> Some kind" for u
    using ok None unfolding arena_ok_def by (metis option.distinct(1))
  have idx: "ar_index a' k = (if k = kind then Some ?raw else ar_index a k)" for k
    by (simp add: a'(2))
  have "ar_index a' k = Some u \<longleftrightarrow> arena_ty_kind a' u = Some k" for k u
  proof (cases "k = kind")
    case True
    then show ?thesis using unknown by (auto simp: kind idx)
  next
    case False
    then have "ar_index a' k = Some u \<longleftrightarrow> arena_ty_kind a u = Some k"
      using ok by (simp add: idx arena_ok_def)
    then show ?thesis using False fresh by (auto simp: kind)
  qed
  moreover have "length (ar_flags a') = length (ar_types a')" using ok by (simp add: arena_ok_def a'(2))
  ultimately have "arena_ok a'" unfolding arena_ok_def by blast
  moreover have "arena_ty_kind a' t' = Some k'" if "arena_ty_kind a t' = Some k'" for t' k'
    using that fresh by (auto simp: kind)
  moreover have "arena_ty_kind a' t = Some kind" by (simp add: kind a'(1))
  ultimately show ?thesis by blast
qed

lemma position_Some: "position x ys = Some i \<Longrightarrow> i < length ys \<and> ys ! i = x"
  by (induction ys arbitrary: i) (auto split: if_splits)

text \<open>
  C28.  The arena is a canonical interner: allocating a kind returns a handle that denotes
  it, that is the only handle denoting it, and no earlier handle changes its meaning; the
  invariant that index and table agree is kept.
\<close>

theorem alloc_ty_canonical:
  assumes "arena_ok a" and "length (ar_types a) < 2 ^ 32" and "alloc_ty a kind flags = (t, a')"
  shows "arena_ok a' \<and> arena_ty_kind a' t = Some kind \<and>
    (\<forall>u. arena_ty_kind a' u = Some kind \<longrightarrow> u = t) \<and>
    (\<forall>u k. arena_ty_kind a u = Some k \<longrightarrow> arena_ty_kind a' u = Some k)"
  using alloc_ty_keeps [OF assms] unfolding arena_ok_def by (metis option.inject)

lemma alloc_ty_canonical_witness:
  "\<exists>t a'. alloc_ty arena_new TBool 0 = (t, a') \<and> arena_ty_kind a' t = Some TBool \<and>
     (\<forall>u. arena_ty_kind a' u = Some TBool \<longrightarrow> u = t)"
proof -
  obtain t a' where al: "alloc_ty arena_new TBool 0 = (t, a')" by fastforce
  have "length (ar_types arena_new) < 2 ^ 32" by (simp add: arena_new_def)
  from alloc_ty_canonical [OF arena_new_ok this al] al show ?thesis by blast
qed

text \<open>
  Interned substitutions read back: the argument list of an interned substitution is
  the list that was interned, and the lists of earlier substitutions are unchanged, for
  lists of fewer than 65536 arguments (the length is kept as a \<open>u16\<close>).
\<close>

theorem intern_substitution_roundtrip:
  assumes "length args < 2 ^ 16" and "length (ar_substs a) < 2 ^ 32"
    and "intern_substitution a args = (s, a')"
  shows "arena_substitution_args a' s = Some args \<and>
    (\<forall>u as. arena_substitution_args a u = Some as \<longrightarrow> arena_substitution_args a' u = Some as)"
proof (cases "position args (ar_substs a)")
  case None
  then show ?thesis using assms
    by (auto simp: intern_substitution_def arena_substitution_args_def get_append unat_u32_of_nat
        split: if_splits) (auto simp: get_def split: if_splits)
next
  case (Some pos)
  have "pos < 2 ^ 32" using position_Some [OF Some] assms(2) by linarith
  then show ?thesis using Some assms position_Some [OF Some]
    by (auto simp: intern_substitution_def arena_substitution_args_def get_def unat_u32_of_nat)
qed

lemma intern_substitution_roundtrip_witness:
  "\<exists>s a'. intern_substitution arena_new [GaTy 3, GaTy 4] = (s, a') \<and>
     arena_substitution_args a' s = Some [GaTy 3, GaTy 4]"
proof -
  obtain s a' where i: "intern_substitution arena_new [GaTy 3, GaTy 4] = (s, a')" by fastforce
  have "length [GaTy 3, GaTy 4] < 2 ^ 16" "length (ar_substs arena_new) < 2 ^ 32"
    by (simp_all add: arena_new_def)
  from intern_substitution_roundtrip [OF this i] i show ?thesis by blast
qed

text \<open>A list of 65536 arguments is read back as the empty list.\<close>

lemma intern_substitution_truncates:
  assumes "length args = 2 ^ 16" and "intern_substitution a args = (s, a')"
  shows "arena_substitution_args a' s = Some []"
  using assms by (auto simp: intern_substitution_def arena_substitution_args_def split: option.splits)

subsection \<open>What needs drop glue\<close>

text \<open>
  The specification: the components a value of a type owns, and the types that carry a
  destructor of their own.  A type needs drop glue when it owns, transitively, a value of
  such a type.
\<close>

definition drop_kind :: "ty_ctx \<Rightarrow> ty_kind \<Rightarrow> bool" where
  "drop_kind ctx k =
    (case k of
       TString \<Rightarrow> True
     | TAdt adt_id _ \<Rightarrow> has_drop_impl ctx adt_id \<or>
         (case tc_adt_defs ctx adt_id of Some adt \<Rightarrow> ad_kind adt = AdtUnion | None \<Rightarrow> False)
     | _ \<Rightarrow> False)"

definition owned_kind :: "ty_ctx \<Rightarrow> ty_kind \<Rightarrow> ty list option" where
  "owned_kind ctx k =
    (case k of
       TSlice inner \<Rightarrow> Some [inner]
     | TArray inner _ \<Rightarrow> Some [inner]
     | TTuple substs \<Rightarrow> type_list ctx substs
     | TClosure _ substs \<Rightarrow> type_list ctx substs
     | TAdt adt_id _ \<Rightarrow>
         (case tc_adt_defs ctx adt_id of
            Some adt \<Rightarrow> Some (concat (map (\<lambda>v. map fd_ty (vd_fields v)) (ad_variants adt)))
          | None \<Rightarrow> Some [])
     | _ \<Rightarrow> Some [])"

definition drop_root :: "ty_ctx \<Rightarrow> ty \<Rightarrow> bool" where
  "drop_root ctx t \<longleftrightarrow> (\<exists>k. ty_kind_of ctx t = Some k \<and> drop_kind ctx k)"

definition owns :: "ty_ctx \<Rightarrow> ty \<Rightarrow> ty \<Rightarrow> bool" where
  "owns ctx t u \<longleftrightarrow> (\<exists>k us. ty_kind_of ctx t = Some k \<and> owned_kind ctx k = Some us \<and> u \<in> set us)"

lemma any_st_concat: "any_st (\<lambda>v. any_st f (g v)) xs s = any_st f (concat (map g xs)) s"
proof -
  have app: "any_st f (ys @ zs) s = (case any_st f ys s of None \<Rightarrow> None
      | Some (b, s') \<Rightarrow> if b then Some (True, s') else any_st f zs s')" for ys zs s
    by (induction ys arbitrary: s) (auto split: option.splits)
  show ?thesis
    by (induction xs arbitrary: s) (auto simp: app split: option.splits)
qed

lemma any_st_single: "any_st f [x] s = f x s"
  by (auto split: option.splits)

lemma any_st_False:
  assumes step: "\<And>x s r. f x s = Some (False, r) \<Longrightarrow> r = s" and "any_st f xs s = Some (False, r)"
  shows "r = s \<and> (\<forall>x \<in> set xs. f x s = Some (False, s))"
  using assms(2)
proof (induction xs arbitrary: s)
  case (Cons x xs)
  then obtain s' where s': "f x s = Some (False, s')" "any_st f xs s' = Some (False, r)"
    by (auto split: option.splits if_splits)
  then have "s' = s" by (simp add: step)
  with s' Cons.IH show ?case by auto
qed simp

lemma any_st_True: "any_st f xs s = Some (True, r) \<Longrightarrow> \<exists>x \<in> set xs. \<exists>s' r'. f x s' = Some (True, r')"
proof (induction xs arbitrary: s)
  case (Cons x xs)
  then obtain b s' where s': "f x s = Some (b, s')" by (auto split: option.splits)
  show ?case
  proof (cases b)
    case True
    then show ?thesis using s' by auto
  next
    case False
    then have "any_st f xs s' = Some (True, r)" using Cons.prems s' by simp
    then show ?thesis using Cons.IH by auto
  qed
qed simp

lemma any_st_total:
  assumes "\<And>x s. x \<in> set xs \<Longrightarrow> P s \<Longrightarrow> \<exists>b s'. f x s = Some (b, s') \<and> (b \<or> P s')" and "P s"
  shows "\<exists>b s'. any_st f xs s = Some (b, s') \<and> (b \<or> P s')"
  using assms
proof (induction xs arbitrary: s)
  case (Cons x xs)
  obtain b s' where f: "f x s = Some (b, s')" "b \<or> P s'"
    using Cons.prems(1) [of x s] Cons.prems(2) by auto
  show ?case
  proof (cases b)
    case True
    then show ?thesis using f by auto
  next
    case False
    have "\<exists>b s''. any_st f xs s' = Some (b, s'') \<and> (b \<or> P s'')"
      by (rule Cons.IH, rule Cons.prems(1)) (use f False in simp_all)
    then show ?thesis using f False by simp
  qed
qed auto

text \<open>One level of \<open>needs_drop_rec\<close> in terms of the specification.\<close>

lemma needs_drop_rec_unfold:
  "needs_drop_rec (Suc n) ctx t visited =
    (case is_copy n ctx t of
       None \<Rightarrow> None
     | Some c \<Rightarrow>
        if c \<or> t \<in> set visited then Some (False, visited)
        else (case ty_kind_of ctx t of
                None \<Rightarrow> None
              | Some k \<Rightarrow>
                  if drop_kind ctx k
                  then Some (True, if k = TString then filter (\<lambda>x. x \<noteq> t) visited else t # visited)
                  else (case owned_kind ctx k of
                          None \<Rightarrow> None
                        | Some us \<Rightarrow> map_option (\<lambda>(b, v). (b, filter (\<lambda>x. x \<noteq> t) v))
                                       (any_st (needs_drop_rec n ctx) us (t # visited)))))"
  by (simp add: drop_kind_def owned_kind_def any_st_concat any_st_single Let_def del: any_st.simps(2)
      split: option.splits bool.splits ty_kind.splits)

declare needs_drop_rec.simps(2) [simp del]

text \<open>The shape of a call that reaches the components.\<close>

lemma needs_drop_rec_cases:
  assumes "needs_drop_rec (Suc n) ctx t v = Some (b, v')"
  obtains (stop) "\<not> b" "v' = v" "is_copy n ctx t = Some True \<or> t \<in> set v"
  | (root) k where "b" "ty_kind_of ctx t = Some k" "drop_kind ctx k"
  | (inside) k us r where "ty_kind_of ctx t = Some k" "\<not> drop_kind ctx k" "owned_kind ctx k = Some us"
      "t \<notin> set v" "any_st (needs_drop_rec n ctx) us (t # v) = Some (b, r)" "v' = filter (\<lambda>x. x \<noteq> t) r"
proof -
  obtain c where c: "is_copy n ctx t = Some c"
    using assms unfolding needs_drop_rec_unfold by (cases "is_copy n ctx t") simp_all
  show ?thesis
  proof (cases "c \<or> t \<in> set v")
    case True
    then show ?thesis using assms c stop unfolding needs_drop_rec_unfold by auto
  next
    case False
    then obtain k where k: "ty_kind_of ctx t = Some k"
      using assms c unfolding needs_drop_rec_unfold by (cases "ty_kind_of ctx t") simp_all
    show ?thesis
    proof (cases "drop_kind ctx k")
      case True
      then show ?thesis using assms c False k root unfolding needs_drop_rec_unfold by auto
    next
      case nd: False
      then obtain us where us: "owned_kind ctx k = Some us"
        using assms c False k unfolding needs_drop_rec_unfold by (cases "owned_kind ctx k") simp_all
      then obtain r where "any_st (needs_drop_rec n ctx) us (t # v) = Some (b, r)"
        "v' = filter (\<lambda>x. x \<noteq> t) r"
        using assms c False k nd unfolding needs_drop_rec_unfold by auto
      then show ?thesis using inside k nd us False by blast
    qed
  qed
qed

lemma needs_drop_rec_False: "needs_drop_rec n ctx t v = Some (False, v') \<Longrightarrow> v' = v"
proof (induction n arbitrary: t v v')
  case (Suc n)
  from Suc.prems show ?case
  proof (cases rule: needs_drop_rec_cases)
    case (inside k us r)
    have ih: "\<And>x s r. needs_drop_rec n ctx x s = Some (False, r) \<Longrightarrow> r = s" by (rule Suc.IH)
    have "r = t # v \<and> (\<forall>x \<in> set us. needs_drop_rec n ctx x (t # v) = Some (False, t # v))"
      by (rule any_st_False [OF _ inside(5)]) (rule ih)
    then show ?thesis using inside(4,6) by (auto intro!: filter_True)
  qed simp_all
qed simp

lemma needs_drop_rec_sound:
  "needs_drop_rec n ctx t v = Some (True, v') \<Longrightarrow> \<exists>u. (owns ctx)\<^sup>*\<^sup>* t u \<and> drop_root ctx u"
proof (induction n arbitrary: t v v')
  case (Suc n)
  from Suc.prems show ?case
  proof (cases rule: needs_drop_rec_cases)
    case (root k)
    then have "drop_root ctx t" unfolding drop_root_def by blast
    then show ?thesis by blast
  next
    case (inside k us r)
    from any_st_True [OF inside(5)] obtain x s r' where
      x: "x \<in> set us" "needs_drop_rec n ctx x s = Some (True, r')" by blast
    have o: "owns ctx t x" unfolding owns_def using inside(1,3) x(1) by blast
    from Suc.IH [OF x(2)] obtain u where "(owns ctx)\<^sup>*\<^sup>* x u" "drop_root ctx u" by blast
    then show ?thesis using converse_rtranclp_into_rtranclp [of "owns ctx", OF o] by blast
  qed simp
qed simp

text \<open>A \<open>Copy\<close> type owns only \<open>Copy\<close> types and has no destructor.\<close>

lemma all_opt_True: "all_opt f xs = Some True \<Longrightarrow> x \<in> set xs \<Longrightarrow> f x = Some True"
  by (induction xs) (auto split: option.splits if_splits)

lemma is_copy_owns:
  assumes "is_copy (Suc n) ctx t = Some True" "owns ctx t u"
  shows "is_copy n ctx u = Some True"
  using assms by (auto simp: owns_def owned_kind_def type_list_def dest: all_opt_True
      split: option.splits ty_kind.splits)

lemma is_copy_not_root:
  assumes "is_copy (Suc n) ctx t = Some True"
  shows "\<not> drop_root ctx t"
proof
  assume "drop_root ctx t"
  then obtain k where k: "ty_kind_of ctx t = Some k" "drop_kind ctx k" unfolding drop_root_def by blast
  with assms show False by (cases k) (simp_all add: drop_kind_def)
qed

lemma is_copy_no_root:
  "is_copy n ctx t = Some True \<Longrightarrow> (owns ctx)\<^sup>*\<^sup>* t u \<Longrightarrow> \<not> drop_root ctx u"
proof (induction n arbitrary: t)
  case (Suc n)
  show ?case
  proof (cases "t = u")
    case True
    then show ?thesis using is_copy_not_root [OF Suc.prems(1)] by blast
  next
    case False
    from Suc.prems(2) obtain x where x: "owns ctx t x" "(owns ctx)\<^sup>*\<^sup>* x u"
      by (cases rule: converse_rtranclpE) (use False in auto)
    show ?thesis by (rule Suc.IH [OF is_copy_owns [OF Suc.prems(1) x(1)] x(2)])
  qed
qed simp

text \<open>Paths that avoid a set of types.\<close>

definition owns_avoiding :: "ty_ctx \<Rightarrow> ty set \<Rightarrow> ty \<Rightarrow> ty \<Rightarrow> bool" where
  "owns_avoiding ctx V = (\<lambda>a b. owns ctx a b \<and> b \<notin> V)\<^sup>*\<^sup>*"

lemma owns_avoiding_split:
  assumes "owns_avoiding ctx V t u" "t \<noteq> u"
  shows "\<exists>x. owns ctx t x \<and> x \<notin> insert t V \<and> owns_avoiding ctx (insert t V) x u"
  using assms unfolding owns_avoiding_def
proof (induction rule: rtranclp_induct)
  case (step y z)
  show ?case
  proof (cases "y = t")
    case True
    then show ?thesis using step by blast
  next
    case False
    then obtain x where x: "owns ctx t x" "x \<notin> insert t V"
      "(\<lambda>a b. owns ctx a b \<and> b \<notin> insert t V)\<^sup>*\<^sup>* x y" using step.IH by blast
    have "(\<lambda>a b. owns ctx a b \<and> b \<notin> insert t V)\<^sup>*\<^sup>* x z"
      using x(3) by (rule rtranclp.rtrancl_into_rtrancl) (use step in auto)
    then show ?thesis using x by blast
  qed
qed simp

lemma owns_avoiding_owns: "owns_avoiding ctx V t u \<Longrightarrow> (owns ctx)\<^sup>*\<^sup>* t u"
  unfolding owns_avoiding_def by (rule rtranclp_mono [THEN predicate2D, rotated]) auto

lemma needs_drop_rec_complete:
  "needs_drop_rec n ctx t v = Some (False, v') \<Longrightarrow> t \<notin> set v \<Longrightarrow> owns_avoiding ctx (set v) t u
   \<Longrightarrow> \<not> drop_root ctx u"
proof (induction n arbitrary: t v v')
  case (Suc n)
  from Suc.prems(1) show ?case
  proof (cases rule: needs_drop_rec_cases)
    case stop
    then have "is_copy n ctx t = Some True" using Suc.prems(2) by blast
    then show ?thesis by (rule is_copy_no_root [OF _ owns_avoiding_owns [OF Suc.prems(3)]])
  next
    case (inside k us r)
    have all: "r = t # v \<and> (\<forall>x \<in> set us. needs_drop_rec n ctx x (t # v) = Some (False, t # v))"
      by (rule any_st_False [OF _ inside(5)]) (rule needs_drop_rec_False)
    show ?thesis
    proof (cases "t = u")
      case True
      then show ?thesis using inside(1,2) unfolding drop_root_def by auto
    next
      case False
      then obtain x where x: "owns ctx t x" "x \<notin> set (t # v)" "owns_avoiding ctx (set (t # v)) x u"
        using owns_avoiding_split [OF Suc.prems(3)] by auto
      have "x \<in> set us" using x(1) inside(1,3) unfolding owns_def by auto
      then have "needs_drop_rec n ctx x (t # v) = Some (False, t # v)" using all by blast
      then show ?thesis by (rule Suc.IH [OF _ x(2,3)])
    qed
  qed simp
qed simp


text \<open>
  A closed context: every handle in a kind or a field definition is in the arena, and the
  element types of arrays and tuples were interned before the type itself.
\<close>

definition valid_ty :: "ty_ctx \<Rightarrow> ty \<Rightarrow> bool" where
  "valid_ty ctx t \<longleftrightarrow> unat t < length (ar_types (tc_arena ctx))"

definition element_tys :: "ty_ctx \<Rightarrow> ty_kind \<Rightarrow> ty list" where
  "element_tys ctx k =
    (case k of TArray inner _ \<Rightarrow> [inner]
     | TTuple substs \<Rightarrow> (case type_list ctx substs of Some ts \<Rightarrow> ts | None \<Rightarrow> [])
     | _ \<Rightarrow> [])"

definition ctx_closed :: "ty_ctx \<Rightarrow> bool" where
  "ctx_closed ctx \<longleftrightarrow> (\<forall>t k. ty_kind_of ctx t = Some k \<longrightarrow>
     (\<exists>us. owned_kind ctx k = Some us \<and> list_all (valid_ty ctx) us) \<and>
     list_all (\<lambda>u. u < t) (element_tys ctx k))"

lemma valid_ty_kind: "valid_ty ctx t \<longleftrightarrow> (\<exists>k. ty_kind_of ctx t = Some k)"
  by (auto simp: valid_ty_def ty_kind_of_def arena_ty_kind_def get_def)

lemma all_opt_total: "(\<And>x. x \<in> set xs \<Longrightarrow> \<exists>b. f x = Some b) \<Longrightarrow> \<exists>b. all_opt f xs = Some b"
  by (induction xs) (auto, metis option.simps(5))

lemma is_copy_total:
  assumes "ctx_closed ctx"
  shows "valid_ty ctx t \<Longrightarrow> unat t < n \<Longrightarrow> \<exists>b. is_copy n ctx t = Some b"
proof (induction n arbitrary: t)
  case (Suc n)
  then obtain k where k: "ty_kind_of ctx t = Some k" by (auto simp: valid_ty_kind)
  with assms obtain us where us: "owned_kind ctx k = Some us" "list_all (valid_ty ctx) us"
    "list_all (\<lambda>u. u < t) (element_tys ctx k)" unfolding ctx_closed_def by blast
  have ih: "\<exists>b. is_copy n ctx u = Some b" if "u \<in> set us" "u < t" for u
  proof (rule Suc.IH)
    show "valid_ty ctx u" using us(2) that(1) by (simp add: list_all_iff)
    show "unat u < n" using that(2) Suc.prems(2) by (simp add: word_less_nat_alt)
  qed
  show ?case
  proof (cases k)
    case (TTuple substs)
    then have tl: "type_list ctx substs = Some us" using us(1) by (simp add: owned_kind_def)
    then obtain args where args: "substitution_args ctx substs = Some args" "us = type_args args"
      by (auto simp: type_list_def)
    have "\<exists>b. all_opt (is_copy n ctx) us = Some b"
      by (rule all_opt_total, rule ih) (use us(3) TTuple tl in \<open>simp_all add: element_tys_def list_all_iff\<close>)
    then show ?thesis using k TTuple args by simp
  next
    case (TArray inner len)
    then have "us = [inner]" "inner < t" using us by (auto simp: owned_kind_def element_tys_def)
    then show ?thesis using ih [of inner] k TArray by simp
  qed (use k in auto)
qed simp

lemma valid_tys_bound:
  assumes "distinct v" "list_all (valid_ty ctx) v"
  shows "length v \<le> length (ar_types (tc_arena ctx))"
proof -
  have "inj_on unat (set v)" by (rule inj_onI) (rule unsigned_word_eqI)
  then have "card (unat ` set v) = length v"
    using assms(1) by (simp add: card_image distinct_card)
  moreover have "unat ` set v \<subseteq> {..<length (ar_types (tc_arena ctx))}"
  proof
    fix i assume "i \<in> unat ` set v"
    then obtain x where "x \<in> set v" "i = unat x" by blast
    then show "i \<in> {..<length (ar_types (tc_arena ctx))}"
      using assms(2) by (simp add: list_all_iff valid_ty_def)
  qed
  then have "card (unat ` set v) \<le> length (ar_types (tc_arena ctx))"
    using card_mono [OF finite_lessThan] by fastforce
  ultimately show ?thesis by simp
qed

lemma needs_drop_rec_total:
  assumes "ctx_closed ctx"
  shows "valid_ty ctx t \<Longrightarrow> distinct v \<Longrightarrow> list_all (valid_ty ctx) v \<Longrightarrow>
    2 * length (ar_types (tc_arena ctx)) + 1 \<le> n + length v \<Longrightarrow> \<exists>r. needs_drop_rec n ctx t v = Some r"
proof (induction n arbitrary: t v)
  case 0
  then show ?case using valid_tys_bound [of v ctx] by simp
next
  case (Suc n)
  from Suc.prems(1) obtain k where k: "ty_kind_of ctx t = Some k" by (auto simp: valid_ty_kind)
  with assms obtain us where us: "owned_kind ctx k = Some us" "list_all (valid_ty ctx) us"
    unfolding ctx_closed_def by blast
  have "unat t < n"
    using Suc.prems valid_tys_bound [OF Suc.prems(2,3)] by (simp add: valid_ty_def)
  then obtain c where c: "is_copy n ctx t = Some c" using is_copy_total [OF assms Suc.prems(1)] by blast
  show ?case
  proof (cases "c \<or> t \<in> set v \<or> drop_kind ctx k")
    case True
    then show ?thesis using c k by (auto simp: needs_drop_rec_unfold)
  next
    case False
    have "\<exists>b s. any_st (needs_drop_rec n ctx) us (t # v) = Some (b, s) \<and> (b \<or> s = t # v)"
    proof (rule any_st_total)
      fix x s assume x: "x \<in> set us" "s = t # v"
      have "\<exists>r. needs_drop_rec n ctx x (t # v) = Some r"
        by (rule Suc.IH) (use x us False Suc.prems in \<open>auto simp: list_all_iff\<close>)
      then obtain b s' where r: "needs_drop_rec n ctx x (t # v) = Some (b, s')" by fastforce
      then have "b \<or> s' = t # v" using needs_drop_rec_False [of n ctx x "t # v" s'] by (cases b) simp_all
      then show "\<exists>b s'. needs_drop_rec n ctx x s = Some (b, s') \<and> (b \<or> s' = t # v)"
        using x(2) r by blast
    qed simp
    then show ?thesis using c k us False by (auto simp: needs_drop_rec_unfold)
  qed
qed

text \<open>
  C29.  \<open>needs_drop\<close> terminates on recursive data types: in a closed context a recursion
  depth of twice the number of interned types plus one is enough for every type.
\<close>

theorem needs_drop_terminates:
  assumes "ctx_closed ctx" and "valid_ty ctx t" and "2 * length (ar_types (tc_arena ctx)) + 1 \<le> n"
  shows "\<exists>b. needs_drop n ctx t = Some b"
  using needs_drop_rec_total [OF assms(1,2), of "[]" n] assms(3) by (auto simp: needs_drop_def)

text \<open>
  A context with a recursive data type: \<open>struct List { head: String, tail: [List; 1] }\<close>.
  Handle 0 is the string type, 1 the data type itself, 2 the array of it.
\<close>

definition example_ctx :: ty_ctx where
  "example_ctx = \<lparr>tc_arena = \<lparr>ar_types = [TString, TAdt 7 \<lparr>sub_index = 0, sub_len = 0\<rparr>,
        TArray 1 \<lparr>ct_kind = CkUint 1, ct_ty = Ty_USIZE\<rparr>, TBool],
      ar_flags = [0, 0, 0, 0], ar_substs = [], ar_index = (\<lambda>_. None)\<rparr>,
    tc_adt_defs = (\<lambda>i. if i = 7 then Some \<lparr>ad_kind = AdtStruct, ad_fields = [],
        ad_variants = [\<lparr>vd_name = 0, vd_fields = [\<lparr>fd_name = 1, fd_ty = 2\<rparr>, \<lparr>fd_name = 2, fd_ty = 0\<rparr>],
                         vd_style = StyleStruct\<rparr>], ad_generic_params = []\<rparr> else None),
    tc_adt_reprs = (\<lambda>_. None), tc_adt_by_name = (\<lambda>_. None), tc_drop_impls = {}, tc_interior_mutable = {},
    tc_variant_types = (\<lambda>_. None), tc_opaque_hidden = (\<lambda>_. None), tc_deref_targets = (\<lambda>_. None),
    tc_deref_templates = (\<lambda>_. None), tc_negative_impls = {}, tc_manual_impls = {},
    tc_trait_defs = (\<lambda>_. None)\<rparr>"


lemma example_ctx_closed: "ctx_closed example_ctx"
proof -
  have "k = TString \<and> t = 0 \<or> k = TAdt 7 \<lparr>sub_index = 0, sub_len = 0\<rparr> \<and> t = 1 \<or>
      k = TArray 1 \<lparr>ct_kind = CkUint 1, ct_ty = Ty_USIZE\<rparr> \<and> t = 2 \<or> k = TBool \<and> t = 3"
    if "ty_kind_of example_ctx t = Some k" for t k
  proof -
    have "unat t < 4" "k = ar_types (tc_arena example_ctx) ! unat t"
      using that by (auto simp: ty_kind_of_def arena_ty_kind_def get_def example_ctx_def split: if_splits)
    then have "unat t \<in> {0, 1, 2, 3}" by auto
    then have "t = 0 \<or> t = 1 \<or> t = 2 \<or> t = 3"
      by (simp add: word_unat_eq_iff)
    then show ?thesis using \<open>k = _\<close> by (auto simp: example_ctx_def)
  qed
  then show ?thesis
    unfolding ctx_closed_def
    by (fastforce simp: owned_kind_def element_tys_def valid_ty_def example_ctx_def)
qed

lemma needs_drop_terminates_witness: "\<exists>b. needs_drop 9 example_ctx 1 = Some b"
  by (rule needs_drop_terminates [OF example_ctx_closed])
     (simp_all add: valid_ty_def example_ctx_def)

end
