(* ===== verification/Infer.thy ===== *)
theory Infer
  imports Type_Context "HOL-Library.Monad_Syntax"
begin

text \<open>
  Type inference of \<^verbatim>\<open>crates/glyim-solve/src/infer.rs\<close>: the table of inference variables, shallow resolution with its
  depth limit and cycle check, the occurs check, unification and full resolution.  Diagnostics that the code pushes through
  a \<open>RefCell\<close> are a field of the table that is passed along.  \<open>None\<close> is a panic (an unknown type handle or variable) or
  a recursion deeper than the fuel argument.
\<close>

subsection \<open>The table\<close>

datatype variable_kind = VkGeneral | VkInteger | VkFloat

record type_variable =
  tv_universe :: u32
  tv_value :: "ty option"
  tv_kind :: variable_kind

record region_variable =
  rv_universe :: u32
  rv_value :: "region option"

text \<open>The messages of the diagnostics; a type stands for its printed form.\<close>

datatype infer_message =
    InferText string
  | ExpectedInteger ty
  | ExpectedFloat ty
  | InfiniteType ty ty
  | ParamMismatch u32 u32
  | MutabilityMismatch mutability mutability
  | TypeMismatch ty ty
  | RegionMismatch region region
  | PredicateCount nat nat
  | TraitMismatch u32 u32
  | ConstMismatch ty_const ty_const
  | PredicateMismatch predicate predicate

record infer_error =
  ie_span :: span
  ie_message :: infer_message

datatype constraint =
    TypeEq ty ty
  | RegionEq region region
  | RegionOutlives region region
  | TypeOutlives ty region

record inference_snapshot =
  is_ty_vars :: "type_variable list"
  is_int_vars :: "type_variable list"
  is_float_vars :: "type_variable list"
  is_region_vars :: "region_variable list"
  is_universe :: u32

record inference_table =
  it_ty_vars :: "type_variable list"
  it_int_vars :: "type_variable list"
  it_float_vars :: "type_variable list"
  it_region_vars :: "region_variable list"
  it_universe :: u32
  it_diagnostics :: "infer_error list"

definition MAX_RESOLVE_DEPTH :: nat where
  "MAX_RESOLVE_DEPTH = 256"

definition infer_new :: inference_table where
  "infer_new = \<lparr>it_ty_vars = [], it_int_vars = [], it_float_vars = [], it_region_vars = [], it_universe = 0, it_diagnostics = []\<rparr>"

definition take_diagnostics :: "inference_table \<Rightarrow> infer_error list \<times> inference_table" where
  "take_diagnostics tab = (it_diagnostics tab, tab\<lparr>it_diagnostics := []\<rparr>)"

definition infer_snapshot :: "inference_table \<Rightarrow> inference_snapshot" where
  "infer_snapshot tab = \<lparr>is_ty_vars = it_ty_vars tab, is_int_vars = it_int_vars tab, is_float_vars = it_float_vars tab,
     is_region_vars = it_region_vars tab, is_universe = it_universe tab\<rparr>"

definition rollback_to :: "inference_snapshot \<Rightarrow> inference_table \<Rightarrow> inference_table" where
  "rollback_to s tab = tab\<lparr>it_ty_vars := is_ty_vars s, it_int_vars := is_int_vars s, it_float_vars := is_float_vars s,
     it_region_vars := is_region_vars s, it_universe := is_universe s\<rparr>"

definition new_ty_var :: "inference_table \<Rightarrow> u32 \<times> inference_table" where
  "new_ty_var tab = (word_of_nat (length (it_ty_vars tab)),
     tab\<lparr>it_ty_vars := it_ty_vars tab @ [\<lparr>tv_universe = it_universe tab, tv_value = None, tv_kind = VkGeneral\<rparr>]\<rparr>)"

definition new_int_var :: "inference_table \<Rightarrow> u32 \<times> inference_table" where
  "new_int_var tab = (word_of_nat (length (it_int_vars tab)),
     tab\<lparr>it_int_vars := it_int_vars tab @ [\<lparr>tv_universe = it_universe tab, tv_value = None, tv_kind = VkInteger\<rparr>]\<rparr>)"

definition new_float_var :: "inference_table \<Rightarrow> u32 \<times> inference_table" where
  "new_float_var tab = (word_of_nat (length (it_float_vars tab)),
     tab\<lparr>it_float_vars := it_float_vars tab @ [\<lparr>tv_universe = it_universe tab, tv_value = None, tv_kind = VkFloat\<rparr>]\<rparr>)"

definition new_region_var :: "inference_table \<Rightarrow> u32 \<times> inference_table" where
  "new_region_var tab = (word_of_nat (length (it_region_vars tab)),
     tab\<lparr>it_region_vars := it_region_vars tab @ [\<lparr>rv_universe = it_universe tab, rv_value = None\<rparr>]\<rparr>)"

definition create_universe :: "inference_table \<Rightarrow> u32 \<times> inference_table" where
  "create_universe tab = (it_universe tab + 1, tab\<lparr>it_universe := it_universe tab + 1\<rparr>)"

text \<open>The value of a variable, if it is declared and bound.\<close>

definition probe_in :: "type_variable list \<Rightarrow> u32 \<Rightarrow> ty option" where
  "probe_in vars v = (case get vars (unat v) of Some tv \<Rightarrow> tv_value tv | None \<Rightarrow> None)"

definition probe_ty_var :: "inference_table \<Rightarrow> u32 \<Rightarrow> ty option" where
  "probe_ty_var tab v = probe_in (it_ty_vars tab) v"

definition probe_int_var :: "inference_table \<Rightarrow> u32 \<Rightarrow> ty option" where
  "probe_int_var tab v = probe_in (it_int_vars tab) v"

definition probe_float_var :: "inference_table \<Rightarrow> u32 \<Rightarrow> ty option" where
  "probe_float_var tab v = probe_in (it_float_vars tab) v"

text \<open>Binding a variable; one that is not declared panics.\<close>

definition bind_in :: "u32 \<Rightarrow> ty \<Rightarrow> type_variable list \<Rightarrow> type_variable list option" where
  "bind_in v t vars = map_option (\<lambda>tv. vars[unat v := tv\<lparr>tv_value := Some t\<rparr>]) (get vars (unat v))"

definition bind_ty_var :: "u32 \<Rightarrow> ty \<Rightarrow> inference_table \<Rightarrow> inference_table option" where
  "bind_ty_var v t tab = map_option (\<lambda>vars. tab\<lparr>it_ty_vars := vars\<rparr>) (bind_in v t (it_ty_vars tab))"

definition bind_int_var :: "u32 \<Rightarrow> ty \<Rightarrow> inference_table \<Rightarrow> inference_table option" where
  "bind_int_var v t tab = map_option (\<lambda>vars. tab\<lparr>it_int_vars := vars\<rparr>) (bind_in v t (it_int_vars tab))"

definition bind_float_var :: "u32 \<Rightarrow> ty \<Rightarrow> inference_table \<Rightarrow> inference_table option" where
  "bind_float_var v t tab = map_option (\<lambda>vars. tab\<lparr>it_float_vars := vars\<rparr>) (bind_in v t (it_float_vars tab))"

definition push_diagnostic :: "infer_message \<Rightarrow> inference_table \<Rightarrow> inference_table" where
  "push_diagnostic m tab = tab\<lparr>it_diagnostics := it_diagnostics tab @ [\<lparr>ie_span = span_DUMMY, ie_message = m\<rparr>]\<rparr>"

subsection \<open>Shallow resolution\<close>

function resolve_ty_shallow_depth ::
  "inference_table \<Rightarrow> ty_ctx \<Rightarrow> ty \<Rightarrow> nat \<Rightarrow> u32 list \<Rightarrow> (ty \<times> inference_table) option" where
  "resolve_ty_shallow_depth tab ctx t depth visited =
    (if MAX_RESOLVE_DEPTH < depth
     then Some (Ty_ERROR, push_diagnostic (InferText ''resolution depth limit exceeded'') tab)
     else (case ty_kind_of ctx t of
        None \<Rightarrow> None
      | Some k \<Rightarrow>
         (case k of
            TInfer (IvTy v) \<Rightarrow>
              if v \<in> set visited
              then Some (Ty_ERROR, push_diagnostic (InferText ''infinite type cycle detected while resolving inference variables'') tab)
              else (case probe_ty_var tab v of
                      Some value \<Rightarrow> resolve_ty_shallow_depth tab ctx value (depth + 1) (v # visited)
                    | None \<Rightarrow> Some (t, tab))
          | TInfer (IvInt v) \<Rightarrow>
              (case probe_int_var tab v of
                 Some value \<Rightarrow> resolve_ty_shallow_depth tab ctx value (depth + 1) visited
               | None \<Rightarrow> Some (t, tab))
          | TInfer (IvFloat v) \<Rightarrow>
              (case probe_float_var tab v of
                 Some value \<Rightarrow> resolve_ty_shallow_depth tab ctx value (depth + 1) visited
               | None \<Rightarrow> Some (t, tab))
          | _ \<Rightarrow> Some (t, tab))))"
  by pat_completeness auto
termination
  by (relation "measure (\<lambda>(tab, ctx, t, depth, visited). Suc MAX_RESOLVE_DEPTH - depth)") auto

declare resolve_ty_shallow_depth.simps [simp del]

definition resolve_ty_shallow :: "inference_table \<Rightarrow> ty_ctx \<Rightarrow> ty \<Rightarrow> (ty \<times> inference_table) option" where
  "resolve_ty_shallow tab ctx t = resolve_ty_shallow_depth tab ctx t 0 []"

subsection \<open>The occurs check\<close>

text \<open>The types a check descends into, in the order of the code.\<close>

definition occurs_parts :: "ty_ctx \<Rightarrow> ty_kind \<Rightarrow> ty list option" where
  "occurs_parts ctx k =
    (case k of
       TRef _ inner _ \<Rightarrow> Some [inner]
     | TRawPtr inner _ \<Rightarrow> Some [inner]
     | TSlice inner \<Rightarrow> Some [inner]
     | TArray inner _ \<Rightarrow> Some [inner]
     | TAdt _ substs \<Rightarrow> type_list ctx substs
     | TFnDef _ substs \<Rightarrow> type_list ctx substs
     | TClosure _ substs \<Rightarrow> type_list ctx substs
     | TTuple substs \<Rightarrow> type_list ctx substs
     | TOpaque _ substs \<Rightarrow> type_list ctx substs
     | TFnPtr sig \<Rightarrow> map_option (\<lambda>ts. ts @ [fs_output sig]) (type_list ctx (fs_inputs sig))
     | _ \<Rightarrow> Some [])"

primrec occurs :: "nat \<Rightarrow> ty_ctx \<Rightarrow> u32 \<Rightarrow> ty \<Rightarrow> inference_table \<Rightarrow> (bool \<times> inference_table) option" where
  "occurs 0 ctx var t tab = None"
| "occurs (Suc n) ctx var t tab =
    do {
      (t', tab') \<leftarrow> resolve_ty_shallow tab ctx t;
      k \<leftarrow> ty_kind_of ctx t';
      if k = TInfer (IvTy var) then Some (True, tab')
      else do {
        parts \<leftarrow> occurs_parts ctx k;
        any_st (occurs n ctx var) parts tab'
      }
    }"

subsection \<open>Unification\<close>

type_synonym unify_result = "infer_error list + constraint list"

definition unify_fail :: "span \<Rightarrow> infer_message \<Rightarrow> unify_result" where
  "unify_fail sp m = Inl [\<lparr>ie_span = sp, ie_message = m\<rparr>]"

text \<open>Pairs of types at the same position; \<open>None\<close> when some position has other arguments.\<close>

fun arg_pairs :: "generic_arg list \<Rightarrow> generic_arg list \<Rightarrow> (ty \<times> ty) list option" where
  "arg_pairs (GaTy t # as) (GaTy u # bs) = map_option ((#) (t, u)) (arg_pairs as bs)"
| "arg_pairs (_ # _) (_ # _) = None"
| "arg_pairs _ _ = Some []"

text \<open>Calls in sequence, with the constraints of all of them or the error of the first that fails.\<close>

fun unify_seq :: "(inference_table \<Rightarrow> (unify_result \<times> inference_table) option) list \<Rightarrow> inference_table \<Rightarrow>
    (unify_result \<times> inference_table) option" where
  "unify_seq [] tab = Some (Inr [], tab)"
| "unify_seq (f # fs) tab =
    (case f tab of
       None \<Rightarrow> None
     | Some (Inl e, tab') \<Rightarrow> Some (Inl e, tab')
     | Some (Inr cs, tab') \<Rightarrow>
        (case unify_seq fs tab' of
           None \<Rightarrow> None
         | Some (Inl e, tab'') \<Rightarrow> Some (Inl e, tab'')
         | Some (Inr ds, tab'') \<Rightarrow> Some (Inr (cs @ ds), tab'')))"

definition emit_constraints :: "constraint list \<Rightarrow> inference_table \<Rightarrow> (unify_result \<times> inference_table) option" where
  "emit_constraints cs tab = Some (Inr cs, tab)"

definition emit_error :: "span \<Rightarrow> infer_message \<Rightarrow> inference_table \<Rightarrow> (unify_result \<times> inference_table) option" where
  "emit_error sp m tab = Some (unify_fail sp m, tab)"

definition bound_result :: "inference_table option \<Rightarrow> (unify_result \<times> inference_table) option" where
  "bound_result r = map_option (\<lambda>tab. (Inr [], tab)) r"

fun as_ty_var :: "ty_kind \<Rightarrow> u32 option" where
  "as_ty_var (TInfer (IvTy v)) = Some v"
| "as_ty_var _ = None"

fun as_int_var :: "ty_kind \<Rightarrow> u32 option" where
  "as_int_var (TInfer (IvInt v)) = Some v"
| "as_int_var _ = None"

fun as_float_var :: "ty_kind \<Rightarrow> u32 option" where
  "as_float_var (TInfer (IvFloat v)) = Some v"
| "as_float_var _ = None"

text \<open>An integer variable \<open>var\<close>, whose own type is \<open>int_ty\<close>, against the kind of the other side: the variable is
  bound to the second type, whichever side it is on.\<close>

definition unify_int :: "span \<Rightarrow> ty \<Rightarrow> u32 \<Rightarrow> ty \<Rightarrow> ty_kind \<Rightarrow> inference_table \<Rightarrow> (unify_result \<times> inference_table) option" where
  "unify_int sp b var int_ty other tab =
    (case other of
       TInt _ \<Rightarrow> bound_result (bind_int_var var b tab)
     | TInfer (IvInt _) \<Rightarrow> bound_result (bind_int_var var b tab)
     | TError \<Rightarrow> bound_result (bind_int_var var b tab)
     | TInfer (IvTy general) \<Rightarrow> bound_result (bind_ty_var general int_ty tab)
     | _ \<Rightarrow> emit_error sp (ExpectedInteger b) tab)"

definition unify_float :: "span \<Rightarrow> ty \<Rightarrow> u32 \<Rightarrow> ty \<Rightarrow> ty_kind \<Rightarrow> inference_table \<Rightarrow> (unify_result \<times> inference_table) option" where
  "unify_float sp b var float_ty other tab =
    (case other of
       TFloat _ \<Rightarrow> bound_result (bind_float_var var b tab)
     | TInfer (IvFloat _) \<Rightarrow> bound_result (bind_float_var var b tab)
     | TError \<Rightarrow> bound_result (bind_float_var var b tab)
     | TInfer (IvTy general) \<Rightarrow> bound_result (bind_ty_var general float_ty tab)
     | _ \<Rightarrow> emit_error sp (ExpectedFloat b) tab)"

text \<open>What a variable of a kind may be bound to.\<close>

definition kind_accepts :: "variable_kind \<Rightarrow> ty_kind \<Rightarrow> bool" where
  "kind_accepts vk other =
    (case vk of
       VkGeneral \<Rightarrow> True
     | VkInteger \<Rightarrow> (case other of TInt _ \<Rightarrow> True | TError \<Rightarrow> True | TInfer (IvInt _) \<Rightarrow> True | TInfer (IvTy _) \<Rightarrow> True | _ \<Rightarrow> False)
     | VkFloat \<Rightarrow> (case other of TFloat _ \<Rightarrow> True | TError \<Rightarrow> True | TInfer (IvFloat _) \<Rightarrow> True | TInfer (IvTy _) \<Rightarrow> True | _ \<Rightarrow> False))"

definition unify_var ::
  "nat \<Rightarrow> ty_ctx \<Rightarrow> span \<Rightarrow> ty \<Rightarrow> ty \<Rightarrow> u32 \<Rightarrow> ty \<Rightarrow> ty_kind \<Rightarrow> inference_table \<Rightarrow> (unify_result \<times> inference_table) option" where
  "unify_var n ctx sp a b var other_ty other tab =
    do {
      tv \<leftarrow> get (it_ty_vars tab) (unat var);
      if kind_accepts (tv_kind tv) other
      then do {
        (occ, tab') \<leftarrow> occurs n ctx var other_ty tab;
        if occ then emit_error sp (InfiniteType a b) tab'
        else bound_result (bind_ty_var var other_ty tab')
      }
      else emit_error sp (if tv_kind tv = VkInteger then ExpectedInteger b else ExpectedFloat b) tab
    }"

type_synonym unifier = "ty \<Rightarrow> ty \<Rightarrow> inference_table \<Rightarrow> (unify_result \<times> inference_table) option"

text \<open>Two substitutions argument by argument, and then the further calls; both messages are those of the caller.\<close>

definition unify_substs ::
  "unifier \<Rightarrow> ty_ctx \<Rightarrow> span \<Rightarrow> infer_message \<Rightarrow> infer_message \<Rightarrow> substitution \<Rightarrow> substitution \<Rightarrow> (ty \<times> ty) list \<Rightarrow>
    inference_table \<Rightarrow> (unify_result \<times> inference_table) option" where
  "unify_substs u ctx sp count_msg kinds_msg sa sb rest tab =
    do {
      as \<leftarrow> substitution_args ctx sa;
      bs \<leftarrow> substitution_args ctx sb;
      if length as \<noteq> length bs then emit_error sp count_msg tab
      else (case arg_pairs as bs of
              None \<Rightarrow> emit_error sp kinds_msg tab
            | Some ps \<Rightarrow> unify_seq (map (\<lambda>(x, y). u x y) (ps @ rest)) tab)
    }"

fun unify_dyn_arg :: "unifier \<Rightarrow> span \<Rightarrow> generic_arg \<Rightarrow> generic_arg \<Rightarrow> inference_table \<Rightarrow> (unify_result \<times> inference_table) option" where
  "unify_dyn_arg u sp (GaTy t) (GaTy s) tab = u t s tab"
| "unify_dyn_arg u sp (GaLifetime r) (GaLifetime q) tab = emit_constraints (if r \<noteq> q then [RegionEq r q] else []) tab"
| "unify_dyn_arg u sp (GaConst c) (GaConst d) tab =
    (if c \<noteq> d then emit_error sp (ConstMismatch c d) tab else emit_constraints [] tab)"
| "unify_dyn_arg u sp _ _ tab = emit_error sp (InferText ''mismatched generic argument kinds in dynamic trait'') tab"

fun unify_predicate ::
  "unifier \<Rightarrow> ty_ctx \<Rightarrow> span \<Rightarrow> predicate \<Rightarrow> predicate \<Rightarrow> inference_table \<Rightarrow> (unify_result \<times> inference_table) option" where
  "unify_predicate u ctx sp (PTrait p) (PTrait q) tab =
    (if tr_def_id (tp_trait_ref p) \<noteq> tr_def_id (tp_trait_ref q)
     then emit_error sp (TraitMismatch (tr_def_id (tp_trait_ref p)) (tr_def_id (tp_trait_ref q))) tab
     else do {
       as \<leftarrow> substitution_args ctx (tr_substs (tp_trait_ref p));
       bs \<leftarrow> substitution_args ctx (tr_substs (tp_trait_ref q));
       if length as \<noteq> length bs then emit_error sp (InferText ''trait substitution count mismatch'') tab
       else unify_seq (map2 (unify_dyn_arg u sp) as bs) tab
     })"
| "unify_predicate u ctx sp (PRegionOutlives r1 r2) (PRegionOutlives q1 q2) tab =
    emit_constraints (if r1 \<noteq> q1 \<or> r2 \<noteq> q2 then [RegionEq r1 q1, RegionEq r2 q2] else []) tab"
| "unify_predicate u ctx sp (PTypeOutlives t r) (PTypeOutlives s q) tab =
    emit_constraints (if t \<noteq> s \<or> r \<noteq> q then [TypeEq t s, RegionEq r q] else []) tab"
| "unify_predicate u ctx sp (PWellFormed t) (PWellFormed s) tab =
    (if t \<noteq> s then u t s tab else emit_constraints [] tab)"
| "unify_predicate u ctx sp (PCoerce a b) (PCoerce c d) tab = unify_seq [u a c, u b d] tab"
| "unify_predicate u ctx sp p q tab = emit_error sp (PredicateMismatch p q) tab"

definition unify_dynamic ::
  "unifier \<Rightarrow> ty_ctx \<Rightarrow> span \<Rightarrow> predicate list \<Rightarrow> region \<Rightarrow> predicate list \<Rightarrow> region \<Rightarrow> inference_table \<Rightarrow>
    (unify_result \<times> inference_table) option" where
  "unify_dynamic u ctx sp ps r qs q tab =
    (if r \<noteq> q then emit_error sp (RegionMismatch r q) tab
     else if length ps \<noteq> length qs then emit_error sp (PredicateCount (length ps) (length qs)) tab
     else unify_seq (map2 (unify_predicate u ctx sp) ps qs) tab)"

text \<open>Two types with an identifier and a substitution.\<close>

definition unify_named ::
  "unifier \<Rightarrow> ty_ctx \<Rightarrow> span \<Rightarrow> ty \<Rightarrow> ty \<Rightarrow> string \<Rightarrow> u32 \<Rightarrow> substitution \<Rightarrow> u32 \<Rightarrow> substitution \<Rightarrow> inference_table \<Rightarrow>
    (unify_result \<times> inference_table) option" where
  "unify_named u ctx sp a b what ia sa ib sb tab =
    (if ia \<noteq> ib then emit_error sp (TypeMismatch a b) tab
     else unify_substs u ctx sp (InferText ''mismatched type argument counts'')
       (InferText (''mismatched generic argument kinds in '' @ what)) sa sb [] tab)"

definition unify_fn_ptr ::
  "unifier \<Rightarrow> ty_ctx \<Rightarrow> span \<Rightarrow> fn_sig \<Rightarrow> fn_sig \<Rightarrow> inference_table \<Rightarrow> (unify_result \<times> inference_table) option" where
  "unify_fn_ptr u ctx sp f g tab =
    (if fs_unsafety f \<noteq> fs_unsafety g \<or> fs_abi f \<noteq> fs_abi g \<or> fs_c_variadic f \<noteq> fs_c_variadic g
     then emit_error sp (InferText ''mismatched function signatures'') tab
     else unify_substs u ctx sp (InferText ''mismatched function argument counts'')
       (InferText ''mismatched function argument kinds'') (fs_inputs f) (fs_inputs g) [(fs_output f, fs_output g)] tab)"

definition unify_projection ::
  "unifier \<Rightarrow> ty_ctx \<Rightarrow> span \<Rightarrow> ty \<Rightarrow> ty \<Rightarrow> projection_ty \<Rightarrow> projection_ty \<Rightarrow> inference_table \<Rightarrow> (unify_result \<times> inference_table) option" where
  "unify_projection u ctx sp a b p q tab =
    (if tr_def_id (pt_trait_ref p) \<noteq> tr_def_id (pt_trait_ref q) \<or> pt_item_name p \<noteq> pt_item_name q
     then emit_error sp (TypeMismatch a b) tab
     else unify_substs u ctx sp (InferText ''mismatched type argument counts in projection'')
       (InferText ''mismatched generic argument kinds in projection'')
       (tr_substs (pt_trait_ref p)) (tr_substs (pt_trait_ref q)) [] tab)"

text \<open>The arms of \<open>unify_tys\<close> for kinds that are not variables, \<open>Error\<close> or \<open>Never\<close>; the arms for a parameter against a
  variable are behind those for variables and never reached.\<close>

definition unify_kinds ::
  "unifier \<Rightarrow> ty_ctx \<Rightarrow> span \<Rightarrow> ty \<Rightarrow> ty \<Rightarrow> ty_kind \<Rightarrow> ty_kind \<Rightarrow> inference_table \<Rightarrow> (unify_result \<times> inference_table) option" where
  "unify_kinds u ctx sp a b ka kb tab =
    (let mismatch = emit_error sp (TypeMismatch a b) tab; same = emit_constraints [] tab in
     case ka of
       TParam p \<Rightarrow>
         (case kb of
            TParam q \<Rightarrow> if pty_index p = pty_index q then same else emit_error sp (ParamMismatch (pty_index p) (pty_index q)) tab
          | _ \<Rightarrow> mismatch)
     | TRef r t m \<Rightarrow>
         (case kb of
            TRef q s l \<Rightarrow> if m \<noteq> l then emit_error sp (MutabilityMismatch m l) tab
              else unify_seq [emit_constraints [RegionEq r q], u t s] tab
          | _ \<Rightarrow> mismatch)
     | TInt i \<Rightarrow> if kb = TInt i then same else mismatch
     | TUint i \<Rightarrow> if kb = TUint i then same else mismatch
     | TFloat f \<Rightarrow> if kb = TFloat f then same else mismatch
     | TBool \<Rightarrow> if kb = TBool then same else mismatch
     | TChar \<Rightarrow> if kb = TChar then same else mismatch
     | TString \<Rightarrow> if kb = TString then same else mismatch
     | TUnit \<Rightarrow> if kb = TUnit then same else mismatch
     | TTuple sa \<Rightarrow>
         (case kb of
            TTuple sb \<Rightarrow> unify_substs u ctx sp (TypeMismatch a b) (InferText ''mismatched generic arguments in tuple'') sa sb [] tab
          | _ \<Rightarrow> mismatch)
     | TArray t c \<Rightarrow>
         (case kb of
            TArray s d \<Rightarrow> if c \<noteq> d then emit_error sp (InferText ''mismatched array lengths'') tab else u t s tab
          | _ \<Rightarrow> mismatch)
     | TSlice t \<Rightarrow> (case kb of TSlice s \<Rightarrow> u t s tab | _ \<Rightarrow> mismatch)
     | TRawPtr t m \<Rightarrow>
         (case kb of
            TRawPtr s l \<Rightarrow> if m \<noteq> l then emit_error sp (MutabilityMismatch m l) tab else u t s tab
          | _ \<Rightarrow> mismatch)
     | TFnPtr f \<Rightarrow> (case kb of TFnPtr g \<Rightarrow> unify_fn_ptr u ctx sp f g tab | _ \<Rightarrow> mismatch)
     | TAdt ia sa \<Rightarrow> (case kb of TAdt ib sb \<Rightarrow> unify_named u ctx sp a b ''Adt'' ia sa ib sb tab | _ \<Rightarrow> mismatch)
     | TFnDef ia sa \<Rightarrow> (case kb of TFnDef ib sb \<Rightarrow> unify_named u ctx sp a b ''FnDef'' ia sa ib sb tab | _ \<Rightarrow> mismatch)
     | TClosure ia sa \<Rightarrow> (case kb of TClosure ib sb \<Rightarrow> unify_named u ctx sp a b ''Closure'' ia sa ib sb tab | _ \<Rightarrow> mismatch)
     | TOpaque ia sa \<Rightarrow> (case kb of TOpaque ib sb \<Rightarrow> unify_named u ctx sp a b ''Opaque'' ia sa ib sb tab | _ \<Rightarrow> mismatch)
     | TDynamic ps r \<Rightarrow>
         (case kb of TDynamic qs q \<Rightarrow> unify_dynamic u ctx sp (bi_value ps) r (bi_value qs) q tab | _ \<Rightarrow> mismatch)
     | TProjection p \<Rightarrow> (case kb of TProjection q \<Rightarrow> unify_projection u ctx sp a b p q tab | _ \<Rightarrow> mismatch)
     | _ \<Rightarrow> mismatch)"

definition absorbs :: "ty_kind \<Rightarrow> bool" where
  "absorbs k \<longleftrightarrow> k = TError \<or> k = TNever"

primrec unify_tys :: "nat \<Rightarrow> ty_ctx \<Rightarrow> span \<Rightarrow> unifier" where
  "unify_tys 0 ctx sp a b tab = None"
| "unify_tys (Suc n) ctx sp a b tab =
    (if a = b then emit_constraints [] tab
     else do {
       ka \<leftarrow> ty_kind_of ctx a;
       kb \<leftarrow> ty_kind_of ctx b;
       if absorbs ka \<or> absorbs kb then emit_constraints [] tab
       else (case as_int_var ka of Some v \<Rightarrow> unify_int sp b v a kb tab
       | None \<Rightarrow> (case as_int_var kb of Some v \<Rightarrow> unify_int sp b v b ka tab
       | None \<Rightarrow> (case as_float_var ka of Some v \<Rightarrow> unify_float sp b v a kb tab
       | None \<Rightarrow> (case as_float_var kb of Some v \<Rightarrow> unify_float sp b v b ka tab
       | None \<Rightarrow> (case as_ty_var ka of Some v \<Rightarrow> unify_var n ctx sp a b v b kb tab
       | None \<Rightarrow> (case as_ty_var kb of Some v \<Rightarrow> unify_var n ctx sp a b v a ka tab
       | None \<Rightarrow> unify_kinds (unify_tys n ctx sp) ctx sp a b ka kb tab))))))
     })"

definition unify :: "nat \<Rightarrow> ty_ctx \<Rightarrow> ty \<Rightarrow> ty \<Rightarrow> span \<Rightarrow> inference_table \<Rightarrow> (unify_result \<times> inference_table) option" where
  "unify n ctx a b sp tab =
    do {
      (a', tab1) \<leftarrow> resolve_ty_shallow tab ctx a;
      (b', tab2) \<leftarrow> resolve_ty_shallow tab1 ctx b;
      unify_tys n ctx sp a' b' tab2
    }"

subsection \<open>Full resolution\<close>

primrec has_unresolved_non_ty_infer :: "nat \<Rightarrow> inference_table \<Rightarrow> ty_ctx \<Rightarrow> ty \<Rightarrow> bool option" where
  "has_unresolved_non_ty_infer 0 tab ctx t = None"
| "has_unresolved_non_ty_infer (Suc n) tab ctx t =
    do {
      k \<leftarrow> ty_kind_of ctx t;
      case k of
        TInfer (IvInt v) \<Rightarrow> Some (probe_int_var tab v = None)
      | TInfer (IvFloat v) \<Rightarrow> Some (probe_float_var tab v = None)
      | TInfer (IvTy _) \<Rightarrow> Some False
      | _ \<Rightarrow> do { parts \<leftarrow> occurs_parts ctx k; any_opt (has_unresolved_non_ty_infer n tab ctx) parts }
    }"

primrec collect_unresolved_vars :: "nat \<Rightarrow> inference_table \<Rightarrow> ty_ctx \<Rightarrow> ty \<Rightarrow> u32 list option" where
  "collect_unresolved_vars 0 tab ctx t = None"
| "collect_unresolved_vars (Suc n) tab ctx t =
    do {
      k \<leftarrow> ty_kind_of ctx t;
      case k of
        TInfer (IvTy v) \<Rightarrow>
          (case get (it_ty_vars tab) (unat v) of
             None \<Rightarrow> Some []
           | Some tv \<Rightarrow> (case tv_value tv of None \<Rightarrow> Some [v] | Some u \<Rightarrow> collect_unresolved_vars n tab ctx u))
      | TInfer _ \<Rightarrow> Some []
      | _ \<Rightarrow> do { parts \<leftarrow> occurs_parts ctx k; vs \<leftarrow> map_opt (collect_unresolved_vars n tab ctx) parts; Some (concat vs) }
    }"

definition fully_resolve :: "nat \<Rightarrow> ty_ctx \<Rightarrow> ty \<Rightarrow> inference_table \<Rightarrow> ((u32 list + ty) \<times> inference_table) option" where
  "fully_resolve n ctx t tab =
    do {
      (resolved, tab') \<leftarrow> resolve_ty_shallow tab ctx t;
      bad \<leftarrow> has_unresolved_non_ty_infer n tab' ctx resolved;
      if bad then Some (Inl [], tab')
      else do {
        flags \<leftarrow> arena_ty_flags (tc_arena ctx) resolved;
        if flags_contain flags HAS_TY_INFER
        then do {
          unresolved \<leftarrow> collect_unresolved_vars n tab' ctx resolved;
          Some (if unresolved = [] then Inr resolved else Inl unresolved, tab')
        }
        else Some (Inr resolved, tab')
      }
    }"

end
