(* ===== verification/Infer_Props.thy ===== *)
theory Infer_Props
  imports Infer "HOL-Library.Multiset"
begin

text \<open>
  Unification makes two types agree when every variable occurs once and is unbound, and shallow resolution returns an
  unbound variable or a type that is not a variable.  Examples show what goes wrong when a variable occurs twice or an
  integer variable is on the right.
\<close>

subsection \<open>Parts and heads of types\<close>

definition kind_parts :: "ty_ctx \<Rightarrow> ty_kind \<Rightarrow> ty list option" where
  "kind_parts ctx k = (case k of TProjection p \<Rightarrow> type_list ctx (tr_substs (pt_trait_ref p)) | _ \<Rightarrow> occurs_parts ctx k)"

fun kind_subst :: "ty_kind \<Rightarrow> substitution option" where
  "kind_subst (TAdt _ s) = Some s"
| "kind_subst (TFnDef _ s) = Some s"
| "kind_subst (TClosure _ s) = Some s"
| "kind_subst (TOpaque _ s) = Some s"
| "kind_subst (TTuple s) = Some s"
| "kind_subst (TFnPtr f) = Some (fs_inputs f)"
| "kind_subst (TProjection p) = Some (tr_substs (pt_trait_ref p))"
| "kind_subst _ = None"

text \<open>Every generic argument of the kind is a type.\<close>

definition all_types :: "ty_ctx \<Rightarrow> ty_kind \<Rightarrow> bool" where
  "all_types ctx k \<longleftrightarrow> (\<forall>s. kind_subst k = Some s \<longrightarrow> (\<exists>ts. substitution_args ctx s = Some (map GaTy ts)))"

abbreviation no_subst :: substitution where
  "no_subst \<equiv> \<lparr>sub_index = 0, sub_len = 0\<rparr>"

text \<open>A kind without its parts, regions and parameter names.\<close>

fun head :: "ty_kind \<Rightarrow> ty_kind" where
  "head (TRef _ _ m) = TRef ReErased 0 m"
| "head (TRawPtr _ m) = TRawPtr 0 m"
| "head (TSlice _) = TSlice 0"
| "head (TArray _ c) = TArray 0 c"
| "head (TAdt i _) = TAdt i no_subst"
| "head (TFnDef i _) = TFnDef i no_subst"
| "head (TClosure i _) = TClosure i no_subst"
| "head (TOpaque i _) = TOpaque i no_subst"
| "head (TTuple _) = TTuple no_subst"
| "head (TFnPtr f) = TFnPtr (f\<lparr>fs_inputs := no_subst, fs_output := 0\<rparr>)"
| "head (TParam p) = TParam \<lparr>pty_index = pty_index p, pty_name = 0\<rparr>"
| "head (TProjection p) = TProjection \<lparr>pt_trait_ref = \<lparr>tr_def_id = tr_def_id (pt_trait_ref p), tr_substs = no_subst\<rparr>, pt_item_name = pt_item_name p\<rparr>"
| "head k = k"

subsection \<open>Variables\<close>

fun var_value :: "inference_table \<Rightarrow> infer_var \<Rightarrow> ty option" where
  "var_value tab (IvTy v) = probe_ty_var tab v"
| "var_value tab (IvInt v) = probe_int_var tab v"
| "var_value tab (IvFloat v) = probe_float_var tab v"

fun declared :: "inference_table \<Rightarrow> infer_var \<Rightarrow> bool" where
  "declared tab (IvTy v) \<longleftrightarrow> unat v < length (it_ty_vars tab)"
| "declared tab (IvInt v) \<longleftrightarrow> unat v < length (it_int_vars tab)"
| "declared tab (IvFloat v) \<longleftrightarrow> unat v < length (it_float_vars tab)"

definition unbound :: "inference_table \<Rightarrow> infer_var \<Rightarrow> bool" where
  "unbound tab v \<longleftrightarrow> declared tab v \<and> var_value tab v = None"

text \<open>Contexts without trait objects in which the parts of a type were interned before it.\<close>

definition plain_ctx :: "ty_ctx \<Rightarrow> bool" where
  "plain_ctx ctx \<longleftrightarrow> (\<forall>t k. ty_kind_of ctx t = Some k \<longrightarrow> (\<forall>ps r. k \<noteq> TDynamic ps r) \<and>
     (\<exists>parts. kind_parts ctx k = Some parts \<and> (\<forall>p\<in>set parts. p < t)) \<and>
     (\<forall>s. kind_subst k = Some s \<longrightarrow> substitution_args ctx s \<noteq> None))"

fun as_infer :: "ty_kind \<Rightarrow> infer_var option" where
  "as_infer (TInfer v) = Some v"
| "as_infer _ = None"

primrec ivars :: "nat \<Rightarrow> ty_ctx \<Rightarrow> ty \<Rightarrow> infer_var list" where
  "ivars 0 ctx t = []"
| "ivars (Suc n) ctx t =
    (case ty_kind_of ctx t of
       None \<Rightarrow> []
     | Some k \<Rightarrow>
        (case as_infer k of
           Some v \<Rightarrow> [v]
         | None \<Rightarrow> (case kind_parts ctx k of Some ps \<Rightarrow> concat (map (ivars n ctx) ps) | None \<Rightarrow> [])))"

text \<open>The variables of a type, one entry per occurrence.\<close>

definition tvars :: "ty_ctx \<Rightarrow> ty \<Rightarrow> infer_var list" where
  "tvars ctx t = ivars (Suc (unat t)) ctx t"

lemma plain_parts:
  assumes "plain_ctx ctx" "ty_kind_of ctx t = Some k"
  obtains ps where "kind_parts ctx k = Some ps" "\<And>p. p \<in> set ps \<Longrightarrow> unat p < unat t"
  using assms unfolding plain_ctx_def by (metis word_less_nat_alt)

lemma ivars_enough: "plain_ctx ctx \<Longrightarrow> unat t < n \<Longrightarrow> unat t < m \<Longrightarrow> ivars n ctx t = ivars m ctx t"
proof (induction n arbitrary: t m)
  case (Suc n)
  obtain m' where m: "m = Suc m'" using Suc.prems(3) by (cases m) auto
  show ?case
  proof (cases "ty_kind_of ctx t")
    case (Some k)
    then obtain ps where ps: "kind_parts ctx k = Some ps" "\<And>p. p \<in> set ps \<Longrightarrow> unat p < unat t"
      using plain_parts [OF Suc.prems(1)] by blast
    have "ivars n ctx p = ivars m' ctx p" if "p \<in> set ps" for p
      using Suc.IH [OF Suc.prems(1), of p m'] ps(2) [OF that] Suc.prems(2,3) m by simp
    then have "map (ivars n ctx) ps = map (ivars m' ctx) ps" by simp
    then show ?thesis using Some ps(1) m by (simp split: option.split cong: map_cong)
  qed (simp add: m)
qed simp

lemma as_infer_Some [simp]: "as_infer k = Some v \<longleftrightarrow> k = TInfer v"
  by (cases k) auto

lemma tvars_infer: "ty_kind_of ctx t = Some (TInfer v) \<Longrightarrow> tvars ctx t = [v]"
  by (simp add: tvars_def)

lemma tvars_parts:
  assumes "plain_ctx ctx" "ty_kind_of ctx t = Some k" "as_infer k = None" "kind_parts ctx k = Some ps"
  shows "tvars ctx t = concat (map (tvars ctx) ps)"
proof -
  have "unat p < unat t" if "p \<in> set ps" for p
    using plain_parts [OF assms(1,2)] assms(4) that by (metis option.inject)
  then have "ivars (unat t) ctx p = tvars ctx p" if "p \<in> set ps" for p
    unfolding tvars_def by (rule ivars_enough [OF assms(1)]) (use that in auto)
  then have "map (ivars (unat t) ctx) ps = map (tvars ctx) ps" by (simp del: ivars.simps)
  then show ?thesis using assms by (subst tvars_def) (simp cong: map_cong)
qed


subsection \<open>Agreement\<close>

text \<open>Two types agree under a table: they are the same handle, a bound variable stands for an agreeing type, one of them
  absorbs every type, or the heads are equal and the parts agree one by one.\<close>

inductive agrees :: "ty_ctx \<Rightarrow> inference_table \<Rightarrow> ty \<Rightarrow> ty \<Rightarrow> bool" for ctx tab where
  agrees_refl: "agrees ctx tab t t"
| agrees_left: "ty_kind_of ctx a = Some (TInfer v) \<Longrightarrow> var_value tab v = Some t \<Longrightarrow> agrees ctx tab t b \<Longrightarrow> agrees ctx tab a b"
| agrees_right: "ty_kind_of ctx b = Some (TInfer v) \<Longrightarrow> var_value tab v = Some t \<Longrightarrow> agrees ctx tab a t \<Longrightarrow> agrees ctx tab a b"
| agrees_absorb: "ty_kind_of ctx a = Some ka \<Longrightarrow> ty_kind_of ctx b = Some kb \<Longrightarrow> absorbs ka \<or> absorbs kb \<Longrightarrow> agrees ctx tab a b"
| agrees_parts: "ty_kind_of ctx a = Some ka \<Longrightarrow> ty_kind_of ctx b = Some kb \<Longrightarrow> head ka = head kb \<Longrightarrow>
    all_types ctx ka \<Longrightarrow> all_types ctx kb \<Longrightarrow> kind_parts ctx ka = Some ps \<Longrightarrow> kind_parts ctx kb = Some qs \<Longrightarrow>
    list_all2 (agrees ctx tab) ps qs \<Longrightarrow> agrees ctx tab a b"

definition extends :: "inference_table \<Rightarrow> inference_table \<Rightarrow> bool" where
  "extends tab tab' \<longleftrightarrow> (\<forall>v t. var_value tab v = Some t \<longrightarrow> var_value tab' v = Some t)"

lemma agrees_extends: "agrees ctx tab a b \<Longrightarrow> extends tab tab' \<Longrightarrow> agrees ctx tab' a b"
proof (induction rule: agrees.induct)
  case (agrees_parts a ka b kb ps qs)
  then have "list_all2 (agrees ctx tab') ps qs" by (auto elim!: list_all2_mono)
  with agrees_parts show ?case by (intro agrees.agrees_parts)
qed (auto simp: extends_def intro: agrees.intros)

text \<open>A step of unification on two types: it changes only variables of the two, which it may bind, and nothing else of
  the table but the diagnostics.\<close>

definition touches :: "infer_var set \<Rightarrow> inference_table \<Rightarrow> inference_table \<Rightarrow> bool" where
  "touches vs tab tab' \<longleftrightarrow> extends tab tab' \<and> (\<forall>v. v \<notin> vs \<longrightarrow> var_value tab' v = var_value tab v) \<and>
     (\<forall>v. declared tab' v \<longleftrightarrow> declared tab v)"

lemma touches_refl: "touches vs tab tab"
  by (simp add: touches_def extends_def)

lemma touches_trans: "touches vs tab tab' \<Longrightarrow> touches ws tab' tab'' \<Longrightarrow> touches (vs \<union> ws) tab tab''"
  by (simp add: touches_def extends_def)

lemma touches_mono: "touches vs tab tab' \<Longrightarrow> vs \<subseteq> ws \<Longrightarrow> touches ws tab tab'"
  by (auto simp: touches_def)

lemma touches_unbound: "touches vs tab tab' \<Longrightarrow> v \<notin> vs \<Longrightarrow> unbound tab v \<Longrightarrow> unbound tab' v"
  by (simp add: touches_def unbound_def)

lemma touches_agrees: "touches vs tab tab' \<Longrightarrow> agrees ctx tab a b \<Longrightarrow> agrees ctx tab' a b"
  using agrees_extends by (auto simp: touches_def)

lemma probe_bind_in:
  assumes "bind_in v t vars = Some vars'"
  shows "probe_in vars' w = (if w = v then Some t else probe_in vars w) \<and> length vars' = length vars \<and> unat v < length vars"
proof -
  obtain tv where tv: "get vars (unat v) = Some tv" "vars' = vars[unat v := tv\<lparr>tv_value := Some t\<rparr>]"
    using assms by (auto simp: bind_in_def)
  then have "unat v < length vars" by (auto simp: get_def split: if_splits)
  moreover have "w = v \<longleftrightarrow> unat w = unat v" by (auto intro: unsigned_word_eqI)
  ultimately show ?thesis using tv(2) by (auto simp: probe_in_def get_def)
qed

fun bind_var :: "infer_var \<Rightarrow> ty \<Rightarrow> inference_table \<Rightarrow> inference_table option" where
  "bind_var (IvTy v) t tab = bind_ty_var v t tab"
| "bind_var (IvInt v) t tab = bind_int_var v t tab"
| "bind_var (IvFloat v) t tab = bind_float_var v t tab"

lemma bind_in_Some: "unat v < length vars \<Longrightarrow> \<exists>vars'. bind_in v t vars = Some vars'"
  by (simp add: bind_in_def get_def)

lemmas probe_defs = probe_ty_var_def probe_int_var_def probe_float_var_def

lemma bind_var_value:
  assumes "declared tab v"
  shows "\<exists>tab'. bind_var v t tab = Some tab' \<and> (\<forall>w. var_value tab' w = (if w = v then Some t else var_value tab w)) \<and>
    (\<forall>w. declared tab' w \<longleftrightarrow> declared tab w)"
proof (cases v)
  case (IvTy x)
  then obtain vars where b: "bind_in x t (it_ty_vars tab) = Some vars" using assms bind_in_Some by fastforce
  have "var_value (tab\<lparr>it_ty_vars := vars\<rparr>) w = (if w = v then Some t else var_value tab w)"
    "declared (tab\<lparr>it_ty_vars := vars\<rparr>) w \<longleftrightarrow> declared tab w" for w
    using probe_bind_in [OF b] IvTy by (cases w; simp add: probe_defs)+
  then show ?thesis using b IvTy by (simp add: bind_ty_var_def)
next
  case (IvInt x)
  then obtain vars where b: "bind_in x t (it_int_vars tab) = Some vars" using assms bind_in_Some by fastforce
  have "var_value (tab\<lparr>it_int_vars := vars\<rparr>) w = (if w = v then Some t else var_value tab w)"
    "declared (tab\<lparr>it_int_vars := vars\<rparr>) w \<longleftrightarrow> declared tab w" for w
    using probe_bind_in [OF b] IvInt by (cases w; simp add: probe_defs)+
  then show ?thesis using b IvInt by (simp add: bind_int_var_def)
next
  case (IvFloat x)
  then obtain vars where b: "bind_in x t (it_float_vars tab) = Some vars" using assms bind_in_Some by fastforce
  have "var_value (tab\<lparr>it_float_vars := vars\<rparr>) w = (if w = v then Some t else var_value tab w)"
    "declared (tab\<lparr>it_float_vars := vars\<rparr>) w \<longleftrightarrow> declared tab w" for w
    using probe_bind_in [OF b] IvFloat by (cases w; simp add: probe_defs)+
  then show ?thesis using b IvFloat by (simp add: bind_float_var_def)
qed

lemma bind_var_touches:
  assumes "unbound tab v"
  shows "\<exists>tab'. bind_var v t tab = Some tab' \<and> touches {v} tab tab' \<and> var_value tab' v = Some t"
  using bind_var_value [of tab v t] assms by (auto simp: unbound_def touches_def extends_def)

subsection \<open>The occurs check on unbound variables\<close>

lemma resolve_unbound:
  assumes "ty_kind_of ctx t = Some k" "\<And>v. as_infer k = Some v \<Longrightarrow> var_value tab v = None"
  shows "resolve_ty_shallow tab ctx t = Some (t, tab)"
proof -
  have "\<not> MAX_RESOLVE_DEPTH < 0" by simp
  then show ?thesis
    using assms unfolding resolve_ty_shallow_def
    by (subst resolve_ty_shallow_depth.simps) (auto split: ty_kind.split infer_var.split)
qed

lemma any_st_occurs_False: "(\<And>x. x \<in> set xs \<Longrightarrow> f x s = Some (False, s)) \<Longrightarrow> any_st f xs s = Some (False, s)"
  by (induction xs) auto

lemma occurs_parts_kind:
  "kind_parts ctx k = Some ps \<Longrightarrow> \<exists>os. occurs_parts ctx k = Some os \<and> set os \<subseteq> set ps"
  by (cases k) (auto simp: kind_parts_def occurs_parts_def)

lemma kind_below: "ty_kind_of ctx t = Some k \<Longrightarrow> unat p < unat t \<Longrightarrow> \<exists>k'. ty_kind_of ctx p = Some k'"
  by (auto simp: ty_kind_of_def arena_ty_kind_def get_def split: if_splits)

lemma occurs_unbound:
  assumes "plain_ctx ctx" "ty_kind_of ctx t \<noteq> None" "unat t < n" "\<forall>v\<in>set (tvars ctx t). var_value tab v = None"
    "IvTy var \<notin> set (tvars ctx t)"
  shows "occurs n ctx var t tab = Some (False, tab)"
  using assms(2-5)
proof (induction n arbitrary: t)
  case (Suc n)
  obtain k where k: "ty_kind_of ctx t = Some k" using Suc.prems(1) by blast
  have r: "resolve_ty_shallow tab ctx t = Some (t, tab)"
    using Suc.prems(3) tvars_infer [of ctx t] k by (intro resolve_unbound [OF k]) simp
  have ne: "k \<noteq> TInfer (IvTy var)" using Suc.prems(4) tvars_infer [of ctx t] k by auto
  obtain ps where ps: "kind_parts ctx k = Some ps" "\<And>p. p \<in> set ps \<Longrightarrow> unat p < unat t"
    using plain_parts [OF assms(1) k] by blast
  obtain os where os: "occurs_parts ctx k = Some os" "set os \<subseteq> set ps" using occurs_parts_kind [OF ps(1)] by blast
  have "any_st (occurs n ctx var) os tab = Some (False, tab)"
  proof (rule any_st_occurs_False)
    fix p assume "p \<in> set os"
    then have p: "p \<in> set ps" using os(2) by blast
    have "as_infer k = None" using p ps(1) by (cases k) (auto simp: kind_parts_def occurs_parts_def)
    then have "tvars ctx t = concat (map (tvars ctx) ps)" by (rule tvars_parts [OF assms(1) k _ ps(1)])
    then show "occurs n ctx var p tab = Some (False, tab)"
      using Suc.prems p ps(2) [OF p] kind_below [OF k ps(2) [OF p]] by (intro Suc.IH) auto
  qed
  then show ?case using r k ne os(1) by simp
qed simp

subsection \<open>Sequences of calls\<close>

text \<open>What a call on a pair of types promises: it returns, touches only the variables of the pair, and if it succeeds the
  two types agree afterwards.\<close>

definition unifies :: "ty_ctx \<Rightarrow> unifier \<Rightarrow> inference_table \<Rightarrow> ty \<times> ty \<Rightarrow> bool" where
  "unifies ctx u tab p \<longleftrightarrow> (\<exists>r tab'. u (fst p) (snd p) tab = Some (r, tab') \<and>
     touches (set (tvars ctx (fst p)) \<union> set (tvars ctx (snd p))) tab tab' \<and>
     (\<forall>cs. r = Inr cs \<longrightarrow> agrees ctx tab' (fst p) (snd p)))"

definition pair_vars :: "ty_ctx \<Rightarrow> ty \<times> ty \<Rightarrow> infer_var list" where
  "pair_vars ctx p = tvars ctx (fst p) @ tvars ctx (snd p)"

lemma unify_seq_constraints:
  "\<exists>r'. unify_seq (map emit_constraints pre @ fs) tab = map_option (\<lambda>(r, tab'). (r' r, tab')) (unify_seq fs tab) \<and>
    (\<forall>r cs. r' r = Inr cs \<longrightarrow> (\<exists>ds. r = Inr ds))"
proof (induction pre)
  case Nil
  show ?case by (intro exI [of _ "\<lambda>r. r"]) (simp add: case_prod_unfold option.map_ident)
next
  case (Cons c pre)
  then obtain r' where r': "unify_seq (map emit_constraints pre @ fs) tab = map_option (\<lambda>(r, tab'). (r' r, tab')) (unify_seq fs tab)"
      "\<forall>r cs. r' r = Inr cs \<longrightarrow> (\<exists>ds. r = Inr ds)" by blast
  let ?r = "\<lambda>r. case r' r of Inl e \<Rightarrow> Inl e | Inr ds \<Rightarrow> Inr (c @ ds)"
  have "unify_seq (map emit_constraints (c # pre) @ fs) tab = map_option (\<lambda>(r, tab'). (?r r, tab')) (unify_seq fs tab)"
    by (cases "unify_seq fs tab") (auto simp: emit_constraints_def r'(1) split: sum.splits)
  moreover have "\<forall>r cs. ?r r = Inr cs \<longrightarrow> (\<exists>ds. r = Inr ds)" using r'(2) by (auto split: sum.splits)
  ultimately show ?case by (intro exI [of _ ?r] conjI)
qed

lemma unify_seq_pairs:
  assumes "\<And>p tab. p \<in> set ps \<Longrightarrow> \<forall>v\<in>set (pair_vars ctx p). unbound tab v \<Longrightarrow> unifies ctx u tab p"
    and "distinct (concat (map (pair_vars ctx) ps))" "\<forall>v\<in>set (concat (map (pair_vars ctx) ps)). unbound tab v"
  shows "\<exists>r tab'. unify_seq (map (\<lambda>(x, y). u x y) ps) tab = Some (r, tab') \<and>
    touches (set (concat (map (pair_vars ctx) ps))) tab tab' \<and>
    (\<forall>cs. r = Inr cs \<longrightarrow> (\<forall>p\<in>set ps. agrees ctx tab' (fst p) (snd p)))"
  using assms
proof (induction ps arbitrary: tab)
  case Nil
  then show ?case by (simp add: touches_refl)
next
  case (Cons p ps)
  obtain r tab1 where 1: "u (fst p) (snd p) tab = Some (r, tab1)" "touches (set (pair_vars ctx p)) tab tab1"
      "\<forall>cs. r = Inr cs \<longrightarrow> agrees ctx tab1 (fst p) (snd p)"
    using Cons.prems(1) [of p tab] Cons.prems(3) by (auto simp: unifies_def pair_vars_def)
  let ?vs = "set (concat (map (pair_vars ctx) ps))"
  have "\<forall>v\<in>?vs. unbound tab1 v" using Cons.prems(2,3) touches_unbound [OF 1(2)] by auto
  then obtain r2 tab2 where 2: "unify_seq (map (\<lambda>(x, y). u x y) ps) tab1 = Some (r2, tab2)" "touches ?vs tab1 tab2"
      "\<forall>cs. r2 = Inr cs \<longrightarrow> (\<forall>p\<in>set ps. agrees ctx tab2 (fst p) (snd p))"
    using Cons.IH [of tab1] Cons.prems(1,2) by auto
  show ?case
  proof (cases r)
    case (Inl e)
    then show ?thesis using 1 touches_mono [OF 1(2)] by (auto simp: case_prod_unfold)
  next
    case (Inr cs)
    have "touches (set (concat (map (pair_vars ctx) (p # ps)))) tab tab2" using touches_trans [OF 1(2) 2(2)] by simp
    moreover have "agrees ctx tab2 (fst p) (snd p)" using 1(3) Inr touches_agrees [OF 2(2)] by blast
    ultimately show ?thesis
      using 1(1) 2(1,3) Inr by (cases r2) (auto simp: case_prod_unfold)
  qed
qed

subsection \<open>Kinds\<close>

lemma arg_pairs_Some:
  "arg_pairs as bs = Some ps \<Longrightarrow> length as = length bs \<Longrightarrow> as = map (GaTy \<circ> fst) ps \<and> bs = map (GaTy \<circ> snd) ps"
  by (induction as bs arbitrary: ps rule: arg_pairs.induct) auto

lemma type_args_map: "type_args (map GaTy ts) = ts"
  by (induction ts) auto

text \<open>The outcomes of a call on two substitutions.\<close>

lemma unify_substs_outcome:
  assumes "substitution_args ctx sa = Some as" "substitution_args ctx sb = Some bs"
  shows "(\<exists>m. unify_substs u ctx sp cm km sa sb rest tab = emit_error sp m tab) \<or>
    (\<exists>ts ss. as = map GaTy ts \<and> bs = map GaTy ss \<and> length ts = length ss \<and>
      unify_substs u ctx sp cm km sa sb rest tab = unify_seq (map (\<lambda>(x, y). u x y) (zip ts ss @ rest)) tab)"
proof (cases "length as = length bs \<and> arg_pairs as bs \<noteq> None")
  case True
  then obtain ps where ps: "arg_pairs as bs = Some ps" by blast
  then have "as = map GaTy (map fst ps)" "bs = map GaTy (map snd ps)" using arg_pairs_Some [OF ps] True by auto
  moreover have "unify_substs u ctx sp cm km sa sb rest tab = unify_seq (map (\<lambda>(x, y). u x y) (zip (map fst ps) (map snd ps) @ rest)) tab"
    using assms True ps by (simp add: unify_substs_def zip_map_fst_snd)
  ultimately show ?thesis by (intro disjI2 exI [of _ "map fst ps"] exI [of _ "map snd ps"]) simp
next
  case False
  then show ?thesis using assms by (auto simp: unify_substs_def split: option.split)
qed

text \<open>The outcomes of the arms for kinds that are not variables: an error, or the parts one by one after some
  constraints.\<close>

definition parts_outcome ::
  "unifier \<Rightarrow> ty_ctx \<Rightarrow> span \<Rightarrow> ty_kind \<Rightarrow> ty_kind \<Rightarrow> inference_table \<Rightarrow> (unify_result \<times> inference_table) option \<Rightarrow> bool" where
  "parts_outcome u ctx sp ka kb tab res \<longleftrightarrow> (\<exists>m. res = emit_error sp m tab) \<or>
    (\<exists>pre ps qs. head ka = head kb \<and> all_types ctx ka \<and> all_types ctx kb \<and> kind_parts ctx ka = Some ps \<and> kind_parts ctx kb = Some qs \<and>
      length ps = length qs \<and> res = unify_seq (map emit_constraints pre @ map (\<lambda>(x, y). u x y) (zip ps qs)) tab)"

lemma parts_outcome_error: "parts_outcome u ctx sp ka kb tab (emit_error sp m tab)"
  unfolding parts_outcome_def by blast

lemma parts_outcome_same:
  "head ka = head kb \<Longrightarrow> kind_subst ka = None \<Longrightarrow> kind_subst kb = None \<Longrightarrow> kind_parts ctx ka = Some [] \<Longrightarrow> kind_parts ctx kb = Some [] \<Longrightarrow>
    parts_outcome u ctx sp ka kb tab (emit_constraints [] tab)"
  unfolding parts_outcome_def all_types_def
  by (intro disjI2 exI [of _ "[]"] exI [of _ "[] :: ty list"]) (simp add: emit_constraints_def)

lemma unify_seq_single: "unify_seq [f] tab = f tab"
  by (simp split: option.split sum.split prod.split)

lemma parts_outcome_one:
  "head ka = head kb \<Longrightarrow> kind_subst ka = None \<Longrightarrow> kind_subst kb = None \<Longrightarrow> kind_parts ctx ka = Some [t] \<Longrightarrow> kind_parts ctx kb = Some [s] \<Longrightarrow>
    parts_outcome u ctx sp ka kb tab (unify_seq (map emit_constraints pre @ [u t s]) tab)"
  unfolding parts_outcome_def all_types_def
  by (intro disjI2 exI [of _ pre] exI [of _ "[t]"] exI [of _ "[s]"]) simp

lemma parts_outcome_substs:
  assumes "head ka = head kb" "kind_subst ka = Some sa" "kind_subst kb = Some sb"
    and "substitution_args ctx sa = Some as" "substitution_args ctx sb = Some bs"
    and "kind_parts ctx ka = Some (type_args as @ map fst rest)" "kind_parts ctx kb = Some (type_args bs @ map snd rest)"
  shows "parts_outcome u ctx sp ka kb tab (unify_substs u ctx sp cm km sa sb rest tab)"
  using unify_substs_outcome [OF assms(4,5), of u sp cm km rest tab]
proof
  assume "\<exists>ts ss. as = map GaTy ts \<and> bs = map GaTy ss \<and> length ts = length ss \<and>
    unify_substs u ctx sp cm km sa sb rest tab = unify_seq (map (\<lambda>(x, y). u x y) (zip ts ss @ rest)) tab"
  then obtain ts ss where r: "as = map GaTy ts" "bs = map GaTy ss" "length ts = length ss"
      "unify_substs u ctx sp cm km sa sb rest tab = unify_seq (map (\<lambda>(x, y). u x y) (zip ts ss @ rest)) tab" by blast
  have "zip (ts @ map fst rest) (ss @ map snd rest) = zip ts ss @ rest" using r(3) by (simp add: zip_map_fst_snd)
  then show ?thesis
    using assms r unfolding parts_outcome_def all_types_def
    by (intro disjI2 exI [of _ "[]"] exI [of _ "ts @ map fst rest"] exI [of _ "ss @ map snd rest"]) (auto simp: type_args_map)
qed (auto simp: parts_outcome_error)

lemma unify_kinds_outcome:
  assumes "plain_ctx ctx" "ty_kind_of ctx a = Some ka" "ty_kind_of ctx b = Some kb" "as_infer ka = None"
  shows "parts_outcome u ctx sp ka kb tab (unify_kinds u ctx sp a b ka kb tab)"
proof -
  have sub: "\<exists>as. substitution_args ctx s = Some as" if "kind_subst ka = Some s \<or> kind_subst kb = Some s" for s
    using assms(1-3) that unfolding plain_ctx_def by blast
  have dyn: "ka \<noteq> TDynamic ps r" for ps r using assms(1,2) unfolding plain_ctx_def by blast
  have substs: "parts_outcome u ctx sp ka kb tab (unify_substs u ctx sp cm km sa sb rest tab)"
    if "head ka = head kb" "kind_subst ka = Some sa" "kind_subst kb = Some sb"
      "kind_parts ctx ka = map_option (\<lambda>ts. ts @ map fst rest) (type_list ctx sa)"
      "kind_parts ctx kb = map_option (\<lambda>ts. ts @ map snd rest) (type_list ctx sb)" for cm km sa sb rest
  proof -
    note asms = that
    obtain as bs where "substitution_args ctx sa = Some as" "substitution_args ctx sb = Some bs" using sub asms(2,3) by blast
    then show ?thesis using that by (intro parts_outcome_substs) (auto simp: type_list_def)
  qed
  have named: "parts_outcome u ctx sp ka kb tab (unify_named u ctx sp a b what ia sa ib sb tab)"
    if "kind_subst ka = Some sa" "kind_subst kb = Some sb" "ia = ib \<longrightarrow> head ka = head kb"
      "kind_parts ctx ka = type_list ctx sa" "kind_parts ctx kb = type_list ctx sb" for what ia sa ib sb
    using that substs [of sa sb "[]"] by (auto simp: unify_named_def parts_outcome_error option.map_ident)
  note [simp] = unify_kinds_def Let_def parts_outcome_error kind_parts_def occurs_parts_def
  note one = parts_outcome_one [of ka kb ctx _ _ u sp tab "[]", simplified list.map append.simps unify_seq_single]
    and ref = parts_outcome_one [of ka kb ctx _ _ u sp tab "[[c]]" for c, simplified list.map append.simps]
  show ?thesis
  proof (cases ka)
    case (TRef r t m)
    then show ?thesis using ref by (cases kb) simp_all
  next
    case (TRawPtr t m)
    then show ?thesis using one by (cases kb) simp_all
  next
    case (TSlice t)
    then show ?thesis using one by (cases kb) simp_all
  next
    case (TArray t c)
    then show ?thesis using one by (cases kb) simp_all
  next
    case (TAdt i s)
    then show ?thesis using named by (cases kb) simp_all
  next
    case (TFnDef i s)
    then show ?thesis using named by (cases kb) simp_all
  next
    case (TClosure i s)
    then show ?thesis using named by (cases kb) simp_all
  next
    case (TOpaque i s)
    then show ?thesis using named by (cases kb) simp_all
  next
    case (TTuple s)
    then show ?thesis using substs [of _ _ "[]"] by (cases kb) (simp_all add: option.map_ident)
  next
    case (TFnPtr f)
    show ?thesis
    proof (cases "\<exists>g. kb = TFnPtr g")
      case True
      then obtain g where g: "kb = TFnPtr g" by blast
      show ?thesis
        using TFnPtr g substs [of "fs_inputs f" "fs_inputs g" "[(fs_output f, fs_output g)]"]
        by (cases f; cases g) (auto simp: unify_fn_ptr_def)
    qed (use TFnPtr in \<open>cases kb; simp\<close>)
  next
    case (TProjection q)
    then show ?thesis
      using substs [of _ _ "[]"] by (cases kb) (simp_all add: unify_projection_def option.map_ident)
  qed (use assms(4) dyn in \<open>cases kb; simp add: parts_outcome_same\<close>)+
qed

subsection \<open>Unification\<close>

lemma concat_zip_mset:
  "length xs = length ys \<Longrightarrow>
    mset (concat (map (\<lambda>p. f (fst p) @ f (snd p)) (zip xs ys))) = mset (concat (map f xs)) + mset (concat (map f ys))"
  by (induction xs ys rule: list_induct2) auto

lemma unify_parts_agree:
  assumes "parts_outcome u ctx sp ka kb tab res" "plain_ctx ctx" "ty_kind_of ctx a = Some ka" "ty_kind_of ctx b = Some kb"
    "as_infer ka = None" "as_infer kb = None" "distinct (pair_vars ctx (a, b))" "\<forall>v\<in>set (pair_vars ctx (a, b)). unbound tab v"
    and u: "\<And>x y tab. unat x < unat a \<Longrightarrow> unat y < unat b \<Longrightarrow> distinct (pair_vars ctx (x, y)) \<Longrightarrow> 
      set (tvars ctx x) \<subseteq> set (tvars ctx a) \<Longrightarrow> set (tvars ctx y) \<subseteq> set (tvars ctx b) \<Longrightarrow>
      \<forall>v\<in>set (pair_vars ctx (x, y)). unbound tab v \<Longrightarrow> unifies ctx u tab (x, y)"
  shows "\<exists>r tab'. res = Some (r, tab') \<and> touches (set (pair_vars ctx (a, b))) tab tab' \<and> (\<forall>cs. r = Inr cs \<longrightarrow> agrees ctx tab' a b)"
  using assms(1) unfolding parts_outcome_def
proof (elim disjE exE conjE)
  fix m assume "res = emit_error sp m tab"
  then show ?thesis by (auto simp: emit_error_def unify_fail_def touches_refl)
next
  fix pre ps qs
  assume h: "head ka = head kb" "all_types ctx ka" "all_types ctx kb" and ps: "kind_parts ctx ka = Some ps"
    and qs: "kind_parts ctx kb = Some qs" and len: "length ps = length qs"
    and res: "res = unify_seq (map emit_constraints pre @ map (\<lambda>(x, y). u x y) (zip ps qs)) tab"
  have va: "tvars ctx a = concat (map (tvars ctx) ps)" by (rule tvars_parts [OF assms(2,3,5) ps])
  have vb: "tvars ctx b = concat (map (tvars ctx) qs)" by (rule tvars_parts [OF assms(2,4,6) qs])
  have below: "\<And>x. x \<in> set ps \<Longrightarrow> unat x < unat a" "\<And>y. y \<in> set qs \<Longrightarrow> unat y < unat b"
    using plain_parts [OF assms(2,3)] plain_parts [OF assms(2,4)] ps qs by (metis option.inject)+
  let ?vs = "concat (map (pair_vars ctx) (zip ps qs))"
  have "pair_vars ctx = (\<lambda>p. tvars ctx (fst p) @ tvars ctx (snd p))" by (simp add: fun_eq_iff pair_vars_def)
  then have m: "mset ?vs = mset (pair_vars ctx (a, b))"
    using concat_zip_mset [OF len, of "tvars ctx"] by (simp add: va vb)
  have d: "distinct ?vs" using mset_eq_imp_distinct_iff [OF m] assms(7) by blast
  have vs: "set ?vs = set (pair_vars ctx (a, b))" by (rule mset_eq_setD [OF m])
  have call: "unifies ctx u tab p" if "p \<in> set (zip ps qs)" "\<forall>v\<in>set (pair_vars ctx p). unbound tab v" for p tab
  proof -
    have "p = (fst p, snd p)" by simp
    then obtain x y where p: "p = (x, y)" "(x, y) \<in> set (zip ps qs)" using \<open>p \<in> set (zip ps qs)\<close> by metis
    have "distinct (pair_vars ctx p)" using d that(1) by (auto simp: distinct_concat_iff)
    then show ?thesis using u [of x y tab] below p that(2) va vb set_zip_leftD [OF p(2)] set_zip_rightD [OF p(2)] by auto
  qed
  obtain r tab' where r: "unify_seq (map (\<lambda>(x, y). u x y) (zip ps qs)) tab = Some (r, tab')" "touches (set ?vs) tab tab'"
      "\<forall>cs. r = Inr cs \<longrightarrow> (\<forall>p\<in>set (zip ps qs). agrees ctx tab' (fst p) (snd p))"
    using unify_seq_pairs [of "zip ps qs" ctx u tab, OF call d] assms(8) unfolding vs by blast
  obtain r' where r': "res = Some (r' r, tab')" "\<forall>r cs. r' r = Inr cs \<longrightarrow> (\<exists>ds. r = Inr ds)"
    using unify_seq_constraints [of pre "map (\<lambda>(x, y). u x y) (zip ps qs)" tab] r(1) res by auto
  have "agrees ctx tab' a b" if "r' r = Inr cs" for cs
  proof -
    have "list_all2 (agrees ctx tab') ps qs" using r(3) r'(2) that len by (fastforce simp: list_all2_iff)
    then show ?thesis by (rule agrees_parts [OF assms(3,4) h ps qs])
  qed
  then show ?thesis using r'(1) r(2) vs by auto
qed

lemma unifies_error: "u a b tab = emit_error sp m tab \<Longrightarrow> unifies ctx u tab (a, b)"
  by (auto simp: unifies_def emit_error_def unify_fail_def touches_refl)

lemma unifies_unchanged: "u a b tab = emit_constraints cs tab \<Longrightarrow> agrees ctx tab a b \<Longrightarrow> unifies ctx u tab (a, b)"
  by (auto simp: unifies_def emit_constraints_def touches_refl)

text \<open>Binding an unbound variable of one side to the other side.\<close>

lemma unifies_bind:
  assumes "u a b tab = bound_result (bind_var v t tab)" "unbound tab v"
    and "ty_kind_of ctx a = Some (TInfer v) \<and> t = b \<or> ty_kind_of ctx b = Some (TInfer v) \<and> t = a"
  shows "unifies ctx u tab (a, b)"
proof -
  obtain tab' where r: "bind_var v t tab = Some tab'" "touches {v} tab tab'" "var_value tab' v = Some t"
    using bind_var_touches [OF assms(2)] by blast
  have "agrees ctx tab' a b" using assms(3) r(3) by (auto intro: agrees_left agrees_right agrees_refl)
  moreover have "v \<in> set (tvars ctx a) \<union> set (tvars ctx b)" using assms(3) tvars_infer by auto
  then have "touches (set (tvars ctx a) \<union> set (tvars ctx b)) tab tab'" by (intro touches_mono [OF r(2)]) auto
  ultimately show ?thesis using assms(1) r(1) by (auto simp: unifies_def bound_result_def)
qed

lemma unify_var_unifies:
  assumes "plain_ctx ctx" "ty_kind_of ctx t \<noteq> None" "unat t < n" "\<forall>w\<in>set (tvars ctx t). var_value tab w = None"
    "IvTy v \<notin> set (tvars ctx t)" "unbound tab (IvTy v)" "u a b tab = unify_var n ctx sp a b v t k tab"
    "ty_kind_of ctx a = Some (TInfer (IvTy v)) \<and> t = b \<or> ty_kind_of ctx b = Some (TInfer (IvTy v)) \<and> t = a"
  shows "unifies ctx u tab (a, b)"
proof -
  obtain tv where tv: "get (it_ty_vars tab) (unat v) = Some tv" using assms(6) by (auto simp: unbound_def get_def)
  have occ: "occurs n ctx v t tab = Some (False, tab)" by (rule occurs_unbound [OF assms(1-5)])
  show ?thesis
  proof (cases "kind_accepts (tv_kind tv) k")
    case True
    then have "u a b tab = bound_result (bind_var (IvTy v) t tab)" using assms(7) tv occ by (simp add: unify_var_def)
    then show ?thesis by (rule unifies_bind [OF _ assms(6,8)])
  next
    case False
    then show ?thesis using assms(7) tv by (intro unifies_error) (simp add: unify_var_def)
  qed
qed

definition general_only :: "ty_ctx \<Rightarrow> ty \<Rightarrow> bool" where
  "general_only ctx t \<longleftrightarrow> (\<forall>v\<in>set (tvars ctx t). \<exists>x. v = IvTy x)"

lemma as_ty_var_Some [simp]: "as_ty_var k = Some v \<longleftrightarrow> k = TInfer (IvTy v)"
  by (induction k rule: as_ty_var.induct) auto

lemma as_int_var_Some [simp]: "as_int_var k = Some v \<longleftrightarrow> k = TInfer (IvInt v)"
  by (induction k rule: as_int_var.induct) auto

lemma as_float_var_Some [simp]: "as_float_var k = Some v \<longleftrightarrow> k = TInfer (IvFloat v)"
  by (induction k rule: as_float_var.induct) auto

lemma unify_int_unifies:
  assumes "u a b tab = unify_int sp b v a kb tab" "ty_kind_of ctx a = Some (TInfer (IvInt v))" "ty_kind_of ctx b = Some kb"
    "\<not> absorbs kb" "\<forall>w\<in>set (tvars ctx a) \<union> set (tvars ctx b). unbound tab w" "general_only ctx b"
  shows "unifies ctx u tab (a, b)"
proof -
  have v: "unbound tab (IvInt v)" using assms(2,5) tvars_infer by fastforce
  have bind: "unifies ctx u tab (a, b)" if "u a b tab = bound_result (bind_int_var v b tab)"
    using that v assms(2) by (intro unifies_bind [where v = "IvInt v" and t = b]) auto
  have general: "unifies ctx u tab (a, b)" if "kb = TInfer (IvTy g)" for g
    using that assms tvars_infer [of ctx b] by (intro unifies_bind [where v = "IvTy g" and t = a]) (auto simp: unify_int_def)
  have left: "kb \<noteq> TInfer (IvInt w)" "kb \<noteq> TInfer (IvFloat w)" for w
    using assms(3,6) tvars_infer [of ctx b] by (auto simp: general_only_def)
  have error: "unifies ctx u tab (a, b)" if "u a b tab = emit_error sp m tab" for m using unifies_error that by blast
  show ?thesis
  proof (cases kb)
    case (TInfer iv)
    then show ?thesis using general left by (cases iv) auto
  qed (use assms(1,4) bind error in \<open>auto simp: unify_int_def absorbs_def\<close>)
qed

lemma unify_float_unifies:
  assumes "u a b tab = unify_float sp b v a kb tab" "ty_kind_of ctx a = Some (TInfer (IvFloat v))" "ty_kind_of ctx b = Some kb"
    "\<not> absorbs kb" "\<forall>w\<in>set (tvars ctx a) \<union> set (tvars ctx b). unbound tab w" "general_only ctx b"
  shows "unifies ctx u tab (a, b)"
proof -
  have v: "unbound tab (IvFloat v)" using assms(2,5) tvars_infer by fastforce
  have bind: "unifies ctx u tab (a, b)" if "u a b tab = bound_result (bind_float_var v b tab)"
    using that v assms(2) by (intro unifies_bind [where v = "IvFloat v" and t = b]) auto
  have general: "unifies ctx u tab (a, b)" if "kb = TInfer (IvTy g)" for g
    using that assms tvars_infer [of ctx b] by (intro unifies_bind [where v = "IvTy g" and t = a]) (auto simp: unify_float_def)
  have left: "kb \<noteq> TInfer (IvInt w)" "kb \<noteq> TInfer (IvFloat w)" for w
    using assms(3,6) tvars_infer [of ctx b] by (auto simp: general_only_def)
  have error: "unifies ctx u tab (a, b)" if "u a b tab = emit_error sp m tab" for m using unifies_error that by blast
  show ?thesis
  proof (cases kb)
    case (TInfer iv)
    then show ?thesis using general left by (cases iv) auto
  qed (use assms(1,4) bind error in \<open>auto simp: unify_float_def absorbs_def\<close>)
qed

lemma unify_tys_unifies:
  assumes "plain_ctx ctx"
  shows "ty_kind_of ctx a \<noteq> None \<Longrightarrow> ty_kind_of ctx b \<noteq> None \<Longrightarrow> Suc (unat a) < n \<Longrightarrow> Suc (unat b) < n \<Longrightarrow>
    distinct (pair_vars ctx (a, b)) \<Longrightarrow> \<forall>v\<in>set (pair_vars ctx (a, b)). unbound tab v \<Longrightarrow> general_only ctx b \<Longrightarrow>
    unifies ctx (unify_tys n ctx sp) tab (a, b)"
proof (induction n arbitrary: a b tab)
  case (Suc n)
  let ?u = "unify_tys (Suc n) ctx sp"
  obtain ka kb where k: "ty_kind_of ctx a = Some ka" "ty_kind_of ctx b = Some kb" using Suc.prems(1,2) by blast
  note prems = Suc.prems(3-7) and none = Suc.prems(6) [unfolded unbound_def pair_vars_def]
  have not_b: "kb \<noteq> TInfer (IvInt v)" "kb \<noteq> TInfer (IvFloat v)" for v
    using Suc.prems(7) k(2) tvars_infer [of ctx b] by (auto simp: general_only_def)
  consider "a = b" | "a \<noteq> b" "absorbs ka \<or> absorbs kb"
    | v where "a \<noteq> b" "\<not> absorbs ka" "\<not> absorbs kb" "ka = TInfer (IvInt v)"
    | v where "a \<noteq> b" "\<not> absorbs ka" "\<not> absorbs kb" "ka = TInfer (IvFloat v)"
    | v where "a \<noteq> b" "\<not> absorbs ka" "\<not> absorbs kb" "ka = TInfer (IvTy v)"
    | v where "a \<noteq> b" "\<not> absorbs ka" "\<not> absorbs kb" "as_infer ka = None" "kb = TInfer (IvTy v)"
    | "a \<noteq> b" "\<not> absorbs ka" "\<not> absorbs kb" "as_infer ka = None" "as_infer kb = None"
    using not_b by (cases "as_infer ka"; cases "as_infer kb") (auto, (metis infer_var.exhaust)+)
  then show ?case
  proof cases
    case 1
    then show ?thesis by (intro unifies_unchanged) (simp_all add: agrees_refl)
  next
    case 2
    then show ?thesis using k by (intro unifies_unchanged [where cs = "[]"]) (auto intro: agrees_absorb)
  next
    case (3 v)
    then show ?thesis using k prems by (intro unify_int_unifies [where v = v and kb = kb and sp = sp]) (auto simp: pair_vars_def)
  next
    case (4 v)
    then show ?thesis
      using k prems not_b by (intro unify_float_unifies [where v = v and kb = kb and sp = sp]) (auto simp: pair_vars_def split: option.split)
  next
    case (5 v)
    have "?u a b tab = unify_var n ctx sp a b v b kb tab"
      using 5 k not_b by (auto split: option.split)
    moreover have "tvars ctx a = [IvTy v]" using 5 k tvars_infer by blast
    ultimately show ?thesis
      using 5 k none prems by (intro unify_var_unifies [OF assms, where t = b and v = v]) (auto simp: pair_vars_def)
  next
    case (6 v)
    have "?u a b tab = unify_var n ctx sp a b v a ka tab"
      using 6 k by (auto split: option.split)
    moreover have "tvars ctx b = [IvTy v]" using 6 k tvars_infer by blast
    ultimately show ?thesis
      using 6 k none prems by (intro unify_var_unifies [OF assms, where t = a and v = v]) (auto simp: pair_vars_def)
  next
    case 7
    have u: "?u a b tab = unify_kinds (unify_tys n ctx sp) ctx sp a b ka kb tab"
      using 7 k by (auto split: option.split)
    have rec: "unifies ctx (unify_tys n ctx sp) tab (x, y)"
      if "unat x < unat a" "unat y < unat b" "distinct (pair_vars ctx (x, y))" "set (tvars ctx x) \<subseteq> set (tvars ctx a)"
        "set (tvars ctx y) \<subseteq> set (tvars ctx b)" "\<forall>v\<in>set (pair_vars ctx (x, y)). unbound tab v" for x y tab
      using that prems kind_below [OF k(1) that(1)] kind_below [OF k(2) that(2)]
      by (intro Suc.IH) (auto simp: general_only_def)
    have "\<exists>r tab'. ?u a b tab = Some (r, tab') \<and> touches (set (pair_vars ctx (a, b))) tab tab' \<and> (\<forall>cs. r = Inr cs \<longrightarrow> agrees ctx tab' a b)"
      unfolding u by (rule unify_parts_agree [OF unify_kinds_outcome [OF assms k 7(4)] assms k 7(4,5) prems(3,4) rec])
    then show ?thesis by (simp add: unifies_def pair_vars_def del: unify_tys.simps)
  qed
qed simp


subsection \<open>Examples\<close>

definition plain_check :: "ty_ctx \<Rightarrow> bool" where
  "plain_check ctx \<longleftrightarrow> list_all (\<lambda>(i, k). (case k of TDynamic _ _ \<Rightarrow> False | _ \<Rightarrow> True) \<and>
     (case kind_parts ctx k of Some ps \<Rightarrow> list_all (\<lambda>p. unat p < i) ps | None \<Rightarrow> False) \<and>
     (case kind_subst k of Some s \<Rightarrow> substitution_args ctx s \<noteq> None | None \<Rightarrow> True)) (enumerate 0 (ar_types (tc_arena ctx)))"

lemma plain_check_ctx: "plain_check ctx \<Longrightarrow> plain_ctx ctx"
  unfolding plain_ctx_def
proof (intro allI impI)
  fix t k assume c: "plain_check ctx" and "ty_kind_of ctx t = Some k"
  then have "(unat t, k) \<in> set (enumerate 0 (ar_types (tc_arena ctx)))"
    by (auto simp: ty_kind_of_def arena_ty_kind_def get_def in_set_enumerate_eq split: if_splits)
  with c show "(\<forall>ps r. k \<noteq> TDynamic ps r) \<and> (\<exists>parts. kind_parts ctx k = Some parts \<and> (\<forall>p\<in>set parts. p < t)) \<and>
      (\<forall>s. kind_subst k = Some s \<longrightarrow> substitution_args ctx s \<noteq> None)"
    by (auto simp: plain_check_def list_all_iff word_less_nat_alt split: option.splits dest!: bspec)
qed

text \<open>Types: 3 is \<open>bool\<close>, 4 \<open>i32\<close>, 5 \<open>u8\<close>, 6 and 7 the general variables \<open>?0\<close> and \<open>?1\<close>, 8 an integer variable, then
  \<open>(?0, ?0)\<close>, \<open>[?0]\<close>, \<open>(bool, ())\<close>, \<open>((), [?0])\<close>, \<open>(integer, ?0)\<close> and \<open>(i32, [?1])\<close>.\<close>

definition infer_ctx :: ty_ctx where
  "infer_ctx = example_ctx\<lparr>tc_arena := \<lparr>ar_types =
     [TError, TNever, TUnit, TBool, TInt I32, TUint U8, TInfer (IvTy 0), TInfer (IvTy 1), TInfer (IvInt 0),
      TTuple \<lparr>sub_index = 0, sub_len = 2\<rparr>, TSlice 6, TTuple \<lparr>sub_index = 1, sub_len = 2\<rparr>,
      TTuple \<lparr>sub_index = 2, sub_len = 2\<rparr>, TSlice 7, TTuple \<lparr>sub_index = 3, sub_len = 2\<rparr>, TTuple \<lparr>sub_index = 4, sub_len = 2\<rparr>],
     ar_flags = replicate 6 0 @ replicate 10 HAS_TY_INFER,
     ar_substs = [[GaTy 6, GaTy 6], [GaTy 3, GaTy 2], [GaTy 2, GaTy 10], [GaTy 8, GaTy 6], [GaTy 4, GaTy 13]],
     ar_index = (\<lambda>_. None)\<rparr>\<rparr>"

definition infer_tab :: inference_table where
  "infer_tab = snd (new_int_var (snd (new_ty_var (snd (new_ty_var infer_new)))))"


text \<open>Parts are unified without resolving them first: \<open>(?0, ?0)\<close> unifies with \<open>(bool, ())\<close>, the second binding
  replacing the first.\<close>

lemma unify_rebinds:
  "map_option (\<lambda>(r, tab'). (r, probe_ty_var tab' 0)) (unify 20 infer_ctx 9 11 span_DUMMY infer_tab) = Some (Inr [], Some 2)"
  by code_simp

text \<open>An integer variable on the right is bound to itself, and then resolves to the error type.\<close>

lemma unify_int_right:
  "map_option (\<lambda>(r, tab'). (r, probe_int_var tab' 0, map_option fst (resolve_ty_shallow tab' infer_ctx 8)))
     (unify 20 infer_ctx 4 8 span_DUMMY infer_tab) = Some (Inr [], Some 8, Some Ty_ERROR)"
  by code_simp

text \<open>An unsigned type is no integer type to an integer variable.\<close>

lemma unify_int_unsigned:
  "map_option fst (unify 20 infer_ctx 8 5 span_DUMMY infer_tab) = Some (Inl [\<lparr>ie_span = span_DUMMY, ie_message = ExpectedInteger 5\<rparr>])"
  by code_simp

text \<open>A type that full resolution accepts may still hold bound variables: \<open>[?0]\<close> with \<open>?0\<close> bound to \<open>bool\<close>.\<close>

lemma fully_resolve_shallow:
  "map_option fst (Option.bind (bind_ty_var 0 3 infer_tab) (fully_resolve 20 infer_ctx 10)) = Some (Inr 10)"
  by code_simp

text \<open>The occurs check looks through the old binding of the variable it is about to replace: unifying \<open>(?0, ?0)\<close> with
  \<open>((), [?0])\<close> binds \<open>?0\<close> to \<open>[?0]\<close>, after which unifying \<open>?1\<close> with \<open>?0\<close> recurses without end.\<close>

lemma unify_builds_cycle:
  "\<exists>tab. unify 20 infer_ctx 9 12 span_DUMMY infer_tab = Some (Inr [], tab) \<and> probe_ty_var tab 0 = Some 10 \<and>
     (\<forall>n. unify n infer_ctx 7 6 span_DUMMY tab = None)"
proof -
  define tab where "tab = infer_tab\<lparr>it_ty_vars := (it_ty_vars infer_tab)[0 := (it_ty_vars infer_tab ! 0)\<lparr>tv_value := Some 10\<rparr>]\<rparr>"
  have "unify 20 infer_ctx 9 12 span_DUMMY infer_tab = Some (Inr [], tab)" "probe_ty_var tab 0 = Some 10"
    unfolding tab_def by code_simp+
  moreover have r: "resolve_ty_shallow tab infer_ctx 6 = Some (10, tab)" "resolve_ty_shallow tab infer_ctx 10 = Some (10, tab)"
      "resolve_ty_shallow tab infer_ctx 7 = Some (7, tab)" unfolding tab_def by code_simp+
  have k: "ty_kind_of infer_ctx 10 = Some (TSlice 6)" "ty_kind_of infer_ctx 7 = Some (TInfer (IvTy 1))" by code_simp+
  have occ: "occurs n infer_ctx 1 t tab = None" if "t = 6 \<or> t = 10" for n t
    using that by (induction n arbitrary: t) (auto simp: r k occurs_parts_def)
  have tv: "get (it_ty_vars tab) 1 = Some \<lparr>tv_universe = 0, tv_value = None, tv_kind = VkGeneral\<rparr>" unfolding tab_def by code_simp
  have "unify n infer_ctx 7 6 span_DUMMY tab = None" for n
    by (cases n) (simp_all add: unify_def r k absorbs_def unify_var_def tv [unfolded One_nat_def] kind_accepts_def occ)
  ultimately show ?thesis by blast
qed

subsection \<open>Shallow resolution\<close>

text \<open>Every value of a variable is a known type.\<close>

definition values_ok :: "ty_ctx \<Rightarrow> inference_table \<Rightarrow> bool" where
  "values_ok ctx tab \<longleftrightarrow> (\<forall>v t. var_value tab v = Some t \<longrightarrow> ty_kind_of ctx t \<noteq> None)"

text \<open>What shallow resolution returns: a type that is no bound variable, or the error type with a diagnostic.\<close>

definition resolved :: "ty_ctx \<Rightarrow> inference_table \<Rightarrow> ty \<times> inference_table \<Rightarrow> bool" where
  "resolved ctx tab r \<longleftrightarrow>
    snd r = tab \<and> (\<exists>k. ty_kind_of ctx (fst r) = Some k \<and> (\<forall>v. k = TInfer v \<longrightarrow> var_value tab v = None)) \<or>
    fst r = Ty_ERROR \<and> (\<exists>m. snd r = push_diagnostic m tab)"

lemma resolve_depth_total:
  "values_ok ctx tab \<Longrightarrow> ty_kind_of ctx t \<noteq> None \<Longrightarrow> \<exists>r. resolve_ty_shallow_depth tab ctx t depth visited = Some r \<and> resolved ctx tab r"
proof (induction tab ctx t depth visited rule: resolve_ty_shallow_depth.induct)
  case (1 tab ctx t depth visited)
  obtain k where k: "ty_kind_of ctx t = Some k" using 1 by blast
  note IH = 1(1-3) [OF _ k] and vals = 1(4) [unfolded values_ok_def, rule_format]
  have same: "resolved ctx tab (t, tab)" if "\<And>v. k = TInfer v \<Longrightarrow> var_value tab v = None"
    using that k by (auto simp: resolved_def)
  have known: "probe_ty_var tab x = Some u \<or> probe_int_var tab x = Some u \<or> probe_float_var tab x = Some u \<Longrightarrow> \<exists>y. ty_kind_of ctx u = Some y" for x u
    using vals [of "IvTy x"] vals [of "IvInt x"] vals [of "IvFloat x"] by auto
  have diag: "resolved ctx tab (Ty_ERROR, push_diagnostic m tab)" for m by (auto simp: resolved_def)
  show ?case
  proof (cases k)
    case (TInfer v)
    then show ?thesis
      using same diag IH known 1(4) k
      by (subst resolve_ty_shallow_depth.simps) ((cases v; auto split: option.split), (metis (no_types, opaque_lifting))+)
  qed (use same diag k in \<open>subst resolve_ty_shallow_depth.simps; simp\<close>)+
qed

text \<open>C15. Shallow resolution returns for every known type, whatever chains or cycles the bindings form: with a type that
  is not a bound variable and an unchanged table, or with the error type and one more diagnostic.\<close>

theorem resolve_ty_shallow_resolves:
  assumes "values_ok ctx tab" "ty_kind_of ctx t \<noteq> None"
  shows "\<exists>r. resolve_ty_shallow tab ctx t = Some r \<and> resolved ctx tab r"
  using resolve_depth_total [OF assms] by (simp add: resolve_ty_shallow_def)

theorem resolve_ty_shallow_resolves_witness:
  "\<exists>tab r. bind_ty_var 0 7 infer_tab = Some tab \<and> resolve_ty_shallow tab infer_ctx 6 = Some r \<and> resolved infer_ctx tab r \<and> fst r = 7"
proof -
  define tab where "tab = infer_tab\<lparr>it_ty_vars := (it_ty_vars infer_tab)[0 := (it_ty_vars infer_tab ! 0)\<lparr>tv_value := Some 7\<rparr>]\<rparr>"
  have b: "bind_ty_var 0 7 infer_tab = Some tab" and r: "map_option fst (resolve_ty_shallow tab infer_ctx 6) = Some 7"
    and k: "ty_kind_of infer_ctx 6 \<noteq> None" "ty_kind_of infer_ctx 7 \<noteq> None" unfolding tab_def by code_simp+
  have "var_value tab v = Some t \<Longrightarrow> t = 7" for v t
    by (cases v) (auto simp: tab_def probe_defs probe_in_def get_def infer_tab_def new_int_var_def new_ty_var_def infer_new_def
      nth_Cons split: option.splits if_splits nat.splits)
  then have "values_ok infer_ctx tab" using k(2) by (auto simp: values_ok_def)
  from resolve_ty_shallow_resolves [OF this k(1)] b r show ?thesis by auto
qed

end
