(* ===== verification/Auto_Traits.thy ===== *)
theory Auto_Traits
  imports Type_Context "HOL-Library.Monad_Syntax"
begin

text \<open>
  Auto traits of \<^verbatim>\<open>crates/glyim-type/src/auto_trait.rs\<close>: which types are \<open>Send\<close>, \<open>Sync\<close> and \<open>Unpin\<close>, computed with a
  cache and a set of types under evaluation.  A set of flags is a predicate on the three traits.  \<open>None\<close> is a panic on an
  unknown handle or a recursion deeper than the fuel.  On types that do not contain themselves the result is the greatest
  solution of the rules; on recursive types an entry of the cache may rest on an assumption that fails later.
\<close>

subsection \<open>The computation\<close>

type_synonym auto_flags = "auto_trait \<Rightarrow> bool"

type_synonym auto_state = "(ty \<Rightarrow> auto_flags option) \<times> ty list"

type_synonym auto_rec = "ty \<Rightarrow> auto_state \<Rightarrow> (auto_flags \<times> auto_state) option"

definition flags_all :: auto_flags where
  "flags_all = (\<lambda>_. True)"

definition flags_empty :: auto_flags where
  "flags_empty = (\<lambda>_. False)"

definition has_negative_impl :: "ty_ctx \<Rightarrow> u32 \<Rightarrow> auto_trait \<Rightarrow> bool" where
  "has_negative_impl ctx adt_id tr \<longleftrightarrow> (adt_id, tr) \<in> tc_negative_impls ctx"

definition has_manual_impl :: "ty_ctx \<Rightarrow> u32 \<Rightarrow> auto_trait \<Rightarrow> bool" where
  "has_manual_impl ctx adt_id tr \<longleftrightarrow> (adt_id, tr) \<in> tc_manual_impls ctx"

text \<open>\<open>flags &= \<dots>\<close> over a list of types.\<close>

fun auto_all_of :: "auto_rec \<Rightarrow> ty list \<Rightarrow> auto_flags \<Rightarrow> auto_state \<Rightarrow> (auto_flags \<times> auto_state) option" where
  "auto_all_of f [] flags st = Some (flags, st)"
| "auto_all_of f (t # ts) flags st =
    do { (g, st') \<leftarrow> f t st; auto_all_of f ts (\<lambda>tr. flags tr \<and> g tr) st' }"

text \<open>The field loop for one trait, which stops at the first field without it.\<close>

fun auto_fields :: "auto_rec \<Rightarrow> auto_trait \<Rightarrow> ty list \<Rightarrow> auto_state \<Rightarrow> (bool \<times> auto_state) option" where
  "auto_fields f tr [] st = Some (True, st)"
| "auto_fields f tr (t # ts) st =
    do { (g, st') \<leftarrow> f t st; if g tr then auto_fields f tr ts st' else Some (False, st') }"

text \<open>The field types of a definition, or of the bare representation.\<close>

definition auto_field_tys :: "ty_ctx \<Rightarrow> u32 \<Rightarrow> ty list option" where
  "auto_field_tys ctx adt_id =
    (case tc_adt_defs ctx adt_id of
       Some def \<Rightarrow> Some (map fd_ty (ad_fields def))
     | None \<Rightarrow> tc_adt_reprs ctx adt_id)"

fun auto_adt :: "auto_rec \<Rightarrow> ty_ctx \<Rightarrow> u32 \<Rightarrow> auto_trait list \<Rightarrow> auto_flags \<Rightarrow> auto_state \<Rightarrow> (auto_flags \<times> auto_state) option" where
  "auto_adt f ctx adt_id [] flags st = Some (flags, st)"
| "auto_adt f ctx adt_id (tr # trs) flags st =
    (if has_manual_impl ctx adt_id tr then auto_adt f ctx adt_id trs flags st
     else if has_negative_impl ctx adt_id tr then auto_adt f ctx adt_id trs (flags(tr := False)) st
     else (case auto_field_tys ctx adt_id of
             None \<Rightarrow> Some (flags_empty, st)
           | Some tys \<Rightarrow>
              do {
                (ok, st') \<leftarrow> auto_fields f tr tys st;
                auto_adt f ctx adt_id trs (if ok then flags else flags(tr := False)) st'
              }))"

definition compute_auto_traits_for_kind :: "auto_rec \<Rightarrow> ty_ctx \<Rightarrow> ty_kind \<Rightarrow> auto_state \<Rightarrow> (auto_flags \<times> auto_state) option" where
  "compute_auto_traits_for_kind f ctx k st =
    (case k of
       TBool \<Rightarrow> Some (flags_all, st) | TInt _ \<Rightarrow> Some (flags_all, st) | TUint _ \<Rightarrow> Some (flags_all, st)
     | TFloat _ \<Rightarrow> Some (flags_all, st) | TChar \<Rightarrow> Some (flags_all, st) | TNever \<Rightarrow> Some (flags_all, st)
     | TUnit \<Rightarrow> Some (flags_all, st) | TString \<Rightarrow> Some (flags_all, st)
     | TRef _ inner MutNot \<Rightarrow> do { (g, st') \<leftarrow> f inner st; Some (\<lambda>tr. tr = AtUnpin \<or> g AtSync, st') }
     | TRef _ inner MutMut \<Rightarrow> do { (g, st') \<leftarrow> f inner st; Some (\<lambda>tr. tr = AtUnpin \<or> g tr, st') }
     | TRawPtr _ _ \<Rightarrow> Some (\<lambda>tr. tr = AtUnpin, st)
     | TSlice inner \<Rightarrow> f inner st
     | TArray inner _ \<Rightarrow> f inner st
     | TTuple substs \<Rightarrow> do { ts \<leftarrow> type_list ctx substs; auto_all_of f ts flags_all st }
     | TAdt adt_id _ \<Rightarrow> auto_adt f ctx adt_id [AtSend, AtSync, AtUnpin] flags_all st
     | TFnPtr _ \<Rightarrow> Some (flags_all, st)
     | TFnDef _ _ \<Rightarrow> Some (flags_all, st)
     | TClosure _ substs \<Rightarrow> do { ts \<leftarrow> type_list ctx substs; auto_all_of f ts flags_all st }
     | TDynamic _ _ \<Rightarrow> Some (flags_empty, st)
     | TOpaque opaque_id _ \<Rightarrow> (case tc_opaque_hidden ctx opaque_id of Some hidden \<Rightarrow> f hidden st | None \<Rightarrow> Some (flags_empty, st))
     | _ \<Rightarrow> Some (flags_empty, st))"

primrec compute_auto_traits_recursive :: "nat \<Rightarrow> ty_ctx \<Rightarrow> auto_rec" where
  "compute_auto_traits_recursive 0 ctx t st = None"
| "compute_auto_traits_recursive (Suc n) ctx t st =
    (case fst st t of
       Some flags \<Rightarrow> Some (flags, st)
     | None \<Rightarrow>
        if t \<in> set (snd st) then Some (flags_all, st)
        else do {
          k \<leftarrow> ty_kind_of ctx t;
          (flags, st') \<leftarrow> compute_auto_traits_for_kind (compute_auto_traits_recursive n ctx) ctx k (fst st, t # snd st);
          Some (flags, (fst st')(t \<mapsto> flags), filter (\<lambda>u. u \<noteq> t) (snd st'))
        })"

definition compute_auto_traits :: "nat \<Rightarrow> ty_ctx \<Rightarrow> ty \<Rightarrow> auto_flags option" where
  "compute_auto_traits n ctx t = map_option fst (compute_auto_traits_recursive n ctx t (\<lambda>_. None, []))"

definition implements_auto_trait :: "nat \<Rightarrow> ty_ctx \<Rightarrow> ty \<Rightarrow> auto_trait \<Rightarrow> bool option" where
  "implements_auto_trait n ctx t tr = map_option (\<lambda>flags. flags tr) (compute_auto_traits n ctx t)"

subsection \<open>The rules\<close>

text \<open>One application of the rules: when a type of a kind has a trait, given which types have which.  A data type without
  fields or definition has no auto trait at all unless every trait is settled by an impl.\<close>

definition auto_rule :: "ty_ctx \<Rightarrow> (auto_trait \<Rightarrow> ty \<Rightarrow> bool) \<Rightarrow> auto_trait \<Rightarrow> ty_kind \<Rightarrow> bool" where
  "auto_rule ctx has tr k \<longleftrightarrow>
    (case k of
       TRef _ inner MutNot \<Rightarrow> tr = AtUnpin \<or> has AtSync inner
     | TRef _ inner MutMut \<Rightarrow> tr = AtUnpin \<or> has tr inner
     | TRawPtr _ _ \<Rightarrow> tr = AtUnpin
     | TSlice inner \<Rightarrow> has tr inner
     | TArray inner _ \<Rightarrow> has tr inner
     | TTuple substs \<Rightarrow> (\<exists>ts. type_list ctx substs = Some ts \<and> (\<forall>t\<in>set ts. has tr t))
     | TClosure _ substs \<Rightarrow> (\<exists>ts. type_list ctx substs = Some ts \<and> (\<forall>t\<in>set ts. has tr t))
     | TAdt adt_id _ \<Rightarrow>
         (case auto_field_tys ctx adt_id of
            Some tys \<Rightarrow> has_manual_impl ctx adt_id tr \<or> \<not> has_negative_impl ctx adt_id tr \<and> (\<forall>t\<in>set tys. has tr t)
          | None \<Rightarrow> has_manual_impl ctx adt_id tr \<and> (\<forall>u. has_manual_impl ctx adt_id u \<or> has_negative_impl ctx adt_id u))
     | TOpaque opaque_id _ \<Rightarrow> (\<exists>hidden. tc_opaque_hidden ctx opaque_id = Some hidden \<and> has tr hidden)
     | _ \<Rightarrow> k \<in> {TBool, TChar, TNever, TUnit, TString} \<or> (\<exists>i. k = TInt i) \<or> (\<exists>i. k = TUint i) \<or> (\<exists>f. k = TFloat f) \<or>
         (\<exists>s. k = TFnPtr s) \<or> (\<exists>i s. k = TFnDef i s))"

lemma auto_rule_mono [mono]: "(\<And>tr t. has tr t \<longrightarrow> has' tr t) \<Longrightarrow> auto_rule ctx has tr k \<longrightarrow> auto_rule ctx has' tr k"
  by (auto simp: auto_rule_def split: ty_kind.splits mutability.splits option.splits)

coinductive implements :: "ty_ctx \<Rightarrow> auto_trait \<Rightarrow> ty \<Rightarrow> bool" for ctx where
  implementsI: "ty_kind_of ctx t = Some k \<Longrightarrow> auto_rule ctx (implements ctx) tr k \<Longrightarrow> implements ctx tr t"

lemma implements_iff: "ty_kind_of ctx t = Some k \<Longrightarrow> implements ctx tr t \<longleftrightarrow> auto_rule ctx (implements ctx) tr k"
  by (auto intro: implementsI elim: implements.cases)

subsection \<open>Correctness on types that do not contain themselves\<close>

definition auto_parts :: "ty_ctx \<Rightarrow> ty_kind \<Rightarrow> ty list" where
  "auto_parts ctx k =
    (case k of
       TRef _ inner _ \<Rightarrow> [inner]
     | TSlice inner \<Rightarrow> [inner]
     | TArray inner _ \<Rightarrow> [inner]
     | TTuple substs \<Rightarrow> (case type_list ctx substs of Some ts \<Rightarrow> ts | None \<Rightarrow> [])
     | TClosure _ substs \<Rightarrow> (case type_list ctx substs of Some ts \<Rightarrow> ts | None \<Rightarrow> [])
     | TAdt adt_id _ \<Rightarrow> (case auto_field_tys ctx adt_id of Some tys \<Rightarrow> tys | None \<Rightarrow> [])
     | TOpaque opaque_id _ \<Rightarrow> (case tc_opaque_hidden ctx opaque_id of Some hidden \<Rightarrow> [hidden] | None \<Rightarrow> [])
     | _ \<Rightarrow> [])"

definition substs_known :: "ty_ctx \<Rightarrow> ty_kind \<Rightarrow> bool" where
  "substs_known ctx k \<longleftrightarrow>
    (case k of TTuple substs \<Rightarrow> type_list ctx substs \<noteq> None | TClosure _ substs \<Rightarrow> type_list ctx substs \<noteq> None | _ \<Rightarrow> True)"

text \<open>A set of known types, closed under parts, with a rank that every part decreases.\<close>

definition auto_ranked :: "ty_ctx \<Rightarrow> (ty \<Rightarrow> nat) \<Rightarrow> ty set \<Rightarrow> bool" where
  "auto_ranked ctx rank S \<longleftrightarrow> (\<forall>t\<in>S. \<exists>k. ty_kind_of ctx t = Some k \<and> substs_known ctx k \<and>
     (\<forall>p\<in>set (auto_parts ctx k). p \<in> S \<and> rank p < rank t))"

definition auto_of :: "ty_ctx \<Rightarrow> ty \<Rightarrow> auto_flags" where
  "auto_of ctx t = (\<lambda>tr. implements ctx tr t)"

definition cache_ok :: "ty_ctx \<Rightarrow> (ty \<Rightarrow> auto_flags option) \<Rightarrow> bool" where
  "cache_ok ctx c \<longleftrightarrow> (\<forall>u f. c u = Some f \<longrightarrow> f = auto_of ctx u)"

text \<open>A call answers a type correctly, keeps the cache correct and leaves the set of types under evaluation alone.\<close>

definition answers :: "ty_ctx \<Rightarrow> auto_rec \<Rightarrow> ty list \<Rightarrow> ty \<Rightarrow> bool" where
  "answers ctx f ev t \<longleftrightarrow> (\<forall>c. cache_ok ctx c \<longrightarrow> (\<exists>c'. f t (c, ev) = Some (auto_of ctx t, c', ev) \<and> cache_ok ctx c'))"

lemma auto_all_of_answers:
  "(\<And>t. t \<in> set ts \<Longrightarrow> answers ctx f ev t) \<Longrightarrow> cache_ok ctx c \<Longrightarrow>
    \<exists>c'. auto_all_of f ts flags (c, ev) = Some (\<lambda>tr. flags tr \<and> (\<forall>t\<in>set ts. implements ctx tr t), c', ev) \<and> cache_ok ctx c'"
proof (induction ts arbitrary: flags c)
  case (Cons t ts)
  obtain c1 where c1: "f t (c, ev) = Some (auto_of ctx t, c1, ev)" "cache_ok ctx c1"
    using Cons.prems by (auto simp: answers_def)
  obtain c2 where "auto_all_of f ts (\<lambda>tr. flags tr \<and> auto_of ctx t tr) (c1, ev) =
      Some (\<lambda>tr. (flags tr \<and> auto_of ctx t tr) \<and> (\<forall>t\<in>set ts. implements ctx tr t), c2, ev)" "cache_ok ctx c2"
    using Cons.IH [where c = c1 and flags = "\<lambda>tr. flags tr \<and> auto_of ctx t tr"] Cons.prems(1) c1(2) by auto
  then show ?case using c1(1) by (auto simp: auto_of_def)
qed simp

lemma auto_fields_answers:
  "(\<And>t. t \<in> set ts \<Longrightarrow> answers ctx f ev t) \<Longrightarrow> cache_ok ctx c \<Longrightarrow>
    \<exists>c'. auto_fields f tr ts (c, ev) = Some (\<forall>t\<in>set ts. implements ctx tr t, c', ev) \<and> cache_ok ctx c'"
proof (induction ts arbitrary: c)
  case (Cons t ts)
  obtain c1 where c1: "f t (c, ev) = Some (auto_of ctx t, c1, ev)" "cache_ok ctx c1"
    using Cons.prems by (auto simp: answers_def)
  obtain c2 where "auto_fields f tr ts (c1, ev) = Some (\<forall>t\<in>set ts. implements ctx tr t, c2, ev)" "cache_ok ctx c2"
    using Cons.IH [of c1] Cons.prems(1) c1(2) by auto
  then show ?case using c1 by (auto simp: auto_of_def)
qed simp

text \<open>What the loop over the traits leaves of the flags.\<close>

definition adt_has :: "ty_ctx \<Rightarrow> u32 \<Rightarrow> ty list \<Rightarrow> auto_trait \<Rightarrow> bool" where
  "adt_has ctx adt_id tys tr \<longleftrightarrow>
    has_manual_impl ctx adt_id tr \<or> \<not> has_negative_impl ctx adt_id tr \<and> (\<forall>t\<in>set tys. implements ctx tr t)"

lemma auto_adt_answers:
  assumes "auto_field_tys ctx adt_id = Some tys" "\<And>t. t \<in> set tys \<Longrightarrow> answers ctx f ev t"
  shows "cache_ok ctx c \<Longrightarrow> \<exists>c'. auto_adt f ctx adt_id trs flags (c, ev) =
      Some (\<lambda>tr. flags tr \<and> (tr \<in> set trs \<longrightarrow> adt_has ctx adt_id tys tr), c', ev) \<and> cache_ok ctx c'"
proof (induction trs arbitrary: flags c)
  case (Cons tr trs)
  obtain c1 where c1: "auto_fields f tr tys (c, ev) = Some (\<forall>t\<in>set tys. implements ctx tr t, c1, ev)" "cache_ok ctx c1"
    using auto_fields_answers [OF assms(2) Cons.prems] by blast
  let ?flags = "if adt_has ctx adt_id tys tr then flags else flags(tr := False)"
  have IH: "\<exists>c'. auto_adt f ctx adt_id trs ?flags (d, ev) =
      Some (\<lambda>u. ?flags u \<and> (u \<in> set trs \<longrightarrow> adt_has ctx adt_id tys u), c', ev) \<and> cache_ok ctx c'" if "cache_ok ctx d" for d
    by (rule Cons.IH [OF that])
  have eq: "(\<lambda>u. ?flags u \<and> (u \<in> set trs \<longrightarrow> adt_has ctx adt_id tys u)) =
      (\<lambda>u. flags u \<and> (u \<in> set (tr # trs) \<longrightarrow> adt_has ctx adt_id tys u))" by (auto simp: fun_eq_iff)
  show ?case
    using IH [OF Cons.prems] IH [OF c1(2)] c1(1) assms(1) unfolding eq by (auto simp: adt_has_def split: if_splits)
qed simp

lemma auto_adt_unknown:
  assumes "auto_field_tys ctx adt_id = None"
  shows "auto_adt f ctx adt_id trs flags st =
    Some (\<lambda>tr. flags tr \<and> (\<forall>u\<in>set trs. has_manual_impl ctx adt_id u \<or> has_negative_impl ctx adt_id u) \<and>
      (tr \<in> set trs \<longrightarrow> has_manual_impl ctx adt_id tr), st)"
  using assms by (induction trs arbitrary: flags) (auto simp: flags_empty_def fun_eq_iff)

lemma all_auto_traits: "set [AtSend, AtSync, AtUnpin] = UNIV"
  by (auto intro: auto_trait.exhaust)

lemma for_kind_answers:
  assumes "\<And>p. p \<in> set (auto_parts ctx k) \<Longrightarrow> answers ctx f ev p" "substs_known ctx k" "cache_ok ctx c"
  shows "\<exists>c'. compute_auto_traits_for_kind f ctx k (c, ev) = Some (\<lambda>tr. auto_rule ctx (implements ctx) tr k, c', ev) \<and> cache_ok ctx c'"
proof -
  note defs [simp] = compute_auto_traits_for_kind_def auto_rule_def auto_parts_def substs_known_def flags_all_def flags_empty_def auto_of_def
  show ?thesis
  proof (cases k)
    case (TRef r inner m)
    then obtain c' where "f inner (c, ev) = Some (auto_of ctx inner, c', ev)" "cache_ok ctx c'"
      using assms(1,3) by (auto simp: answers_def)
    then show ?thesis using TRef by (cases m) (auto simp: fun_eq_iff)
  next
    case (TSlice inner)
    then show ?thesis using assms(1,3) by (auto simp: answers_def)
  next
    case (TArray inner len)
    then show ?thesis using assms(1,3) by (auto simp: answers_def)
  next
    case (TTuple substs)
    then obtain ts where ts: "type_list ctx substs = Some ts" using assms(2) by auto
    then show ?thesis
      using TTuple auto_all_of_answers [of ts ctx f ev c flags_all] assms(1,3) by auto
  next
    case (TClosure i substs)
    then obtain ts where ts: "type_list ctx substs = Some ts" using assms(2) by auto
    then show ?thesis
      using TClosure auto_all_of_answers [of ts ctx f ev c flags_all] assms(1,3) by auto
  next
    case (TAdt adt_id substs)
    show ?thesis
    proof (cases "auto_field_tys ctx adt_id")
      case None
      then show ?thesis
        using TAdt auto_adt_unknown [OF None, of f "[AtSend, AtSync, AtUnpin]" flags_all "(c, ev)"] assms(3)
        unfolding all_auto_traits by (auto simp: fun_eq_iff)
    next
      case (Some tys)
      then show ?thesis
        using TAdt auto_adt_answers [OF Some, of f ev c "[AtSend, AtSync, AtUnpin]" flags_all] assms(1,3)
        unfolding all_auto_traits by (auto simp: adt_has_def)
    qed
  next
    case (TOpaque i substs)
    then show ?thesis using assms(1,3) by (cases "tc_opaque_hidden ctx i") (auto simp: answers_def)
  qed (use assms(3) in auto)
qed

lemma recursive_answers:
  assumes "auto_ranked ctx rank S"
  shows "t \<in> S \<Longrightarrow> rank t < n \<Longrightarrow> (\<And>u. u \<in> set ev \<Longrightarrow> rank t < rank u) \<Longrightarrow> answers ctx (compute_auto_traits_recursive n ctx) ev t"
proof (induction n arbitrary: t ev)
  case (Suc n)
  obtain k where k: "ty_kind_of ctx t = Some k" "substs_known ctx k" "\<And>p. p \<in> set (auto_parts ctx k) \<Longrightarrow> p \<in> S \<and> rank p < rank t"
    using assms Suc.prems(1) unfolding auto_ranked_def by blast
  have new: "t \<notin> set ev" using Suc.prems(3) by blast
  have flags: "auto_of ctx t = (\<lambda>tr. auto_rule ctx (implements ctx) tr k)" using implements_iff [OF k(1)] by (simp add: auto_of_def)
  show ?case
    unfolding answers_def
  proof (intro allI impI)
    fix c assume c: "cache_ok ctx c"
    show "\<exists>c'. compute_auto_traits_recursive (Suc n) ctx t (c, ev) = Some (auto_of ctx t, c', ev) \<and> cache_ok ctx c'"
    proof (cases "c t")
      case None
      have "answers ctx (compute_auto_traits_recursive n ctx) (t # ev) p" if "p \<in> set (auto_parts ctx k)" for p
        using k(3) [OF that] Suc.prems(2,3) by (intro Suc.IH) force+
      then obtain c' where r: "compute_auto_traits_for_kind (compute_auto_traits_recursive n ctx) ctx k (c, t # ev) =
          Some (\<lambda>tr. auto_rule ctx (implements ctx) tr k, c', t # ev)" "cache_ok ctx c'"
        using for_kind_answers [OF _ k(2) c] by blast
      have "filter (\<lambda>u. u \<noteq> t) ev = ev" using new by (auto simp: filter_id_conv)
      moreover have "cache_ok ctx (c'(t \<mapsto> auto_of ctx t))" using r(2) by (auto simp: cache_ok_def)
      ultimately show ?thesis using None new k(1) r(1) by (simp add: flags)
    next
      case (Some g)
      then show ?thesis using c by (auto simp: cache_ok_def)
    qed
  qed
qed simp

text \<open>C14. On types that do not contain themselves the auto traits are computed, with any fuel above the rank, and a type
  has a trait exactly by the greatest solution of the rules for references, pointers, aggregates and impls.\<close>

theorem compute_auto_traits_correct:
  assumes "auto_ranked ctx rank S" "t \<in> S" "rank t < n"
  shows "implements_auto_trait n ctx t tr = Some (implements ctx tr t)"
proof -
  have "answers ctx (compute_auto_traits_recursive n ctx) [] t" by (rule recursive_answers [OF assms]) simp
  then obtain c where "compute_auto_traits_recursive n ctx t (\<lambda>_. None, []) = Some (auto_of ctx t, c, [])"
    by (auto simp: answers_def cache_ok_def)
  then show ?thesis by (simp add: implements_auto_trait_def compute_auto_traits_def auto_of_def)
qed

subsection \<open>Examples\<close>

text \<open>\<open>struct A { b: B, p: *mut i32 }\<close>, \<open>struct B { a: A }\<close>, \<open>struct M { a: A }\<close> with a manual \<open>Send\<close> impl, and an
  enum \<open>E\<close> with one variant that holds a \<open>*mut i32\<close>.  Types: 0 is \<open>i32\<close>, 1 the pointer, 2 \<open>B\<close>, 3 \<open>A\<close>, 4 \<open>M\<close>,
  5 \<open>(M, B)\<close>, 6 \<open>E\<close>, 7 \<open>&i32\<close>, 8 \<open>(i32, &i32)\<close>, 9 \<open>String\<close>, 10 \<open>struct S { s: String }\<close>.\<close>

definition auto_def :: "adt_kind \<Rightarrow> ty list \<Rightarrow> ty list \<Rightarrow> adt_def" where
  "auto_def kind tys payload = \<lparr>ad_kind = kind, ad_fields = map (\<lambda>t. \<lparr>fd_name = 0, fd_ty = t\<rparr>) tys,
     ad_variants = (if kind = AdtEnum then [\<lparr>vd_name = 0, vd_fields = map (\<lambda>t. \<lparr>fd_name = 0, fd_ty = t\<rparr>) payload, vd_style = StyleTuple\<rparr>] else []),
     ad_generic_params = []\<rparr>"

abbreviation empty_subst :: substitution where
  "empty_subst \<equiv> \<lparr>sub_index = 0, sub_len = 0\<rparr>"

definition auto_ctx :: ty_ctx where
  "auto_ctx = example_ctx\<lparr>tc_arena := \<lparr>ar_types =
       [TInt I32, TRawPtr 0 MutMut, TAdt 1 empty_subst, TAdt 0 empty_subst, TAdt 2 empty_subst, TTuple \<lparr>sub_index = 0, sub_len = 2\<rparr>,
        TAdt 3 empty_subst, TRef ReErased 0 MutNot, TTuple \<lparr>sub_index = 1, sub_len = 2\<rparr>,
        TString, TAdt 4 empty_subst],
       ar_flags = replicate 11 0, ar_substs = [[GaTy 4, GaTy 2], [GaTy 0, GaTy 7]], ar_index = (\<lambda>_. None)\<rparr>,
     tc_adt_defs := [0 \<mapsto> auto_def AdtStruct [2, 1] [], 1 \<mapsto> auto_def AdtStruct [3] [], 2 \<mapsto> auto_def AdtStruct [3] [],
       3 \<mapsto> auto_def AdtEnum [] [1], 4 \<mapsto> auto_def AdtStruct [9] []],
     tc_manual_impls := {(2, AtSend)}, tc_negative_impls := {}\<rparr>"

theorem compute_auto_traits_correct_witness:
  "implements_auto_trait 9 auto_ctx 8 AtSync = Some True \<and> implements auto_ctx AtSync 8"
proof -
  have k: "ty_kind_of auto_ctx 0 = Some (TInt I32)" "ty_kind_of auto_ctx 7 = Some (TRef ReErased 0 MutNot)"
      "ty_kind_of auto_ctx 8 = Some (TTuple \<lparr>sub_index = 1, sub_len = 2\<rparr>)"
      "type_list auto_ctx \<lparr>sub_index = 1, sub_len = 2\<rparr> = Some [0, 7]" by code_simp+
  have "auto_ranked auto_ctx unat {0, 7, 8}"
    by (auto simp: auto_ranked_def k auto_parts_def substs_known_def)
  from compute_auto_traits_correct [OF this, of 8 9 AtSync]
  have "implements_auto_trait 9 auto_ctx 8 AtSync = Some (implements auto_ctx AtSync 8)" by simp
  moreover have "implements_auto_trait 9 auto_ctx 8 AtSync = Some True" by code_simp
  ultimately show ?thesis by simp
qed

text \<open>While \<open>A\<close> is under evaluation, \<open>B\<close> is cached as \<open>Send\<close>; the entry outlives the assumption.  So \<open>(M, B)\<close> is
  accepted as \<open>Send\<close> although \<open>B\<close> alone is rejected.\<close>

lemma auto_cache_unsound:
  "implements_auto_trait 20 auto_ctx 5 AtSend = Some True \<and> implements_auto_trait 20 auto_ctx 2 AtSend = Some False \<and>
   \<not> implements auto_ctx AtSend 5"
proof -
  have k: "ty_kind_of auto_ctx 1 = Some (TRawPtr 0 MutMut)" "ty_kind_of auto_ctx 2 = Some (TAdt 1 empty_subst)"
      "ty_kind_of auto_ctx 3 = Some (TAdt 0 empty_subst)" "ty_kind_of auto_ctx 5 = Some (TTuple \<lparr>sub_index = 0, sub_len = 2\<rparr>)"
      "type_list auto_ctx \<lparr>sub_index = 0, sub_len = 2\<rparr> = Some [4, 2]"
      "auto_field_tys auto_ctx 1 = Some [3]" "auto_field_tys auto_ctx 0 = Some [2, 1]"
      "\<not> has_manual_impl auto_ctx 0 AtSend" "\<not> has_manual_impl auto_ctx 1 AtSend" by code_simp+
  have "\<not> implements auto_ctx AtSend 1" by (simp add: implements_iff [OF k(1)] auto_rule_def)
  then have "\<not> implements auto_ctx AtSend 3" by (simp add: implements_iff [OF k(3)] auto_rule_def k)
  then have "\<not> implements auto_ctx AtSend 2" by (simp add: implements_iff [OF k(2)] auto_rule_def k)
  then have "\<not> implements auto_ctx AtSend 5" by (simp add: implements_iff [OF k(4)] auto_rule_def k)
  moreover have "implements_auto_trait 20 auto_ctx 5 AtSend = Some True" "implements_auto_trait 20 auto_ctx 2 AtSend = Some False"
    by code_simp+
  ultimately show ?thesis by simp
qed

text \<open>Only the fields of the definition count, and an enum has none: what its variants hold is ignored.\<close>

lemma auto_traits_ignore_variants: "implements_auto_trait 20 auto_ctx 6 AtSend = Some True"
  by code_simp

text \<open>The drop query looks only at variants, and the definition of a struct has none: a struct that owns a string is taken
  to need no drop glue.\<close>

lemma needs_drop_ignores_fields: "needs_drop 20 auto_ctx 9 = Some True \<and> needs_drop 20 auto_ctx 10 = Some False"
  by code_simp

end
