(* ===== verification/Solver.thy ===== *)
theory Solver
  imports Auto_Traits Infer
begin

text \<open>
  The trait solver of \<^verbatim>\<open>crates/glyim-solve/src/solver.rs\<close> and the obligation queue of \<^verbatim>\<open>fulfill.rs\<close>: trait and impl
  registration with the coherence check, matching of trait references, the search for an applicable impl, coercion
  predicates and the processing of obligations.  Signature tables of functions and closures are an argument.  \<open>None\<close> is
  a panic or a recursion deeper than the fuel.
\<close>

subsection \<open>Registered traits and impls\<close>

datatype builtin_trait = BuiltinCopy | BuiltinSized | BuiltinSend | BuiltinSync | BuiltinUnpin

datatype solver_result = Proven | Ambiguous | DefiniteNo

record solver_trait_def =
  std_def_id :: u32
  std_name :: name
  std_associated_types :: "name list"
  std_predicates :: "predicate list"

record impl_def =
  im_def_id :: u32
  im_trait_ref :: trait_ref
  im_predicates :: "predicate list"

record trait_context =
  tx_trait_defs :: "solver_trait_def list"
  tx_impl_defs :: "impl_def list"
  tx_lang_traits :: "u32 \<Rightarrow> builtin_trait option"
  tx_next_fn :: "u32 option"

definition trait_context_new :: trait_context where
  "trait_context_new = \<lparr>tx_trait_defs = [], tx_impl_defs = [], tx_lang_traits = (\<lambda>_. None), tx_next_fn = None\<rparr>"

definition register_trait :: "solver_trait_def \<Rightarrow> trait_context \<Rightarrow> trait_context" where
  "register_trait d tx = tx\<lparr>tx_trait_defs := tx_trait_defs tx @ [d]\<rparr>"

definition register_impl :: "impl_def \<Rightarrow> trait_context \<Rightarrow> trait_context" where
  "register_impl d tx = tx\<lparr>tx_impl_defs := tx_impl_defs tx @ [d]\<rparr>"

definition register_lang_trait :: "u32 \<Rightarrow> builtin_trait \<Rightarrow> trait_context \<Rightarrow> trait_context" where
  "register_lang_trait d b tx = tx\<lparr>tx_lang_traits := (tx_lang_traits tx)(d \<mapsto> b)\<rparr>"

definition set_builtin_iterator_next :: "u32 \<Rightarrow> trait_context \<Rightarrow> trait_context" where
  "set_builtin_iterator_next f tx = tx\<lparr>tx_next_fn := Some f\<rparr>"

definition impls_of_trait :: "trait_context \<Rightarrow> u32 \<Rightarrow> impl_def list" where
  "impls_of_trait tx trait_id = filter (\<lambda>i. tr_def_id (im_trait_ref i) = trait_id) (tx_impl_defs tx)"

definition trait_name :: "trait_context \<Rightarrow> u32 \<Rightarrow> name option" where
  "trait_name tx d = map_option std_name (find (\<lambda>t. std_def_id t = d) (tx_trait_defs tx))"

definition substs_has_local_type :: "substitution \<Rightarrow> bool" where
  "substs_has_local_type s \<longleftrightarrow> sub_len s \<noteq> 0"

definition impls_overlap :: "trait_ref \<Rightarrow> trait_ref \<Rightarrow> bool" where
  "impls_overlap a b \<longleftrightarrow> tr_def_id a = tr_def_id b \<and> tr_substs a = tr_substs b"

datatype coherence_error = OrphanRule u32 | OverlapRule u32 u32

definition check_coherence :: "trait_context \<Rightarrow> impl_def \<Rightarrow> coherence_error + unit" where
  "check_coherence tx d =
    (if \<not> substs_has_local_type (tr_substs (im_trait_ref d)) then Inl (OrphanRule (tr_def_id (im_trait_ref d)))
     else (case find (\<lambda>i. im_def_id i \<noteq> im_def_id d \<and> impls_overlap (im_trait_ref d) (im_trait_ref i))
             (impls_of_trait tx (tr_def_id (im_trait_ref d))) of
             Some i \<Rightarrow> Inl (OverlapRule (im_def_id d) (im_def_id i))
           | None \<Rightarrow> Inr ()))"

subsection \<open>Matching\<close>

fun generic_args_match :: "(ty \<Rightarrow> ty \<Rightarrow> bool option) \<Rightarrow> generic_arg \<Rightarrow> generic_arg \<Rightarrow> bool option" where
  "generic_args_match m (GaTy t) (GaTy s) = m t s"
| "generic_args_match m (GaLifetime _) (GaLifetime _) = Some True"
| "generic_args_match m (GaConst c) (GaConst d) = Some (c = d)"
| "generic_args_match m _ _ = Some False"

definition substs_match :: "ty_ctx \<Rightarrow> (ty \<Rightarrow> ty \<Rightarrow> bool option) \<Rightarrow> substitution \<Rightarrow> substitution \<Rightarrow> bool option" where
  "substs_match ctx m ps is =
    do {
      as \<leftarrow> substitution_args ctx ps;
      bs \<leftarrow> substitution_args ctx is;
      if length as \<noteq> length bs then Some False else all_opt (\<lambda>(x, y). generic_args_match m x y) (zip as bs)
    }"

definition and_opt :: "bool option \<Rightarrow> bool option \<Rightarrow> bool option" where
  "and_opt x y = (case x of None \<Rightarrow> None | Some b \<Rightarrow> if b then y else Some False)"

definition sigs_match :: "ty_ctx \<Rightarrow> (ty \<Rightarrow> ty \<Rightarrow> bool option) \<Rightarrow> fn_sig \<Rightarrow> fn_sig \<Rightarrow> bool option" where
  "sigs_match ctx m f g =
    (if fs_c_variadic f \<noteq> fs_c_variadic g \<or> fs_unsafety f \<noteq> fs_unsafety g \<or> fs_abi f \<noteq> fs_abi g then Some False
     else and_opt (m (fs_output f) (fs_output g)) (substs_match ctx m (fs_inputs f) (fs_inputs g)))"

definition kinds_match :: "ty_ctx \<Rightarrow> (ty \<Rightarrow> ty \<Rightarrow> bool option) \<Rightarrow> ty_kind \<Rightarrow> ty_kind \<Rightarrow> bool option" where
  "kinds_match ctx m p i =
    (case p of
       TAdt pid ps \<Rightarrow> (case i of TAdt iid is \<Rightarrow> if pid \<noteq> iid then Some False else substs_match ctx m ps is | _ \<Rightarrow> Some False)
     | TRef _ t a \<Rightarrow> (case i of TRef _ s b \<Rightarrow> if a \<noteq> b then Some False else m t s | _ \<Rightarrow> Some False)
     | TRawPtr t a \<Rightarrow> (case i of TRawPtr s b \<Rightarrow> if a \<noteq> b then Some False else m t s | _ \<Rightarrow> Some False)
     | TSlice t \<Rightarrow> (case i of TSlice s \<Rightarrow> m t s | _ \<Rightarrow> Some False)
     | TArray t _ \<Rightarrow> (case i of TArray s _ \<Rightarrow> m t s | _ \<Rightarrow> Some False)
     | TTuple ps \<Rightarrow> (case i of TTuple is \<Rightarrow> substs_match ctx m ps is | _ \<Rightarrow> Some False)
     | TNever \<Rightarrow> Some (i = TNever)
     | TUnit \<Rightarrow> Some (i = TUnit)
     | TBool \<Rightarrow> Some (i = TBool)
     | TInt a \<Rightarrow> Some (i = TInt a)
     | TUint a \<Rightarrow> Some (i = TUint a)
     | TFloat a \<Rightarrow> Some (i = TFloat a)
     | TFnPtr f \<Rightarrow> (case i of TFnPtr g \<Rightarrow> sigs_match ctx m f g | _ \<Rightarrow> Some False)
     | _ \<Rightarrow> Some False)"

primrec tys_match :: "nat \<Rightarrow> ty_ctx \<Rightarrow> ty \<Rightarrow> ty \<Rightarrow> bool option" where
  "tys_match 0 ctx t s = None"
| "tys_match (Suc n) ctx t s =
    (if t = s then Some True
     else do {
       p \<leftarrow> ty_kind_of ctx t;
       i \<leftarrow> ty_kind_of ctx s;
       if (case i of TParam _ \<Rightarrow> True | _ \<Rightarrow> False) \<or> (case p of TInfer _ \<Rightarrow> True | _ \<Rightarrow> False) then Some True
       else kinds_match ctx (tys_match n ctx) p i
     })"

definition matches_trait_ref :: "nat \<Rightarrow> ty_ctx \<Rightarrow> trait_ref \<Rightarrow> trait_ref \<Rightarrow> bool option" where
  "matches_trait_ref n ctx p i =
    (if tr_def_id p \<noteq> tr_def_id i then Some False else substs_match ctx (tys_match n ctx) (tr_substs p) (tr_substs i))"

subsection \<open>Coercion\<close>

record coerce_tables =
  ct_fn_sig :: "u32 \<Rightarrow> fn_sig option"
  ct_closure_sig :: "u32 \<Rightarrow> fn_sig option"
  ct_closure_adt :: "u32 \<Rightarrow> u32 option"

definition closure_captures :: "coerce_tables \<Rightarrow> ty_ctx \<Rightarrow> u32 \<Rightarrow> nat" where
  "closure_captures tabs ctx closure_id =
    (case ct_closure_adt tabs closure_id of
       None \<Rightarrow> 0
     | Some adt_id \<Rightarrow>
        (case tc_adt_defs ctx adt_id of
           None \<Rightarrow> 0
         | Some def \<Rightarrow> (case ad_variants def of [] \<Rightarrow> 0 | v # _ \<Rightarrow> length (vd_fields v))))"

definition same_types :: "generic_arg \<times> generic_arg \<Rightarrow> bool" where
  "same_types p = (case p of (GaTy t, GaTy s) \<Rightarrow> t = s | _ \<Rightarrow> False)"

definition closure_coerces :: "coerce_tables \<Rightarrow> ty_ctx \<Rightarrow> u32 \<Rightarrow> fn_sig \<Rightarrow> bool option" where
  "closure_coerces tabs ctx closure_id target =
    (case ct_closure_sig tabs closure_id of
       None \<Rightarrow> Some False
     | Some sig \<Rightarrow>
        if closure_captures tabs ctx closure_id \<noteq> 0 then Some False
        else do {
          inputs \<leftarrow> substitution_args ctx (fs_inputs sig);
          target_inputs \<leftarrow> substitution_args ctx (fs_inputs target);
          Some (length inputs = length target_inputs \<and> list_all same_types (zip inputs target_inputs) \<and> fs_output sig = fs_output target)
        })"

text \<open>The mutability test of references and of raw pointers: equal mutability is enough by itself.\<close>

definition pointer_coerces :: "(ty \<Rightarrow> ty \<Rightarrow> bool option) \<Rightarrow> ty \<Rightarrow> mutability \<Rightarrow> ty \<Rightarrow> mutability \<Rightarrow> bool option" where
  "pointer_coerces c t a s b = (if a = b then Some True else if a = MutMut \<and> b = MutNot then c t s else Some False)"

text \<open>\<open>solver.rs\<close>: a reference coerces to a raw pointer too.\<close>

primrec can_coerce :: "nat \<Rightarrow> coerce_tables \<Rightarrow> ty_ctx \<Rightarrow> ty \<Rightarrow> ty \<Rightarrow> bool option" where
  "can_coerce 0 tabs ctx a b = None"
| "can_coerce (Suc n) tabs ctx a b =
    (if a = b then Some True
     else do {
       ka \<leftarrow> ty_kind_of ctx a;
       kb \<leftarrow> ty_kind_of ctx b;
       case ka of
         TArray t _ \<Rightarrow> Some (kb = TSlice t)
       | TRef _ t m \<Rightarrow>
           (case kb of
              TRef _ s l \<Rightarrow> pointer_coerces (can_coerce n tabs ctx) t m s l
            | TRawPtr s l \<Rightarrow> if m \<noteq> l then Some False else can_coerce n tabs ctx t s
            | _ \<Rightarrow> Some False)
       | TRawPtr t m \<Rightarrow> (case kb of TRawPtr s l \<Rightarrow> pointer_coerces (can_coerce n tabs ctx) t m s l | _ \<Rightarrow> Some False)
       | TFnDef f _ \<Rightarrow> (case kb of TFnPtr target \<Rightarrow> Some (ct_fn_sig tabs f = Some target) | _ \<Rightarrow> Some False)
       | TClosure c _ \<Rightarrow> (case kb of TFnPtr target \<Rightarrow> closure_coerces tabs ctx c target | _ \<Rightarrow> Some False)
       | _ \<Rightarrow> Some False
     })"

text \<open>\<open>fulfill.rs\<close>: the same without the coercion of references to raw pointers.\<close>

primrec fulfill_can_coerce :: "nat \<Rightarrow> coerce_tables \<Rightarrow> ty_ctx \<Rightarrow> ty \<Rightarrow> ty \<Rightarrow> bool option" where
  "fulfill_can_coerce 0 tabs ctx a b = None"
| "fulfill_can_coerce (Suc n) tabs ctx a b =
    (if a = b then Some True
     else do {
       ka \<leftarrow> ty_kind_of ctx a;
       kb \<leftarrow> ty_kind_of ctx b;
       case ka of
         TArray t _ \<Rightarrow> Some (kb = TSlice t)
       | TRef _ t m \<Rightarrow> (case kb of TRef _ s l \<Rightarrow> pointer_coerces (fulfill_can_coerce n tabs ctx) t m s l | _ \<Rightarrow> Some False)
       | TRawPtr t m \<Rightarrow> (case kb of TRawPtr s l \<Rightarrow> pointer_coerces (fulfill_can_coerce n tabs ctx) t m s l | _ \<Rightarrow> Some False)
       | TFnDef f _ \<Rightarrow> (case kb of TFnPtr target \<Rightarrow> Some (ct_fn_sig tabs f = Some target) | _ \<Rightarrow> Some False)
       | TClosure c _ \<Rightarrow> (case kb of TFnPtr target \<Rightarrow> closure_coerces tabs ctx c target | _ \<Rightarrow> Some False)
       | _ \<Rightarrow> Some False
     })"

subsection \<open>The solver\<close>

fun builtin_holds :: "nat \<Rightarrow> ty_ctx \<Rightarrow> builtin_trait \<Rightarrow> ty \<Rightarrow> bool option" where
  "builtin_holds n ctx BuiltinCopy t = is_copy n ctx t"
| "builtin_holds n ctx BuiltinSized t = is_sized n ctx t"
| "builtin_holds n ctx BuiltinSend t = implements_auto_trait n ctx t AtSend"
| "builtin_holds n ctx BuiltinSync t = implements_auto_trait n ctx t AtSync"
| "builtin_holds n ctx BuiltinUnpin t = implements_auto_trait n ctx t AtUnpin"

definition answer :: "bool \<Rightarrow> solver_result" where
  "answer b = (if b then Proven else DefiniteNo)"

text \<open>The builtin trait of a reference and its self type, if it has both.\<close>

definition builtin_query :: "trait_context \<Rightarrow> ty_ctx \<Rightarrow> trait_ref \<Rightarrow> (builtin_trait \<times> ty) option option" where
  "builtin_query tx ctx r =
    (case tx_lang_traits tx (tr_def_id r) of
       None \<Rightarrow> Some None
     | Some b \<Rightarrow> map_option (\<lambda>ts. case ts of [] \<Rightarrow> None | t # _ \<Rightarrow> Some (b, t)) (type_list ctx (tr_substs r)))"

fun filter_opt :: "('a \<Rightarrow> bool option) \<Rightarrow> 'a list \<Rightarrow> 'a list option" where
  "filter_opt f [] = Some []"
| "filter_opt f (x # xs) = do { b \<leftarrow> f x; ys \<leftarrow> filter_opt f xs; Some (if b then x # ys else ys) }"

text \<open>The predicates of an impl in order: the first that fails ends the loop.\<close>

fun eval_all :: "(predicate \<Rightarrow> solver_result option) \<Rightarrow> predicate list \<Rightarrow> bool \<Rightarrow> solver_result option" where
  "eval_all e [] amb = Some (if amb then Ambiguous else Proven)"
| "eval_all e (p # ps) amb =
    do {
      r \<leftarrow> e p;
      case r of Proven \<Rightarrow> eval_all e ps amb | Ambiguous \<Rightarrow> eval_all e ps True | DefiniteNo \<Rightarrow> Some DefiniteNo
    }"

definition select_impl :: "solver_result list \<Rightarrow> solver_result" where
  "select_impl rs =
    (if 1 < count_list rs Proven then Ambiguous
     else if count_list rs Proven = 1 then Proven
     else if 0 < count_list rs Ambiguous then Ambiguous
     else DefiniteNo)"

definition prove_trait ::
  "nat \<Rightarrow> (predicate \<Rightarrow> solver_result option) \<Rightarrow> trait_context \<Rightarrow> ty_ctx \<Rightarrow> trait_predicate \<Rightarrow> solver_result option" where
  "prove_trait n e tx ctx tp =
    (let r = tp_trait_ref tp; impls = impls_of_trait tx (tr_def_id r);
         candidate = (\<lambda>d. matches_trait_ref n ctx r (im_trait_ref d))
     in if tp_polarity tp = Negative
        then do { b \<leftarrow> any_opt candidate impls; Some (if b then DefiniteNo else Ambiguous) }
        else do {
          q \<leftarrow> builtin_query tx ctx r;
          case q of
            Some (b, t) \<Rightarrow> map_option answer (builtin_holds n ctx b t)
          | None \<Rightarrow>
              do {
                ds \<leftarrow> filter_opt candidate impls;
                if ds = [] then Some DefiniteNo
                else do { rs \<leftarrow> map_opt (\<lambda>d. eval_all e (im_predicates d) False) ds; Some (select_impl rs) }
              }
        })"

definition positive :: "trait_ref \<Rightarrow> trait_predicate" where
  "positive r = \<lparr>tp_trait_ref = r, tp_polarity = Positive\<rparr>"

definition try_resolve_projection ::
  "(trait_predicate \<Rightarrow> solver_result option) \<Rightarrow> ty_ctx \<Rightarrow> ty \<Rightarrow> solver_result option" where
  "try_resolve_projection prove ctx t =
    do {
      k \<leftarrow> ty_kind_of ctx t;
      case k of TProjection p \<Rightarrow> prove (positive (pt_trait_ref p)) | _ \<Rightarrow> Some Proven
    }"

primrec evaluate_predicate :: "nat \<Rightarrow> coerce_tables \<Rightarrow> trait_context \<Rightarrow> ty_ctx \<Rightarrow> predicate \<Rightarrow> solver_result option" where
  "evaluate_predicate 0 tabs tx ctx p = None"
| "evaluate_predicate (Suc n) tabs tx ctx p =
    (let prove = prove_trait n (evaluate_predicate n tabs tx ctx) tx ctx in
     case p of
       PTrait tp \<Rightarrow> prove tp
     | PWellFormed t \<Rightarrow> try_resolve_projection prove ctx t
     | PTypeOutlives t _ \<Rightarrow> try_resolve_projection prove ctx t
     | PRegionOutlives _ _ \<Rightarrow> Some Proven
     | PCoerce a b \<Rightarrow> do { c \<leftarrow> can_coerce n tabs ctx a b; Some (if c then Proven else Ambiguous) })"

definition can_prove :: "nat \<Rightarrow> coerce_tables \<Rightarrow> trait_context \<Rightarrow> ty_ctx \<Rightarrow> trait_predicate \<Rightarrow> solver_result option" where
  "can_prove n tabs tx ctx tp = prove_trait n (evaluate_predicate n tabs tx ctx) tx ctx tp"

text \<open>\<open>iterator_next_info\<close>: the types of a call of \<open>Iterator::next\<close>, with the fixed identifier 1010 of \<open>Option\<close>.\<close>

record iterator_next_info =
  ni_fn_def_id :: u32
  ni_fn_substs :: substitution
  ni_fn_ty :: ty
  ni_option_ty :: ty
  ni_discr_ty :: ty
  ni_ref_iter_ty :: ty

definition ctx_intern_substitution :: "ty_ctx \<Rightarrow> generic_arg list \<Rightarrow> substitution \<times> ty_ctx" where
  "ctx_intern_substitution ctx args = (let (s, a) = intern_substitution (tc_arena ctx) args in (s, ctx\<lparr>tc_arena := a\<rparr>))"

definition iterator_next :: "trait_context \<Rightarrow> ty \<Rightarrow> ty \<Rightarrow> ty_ctx \<Rightarrow> (iterator_next_info option \<times> ty_ctx) option" where
  "iterator_next tx iter_ty elem_ty ctx =
    (case tx_next_fn tx of
       None \<Rightarrow> Some (None, ctx)
     | Some f \<Rightarrow>
        let (substs, ctx1) = ctx_intern_substitution ctx [GaTy iter_ty] in
        do {
          (fn_ty, ctx2) \<leftarrow> mk_ty ctx1 (TFnDef f substs);
          let (opt_subst, ctx3) = ctx_intern_substitution ctx2 [GaTy elem_ty];
          (option_ty, ctx4) \<leftarrow> mk_ty ctx3 (TAdt 1010 opt_subst);
          (discr_ty, ctx5) \<leftarrow> mk_ty ctx4 (TUint U8);
          (ref_iter_ty, ctx6) \<leftarrow> mk_ref ctx5 ReErased iter_ty MutMut;
          Some (Some \<lparr>ni_fn_def_id = f, ni_fn_substs = substs, ni_fn_ty = fn_ty, ni_option_ty = option_ty,
            ni_discr_ty = discr_ty, ni_ref_iter_ty = ref_iter_ty\<rparr>, ctx6)
        })"

subsection \<open>Obligations\<close>

datatype cause_code = CauseWellFormed | CauseTypeConstruction | CauseMatchArm | CauseIfThenElse

record obligation =
  ob_predicate :: predicate
  ob_span :: span
  ob_code :: cause_code

datatype fulfill_message = AmbiguousBound trait_predicate | UnsatisfiedBound trait_predicate

record fulfillment =
  fc_obligations :: "obligation list"
  fc_processed :: nat
  fc_diagnostics :: "(span \<times> fulfill_message) list"

definition fulfillment_new :: fulfillment where
  "fulfillment_new = \<lparr>fc_obligations = [], fc_processed = 0, fc_diagnostics = []\<rparr>"

definition register_obligation :: "obligation \<Rightarrow> fulfillment \<Rightarrow> fulfillment" where
  "register_obligation ob f = f\<lparr>fc_obligations := fc_obligations f @ [ob]\<rparr>"

definition obligation_diagnostics :: "obligation \<Rightarrow> trait_predicate \<Rightarrow> solver_result \<Rightarrow> (span \<times> fulfill_message) list" where
  "obligation_diagnostics ob tp r =
    (case r of Proven \<Rightarrow> [] | Ambiguous \<Rightarrow> [(ob_span ob, AmbiguousBound tp)] | DefiniteNo \<Rightarrow> [(ob_span ob, UnsatisfiedBound tp)])"

text \<open>The loop of \<open>process_obligations\<close> over the queue; an overflow error carries the predicate and the count.\<close>

fun process_queue ::
  "(trait_predicate \<Rightarrow> solver_result option) \<Rightarrow> nat \<Rightarrow> obligation list \<Rightarrow> nat \<Rightarrow> (span \<times> fulfill_message) list \<Rightarrow>
    (((predicate \<times> nat) + unit) \<times> fulfillment) option" where
  "process_queue prove limit [] processed ds =
    Some (Inr (), \<lparr>fc_obligations = [], fc_processed = processed, fc_diagnostics = ds\<rparr>)"
| "process_queue prove limit (ob # obs) processed ds =
    (if limit < processed + 1
     then Some (Inl (ob_predicate ob, processed + 1), \<lparr>fc_obligations = obs, fc_processed = processed + 1, fc_diagnostics = ds\<rparr>)
     else (case ob_predicate ob of
        PTrait tp \<Rightarrow> do { r \<leftarrow> prove tp; process_queue prove limit obs (processed + 1) (ds @ obligation_diagnostics ob tp r) }
      | _ \<Rightarrow> process_queue prove limit obs (processed + 1) ds))"

definition process_obligations ::
  "(trait_predicate \<Rightarrow> solver_result option) \<Rightarrow> nat \<Rightarrow> fulfillment \<Rightarrow> (((predicate \<times> nat) + unit) \<times> fulfillment) option" where
  "process_obligations prove limit f = process_queue prove limit (fc_obligations f) (fc_processed f) (fc_diagnostics f)"

end
