(* ===== verification/Solver_Props.thy ===== *)
theory Solver_Props
  imports Solver
begin

text \<open>
  The answers of the trait solver against a declarative specification: matching of impls as an inductive relation on
  types, provability of predicates as an inductive derivation, and the obligation queue over any solver whose answers
  are right (locale \<open>trait_solver\<close>, interpreted on \<open>can_prove\<close>).
\<close>

subsection \<open>Matching\<close>

fun arg_rel :: "(ty \<Rightarrow> ty \<Rightarrow> bool) \<Rightarrow> generic_arg \<Rightarrow> generic_arg \<Rightarrow> bool" where
  "arg_rel R (GaTy t) (GaTy s) = R t s"
| "arg_rel R (GaLifetime _) (GaLifetime _) = True"
| "arg_rel R (GaConst c) (GaConst d) = (c = d)"
| "arg_rel R _ _ = False"

lemma arg_rel_mono [mono]: "(\<And>t s. R t s \<longrightarrow> R' t s) \<Longrightarrow> arg_rel R x y \<longrightarrow> arg_rel R' x y"
  by (cases x; cases y) auto

definition substs_rel :: "ty_ctx \<Rightarrow> (ty \<Rightarrow> ty \<Rightarrow> bool) \<Rightarrow> substitution \<Rightarrow> substitution \<Rightarrow> bool" where
  "substs_rel ctx R ps is \<longleftrightarrow>
    (\<exists>as bs. substitution_args ctx ps = Some as \<and> substitution_args ctx is = Some bs \<and> list_all2 (arg_rel R) as bs)"

lemma substs_rel_mono [mono]: "(\<And>t s. R t s \<longrightarrow> R' t s) \<Longrightarrow> substs_rel ctx R ps is \<longrightarrow> substs_rel ctx R' ps is"
proof -
  assume "\<And>t s. R t s \<longrightarrow> R' t s"
  then have "arg_rel R x y \<Longrightarrow> arg_rel R' x y" for x y using arg_rel_mono [of R R' x y] by blast
  then show ?thesis by (auto simp: substs_rel_def elim!: list_all2_mono)
qed

text \<open>The heads agree and the parts are related; lifetimes and array lengths are not compared.\<close>

definition kind_rel :: "ty_ctx \<Rightarrow> (ty \<Rightarrow> ty \<Rightarrow> bool) \<Rightarrow> ty_kind \<Rightarrow> ty_kind \<Rightarrow> bool" where
  "kind_rel ctx R p i \<longleftrightarrow>
    (case p of
       TAdt a ps \<Rightarrow> (\<exists>is. i = TAdt a is \<and> substs_rel ctx R ps is)
     | TRef _ t m \<Rightarrow> (\<exists>r s. i = TRef r s m \<and> R t s)
     | TRawPtr t m \<Rightarrow> (\<exists>s. i = TRawPtr s m \<and> R t s)
     | TSlice t \<Rightarrow> (\<exists>s. i = TSlice s \<and> R t s)
     | TArray t _ \<Rightarrow> (\<exists>s l. i = TArray s l \<and> R t s)
     | TTuple ps \<Rightarrow> (\<exists>is. i = TTuple is \<and> substs_rel ctx R ps is)
     | TFnPtr f \<Rightarrow> (\<exists>g. i = TFnPtr g \<and> fs_c_variadic f = fs_c_variadic g \<and> fs_unsafety f = fs_unsafety g \<and> fs_abi f = fs_abi g \<and>
         R (fs_output f) (fs_output g) \<and> substs_rel ctx R (fs_inputs f) (fs_inputs g))
     | TNever \<Rightarrow> i = p | TUnit \<Rightarrow> i = p | TBool \<Rightarrow> i = p | TInt _ \<Rightarrow> i = p | TUint _ \<Rightarrow> i = p | TFloat _ \<Rightarrow> i = p
     | _ \<Rightarrow> False)"

lemma kind_rel_mono [mono]: "(\<And>t s. R t s \<longrightarrow> R' t s) \<Longrightarrow> kind_rel ctx R p i \<longrightarrow> kind_rel ctx R' p i"
  using substs_rel_mono [of R R' ctx] unfolding kind_rel_def by (cases p) auto

text \<open>A type matches an impl type: it is the same, the impl type is a parameter, the type is an inference variable, or
  the heads agree and the parts match.\<close>

inductive ty_matches :: "ty_ctx \<Rightarrow> ty \<Rightarrow> ty \<Rightarrow> bool" for ctx where
  same: "ty_matches ctx t t"
| param: "ty_kind_of ctx t \<noteq> None \<Longrightarrow> ty_kind_of ctx s = Some (TParam p) \<Longrightarrow> ty_matches ctx t s"
| infer: "ty_kind_of ctx t = Some (TInfer v) \<Longrightarrow> ty_kind_of ctx s \<noteq> None \<Longrightarrow> ty_matches ctx t s"
| parts: "ty_kind_of ctx t = Some k \<Longrightarrow> ty_kind_of ctx s = Some l \<Longrightarrow> kind_rel ctx (ty_matches ctx) k l \<Longrightarrow> ty_matches ctx t s"

inductive_cases ty_matchesE: "ty_matches ctx t s"

definition ref_matches :: "ty_ctx \<Rightarrow> trait_ref \<Rightarrow> trait_ref \<Rightarrow> bool" where
  "ref_matches ctx r s \<longleftrightarrow> tr_def_id r = tr_def_id s \<and> substs_rel ctx (ty_matches ctx) (tr_substs r) (tr_substs s)"

lemma all_opt_rel:
  assumes "\<And>x y b. m x y = Some b \<Longrightarrow> b = R x y"
  shows "all_opt (\<lambda>(x, y). generic_args_match m x y) (zip as bs) = Some b \<Longrightarrow> length as = length bs \<Longrightarrow> b = list_all2 (arg_rel R) as bs"
proof (induction as arbitrary: bs b)
  case (Cons x as)
  then obtain y bs' where bs: "bs = y # bs'" by (cases bs) auto
  have "c = arg_rel R x y" if "generic_args_match m x y = Some c" for c
    using that assms by (cases x; cases y) auto
  then show ?case using Cons by (auto simp: bs split: option.splits if_splits)
qed simp

lemma substs_match_rel:
  assumes "\<And>x y b. m x y = Some b \<Longrightarrow> b = R x y"
  shows "substs_match ctx m ps is = Some b \<Longrightarrow> b = substs_rel ctx R ps is"
proof -
  assume r: "substs_match ctx m ps is = Some b"
  then obtain as bs where a: "substitution_args ctx ps = Some as" "substitution_args ctx is = Some bs"
    by (auto simp: substs_match_def bind_eq_Some_conv)
  show ?thesis
  proof (cases "length as = length bs")
    case True
    then show ?thesis using r a all_opt_rel [of m R as bs b, OF assms] by (simp add: substs_match_def substs_rel_def)
  next
    case False
    then show ?thesis using r a list_all2_lengthD [of "arg_rel R" as bs] by (auto simp: substs_match_def substs_rel_def)
  qed
qed

lemma kinds_match_rel:
  assumes "\<And>x y b. m x y = Some b \<Longrightarrow> b = R x y"
  shows "kinds_match ctx m p i = Some b \<Longrightarrow> b = kind_rel ctx R p i"
  using assms substs_match_rel [of m R, OF assms]
  by (cases p; cases i) (auto simp: kinds_match_def kind_rel_def sigs_match_def and_opt_def split: if_splits option.splits)

lemma tys_match_spec: "tys_match n ctx t s = Some b \<Longrightarrow> b = ty_matches ctx t s"
proof (induction n arbitrary: t s b)
  case (Suc n)
  show ?case
  proof (cases "t = s")
    case True
    then show ?thesis using Suc.prems by (auto intro: ty_matches.same)
  next
    case False
    then obtain p i where k: "ty_kind_of ctx t = Some p" "ty_kind_of ctx s = Some i"
      using Suc.prems by (auto simp: bind_eq_Some_conv)
    show ?thesis
    proof (cases "(\<exists>v. i = TParam v) \<or> (\<exists>v. p = TInfer v)")
      case True
      then have "b" "ty_matches ctx t s" using Suc.prems False k by (auto intro: ty_matches.param ty_matches.infer)
      then show ?thesis by simp
    next
      case other: False
      then have "kinds_match ctx (tys_match n ctx) p i = Some b"
        using Suc.prems False k by (auto split: ty_kind.splits)
      from kinds_match_rel [OF Suc.IH this] have b: "b = kind_rel ctx (ty_matches ctx) p i" .
      have "ty_matches ctx t s \<longleftrightarrow> kind_rel ctx (ty_matches ctx) p i"
        using False k other by (auto elim!: ty_matchesE intro: ty_matches.parts)
      with b show ?thesis by simp
    qed
  qed
qed simp

lemma matches_trait_ref_spec: "matches_trait_ref n ctx r s = Some b \<Longrightarrow> b = ref_matches ctx r s"
  using substs_match_rel [of "tys_match n ctx" "ty_matches ctx", OF tys_match_spec]
  by (auto simp: matches_trait_ref_def ref_matches_def split: if_splits)

subsection \<open>Builtin traits do not depend on the fuel\<close>

lemma all_opt_ext:
  "(\<And>x b. x \<in> set xs \<Longrightarrow> f x = Some b \<Longrightarrow> g x = Some b) \<Longrightarrow> all_opt f xs = Some b \<Longrightarrow> all_opt g xs = Some b"
  by (induction xs) (force split: option.splits if_splits)+

lemma is_copy_fuel: "is_copy n ctx t = Some b \<Longrightarrow> n \<le> m \<Longrightarrow> is_copy m ctx t = Some b"
proof (induction n arbitrary: m t b)
  case (Suc n)
  obtain k where m: "m = Suc k" "n \<le> k" using Suc.prems(2) by (cases m) auto
  note IH = Suc.IH [OF _ m(2)]
  have ext: "all_opt (is_copy n ctx) ts = Some c \<Longrightarrow> all_opt (is_copy k ctx) ts = Some c" for ts c
    by (erule all_opt_ext [rotated], erule IH)
  obtain kind where kind: "ty_kind_of ctx t = Some kind"
    using Suc.prems(1) by (cases "ty_kind_of ctx t") simp_all
  show ?case
    using Suc.prems(1) by (cases kind) (auto simp: m(1) kind split: option.splits dest: IH ext)
qed simp

lemma is_sized_fuel: "is_sized n ctx t = Some b \<Longrightarrow> n \<le> m \<Longrightarrow> is_sized m ctx t = Some b"
proof (induction n arbitrary: m t b)
  case (Suc n)
  obtain k where m: "m = Suc k" "n \<le> k" using Suc.prems(2) by (cases m) auto
  note IH = Suc.IH [OF _ m(2)]
  have ext: "all_opt (is_sized n ctx) ts = Some c \<Longrightarrow> all_opt (is_sized k ctx) ts = Some c"
    "all_opt (\<lambda>f. is_sized n ctx (fd_ty f)) fs = Some c \<Longrightarrow> all_opt (\<lambda>f. is_sized k ctx (fd_ty f)) fs = Some c" for ts fs c
    by (erule all_opt_ext [rotated], erule IH)+
  have ext2: "all_opt (\<lambda>v. all_opt (\<lambda>f. is_sized n ctx (fd_ty f)) (vd_fields v)) vs = Some c \<Longrightarrow>
      all_opt (\<lambda>v. all_opt (\<lambda>f. is_sized k ctx (fd_ty f)) (vd_fields v)) vs = Some c" for vs c
    by (erule all_opt_ext [rotated], erule ext)
  obtain kind where kind: "ty_kind_of ctx t = Some kind"
    using Suc.prems(1) by (cases "ty_kind_of ctx t") simp_all
  show ?case
    using Suc.prems(1) by (cases kind) (auto simp: m(1) kind split: option.splits dest: IH ext ext2)
qed simp

text \<open>A call of the auto trait computation that returns keeps its result when its callee returns more often.\<close>

definition auto_extends :: "auto_rec \<Rightarrow> auto_rec \<Rightarrow> bool" where
  "auto_extends f g \<longleftrightarrow> (\<forall>t st r. f t st = Some r \<longrightarrow> g t st = Some r)"

lemma auto_extendsD: "auto_extends f g \<Longrightarrow> f t st = Some r \<Longrightarrow> g t st = Some r"
  unfolding auto_extends_def by blast

lemma auto_all_of_ext: "auto_extends f g \<Longrightarrow> auto_all_of f ts flags st = Some r \<Longrightarrow> auto_all_of g ts flags st = Some r"
  by (induction ts arbitrary: flags st) (auto simp: bind_eq_Some_conv dest: auto_extendsD)

lemma auto_fields_ext: "auto_extends f g \<Longrightarrow> auto_fields f tr ts st = Some r \<Longrightarrow> auto_fields g tr ts st = Some r"
proof (induction ts arbitrary: st)
  case (Cons t ts)
  obtain h st' where h: "f t st = Some (h, st')" using Cons.prems(2) by (auto simp: bind_eq_Some_conv)
  from h auto_extendsD [OF Cons.prems(1) h] Cons show ?case by (cases "h tr") simp_all
qed simp

lemma auto_adt_ext: "auto_extends f g \<Longrightarrow> auto_adt f ctx i trs flags st = Some r \<Longrightarrow> auto_adt g ctx i trs flags st = Some r"
proof (induction trs arbitrary: flags st)
  case (Cons tr trs)
  consider "has_manual_impl ctx i tr \<or> has_negative_impl ctx i tr \<or> auto_field_tys ctx i = None"
    | tys ok st' where "\<not> has_manual_impl ctx i tr" "\<not> has_negative_impl ctx i tr" "auto_field_tys ctx i = Some tys"
        "auto_fields f tr tys st = Some (ok, st')"
    using Cons.prems(2) by (auto simp: bind_eq_Some_conv split: option.splits if_splits)
  then show ?case
  proof cases
    case 1
    then show ?thesis using Cons by (auto split: if_splits)
  next
    case 2
    from 2 auto_fields_ext [OF Cons.prems(1) 2(4)] Cons show ?thesis by simp
  qed
qed simp

lemma for_kind_ext:
  assumes "auto_extends f g" "compute_auto_traits_for_kind f ctx k st = Some r"
  shows "compute_auto_traits_for_kind g ctx k st = Some r"
proof -
  note dests = auto_extendsD [OF assms(1)] auto_all_of_ext [OF assms(1)] auto_adt_ext [OF assms(1)]
  note defs = compute_auto_traits_for_kind_def bind_eq_Some_conv
  show ?thesis
  proof (cases k)
    case (TRef x inner m)
    then show ?thesis using assms(2) by (cases m) (auto simp: defs dest: dests)
  next
    case (TOpaque x y)
    then show ?thesis using assms(2) by (cases "tc_opaque_hidden ctx x") (auto simp: defs dest: dests)
  qed (use assms(2) in \<open>auto simp: defs simp del: auto_adt.simps auto_all_of.simps dest: dests\<close>)
qed

lemma compute_auto_traits_fuel: "n \<le> m \<Longrightarrow> auto_extends (compute_auto_traits_recursive n ctx) (compute_auto_traits_recursive m ctx)"
proof (induction n arbitrary: m)
  case (Suc n)
  obtain k where m: "m = Suc k" "n \<le> k" using Suc.prems by (cases m) auto
  have "compute_auto_traits_recursive (Suc k) ctx t st = Some r" if run: "compute_auto_traits_recursive (Suc n) ctx t st = Some r" for t st r
  proof (cases "fst st t \<noteq> None \<or> t \<in> set (snd st)")
    case True
    then show ?thesis using that by (auto split: option.splits)
  next
    case False
    then obtain kind p where "ty_kind_of ctx t = Some kind"
        "compute_auto_traits_for_kind (compute_auto_traits_recursive n ctx) ctx kind (fst st, t # snd st) = Some p"
      using run by (auto simp: bind_eq_Some_conv)
    with run False for_kind_ext [OF Suc.IH [OF m(2)] this(2)] show ?thesis by simp
  qed
  then show ?case unfolding auto_extends_def m(1) by blast
qed (simp add: auto_extends_def)

lemma builtin_holds_fuel: "builtin_holds n ctx b t = Some x \<Longrightarrow> n \<le> m \<Longrightarrow> builtin_holds m ctx b t = Some x"
proof -
  assume r: "builtin_holds n ctx b t = Some x" and le: "n \<le> m"
  have "implements_auto_trait n ctx t tr = Some x \<Longrightarrow> implements_auto_trait m ctx t tr = Some x" for tr
    unfolding implements_auto_trait_def compute_auto_traits_def map_option_eq_Some
    by (erule exE, erule conjE)+ (metis auto_extendsD [OF compute_auto_traits_fuel [OF le]])
  with r show ?thesis using is_copy_fuel [OF _ le] is_sized_fuel [OF _ le] by (cases b) simp_all
qed

lemma builtin_holds_unique: "builtin_holds n ctx b t = Some x \<Longrightarrow> builtin_holds m ctx b t = Some y \<Longrightarrow> x = y"
  using builtin_holds_fuel [of n ctx b t x "max n m"] builtin_holds_fuel [of m ctx b t y "max n m"] by simp

subsection \<open>Provable predicates\<close>

text \<open>What the registered traits and impls make true.  A negative predicate is never derivable.\<close>

inductive derivable :: "coerce_tables \<Rightarrow> trait_context \<Rightarrow> ty_ctx \<Rightarrow> predicate \<Rightarrow> bool" for tabs tx ctx where
  builtin: "builtin_query tx ctx r = Some (Some (b, t)) \<Longrightarrow> builtin_holds n ctx b t = Some True \<Longrightarrow> derivable tabs tx ctx (PTrait (positive r))"
| impl: "builtin_query tx ctx r = Some None \<Longrightarrow> d \<in> set (tx_impl_defs tx) \<Longrightarrow> ref_matches ctx r (im_trait_ref d) \<Longrightarrow>
    (\<And>p. p \<in> set (im_predicates d) \<Longrightarrow> derivable tabs tx ctx p) \<Longrightarrow> derivable tabs tx ctx (PTrait (positive r))"
| well_formed: "ty_kind_of ctx t = Some k \<Longrightarrow> (\<And>pr. k = TProjection pr \<Longrightarrow> derivable tabs tx ctx (PTrait (positive (pt_trait_ref pr)))) \<Longrightarrow>
    derivable tabs tx ctx (PWellFormed t)"
| type_outlives: "ty_kind_of ctx t = Some k \<Longrightarrow> (\<And>pr. k = TProjection pr \<Longrightarrow> derivable tabs tx ctx (PTrait (positive (pt_trait_ref pr)))) \<Longrightarrow>
    derivable tabs tx ctx (PTypeOutlives t rg)"
| region_outlives: "derivable tabs tx ctx (PRegionOutlives a b)"
| coerce: "can_coerce n tabs ctx a b = Some True \<Longrightarrow> derivable tabs tx ctx (PCoerce a b)"

inductive_cases derivable_traitE: "derivable tabs tx ctx (PTrait tp)"
inductive_simps derivable_well_formed: "derivable tabs tx ctx (PWellFormed t)"
inductive_simps derivable_type_outlives: "derivable tabs tx ctx (PTypeOutlives t rg)"

text \<open>An answer is right: what is proven is derivable, what is refused is not.\<close>

definition right :: "bool \<Rightarrow> solver_result \<Rightarrow> bool" where
  "right d r \<longleftrightarrow> (r = Proven \<longrightarrow> d) \<and> (r = DefiniteNo \<longrightarrow> \<not> d)"

lemma eval_all_right:
  assumes "\<And>p r. e p = Some r \<Longrightarrow> right (D p) r"
  shows "eval_all e ps amb = Some r \<Longrightarrow> right ((\<forall>p\<in>set ps. D p)) r \<and> (amb \<longrightarrow> r \<noteq> Proven)"
proof (induction ps arbitrary: amb)
  case (Cons p ps)
  then obtain x where x: "e p = Some x" by (auto simp: bind_eq_Some_conv)
  show ?case using Cons.prems Cons.IH assms [OF x] x by (cases x) (auto simp: right_def)
qed (auto simp: right_def split: if_splits)

lemma select_impl_Proven: "select_impl rs = Proven \<Longrightarrow> Proven \<in> set rs"
  using count_list_0_iff [of rs Proven] by (auto simp: select_impl_def split: if_splits)

lemma select_impl_DefiniteNo: "select_impl rs = DefiniteNo \<Longrightarrow> r \<in> set rs \<Longrightarrow> r = DefiniteNo"
  using count_list_0_iff [of rs Proven] count_list_0_iff [of rs Ambiguous]
  by (cases r) (auto simp: select_impl_def split: if_splits)

lemma filter_opt_set:
  "filter_opt f xs = Some ys \<Longrightarrow> set ys = {x \<in> set xs. f x = Some True} \<and> (\<forall>x\<in>set xs. f x \<noteq> None)"
proof (induction xs arbitrary: ys)
  case (Cons x xs)
  then obtain b zs where "f x = Some b" "filter_opt f xs = Some zs" by (auto simp: bind_eq_Some_conv)
  with Cons show ?case by (cases b) auto
qed simp

text \<open>The impls that \<open>prove_trait\<close> keeps are those of the trait that match.\<close>

lemma candidates_match:
  assumes "filter_opt (\<lambda>d. matches_trait_ref n ctx r (im_trait_ref d)) (impls_of_trait tx (tr_def_id r)) = Some ds"
  shows "set ds = {d \<in> set (tx_impl_defs tx). ref_matches ctx r (im_trait_ref d)}"
proof -
  note ds = filter_opt_set [OF assms]
  have "d \<in> set ds \<longleftrightarrow> ref_matches ctx r (im_trait_ref d)" if "d \<in> set (impls_of_trait tx (tr_def_id r))" for d
    using ds that matches_trait_ref_spec [of n ctx r "im_trait_ref d"] by auto
  moreover have "set ds \<subseteq> set (impls_of_trait tx (tr_def_id r))" using ds by auto
  ultimately show ?thesis by (auto simp: impls_of_trait_def ref_matches_def)
qed

lemma prove_impls_right:
  assumes IH: "\<And>p r. e p = Some r \<Longrightarrow> right (derivable tabs tx ctx p) r"
    and q: "builtin_query tx ctx r = Some None"
    and ds: "set ds = {d \<in> set (tx_impl_defs tx). ref_matches ctx r (im_trait_ref d)}"
    and rs: "map_opt (\<lambda>d. eval_all e (im_predicates d) False) ds = Some rs"
  shows "right (derivable tabs tx ctx (PTrait (positive r))) (select_impl rs)"
proof -
  let ?all = "\<lambda>d. \<forall>p\<in>set (im_predicates d). derivable tabs tx ctx p"
  have each: "right (?all d) x" if "eval_all e (im_predicates d) False = Some x" for d x
    using eval_all_right [of e "derivable tabs tx ctx", OF IH that] by simp
  have "derivable tabs tx ctx (PTrait (positive r))" if yes: "select_impl rs = Proven"
  proof -
    obtain k where k: "k < length rs" "rs ! k = Proven"
      using select_impl_Proven [OF yes] by (auto simp: in_set_conv_nth)
    then have "eval_all e (im_predicates (ds ! k)) False = Some Proven" "ds ! k \<in> set ds" using map_opt_nth [OF rs] by auto
    with each [OF this(1)] ds q show ?thesis by (auto simp: right_def intro: derivable.impl)
  qed
  moreover have "\<not> derivable tabs tx ctx (PTrait (positive r))" if no: "select_impl rs = DefiniteNo"
  proof
    assume "derivable tabs tx ctx (PTrait (positive r))"
    then obtain d where d: "d \<in> set ds" "?all d" using q ds by (auto elim: derivable_traitE simp: positive_def)
    from map_opt_set [OF rs d(1)] select_impl_DefiniteNo [OF no]
    have "eval_all e (im_predicates d) False = Some DefiniteNo" by auto
    from each [OF this] d(2) show False by (simp add: right_def)
  qed
  ultimately show ?thesis by (auto simp: right_def)
qed

lemma prove_trait_right:
  assumes IH: "\<And>p r. e p = Some r \<Longrightarrow> right (derivable tabs tx ctx p) r"
    and run: "prove_trait n e tx ctx tp = Some x"
  shows "right (derivable tabs tx ctx (PTrait tp)) x"
proof (cases "tp_polarity tp")
  case Negative
  then have "\<not> derivable tabs tx ctx (PTrait tp)" by (auto elim!: derivable_traitE simp: positive_def)
  then show ?thesis using run Negative by (auto simp: right_def prove_trait_def Let_def bind_eq_Some_conv split: if_splits)
next
  case Positive
  define r where "r = tp_trait_ref tp"
  have tp: "tp = positive r" using Positive by (cases tp) (simp add: positive_def r_def)
  obtain q where q: "builtin_query tx ctx r = Some q" using run Positive by (auto simp: prove_trait_def Let_def bind_eq_Some_conv r_def)
  show ?thesis
  proof (cases q)
    case (Some bt)
    then obtain b t y where bt: "q = Some (b, t)" and y: "builtin_holds n ctx b t = Some y" "x = answer y"
      using run Positive q by (cases bt) (auto simp: prove_trait_def r_def)
    have "y" if d: "derivable tabs tx ctx (PTrait (positive r))"
    proof -
      from d obtain m where "builtin_holds m ctx b t = Some True"
        using q bt by (auto elim!: derivable_traitE simp: positive_def)
      from builtin_holds_unique [OF y(1) this] show ?thesis by simp
    qed
    moreover have "derivable tabs tx ctx (PTrait (positive r))" if y
      using q bt y(1) that derivable.builtin [of tx ctx r b t n tabs] by simp
    ultimately have "derivable tabs tx ctx (PTrait (positive r)) \<longleftrightarrow> y" by blast
    then show ?thesis by (simp add: y(2) tp right_def answer_def)
  next
    case None
    then obtain ds where ds: "filter_opt (\<lambda>d. matches_trait_ref n ctx r (im_trait_ref d)) (impls_of_trait tx (tr_def_id r)) = Some ds"
      using run Positive q by (auto simp: prove_trait_def r_def bind_eq_Some_conv Let_def)
    note m = candidates_match [OF ds]
    obtain rs where rs: "map_opt (\<lambda>d. eval_all e (im_predicates d) False) ds = Some rs" "x = select_impl rs"
      using run Positive q None ds
      by (cases "ds = []") (auto simp: prove_trait_def r_def bind_eq_Some_conv Let_def select_impl_def)
    from prove_impls_right [OF IH _ m rs(1)] q None show ?thesis by (simp add: tp rs(2))
  qed
qed

lemma try_resolve_right:
  assumes "\<And>tp x. prove tp = Some x \<Longrightarrow> right (derivable tabs tx ctx (PTrait tp)) x"
    and "try_resolve_projection prove ctx t = Some x"
  shows "right (derivable tabs tx ctx (PWellFormed t)) x"
    and "right (derivable tabs tx ctx (PTypeOutlives t rg)) x"
proof -
  obtain k where k: "ty_kind_of ctx t = Some k" using assms(2) by (auto simp: try_resolve_projection_def bind_eq_Some_conv)
  show "right (derivable tabs tx ctx (PWellFormed t)) x" "right (derivable tabs tx ctx (PTypeOutlives t rg)) x"
    using assms k unfolding derivable_well_formed derivable_type_outlives try_resolve_projection_def
    by (cases k; auto simp: right_def)+
qed

lemma evaluate_right: "evaluate_predicate n tabs tx ctx p = Some x \<Longrightarrow> right (derivable tabs tx ctx p) x"
proof (induction n arbitrary: p x)
  case (Suc n)
  note prove = prove_trait_right [OF Suc.IH, of _ n]
  show ?case
  proof (cases p)
    case (PCoerce a b)
    then show ?thesis using Suc.prems by (auto simp: right_def bind_eq_Some_conv intro: derivable.coerce split: if_splits)
  qed (use Suc.prems prove try_resolve_right [OF prove] in \<open>auto simp: right_def Let_def intro: derivable.region_outlives\<close>)
qed simp

lemma can_prove_right: "can_prove n tabs tx ctx tp = Some x \<Longrightarrow> right (derivable tabs tx ctx (PTrait tp)) x"
  unfolding can_prove_def by (rule prove_trait_right [OF evaluate_right])


subsection \<open>The obligation queue over any solver\<close>

definition obligation_answer :: "(trait_predicate \<Rightarrow> solver_result option) \<Rightarrow> obligation \<Rightarrow> (span \<times> fulfill_message) list option" where
  "obligation_answer prove ob =
    (case ob_predicate ob of PTrait tp \<Rightarrow> map_option (obligation_diagnostics ob tp) (prove tp) | _ \<Rightarrow> Some [])"

text \<open>The queue is handled in order up to the limit; each obligation adds its diagnostics.\<close>

lemma process_queue_spec:
  "process_queue prove limit obs k ds = Some (res, f) \<Longrightarrow>
    (let m = min (length obs) (limit - k) in
     \<exists>dss. map_opt (obligation_answer prove) (take m obs) = Some dss \<and> fc_diagnostics f = ds @ concat dss \<and>
       (if m = length obs then res = Inr () \<and> fc_obligations f = [] \<and> fc_processed f = k + m
        else res = Inl (ob_predicate (obs ! m), k + m + 1) \<and> fc_obligations f = drop (m + 1) obs \<and> fc_processed f = k + m + 1))"
proof (induction obs arbitrary: k ds)
  case (Cons ob obs)
  show ?case
  proof (cases "limit < k + 1")
    case True
    then show ?thesis using Cons.prems by auto
  next
    case False
    define m where "m = min (length obs) (limit - (k + 1))"
    have m: "min (length (ob # obs)) (limit - k) = Suc m" using False by (auto simp: m_def)
    obtain d where d: "obligation_answer prove ob = Some d" "process_queue prove limit obs (k + 1) (ds @ d) = Some (res, f)"
      using Cons.prems False by (auto simp: obligation_answer_def bind_eq_Some_conv split: predicate.splits)
    obtain dss where "map_opt (obligation_answer prove) (take m obs) = Some dss" "fc_diagnostics f = (ds @ d) @ concat dss"
      "if m = length obs then res = Inr () \<and> fc_obligations f = [] \<and> fc_processed f = k + 1 + m
       else res = Inl (ob_predicate (obs ! m), k + 1 + m + 1) \<and> fc_obligations f = drop (m + 1) obs \<and> fc_processed f = k + 1 + m + 1"
      using Cons.IH [OF d(2)] unfolding m_def [symmetric] Let_def by blast
    then show ?thesis unfolding m Let_def by (intro exI [of _ "d # dss"]) (auto simp: d(1) split: if_splits)
  qed
qed auto

locale trait_solver =
  fixes prove :: "trait_predicate \<Rightarrow> solver_result option"
    and holds :: "trait_predicate \<Rightarrow> bool"
  assumes proven: "prove tp = Some Proven \<Longrightarrow> holds tp"
    and refuted: "prove tp = Some DefiniteNo \<Longrightarrow> \<not> holds tp"
begin

lemma silent: "obligation_answer prove ob = Some [] \<Longrightarrow> ob_predicate ob = PTrait tp \<Longrightarrow> holds tp"
proof -
  assume a: "obligation_answer prove ob = Some []" and p: "ob_predicate ob = PTrait tp"
  then obtain r where r: "prove tp = Some r" "obligation_diagnostics ob tp r = []" by (auto simp: obligation_answer_def)
  then have "r = Proven" by (cases r) (simp_all add: obligation_diagnostics_def)
  with r(1) show ?thesis by (simp add: proven)
qed

lemma unsatisfied: "obligation_answer prove ob = Some ds \<Longrightarrow> (sp, UnsatisfiedBound tp) \<in> set ds \<Longrightarrow> \<not> holds tp"
proof -
  assume "obligation_answer prove ob = Some ds" "(sp, UnsatisfiedBound tp) \<in> set ds"
  then obtain u r where r: "prove u = Some r" "(sp, UnsatisfiedBound tp) \<in> set (obligation_diagnostics ob u r)"
    by (auto simp: obligation_answer_def split: predicate.splits)
  then have "r = DefiniteNo" "u = tp" by (cases r; simp add: obligation_diagnostics_def)+
  with r(1) show ?thesis by (simp add: refuted)
qed

lemma queue_right:
  assumes "map_opt (obligation_answer prove) obs = Some dss"
  shows "concat dss = [] \<Longrightarrow> ob \<in> set obs \<Longrightarrow> ob_predicate ob = PTrait tp \<Longrightarrow> holds tp"
    and "(sp, UnsatisfiedBound tp) \<in> set (concat dss) \<Longrightarrow> \<not> holds tp"
proof -
  assume "concat dss = []" "ob \<in> set obs" "ob_predicate ob = PTrait tp"
  then show "holds tp" using map_opt_set [OF assms, of ob] silent [of ob tp] by auto
next
  assume "(sp, UnsatisfiedBound tp) \<in> set (concat dss)"
  then obtain ds where "ds \<in> set dss" "(sp, UnsatisfiedBound tp) \<in> set ds" by auto
  then obtain k where "k < length dss" "(sp, UnsatisfiedBound tp) \<in> set (dss ! k)" by (metis in_set_conv_nth)
  then show "\<not> holds tp" using map_opt_nth [OF assms] unsatisfied [of "obs ! k" "dss ! k" sp tp] by auto
qed

end

interpretation solver: trait_solver "can_prove n tabs tx ctx" "\<lambda>tp. derivable tabs tx ctx (PTrait tp)" for n tabs tx ctx
  by unfold_locales (use can_prove_right in \<open>auto simp: right_def\<close>)


subsection \<open>Examples\<close>

text \<open>Types: 0 \<open>i32\<close>, 1 \<open>bool\<close>, 2 the parameter \<open>T\<close>, 3 \<open>Vec<T>\<close>, 4 \<open>Vec<i32>\<close>, 5 \<open>&bool\<close>, 6 \<open>&i32\<close>, 7 \<open>Pair<T, T>\<close>,
  8 \<open>Pair<i32, bool>\<close>.  Impls: \<open>Tr for i32\<close>, \<open>Tr for Vec<T> where T: Tr\<close>, \<open>Dup for Pair<T, T>\<close> and
  \<open>Loop for bool where bool: Loop\<close>.\<close>

definition solver_ctx :: ty_ctx where
  "solver_ctx = example_ctx\<lparr>tc_arena := \<lparr>ar_types =
     [TInt I32, TBool, TParam \<lparr>pty_index = 0, pty_name = 0\<rparr>, TAdt 7 \<lparr>sub_index = 2, sub_len = 1\<rparr>, TAdt 7 \<lparr>sub_index = 0, sub_len = 1\<rparr>,
      TRef ReErased 1 MutNot, TRef ReErased 0 MutNot, TAdt 8 \<lparr>sub_index = 5, sub_len = 2\<rparr>, TAdt 8 \<lparr>sub_index = 6, sub_len = 2\<rparr>],
     ar_flags = replicate 9 0,
     ar_substs = [[GaTy 0], [GaTy 1], [GaTy 2], [GaTy 3], [GaTy 4], [GaTy 2, GaTy 2], [GaTy 0, GaTy 1], [GaTy 7], [GaTy 8]],
     ar_index = (\<lambda>_. None)\<rparr>\<rparr>"

abbreviation one_arg :: "u32 \<Rightarrow> u32 \<Rightarrow> trait_ref" where
  "one_arg trait_id i \<equiv> \<lparr>tr_def_id = trait_id, tr_substs = \<lparr>sub_index = i, sub_len = 1\<rparr>\<rparr>"

definition solver_traits :: trait_context where
  "solver_traits = fold register_impl
     [\<lparr>im_def_id = 200, im_trait_ref = one_arg 100 0, im_predicates = []\<rparr>,
      \<lparr>im_def_id = 201, im_trait_ref = one_arg 100 3, im_predicates = [PTrait (positive (one_arg 100 2))]\<rparr>,
      \<lparr>im_def_id = 202, im_trait_ref = one_arg 101 7, im_predicates = []\<rparr>,
      \<lparr>im_def_id = 203, im_trait_ref = one_arg 102 1, im_predicates = [PTrait (positive (one_arg 102 1))]\<rparr>]
     trait_context_new"

definition no_signatures :: coerce_tables where
  "no_signatures = \<lparr>ct_fn_sig = (\<lambda>_. None), ct_closure_sig = (\<lambda>_. None), ct_closure_adt = (\<lambda>_. None)\<rparr>"


definition example_queue :: fulfillment where
  "example_queue = fold register_obligation
     [\<lparr>ob_predicate = PTrait (positive (one_arg 100 0)), ob_span = span_DUMMY, ob_code = CauseWellFormed\<rparr>,
      \<lparr>ob_predicate = PTrait (positive (one_arg 100 1)), ob_span = span_DUMMY, ob_code = CauseWellFormed\<rparr>] fulfillment_new"


text \<open>The predicates of an impl are evaluated over its own parameters, not over what they matched: a conditional impl
  never applies.\<close>

lemma conditional_impl_refused:
  "evaluate_predicate 9 no_signatures solver_traits solver_ctx (PTrait (positive (one_arg 100 0))) = Some Proven \<and>
   evaluate_predicate 9 no_signatures solver_traits solver_ctx (PTrait (positive (one_arg 100 4))) = Some DefiniteNo"
  by code_simp

text \<open>A parameter matches each of its occurrences on its own: \<open>Pair<i32, bool>\<close> matches \<open>Pair<T, T>\<close>.\<close>

lemma repeated_parameter_matches:
  "evaluate_predicate 9 no_signatures solver_traits solver_ctx (PTrait (positive (one_arg 101 8))) = Some Proven"
  by code_simp

text \<open>An impl that needs itself makes the solver recurse without end.\<close>

lemma self_impl_diverges: "evaluate_predicate n no_signatures solver_traits solver_ctx (PTrait (positive (one_arg 102 1))) = None"
proof (induction n)
  case (Suc n)
  have "builtin_query solver_traits solver_ctx (one_arg 102 1) = Some None"
    "impls_of_trait solver_traits 102 = [\<lparr>im_def_id = 203, im_trait_ref = one_arg 102 1, im_predicates = [PTrait (positive (one_arg 102 1))]\<rparr>]"
    by code_simp+
  moreover have "matches_trait_ref n solver_ctx (one_arg 102 1) (one_arg 102 1) \<in> {None, Some True}"
  proof -
    have "substitution_args solver_ctx \<lparr>sub_index = 1, sub_len = 1\<rparr> = Some [GaTy 1]" by code_simp
    then show ?thesis by (cases n) (simp_all add: matches_trait_ref_def substs_match_def)
  qed
  ultimately show ?case using Suc.IH by (auto simp: prove_trait_def positive_def)
qed simp

text \<open>Equal mutability alone makes references coerce: \<open>&bool\<close> to \<open>&i32\<close>.\<close>

lemma references_coerce:
  "can_coerce 9 no_signatures solver_ctx 5 6 = Some True \<and> fulfill_can_coerce 9 no_signatures solver_ctx 5 6 = Some True"
  by code_simp

text \<open>Obligations other than trait bounds are dropped: a coercion that does not hold leaves no diagnostic.\<close>

lemma other_obligations_dropped:
  "process_obligations prove 5 (register_obligation \<lparr>ob_predicate = PCoerce 0 1, ob_span = span_DUMMY, ob_code = CauseMatchArm\<rparr> fulfillment_new) =
   Some (Inr (), \<lparr>fc_obligations = [], fc_processed = 1, fc_diagnostics = []\<rparr>)"
  by code_simp

text \<open>Overlap is equality of the substitutions: \<open>Tr for Vec<T>\<close> passes the coherence check beside \<open>Tr for Vec<i32>\<close>.\<close>

lemma overlapping_impls_accepted:
  "check_coherence solver_traits \<lparr>im_def_id = 204, im_trait_ref = one_arg 100 4, im_predicates = []\<rparr> = Inr () \<and>
   matches_trait_ref 9 solver_ctx (one_arg 100 4) (one_arg 100 3) = Some True"
  by code_simp

end
