(* ===== verification/Mir.thy ===== *)
theory Mir
  imports Glyim_Types
begin

text \<open>
  The mid-level IR of \<^verbatim>\<open>crates/glyim-mir/src/lib.rs\<close>: bodies as control-flow graphs of
  basic blocks, with places, operands, rvalues, statements and terminators.  Block and
  local indices are raw \<open>u32\<close>s; an \<open>IndexVec\<close> is a list indexed by \<open>unat\<close>.
\<close>

subsection \<open>Data\<close>

datatype projection_elem =
    PDeref
  | PField u32
  | PIndex u32
  | PDowncast u32
  | PConstantIndex (ci_offset: u64) (ci_min_length: u64) (ci_from_end: bool)
  | PSubslice (ss_from: u64) (ss_to: u64) (ss_from_end: bool)

record place =
  pl_local :: u32
  pl_projection :: "projection_elem list"

definition place_new :: "u32 \<Rightarrow> place" where
  "place_new l = \<lparr>pl_local = l, pl_projection = []\<rparr>"

datatype mir_const = MirConst (mc_kind: mir_const_kind) (mc_ty: ty) (mc_span: span)
  and mir_const_kind =
    McInt i128
  | McUint u128
  | McFloatBits u64
  | McBool bool
  | McChar u32
  | McString name
  | McUnit
  | McFn u32 substitution
  | McConstRef u32 substitution
  | McVirtualMethod u32 name
  | McAggregate "mir_const list"
  | McError

datatype operand = Copy place | Move place | Constant mir_const

datatype borrow_kind = BkShared | BkUnique | BkMut bool

datatype cast_kind =
    CastIntToInt | CastFloatToInt | CastIntToFloat | CastFloatToFloat
  | CastPtrToPtr | CastFnPtrToPtr | CastPtrToInt | CastIntToPtr

datatype aggregate_kind =
    AggArray ty | AggTuple | AggAdt u32 u32 substitution | AggClosure u32 substitution

datatype rvalue =
    RvUse operand
  | RvRef place borrow_kind
  | RvBinaryOp bin_op operand operand
  | RvUnaryOp un_op operand
  | RvAggregate aggregate_kind "operand list"
  | RvDiscriminant place
  | RvLen place
  | RvCast cast_kind operand ty
  | RvRepeat operand mir_const

datatype statement_kind =
    StAssign place rvalue
  | StStorageLive u32
  | StStorageDead u32
  | StNop

record statement =
  st_kind :: statement_kind
  st_span :: span

record switch_targets =
  sw_branches :: "(u128 \<times> u32) list"
  sw_otherwise :: u32

definition if_switch :: "u32 \<Rightarrow> u32 \<Rightarrow> switch_targets" where
  "if_switch then_bb else_bb = \<lparr>sw_branches = [(1, then_bb)], sw_otherwise = else_bb\<rparr>"

datatype assert_message = MsgOverflow bin_op | MsgDivisionByZero | MsgRemainderByZero | MsgBoundsCheck

datatype terminator_kind =
    TGoto u32
  | TSwitchInt operand ty switch_targets
  | TReturn
  | TUnreachable
  | TCall operand "operand list" place "u32 option" "u32 option"
  | TAssert operand bool u32 "u32 option" assert_message
  | TDrop place u32 "u32 option"

record terminator =
  tm_kind :: terminator_kind
  tm_span :: span

record basic_block =
  bb_statements :: "statement list"
  bb_terminator :: terminator
  bb_is_cleanup :: bool

definition basic_block_new :: "terminator \<Rightarrow> basic_block" where
  "basic_block_new t = \<lparr>bb_statements = [], bb_terminator = t, bb_is_cleanup = False\<rparr>"

record local_decl =
  ld_ty :: ty
  ld_mutability :: mutability
  ld_span :: span

datatype var_debug_info_value = DbgPlace place | DbgConst mir_const

record var_debug_info =
  vdi_name :: name
  vdi_value :: var_debug_info_value

record body =
  bd_owner :: "u32 \<times> u32"
  bd_blocks :: "basic_block list"
  bd_locals :: "local_decl list"
  bd_arg_count :: nat
  bd_return_ty :: ty
  bd_span :: span
  bd_var_debug_info :: "var_debug_info list"

definition body_dummy :: "u32 \<times> u32 \<Rightarrow> body" where
  "body_dummy owner =
    \<lparr>bd_owner = owner,
     bd_blocks = [basic_block_new \<lparr>tm_kind = TUnreachable, tm_span = span_DUMMY\<rparr>],
     bd_locals = [\<lparr>ld_ty = Ty_UNIT, ld_mutability = MutNot, ld_span = span_DUMMY\<rparr>],
     bd_arg_count = 0, bd_return_ty = Ty_UNIT, bd_span = span_DUMMY, bd_var_debug_info = []\<rparr>"

subsection \<open>Control flow\<close>

text \<open>\<open>cfg_simplify::terminator_successors\<close>, shared by the passes of \<^verbatim>\<open>glyim-opt\<close>.\<close>

definition terminator_successors :: "terminator \<Rightarrow> u32 list" where
  "terminator_successors t =
    (case tm_kind t of
       TGoto target \<Rightarrow> [target]
     | TSwitchInt _ _ targets \<Rightarrow> map snd (sw_branches targets) @ [sw_otherwise targets]
     | TCall _ _ _ target cleanup \<Rightarrow>
         (case target of Some b \<Rightarrow> [b] | None \<Rightarrow> []) @ (case cleanup of Some c \<Rightarrow> [c] | None \<Rightarrow> [])
     | TAssert _ _ target cleanup _ \<Rightarrow> target # (case cleanup of Some c \<Rightarrow> [c] | None \<Rightarrow> [])
     | TDrop _ target cleanup \<Rightarrow> target # (case cleanup of Some c \<Rightarrow> [c] | None \<Rightarrow> [])
     | _ \<Rightarrow> [])"

text \<open>\<open>cfg_simplify::remap_terminator\<close>: an unmapped target becomes block 0.\<close>

definition remap_idx :: "nat option list \<Rightarrow> u32 \<Rightarrow> u32" where
  "remap_idx remap idx =
    (case get remap (unat idx) of Some (Some new) \<Rightarrow> word_of_nat new | _ \<Rightarrow> 0)"

definition remap_terminator :: "nat option list \<Rightarrow> basic_block \<Rightarrow> basic_block" where
  "remap_terminator remap block =
    (let g = remap_idx remap;
         k = (case tm_kind (bb_terminator block) of
               TGoto target \<Rightarrow> TGoto (g target)
             | TSwitchInt d ty targets \<Rightarrow>
                 TSwitchInt d ty \<lparr>sw_branches = map (\<lambda>(v, t). (v, g t)) (sw_branches targets),
                                  sw_otherwise = g (sw_otherwise targets)\<rparr>
             | TCall f args dest target cleanup \<Rightarrow>
                 TCall f args dest (map_option g target) (map_option g cleanup)
             | TAssert c e target cleanup msg \<Rightarrow> TAssert c e (g target) (map_option g cleanup) msg
             | TDrop p target cleanup \<Rightarrow> TDrop p (g target) (map_option g cleanup)
             | other \<Rightarrow> other)
     in block\<lparr>bb_terminator := (bb_terminator block)\<lparr>tm_kind := k\<rparr>\<rparr>)"

lemma successors_remap_terminator:
  "terminator_successors (bb_terminator (remap_terminator remap b))
   = map (remap_idx remap) (terminator_successors (bb_terminator b))"
  by (simp add: terminator_successors_def remap_terminator_def Let_def comp_def
      split: terminator_kind.splits option.splits prod.splits)

lemma remap_terminator_keeps [simp]:
  "bb_statements (remap_terminator remap b) = bb_statements b"
  "bb_is_cleanup (remap_terminator remap b) = bb_is_cleanup b"
  by (simp_all add: remap_terminator_def Let_def)

end
