(* ===== verification/Layout.thy ===== *)
theory Layout
  imports Type_Context
begin

unbundle bit_operations_syntax

text \<open>
  Type layout (\<^verbatim>\<open>crates/glyim-layout/src/lib.rs\<close> and \<^verbatim>\<open>vtable.rs\<close>): sizes and
  alignments are 64-bit words, addition of sizes saturates, and rounding up to an alignment
  wraps.  A result \<open>None\<close> is a panic (a handle outside the arena) or a recursion deeper
  than the fuel; errors of the code are \<open>Inl\<close>.
\<close>

subsection \<open>Sizes and alignments\<close>

definition size_bits :: "u64 \<Rightarrow> u64" where
  "size_bits s = (if unat s * 8 < 2 ^ 64 then s * 8 else - 1)"

definition align_to :: "u64 \<Rightarrow> u64 \<Rightarrow> u64" where
  "align_to s a = (let mask = a - 1 in (s + mask) AND NOT mask)"

definition checked_mul_u64 :: "u64 \<Rightarrow> u64 \<Rightarrow> u64 option" where
  "checked_mul_u64 s rhs = (if unat s * unat rhs < 2 ^ 64 then Some (s * rhs) else None)"

definition size_add :: "u64 \<Rightarrow> u64 \<Rightarrow> u64" where
  "size_add s rhs = (if unat s + unat rhs < 2 ^ 64 then s + rhs else - 1)"

text \<open>The same operations computed without large natural numbers.\<close>

lemma size_add_code [code]: "size_add s r = (if uint s + uint r < 2 ^ 64 then s + r else - 1)"
proof -
  have "unat s + unat r < 2 ^ 64 \<longleftrightarrow> int (unat s + unat r) < int (2 ^ 64)" by (simp only: of_nat_less_iff)
  then show ?thesis by (simp add: size_add_def)
qed

lemma checked_mul_u64_code [code]: "checked_mul_u64 s r = (if uint s * uint r < 2 ^ 64 then Some (s * r) else None)"
proof -
  have "unat s * unat r < 2 ^ 64 \<longleftrightarrow> int (unat s * unat r) < int (2 ^ 64)" by (simp only: of_nat_less_iff)
  then show ?thesis by (simp add: checked_mul_u64_def)
qed

subsection \<open>Layouts\<close>

datatype fields_shape = FsPrimitive | FsArray u64 u64 | FsArbitrary "u64 list"

text \<open>\<open>TagNiche untagged first last start\<close>: the variants \<open>first\<close> to \<open>last\<close> are
  encoded from the value \<open>start\<close> on.\<close>

datatype tag_encoding = TagDirect | TagNiche u32 u32 u32 u128

datatype layout =
    Layout (ly_size: u64) (ly_align: u64) (ly_fields: fields_shape) (ly_variants: variants_shape)
      (ly_is_unsized: bool)
and variants_shape =
    VsSingle u32
  | VsMultiple ty u32 tag_encoding "layout list" u64 u64

definition layout_scalar :: "u64 \<Rightarrow> u64 \<Rightarrow> layout" where
  "layout_scalar s a = Layout s a FsPrimitive (VsSingle 0) False"

definition layout_unit :: layout where
  "layout_unit = Layout 0 1 (FsArbitrary []) (VsSingle 0) False"

datatype pass_mode =
    PmDirect | PmIndirect bool | PmIgnore | PmCast ty bool | PmHomogeneousAggregate ty u32
  | PmSplit "pass_mode list"

datatype call_convention = CcGlyim | CcC | CcSystem

fun call_convention_of :: "abi \<Rightarrow> call_convention" where
  "call_convention_of AbiC = CcC"
| "call_convention_of AbiGlyim = CcGlyim"
| "call_convention_of AbiSystem = CcSystem"

record arg_abi =
  aa_ty :: ty
  aa_layout :: layout
  aa_mode :: pass_mode

record fn_abi =
  fa_args :: "arg_abi list"
  fa_ret :: arg_abi
  fa_conv :: call_convention
  fa_c_variadic :: bool

datatype layout_error =
    LeUnknownType ty | LeSizeOverflow ty | LeUnsized ty | LeCycle ty
  | LeAlignmentExceedsRuntime ty u64 u64 | LeUnknownTrait u32

type_synonym 'a lres = "(layout_error + 'a) option"

definition lret :: "'a \<Rightarrow> 'a lres" where
  "lret x = Some (Inr x)"

definition lerr :: "layout_error \<Rightarrow> 'a lres" where
  "lerr e = Some (Inl e)"

definition lbind :: "'a lres \<Rightarrow> ('a \<Rightarrow> 'b lres) \<Rightarrow> 'b lres" where
  "lbind r f = (case r of None \<Rightarrow> None | Some (Inl e) \<Rightarrow> Some (Inl e) | Some (Inr x) \<Rightarrow> f x)"

subsection \<open>Fields in order\<close>

text \<open>The loop shared by tuples, structs, variants and registered representations: the state
  is the offsets so far, the largest alignment and the current offset.  The layout of a field
  type is a parameter, closed by \<open>layout_of\<close> below.\<close>

definition place_field :: "layout \<Rightarrow> u64 list \<times> u64 \<times> u64 \<Rightarrow> u64 list \<times> u64 \<times> u64" where
  "place_field l = (\<lambda>(offsets, struct_align, current_offset).
     let off = align_to current_offset (ly_align l) in
     (offsets @ [off], max struct_align (ly_align l), size_add off (ly_size l)))"

fun place_fields ::
  "(ty \<Rightarrow> layout lres) \<Rightarrow> ty list \<Rightarrow> u64 list \<times> u64 \<times> u64 \<Rightarrow> (u64 list \<times> u64 \<times> u64) lres" where
  "place_fields lay [] st = lret st"
| "place_fields lay (t # ts) st = lbind (lay t) (\<lambda>l. place_fields lay ts (place_field l st))"

definition finish_fields :: "u64 list \<times> u64 \<times> u64 \<Rightarrow> layout" where
  "finish_fields = (\<lambda>(offsets, struct_align, current_offset).
     Layout (align_to current_offset struct_align) struct_align (FsArbitrary offsets) (VsSingle 0) False)"

definition layout_fields :: "(ty \<Rightarrow> layout lres) \<Rightarrow> ty list \<Rightarrow> layout lres" where
  "layout_fields lay ts = lbind (place_fields lay ts ([], 1, 0)) (\<lambda>st. lret (finish_fields st))"

definition layout_tuple :: "(ty \<Rightarrow> layout lres) \<Rightarrow> ty_ctx \<Rightarrow> substitution \<Rightarrow> layout lres" where
  "layout_tuple lay ctx substs =
    (case substitution_args ctx substs of
       None \<Rightarrow> None
     | Some args \<Rightarrow> if args = [] then lret layout_unit else layout_fields lay (type_args args))"

definition array_count :: "ty_const \<Rightarrow> ty \<Rightarrow> layout_error + u64" where
  "array_count count outer_ty =
    (case ct_kind count of
       CkUint n \<Rightarrow> if uint n < 2 ^ 64 then Inr (ucast n) else Inl (LeSizeOverflow outer_ty)
     | CkInt n \<Rightarrow> if sint n < 0 then Inl (LeSizeOverflow outer_ty)
                 else if sint n < 2 ^ 64 then Inr (ucast n) else Inl (LeSizeOverflow outer_ty)
     | _ \<Rightarrow> Inl (LeUnknownType outer_ty))"

definition layout_array :: "(ty \<Rightarrow> layout lres) \<Rightarrow> ty \<Rightarrow> ty_const \<Rightarrow> ty \<Rightarrow> layout lres" where
  "layout_array lay inner count outer_ty =
    lbind (lay inner) (\<lambda>inner_layout.
      lbind (Some (array_count count outer_ty)) (\<lambda>count_val.
        let stride = align_to (ly_size inner_layout) (ly_align inner_layout) in
        case checked_mul_u64 stride count_val of
          None \<Rightarrow> lerr (LeSizeOverflow outer_ty)
        | Some sz \<Rightarrow> lret (Layout sz (ly_align inner_layout) (FsArray stride count_val) (VsSingle 0) False)))"

definition layout_struct :: "(ty \<Rightarrow> layout lres) \<Rightarrow> adt_def \<Rightarrow> layout lres" where
  "layout_struct lay def = layout_fields lay (map fd_ty (ad_fields def))"

fun union_fields :: "(ty \<Rightarrow> layout lres) \<Rightarrow> ty list \<Rightarrow> u64 \<Rightarrow> u64 \<Rightarrow> (u64 \<times> u64) lres" where
  "union_fields lay [] sz align = lret (sz, align)"
| "union_fields lay (t # ts) sz align =
    lbind (lay t) (\<lambda>l. union_fields lay ts (max sz (ly_size l)) (max align (ly_align l)))"

definition layout_union :: "(ty \<Rightarrow> layout lres) \<Rightarrow> adt_def \<Rightarrow> layout lres" where
  "layout_union lay def =
    lbind (union_fields lay (map fd_ty (ad_fields def)) 0 1) (\<lambda>(sz, align).
      lret (Layout (align_to sz align) align (FsArbitrary (map (\<lambda>_. 0) (ad_fields def))) (VsSingle 0) False))"

definition layout_single_variant_enum :: "(ty \<Rightarrow> layout lres) \<Rightarrow> variant_def \<Rightarrow> layout lres" where
  "layout_single_variant_enum lay v = layout_fields lay (map fd_ty (vd_fields v))"

definition layout_variant_data :: "(ty \<Rightarrow> layout lres) \<Rightarrow> variant_def \<Rightarrow> layout lres" where
  "layout_variant_data lay v = layout_fields lay (map fd_ty (vd_fields v))"

fun layout_variants :: "(ty \<Rightarrow> layout lres) \<Rightarrow> variant_def list \<Rightarrow> layout list lres" where
  "layout_variants lay [] = lret []"
| "layout_variants lay (v # vs) =
    lbind (layout_variant_data lay v) (\<lambda>l. lbind (layout_variants lay vs) (\<lambda>ls. lret (l # ls)))"

subsection \<open>Niches\<close>

definition checked_shl_u128 :: "nat \<Rightarrow> u128 option" where
  "checked_shl_u128 bw = (if bw < 128 then Some (push_bit bw 1) else None)"

definition tag_value_count :: "ty_ctx \<Rightarrow> target_info \<Rightarrow> ty \<Rightarrow> u128 option option" where
  "tag_value_count ctx tgt tag_ty =
    (case ty_kind_of ctx tag_ty of
       None \<Rightarrow> None
     | Some k \<Rightarrow> Some
        (case k of TBool \<Rightarrow> Some 256
         | TInt i \<Rightarrow> checked_shl_u128 (int_bit_width tgt i)
         | TUint i \<Rightarrow> checked_shl_u128 (uint_bit_width tgt i)
         | _ \<Rightarrow> None))"

definition enum_niche :: "u128 \<Rightarrow> nat \<Rightarrow> tag_encoding \<Rightarrow> (u128 \<times> u128) option" where
  "enum_niche full variant_count enc =
    (case enc of
       TagDirect \<Rightarrow>
         (let used = word_of_nat variant_count in
          if used < full then Some (used, full - used) else None)
     | TagNiche _ sv_start sv_end _ \<Rightarrow>
         (if 0 < sv_start then Some (0, ucast sv_start)
          else let start = ucast sv_end + 1 in
               Some (start, if start < full then full - start else 0)))"

definition niche_info ::
  "(ty \<Rightarrow> layout lres) \<Rightarrow> ty_ctx \<Rightarrow> target_info \<Rightarrow> ty \<Rightarrow> (u128 \<times> u128) option option" where
  "niche_info lay ctx tgt t =
    (case ty_kind_of ctx t of
       None \<Rightarrow> None
     | Some k \<Rightarrow>
        (case k of
           TBool \<Rightarrow> Some (Some (2, 254))
         | TRef _ _ _ \<Rightarrow> Some (Some (0, 1))
         | TRawPtr _ _ \<Rightarrow> Some (Some (0, 1))
         | TInt i \<Rightarrow>
             (let bw = int_bit_width tgt i in
              Some (if bw = 8 then Some (0x80, 1)
                    else if bw = 16 then Some (0x8000, 1)
                    else if bw = 32 then Some (0x80000000, 1)
                    else if bw = 64 then Some (0x8000000000000000, 1)
                    else None))
         | TChar \<Rightarrow> Some (Some (0x110000, - 1 - 0x110000 + 1))
         | TAdt adt_id _ \<Rightarrow>
             (case tc_adt_defs ctx adt_id of
                None \<Rightarrow> Some None
              | Some def \<Rightarrow>
                 if ad_kind def \<noteq> AdtEnum then Some None
                 else (case lay t of
                         None \<Rightarrow> None
                       | Some (Inl _) \<Rightarrow> Some None
                       | Some (Inr l) \<Rightarrow>
                          (case ly_variants l of
                             VsSingle _ \<Rightarrow> Some None
                           | VsMultiple tag _ enc _ _ _ \<Rightarrow>
                              (case tag_value_count ctx tgt tag of
                                 None \<Rightarrow> None
                               | Some None \<Rightarrow> Some None
                               | Some (Some full) \<Rightarrow>
                                  Some (case enum_niche full (length (ad_variants def)) enc of
                                          None \<Rightarrow> None
                                        | Some (start, count) \<Rightarrow>
                                            if 0 < count then Some (start, count) else None)))))
         | _ \<Rightarrow> Some None))"

definition usize_to_u32 :: "nat \<Rightarrow> u32 \<Rightarrow> u32" where
  "usize_to_u32 n dflt = (if int n < 2 ^ 32 then word_of_nat n else dflt)"

definition niche_variants :: "nat \<Rightarrow> nat \<Rightarrow> u32 \<times> u32" where
  "niche_variants niche_variant_idx variant_count =
    (if niche_variant_idx = 0 then (1, usize_to_u32 (variant_count - 1) (- 1))
     else (0, usize_to_u32 (niche_variant_idx - 1) 0))"

fun array_offsets :: "nat \<Rightarrow> u64 \<Rightarrow> u64 \<Rightarrow> u64 list" where
  "array_offsets 0 stride off = []"
| "array_offsets (Suc n) stride off = off # array_offsets n stride (size_add off stride)"

definition data_offsets :: "fields_shape \<Rightarrow> u64 list" where
  "data_offsets fs =
    (case fs of FsArbitrary offsets \<Rightarrow> offsets | FsPrimitive \<Rightarrow> [0]
     | FsArray stride count \<Rightarrow> array_offsets (unat count) stride 0)"

definition max_size :: "layout list \<Rightarrow> u64" where
  "max_size ls = fold (\<lambda>l m. max m (ly_size l)) ls 0"

definition max_align :: "layout list \<Rightarrow> u64 \<Rightarrow> u64" where
  "max_align ls init = fold (\<lambda>l m. max m (ly_align l)) ls init"

definition build_niche_layout ::
  "(ty \<Rightarrow> layout lres) \<Rightarrow> layout list \<Rightarrow> nat \<Rightarrow> nat \<Rightarrow> ty \<Rightarrow> u128 \<Rightarrow> nat \<Rightarrow> layout lres" where
  "build_niche_layout lay variant_layouts niche_variant_idx niche_field_idx niche_field_ty niche_start
     variant_count =
    (case get variant_layouts niche_variant_idx of
       None \<Rightarrow> None
     | Some data_layout \<Rightarrow>
        (let (fst_v, lst) = niche_variants niche_variant_idx variant_count;
             align = max_align variant_layouts 1;
             sz = align_to (max_size variant_layouts) align
         in lbind (lay niche_field_ty) (\<lambda>niche_layout.
              lret (Layout sz align (FsArbitrary (data_offsets (ly_fields data_layout)))
                (VsMultiple niche_field_ty (usize_to_u32 niche_field_idx 0)
                  (TagNiche (usize_to_u32 niche_variant_idx 0) fst_v lst niche_start)
                  variant_layouts (ly_size niche_layout) (ly_align niche_layout)) False))))"

text \<open>The search for a niche over the fields of a variant, then over the variants; the inner
  \<open>None\<close> is no niche.\<close>

fun find_niche ::
  "(ty \<Rightarrow> layout lres) \<Rightarrow> ty_ctx \<Rightarrow> target_info \<Rightarrow> u128 \<Rightarrow> nat \<Rightarrow> ty list
   \<Rightarrow> (nat \<times> ty \<times> u128) option option" where
  "find_niche lay ctx tgt needed fi [] = Some None"
| "find_niche lay ctx tgt needed fi (t # ts) =
    (case niche_info lay ctx tgt t of
       None \<Rightarrow> None
     | Some (Some (start, count)) \<Rightarrow>
         if needed \<le> count then Some (Some (fi, t, start)) else find_niche lay ctx tgt needed (Suc fi) ts
     | Some None \<Rightarrow> find_niche lay ctx tgt needed (Suc fi) ts)"

fun find_niche_variant ::
  "(ty \<Rightarrow> layout lres) \<Rightarrow> ty_ctx \<Rightarrow> target_info \<Rightarrow> u128 \<Rightarrow> nat \<Rightarrow> variant_def list
   \<Rightarrow> (nat \<times> nat \<times> ty \<times> u128) option option" where
  "find_niche_variant lay ctx tgt needed vi [] = Some None"
| "find_niche_variant lay ctx tgt needed vi (v # vs) =
    (case find_niche lay ctx tgt needed 0 (map fd_ty (vd_fields v)) of
       None \<Rightarrow> None
     | Some (Some (fi, t, start)) \<Rightarrow> Some (Some (vi, fi, t, start))
     | Some None \<Rightarrow> find_niche_variant lay ctx tgt needed (Suc vi) vs)"

definition try_niche_encoding ::
  "(ty \<Rightarrow> layout lres) \<Rightarrow> ty_ctx \<Rightarrow> target_info \<Rightarrow> adt_def \<Rightarrow> layout list \<Rightarrow> layout option lres" where
  "try_niche_encoding lay ctx tgt def variant_layouts =
    (let variant_count = length (ad_variants def) in
     case find_niche_variant lay ctx tgt (word_of_nat (variant_count - 1)) 0 (ad_variants def) of
       None \<Rightarrow> None
     | Some None \<Rightarrow> lret None
     | Some (Some (vi, fi, t, start)) \<Rightarrow>
         lbind (build_niche_layout lay variant_layouts vi fi t start variant_count) (\<lambda>l. lret (Some l)))"

subsection \<open>Tagged enums\<close>

definition discriminant_info :: "nat \<Rightarrow> u64 \<times> u64 \<times> ty" where
  "discriminant_info variant_count =
    (if variant_count \<le> 256 then (1, 1, Ty_U8)
     else if variant_count \<le> 65536 then (2, 2, Ty_U16)
     else if variant_count \<le> 4294967296 then (4, 4, Ty_U32)
     else (8, 8, Ty_U64))"

definition variant_end :: "u64 \<Rightarrow> layout \<Rightarrow> u64" where
  "variant_end tag_size l = size_add (align_to tag_size (ly_align l)) (ly_size l)"

definition direct_tag_encoding :: "adt_def \<Rightarrow> layout list \<Rightarrow> layout" where
  "direct_tag_encoding def variant_layouts =
    (let (tag_size, tag_align, tag_ty) = discriminant_info (length (ad_variants def));
         max_variant_size = fold (\<lambda>l m. max m (variant_end tag_size l)) variant_layouts 0;
         overall_align = max_align variant_layouts tag_align;
         sz = align_to max_variant_size overall_align;
         data_start = align_to tag_size (case variant_layouts of [] \<Rightarrow> 1 | _ \<Rightarrow> max_align variant_layouts 0)
     in Layout sz overall_align (FsArbitrary [0, data_start])
          (VsMultiple tag_ty 0 TagDirect variant_layouts tag_size tag_align) False)"

definition layout_enum ::
  "(ty \<Rightarrow> layout lres) \<Rightarrow> ty_ctx \<Rightarrow> target_info \<Rightarrow> adt_def \<Rightarrow> ty \<Rightarrow> layout lres" where
  "layout_enum lay ctx tgt def outer_ty =
    (case ad_variants def of
       [] \<Rightarrow> lerr (LeUnknownType outer_ty)
     | [v] \<Rightarrow> layout_single_variant_enum lay v
     | _ \<Rightarrow>
        lbind (layout_variants lay (ad_variants def)) (\<lambda>variant_layouts.
          lbind (try_niche_encoding lay ctx tgt def variant_layouts) (\<lambda>r.
            case r of Some result \<Rightarrow> lret result
            | None \<Rightarrow> lret (direct_tag_encoding def variant_layouts))))"

definition layout_adt ::
  "(ty \<Rightarrow> layout lres) \<Rightarrow> ty_ctx \<Rightarrow> target_info \<Rightarrow> u32 \<Rightarrow> substitution \<Rightarrow> ty \<Rightarrow> layout lres" where
  "layout_adt lay ctx tgt adt_id substs outer_ty =
    (case tc_adt_defs ctx adt_id of
       None \<Rightarrow>
         (case tc_adt_reprs ctx adt_id of
            Some field_tys \<Rightarrow> layout_fields lay field_tys
          | None \<Rightarrow> lerr (LeUnknownType outer_ty))
     | Some def \<Rightarrow>
        (case substitution_args ctx substs of
           None \<Rightarrow> None
         | Some _ \<Rightarrow>
            (case ad_kind def of
               AdtStruct \<Rightarrow> layout_struct lay def
             | AdtEnum \<Rightarrow> layout_enum lay ctx tgt def outer_ty
             | AdtUnion \<Rightarrow> layout_union lay def)))"

subsection \<open>The layout of a type\<close>

definition ptr_size :: "target_info \<Rightarrow> u64" where
  "ptr_size tgt = word_of_nat (pointer_size tgt)"

definition ptr_align :: "target_info \<Rightarrow> u64" where
  "ptr_align tgt = word_of_nat (pointer_align tgt)"

definition bytes_scalar :: "nat \<Rightarrow> layout" where
  "bytes_scalar bw = layout_scalar (word_of_nat (bw div 8)) (word_of_nat (bw div 8))"

definition fat_pointer :: "target_info \<Rightarrow> layout" where
  "fat_pointer tgt = Layout (word_of_nat (2 * pointer_size tgt)) (ptr_align tgt)
     (FsArbitrary [0, ptr_size tgt]) (VsSingle 0) False"

fun layout_args :: "(ty \<Rightarrow> layout lres) \<Rightarrow> ty list \<Rightarrow> layout list lres" where
  "layout_args lay [] = lret []"
| "layout_args lay (t # ts) = lbind (lay t) (\<lambda>l. lbind (layout_args lay ts) (\<lambda>ls. lret (l # ls)))"

definition check_align :: "ty \<Rightarrow> layout \<Rightarrow> layout lres" where
  "check_align t l =
    (if word_of_nat ALIGN_MAX < ly_align l
     then lerr (LeAlignmentExceedsRuntime t (ly_align l) (word_of_nat ALIGN_MAX)) else lret l)"

definition layout_closure :: "(ty \<Rightarrow> layout lres) \<Rightarrow> ty_ctx \<Rightarrow> substitution \<Rightarrow> ty \<Rightarrow> layout lres" where
  "layout_closure lay ctx substs t =
    (case substitution_args ctx substs of
       None \<Rightarrow> None
     | Some args \<Rightarrow>
        if args = [] then lret layout_unit
        else lbind (layout_args lay (type_args args)) (\<lambda>field_layouts.
               if field_layouts = [] then lret layout_unit
               else check_align t (finish_fields (fold place_field field_layouts ([], 1, 0)))))"

definition layout_step ::
  "(ty \<Rightarrow> layout lres) \<Rightarrow> ty_ctx \<Rightarrow> target_info \<Rightarrow> ty \<Rightarrow> layout lres" where
  "layout_step lay ctx tgt t =
    (case ty_kind_of ctx t of
       None \<Rightarrow> None
     | Some k \<Rightarrow>
        (case k of
           TBool \<Rightarrow> check_align t (layout_scalar 1 1)
         | TInt i \<Rightarrow> check_align t (bytes_scalar (int_bit_width tgt i))
         | TUint u \<Rightarrow> check_align t (bytes_scalar (uint_bit_width tgt u))
         | TFloat f \<Rightarrow> check_align t (bytes_scalar (float_bit_width f))
         | TChar \<Rightarrow> check_align t (layout_scalar 4 4)
         | TNever \<Rightarrow> check_align t (layout_scalar 0 1)
         | TUnit \<Rightarrow> check_align t layout_unit
         | TRef _ _ _ \<Rightarrow> check_align t (layout_scalar (ptr_size tgt) (ptr_align tgt))
         | TRawPtr _ _ \<Rightarrow> check_align t (layout_scalar (ptr_size tgt) (ptr_align tgt))
         | TFnPtr _ \<Rightarrow> check_align t (layout_scalar (ptr_size tgt) (ptr_align tgt))
         | TDynamic _ _ \<Rightarrow> check_align t (fat_pointer tgt)
         | TSlice _ \<Rightarrow> lerr (LeUnsized t)
         | TString \<Rightarrow> check_align t (fat_pointer tgt)
         | TTuple substs \<Rightarrow> layout_tuple lay ctx substs
         | TArray inner count \<Rightarrow> layout_array lay inner count t
         | TAdt adt_id substs \<Rightarrow> layout_adt lay ctx tgt adt_id substs t
         | TClosure _ substs \<Rightarrow> layout_closure lay ctx substs t
         | _ \<Rightarrow> lerr (LeUnknownType t)))"

primrec layout_of :: "nat \<Rightarrow> ty_ctx \<Rightarrow> target_info \<Rightarrow> ty \<Rightarrow> layout lres" where
  "layout_of 0 ctx tgt t = None"
| "layout_of (Suc n) ctx tgt t = layout_step (layout_of n ctx tgt) ctx tgt t"

subsection \<open>Calling conventions and vtables\<close>

definition pass_mode_for :: "ty_ctx \<Rightarrow> ty \<Rightarrow> layout \<Rightarrow> call_convention \<Rightarrow> pass_mode option" where
  "pass_mode_for ctx t l conv =
    (case ty_kind_of ctx t of
       None \<Rightarrow> None
     | Some k \<Rightarrow> Some
        (if k = TNever then PmIgnore
         else if k = TUnit then PmIgnore
         else if ly_size l = 0 \<and> \<not> ly_is_unsized l then PmIgnore
         else (case conv of
                 CcGlyim \<Rightarrow> PmDirect
               | _ \<Rightarrow> if 16 < ly_size l then PmIndirect False else PmDirect)))"

fun arg_abis :: "nat \<Rightarrow> ty_ctx \<Rightarrow> target_info \<Rightarrow> call_convention \<Rightarrow> ty list \<Rightarrow> arg_abi list option" where
  "arg_abis fuel ctx tgt conv [] = Some []"
| "arg_abis fuel ctx tgt conv (t # ts) =
    (case layout_of fuel ctx tgt t of
       None \<Rightarrow> None
     | Some (Inl _) \<Rightarrow> arg_abis fuel ctx tgt conv ts
     | Some (Inr l) \<Rightarrow>
        (case pass_mode_for ctx t l conv of
           None \<Rightarrow> None
         | Some mode \<Rightarrow>
             map_option (\<lambda>as. \<lparr>aa_ty = t, aa_layout = l, aa_mode = mode\<rparr> # as) (arg_abis fuel ctx tgt conv ts)))"

definition fn_abi_of :: "nat \<Rightarrow> ty_ctx \<Rightarrow> target_info \<Rightarrow> fn_sig \<Rightarrow> fn_abi lres" where
  "fn_abi_of fuel ctx tgt sig =
    (let conv = call_convention_of (fs_abi sig) in
     case substitution_args ctx (fs_inputs sig) of
       None \<Rightarrow> None
     | Some args \<Rightarrow>
        (case arg_abis fuel ctx tgt conv (type_args args) of
           None \<Rightarrow> None
         | Some as \<Rightarrow>
            lbind (layout_of fuel ctx tgt (fs_output sig)) (\<lambda>ret_layout.
              case pass_mode_for ctx (fs_output sig) ret_layout conv of
                None \<Rightarrow> None
              | Some ret_mode \<Rightarrow>
                  lret \<lparr>fa_args = as,
                        fa_ret = \<lparr>aa_ty = fs_output sig, aa_layout = ret_layout, aa_mode = ret_mode\<rparr>,
                        fa_conv = conv, fa_c_variadic = fs_c_variadic sig\<rparr>)))"

record vtable_entry =
  ve_name :: name
  ve_sig :: fn_sig
  ve_fn_def_id :: u32

record vtable_layout =
  vt_trait_def_id :: u32
  vt_concrete_ty :: ty
  vt_size :: u64
  vt_align :: u64
  vt_drop_fn :: "u32 option"
  vt_methods :: "vtable_entry list"

record vtable_size =
  vs_size :: u64
  vs_align :: u64

definition memory_size :: "vtable_layout \<Rightarrow> u64 \<Rightarrow> vtable_size" where
  "memory_size vt psize =
    (let entry_count = 3 + length (vt_methods vt) in
     \<lparr>vs_size = word_of_nat entry_count * psize, vs_align = psize\<rparr>)"

definition method_offset :: "nat \<Rightarrow> u64 \<Rightarrow> u64" where
  "method_offset index psize = word_of_nat (3 + index) * psize"

definition vtable_of :: "nat \<Rightarrow> ty_ctx \<Rightarrow> target_info \<Rightarrow> u32 \<Rightarrow> ty \<Rightarrow> vtable_layout lres" where
  "vtable_of fuel ctx tgt trait_id concrete_ty =
    lbind (layout_of fuel ctx tgt concrete_ty) (\<lambda>concrete_layout.
      case tc_trait_defs ctx trait_id of
        None \<Rightarrow> lerr (LeUnknownTrait trait_id)
      | Some trait \<Rightarrow>
          lret \<lparr>vt_trait_def_id = trait_id, vt_concrete_ty = concrete_ty,
                vt_size = ly_size concrete_layout, vt_align = ly_align concrete_layout, vt_drop_fn = None,
                vt_methods = map (\<lambda>m. \<lparr>ve_name = md_name m, ve_sig = md_sig m,
                    ve_fn_def_id = (case md_fn_def_id m of Some d \<Rightarrow> d | None \<Rightarrow> - 1)\<rparr>) (td_methods trait)\<rparr>)"

end
