(* ===== verification/Mir_Traces.thy ===== *)
theory Mir_Traces
  imports Mir "HOL-Library.Sublist"
begin

text \<open>
  An observational semantics of MIR control flow, against which the passes of
  \<^verbatim>\<open>crates/glyim-opt\<close> that restructure the block graph are proved correct.  A run of
  a body visits blocks along successor edges; it exhibits the executed statements and, for
  every terminator that is not a plain jump, the terminator with its targets erased and the
  position of the chosen successor.  Any semantics that assigns a meaning to statements and
  decides terminators by their operands is a function of these events, so a pass that
  preserves the traces preserves every such semantics.  The theory also has the compaction
  of a block list along a keep-list, which both graph passes end with.
\<close>

subsection \<open>Traces\<close>

definition succs :: "basic_block list \<Rightarrow> nat \<Rightarrow> nat list" where
  "succs bl i = (if i < length bl
     then map unat (terminator_successors (bb_terminator (bl ! i))) else [])"

definition goto_target :: "basic_block \<Rightarrow> nat option" where
  "goto_target b = (case tm_kind (bb_terminator b) of TGoto t \<Rightarrow> Some (unat t) | _ \<Rightarrow> None)"

datatype event = Ev_Stmt statement | Ev_Term terminator nat

definition term_shape :: "basic_block \<Rightarrow> terminator" where
  "term_shape b = bb_terminator (remap_terminator [] b)"

definition stmt_events :: "basic_block \<Rightarrow> event list" where
  "stmt_events b = map Ev_Stmt (bb_statements b)"

definition block_events :: "basic_block \<Rightarrow> nat \<Rightarrow> event list" where
  "block_events b k =
     stmt_events b @ (if goto_target b = None then [Ev_Term (term_shape b) k] else [])"

inductive cfg_path :: "basic_block list \<Rightarrow> nat \<Rightarrow> event list \<Rightarrow> nat \<Rightarrow> bool" for bl where
  path_refl: "i < length bl \<Longrightarrow> cfg_path bl i [] i"
| path_step: "cfg_path bl i tr j \<Longrightarrow> k < length (succs bl j) \<Longrightarrow> succs bl j ! k < length bl
    \<Longrightarrow> cfg_path bl i (tr @ block_events (bl ! j) k) (succs bl j ! k)"

inductive_cases cfg_pathE: "cfg_path bl i tr j"

text \<open>Complete traces, of runs that end in a block without successors, and the prefixes
  of all runs, the non-terminating ones included.\<close>

definition cfg_complete :: "basic_block list \<Rightarrow> event list set" where
  "cfg_complete bl = {tr @ block_events (bl ! j) 0 | tr j. cfg_path bl 0 tr j \<and> succs bl j = []}"

definition cfg_prefixes :: "basic_block list \<Rightarrow> event list set" where
  "cfg_prefixes bl = {u. \<exists>tr j. cfg_path bl 0 tr j \<and> prefix u (tr @ stmt_events (bl ! j))}"

definition cfg_equiv :: "basic_block list \<Rightarrow> basic_block list \<Rightarrow> bool" where
  "cfg_equiv a b \<longleftrightarrow> cfg_complete a = cfg_complete b \<and> cfg_prefixes a = cfg_prefixes b"

definition cfg_wf :: "basic_block list \<Rightarrow> bool" where
  "cfg_wf bl \<longleftrightarrow> bl \<noteq> [] \<and> length bl \<le> 2 ^ 32 \<and>
     (\<forall>i < length bl. \<forall>j \<in> set (succs bl i). j < length bl)"

definition cfg_reach :: "basic_block list \<Rightarrow> nat \<Rightarrow> bool" where
  "cfg_reach bl j \<longleftrightarrow> (\<exists>tr. cfg_path bl 0 tr j)"

lemma cfg_equiv_refl [simp]: "cfg_equiv a a"
  by (simp add: cfg_equiv_def)

lemma cfg_equiv_trans [trans]: "cfg_equiv a b \<Longrightarrow> cfg_equiv b c \<Longrightarrow> cfg_equiv a c"
  by (simp add: cfg_equiv_def)

lemma cfg_path_bound: "cfg_path bl i tr j \<Longrightarrow> j < length bl"
  by (induction rule: cfg_path.induct) auto

lemma cfg_reach_step: "cfg_reach bl i \<Longrightarrow> j \<in> set (succs bl i) \<Longrightarrow> j < length bl \<Longrightarrow> cfg_reach bl j"
  unfolding cfg_reach_def in_set_conv_nth by (blast intro: path_step)

lemma remap_idx_Nil [simp]: "remap_idx [] = (\<lambda>_. 0)"
  by (simp add: remap_idx_def get_def fun_eq_iff)

lemma term_shape_remap [simp]: "term_shape (remap_terminator r b) = term_shape b"
  by (simp add: term_shape_def remap_terminator_def Let_def comp_def
      option.map_comp case_prod_unfold split: terminator_kind.splits)

lemma goto_target_remap: "goto_target (remap_terminator r b) = None \<longleftrightarrow> goto_target b = None"
  by (simp add: goto_target_def remap_terminator_def Let_def split: terminator_kind.splits)

lemma goto_target_successors:
  "goto_target b = Some i \<Longrightarrow> map unat (terminator_successors (bb_terminator b)) = [i]"
  by (simp add: goto_target_def terminator_successors_def split: terminator_kind.splits)

lemma stmt_events_remap [simp]: "stmt_events (remap_terminator r b) = stmt_events b"
  by (simp add: stmt_events_def)

lemma block_events_remap [simp]: "block_events (remap_terminator r b) k = block_events b k"
  by (simp add: block_events_def goto_target_remap)

subsection \<open>Compaction of a block list\<close>

text \<open>
  The renumbering both passes end with: the kept blocks in order, and the table from old to
  new indices, built while the blocks are moved; then every terminator is remapped.
\<close>

fun compact_loop :: "basic_block list \<Rightarrow> bool list \<Rightarrow> nat \<Rightarrow> basic_block list \<times> nat option list" where
  "compact_loop (b # bs) (keep # ks) n =
     (if keep then let (nb, r) = compact_loop bs ks (n + 1) in (b # nb, Some n # r)
      else let (nb, r) = compact_loop bs ks n in (nb, None # r))"
| "compact_loop _ _ n = ([], [])"

definition compact :: "basic_block list \<Rightarrow> bool list \<Rightarrow> basic_block list" where
  "compact bl keep = (let (new_blocks, remap) = compact_loop bl keep 0
                      in map (remap_terminator remap) new_blocks)"

definition new_index :: "bool list \<Rightarrow> nat \<Rightarrow> nat" where
  "new_index keep i = length (filter (\<lambda>k. k) (take i keep))"

lemma new_index_Cons:
  "new_index (k # ks) (Suc i) = (if k then Suc (new_index ks i) else new_index ks i)"
  by (simp add: new_index_def)

lemma compact_loop_length:
  "length bl = length keep \<Longrightarrow> length (fst (compact_loop bl keep n)) = length (filter (\<lambda>k. k) keep)
     \<and> length (snd (compact_loop bl keep n)) = length keep"
  by (induction bl keep n rule: compact_loop.induct) (auto simp: Let_def split: prod.splits)

lemma compact_loop_nth:
  assumes "length bl = length keep" "i < length bl" "keep ! i"
  shows "new_index keep i < length (fst (compact_loop bl keep n)) \<and>
    fst (compact_loop bl keep n) ! new_index keep i = bl ! i \<and>
    snd (compact_loop bl keep n) ! i = Some (n + new_index keep i)"
  using assms
proof (induction bl keep n arbitrary: i rule: compact_loop.induct)
  case (1 b bs k ks n)
  show ?case
  proof (cases i)
    case 0
    with 1 show ?thesis by (auto simp: Let_def new_index_def split: prod.splits)
  next
    case (Suc j)
    show ?thesis
    proof (cases k)
      case True
      then show ?thesis using Suc 1(1) [OF True, of j] 1(3-5)
        by (simp add: Let_def new_index_Cons case_prod_unfold)
    next
      case False
      then show ?thesis using Suc 1(2) [OF False, of j] 1(3-5)
        by (simp add: Let_def new_index_Cons case_prod_unfold)
    qed
  qed
qed auto

lemma compact_length:
  "length bl = length keep \<Longrightarrow> length (compact bl keep) = length (filter (\<lambda>k. k) keep)"
  using compact_loop_length [of bl keep 0] by (simp add: compact_def case_prod_unfold Let_def)

lemma compact_surj:
  assumes "j < length (filter (\<lambda>k. k) keep)"
  obtains i where "i < length keep" "keep ! i" "new_index keep i = j"
  using assms
proof (induction keep arbitrary: j thesis)
  case (Cons k ks)
  show ?case
  proof (cases "k \<and> j = 0")
    case True
    then show ?thesis using Cons.prems(1) [of 0] by (simp add: new_index_def)
  next
    case False
    define j' where "j' = (if k then j - 1 else j)"
    have "j' < length (filter (\<lambda>k. k) ks)"
      using Cons.prems(2) False by (auto simp: j'_def)
    then obtain i where "i < length ks" "ks ! i" "new_index ks i = j'"
      using Cons.IH by blast
    then show ?thesis
      using Cons.prems(1) [of "Suc i"] False by (auto simp: new_index_Cons j'_def split: if_splits)
  qed
qed simp

text \<open>A keep-list that holds block 0 and is closed under the successor edges.\<close>

definition keep_closed :: "basic_block list \<Rightarrow> bool list \<Rightarrow> bool" where
  "keep_closed bl keep \<longleftrightarrow> length keep = length bl \<and> bl \<noteq> [] \<and> keep ! 0 \<and>
     (\<forall>i < length bl. keep ! i \<longrightarrow> (\<forall>j \<in> set (succs bl i). j < length bl \<and> keep ! j))"

lemma keep_closedD:
  assumes "keep_closed bl keep"
  shows "length bl = length keep" "bl \<noteq> []" "keep ! 0" "0 < length bl"
  using assms by (simp_all add: keep_closed_def)

lemma keep_closed_succ:
  assumes "keep_closed bl keep" "i < length bl" "keep ! i" "j \<in> set (succs bl i)"
  shows "j < length bl" "keep ! j"
  using assms unfolding keep_closed_def by blast+

lemma keep_closed_succ_nth:
  assumes "keep_closed bl keep" "i < length bl" "keep ! i" "k < length (succs bl i)"
  shows "succs bl i ! k < length bl" "keep ! (succs bl i ! k)"
  using keep_closed_succ [OF assms(1-3) nth_mem [OF assms(4)]] by blast+

lemma new_index_0 [simp]: "new_index keep 0 = 0"
  by (simp add: new_index_def)

lemma new_index_less: "i < length keep \<Longrightarrow> keep ! i \<Longrightarrow> new_index keep i < length (filter (\<lambda>k. k) keep)"
proof -
  assume a: "i < length keep" "keep ! i"
  then have "keep = take i keep @ True # drop (Suc i) keep"
    by (metis id_take_nth_drop)
  then have "length (filter (\<lambda>k. k) keep) = length (filter (\<lambda>k. k) (take i keep @ True # drop (Suc i) keep))"
    by simp
  then show ?thesis by (simp add: new_index_def)
qed

lemma u32_of_nat: "n < 2 ^ 32 \<Longrightarrow> unat (word_of_nat n :: u32) = n"
  by (simp add: unat_of_nat)

lemma compact_nth:
  assumes "keep_closed bl keep" "length bl \<le> 2 ^ 32" "i < length bl" "keep ! i"
  shows "new_index keep i < length (compact bl keep) \<and>
    (\<exists>r. compact bl keep ! new_index keep i = remap_terminator r (bl ! i)) \<and>
    succs (compact bl keep) (new_index keep i) = map (new_index keep) (succs bl i)"
proof -
  note len = keep_closedD(1) [OF assms(1)]
  let ?r = "snd (compact_loop bl keep 0)"
  have lt: "new_index keep i < length (compact bl keep)"
    using new_index_less assms(3,4) len by (simp add: compact_length)
  have nth: "compact bl keep ! new_index keep i = remap_terminator ?r (bl ! i)"
    using compact_loop_nth [OF len assms(3,4), of 0]
    by (simp add: compact_def case_prod_unfold Let_def)
  have idx: "unat (remap_idx ?r t) = new_index keep (unat t)"
    if "t \<in> set (terminator_successors (bb_terminator (bl ! i)))" for t
  proof -
    have "unat t \<in> set (succs bl i)" using that assms(3) by (simp add: succs_def)
    then have j: "unat t < length bl" "keep ! unat t"
      using keep_closed_succ [OF assms(1,3,4)] by auto
    have "new_index keep (unat t) < length (filter (\<lambda>k. k) keep)"
      using new_index_less j len by simp
    also have "\<dots> \<le> length bl" using len by simp
    also note assms(2)
    finally have "new_index keep (unat t) < 2 ^ 32" .
    then have "unat (word_of_nat (new_index keep (unat t)) :: u32) = new_index keep (unat t)"
      by (rule u32_of_nat)
    moreover have "get ?r (unat t) = Some (Some (new_index keep (unat t)))"
      using compact_loop_nth [OF len j, of 0] compact_loop_length [OF len, of 0] j len
      by (simp add: get_def)
    ultimately show ?thesis by (simp add: remap_idx_def)
  qed
  have "succs (compact bl keep) (new_index keep i) = map (new_index keep) (succs bl i)"
    using lt idx assms(3) by (simp add: succs_def nth successors_remap_terminator)
  with lt nth show ?thesis by blast
qed

lemma keep_closed_path:
  assumes "keep_closed bl keep" "cfg_path bl 0 tr j"
  shows "keep ! j"
  using assms(2)
proof (induction "0::nat" tr j rule: cfg_path.induct)
  case path_refl
  show ?case by (rule keep_closedD(3) [OF assms(1)])
next
  case (path_step tr j k)
  show ?case
    by (rule keep_closed_succ_nth(2) [OF assms(1) cfg_path_bound [OF path_step(1)] path_step(2,3)])
qed

lemma compact_events:
  assumes "keep_closed bl keep" "length bl \<le> 2 ^ 32" "i < length bl" "keep ! i"
  shows "stmt_events (compact bl keep ! new_index keep i) = stmt_events (bl ! i)"
    and "block_events (compact bl keep ! new_index keep i) k = block_events (bl ! i) k"
  using compact_nth [OF assms] by auto

lemma compact_path_to:
  assumes "keep_closed bl keep" "length bl \<le> 2 ^ 32" "cfg_path bl 0 tr j"
  shows "cfg_path (compact bl keep) 0 tr (new_index keep j)"
  using assms(3)
proof (induction "0::nat" tr j rule: cfg_path.induct)
  case path_refl
  show ?case
    using compact_nth [OF assms(1,2) path_refl keep_closedD(3) [OF assms(1)]]
    by (auto intro: cfg_path.path_refl)
next
  case (path_step tr j k)
  have j: "j < length bl" "keep ! j"
    using path_step(1) cfg_path_bound keep_closed_path [OF assms(1)] by auto
  have s: "succs bl j ! k < length bl" "keep ! (succs bl j ! k)"
    using keep_closed_succ_nth [OF assms(1) j path_step(3)] by blast+
  show ?case
    using cfg_path.path_step [OF path_step(2), of k] path_step(3) s
      compact_nth [OF assms(1,2) j] compact_nth [OF assms(1,2) s] compact_events [OF assms(1,2) j]
    by simp
qed

lemma compact_path_from:
  assumes "keep_closed bl keep" "length bl \<le> 2 ^ 32" "cfg_path (compact bl keep) 0 tr j'"
  shows "\<exists>j. j < length bl \<and> keep ! j \<and> new_index keep j = j' \<and> cfg_path bl 0 tr j"
  using assms(3)
proof (induction "0::nat" tr j' rule: cfg_path.induct)
  case path_refl
  show ?case using keep_closedD(3,4) [OF assms(1)]
    by (intro exI [of _ 0]) (auto intro: cfg_path.path_refl)
next
  case (path_step tr j' k)
  then obtain j where j: "j < length bl" "keep ! j" "new_index keep j = j'" "cfg_path bl 0 tr j"
    by blast
  have k: "k < length (succs bl j)"
    using path_step(3) compact_nth [OF assms(1,2) j(1,2)] j(3) by auto
  then have s: "succs bl j ! k < length bl" "keep ! (succs bl j ! k)"
    using keep_closed_succ_nth [OF assms(1) j(1,2)] by blast+
  show ?case
    using cfg_path.path_step [OF j(4) k s(1)] compact_nth [OF assms(1,2) j(1,2)]
      compact_events [OF assms(1,2) j(1,2)] j(3) k s by auto
qed

text \<open>Compaction preserves the traces.\<close>

lemma cfg_completeI: "cfg_path bl 0 tr j \<Longrightarrow> succs bl j = [] \<Longrightarrow> u = tr @ block_events (bl ! j) 0
  \<Longrightarrow> u \<in> cfg_complete bl"
  unfolding cfg_complete_def by blast

lemma cfg_completeE:
  assumes "u \<in> cfg_complete bl"
  obtains tr j where "cfg_path bl 0 tr j" "succs bl j = []" "u = tr @ block_events (bl ! j) 0"
  using assms unfolding cfg_complete_def by blast

lemma cfg_prefixesI: "cfg_path bl 0 tr j \<Longrightarrow> prefix u (tr @ stmt_events (bl ! j)) \<Longrightarrow> u \<in> cfg_prefixes bl"
  unfolding cfg_prefixes_def by blast

lemma cfg_prefixesE:
  assumes "u \<in> cfg_prefixes bl"
  obtains tr j where "cfg_path bl 0 tr j" "prefix u (tr @ stmt_events (bl ! j))"
  using assms unfolding cfg_prefixes_def by blast

lemma compact_complete:
  assumes kc: "keep_closed bl keep" and len: "length bl \<le> 2 ^ 32"
  shows "cfg_complete (compact bl keep) = cfg_complete bl"
proof (intro set_eqI iffI)
  fix u assume "u \<in> cfg_complete (compact bl keep)"
  then obtain tr j' where p: "cfg_path (compact bl keep) 0 tr j'" "succs (compact bl keep) j' = []"
    "u = tr @ block_events (compact bl keep ! j') 0" by (rule cfg_completeE)
  then obtain j where j: "j < length bl" "keep ! j" "new_index keep j = j'" "cfg_path bl 0 tr j"
    using compact_path_from [OF kc len] by blast
  show "u \<in> cfg_complete bl"
  proof (rule cfg_completeI [OF j(4)])
    show "succs bl j = []" using compact_nth [OF kc len j(1,2)] p(2) j(3) by simp
    show "u = tr @ block_events (bl ! j) 0" using compact_events(2) [OF kc len j(1,2)] p(3) j(3) by simp
  qed
next
  fix u assume "u \<in> cfg_complete bl"
  then obtain tr j where j: "cfg_path bl 0 tr j" "succs bl j = []" "u = tr @ block_events (bl ! j) 0"
    by (rule cfg_completeE)
  note k = cfg_path_bound [OF j(1)] keep_closed_path [OF kc j(1)]
  show "u \<in> cfg_complete (compact bl keep)"
  proof (rule cfg_completeI [OF compact_path_to [OF kc len j(1)]])
    show "succs (compact bl keep) (new_index keep j) = []"
      using compact_nth [OF kc len k] j(2) by simp
    show "u = tr @ block_events (compact bl keep ! new_index keep j) 0"
      using compact_events(2) [OF kc len k] j(3) by simp
  qed
qed

lemma compact_prefixes:
  assumes kc: "keep_closed bl keep" and len: "length bl \<le> 2 ^ 32"
  shows "cfg_prefixes (compact bl keep) = cfg_prefixes bl"
proof (intro set_eqI iffI)
  fix u assume "u \<in> cfg_prefixes (compact bl keep)"
  then obtain tr j' where p: "cfg_path (compact bl keep) 0 tr j'"
    "prefix u (tr @ stmt_events (compact bl keep ! j'))" by (rule cfg_prefixesE)
  then obtain j where j: "j < length bl" "keep ! j" "new_index keep j = j'" "cfg_path bl 0 tr j"
    using compact_path_from [OF kc len] by blast
  show "u \<in> cfg_prefixes bl"
    by (rule cfg_prefixesI [OF j(4)]) (use compact_events(1) [OF kc len j(1,2)] p(2) j(3) in simp)
next
  fix u assume "u \<in> cfg_prefixes bl"
  then obtain tr j where j: "cfg_path bl 0 tr j" "prefix u (tr @ stmt_events (bl ! j))"
    by (rule cfg_prefixesE)
  note k = cfg_path_bound [OF j(1)] keep_closed_path [OF kc j(1)]
  show "u \<in> cfg_prefixes (compact bl keep)"
    by (rule cfg_prefixesI [OF compact_path_to [OF kc len j(1)]])
       (use compact_events(1) [OF kc len k] j(2) in simp)
qed

lemma compact_equiv:
  assumes "keep_closed bl keep" "length bl \<le> 2 ^ 32"
  shows "cfg_equiv (compact bl keep) bl"
  using compact_complete [OF assms] compact_prefixes [OF assms] by (simp add: cfg_equiv_def)

lemma compact_wf:
  assumes kc: "keep_closed bl keep" and len: "length bl \<le> 2 ^ 32"
  shows "cfg_wf (compact bl keep)"
  unfolding cfg_wf_def
proof (intro conjI allI ballI impI)
  note l = keep_closedD(1) [OF kc]
  show "compact bl keep \<noteq> []"
    using compact_nth [OF kc len keep_closedD(4,3) [OF kc]] by auto
  have "length (compact bl keep) \<le> length bl"
    using l by (simp add: compact_length)
  then show "length (compact bl keep) \<le> 2 ^ 32"
    using len by (rule order_trans)
  fix i' j' assume a: "i' < length (compact bl keep)" "j' \<in> set (succs (compact bl keep) i')"
  obtain i where i: "i < length bl" "keep ! i" "new_index keep i = i'"
    by (rule compact_surj [of i' keep]) (use a(1) l in \<open>simp_all add: compact_length\<close>)
  then obtain j where j: "j \<in> set (succs bl i)" "j' = new_index keep j"
    using a(2) compact_nth [OF kc len i(1,2)] by auto
  show "j' < length (compact bl keep)"
    using compact_nth [OF kc len keep_closed_succ [OF kc i(1,2) j(1)]] j(2) by simp
qed

end
