(* ===== verification/Opt_Cfg.thy ===== *)
theory Opt_Cfg
  imports Mir_Traces
begin

text \<open>
  The two passes of \<^verbatim>\<open>crates/glyim-opt\<close> that restructure the block graph:
  \<open>cfg_simplify\<close>, which merges a block into its only predecessor until no more blocks
  can be merged, and \<open>unreachable_elim\<close>, which drops the blocks a depth-first search
  from block 0 does not find.  Both are shown to be \<open>cfg_pass\<close>es: they keep every jump
  target in range and preserve the traces of the body.
\<close>

subsection \<open>Merging blocks\<close>

text \<open>The predecessor lists, one entry per edge, in block order; targets out of range are
  ignored.\<close>

definition preds_of :: "basic_block list \<Rightarrow> nat \<Rightarrow> nat list" where
  "preds_of blocks s = concat (map (\<lambda>i. map (\<lambda>_. i) (filter (\<lambda>t. t = s)
      (map unat (terminator_successors (bb_terminator (blocks ! i)))))) [0..<length blocks])"

definition predecessors :: "basic_block list \<Rightarrow> nat list list" where
  "predecessors blocks = map (preds_of blocks) [0..<length blocks]"

text \<open>Moving the statements and the terminator of block \<open>i\<close> to the end of block
  \<open>p\<close>, in the order the assignments are made (\<open>p\<close> may be \<open>i\<close>).\<close>

definition return_terminator :: terminator where
  "return_terminator = \<lparr>tm_kind = TReturn, tm_span = span_DUMMY\<rparr>"

definition merge_into :: "basic_block list \<Rightarrow> nat \<Rightarrow> nat \<Rightarrow> basic_block list" where
  "merge_into blocks p i =
    (let stmts = bb_statements (blocks ! i);
         b1 = blocks[i := (blocks ! i)\<lparr>bb_statements := []\<rparr>];
         b2 = b1[p := (b1 ! p)\<lparr>bb_statements := bb_statements (b1 ! p) @ stmts\<rparr>];
         term = bb_terminator (b2 ! i);
         b3 = b2[i := (b2 ! i)\<lparr>bb_terminator := return_terminator\<rparr>]
     in b3[p := (b3 ! p)\<lparr>bb_terminator := term\<rparr>])"

definition merge_step ::
  "nat list list \<Rightarrow> nat \<Rightarrow> basic_block list \<times> bool list \<times> bool \<Rightarrow> basic_block list \<times> bool list \<times> bool" where
  "merge_step preds i = (\<lambda>(blocks, delete, changed).
     if delete ! i then (blocks, delete, changed)
     else (case preds ! i of
             [p] \<Rightarrow> (if \<not> delete ! p \<and> goto_target (blocks ! p) = Some i
                    then (merge_into blocks p i, delete[i := True], True)
                    else (blocks, delete, changed))
           | _ \<Rightarrow> (blocks, delete, changed)))"

definition merge_round :: "basic_block list \<Rightarrow> basic_block list \<times> bool list \<times> bool" where
  "merge_round blocks = fold (merge_step (predecessors blocks)) [1..<length blocks]
     (blocks, replicate (length blocks) False, False)"

lemma length_merge_into [simp]: "length (merge_into bl p i) = length bl"
  by (simp add: merge_into_def Let_def)

lemma merge_step_cases:
  obtains "merge_step preds i (bl, del, ch) = (bl, del, ch)"
  | p where "\<not> del ! i" "preds ! i = [p]" "\<not> del ! p" "goto_target (bl ! p) = Some i"
      "merge_step preds i (bl, del, ch) = (merge_into bl p i, del[i := True], True)"
proof (cases "\<exists>p. \<not> del ! i \<and> preds ! i = [p] \<and> \<not> del ! p \<and> goto_target (bl ! p) = Some i")
  case True
  then show ?thesis using that(2) by (auto simp: merge_step_def)
next
  case False
  then have "merge_step preds i (bl, del, ch) = (bl, del, ch)"
    by (auto simp: merge_step_def split: list.splits)
  then show ?thesis by (rule that(1))
qed

lemma merge_step_lengths:
  assumes "merge_step preds i (bl, del, ch) = (bl', del', ch')" "i < length del"
  shows "length bl' = length bl \<and> length del' = length del \<and>
     (ch' \<longrightarrow> ch \<or> True \<in> set del') \<and> (True \<in> set del \<longrightarrow> True \<in> set del')"
proof (cases rule: merge_step_cases [of preds i bl del ch])
  case (2 p)
  then have "bl' = merge_into bl p i" "del' = del[i := True]" using assms(1) by simp_all
  then show ?thesis using assms(2) by (simp add: set_update_memI)
qed (use assms in simp)

lemma merge_fold_lengths:
  "fold (merge_step preds) ns (bl, del, ch) = (bl', del', ch') \<Longrightarrow> \<forall>n \<in> set ns. n < length del \<Longrightarrow>
     length bl' = length bl \<and> length del' = length del \<and>
     (ch' \<longrightarrow> ch \<or> True \<in> set del') \<and> (True \<in> set del \<longrightarrow> True \<in> set del')"
proof (induction ns arbitrary: bl del ch)
  case (Cons n ns)
  obtain b1 d1 c1 where s: "merge_step preds n (bl, del, ch) = (b1, d1, c1)"
    by (metis prod_cases3)
  have "fold (merge_step preds) ns (b1, d1, c1) = (bl', del', ch')" using Cons.prems(1) s by simp
  then show ?case
    using Cons.IH [of b1 d1 c1] Cons.prems(2) merge_step_lengths [OF s] by auto
qed simp

lemma merge_round_lengths:
  assumes "merge_round bl = (bl', del, ch)"
  shows "length bl' = length bl" "length del = length bl" "ch \<Longrightarrow> True \<in> set del"
  using merge_fold_lengths [OF assms [unfolded merge_round_def]] by auto

lemma length_compact_less:
  assumes "length bl = length del" "True \<in> set del"
  shows "length (compact bl (map Not del)) < length bl"
  using assms length_filter_less [of False "map Not del" "\<lambda>k. k"] by (auto simp: compact_length)

lemma merge_round_decreases:
  "merge_round bl = (bl', del, True) \<Longrightarrow> length (compact bl' (map Not del)) < length bl"
  using merge_round_lengths [of bl bl' del True] length_compact_less [of bl' del] by simp

text \<open>\<open>cfg_simplify::run\<close> on the blocks of a body.\<close>

function cfg_simplify :: "basic_block list \<Rightarrow> basic_block list" where
  "cfg_simplify blocks =
    (case merge_round blocks of (blocks', delete, changed) \<Rightarrow>
       if changed then cfg_simplify (compact blocks' (map Not delete)) else blocks')"
  by pat_completeness auto
termination
  by (relation "measure length") (auto dest!: merge_round_decreases [OF sym])

declare cfg_simplify.simps [simp del]

subsection \<open>Unreachable blocks\<close>

text \<open>
  \<open>reachable_set\<close>: the visited set as a list, the stack with its top first; indexing a
  missing block panics (\<open>None\<close>).
\<close>

function reachable_loop :: "basic_block list \<Rightarrow> nat list \<Rightarrow> nat list \<Rightarrow> nat list option" where
  "reachable_loop blocks visited [] = Some visited"
| "reachable_loop blocks visited (i # stack) =
    (if i \<in> set visited then reachable_loop blocks visited stack
     else if i < length blocks
       then reachable_loop blocks (i # visited)
              (rev (map unat (terminator_successors (bb_terminator (blocks ! i)))) @ stack)
     else None)"
  by pat_completeness auto
termination
proof (relation "measures [\<lambda>(bl, visited, stack). card ({..<length bl} - set visited),
                           \<lambda>(bl, visited, stack). length stack]", goal_cases)
  case (3 blocks visited i stack)
  then have "{..<length blocks} - set (i # visited) \<subset> {..<length blocks} - set visited" by auto
  then show ?case by (simp add: psubset_card_mono)
qed auto

definition reachable_set :: "basic_block list \<Rightarrow> nat list option" where
  "reachable_set blocks = reachable_loop blocks [] [0]"

definition unreachable_elim :: "basic_block list \<Rightarrow> basic_block list option" where
  "unreachable_elim blocks =
    (case reachable_set blocks of
       None \<Rightarrow> None
     | Some reachable \<Rightarrow>
         if length reachable = length blocks then Some blocks
         else Some (compact blocks (map (\<lambda>i. i \<in> set reachable) [0..<length blocks])))"

text \<open>The loop invariant: everything seen is reachable, and the successors of every
  visited block have been visited or are on the stack.\<close>

definition reach_inv :: "basic_block list \<Rightarrow> nat list \<Rightarrow> nat list \<Rightarrow> bool" where
  "reach_inv bl visited stack \<longleftrightarrow> distinct visited \<and> set visited \<subseteq> {..<length bl} \<and>
     (\<forall>j \<in> set visited \<union> set stack. j < length bl \<longrightarrow> cfg_reach bl j) \<and>
     (\<forall>j \<in> set visited. set (succs bl j) \<subseteq> set visited \<union> set stack)"

lemma reach_inv_skip: "reach_inv bl visited (i # stack) \<Longrightarrow> i \<in> set visited \<Longrightarrow> reach_inv bl visited stack"
  unfolding reach_inv_def by (simp add: insert_absorb)

lemma reach_inv_visit:
  assumes "reach_inv bl visited (i # stack)" "i \<notin> set visited" "i < length bl"
  shows "reach_inv bl (i # visited) (rev (map unat (terminator_successors (bb_terminator (bl ! i)))) @ stack)"
proof -
  let ?new = "rev (map unat (terminator_successors (bb_terminator (bl ! i))))"
  have new: "set ?new = set (succs bl i)" using assms(3) by (simp add: succs_def)
  have ri: "cfg_reach bl i" using assms(1,3) by (simp add: reach_inv_def)
  have "cfg_reach bl j" if "j \<in> set (i # visited) \<union> set (?new @ stack)" "j < length bl" for j
  proof (cases "j \<in> set (succs bl i)")
    case True
    then show ?thesis using cfg_reach_step [OF ri] that(2) by blast
  next
    case False
    then have "j \<in> set visited \<union> set (i # stack)" using that(1) unfolding set_append new by auto
    then show ?thesis using assms(1) that(2) unfolding reach_inv_def by blast
  qed
  moreover have "set (succs bl j) \<subseteq> set (i # visited) \<union> set (?new @ stack)" if "j \<in> set (i # visited)" for j
  proof (cases "j = i")
    case True
    then show ?thesis unfolding set_append new by blast
  next
    case False
    then have "set (succs bl j) \<subseteq> set visited \<union> set (i # stack)"
      using assms(1) that unfolding reach_inv_def by auto
    then show ?thesis by auto
  qed
  ultimately show ?thesis
    using assms unfolding reach_inv_def by auto
qed

lemma reachable_loop_sound:
  assumes "reachable_loop bl visited stack = Some r" "reach_inv bl visited stack"
  shows "reach_inv bl r [] \<and> set visited \<union> set stack \<subseteq> set r"
  using assms
proof (induction bl visited stack rule: reachable_loop.induct)
  case (2 bl visited i stack)
  consider "i \<in> set visited" | "i \<notin> set visited" "i < length bl"
    using 2(3) by (auto split: if_splits)
  then show ?case
  proof cases
    case 1
    then show ?thesis using 2(1) [OF 1] 2(3) reach_inv_skip [OF 2(4) 1] by auto
  next
    case 3: 2
    then show ?thesis using 2(2) [OF 3] 2(3) reach_inv_visit [OF 2(4) 3] by simp
  qed
qed simp

lemma reachable_loop_total:
  assumes "\<forall>i < length bl. set (succs bl i) \<subseteq> {..<length bl}" "set stack \<subseteq> {..<length bl}"
  shows "\<exists>r. reachable_loop bl visited stack = Some r"
  using assms
proof (induction bl visited stack rule: reachable_loop.induct)
  case (2 bl visited i stack)
  then show ?case by (auto simp: succs_def)
qed simp

subsection \<open>Merging preserves the traces\<close>

lemma set_preds_of:
  "x \<in> set (preds_of bl s) \<longleftrightarrow> x < length bl \<and> s \<in> set (succs bl x)"
proof -
  have "set (preds_of bl s) = (\<Union>y \<in> {0..<length bl}. {z. z = y \<and> s \<in> set (succs bl y)})"
    unfolding preds_of_def set_concat set_map set_upt image_image
    by (intro SUP_cong refl) (force simp: succs_def)
  then show ?thesis by simp
qed

lemma merge_into_nth:
  assumes "p \<noteq> i" "p < length bl" "i < length bl"
  shows "merge_into bl p i ! p = (bl ! p)\<lparr>bb_statements := bb_statements (bl ! p) @ bb_statements (bl ! i)\<rparr>
            \<lparr>bb_terminator := bb_terminator (bl ! i)\<rparr>" (is ?P)
    and "merge_into bl p i ! i = (bl ! i)\<lparr>bb_statements := []\<rparr>\<lparr>bb_terminator := return_terminator\<rparr>" (is ?I)
proof -
  show ?P using assms by (simp add: merge_into_def Let_def)
  show ?I using assms by (simp add: merge_into_def Let_def)
qed

lemma merge_into_nth_other:
  "p < length bl \<Longrightarrow> i < length bl \<Longrightarrow> x \<noteq> p \<Longrightarrow> x \<noteq> i \<Longrightarrow> merge_into bl p i ! x = bl ! x"
  by (simp add: merge_into_def Let_def)

lemma merge_into_self: "i < length bl \<Longrightarrow> merge_into bl i i = bl"
proof -
  assume i: "i < length bl"
  have "bl ! i = (bl ! i)\<lparr>bb_statements := bb_statements (bl ! i), bb_terminator := bb_terminator (bl ! i)\<rparr>"
    by simp
  with i show ?thesis by (simp add: merge_into_def Let_def)
qed

lemma goto_target_terminator: "bb_terminator a = bb_terminator b \<Longrightarrow> goto_target a = goto_target b"
  by (simp add: goto_target_def)

lemma term_shape_terminator: "bb_terminator a = bb_terminator b \<Longrightarrow> term_shape a = term_shape b"
  by (simp add: term_shape_def remap_terminator_def Let_def)

lemma block_events_goto: "goto_target b = Some j \<Longrightarrow> block_events b k = stmt_events b"
  by (simp add: block_events_def)

text \<open>The situation of one merge: \<open>p\<close> jumps to \<open>i\<close> and no other block does.\<close>

definition merge_site :: "basic_block list \<Rightarrow> nat \<Rightarrow> nat \<Rightarrow> bool" where
  "merge_site bl p i \<longleftrightarrow> p \<noteq> i \<and> p < length bl \<and> i < length bl \<and> i \<noteq> 0 \<and>
     goto_target (bl ! p) = Some i \<and> (\<forall>x. i \<in> set (succs bl x) \<longrightarrow> x = p)"

lemma merge_siteD:
  assumes "merge_site bl p i"
  shows distinct_blocks: "p \<noteq> i" and p_bound: "p < length bl" and i_bound: "i < length bl"
    and i_not_entry: "i \<noteq> 0" and p_jumps: "goto_target (bl ! p) = Some i"
    and only_pred: "\<And>x. i \<in> set (succs bl x) \<Longrightarrow> x = p"
  using assms by (auto simp: merge_site_def)


lemma succs_p:
  assumes ms: "merge_site bl p i"
  shows "succs bl p = [i]"
  using goto_target_successors [OF p_jumps [OF ms]] p_bound [OF ms] by (simp add: succs_def)

lemma succs_merged:
  assumes ms: "merge_site bl p i"
  shows "succs (merge_into bl p i) p = succs bl i"
  "succs (merge_into bl p i) i = []"
  "x \<noteq> p \<Longrightarrow> x \<noteq> i \<Longrightarrow> succs (merge_into bl p i) x = succs bl x"
  using merge_into_nth [OF distinct_blocks [OF ms] p_bound [OF ms] i_bound [OF ms]] p_bound [OF ms] i_bound [OF ms]
  by (simp_all add: succs_def terminator_successors_def return_terminator_def merge_into_nth_other)

lemma events_merged:
  assumes ms: "merge_site bl p i"
  shows "stmt_events (merge_into bl p i ! p) = stmt_events (bl ! p) @ stmt_events (bl ! i)"
  "block_events (merge_into bl p i ! p) k = stmt_events (bl ! p) @ block_events (bl ! i) k"
proof -
  let ?m = "merge_into bl p i ! p"
  have t: "bb_terminator ?m = bb_terminator (bl ! i)"
    and s: "bb_statements ?m = bb_statements (bl ! p) @ bb_statements (bl ! i)"
    by (simp_all add: merge_into_nth [OF distinct_blocks [OF ms] p_bound [OF ms] i_bound [OF ms]])
  show "stmt_events ?m = stmt_events (bl ! p) @ stmt_events (bl ! i)"
    by (simp add: stmt_events_def s)
  then show "block_events ?m k = stmt_events (bl ! p) @ block_events (bl ! i) k"
    using goto_target_terminator [OF t] term_shape_terminator [OF t]
    by (simp add: block_events_def)
qed

lemma other_block:
  assumes ms: "merge_site bl p i"
  shows "x \<noteq> p \<Longrightarrow> x \<noteq> i \<Longrightarrow> merge_into bl p i ! x = bl ! x"
  by (rule merge_into_nth_other [OF p_bound [OF ms] i_bound [OF ms]])

lemma path_to_merged:
  assumes ms: "merge_site bl p i" and "cfg_path bl 0 tr j"
  shows "(j \<noteq> i \<longrightarrow> cfg_path (merge_into bl p i) 0 tr j) \<and>
    (j = i \<longrightarrow> (\<exists>tr0. tr = tr0 @ stmt_events (bl ! p) \<and> cfg_path (merge_into bl p i) 0 tr0 p))"
  using assms(2)
proof (induction "0::nat" tr j rule: cfg_path.induct)
  case path_refl
  then show ?case using i_not_entry [OF ms] cfg_path.path_refl [of 0 "merge_into bl p i"] by simp
next
  case (path_step tr j k)
  let ?s = "succs bl j ! k"
  show ?case
  proof (cases "?s = i")
    case True
    then have "j = p" using only_pred [OF ms] nth_mem [OF path_step(3)] by metis
    then show ?thesis
      using True path_step(2) distinct_blocks [OF ms] block_events_goto [OF p_jumps [OF ms]] by auto
  next
    case False
    then have "j \<noteq> p" using path_step(3) succs_p [OF ms] by auto
    show ?thesis
    proof (cases "j = i")
      case True
      then obtain tr0 where "tr = tr0 @ stmt_events (bl ! p)" "cfg_path (merge_into bl p i) 0 tr0 p"
        using path_step(2) by blast
      then show ?thesis
        using cfg_path.path_step [of "merge_into bl p i" 0 tr0 p k] path_step(3,4) False True
        by (simp add: succs_merged [OF ms] events_merged [OF ms])
    next
      case j: False
      then show ?thesis
        using cfg_path.path_step [of "merge_into bl p i" 0 tr j k] path_step(2-4) False \<open>j \<noteq> p\<close>
        by (simp add: succs_merged [OF ms] other_block [OF ms])
    qed
  qed
qed

lemma path_through_p:
  assumes ms: "merge_site bl p i"
  shows "cfg_path bl 0 tr p \<Longrightarrow> cfg_path bl 0 (tr @ stmt_events (bl ! p)) i"
  using cfg_path.path_step [of bl 0 tr p 0] succs_p [OF ms] i_bound [OF ms] block_events_goto [OF p_jumps [OF ms]] by simp

lemma path_from_merged:
  assumes ms: "merge_site bl p i" and "cfg_path (merge_into bl p i) 0 tr j"
  shows "j \<noteq> i \<and> cfg_path bl 0 tr j"
  using assms(2)
proof (induction "0::nat" tr j rule: cfg_path.induct)
  case path_refl
  then show ?case using i_not_entry [OF ms] cfg_path.path_refl [of 0 bl] by simp
next
  case (path_step tr j k)
  show ?case
  proof (cases "j = p")
    case True
    have k: "k < length (succs bl i)" "succs bl i ! k < length bl"
      using path_step(3,4) True by (simp_all add: succs_merged [OF ms])
    have "succs bl i ! k \<noteq> i" using only_pred [OF ms, of i] distinct_blocks [OF ms] nth_mem [OF k(1)] by auto
    moreover have "cfg_path bl 0 ((tr @ stmt_events (bl ! p)) @ block_events (bl ! i) k) (succs bl i ! k)"
      using cfg_path.path_step [OF path_through_p [OF ms] k] path_step(2) True by blast
    ultimately show ?thesis using True by (simp add: succs_merged [OF ms] events_merged [OF ms])
  next
    case False
    have j: "j \<noteq> i" using path_step(2) by blast
    have k: "k < length (succs bl j)" "succs bl j ! k < length bl"
      using path_step(3,4) False j by (simp_all add: succs_merged [OF ms])
    have "succs bl j ! k \<noteq> i" using only_pred [OF ms, of j] False nth_mem [OF k(1)] by auto
    then show ?thesis
      using cfg_path.path_step [OF _ k, of 0 tr] path_step(2) False j
      by (simp add: succs_merged [OF ms] other_block [OF ms])
  qed
qed

lemma complete_merged:
  assumes ms: "merge_site bl p i"
  shows "cfg_complete (merge_into bl p i) = cfg_complete bl"
proof (intro set_eqI iffI)
  fix u assume "u \<in> cfg_complete (merge_into bl p i)"
  then obtain tr j where j: "cfg_path (merge_into bl p i) 0 tr j" "succs (merge_into bl p i) j = []"
    "u = tr @ block_events (merge_into bl p i ! j) 0" by (rule cfg_completeE)
  from path_from_merged [OF ms j(1)] have b: "j \<noteq> i" "cfg_path bl 0 tr j" by auto
  show "u \<in> cfg_complete bl"
  proof (cases "j = p")
    case True
    then show ?thesis
      using cfg_completeI [OF path_through_p [OF ms]] b j by (simp add: succs_merged [OF ms] events_merged [OF ms])
  next
    case False
    then show ?thesis using cfg_completeI [OF b(2)] b(1) j by (simp add: succs_merged [OF ms] other_block [OF ms])
  qed
next
  fix u assume "u \<in> cfg_complete bl"
  then obtain tr j where j: "cfg_path bl 0 tr j" "succs bl j = []" "u = tr @ block_events (bl ! j) 0"
    by (rule cfg_completeE)
  have "j \<noteq> p" using j(2) succs_p [OF ms] by auto
  show "u \<in> cfg_complete (merge_into bl p i)"
  proof (cases "j = i")
    case True
    then obtain tr0 where t: "tr = tr0 @ stmt_events (bl ! p)" "cfg_path (merge_into bl p i) 0 tr0 p"
      using path_to_merged [OF ms j(1)] by blast
    show ?thesis
      by (rule cfg_completeI [OF t(2)]) (use j t True in \<open>simp_all add: succs_merged [OF ms] events_merged [OF ms]\<close>)
  next
    case False
    show ?thesis
      by (rule cfg_completeI [of _ tr j])
         (use j path_to_merged [OF ms j(1)] False \<open>j \<noteq> p\<close> in \<open>simp_all add: succs_merged [OF ms] other_block [OF ms]\<close>)
  qed
qed

lemma prefixes_merged:
  assumes ms: "merge_site bl p i"
  shows "cfg_prefixes (merge_into bl p i) = cfg_prefixes bl"
proof (intro set_eqI iffI)
  fix u assume "u \<in> cfg_prefixes (merge_into bl p i)"
  then obtain tr j where j: "cfg_path (merge_into bl p i) 0 tr j"
    "prefix u (tr @ stmt_events (merge_into bl p i ! j))" by (rule cfg_prefixesE)
  from path_from_merged [OF ms j(1)] have b: "j \<noteq> i" "cfg_path bl 0 tr j" by auto
  show "u \<in> cfg_prefixes bl"
  proof (cases "j = p")
    case True
    then show ?thesis
      using cfg_prefixesI [OF path_through_p [OF ms], of tr u] b j by (simp add: events_merged [OF ms])
  next
    case False
    then show ?thesis using cfg_prefixesI [OF b(2)] b(1) j by (simp add: other_block [OF ms])
  qed
next
  fix u assume "u \<in> cfg_prefixes bl"
  then obtain tr j where j: "cfg_path bl 0 tr j" "prefix u (tr @ stmt_events (bl ! j))"
    by (rule cfg_prefixesE)
  show "u \<in> cfg_prefixes (merge_into bl p i)"
  proof (cases "j = i")
    case True
    then obtain tr0 where t: "tr = tr0 @ stmt_events (bl ! p)" "cfg_path (merge_into bl p i) 0 tr0 p"
      using path_to_merged [OF ms j(1)] by blast
    show ?thesis
      by (rule cfg_prefixesI [OF t(2)]) (use j t True in \<open>simp add: events_merged [OF ms]\<close>)
  next
    case False
    then have m: "cfg_path (merge_into bl p i) 0 tr j" using path_to_merged [OF ms j(1)] by blast
    show ?thesis
    proof (cases "j = p")
      case True
      then have "prefix u ((tr @ stmt_events (bl ! p)) @ stmt_events (bl ! i))"
        using j(2) by (simp only: prefix_prefix)
      then show ?thesis using cfg_prefixesI [OF m] True by (simp add: events_merged [OF ms])
    next
      case p: False
      then show ?thesis using cfg_prefixesI [OF m] j(2) False by (simp add: other_block [OF ms])
    qed
  qed
qed

lemma merge_equiv:
  assumes ms: "merge_site bl p i"
  shows "cfg_equiv (merge_into bl p i) bl"
  by (simp add: cfg_equiv_def complete_merged [OF ms] prefixes_merged [OF ms])

subsection \<open>The merging loop\<close>

text \<open>
  The invariant of one round, relative to the blocks \<open>bl0\<close> it started from: deleted
  blocks are isolated, and every edge of a live block comes from the start graph, from the
  same block or from one that has been deleted meanwhile.
\<close>

definition round_inv :: "basic_block list \<Rightarrow> basic_block list \<Rightarrow> bool list \<Rightarrow> bool" where
  "round_inv bl0 bl del \<longleftrightarrow> length bl = length bl0 \<and> length del = length bl0 \<and> \<not> del ! 0 \<and>
     cfg_wf bl \<and> cfg_equiv bl bl0 \<and>
     (\<forall>x < length bl0. \<forall>j \<in> set (succs bl x). if del ! x then j = x
        else \<not> del ! j \<and> (\<exists>y < length bl0. j \<in> set (succs bl0 y) \<and> (y = x \<or> del ! y)))"

lemma round_invD:
  assumes "round_inv bl0 bl del"
  shows "length bl = length bl0" "length del = length bl0" "\<not> del ! 0" "cfg_wf bl" "cfg_equiv bl bl0"
  using assms by (simp_all add: round_inv_def)

lemma round_inv_deleted:
  "round_inv bl0 bl del \<Longrightarrow> x < length bl0 \<Longrightarrow> del ! x \<Longrightarrow> j \<in> set (succs bl x) \<Longrightarrow> j = x"
  unfolding round_inv_def by metis

lemma round_inv_live:
  assumes "round_inv bl0 bl del" "x < length bl0" "\<not> del ! x" "j \<in> set (succs bl x)"
  shows "\<not> del ! j" "\<exists>y < length bl0. j \<in> set (succs bl0 y) \<and> (y = x \<or> del ! y)"
  using assms unfolding round_inv_def by metis+

lemma succs_in_range: "cfg_wf bl \<Longrightarrow> j \<in> set (succs bl x) \<Longrightarrow> j < length bl \<and> x < length bl"
  by (cases "x < length bl") (auto simp: cfg_wf_def succs_def)

lemma round_inv_start: "cfg_wf bl \<Longrightarrow> round_inv bl bl (replicate (length bl) False)"
proof -
  assume wf: "cfg_wf bl"
  let ?d = "replicate (length bl) False"
  have "if ?d ! x then j = x
     else \<not> ?d ! j \<and> (\<exists>y < length bl. j \<in> set (succs bl y) \<and> (y = x \<or> ?d ! y))"
    if "x < length bl" "j \<in> set (succs bl x)" for x j
  proof -
    have "j < length bl" using succs_in_range [OF wf that(2)] by simp
    with that show ?thesis by auto
  qed
  moreover have "0 < length bl" using wf by (simp add: cfg_wf_def)
  ultimately show ?thesis using wf unfolding round_inv_def by simp
qed

lemma preds_of_single:
  assumes "preds_of bl0 i = [p]"
  shows "p < length bl0" "\<And>y. y < length bl0 \<Longrightarrow> i \<in> set (succs bl0 y) \<Longrightarrow> y = p"
  using set_preds_of [of _ bl0 i] unfolding assms by auto

lemma only_live_pred:
  assumes inv: "round_inv bl0 bl del" and pr: "preds_of bl0 i = [p]"
    and live: "\<not> del ! p" "\<not> del ! i" and e: "i \<in> set (succs bl x)"
  shows "x = p"
proof -
  have x: "x < length bl0" using succs_in_range [OF round_invD(4) [OF inv] e] round_invD(1) [OF inv] by simp
  show ?thesis
  proof (cases "del ! x")
    case True
    then show ?thesis using round_inv_deleted [OF inv x True e] live by simp
  next
    case False
    then show ?thesis using round_inv_live(2) [OF inv x False e] preds_of_single [OF pr] live by metis
  qed
qed

lemma round_inv_self:
  assumes inv: "round_inv bl0 bl del" and pr: "preds_of bl0 i = [i]"
    and i: "i < length bl0" "i \<noteq> 0" "\<not> del ! i" "goto_target (bl ! i) = Some i"
  shows "round_inv bl0 bl (del[i := True])"
proof -
  have s: "succs bl i = [i]"
    using goto_target_successors [OF i(4)] i(1) round_invD(1) [OF inv] by (simp add: succs_def)
  have "if del[i := True] ! x then j = x
     else \<not> del[i := True] ! j \<and> (\<exists>y < length bl0. j \<in> set (succs bl0 y) \<and> (y = x \<or> del[i := True] ! y))"
    if x: "x < length bl0" and e: "j \<in> set (succs bl x)" for x j
  proof (cases "x = i")
    case True
    then show ?thesis using e s i round_invD(2) [OF inv] by simp
  next
    case False
    then have "j \<noteq> i" using only_live_pred [OF inv pr i(3,3)] e by blast
    then show ?thesis
      using False round_inv_deleted [OF inv x _ e] round_inv_live [OF inv x _ e] round_invD(2) [OF inv] i(1)
      by (auto simp: nth_list_update)
  qed
  then show ?thesis using round_invD [OF inv] i by (simp add: round_inv_def)
qed

lemma round_inv_merge:
  assumes inv: "round_inv bl0 bl del" and pr: "preds_of bl0 i = [p]"
    and i: "i < length bl0" "i \<noteq> 0" "\<not> del ! i" "\<not> del ! p" "goto_target (bl ! p) = Some i" "p \<noteq> i"
  shows "round_inv bl0 (merge_into bl p i) (del[i := True])"
proof -
  note len = round_invD(1,2) [OF inv]
  have p: "p < length bl0" by (rule preds_of_single(1) [OF pr])
  have only: "x = p" if "i \<in> set (succs bl x)" for x
    by (rule only_live_pred [OF inv pr i(4,3) that])
  have ms: "merge_site bl p i"
    unfolding merge_site_def using i p len only by simp
  note sc = succs_merged [OF ms]
  let ?d = "del[i := True]"
  have edge: "if ?d ! x then j = x
     else \<not> ?d ! j \<and> (\<exists>y < length bl0. j \<in> set (succs bl0 y) \<and> (y = x \<or> ?d ! y))"
    if x: "x < length bl0" and e: "j \<in> set (succs (merge_into bl p i) x)" for x j
  proof -
    consider "x = p" | "x = i" | "x \<noteq> p" "x \<noteq> i" by blast
    then show ?thesis
    proof cases
      case 1
      then have ei: "j \<in> set (succs bl i)" using e sc by simp
      then have "j \<noteq> i" using only i(6) by auto
      then show ?thesis
        using 1 round_inv_live [OF inv i(1,3) ei] i len by (auto simp: nth_list_update)
    next
      case 2
      then show ?thesis using e sc by simp
    next
      case 3
      then have ex: "j \<in> set (succs bl x)" using e sc by simp
      then have "j \<noteq> i" using only 3 by auto
      then show ?thesis
        using 3 round_inv_deleted [OF inv x _ ex] round_inv_live [OF inv x _ ex] i len
        by (auto simp: nth_list_update)
    qed
  qed
  have "set (succs (merge_into bl p i) x) \<subseteq> set (succs bl (if x = p then i else x))" for x
    using sc by (cases "x = p"; cases "x = i") simp_all
  then have "cfg_wf (merge_into bl p i)"
    using round_invD(4) [OF inv] succs_in_range [OF round_invD(4) [OF inv]]
    unfolding cfg_wf_def by (metis length_merge_into list.size(3) subsetD length_0_conv)
  moreover have "cfg_equiv (merge_into bl p i) bl0"
    by (rule cfg_equiv_trans [OF merge_equiv [OF ms] round_invD(5) [OF inv]])
  ultimately show ?thesis using edge round_invD [OF inv] i by (simp add: round_inv_def)
qed

lemma merge_step_inv:
  assumes inv: "round_inv bl0 bl del" and i: "i < length bl0" "i \<noteq> 0"
    and st: "merge_step (predecessors bl0) i (bl, del, ch) = (bl', del', ch')"
  shows "round_inv bl0 bl' del'"
proof (cases rule: merge_step_cases [of "predecessors bl0" i bl del ch])
  case 1
  then show ?thesis using inv st by simp
next
  case (2 p)
  have pr: "preds_of bl0 i = [p]" using 2(2) i(1) by (simp add: predecessors_def)
  have eq: "bl' = merge_into bl p i" "del' = del[i := True]" using 2(5) st by simp_all
  show ?thesis
  proof (cases "p = i")
    case True
    then show ?thesis
      using round_inv_self [OF inv _ i 2(1)] pr 2(4) merge_into_self [of i bl] round_invD(1) [OF inv] i(1)
      by (simp add: eq)
  next
    case False
    then show ?thesis using round_inv_merge [OF inv pr i 2(1,3,4)] by (simp add: eq)
  qed
qed

lemma merge_fold_inv:
  "round_inv bl0 bl del \<Longrightarrow> \<forall>n \<in> set ns. n < length bl0 \<and> n \<noteq> 0 \<Longrightarrow>
   fold (merge_step (predecessors bl0)) ns (bl, del, ch) = (bl', del', ch') \<Longrightarrow> round_inv bl0 bl' del'"
proof (induction ns arbitrary: bl del ch)
  case (Cons n ns)
  obtain b1 d1 c1 where s: "merge_step (predecessors bl0) n (bl, del, ch) = (b1, d1, c1)"
    by (metis prod_cases3)
  have "round_inv bl0 b1 d1" using merge_step_inv [OF Cons.prems(1) _ _ s] Cons.prems(2) by simp
  then show ?case by (rule Cons.IH) (use Cons.prems s in auto)
qed simp

lemma merge_round_inv:
  assumes "cfg_wf bl" "merge_round bl = (bl', del, ch)"
  shows "round_inv bl bl' del"
  by (rule merge_fold_inv [OF round_inv_start [OF assms(1)] _ assms(2) [unfolded merge_round_def]]) auto

lemma keep_closedI:
  assumes "length keep = length bl" "0 < length bl" "keep ! 0"
    and "\<And>x j. x < length bl \<Longrightarrow> keep ! x \<Longrightarrow> j \<in> set (succs bl x) \<Longrightarrow> j < length bl \<and> keep ! j"
  shows "keep_closed bl keep"
  unfolding keep_closed_def using assms by blast

lemma round_inv_keep:
  assumes inv: "round_inv bl0 bl del"
  shows "keep_closed bl (map Not del)"
proof (rule keep_closedI)
  note D = round_invD [OF inv]
  show l: "0 < length bl" using D(4) by (simp add: cfg_wf_def)
  show "length (map Not del) = length bl" using D(1,2) by simp
  show "map Not del ! 0" using D(1-3) l by (simp add: nth_map)
  fix x j assume a: "x < length bl" "map Not del ! x" "j \<in> set (succs bl x)"
  have j: "j < length bl" using succs_in_range [OF D(4) a(3)] by blast
  have "\<not> del ! x" using a(1,2) D(1,2) by simp
  then have "\<not> del ! j" using round_inv_live(1) [OF inv _ _ a(3)] a(1) D(1) by simp
  then show "j < length bl \<and> map Not del ! j" using j D(1,2) by simp
qed

lemma cfg_wf_length: "cfg_wf bl \<Longrightarrow> length bl \<le> 2 ^ 32" "cfg_wf bl \<Longrightarrow> bl \<noteq> []"
  by (simp_all add: cfg_wf_def)

lemma cfg_simplify_correct: "cfg_wf bl \<Longrightarrow> cfg_wf (cfg_simplify bl) \<and> cfg_equiv (cfg_simplify bl) bl"
proof (induction bl rule: cfg_simplify.induct)
  case (1 bl)
  obtain bl' del ch where r: "merge_round bl = (bl', del, ch)" by (metis prod_cases3)
  note inv = merge_round_inv [OF 1(2) r]
  show ?case
  proof (cases ch)
    case True
    let ?c = "compact bl' (map Not del)"
    note kc = round_inv_keep [OF inv] cfg_wf_length(1) [OF round_invD(4) [OF inv]]
    have "cfg_wf ?c" by (rule compact_wf [OF kc])
    then have "cfg_wf (cfg_simplify ?c) \<and> cfg_equiv (cfg_simplify ?c) ?c"
      using 1(1) [OF r [symmetric] refl True] by blast
    moreover have "cfg_equiv ?c bl"
      by (rule cfg_equiv_trans [OF compact_equiv [OF kc] round_invD(5) [OF inv]])
    ultimately show ?thesis
      using r True cfg_equiv_trans by (subst (1 2) cfg_simplify.simps) auto
  next
    case False
    then show ?thesis
      using r round_invD(4,5) [OF inv] by (subst (1 2) cfg_simplify.simps) simp
  qed
qed

lemma merge_fold_unchanged:
  "fold (merge_step preds) ns (bl, del, ch) = (bl', del', False) \<Longrightarrow>
     bl' = bl \<and> del' = del \<and> (\<forall>n \<in> set ns. merge_step preds n (bl, del, False) = (bl, del, False)) \<and> \<not> ch"
proof (induction ns arbitrary: bl del ch)
  case (Cons n ns)
  obtain b1 d1 c1 where s: "merge_step preds n (bl, del, ch) = (b1, d1, c1)"
    by (metis prod_cases3)
  have "fold (merge_step preds) ns (b1, d1, c1) = (bl', del', False)" using Cons.prems s by simp
  note ih = Cons.IH [OF this]
  have "merge_step preds n (bl, del, ch) = (bl, del, ch) \<and> \<not> ch"
  proof (cases rule: merge_step_cases [of preds n bl del ch])
    case 1
    then show ?thesis using ih s by simp
  next
    case (2 p)
    then show ?thesis using ih s by simp
  qed
  then show ?case using ih s by auto
qed simp

lemma cfg_simplify_fixpoint: "merge_round (cfg_simplify bl) =
  (cfg_simplify bl, replicate (length (cfg_simplify bl)) False, False)"
proof (induction bl rule: cfg_simplify.induct)
  case (1 bl)
  obtain bl' del ch where r: "merge_round bl = (bl', del, ch)" by (metis prod_cases3)
  show ?case
  proof (cases ch)
    case True
    then have "cfg_simplify bl = cfg_simplify (compact bl' (map Not del))"
      using r by (subst cfg_simplify.simps) simp
    then show ?thesis using 1 [OF r [symmetric] refl True] by simp
  next
    case False
    then have "bl' = bl" "del = replicate (length bl) False"
      using r merge_fold_unchanged [of _ _ bl _ False bl' del] unfolding merge_round_def by auto
    moreover have "cfg_simplify bl = bl'" using r False by (subst cfg_simplify.simps) simp
    ultimately show ?thesis using r False by simp
  qed
qed

subsection \<open>The passes\<close>

text \<open>
  What \<open>optimize\<close> relies on for a pass over the block graph: on a body whose targets
  exist it does not panic, the targets of the result exist, and the traces are unchanged.
\<close>

locale cfg_pass =
  fixes run :: "basic_block list \<Rightarrow> basic_block list option"
  assumes pass_ok: "cfg_wf bl \<Longrightarrow> \<exists>bl'. run bl = Some bl' \<and> cfg_wf bl' \<and> cfg_equiv bl' bl"
begin

lemma pass_result: "cfg_wf bl \<Longrightarrow> run bl = Some bl' \<Longrightarrow> cfg_wf bl' \<and> cfg_equiv bl' bl"
  using pass_ok by fastforce

end

locale cfg_pass_seq = first: cfg_pass f + second: cfg_pass g for f g
begin

lemma seq_ok:
  assumes "cfg_wf bl"
  shows "\<exists>bl'. Option.bind (f bl) g = Some bl' \<and> cfg_wf bl' \<and> cfg_equiv bl' bl"
proof -
  obtain b1 where 1: "f bl = Some b1" "cfg_wf b1" "cfg_equiv b1 bl"
    using first.pass_ok [OF assms] by blast
  obtain b2 where 2: "g b1 = Some b2" "cfg_wf b2" "cfg_equiv b2 b1"
    using second.pass_ok [OF 1(2)] by blast
  show ?thesis using 1 2 cfg_equiv_trans [OF 2(3) 1(3)] by simp
qed

end

sublocale cfg_pass_seq \<subseteq> seq: cfg_pass "\<lambda>bl. Option.bind (f bl) g"
  by unfold_locales (rule seq_ok)

lemma reachable_set_spec:
  assumes "reachable_set bl = Some r"
  shows "distinct r" "set r \<subseteq> {..<length bl}" "0 \<in> set r" "\<And>i. i \<in> set r \<Longrightarrow> cfg_reach bl i"
    "\<And>i. i \<in> set r \<Longrightarrow> set (succs bl i) \<subseteq> set r"
proof -
  have "cfg_reach bl 0" if "0 < length bl" unfolding cfg_reach_def using path_refl [OF that] by blast
  then have "reach_inv bl [] [0]" by (simp add: reach_inv_def)
  from reachable_loop_sound [OF assms [unfolded reachable_set_def] this]
  have r: "reach_inv bl r []" "0 \<in> set r" by auto
  then show "distinct r" "set r \<subseteq> {..<length bl}" "0 \<in> set r" by (simp_all add: reach_inv_def)
  fix i assume i: "i \<in> set r"
  then have "i < length bl" using r by (auto simp: reach_inv_def)
  then show "cfg_reach bl i" "set (succs bl i) \<subseteq> set r" using r i by (simp_all add: reach_inv_def)
qed

lemma reachable_set_total: "cfg_wf bl \<Longrightarrow> \<exists>r. reachable_set bl = Some r"
  unfolding reachable_set_def
  by (rule reachable_loop_total) (auto simp: cfg_wf_def)

definition reach_keep :: "basic_block list \<Rightarrow> nat list \<Rightarrow> bool list" where
  "reach_keep bl r = map (\<lambda>i. i \<in> set r) [0..<length bl]"

lemma reach_keep_nth: "i < length bl \<Longrightarrow> reach_keep bl r ! i \<longleftrightarrow> i \<in> set r"
  by (simp add: reach_keep_def)

lemma reach_keep_closed:
  assumes "reachable_set bl = Some r"
  shows "keep_closed bl (reach_keep bl r)"
proof (rule keep_closedI)
  note R = reachable_set_spec [OF assms]
  show "length (reach_keep bl r) = length bl" by (simp add: reach_keep_def)
  show l: "0 < length bl" using R(2,3) by auto
  show "reach_keep bl r ! 0" using R(3) l by (simp only: reach_keep_nth)
  fix x j assume a: "x < length bl" "reach_keep bl r ! x" "j \<in> set (succs bl x)"
  then have "j \<in> set r" using R(5) by (auto simp: reach_keep_nth)
  then show "j < length bl \<and> reach_keep bl r ! j" using R(2) by (auto simp: reach_keep_nth)
qed

lemma unreachable_elim_correct:
  assumes wf: "cfg_wf bl"
  shows "\<exists>bl'. unreachable_elim bl = Some bl' \<and> cfg_wf bl' \<and> cfg_equiv bl' bl"
proof -
  obtain r where r: "reachable_set bl = Some r" using reachable_set_total [OF wf] by blast
  note kc = reach_keep_closed [OF r] cfg_wf_length(1) [OF wf]
  show ?thesis
    using r wf compact_wf [OF kc] compact_equiv [OF kc]
    by (cases "length r = length bl") (simp_all add: unreachable_elim_def reach_keep_def)
qed

lemma reach_compact:
  assumes "keep_closed bl keep" "length bl \<le> 2 ^ 32" "cfg_reach bl i"
  shows "cfg_reach (compact bl keep) (new_index keep i)"
  using compact_path_to [OF assms(1,2)] assms(3) unfolding cfg_reach_def by blast

lemma unreachable_elim_reach:
  assumes wf: "cfg_wf bl" and run: "unreachable_elim bl = Some bl'" and i: "i < length bl'"
  shows "cfg_reach bl' i"
proof -
  obtain r where r: "reachable_set bl = Some r" using reachable_set_total [OF wf] by blast
  note R = reachable_set_spec [OF r] and kc = reach_keep_closed [OF r] cfg_wf_length(1) [OF wf]
  show ?thesis
  proof (cases "length r = length bl")
    case True
    then have "set r = {..<length bl}"
      using R(1,2) by (metis card_lessThan card_subset_eq distinct_card finite_lessThan)
    then show ?thesis using run r True i R(4) by (simp add: unreachable_elim_def)
  next
    case False
    then have b: "bl' = compact bl (reach_keep bl r)"
      using run r by (simp add: unreachable_elim_def reach_keep_def)
    obtain j where j: "j < length (reach_keep bl r)" "reach_keep bl r ! j" "new_index (reach_keep bl r) j = i"
      by (rule compact_surj [of i "reach_keep bl r"])
         (use i keep_closedD(1) [OF kc(1)] in \<open>simp_all add: b compact_length\<close>)
    then have "cfg_reach bl j" using R(4) by (simp add: reach_keep_def)
    then show ?thesis using reach_compact [OF kc] j(3) b by blast
  qed
qed

interpretation simplify_pass: cfg_pass "\<lambda>bl. Some (cfg_simplify bl)"
  by unfold_locales (use cfg_simplify_correct in blast)

interpretation elim_pass: cfg_pass unreachable_elim
  by unfold_locales (rule unreachable_elim_correct)

interpretation graph_passes: cfg_pass_seq "\<lambda>bl. Some (cfg_simplify bl)" unreachable_elim ..

subsection \<open>Properties\<close>

text \<open>
  C23.  Block merging is correct and terminates: on a body whose jump targets exist the pass
  returns blocks whose targets exist, with exactly the same complete traces and the same
  prefixes of runs (terminating or not) as the original.
\<close>

theorem cfg_simplify_preserves:
  assumes "cfg_wf bl"
  shows "cfg_wf (cfg_simplify bl) \<and> cfg_complete (cfg_simplify bl) = cfg_complete bl \<and>
    cfg_prefixes (cfg_simplify bl) = cfg_prefixes bl"
  using simplify_pass.pass_result [OF assms refl] by (simp add: cfg_equiv_def)

definition goto_block :: "u32 \<Rightarrow> basic_block" where
  "goto_block t = basic_block_new \<lparr>tm_kind = TGoto t, tm_span = span_DUMMY\<rparr>"

definition return_block :: basic_block where
  "return_block = basic_block_new return_terminator"

text \<open>A diamond-free chain: block 0 jumps to 2, which jumps to 1, which returns; block 3 is
  an unreachable loop.\<close>

definition chain_example :: "basic_block list" where
  "chain_example = [goto_block 2, return_block, goto_block 1, goto_block 3]"

lemma cfg_wf_check:
  "cfg_wf bl \<longleftrightarrow> bl \<noteq> [] \<and> length bl \<le> 2 ^ 32 \<and>
     list_all (\<lambda>i. list_all (\<lambda>j. j < length bl) (succs bl i)) [0..<length bl]"
  unfolding cfg_wf_def list_all_iff by (simp add: Ball_def)

lemma chain_example_wf: "cfg_wf chain_example"
  unfolding cfg_wf_check
proof (intro conjI)
  show "chain_example \<noteq> []" "length chain_example \<le> 2 ^ 32" by (simp_all add: chain_example_def)
  show "list_all (\<lambda>i. list_all (\<lambda>j. j < length chain_example) (succs chain_example i))
      [0..<length chain_example]"
    by code_simp
qed

lemma cfg_simplify_preserves_witness:
  "cfg_wf chain_example \<and> cfg_complete (cfg_simplify chain_example) = cfg_complete chain_example"
  using chain_example_wf cfg_simplify_preserves [OF chain_example_wf] by blast

text \<open>
   Block merging runs to a normal form: in the result no block has a unique incoming
  edge that is a plain jump (block 0 apart), so running the pass again changes nothing.
\<close>

theorem cfg_simplify_normal:
  assumes "preds_of (cfg_simplify bl) i = [p]" and "i < length (cfg_simplify bl)" and "i \<noteq> 0"
  shows "goto_target (cfg_simplify bl ! p) \<noteq> Some i \<and> cfg_simplify (cfg_simplify bl) = cfg_simplify bl"
proof
  let ?b = "cfg_simplify bl" and ?d = "replicate (length (cfg_simplify bl)) False"
  have "merge_step (predecessors ?b) i (?b, ?d, False) = (?b, ?d, False)"
    using merge_fold_unchanged [OF cfg_simplify_fixpoint [unfolded merge_round_def]] assms(2,3) by simp
  moreover have "p < length ?b" by (rule preds_of_single(1) [OF assms(1)])
  ultimately show "goto_target (?b ! p) \<noteq> Some i"
    using assms by (auto simp: merge_step_def predecessors_def)
  show "cfg_simplify ?b = ?b"
    using cfg_simplify_fixpoint [of bl] by (subst cfg_simplify.simps) simp
qed

text \<open>An assertion that continues at block 1; nothing can be merged.\<close>

definition assert_example :: "basic_block list" where
  "assert_example = [basic_block_new \<lparr>tm_kind = TAssert (Copy (place_new 1)) True 1 None MsgBoundsCheck,
      tm_span = span_DUMMY\<rparr>, return_block]"

lemma cfg_simplify_normal_witness:
  "preds_of (cfg_simplify assert_example) 1 = [0] \<and> goto_target (cfg_simplify assert_example ! 0) \<noteq> Some 1"
proof -
  have 1: "cfg_simplify assert_example = assert_example" by code_simp
  have 2: "preds_of assert_example 1 = [0]" by code_simp
  have 3: "1 < length assert_example" by (simp add: assert_example_def)
  from cfg_simplify_normal [of assert_example 1 0, unfolded 1, OF 2 3] show ?thesis
    unfolding 1 using 2 by simp
qed

text \<open>
  C25.  Removing unreachable blocks is correct: on a body whose targets exist the pass does
  not panic, the targets of the result exist, the traces are unchanged, and every block left
  is reachable from block 0.
\<close>

theorem unreachable_elim_preserves:
  assumes "cfg_wf bl"
  shows "\<exists>bl'. unreachable_elim bl = Some bl' \<and> cfg_wf bl' \<and> cfg_complete bl' = cfg_complete bl \<and>
    cfg_prefixes bl' = cfg_prefixes bl \<and> (\<forall>i < length bl'. cfg_reach bl' i)"
  using elim_pass.pass_ok [OF assms] unreachable_elim_reach [OF assms]
  by (auto simp: cfg_equiv_def)

lemma unreachable_elim_preserves_witness:
  "\<exists>bl'. unreachable_elim chain_example = Some bl' \<and> cfg_wf bl' \<and> cfg_complete bl' = cfg_complete chain_example"
  using unreachable_elim_preserves [OF chain_example_wf] by blast

end
