(* ===== verification/Opt_Validate.thy ===== *)
theory Opt_Validate
  imports Opt_Cfg Type_Context
begin

text \<open>
  The MIR validator of \<^verbatim>\<open>crates/glyim-opt/src/validate.rs\<close> and the slice projection pass
  of \<^verbatim>\<open>slice_desugar.rs\<close>, with the type of a place (\<open>Place::ty\<close> of
  \<^verbatim>\<open>crates/glyim-mir/src/lib.rs\<close>) they consult.  A panic (an undeclared local, a type
  handle that is not in the arena) is \<open>None\<close>.
\<close>

subsection \<open>The type of a place\<close>

text \<open>One projection step; every mismatch gives the error type.\<close>

definition projection_step :: "ty_ctx \<Rightarrow> ty \<Rightarrow> projection_elem \<Rightarrow> ty option" where
  "projection_step ctx t elem =
    (case elem of
       PDeref \<Rightarrow> map_option (\<lambda>k. case k of TRef _ inner _ \<Rightarrow> inner | TRawPtr inner _ \<Rightarrow> inner | _ \<Rightarrow> Ty_ERROR)
                   (ty_kind_of ctx t)
     | PField idx \<Rightarrow>
         (case ty_kind_of ctx t of
            None \<Rightarrow> None
          | Some (TTuple substs) \<Rightarrow>
              map_option (\<lambda>args. case get args (unat idx) of Some (GaTy f) \<Rightarrow> f | _ \<Rightarrow> Ty_ERROR)
                (substitution_args ctx substs)
          | Some (TAdt adt_id _) \<Rightarrow> Some (field_ty ctx adt_id (unat idx))
          | Some _ \<Rightarrow> Some Ty_ERROR)
     | PIndex _ \<Rightarrow> map_option (\<lambda>k. case k of TArray inner _ \<Rightarrow> inner | TSlice inner \<Rightarrow> inner | _ \<Rightarrow> Ty_ERROR)
                     (ty_kind_of ctx t)
     | PDowncast _ \<Rightarrow> Some t
     | PConstantIndex _ _ _ \<Rightarrow>
         map_option (\<lambda>k. case k of TArray inner _ \<Rightarrow> inner | TSlice inner \<Rightarrow> inner | _ \<Rightarrow> Ty_ERROR)
           (ty_kind_of ctx t)
     | PSubslice _ _ _ \<Rightarrow>
         map_option (\<lambda>k. case k of TSlice _ \<Rightarrow> t | TArray inner _ \<Rightarrow> inner | _ \<Rightarrow> Ty_ERROR)
           (ty_kind_of ctx t))"

fun projections_ty :: "ty_ctx \<Rightarrow> ty \<Rightarrow> projection_elem list \<Rightarrow> ty option" where
  "projections_ty ctx t [] = Some t"
| "projections_ty ctx t (p # ps) =
    (case projection_step ctx t p of None \<Rightarrow> None | Some t' \<Rightarrow> projections_ty ctx t' ps)"

definition place_ty :: "ty_ctx \<Rightarrow> local_decl list \<Rightarrow> place \<Rightarrow> ty option" where
  "place_ty ctx decls p =
    (case get decls (unat (pl_local p)) of
       None \<Rightarrow> None | Some d \<Rightarrow> projections_ty ctx (ld_ty d) (pl_projection p))"

subsection \<open>The validator\<close>

datatype mir_validation_error_kind =
    UnknownTarget u32
  | UnnecessaryDrop place ty
  | NonTerminalSliceProjection
  | SubsliceAfterDesugar

record mir_validation_error =
  ve_kind :: mir_validation_error_kind
  ve_span :: span

type_synonym validation = "(mir_validation_error + unit) option"

definition slice_elem :: "projection_elem \<Rightarrow> bool" where
  "slice_elem e = (case e of PConstantIndex _ _ _ \<Rightarrow> True | PSubslice _ _ _ \<Rightarrow> True | _ \<Rightarrow> False)"

text \<open>No \<open>ConstantIndex\<close> or \<open>Subslice\<close> before the last element.\<close>

fun slices_terminal :: "projection_elem list \<Rightarrow> bool" where
  "slices_terminal [] = True"
| "slices_terminal [e] = True"
| "slices_terminal (e # f # es) = (\<not> slice_elem e \<and> slices_terminal (f # es))"

definition place_terminal :: "place \<Rightarrow> bool" where
  "place_terminal p = slices_terminal (pl_projection p)"

fun operand_places :: "operand \<Rightarrow> place list" where
  "operand_places (Copy p) = [p]"
| "operand_places (Move p) = [p]"
| "operand_places (Constant c) = []"

fun rvalue_places :: "rvalue \<Rightarrow> place list" where
  "rvalue_places (RvUse op) = operand_places op"
| "rvalue_places (RvRef p _) = [p]"
| "rvalue_places (RvBinaryOp _ a b) = operand_places a @ operand_places b"
| "rvalue_places (RvUnaryOp _ op) = operand_places op"
| "rvalue_places (RvAggregate _ ops) = concat (map operand_places ops)"
| "rvalue_places (RvDiscriminant p) = [p]"
| "rvalue_places (RvLen p) = [p]"
| "rvalue_places (RvCast _ op _) = operand_places op"
| "rvalue_places (RvRepeat op _) = operand_places op"

definition check_rvalue_places :: "rvalue \<Rightarrow> mir_validation_error + unit" where
  "check_rvalue_places rv =
    (if list_all place_terminal (rvalue_places rv) then Inr ()
     else Inl \<lparr>ve_kind = NonTerminalSliceProjection, ve_span = span_DUMMY\<rparr>)"

fun check_statements :: "statement list \<Rightarrow> mir_validation_error + unit" where
  "check_statements [] = Inr ()"
| "check_statements (s # ss) =
    (case st_kind s of
       StAssign _ rv \<Rightarrow> rbind (check_rvalue_places rv) (\<lambda>_. check_statements ss)
     | _ \<Rightarrow> check_statements ss)"

definition check_target :: "nat \<Rightarrow> span \<Rightarrow> u32 \<Rightarrow> mir_validation_error + unit" where
  "check_target n_blocks sp bb =
    (if unat bb < n_blocks then Inr () else Inl \<lparr>ve_kind = UnknownTarget bb, ve_span = sp\<rparr>)"

fun check_targets :: "nat \<Rightarrow> span \<Rightarrow> u32 list \<Rightarrow> mir_validation_error + unit" where
  "check_targets n sp [] = Inr ()"
| "check_targets n sp (t # ts) = rbind (check_target n sp t) (\<lambda>_. check_targets n sp ts)"

definition opt_list :: "'a option \<Rightarrow> 'a list" where
  "opt_list x = (case x of None \<Rightarrow> [] | Some y \<Rightarrow> [y])"

definition check_terminator ::
  "nat \<Rightarrow> ty_ctx \<Rightarrow> body \<Rightarrow> terminator \<Rightarrow> validation" where
  "check_terminator fuel ctx bd t =
    (let n = length (bd_blocks bd); sp = tm_span t in
     case tm_kind t of
       TGoto target \<Rightarrow> Some (check_targets n sp [target])
     | TAssert _ _ target cleanup _ \<Rightarrow> Some (check_targets n sp (target # opt_list cleanup))
     | TDrop p target cleanup \<Rightarrow>
         (case check_targets n sp (target # opt_list cleanup) of
            Inl e \<Rightarrow> Some (Inl e)
          | Inr _ \<Rightarrow>
              (case place_ty ctx (bd_locals bd) p of
                 None \<Rightarrow> None
               | Some ty \<Rightarrow>
                   (case needs_drop fuel ctx ty of
                      None \<Rightarrow> None
                    | Some b \<Rightarrow> Some (if b then Inr ()
                                     else Inl \<lparr>ve_kind = UnnecessaryDrop p ty, ve_span = sp\<rparr>))))
     | TSwitchInt _ _ targets \<Rightarrow>
         Some (check_targets n sp (sw_otherwise targets # map snd (sw_branches targets)))
     | TCall _ _ _ target cleanup \<Rightarrow> Some (check_targets n sp (opt_list target @ opt_list cleanup))
     | TReturn \<Rightarrow> Some (Inr ())
     | TUnreachable \<Rightarrow> Some (Inr ()))"

fun check_blocks :: "nat \<Rightarrow> ty_ctx \<Rightarrow> body \<Rightarrow> basic_block list \<Rightarrow> validation" where
  "check_blocks fuel ctx bd [] = Some (Inr ())"
| "check_blocks fuel ctx bd (b # bs) =
    (case check_statements (bb_statements b) of
       Inl e \<Rightarrow> Some (Inl e)
     | Inr _ \<Rightarrow>
        (case check_terminator fuel ctx bd (bb_terminator b) of
           None \<Rightarrow> None
         | Some (Inl e) \<Rightarrow> Some (Inl e)
         | Some (Inr _) \<Rightarrow> check_blocks fuel ctx bd bs))"

definition validate_body :: "nat \<Rightarrow> ty_ctx \<Rightarrow> body \<Rightarrow> validation" where
  "validate_body fuel ctx bd = check_blocks fuel ctx bd (bd_blocks bd)"

text \<open>The post-condition check after the slice pass.\<close>

definition rvalue_place :: "rvalue \<Rightarrow> place option" where
  "rvalue_place rv =
    (case rv of RvRef p _ \<Rightarrow> Some p | RvDiscriminant p \<Rightarrow> Some p | RvLen p \<Rightarrow> Some p
     | RvUse (Copy p) \<Rightarrow> Some p | RvUse (Move p) \<Rightarrow> Some p | _ \<Rightarrow> None)"

definition is_subslice :: "projection_elem \<Rightarrow> bool" where
  "is_subslice e = (case e of PSubslice _ _ _ \<Rightarrow> True | _ \<Rightarrow> False)"

definition has_subslice :: "place \<Rightarrow> bool" where
  "has_subslice p = list_ex is_subslice (pl_projection p)"

definition stmt_subslice :: "statement \<Rightarrow> bool" where
  "stmt_subslice s =
    (case st_kind s of
       StAssign _ rv \<Rightarrow> (case rvalue_place rv of Some p \<Rightarrow> has_subslice p | None \<Rightarrow> False)
     | _ \<Rightarrow> False)"

fun validate_no_subslice :: "basic_block list \<Rightarrow> mir_validation_error + unit" where
  "validate_no_subslice [] = Inr ()"
| "validate_no_subslice (b # bs) =
    (if list_ex stmt_subslice (bb_statements b)
     then Inl \<lparr>ve_kind = SubsliceAfterDesugar,
               ve_span = (case bb_statements b of [] \<Rightarrow> span_DUMMY | s # _ \<Rightarrow> st_span s)\<rparr>
     else if (case tm_kind (bb_terminator b) of TDrop p _ _ \<Rightarrow> has_subslice p | _ \<Rightarrow> False)
     then Inl \<lparr>ve_kind = SubsliceAfterDesugar, ve_span = tm_span (bb_terminator b)\<rparr>
     else validate_no_subslice bs)"

subsection \<open>Splitting slice projections\<close>

text \<open>\<open>find_map\<close> over the enumerated projections: the first value-producing element that
  is not the last.\<close>

fun split_at :: "projection_elem list \<Rightarrow> nat option" where
  "split_at [] = None"
| "split_at [e] = None"
| "split_at (e # f # es) = (if slice_elem e then Some 0 else map_option Suc (split_at (f # es)))"

lemma split_at_less: "split_at ps = Some i \<Longrightarrow> i + 1 < length ps"
  by (induction ps arbitrary: i rule: split_at.induct) (auto split: if_splits)

definition storage_live :: "u32 \<Rightarrow> span \<Rightarrow> statement" where
  "storage_live l sp = \<lparr>st_kind = StStorageLive l, st_span = sp\<rparr>"

definition copy_into :: "u32 \<Rightarrow> place \<Rightarrow> span \<Rightarrow> statement" where
  "copy_into l p sp = \<lparr>st_kind = StAssign (place_new l) (RvUse (Copy p)), st_span = sp\<rparr>"

text \<open>The state of the pass is the local table and the statements to put in front.\<close>

function desugar_place ::
  "ty_ctx \<Rightarrow> span \<Rightarrow> local_decl list \<times> statement list \<Rightarrow> place
   \<Rightarrow> (place \<times> local_decl list \<times> statement list) option" where
  "desugar_place ctx sp (locals, prelude) p =
    (case split_at (pl_projection p) of
       None \<Rightarrow> Some (p, locals, prelude)
     | Some i \<Rightarrow>
        (let prefix_place = p\<lparr>pl_projection := take (i + 1) (pl_projection p)\<rparr> in
         case place_ty ctx locals prefix_place of
           None \<Rightarrow> None
         | Some prefix_ty \<Rightarrow>
            (let tmp = word_of_nat (length locals);
                 locals' = locals @ [\<lparr>ld_ty = prefix_ty, ld_mutability = MutNot, ld_span = sp\<rparr>];
                 prelude' = prelude @ [storage_live tmp sp, copy_into tmp prefix_place sp]
             in desugar_place ctx sp (locals', prelude')
                  \<lparr>pl_local = tmp, pl_projection = drop (i + 1) (pl_projection p)\<rparr>)))"
  by pat_completeness auto
termination
  by (relation "measure (\<lambda>(ctx, sp, st, p). length (pl_projection p))")
     (auto dest!: split_at_less)

declare desugar_place.simps [simp del]

definition desugar_operand where
  "desugar_operand ctx sp st op =
    (case op of
       Copy p \<Rightarrow> map_option (\<lambda>(q, st'). (Copy q, st')) (desugar_place ctx sp st p)
     | Move p \<Rightarrow> map_option (\<lambda>(q, st'). (Move q, st')) (desugar_place ctx sp st p)
     | Constant c \<Rightarrow> Some (Constant c, st))"

fun desugar_operands where
  "desugar_operands ctx sp st [] = Some ([], st)"
| "desugar_operands ctx sp st (op # ops) =
    (case desugar_operand ctx sp st op of
       None \<Rightarrow> None
     | Some (op', st1) \<Rightarrow>
        (case desugar_operands ctx sp st1 ops of
           None \<Rightarrow> None | Some (ops', st2) \<Rightarrow> Some (op' # ops', st2)))"

definition desugar_rvalue where
  "desugar_rvalue ctx sp st rv =
    (case rv of
       RvUse op \<Rightarrow> map_option (\<lambda>(x, s). (RvUse x, s)) (desugar_operand ctx sp st op)
     | RvBinaryOp b l r \<Rightarrow>
         (case desugar_operand ctx sp st l of
            None \<Rightarrow> None
          | Some (l', st1) \<Rightarrow> map_option (\<lambda>(x, s). (RvBinaryOp b l' x, s)) (desugar_operand ctx sp st1 r))
     | RvUnaryOp u op \<Rightarrow> map_option (\<lambda>(x, s). (RvUnaryOp u x, s)) (desugar_operand ctx sp st op)
     | RvRef p k \<Rightarrow> map_option (\<lambda>(x, s). (RvRef x k, s)) (desugar_place ctx sp st p)
     | RvAggregate k ops \<Rightarrow> map_option (\<lambda>(x, s). (RvAggregate k x, s)) (desugar_operands ctx sp st ops)
     | RvDiscriminant p \<Rightarrow> map_option (\<lambda>(x, s). (RvDiscriminant x, s)) (desugar_place ctx sp st p)
     | RvLen p \<Rightarrow> map_option (\<lambda>(x, s). (RvLen x, s)) (desugar_place ctx sp st p)
     | RvCast k op t \<Rightarrow> map_option (\<lambda>(x, s). (RvCast k x t, s)) (desugar_operand ctx sp st op)
     | RvRepeat op c \<Rightarrow> map_option (\<lambda>(x, s). (RvRepeat x c, s)) (desugar_operand ctx sp st op))"

definition desugar_statement where
  "desugar_statement ctx locals s =
    (case st_kind s of
       StAssign p rv \<Rightarrow>
         (case desugar_rvalue ctx (st_span s) (locals, []) rv of
            None \<Rightarrow> None
          | Some (rv', st1) \<Rightarrow>
             (case desugar_place ctx (st_span s) st1 p of
                None \<Rightarrow> None
              | Some (p', locals', prelude) \<Rightarrow>
                  Some (s\<lparr>st_kind := StAssign p' rv'\<rparr>, locals', prelude)))
     | _ \<Rightarrow> Some (s, locals, []))"

fun desugar_statements where
  "desugar_statements ctx locals [] = Some ([], locals)"
| "desugar_statements ctx locals (s # ss) =
    (case desugar_statement ctx locals s of
       None \<Rightarrow> None
     | Some (s', locals1, prelude) \<Rightarrow>
        (case desugar_statements ctx locals1 ss of
           None \<Rightarrow> None | Some (ss', locals2) \<Rightarrow> Some (prelude @ s' # ss', locals2)))"

definition desugar_terminator where
  "desugar_terminator ctx st t =
    (let sp = tm_span t in
     case tm_kind t of
       TSwitchInt d ty ts \<Rightarrow>
         map_option (\<lambda>(x, s). (t\<lparr>tm_kind := TSwitchInt x ty ts\<rparr>, s)) (desugar_operand ctx sp st d)
     | TCall f args dest target cleanup \<Rightarrow>
         (case desugar_operand ctx sp st f of
            None \<Rightarrow> None
          | Some (f', st1) \<Rightarrow>
             (case desugar_operands ctx sp st1 args of
                None \<Rightarrow> None
              | Some (args', st2) \<Rightarrow>
                  map_option (\<lambda>(x, s). (t\<lparr>tm_kind := TCall f' args' x target cleanup\<rparr>, s))
                    (desugar_place ctx sp st2 dest)))
     | TAssert c e target cleanup msg \<Rightarrow>
         map_option (\<lambda>(x, s). (t\<lparr>tm_kind := TAssert x e target cleanup msg\<rparr>, s)) (desugar_operand ctx sp st c)
     | TDrop p target cleanup \<Rightarrow>
         map_option (\<lambda>(x, s). (t\<lparr>tm_kind := TDrop x target cleanup\<rparr>, s)) (desugar_place ctx sp st p)
     | _ \<Rightarrow> Some (t, st))"

definition desugar_block where
  "desugar_block ctx locals b =
    (case desugar_statements ctx locals (bb_statements b) of
       None \<Rightarrow> None
     | Some (stmts, locals1) \<Rightarrow>
        (case desugar_terminator ctx (locals1, []) (bb_terminator b) of
           None \<Rightarrow> None
         | Some (t, locals2, prelude) \<Rightarrow>
             Some (b\<lparr>bb_statements := stmts @ prelude, bb_terminator := t\<rparr>, locals2)))"

fun desugar_blocks where
  "desugar_blocks ctx locals [] = Some ([], locals)"
| "desugar_blocks ctx locals (b # bs) =
    (case desugar_block ctx locals b of
       None \<Rightarrow> None
     | Some (b', locals1) \<Rightarrow>
        (case desugar_blocks ctx locals1 bs of
           None \<Rightarrow> None | Some (bs', locals2) \<Rightarrow> Some (b' # bs', locals2)))"

definition slice_desugar :: "ty_ctx \<Rightarrow> body \<Rightarrow> body option" where
  "slice_desugar ctx bd =
    map_option (\<lambda>(bs, locals). bd\<lparr>bd_blocks := bs, bd_locals := locals\<rparr>)
      (desugar_blocks ctx (bd_locals bd) (bd_blocks bd))"

subsection \<open>What the validator accepts\<close>

lemma check_targets_ok: "check_targets n sp ts = Inr u \<longleftrightarrow> (\<forall>t \<in> set ts. unat t < n)"
  by (induction ts) (auto simp: check_target_def rbind_def split: sum.splits if_splits)

definition checked_targets :: "terminator \<Rightarrow> u32 list" where
  "checked_targets t =
    (case tm_kind t of
       TGoto target \<Rightarrow> [target]
     | TAssert _ _ target cleanup _ \<Rightarrow> target # opt_list cleanup
     | TDrop _ target cleanup \<Rightarrow> target # opt_list cleanup
     | TSwitchInt _ _ targets \<Rightarrow> sw_otherwise targets # map snd (sw_branches targets)
     | TCall _ _ _ target cleanup \<Rightarrow> opt_list target @ opt_list cleanup
     | _ \<Rightarrow> [])"

lemma checked_targets_successors: "set (checked_targets t) = set (terminator_successors t)"
  by (auto simp: checked_targets_def terminator_successors_def opt_list_def
      split: terminator_kind.splits option.splits)

definition drop_needed :: "nat \<Rightarrow> ty_ctx \<Rightarrow> local_decl list \<Rightarrow> terminator \<Rightarrow> bool" where
  "drop_needed fuel ctx locals t =
    (case tm_kind t of
       TDrop p _ _ \<Rightarrow>
         (case place_ty ctx locals p of Some ty \<Rightarrow> needs_drop fuel ctx ty = Some True | None \<Rightarrow> False)
     | _ \<Rightarrow> True)"

lemma check_terminator_ok:
  "check_terminator fuel ctx bd t = Some (Inr ()) \<longleftrightarrow>
     (\<forall>x \<in> set (terminator_successors t). unat x < length (bd_blocks bd)) \<and>
     drop_needed fuel ctx (bd_locals bd) t"
proof (cases "tm_kind t")
  case (TDrop p target cleanup)
  let ?ct = "check_targets (length (bd_blocks bd)) (tm_span t) (target # opt_list cleanup)"
  have succ: "set (terminator_successors t) = set (target # opt_list cleanup)"
    using TDrop checked_targets_successors [of t] by (simp add: checked_targets_def)
  show ?thesis
  proof (cases ?ct)
    case (Inl e)
    then have "\<not> (\<forall>x \<in> set (target # opt_list cleanup). unat x < length (bd_blocks bd))"
      using check_targets_ok [of "length (bd_blocks bd)" "tm_span t" "target # opt_list cleanup" "()"] by simp
    then show ?thesis using TDrop Inl unfolding succ by (simp add: check_terminator_def Let_def)
  next
    case (Inr u)
    then have "\<forall>x \<in> set (target # opt_list cleanup). unat x < length (bd_blocks bd)"
      unfolding check_targets_ok by blast
    then show ?thesis using TDrop Inr unfolding succ
      by (simp add: check_terminator_def drop_needed_def Let_def split: option.splits)
  qed
qed (use checked_targets_successors [of t] in
  \<open>simp_all add: check_terminator_def drop_needed_def checked_targets_def check_targets_ok Let_def
     del: check_targets.simps\<close>)

definition stmt_slices_ok :: "statement \<Rightarrow> bool" where
  "stmt_slices_ok s =
    (case st_kind s of StAssign _ rv \<Rightarrow> list_all place_terminal (rvalue_places rv) | _ \<Rightarrow> True)"

lemma check_statements_ok: "check_statements ss = Inr u \<longleftrightarrow> list_all stmt_slices_ok ss"
  by (induction ss)
     (auto simp: stmt_slices_ok_def check_rvalue_places_def rbind_def split: statement_kind.splits sum.splits if_splits)

lemma check_blocks_ok:
  "check_blocks fuel ctx bd bs = Some (Inr ()) \<longleftrightarrow>
     (\<forall>b \<in> set bs. list_all stmt_slices_ok (bb_statements b) \<and>
        check_terminator fuel ctx bd (bb_terminator b) = Some (Inr ()))"
proof (induction bs)
  case (Cons b bs)
  show ?case
  proof (cases "list_all stmt_slices_ok (bb_statements b)")
    case True
    then have "check_statements (bb_statements b) = Inr ()" by (simp add: check_statements_ok)
    then show ?thesis using Cons True by (auto split: option.splits sum.splits)
  next
    case False
    then have "check_statements (bb_statements b) \<noteq> Inr ()" by (simp add: check_statements_ok)
    then obtain e where "check_statements (bb_statements b) = Inl e"
      by (cases "check_statements (bb_statements b)") auto
    then show ?thesis using False by simp
  qed
qed simp



lemma validated_targets:
  assumes "validate_body fuel ctx bd = Some (Inr ())" "i < length (bd_blocks bd)" "j \<in> set (succs (bd_blocks bd) i)"
  shows "j < length (bd_blocks bd)"
proof -
  have "bd_blocks bd ! i \<in> set (bd_blocks bd)" using assms(2) by simp
  then have "\<forall>x \<in> set (terminator_successors (bb_terminator (bd_blocks bd ! i))). unat x < length (bd_blocks bd)"
    using assms(1) unfolding validate_body_def check_blocks_ok check_terminator_ok by blast
  then show ?thesis using assms(2,3) by (auto simp: succs_def)
qed

subsection \<open>What the slice pass establishes\<close>

lemma split_at_None: "split_at ps = None \<longleftrightarrow> slices_terminal ps"
  by (induction ps rule: split_at.induct) auto

lemma split_at_take: "split_at ps = Some i \<Longrightarrow> slices_terminal (take (i + 1) ps)"
proof (induction ps arbitrary: i rule: split_at.induct)
  case (3 e f es)
  show ?case
  proof (cases "slice_elem e")
    case False
    then obtain j where j: "split_at (f # es) = Some j" "i = Suc j" using 3(2) by auto
    then have "slices_terminal (take (j + 1) (f # es))" using 3(1) False by blast
    then show ?thesis using False j by simp
  qed (use 3 in auto)
qed auto

definition stmt_places :: "statement \<Rightarrow> place list" where
  "stmt_places s = (case st_kind s of StAssign p rv \<Rightarrow> p # rvalue_places rv | _ \<Rightarrow> [])"

definition terminator_places :: "terminator \<Rightarrow> place list" where
  "terminator_places t =
    (case tm_kind t of
       TSwitchInt d _ _ \<Rightarrow> operand_places d
     | TCall f args dest _ _ \<Rightarrow> operand_places f @ concat (map operand_places args) @ [dest]
     | TAssert c _ _ _ _ \<Rightarrow> operand_places c
     | TDrop p _ _ \<Rightarrow> [p]
     | _ \<Rightarrow> [])"

definition stmt_terminal :: "statement \<Rightarrow> bool" where
  "stmt_terminal s = list_all place_terminal (stmt_places s)"

definition block_terminal :: "basic_block \<Rightarrow> bool" where
  "block_terminal b \<longleftrightarrow> list_all stmt_terminal (bb_statements b) \<and>
     list_all place_terminal (terminator_places (bb_terminator b))"

text \<open>How the pass changes its state: locals are added at the end, and the new prelude
  statements only mention places in the required form.\<close>

definition ds_grows :: "local_decl list \<times> statement list \<Rightarrow> local_decl list \<times> statement list \<Rightarrow> bool" where
  "ds_grows st st' \<longleftrightarrow> prefix (fst st) (fst st') \<and>
     (\<exists>new. snd st' = snd st @ new \<and> list_all stmt_terminal new)"

lemma ds_grows_refl [simp]: "ds_grows st st"
  by (simp add: ds_grows_def)

lemma ds_grows_trans: "ds_grows a b \<Longrightarrow> ds_grows b c \<Longrightarrow> ds_grows a c"
  unfolding ds_grows_def by (auto intro: prefix_order.trans)

lemma desugar_place_ok:
  "desugar_place ctx sp st p = Some (q, st') \<Longrightarrow> place_terminal q \<and> ds_grows st st'"
proof (induction ctx sp st p arbitrary: q st' rule: desugar_place.induct)
  case (1 ctx sp locals prelude p)
  show ?case
  proof (cases "split_at (pl_projection p)")
    case None
    have "q = p" "st' = (locals, prelude)"
      using 1(2) None by (auto simp: desugar_place.simps)
    then show ?thesis using None by (simp add: place_terminal_def split_at_None)
  next
    case (Some i)
    let ?pre = "p\<lparr>pl_projection := take (i + 1) (pl_projection p)\<rparr>"
    obtain t where t: "place_ty ctx locals ?pre = Some t"
      using 1(2) Some by (auto simp: desugar_place.simps Let_def split: option.splits)
    let ?tmp = "word_of_nat (length locals) :: u32"
    let ?st1 = "(locals @ [\<lparr>ld_ty = t, ld_mutability = MutNot, ld_span = sp\<rparr>],
                 prelude @ [storage_live ?tmp sp, copy_into ?tmp ?pre sp])"
    have rec: "desugar_place ctx sp ?st1 \<lparr>pl_local = ?tmp, pl_projection = drop (i + 1) (pl_projection p)\<rparr>
        = Some (q, st')"
      using 1(2) Some t by (subst (asm) desugar_place.simps) (simp add: Let_def)
    have "place_terminal q \<and> ds_grows ?st1 st'"
      by (rule 1(1) [OF Some refl t refl refl refl rec])
    moreover have "ds_grows (locals, prelude) ?st1"
      using split_at_take [OF Some]
      by (simp add: ds_grows_def stmt_terminal_def stmt_places_def storage_live_def copy_into_def
          place_terminal_def place_new_def)
    ultimately show ?thesis using ds_grows_trans by blast
  qed
qed

lemma desugar_place_id: "place_terminal p \<Longrightarrow> desugar_place ctx sp st p = Some (p, st)"
  by (cases st) (simp add: desugar_place.simps place_terminal_def split_at_None [symmetric])

lemma desugar_operand_ok:
  "desugar_operand ctx sp st op = Some (op', st') \<Longrightarrow>
     list_all place_terminal (operand_places op') \<and> ds_grows st st'"
  by (cases op) (auto simp: desugar_operand_def dest: desugar_place_ok)

lemma desugar_operand_id:
  "list_all place_terminal (operand_places op) \<Longrightarrow> desugar_operand ctx sp st op = Some (op, st)"
  by (cases op) (simp_all add: desugar_operand_def desugar_place_id)

lemma desugar_operands_ok:
  "desugar_operands ctx sp st ops = Some (ops', st') \<Longrightarrow>
     list_all place_terminal (concat (map operand_places ops')) \<and> ds_grows st st'"
proof (induction ops arbitrary: st ops')
  case (Cons op ops)
  from Cons.prems obtain op' st1 ops1 where
    o: "desugar_operand ctx sp st op = Some (op', st1)" "desugar_operands ctx sp st1 ops = Some (ops1, st')"
       "ops' = op' # ops1"
    by (auto split: option.splits)
  show ?case
    using desugar_operand_ok [OF o(1)] Cons.IH [OF o(2)] o(3) ds_grows_trans [of st st1 st'] by simp
qed simp

lemma desugar_operands_id:
  "list_all place_terminal (concat (map operand_places ops)) \<Longrightarrow> desugar_operands ctx sp st ops = Some (ops, st)"
  by (induction ops arbitrary: st) (simp_all add: desugar_operand_id)

lemma desugar_rvalue_ok:
  "desugar_rvalue ctx sp st rv = Some (rv', st') \<Longrightarrow>
     list_all place_terminal (rvalue_places rv') \<and> ds_grows st st'"
proof (cases rv)
  case (RvBinaryOp b l r)
  assume "desugar_rvalue ctx sp st rv = Some (rv', st')"
  with RvBinaryOp obtain l' st1 r' where
    d: "desugar_operand ctx sp st l = Some (l', st1)" "desugar_operand ctx sp st1 r = Some (r', st')"
    "rv' = RvBinaryOp b l' r'"
    by (auto simp: desugar_rvalue_def split: option.splits)
  show ?thesis
    using desugar_operand_ok [OF d(1)] desugar_operand_ok [OF d(2)] d(3) ds_grows_trans [of st st1 st'] by simp
qed (auto simp: desugar_rvalue_def dest: desugar_operand_ok desugar_place_ok desugar_operands_ok)

lemma desugar_rvalue_id:
  "list_all place_terminal (rvalue_places rv) \<Longrightarrow> desugar_rvalue ctx sp st rv = Some (rv, st)"
  by (cases rv) (simp_all add: desugar_rvalue_def desugar_operand_id desugar_operands_id desugar_place_id)

lemma desugar_statement_ok:
  assumes "desugar_statement ctx locals s = Some (s', locals', prelude)"
  shows "stmt_terminal s' \<and> list_all stmt_terminal prelude \<and> prefix locals locals'"
proof (cases "st_kind s")
  case (StAssign p rv)
  with assms obtain rv' st1 p' where
    d: "desugar_rvalue ctx (st_span s) (locals, []) rv = Some (rv', st1)"
       "desugar_place ctx (st_span s) st1 p = Some (p', locals', prelude)"
       "s' = s\<lparr>st_kind := StAssign p' rv'\<rparr>"
    by (auto simp: desugar_statement_def split: option.splits)
  have "ds_grows (locals, []) (locals', prelude)"
    using desugar_rvalue_ok [OF d(1)] desugar_place_ok [OF d(2)] ds_grows_trans by blast
  then show ?thesis
    using desugar_rvalue_ok [OF d(1)] desugar_place_ok [OF d(2)] d(3)
    by (auto simp: stmt_terminal_def stmt_places_def ds_grows_def)
qed (use assms in \<open>auto simp: desugar_statement_def stmt_terminal_def stmt_places_def\<close>)

lemma desugar_statement_id: "stmt_terminal s \<Longrightarrow> desugar_statement ctx locals s = Some (s, locals, [])"
  by (auto simp: desugar_statement_def stmt_terminal_def stmt_places_def desugar_rvalue_id desugar_place_id
      split: statement_kind.splits)

lemma desugar_statements_ok:
  "desugar_statements ctx locals ss = Some (ss', locals') \<Longrightarrow> list_all stmt_terminal ss' \<and> prefix locals locals'"
proof (induction ss arbitrary: locals ss')
  case (Cons s ss)
  from Cons.prems obtain s' l1 prelude ss1 where
    d: "desugar_statement ctx locals s = Some (s', l1, prelude)"
       "desugar_statements ctx l1 ss = Some (ss1, locals')" "ss' = prelude @ s' # ss1"
    by (auto split: option.splits)
  show ?case
    using desugar_statement_ok [OF d(1)] Cons.IH [OF d(2)] d(3) by (auto intro: prefix_order.trans)
qed simp

lemma desugar_statements_id:
  "list_all stmt_terminal ss \<Longrightarrow> desugar_statements ctx locals ss = Some (ss, locals)"
  by (induction ss) (simp_all add: desugar_statement_id)

lemma desugar_terminator_ok:
  assumes "desugar_terminator ctx st t = Some (t', st')"
  shows "list_all place_terminal (terminator_places t') \<and> ds_grows st st' \<and>
    terminator_successors t' = terminator_successors t"
proof (cases "tm_kind t")
  case (TCall f args dest target cleanup)
  with assms obtain f' st1 args' st2 dest' where
    d: "desugar_operand ctx (tm_span t) st f = Some (f', st1)"
       "desugar_operands ctx (tm_span t) st1 args = Some (args', st2)"
       "desugar_place ctx (tm_span t) st2 dest = Some (dest', st')"
       "t' = t\<lparr>tm_kind := TCall f' args' dest' target cleanup\<rparr>"
    by (auto simp: desugar_terminator_def Let_def split: option.splits)
  have "ds_grows st st'"
    using desugar_operand_ok [OF d(1)] desugar_operands_ok [OF d(2)] desugar_place_ok [OF d(3)]
    by (blast intro: ds_grows_trans)
  then show ?thesis
    using desugar_operand_ok [OF d(1)] desugar_operands_ok [OF d(2)] desugar_place_ok [OF d(3)] d(4) TCall
    by (simp add: terminator_places_def terminator_successors_def)
qed (use assms in \<open>auto simp: desugar_terminator_def terminator_places_def terminator_successors_def Let_def
       dest: desugar_operand_ok desugar_place_ok\<close>)

lemma desugar_terminator_id:
  "list_all place_terminal (terminator_places t) \<Longrightarrow> desugar_terminator ctx st t = Some (t, st)"
  by (cases "tm_kind t")
     (simp_all add: desugar_terminator_def terminator_places_def Let_def desugar_operand_id
        desugar_operands_id desugar_place_id)

lemma desugar_block_ok:
  assumes "desugar_block ctx locals b = Some (b', locals')"
  shows "block_terminal b' \<and> prefix locals locals' \<and>
    terminator_successors (bb_terminator b') = terminator_successors (bb_terminator b)"
proof -
  from assms obtain ss l1 t prelude where
    d: "desugar_statements ctx locals (bb_statements b) = Some (ss, l1)"
       "desugar_terminator ctx (l1, []) (bb_terminator b) = Some (t, locals', prelude)"
       "b' = b\<lparr>bb_statements := ss @ prelude, bb_terminator := t\<rparr>"
    by (auto simp: desugar_block_def split: option.splits)
  show ?thesis
    using desugar_statements_ok [OF d(1)] desugar_terminator_ok [OF d(2)] d(3)
    by (auto simp: block_terminal_def ds_grows_def intro: prefix_order.trans)
qed

lemma desugar_block_id: "block_terminal b \<Longrightarrow> desugar_block ctx locals b = Some (b, locals)"
  by (simp add: desugar_block_def block_terminal_def desugar_statements_id desugar_terminator_id)

lemma desugar_blocks_ok:
  "desugar_blocks ctx locals bs = Some (bs', locals') \<Longrightarrow>
     list_all block_terminal bs' \<and> prefix locals locals' \<and>
     map (\<lambda>b. terminator_successors (bb_terminator b)) bs' = map (\<lambda>b. terminator_successors (bb_terminator b)) bs"
proof (induction bs arbitrary: locals bs')
  case (Cons b bs)
  from Cons.prems obtain b1 l1 bs1 where
    d: "desugar_block ctx locals b = Some (b1, l1)" "desugar_blocks ctx l1 bs = Some (bs1, locals')"
       "bs' = b1 # bs1"
    by (auto split: option.splits)
  show ?case
    using desugar_block_ok [OF d(1)] Cons.IH [OF d(2)] d(3) by (auto intro: prefix_order.trans)
qed simp

lemma desugar_blocks_id: "list_all block_terminal bs \<Longrightarrow> desugar_blocks ctx locals bs = Some (bs, locals)"
  by (induction bs) (simp_all add: desugar_block_id)

text \<open>
  The slice pass does what it promises: in its result every place, read or written, by
  a statement or by a terminator, has its slice projections last; locals are only added at
  the end, the jump targets of every block are unchanged, and a body that already is in this
  form is returned as it is.
\<close>

theorem slice_desugar_terminal:
  assumes "slice_desugar ctx bd = Some bd'"
  shows "list_all block_terminal (bd_blocks bd') \<and> prefix (bd_locals bd) (bd_locals bd') \<and>
    map (\<lambda>b. terminator_successors (bb_terminator b)) (bd_blocks bd')
      = map (\<lambda>b. terminator_successors (bb_terminator b)) (bd_blocks bd) \<and>
    (list_all block_terminal (bd_blocks bd) \<longrightarrow> bd' = bd)"
proof -
  from assms obtain bs locals where
    d: "desugar_blocks ctx (bd_locals bd) (bd_blocks bd) = Some (bs, locals)"
       "bd' = bd\<lparr>bd_blocks := bs, bd_locals := locals\<rparr>"
    by (auto simp: slice_desugar_def)
  have "bd' = bd" if "list_all block_terminal (bd_blocks bd)"
    using desugar_blocks_id [OF that, of ctx "bd_locals bd"] d by simp
  then show ?thesis using desugar_blocks_ok [OF d(1)] d(2) by simp
qed

text \<open>A body that reads \<open>_1[1..][0]\<close>, with \<open>_1\<close> of an array type.\<close>

definition slice_place :: place where
  "slice_place = \<lparr>pl_local = 1, pl_projection = [PSubslice 1 2 False, PConstantIndex 0 1 False]\<rparr>"

definition slice_body :: "place \<Rightarrow> rvalue \<Rightarrow> body" where
  "slice_body p rv = (body_dummy (0, 0))
    \<lparr>bd_blocks := [\<lparr>bb_statements = [\<lparr>st_kind = StAssign p rv, st_span = span_DUMMY\<rparr>],
                    bb_terminator = return_terminator, bb_is_cleanup = False\<rparr>],
     bd_locals := [\<lparr>ld_ty = 3, ld_mutability = MutNot, ld_span = span_DUMMY\<rparr>,
                   \<lparr>ld_ty = 2, ld_mutability = MutNot, ld_span = span_DUMMY\<rparr>]\<rparr>"

lemma slice_desugar_terminal_witness:
  "\<exists>bd'. slice_desugar example_ctx (slice_body (place_new 0) (RvUse (Copy slice_place))) = Some bd' \<and>
     list_all block_terminal (bd_blocks bd')"
proof -
  let ?b = "slice_body (place_new 0) (RvUse (Copy slice_place))"
  have "slice_desugar example_ctx ?b \<noteq> None" by code_simp
  then obtain bd' where b: "slice_desugar example_ctx ?b = Some bd'" by blast
  from slice_desugar_terminal [OF b] b show ?thesis by blast
qed

text \<open>
  A place that is split is rooted at a fresh local afterwards.  For a place that is read
  this is the copy the pass made; for the destination of an assignment (and for a borrowed
  place) it means that the store goes to the copy and the original is left unchanged.
\<close>

lemma desugar_place_fresh:
  assumes "\<not> place_terminal p" "desugar_place ctx sp (locals, prelude) p = Some (q, locals', prelude')"
    and "length locals' < 2 ^ 32"
  shows "length locals \<le> unat (pl_local q)"
  using assms
proof (induction ctx sp "(locals, prelude)" p arbitrary: locals prelude rule: desugar_place.induct)
  case (1 ctx sp locals prelude p)
  then obtain i where i: "split_at (pl_projection p) = Some i"
    by (cases "split_at (pl_projection p)") (simp_all add: place_terminal_def split_at_None)
  let ?pre = "p\<lparr>pl_projection := take (i + 1) (pl_projection p)\<rparr>"
  let ?rest = "\<lparr>pl_local = word_of_nat (length locals) :: u32, pl_projection = drop (i + 1) (pl_projection p)\<rparr>"
  obtain t where t: "place_ty ctx locals ?pre = Some t"
    using 1(3) i by (auto simp: desugar_place.simps Let_def split: option.splits)
  let ?l1 = "locals @ [\<lparr>ld_ty = t, ld_mutability = MutNot, ld_span = sp\<rparr>]"
  obtain pre1 where rec: "desugar_place ctx sp (?l1, pre1) ?rest = Some (q, locals', prelude')"
    and ih: "\<not> place_terminal ?rest \<Longrightarrow> length ?l1 \<le> unat (pl_local q)"
    using 1(1) [OF i refl t refl refl refl] 1(3,4) i t
    by (simp add: desugar_place.simps [of ctx sp locals prelude p] Let_def)
  have len: "length locals < 2 ^ 32"
    using desugar_place_ok [OF rec] 1(4) by (auto simp: ds_grows_def dest: prefix_length_le)
  show ?case
  proof (cases "place_terminal ?rest")
    case True
    then have "q = ?rest" using rec by (simp add: desugar_place_id)
    then show ?thesis using unat_u32_of_nat [OF len] by simp
  next
    case False
    then show ?thesis using ih by simp
  qed
qed

end
