(* ===== verification/Opt_Dce.thy ===== *)
theory Opt_Dce
  imports Opt_Validate
begin

text \<open>
  Dead-code elimination (\<^verbatim>\<open>crates/glyim-opt/src/dce.rs\<close>): the locals the pass counts as
  used, and the removal of assignments to all others.  The pass counts only the reads of
  whole locals, and not those of unary operators; the main lemma is that on bodies whose
  reads it all counts, a removed assignment writes a local nothing reads.
\<close>

subsection \<open>The pass\<close>

definition bare_local :: "place \<Rightarrow> u32 list" where
  "bare_local p = (if pl_projection p = [] then [pl_local p] else [])"

fun collect_operand_uses :: "operand \<Rightarrow> u32 list" where
  "collect_operand_uses (Copy p) = bare_local p"
| "collect_operand_uses (Move p) = bare_local p"
| "collect_operand_uses (Constant _) = []"

fun collect_uses_in_rvalue :: "rvalue \<Rightarrow> u32 list" where
  "collect_uses_in_rvalue (RvUse op) = collect_operand_uses op"
| "collect_uses_in_rvalue (RvBinaryOp _ a b) = collect_operand_uses a @ collect_operand_uses b"
| "collect_uses_in_rvalue (RvRef p _) = bare_local p"
| "collect_uses_in_rvalue (RvAggregate _ ops) = concat (map collect_operand_uses ops)"
| "collect_uses_in_rvalue (RvDiscriminant p) = bare_local p"
| "collect_uses_in_rvalue (RvLen p) = bare_local p"
| "collect_uses_in_rvalue (RvCast _ op _) = collect_operand_uses op"
| "collect_uses_in_rvalue (RvRepeat op _) = collect_operand_uses op"
| "collect_uses_in_rvalue (RvUnaryOp _ _) = []"

definition collect_uses_in_terminator :: "terminator \<Rightarrow> u32 list" where
  "collect_uses_in_terminator t =
    (case tm_kind t of
       TCall func args _ _ _ \<Rightarrow> collect_operand_uses func @ concat (map collect_operand_uses args)
     | TSwitchInt discr _ _ \<Rightarrow> collect_operand_uses discr
     | TAssert cond _ _ _ _ \<Rightarrow> collect_operand_uses cond
     | _ \<Rightarrow> [])"

definition stmt_uses :: "statement \<Rightarrow> u32 list" where
  "stmt_uses s = (case st_kind s of StAssign _ rv \<Rightarrow> collect_uses_in_rvalue rv | _ \<Rightarrow> [])"

text \<open>\<open>u32::try_from(i + 1).unwrap_or(u32::MAX)\<close>.\<close>

definition arg_local :: "nat \<Rightarrow> u32" where
  "arg_local i = (if i + 1 < 2 ^ 32 then word_of_nat (i + 1) else - 1)"

definition collect_used_locals :: "body \<Rightarrow> u32 list" where
  "collect_used_locals bd =
     0 # map arg_local [0..<bd_arg_count bd]
     @ concat (map (\<lambda>b. concat (map stmt_uses (bb_statements b)) @ collect_uses_in_terminator (bb_terminator b))
         (bd_blocks bd))"

definition dce_keeps :: "u32 list \<Rightarrow> statement \<Rightarrow> bool" where
  "dce_keeps used s =
    (case st_kind s of
       StAssign p _ \<Rightarrow> if pl_projection p = [] then pl_local p \<in> set used else True
     | _ \<Rightarrow> True)"

definition dce_block :: "u32 list \<Rightarrow> basic_block \<Rightarrow> basic_block" where
  "dce_block used b = b\<lparr>bb_statements := filter (dce_keeps used) (bb_statements b)\<rparr>"

definition dce :: "body \<Rightarrow> body" where
  "dce bd = (let used = collect_used_locals bd in bd\<lparr>bd_blocks := map (dce_block used) (bd_blocks bd)\<rparr>)"

subsection \<open>What is read\<close>

text \<open>The locals a place refers to: its base, and the index locals of its projection.\<close>

definition elem_locals :: "projection_elem \<Rightarrow> u32 list" where
  "elem_locals e = (case e of PIndex l \<Rightarrow> [l] | _ \<Rightarrow> [])"

definition place_locals :: "place \<Rightarrow> u32 list" where
  "place_locals p = pl_local p # concat (map elem_locals (pl_projection p))"

text \<open>A statement reads the places of its rvalue, and the locals of a projected
  destination.\<close>

definition dest_reads :: "place \<Rightarrow> u32 list" where
  "dest_reads p = (if pl_projection p = [] then [] else place_locals p)"

definition stmt_reads :: "statement \<Rightarrow> u32 set" where
  "stmt_reads s =
    (case st_kind s of
       StAssign p rv \<Rightarrow> set (concat (map place_locals (rvalue_places rv))) \<union> set (dest_reads p)
     | _ \<Rightarrow> {})"

definition terminator_reads :: "terminator \<Rightarrow> u32 set" where
  "terminator_reads t =
    (case tm_kind t of
       TCall f args dest _ _ \<Rightarrow>
         set (concat (map place_locals (operand_places f @ concat (map operand_places args)))) \<union> set (dest_reads dest)
     | TSwitchInt d _ _ \<Rightarrow> set (concat (map place_locals (operand_places d)))
     | TAssert c _ _ _ _ \<Rightarrow> set (concat (map place_locals (operand_places c)))
     | TDrop p _ _ \<Rightarrow> set (place_locals p)
     | _ \<Rightarrow> {})"

definition body_reads :: "body \<Rightarrow> u32 set" where
  "body_reads bd = (\<Union>b \<in> set (bd_blocks bd).
     (\<Union>s \<in> set (bb_statements b). stmt_reads s) \<union> terminator_reads (bb_terminator b))"

text \<open>The bodies whose reads the pass counts: no projected places, no unary operators, no
  drops.\<close>

fun rvalue_counted :: "rvalue \<Rightarrow> bool" where
  "rvalue_counted (RvUnaryOp _ op) = (operand_places op = [])"
| "rvalue_counted rv = list_all (\<lambda>p. pl_projection p = []) (rvalue_places rv)"

definition stmt_counted :: "statement \<Rightarrow> bool" where
  "stmt_counted s =
    (case st_kind s of StAssign p rv \<Rightarrow> pl_projection p = [] \<and> rvalue_counted rv | _ \<Rightarrow> True)"

definition terminator_counted :: "terminator \<Rightarrow> bool" where
  "terminator_counted t =
    (case tm_kind t of TDrop _ _ _ \<Rightarrow> False | _ \<Rightarrow> list_all (\<lambda>p. pl_projection p = []) (terminator_places t))"

definition reads_counted :: "body \<Rightarrow> bool" where
  "reads_counted bd = list_all (\<lambda>b. list_all stmt_counted (bb_statements b) \<and>
     terminator_counted (bb_terminator b)) (bd_blocks bd)"

lemma bare_place_locals: "pl_projection p = [] \<Longrightarrow> place_locals p = bare_local p"
  by (simp add: place_locals_def bare_local_def)

lemma operand_uses_reads:
  "list_all (\<lambda>p. pl_projection p = []) (operand_places op) \<Longrightarrow>
     concat (map place_locals (operand_places op)) = collect_operand_uses op"
  by (cases op) (simp_all add: bare_place_locals)

lemma operands_uses_reads:
  "list_all (\<lambda>p. pl_projection p = []) (concat (map operand_places ops)) \<Longrightarrow>
     concat (map place_locals (concat (map operand_places ops))) = concat (map collect_operand_uses ops)"
  by (induction ops) (simp_all add: operand_uses_reads)

lemma rvalue_uses_reads:
  "rvalue_counted rv \<Longrightarrow> concat (map place_locals (rvalue_places rv)) = collect_uses_in_rvalue rv"
  by (cases rv) (simp_all add: operand_uses_reads operands_uses_reads bare_place_locals)

lemma stmt_uses_reads: "stmt_counted s \<Longrightarrow> stmt_reads s = set (stmt_uses s)"
  by (auto simp: stmt_counted_def stmt_reads_def stmt_uses_def dest_reads_def
      rvalue_uses_reads [symmetric] split: statement_kind.splits)

lemma terminator_uses_reads:
  "terminator_counted t \<Longrightarrow> terminator_reads t = set (collect_uses_in_terminator t)"
  unfolding terminator_counted_def terminator_reads_def collect_uses_in_terminator_def terminator_places_def
  by (cases "tm_kind t")
     (simp_all add: operand_uses_reads [symmetric] operands_uses_reads [symmetric] dest_reads_def del: set_concat)

lemma body_reads_used:
  assumes "reads_counted bd"
  shows "body_reads bd \<subseteq> set (collect_used_locals bd)"
proof
  fix l assume "l \<in> body_reads bd"
  then obtain b where b: "b \<in> set (bd_blocks bd)"
    "l \<in> (\<Union>s \<in> set (bb_statements b). stmt_reads s) \<union> terminator_reads (bb_terminator b)"
    unfolding body_reads_def by blast
  then have c: "list_all stmt_counted (bb_statements b)" "terminator_counted (bb_terminator b)"
    using assms by (simp_all add: reads_counted_def list_all_iff)
  have "l \<in> (\<Union>s \<in> set (bb_statements b). set (stmt_uses s)) \<union> set (collect_uses_in_terminator (bb_terminator b))"
    using b(2) c stmt_uses_reads terminator_uses_reads by (auto simp: list_all_iff)
  then show "l \<in> set (collect_used_locals bd)" using b(1) by (auto simp: collect_used_locals_def)
qed

text \<open>
  C36.  Dead-code elimination removes only dead assignments: on a body whose reads are all
  counted by the pass, every removed statement assigns a whole local that is not the return
  place or an argument and that no statement and no terminator of the body reads; every
  other statement, and every terminator, is kept in order.
\<close>

theorem dce_removes_dead:
  assumes "reads_counted bd" and "i < length (bd_blocks bd)"
  shows "bb_statements (bd_blocks (dce bd) ! i)
      = filter (dce_keeps (collect_used_locals bd)) (bb_statements (bd_blocks bd ! i)) \<and>
    bb_terminator (bd_blocks (dce bd) ! i) = bb_terminator (bd_blocks bd ! i) \<and>
    (\<forall>s \<in> set (bb_statements (bd_blocks bd ! i)). \<not> dce_keeps (collect_used_locals bd) s \<longrightarrow>
       (\<exists>l rv. st_kind s = StAssign (place_new l) rv \<and> l \<notin> body_reads bd \<and> l \<noteq> 0 \<and>
          l \<notin> set (map arg_local [0..<bd_arg_count bd])))"
proof (intro conjI ballI impI)
  show "bb_statements (bd_blocks (dce bd) ! i)
      = filter (dce_keeps (collect_used_locals bd)) (bb_statements (bd_blocks bd ! i))"
    and "bb_terminator (bd_blocks (dce bd) ! i) = bb_terminator (bd_blocks bd ! i)"
    using assms(2) by (simp_all add: dce_def Let_def dce_block_def)
  fix s assume "\<not> dce_keeps (collect_used_locals bd) s"
  then obtain p rv where s: "st_kind s = StAssign p rv" "pl_projection p = []"
      "pl_local p \<notin> set (collect_used_locals bd)"
    by (auto simp: dce_keeps_def split: statement_kind.splits if_splits)
  moreover have "p = place_new (pl_local p)" using s(2) by (simp add: place_new_def)
  moreover have "pl_local p \<notin> body_reads bd" using s(3) body_reads_used [OF assms(1)] by blast
  ultimately show "\<exists>l rv. st_kind s = StAssign (place_new l) rv \<and> l \<notin> body_reads bd \<and> l \<noteq> 0 \<and>
      l \<notin> set (map arg_local [0..<bd_arg_count bd])"
    by (intro exI [of _ "pl_local p"] exI [of _ rv]) (auto simp: collect_used_locals_def)
qed

definition assign_stmt :: "u32 \<Rightarrow> rvalue \<Rightarrow> statement" where
  "assign_stmt l rv = \<lparr>st_kind = StAssign (place_new l) rv, st_span = span_DUMMY\<rparr>"

definition copy_local :: "u32 \<Rightarrow> operand" where
  "copy_local l = Copy (place_new l)"

definition one_block :: "statement list \<Rightarrow> body" where
  "one_block ss = (body_dummy (0, 0))\<lparr>bd_blocks := [\<lparr>bb_statements = ss,
     bb_terminator = return_terminator, bb_is_cleanup = False\<rparr>]\<rparr>"

definition int_operand :: "int \<Rightarrow> operand" where
  "int_operand i = Constant (MirConst (McInt (word_of_int i)) Ty_ERROR span_DUMMY)"

lemma dce_removes_dead_witness:
  "reads_counted (one_block [assign_stmt 2 (RvUse (int_operand 1)), assign_stmt 0 (RvUse (int_operand 2))]) \<and>
   bb_statements (bd_blocks (dce (one_block [assign_stmt 2 (RvUse (int_operand 1)),
      assign_stmt 0 (RvUse (int_operand 2))])) ! 0) = [assign_stmt 0 (RvUse (int_operand 2))]"
proof -
  let ?b = "one_block [assign_stmt 2 (RvUse (int_operand 1)), assign_stmt 0 (RvUse (int_operand 2))]"
  have 1: "reads_counted ?b" by code_simp
  have 2: "0 < length (bd_blocks ?b)" by (simp add: one_block_def)
  have "filter (dce_keeps (collect_used_locals ?b)) (bb_statements (bd_blocks ?b ! 0))
      = [assign_stmt 0 (RvUse (int_operand 2))]" by code_simp
  with 1 dce_removes_dead [OF 1 2] show ?thesis by simp
qed

text \<open>
  Reads that are not counted: the operand of a negation, and a field of a local.  In both
  bodies the removed assignment defines a local that the kept statement reads.
\<close>

lemma dce_removes_negated:
  "bb_statements (bd_blocks (dce (one_block [assign_stmt 1 (RvUse (int_operand 5)),
      assign_stmt 0 (RvUnaryOp Un_Neg (copy_local 1))])) ! 0)
   = [assign_stmt 0 (RvUnaryOp Un_Neg (copy_local 1))]"
  by code_simp

lemma dce_removes_projected:
  "bb_statements (bd_blocks (dce (one_block [assign_stmt 1 (RvAggregate AggTuple [int_operand 5]),
      assign_stmt 0 (RvUse (Copy \<lparr>pl_local = 1, pl_projection = [PField 0]\<rparr>))])) ! 0)
   = [assign_stmt 0 (RvUse (Copy \<lparr>pl_local = 1, pl_projection = [PField 0]\<rparr>))]"
  by code_simp

end
