(* ===== verification/Opt_ConstProp.thy ===== *)
theory Opt_ConstProp
  imports Opt_Dce "HOL-Library.AList"
begin

unbundle bit_operations_syntax

text \<open>
  Constant propagation (\<^verbatim>\<open>crates/glyim-opt/src/constant_prop.rs\<close>).  A \<open>BlockMap\<close> is an
  association list from locals to known constants, \<open>None\<close> being a conflict.  Integer
  arithmetic wraps at 128 bits; a quotient that does not fit panics, as does indexing an
  undeclared local (\<open>None\<close>).  The arithmetic of 64-bit floats on their bit patterns is an
  argument of the pass.
\<close>

subsection \<open>Constants\<close>

type_synonym block_map = "(u32 \<times> mir_const option) list"

fun const_eq :: "mir_const \<Rightarrow> mir_const \<Rightarrow> bool"
  and const_kind_eq :: "mir_const_kind \<Rightarrow> mir_const_kind \<Rightarrow> bool"
  and consts_eq :: "mir_const list \<Rightarrow> mir_const list \<Rightarrow> bool" where
  "const_eq (MirConst k t sp) d = (t = mc_ty d \<and> const_kind_eq k (mc_kind d))"
| "const_kind_eq (McInt a) k = (case k of McInt b \<Rightarrow> a = b | _ \<Rightarrow> False)"
| "const_kind_eq (McUint a) k = (case k of McUint b \<Rightarrow> a = b | _ \<Rightarrow> False)"
| "const_kind_eq (McBool a) k = (case k of McBool b \<Rightarrow> a = b | _ \<Rightarrow> False)"
| "const_kind_eq (McChar a) k = (case k of McChar b \<Rightarrow> a = b | _ \<Rightarrow> False)"
| "const_kind_eq (McFloatBits a) k = (case k of McFloatBits b \<Rightarrow> a = b | _ \<Rightarrow> False)"
| "const_kind_eq McUnit k = (case k of McUnit \<Rightarrow> True | _ \<Rightarrow> False)"
| "const_kind_eq (McAggregate as) k = (case k of McAggregate bs \<Rightarrow> consts_eq as bs | _ \<Rightarrow> False)"
| "const_kind_eq (McString s) k = False"
| "const_kind_eq (McFn d sub) k = False"
| "const_kind_eq (McConstRef d sub) k = False"
| "const_kind_eq (McVirtualMethod d n) k = False"
| "const_kind_eq McError k = False"
| "consts_eq [] bs = (bs = [])"
| "consts_eq (a # as) bs = (case bs of [] \<Rightarrow> False | b # bs' \<Rightarrow> const_eq a b \<and> consts_eq as bs')"

definition entry_eq :: "mir_const option \<Rightarrow> mir_const option \<Rightarrow> bool" where
  "entry_eq v w =
    (case (v, w) of (None, None) \<Rightarrow> True | (Some c1, Some c2) \<Rightarrow> const_eq c1 c2 | _ \<Rightarrow> False)"

definition maps_equal :: "block_map \<Rightarrow> block_map \<Rightarrow> bool" where
  "maps_equal a b \<longleftrightarrow> length a = length b \<and>
     list_all (\<lambda>(k, v). case map_of b k of None \<Rightarrow> False | Some bv \<Rightarrow> entry_eq v bv) a \<and>
     list_all (\<lambda>k. map_of a k \<noteq> None) (map fst b)"

definition merge_entry :: "u32 \<times> mir_const option \<Rightarrow> block_map \<Rightarrow> block_map" where
  "merge_entry = (\<lambda>(l, other_val) into.
     case map_of into l of
       None \<Rightarrow> AList.update l other_val into
     | Some existing \<Rightarrow> if entry_eq existing other_val then into else AList.update l None into)"

definition merge_maps :: "block_map \<Rightarrow> block_map \<Rightarrow> block_map" where
  "merge_maps into other = fold merge_entry other into"

definition place_const :: "block_map \<Rightarrow> place \<Rightarrow> mir_const option" where
  "place_const locals p =
    (if pl_projection p = [] then (case map_of locals (pl_local p) of Some v \<Rightarrow> v | None \<Rightarrow> None) else None)"

fun operand_to_const :: "operand \<Rightarrow> block_map \<Rightarrow> mir_const option" where
  "operand_to_const (Constant c) locals = Some c"
| "operand_to_const (Copy p) locals = place_const locals p"
| "operand_to_const (Move p) locals = place_const locals p"

subsection \<open>Evaluation\<close>

record float_ops =
  fo_add :: "u64 \<Rightarrow> u64 \<Rightarrow> u64"
  fo_sub :: "u64 \<Rightarrow> u64 \<Rightarrow> u64"
  fo_mul :: "u64 \<Rightarrow> u64 \<Rightarrow> u64"
  fo_div :: "u64 \<Rightarrow> u64 \<Rightarrow> u64"
  fo_neg :: "u64 \<Rightarrow> u64"
  fo_eq :: "u64 \<Rightarrow> u64 \<Rightarrow> bool"
  fo_lt :: "u64 \<Rightarrow> u64 \<Rightarrow> bool"
  fo_le :: "u64 \<Rightarrow> u64 \<Rightarrow> bool"

definition i128_div_overflows :: "i128 \<Rightarrow> i128 \<Rightarrow> bool" where
  "i128_div_overflows l r \<longleftrightarrow> sint l = - (2 ^ 127) \<and> sint r = - 1"

text \<open>The result is \<open>None\<close> for a panic and \<open>Some None\<close> for an operator that is not
  folded.\<close>

definition fold_int :: "bin_op \<Rightarrow> i128 \<Rightarrow> i128 \<Rightarrow> i128 option option" where
  "fold_int op l r =
    (case op of
       Bin_Add \<Rightarrow> Some (Some (l + r))
     | Bin_Sub \<Rightarrow> Some (Some (l - r))
     | Bin_Mul \<Rightarrow> Some (Some (l * r))
     | Bin_Div \<Rightarrow> if r \<noteq> 0
                  then if i128_div_overflows l r then None
                       else Some (Some (word_of_int (trunc_div (sint l) (sint r))))
                  else Some (Some 0)
     | Bin_Rem \<Rightarrow> if r \<noteq> 0
                  then if i128_div_overflows l r then None
                       else Some (Some (word_of_int (trunc_rem (sint l) (sint r))))
                  else Some (Some 0)
     | _ \<Rightarrow> Some None)"

definition fold_uint :: "bin_op \<Rightarrow> u128 \<Rightarrow> u128 \<Rightarrow> u128 option" where
  "fold_uint op l r =
    (case op of
       Bin_Add \<Rightarrow> Some (l + r)
     | Bin_Sub \<Rightarrow> Some (l - r)
     | Bin_Mul \<Rightarrow> Some (l * r)
     | Bin_Div \<Rightarrow> Some (if r \<noteq> 0 then l div r else 0)
     | Bin_Rem \<Rightarrow> Some (if r \<noteq> 0 then l mod r else 0)
     | _ \<Rightarrow> None)"

definition fold_bool :: "bin_op \<Rightarrow> bool \<Rightarrow> bool \<Rightarrow> bool option" where
  "fold_bool op l r =
    (case op of Bin_And \<Rightarrow> Some (l \<and> r) | Bin_Or \<Rightarrow> Some (l \<or> r)
     | Bin_Eq \<Rightarrow> Some (l = r) | Bin_Ne \<Rightarrow> Some (l \<noteq> r) | _ \<Rightarrow> None)"

definition float_bool :: "bool \<Rightarrow> u64" where
  "float_bool b = (if b then 0x3FF0000000000000 else 0)"

definition fold_float :: "float_ops \<Rightarrow> bin_op \<Rightarrow> u64 \<Rightarrow> u64 \<Rightarrow> u64 option" where
  "fold_float fo op l r =
    (case op of
       Bin_Add \<Rightarrow> Some (fo_add fo l r)
     | Bin_Sub \<Rightarrow> Some (fo_sub fo l r)
     | Bin_Mul \<Rightarrow> Some (fo_mul fo l r)
     | Bin_Div \<Rightarrow> Some (if \<not> fo_eq fo r 0 then fo_div fo l r else 0)
     | Bin_Eq \<Rightarrow> Some (float_bool (fo_eq fo l r))
     | Bin_Ne \<Rightarrow> Some (float_bool (\<not> fo_eq fo l r))
     | Bin_Lt \<Rightarrow> Some (float_bool (fo_lt fo l r))
     | Bin_Gt \<Rightarrow> Some (float_bool (fo_lt fo r l))
     | Bin_LtEq \<Rightarrow> Some (float_bool (fo_le fo l r))
     | Bin_GtEq \<Rightarrow> Some (float_bool (fo_le fo r l))
     | _ \<Rightarrow> None)"

definition fold_binary :: "float_ops \<Rightarrow> bin_op \<Rightarrow> mir_const \<Rightarrow> mir_const \<Rightarrow> mir_const option option" where
  "fold_binary fo op left right =
    (let with = (\<lambda>k. MirConst k (mc_ty left) (mc_span left)) in
     case (mc_kind left, mc_kind right) of
       (McInt l, McInt r) \<Rightarrow> map_option (map_option (\<lambda>v. with (McInt v))) (fold_int op l r)
     | (McUint l, McUint r) \<Rightarrow> Some (map_option (\<lambda>v. with (McUint v)) (fold_uint op l r))
     | (McBool l, McBool r) \<Rightarrow> Some (map_option (\<lambda>v. with (McBool v)) (fold_bool op l r))
     | (McFloatBits l, McFloatBits r) \<Rightarrow> Some (map_option (\<lambda>v. with (McFloatBits v)) (fold_float fo op l r))
     | _ \<Rightarrow> Some None)"

definition fold_unary :: "float_ops \<Rightarrow> un_op \<Rightarrow> mir_const \<Rightarrow> mir_const option" where
  "fold_unary fo op c =
    (let with = (\<lambda>k. MirConst k (mc_ty c) (mc_span c)) in
     case (mc_kind c, op) of
       (McInt v, Un_Neg) \<Rightarrow> Some (with (McInt (- v)))
     | (McInt v, Un_Not) \<Rightarrow> Some (with (McInt (NOT v)))
     | (McUint v, Un_Not) \<Rightarrow> Some (with (McUint (NOT v)))
     | (McBool v, Un_Not) \<Rightarrow> Some (with (McBool (\<not> v)))
     | (McFloatBits v, Un_Neg) \<Rightarrow> Some (with (McFloatBits (fo_neg fo v)))
     | _ \<Rightarrow> None)"

fun operand_consts :: "operand list \<Rightarrow> block_map \<Rightarrow> mir_const list option" where
  "operand_consts [] locals = Some []"
| "operand_consts (op # ops) locals =
    (case operand_to_const op locals of
       None \<Rightarrow> None
     | Some c \<Rightarrow> map_option (\<lambda>cs. c # cs) (operand_consts ops locals))"

definition fold_aggregate :: "aggregate_kind \<Rightarrow> mir_const list \<Rightarrow> ty \<Rightarrow> mir_const option" where
  "fold_aggregate kind cs t =
    (case kind of
       AggClosure _ _ \<Rightarrow> None
     | _ \<Rightarrow> Some (if cs = [] then MirConst McUnit Ty_UNIT span_DUMMY
                 else MirConst (McAggregate cs) t span_DUMMY))"

definition evaluate_rvalue_to_const ::
  "float_ops \<Rightarrow> rvalue \<Rightarrow> block_map \<Rightarrow> ty \<Rightarrow> mir_const option option" where
  "evaluate_rvalue_to_const fo rv locals t =
    (case rv of
       RvUse op \<Rightarrow> Some (operand_to_const op locals)
     | RvBinaryOp op a b \<Rightarrow>
         (case (operand_to_const a locals, operand_to_const b locals) of
            (Some left, Some right) \<Rightarrow> fold_binary fo op left right
          | _ \<Rightarrow> Some None)
     | RvUnaryOp op a \<Rightarrow>
         Some (case operand_to_const a locals of None \<Rightarrow> None | Some c \<Rightarrow> fold_unary fo op c)
     | RvAggregate kind ops \<Rightarrow>
         Some (case operand_consts ops locals of None \<Rightarrow> None | Some cs \<Rightarrow> fold_aggregate kind cs t)
     | RvRef _ _ \<Rightarrow> Some None
     | RvCast _ op _ \<Rightarrow> Some (operand_to_const op locals)
     | RvRepeat op _ \<Rightarrow> Some (operand_to_const op locals)
     | RvDiscriminant _ \<Rightarrow> Some None
     | RvLen _ \<Rightarrow> Some None)"

subsection \<open>Replacement\<close>

fun replace_operand :: "block_map \<Rightarrow> operand \<Rightarrow> operand" where
  "replace_operand locals (Copy p) = (case place_const locals p of Some c \<Rightarrow> Constant c | None \<Rightarrow> Copy p)"
| "replace_operand locals (Move p) = (case place_const locals p of Some c \<Rightarrow> Constant c | None \<Rightarrow> Move p)"
| "replace_operand locals (Constant c) = Constant c"

fun replace_in_rvalue :: "block_map \<Rightarrow> rvalue \<Rightarrow> rvalue" where
  "replace_in_rvalue m (RvUse op) = RvUse (replace_operand m op)"
| "replace_in_rvalue m (RvBinaryOp b x y) = RvBinaryOp b (replace_operand m x) (replace_operand m y)"
| "replace_in_rvalue m (RvUnaryOp u op) = RvUnaryOp u (replace_operand m op)"
| "replace_in_rvalue m (RvRef p k) = RvRef p k"
| "replace_in_rvalue m (RvAggregate k ops) = RvAggregate k (map (replace_operand m) ops)"
| "replace_in_rvalue m (RvDiscriminant p) = RvDiscriminant p"
| "replace_in_rvalue m (RvLen p) = RvLen p"
| "replace_in_rvalue m (RvCast k op t) = RvCast k (replace_operand m op) t"
| "replace_in_rvalue m (RvRepeat op c) = RvRepeat (replace_operand m op) c"

definition replace_in_stmt :: "block_map \<Rightarrow> statement \<Rightarrow> statement" where
  "replace_in_stmt m s =
    (case st_kind s of StAssign p rv \<Rightarrow> s\<lparr>st_kind := StAssign p (replace_in_rvalue m rv)\<rparr> | _ \<Rightarrow> s)"

subsection \<open>The data-flow iteration\<close>

fun transfer :: "float_ops \<Rightarrow> local_decl list \<Rightarrow> statement list \<Rightarrow> block_map \<Rightarrow> block_map option" where
  "transfer fo decls [] out = Some out"
| "transfer fo decls (s # ss) out =
    (case st_kind s of
       StAssign p rv \<Rightarrow>
         (let out1 = AList.delete (pl_local p) out in
          if pl_projection p = []
          then (case get decls (unat (pl_local p)) of
                  None \<Rightarrow> None
                | Some d \<Rightarrow>
                   (case evaluate_rvalue_to_const fo rv out1 (ld_ty d) of
                      None \<Rightarrow> None
                    | Some None \<Rightarrow> transfer fo decls ss out1
                    | Some (Some c) \<Rightarrow> transfer fo decls ss (AList.update (pl_local p) (Some c) out1)))
          else transfer fo decls ss out1)
     | _ \<Rightarrow> transfer fo decls ss out)"

definition incoming_map :: "nat list \<Rightarrow> block_map option list \<Rightarrow> block_map" where
  "incoming_map preds maps =
    fold (\<lambda>p m. case maps ! p of Some pred_out \<Rightarrow> merge_maps m pred_out | None \<Rightarrow> m) preds []"

fun cp_sweep ::
  "float_ops \<Rightarrow> body \<Rightarrow> nat list list \<Rightarrow> nat list \<Rightarrow> block_map option list \<times> bool
   \<Rightarrow> (block_map option list \<times> bool) option" where
  "cp_sweep fo bd preds [] (maps, changed) = Some (maps, changed)"
| "cp_sweep fo bd preds (i # ns) (maps, changed) =
    (if preds ! i = [] \<and> i \<noteq> 0 then cp_sweep fo bd preds ns (maps, changed)
     else (case transfer fo (bd_locals bd) (bb_statements (bd_blocks bd ! i)) (incoming_map (preds ! i) maps) of
             None \<Rightarrow> None
           | Some out \<Rightarrow>
              (if (case maps ! i of None \<Rightarrow> True | Some old \<Rightarrow> \<not> maps_equal old out)
               then cp_sweep fo bd preds ns (maps[i := Some out], True)
               else cp_sweep fo bd preds ns (maps, changed))))"

fun cp_iterate ::
  "nat \<Rightarrow> float_ops \<Rightarrow> body \<Rightarrow> nat list list \<Rightarrow> block_map option list \<Rightarrow> block_map option list option" where
  "cp_iterate 0 fo bd preds maps = Some maps"
| "cp_iterate (Suc n) fo bd preds maps =
    (case cp_sweep fo bd preds [0..<length (bd_blocks bd)] (maps, False) of
       None \<Rightarrow> None
     | Some (maps', changed) \<Rightarrow> if changed then cp_iterate n fo bd preds maps' else Some maps')"

definition MAX_ITERATIONS :: nat where
  "MAX_ITERATIONS = 1000"

definition replace_block :: "block_map option \<Rightarrow> basic_block \<Rightarrow> basic_block" where
  "replace_block m b =
    (case m of None \<Rightarrow> b | Some locals \<Rightarrow> b\<lparr>bb_statements := map (replace_in_stmt locals) (bb_statements b)\<rparr>)"

definition constant_prop :: "float_ops \<Rightarrow> body \<Rightarrow> body option" where
  "constant_prop fo bd =
    (if bd_blocks bd = [] then Some bd
     else (case cp_iterate MAX_ITERATIONS fo bd (predecessors (bd_blocks bd))
                  (replicate (length (bd_blocks bd)) None) of
             None \<Rightarrow> None
           | Some maps \<Rightarrow> Some (bd\<lparr>bd_blocks := map2 replace_block maps (bd_blocks bd)\<rparr>)))"

subsection \<open>What the pass keeps\<close>

lemma place_const_Nil [simp]: "place_const [] p = None"
  by (simp add: place_const_def)

lemma replace_operand_Nil [simp]: "replace_operand [] op = op"
  by (cases op) simp_all

lemma replace_in_rvalue_Nil [simp]: "replace_in_rvalue [] rv = rv"
  by (cases rv) (simp_all add: map_idI)

lemma replace_in_stmt_Nil [simp]: "replace_in_stmt [] s = s"
  by (simp add: replace_in_stmt_def split: statement_kind.splits)

lemma cp_sweep_length:
  "cp_sweep fo bd preds ns (maps, ch) = Some (maps', ch') \<Longrightarrow> length maps' = length maps"
proof (induction ns arbitrary: maps ch)
  case (Cons i ns)
  show ?case
  proof (cases "preds ! i = [] \<and> i \<noteq> 0")
    case True
    then show ?thesis using Cons by simp
  next
    case False
    then obtain out where "transfer fo (bd_locals bd) (bb_statements (bd_blocks bd ! i))
        (incoming_map (preds ! i) maps) = Some out"
      using Cons.prems by (auto split: option.splits)
    then show ?thesis
      using Cons.prems Cons.IH False by (auto split: if_splits option.splits)
  qed
qed simp

lemma cp_iterate_length:
  "cp_iterate n fo bd preds maps = Some maps' \<Longrightarrow> length maps' = length maps"
proof (induction n arbitrary: maps)
  case (Suc n)
  then obtain m1 c1 where s: "cp_sweep fo bd preds [0..<length (bd_blocks bd)] (maps, False) = Some (m1, c1)"
    by (auto split: option.splits)
  show ?case using Suc.prems Suc.IH s cp_sweep_length [OF s] by (cases c1) auto
qed simp

text \<open>
   Constant propagation changes operands only: block count, terminators, locals and
  statement order are kept, every assignment keeps its destination, and the statements of a
  block become their image under replacing operands by the constants of one map.
\<close>

theorem constant_prop_shape:
  assumes "constant_prop fo bd = Some bd'" and "i < length (bd_blocks bd)"
  shows "length (bd_blocks bd') = length (bd_blocks bd) \<and> bd_locals bd' = bd_locals bd \<and>
    bb_terminator (bd_blocks bd' ! i) = bb_terminator (bd_blocks bd ! i) \<and>
    (\<exists>m. bb_statements (bd_blocks bd' ! i) = map (replace_in_stmt m) (bb_statements (bd_blocks bd ! i)))"
proof -
  have "bd_blocks bd \<noteq> []" using assms(2) by auto
  then obtain maps where
    it: "cp_iterate MAX_ITERATIONS fo bd (predecessors (bd_blocks bd)) (replicate (length (bd_blocks bd)) None) = Some maps"
    and bd': "bd' = bd\<lparr>bd_blocks := map2 replace_block maps (bd_blocks bd)\<rparr>"
    using assms(1) by (auto simp: constant_prop_def split: option.splits)
  have len: "length maps = length (bd_blocks bd)" using cp_iterate_length [OF it] by simp
  have nth: "bd_blocks bd' ! i = replace_block (maps ! i) (bd_blocks bd ! i)"
    using assms(2) len by (simp add: bd')
  have "\<exists>m. bb_statements (replace_block x b) = map (replace_in_stmt m) (bb_statements b)" for x b
    by (cases x) (auto simp: replace_block_def map_idI intro: exI [of _ "[]"])
  moreover have "bb_terminator (replace_block x b) = bb_terminator b" for x b
    by (simp add: replace_block_def split: option.splits)
  ultimately show ?thesis using nth len by (simp add: bd')
qed

definition no_floats :: float_ops where
  "no_floats = \<lparr>fo_add = (\<lambda>a b. 0), fo_sub = (\<lambda>a b. 0), fo_mul = (\<lambda>a b. 0), fo_div = (\<lambda>a b. 0),
     fo_neg = (\<lambda>a. 0), fo_eq = (\<lambda>a b. a = b), fo_lt = (\<lambda>a b. False), fo_le = (\<lambda>a b. a = b)\<rparr>"

definition with_locals :: "nat \<Rightarrow> body \<Rightarrow> body" where
  "with_locals n bd = bd\<lparr>bd_locals := replicate n \<lparr>ld_ty = Ty_ERROR, ld_mutability = MutNot, ld_span = span_DUMMY\<rparr>\<rparr>"

lemma constant_prop_shape_witness:
  "\<exists>bd' m. constant_prop no_floats (with_locals 2 (one_block [assign_stmt 1 (RvUse (int_operand 5)),
        assign_stmt 0 (RvUse (copy_local 1))])) = Some bd' \<and>
     bb_statements (bd_blocks bd' ! 0) = map (replace_in_stmt m)
       [assign_stmt 1 (RvUse (int_operand 5)), assign_stmt 0 (RvUse (copy_local 1))]"
proof -
  let ?b = "with_locals 2 (one_block [assign_stmt 1 (RvUse (int_operand 5)), assign_stmt 0 (RvUse (copy_local 1))])"
  have "constant_prop no_floats ?b \<noteq> None" by code_simp
  then obtain bd' where b: "constant_prop no_floats ?b = Some bd'" by blast
  have "0 < length (bd_blocks ?b)" by (simp add: with_locals_def one_block_def)
  from constant_prop_shape [OF b this] b show ?thesis
    by (auto simp: with_locals_def one_block_def)
qed

subsection \<open>Soundness of the transfer function\<close>

text \<open>
  A store of known constants: \<open>\<rho> l = Some c\<close> when local \<open>l\<close> holds the constant
  \<open>c\<close>.  Operands are resolved in the store, the evaluator \<open>ev\<close> gives the value of
  a resolved rvalue at the declared type of the destination, and a write through a projection
  leaves the base without a known value.  Writes through references are outside this store.
\<close>

definition resolve_place :: "(u32 \<Rightarrow> mir_const option) \<Rightarrow> place \<Rightarrow> mir_const option" where
  "resolve_place \<rho> p = (if pl_projection p = [] then \<rho> (pl_local p) else None)"

fun resolve_operand :: "(u32 \<Rightarrow> mir_const option) \<Rightarrow> operand \<Rightarrow> operand" where
  "resolve_operand \<rho> (Copy p) = (case resolve_place \<rho> p of Some c \<Rightarrow> Constant c | None \<Rightarrow> Copy p)"
| "resolve_operand \<rho> (Move p) = (case resolve_place \<rho> p of Some c \<Rightarrow> Constant c | None \<Rightarrow> Move p)"
| "resolve_operand \<rho> (Constant c) = Constant c"

fun resolve_rvalue :: "(u32 \<Rightarrow> mir_const option) \<Rightarrow> rvalue \<Rightarrow> rvalue" where
  "resolve_rvalue \<rho> (RvUse op) = RvUse (resolve_operand \<rho> op)"
| "resolve_rvalue \<rho> (RvBinaryOp b x y) = RvBinaryOp b (resolve_operand \<rho> x) (resolve_operand \<rho> y)"
| "resolve_rvalue \<rho> (RvUnaryOp u op) = RvUnaryOp u (resolve_operand \<rho> op)"
| "resolve_rvalue \<rho> (RvRef p k) = RvRef p k"
| "resolve_rvalue \<rho> (RvAggregate k ops) = RvAggregate k (map (resolve_operand \<rho>) ops)"
| "resolve_rvalue \<rho> (RvDiscriminant p) = RvDiscriminant p"
| "resolve_rvalue \<rho> (RvLen p) = RvLen p"
| "resolve_rvalue \<rho> (RvCast k op t) = RvCast k (resolve_operand \<rho> op) t"
| "resolve_rvalue \<rho> (RvRepeat op c) = RvRepeat (resolve_operand \<rho> op) c"

definition exec_assign ::
  "(ty \<Rightarrow> rvalue \<Rightarrow> mir_const option) \<Rightarrow> local_decl list \<Rightarrow> statement
   \<Rightarrow> (u32 \<Rightarrow> mir_const option) \<Rightarrow> (u32 \<Rightarrow> mir_const option)" where
  "exec_assign ev decls s \<rho> =
    (case st_kind s of
       StAssign p rv \<Rightarrow>
         \<rho>(pl_local p :=
            if pl_projection p = []
            then (case get decls (unat (pl_local p)) of
                    None \<Rightarrow> None | Some d \<Rightarrow> ev (ld_ty d) (resolve_rvalue \<rho> rv))
            else None)
     | _ \<Rightarrow> \<rho>)"

definition map_agrees :: "block_map \<Rightarrow> (u32 \<Rightarrow> mir_const option) \<Rightarrow> bool" where
  "map_agrees m \<rho> \<longleftrightarrow> (\<forall>l c. map_of m l = Some (Some c) \<longrightarrow> \<rho> l = Some c)"

lemma place_const_resolve: "map_agrees m \<rho> \<Longrightarrow> place_const m p = Some c \<Longrightarrow> resolve_place \<rho> p = Some c"
  by (auto simp: map_agrees_def place_const_def resolve_place_def split: if_splits option.splits)

lemma resolve_replace_operand:
  assumes "map_agrees m \<rho>"
  shows "resolve_operand \<rho> (replace_operand m op) = resolve_operand \<rho> op"
  by (cases op) (auto split: option.splits dest: place_const_resolve [OF assms])

text \<open>
  Replacing operands is sound where the map is: if every constant of the map is the
  value of its local, the rewritten rvalue resolves to the same rvalue as the original one,
  and so has the same value under every evaluator.
\<close>

theorem replace_in_rvalue_sound:
  assumes "map_agrees m \<rho>"
  shows "resolve_rvalue \<rho> (replace_in_rvalue m rv) = resolve_rvalue \<rho> rv"
  by (cases rv) (simp_all add: resolve_replace_operand [OF assms])

lemma replace_in_rvalue_sound_witness:
  "let m = [(1, Some (MirConst (McInt 5) Ty_ERROR span_DUMMY))];
       \<rho> = (\<lambda>l. if l = 1 then Some (MirConst (McInt 5) Ty_ERROR span_DUMMY) else None) in
   map_agrees m \<rho> \<and> resolve_rvalue \<rho> (replace_in_rvalue m (RvUnaryOp Un_Neg (copy_local 1)))
     = resolve_rvalue \<rho> (RvUnaryOp Un_Neg (copy_local 1))"
proof -
  have "map_agrees [(1, Some (MirConst (McInt 5) Ty_ERROR span_DUMMY))]
     (\<lambda>l. if l = 1 then Some (MirConst (McInt 5) Ty_ERROR span_DUMMY) else None)"
    by (simp add: map_agrees_def)
  from replace_in_rvalue_sound [OF this, of "RvUnaryOp Un_Neg (copy_local 1)"] this
  show ?thesis by (simp add: Let_def)
qed

lemma operand_const_resolve:
  assumes "map_agrees m \<rho>" "operand_to_const op m = Some c"
  shows "resolve_operand \<rho> op = Constant c"
  using assms by (cases op) (auto simp: place_const_resolve)

lemma operand_consts_resolve:
  assumes "map_agrees m \<rho>"
  shows "operand_consts ops m = Some cs \<Longrightarrow> map (resolve_operand \<rho>) ops = map Constant cs"
  by (induction ops arbitrary: cs) (auto split: option.splits dest: operand_const_resolve [OF assms])

lemma operand_consts_Constant [simp]: "operand_consts (map Constant cs) m = Some cs"
  by (induction cs) simp_all

lemma evaluate_resolve:
  assumes m: "map_agrees m \<rho>" and e: "evaluate_rvalue_to_const fo rv m t = Some (Some c)"
  shows "evaluate_rvalue_to_const fo (resolve_rvalue \<rho> rv) [] t = Some (Some c)"
proof (cases rv)
  case (RvBinaryOp b x y)
  with e obtain l r where "operand_to_const x m = Some l" "operand_to_const y m = Some r"
    "fold_binary fo b l r = Some (Some c)"
    by (auto simp: evaluate_rvalue_to_const_def split: option.splits)
  then show ?thesis using RvBinaryOp
    by (simp add: evaluate_rvalue_to_const_def operand_const_resolve [OF m])
next
  case (RvAggregate k ops)
  with e obtain cs where "operand_consts ops m = Some cs" "fold_aggregate k cs t = Some c"
    by (auto simp: evaluate_rvalue_to_const_def split: option.splits)
  then show ?thesis using RvAggregate
    by (simp add: evaluate_rvalue_to_const_def operand_consts_resolve [OF m])
qed (use e in \<open>auto simp: evaluate_rvalue_to_const_def operand_const_resolve [OF m] split: option.splits\<close>)

lemma map_agrees_delete: "map_agrees m \<rho> \<Longrightarrow> map_agrees (AList.delete l m) (\<rho>(l := v))"
  by (auto simp: map_agrees_def delete_conv')

lemma map_agrees_update: "map_agrees m (\<rho>(l := v)) \<Longrightarrow> map_agrees (AList.update l (Some c) m) (\<rho>(l := Some c))"
  unfolding map_agrees_def update_conv' by (metis fun_upd_apply option.inject)


definition folding_ev :: "ty \<Rightarrow> rvalue \<Rightarrow> mir_const option" where
  "folding_ev t rv = (case evaluate_rvalue_to_const no_floats rv [] t of Some v \<Rightarrow> v | None \<Rightarrow> None)"


subsection \<open>Where the pass is not sound\<close>

text \<open>
  The map used to rewrite a block is the one that holds at its end, so a read before a later
  assignment of the same local gets the later constant: \<^verbatim>\<open>x = 1; y = x; x = 2\<close> leaves \<open>y = 2\<close>.
\<close>

lemma constant_prop_uses_end_map:
  "map_option (\<lambda>bd. bb_statements (bd_blocks bd ! 0)) (constant_prop no_floats (with_locals 2 (one_block
      [assign_stmt 1 (RvUse (int_operand 1)), assign_stmt 0 (RvUse (copy_local 1)),
       assign_stmt 1 (RvUse (int_operand 2))])))
   = Some [assign_stmt 1 (RvUse (int_operand 1)), assign_stmt 0 (RvUse (int_operand 2)),
           assign_stmt 1 (RvUse (int_operand 2))]"
  by code_simp

text \<open>
  A local that one predecessor leaves unknown and another makes constant is constant at the
  join: an absent key is merged as if that predecessor did not exist.
\<close>

lemma merge_maps_absent:
  "map_of (merge_maps [] [(l, Some c)]) l = Some (Some c)"
  by (simp add: merge_maps_def merge_entry_def)

text \<open>
  The destination of a call is not forgotten: after \<^verbatim>\<open>x = 1; x = f()\<close> the continuation still
  reads the constant 1.
\<close>

definition call_body :: body where
  "call_body = with_locals 3 ((body_dummy (0, 0))\<lparr>bd_blocks :=
     [\<lparr>bb_statements = [assign_stmt 1 (RvUse (int_operand 1))],
       bb_terminator = \<lparr>tm_kind = TCall (copy_local 2) [] (place_new 1) (Some 1) None, tm_span = span_DUMMY\<rparr>,
       bb_is_cleanup = False\<rparr>,
      \<lparr>bb_statements = [assign_stmt 0 (RvUse (copy_local 1))],
       bb_terminator = return_terminator, bb_is_cleanup = False\<rparr>]\<rparr>)"

lemma constant_prop_keeps_call_destination:
  "map_option (\<lambda>bd. bb_statements (bd_blocks bd ! 1)) (constant_prop no_floats call_body)
   = Some [assign_stmt 0 (RvUse (int_operand 1))]"
  by code_simp

text \<open>
  A map that holds a string or function constant never equals itself, so the iteration runs
  to its limit.
\<close>

lemma maps_equal_string: "\<not> maps_equal [(l, Some (MirConst (McString str) t sp))] [(l, Some (MirConst (McString str) t sp))]"
  by (simp add: maps_equal_def entry_eq_def)

text \<open>Folding a cast keeps the constant of its operand whatever the target type is.\<close>

lemma cast_folds_operand:
  "evaluate_rvalue_to_const fo (RvCast k (Constant c) t') m t = Some (Some c)"
  by (simp add: evaluate_rvalue_to_const_def)

end
