(* ===== verification/Interp.thy ===== *)
theory Interp
  imports Type_Context Mir Layout Opt_ConstProp
begin

unbundle bit_operations_syntax

text \<open>
  The MIR interpreter of \<^verbatim>\<open>crates/glyim-mir-interp/src\<close>: values, places, rvalues, the loop over blocks with calls,
  returns and unwinding, its step and recursion limits.  The state is the code's \<open>Interpreter\<close> with the body and block
  that the loop holds in local variables; what never changes during a run is in an environment.  Every operation returns
  \<open>None\<close> for a Rust panic (an index out of range, a recursion deeper than the fuel) and \<open>Inl\<close> for an \<open>InterpError\<close>.
  Floating-point arithmetic, the strings of interned names and the table of impl methods are arguments.
\<close>

subsection \<open>Values, errors and state\<close>

datatype interp_value =
    IntV i128
  | UintV u128
  | BoolV bool
  | UnitV
  | AggV "interp_value list"
  | RefV nat nat
  | FloatV u64
  | StringV "u8 list"
  | FnV "u32 \<times> u32"
  | ConstRefV "u32 \<times> u32"

datatype panic_message =
    PmUninitialized nat
  | PmDeadFrame nat
  | PmDerefUninitialized nat nat
  | PmDerefNonReference
  | PmFieldBounds nat nat
  | PmFieldNonAggregate
  | PmIndexLocal nat
  | PmIndexNotInteger
  | PmIndexBounds nat nat
  | PmIndexNonAggregate
  | PmConstantIndex
  | PmSubslice
  | PmSlice
  | PmLength
  | PmSize layout_error
  | PmLocalBounds nat
  | PmDerefInWrite
  | PmDiscriminant
  | PmCast cast_kind
  | PmRepeat
  | PmConst
  | PmBinary bin_op interp_value interp_value
  | PmUnary un_op interp_value
  | PmFloatDivision
  | PmUnreachable
  | PmCallee
  | PmNotFound "u32 \<times> u32"
  | PmAssertNotBool
  | PmAssertFailed assert_message

datatype interp_error =
    TimedOut
  | StackOverflow
  | IeDivisionByZero
  | IePanic panic_message
  | IeUnwind interp_error

record interp_floats = float_ops +
  if_of_int :: "i128 \<Rightarrow> u64"
  if_to_int :: "u64 \<Rightarrow> i128"

record interp_env =
  en_tcx :: ty_ctx
  en_fuel :: nat
  en_floats :: interp_floats
  en_name :: "name \<Rightarrow> u8 list"
  en_methods :: "u32 \<Rightarrow> u32 \<Rightarrow> name \<Rightarrow> u32 option"
  en_unwind :: bool
  en_step_limit :: nat
  en_recursion_limit :: nat
  en_functions :: "u32 \<times> u32 \<Rightarrow> body option"

record call_frame =
  cf_body :: body
  cf_locals :: "interp_value option list"
  cf_return_place :: place
  cf_target_bb :: u32
  cf_unwind_target :: "u32 option"
  cf_generation :: u64

record interp =
  ip_body :: body
  ip_bb :: u32
  ip_locals :: "interp_value option list"
  ip_decls :: "local_decl list"
  ip_arg_count :: nat
  ip_owner :: "u32 \<times> u32"
  ip_call_stack :: "call_frame list"
  ip_frame_depth :: nat
  ip_generations :: "u64 list"
  ip_next_gen :: u64
  ip_steps :: nat
  ip_recursion :: nat
  ip_pending :: "interp_error option"

subsection \<open>Results\<close>

type_synonym 'a ires = "(interp_error + 'a) option"

definition iret :: "'a \<Rightarrow> 'a ires" where
  "iret x = Some (Inr x)"

definition ifail :: "panic_message \<Rightarrow> 'a ires" where
  "ifail m = Some (Inl (IePanic m))"

definition ibind :: "'a ires \<Rightarrow> ('a \<Rightarrow> 'b ires) \<Rightarrow> 'b ires" where
  "ibind r f = (case r of None \<Rightarrow> None | Some (Inl e) \<Rightarrow> Some (Inl e) | Some (Inr x) \<Rightarrow> f x)"

text \<open>\<open>ok_or_else\<close>, and a Rust operation that panics.\<close>

definition or_fail :: "'a option \<Rightarrow> panic_message \<Rightarrow> 'a ires" where
  "or_fail x m = (case x of None \<Rightarrow> ifail m | Some y \<Rightarrow> iret y)"

definition or_abort :: "'a option \<Rightarrow> 'a ires" where
  "or_abort x = map_option Inr x"

definition usize_of :: "128 word \<Rightarrow> nat" where
  "usize_of w = unat (ucast w :: u64)"

subsection \<open>Frames\<close>

definition get_local :: "interp_value option list \<Rightarrow> nat \<Rightarrow> interp_value option" where
  "get_local locals i = (case get locals i of Some (Some v) \<Rightarrow> Some v | _ \<Rightarrow> None)"

definition generation_at :: "interp \<Rightarrow> nat \<Rightarrow> u64" where
  "generation_at st f = (case get (ip_generations st) f of Some g \<Rightarrow> g | None \<Rightarrow> 0)"

definition live_frame :: "interp \<Rightarrow> nat \<Rightarrow> bool" where
  "live_frame st f \<longleftrightarrow> f < length (ip_call_stack st) \<and> cf_generation (ip_call_stack st ! f) = generation_at st f"

definition locals_for_ref_frame :: "interp \<Rightarrow> nat \<Rightarrow> interp_value option list option" where
  "locals_for_ref_frame st f =
    (if f = ip_frame_depth st then Some (ip_locals st)
     else if live_frame st f then Some (cf_locals (ip_call_stack st ! f))
     else None)"

definition decls_for_ref_frame :: "interp \<Rightarrow> nat \<Rightarrow> local_decl list option" where
  "decls_for_ref_frame st f =
    (if f = ip_frame_depth st then Some (ip_decls st)
     else if live_frame st f then Some (bd_locals (cf_body (ip_call_stack st ! f)))
     else None)"

text \<open>The update that the mutable counterpart \<open>write_target_locals_mut\<close> allows.\<close>

definition set_frame_locals :: "nat \<Rightarrow> interp_value option list \<Rightarrow> interp \<Rightarrow> interp" where
  "set_frame_locals f locals st =
    (if f = ip_frame_depth st then st\<lparr>ip_locals := locals\<rparr>
     else st\<lparr>ip_call_stack := (ip_call_stack st)[f := (ip_call_stack st ! f)\<lparr>cf_locals := locals\<rparr>]\<rparr>)"

definition deref_value :: "interp \<Rightarrow> nat \<Rightarrow> nat \<Rightarrow> interp_value ires" where
  "deref_value st f l =
    ibind (or_fail (locals_for_ref_frame st f) (PmDeadFrame f)) (\<lambda>locals. or_fail (get_local locals l) (PmDerefUninitialized f l))"

text \<open>The target of a reference inside a length query, where a dead frame reads as uninitialized.\<close>

definition ref_target :: "interp \<Rightarrow> nat \<Rightarrow> nat \<Rightarrow> interp_value ires" where
  "ref_target st f l = or_fail (Option.bind (locals_for_ref_frame st f) (\<lambda>locals. get_local locals l)) (PmDerefUninitialized f l)"

definition index_value :: "interp \<Rightarrow> u32 \<Rightarrow> nat ires" where
  "index_value st l =
    ibind (or_fail (get_local (ip_locals st) (unat l)) (PmIndexLocal (unat l)))
      (\<lambda>v. case v of IntV i \<Rightarrow> iret (usize_of i) | UintV u \<Rightarrow> iret (usize_of u) | _ \<Rightarrow> ifail PmIndexNotInteger)"

subsection \<open>Type queries\<close>

definition get_element_type :: "interp_env \<Rightarrow> ty \<Rightarrow> ty option" where
  "get_element_type env t =
    map_option (\<lambda>k. case k of TArray e _ \<Rightarrow> e | TSlice e \<Rightarrow> e | _ \<Rightarrow> Ty_ERROR) (ty_kind_of (en_tcx env) t)"

definition get_field_type :: "interp_env \<Rightarrow> ty \<Rightarrow> nat \<Rightarrow> ty option" where
  "get_field_type env t i =
    (case ty_kind_of (en_tcx env) t of
       None \<Rightarrow> None
     | Some (TTuple substs) \<Rightarrow>
        map_option (\<lambda>args. case get args i of Some (GaTy u) \<Rightarrow> u | _ \<Rightarrow> Ty_ERROR) (substitution_args (en_tcx env) substs)
     | Some (TAdt adt_id _) \<Rightarrow> Some (field_ty (en_tcx env) adt_id i)
     | Some _ \<Rightarrow> Some Ty_ERROR)"

definition is_enum_ty :: "interp_env \<Rightarrow> ty \<Rightarrow> bool option" where
  "is_enum_ty env t =
    map_option (\<lambda>k. case k of TAdt adt_id _ \<Rightarrow> (case tc_adt_defs (en_tcx env) adt_id of Some d \<Rightarrow> ad_kind d = AdtEnum | None \<Rightarrow> False) | _ \<Rightarrow> False)
      (ty_kind_of (en_tcx env) t)"

definition get_element_size :: "interp_env \<Rightarrow> ty \<Rightarrow> nat ires" where
  "get_element_size env t =
    (case layout_of (en_fuel env) (en_tcx env) default_target t of
       None \<Rightarrow> None | Some (Inl e) \<Rightarrow> ifail (PmSize e) | Some (Inr l) \<Rightarrow> iret (unat (ly_size l)))"

primrec get_length_of_aggregate :: "nat \<Rightarrow> interp \<Rightarrow> interp_value \<Rightarrow> nat ires" where
  "get_length_of_aggregate 0 st v = None"
| "get_length_of_aggregate (Suc n) st v =
    (case v of
       AggV vs \<Rightarrow> iret (length vs)
     | RefV f l \<Rightarrow> ibind (ref_target st f l) (get_length_of_aggregate n st)
     | _ \<Rightarrow> ifail PmLength)"

primrec slice_length_from_value :: "nat \<Rightarrow> interp \<Rightarrow> interp_value \<Rightarrow> nat ires" where
  "slice_length_from_value 0 st v = None"
| "slice_length_from_value (Suc n) st v =
    (case v of
       AggV vs \<Rightarrow>
        (case get vs 1 of
           Some (IntV i) \<Rightarrow> iret (usize_of i) | Some (UintV u) \<Rightarrow> iret (usize_of u) | _ \<Rightarrow> ifail PmSlice)
     | RefV f l \<Rightarrow> ibind (ref_target st f l) (slice_length_from_value n st)
     | _ \<Rightarrow> ifail PmSlice)"

primrec get_slice_base_and_len :: "nat \<Rightarrow> interp \<Rightarrow> interp_value \<Rightarrow> (nat \<times> nat) ires" where
  "get_slice_base_and_len 0 st v = None"
| "get_slice_base_and_len (Suc n) st v =
    (case v of
       AggV [p, w] \<Rightarrow>
        iret (case p of RefV _ l \<Rightarrow> l | IntV i \<Rightarrow> usize_of i | _ \<Rightarrow> 0, case w of IntV i \<Rightarrow> usize_of i | UintV u \<Rightarrow> usize_of u | _ \<Rightarrow> 0)
     | RefV f l \<Rightarrow> ibind (ref_target st f l) (get_slice_base_and_len n st)
     | _ \<Rightarrow> ifail PmSlice)"

subsection \<open>Reading places\<close>

text \<open>One projection of \<open>read_place\<close>: the value so far with the type the code believes it has.\<close>

definition read_field :: "interp_env \<Rightarrow> interp \<Rightarrow> u32 \<Rightarrow> nat \<Rightarrow> interp_value \<times> ty \<Rightarrow> (interp_value \<times> ty) ires" where
  "read_field env st base fi p =
    (case p of
       (AggV vs, t) \<Rightarrow>
        ibind (or_abort (is_enum_ty env t)) (\<lambda>enum.
          let i = (if enum then fi + 1 else fi) in
          ibind (or_fail (get vs i) (PmFieldBounds i (length vs))) (\<lambda>v.
            if unat base < length (ip_decls st) then ibind (or_abort (get_field_type env t fi)) (\<lambda>u. iret (v, u))
            else iret (v, Ty_ERROR)))
     | _ \<Rightarrow> ifail PmFieldNonAggregate)"

definition constant_index :: "nat \<Rightarrow> u64 \<Rightarrow> bool \<Rightarrow> nat option" where
  "constant_index len offset from_end =
    (if from_end then if len \<le> unat offset then None else Some (len - unat offset) else Some (unat offset))"

text \<open>The bounds of a sub-slice read: from the end, \<open>to\<close> gives the start and \<open>from\<close> the end.\<close>

definition subslice_bounds :: "nat \<Rightarrow> u64 \<Rightarrow> u64 \<Rightarrow> bool \<Rightarrow> (nat \<times> nat) option" where
  "subslice_bounds len from to from_end =
    (if from_end then if len < unat to then None else Some (len - unat to, unat (word_of_nat len - from))
     else Some (unat from, unat to))"

fun read_step :: "interp_env \<Rightarrow> interp \<Rightarrow> u32 \<Rightarrow> projection_elem \<Rightarrow> interp_value \<times> ty \<Rightarrow> (interp_value \<times> ty) ires" where
  "read_step env st base PDeref (v, t) =
    (case v of
       RefV f l \<Rightarrow>
        ibind (deref_value st f l) (\<lambda>w.
          iret (w, case Option.bind (decls_for_ref_frame st f) (\<lambda>ds. get ds l) of Some d \<Rightarrow> ld_ty d | None \<Rightarrow> Ty_ERROR))
     | _ \<Rightarrow> ifail PmDerefNonReference)"
| "read_step env st base (PField i) p = read_field env st base (unat i) p"
| "read_step env st base (PIndex l) (v, t) =
    ibind (index_value st l) (\<lambda>i.
      case v of
        AggV vs \<Rightarrow> ibind (or_fail (get vs i) (PmIndexBounds i (length vs))) (\<lambda>w. ibind (or_abort (get_element_type env t)) (\<lambda>u. iret (w, u)))
      | _ \<Rightarrow> ifail PmIndexNonAggregate)"
| "read_step env st base (PDowncast i) (v, t) =
    (case v of AggV vs \<Rightarrow> if vs = [] then None else iret (AggV (tl vs), Ty_ERROR) | _ \<Rightarrow> iret (v, t))"
| "read_step env st base (PConstantIndex offset min_length from_end) (v, t) =
    ibind (get_length_of_aggregate (en_fuel env) st v) (\<lambda>len.
      ibind (or_fail (constant_index len offset from_end) PmConstantIndex) (\<lambda>i.
        case v of
          AggV vs \<Rightarrow> ibind (or_fail (get vs i) PmConstantIndex) (\<lambda>w. ibind (or_abort (get_element_type env t)) (\<lambda>u. iret (w, u)))
        | _ \<Rightarrow> ifail PmConstantIndex))"
| "read_step env st base (PSubslice from to from_end) (v, t) =
    ibind (get_slice_base_and_len (en_fuel env) st v) (\<lambda>(_, len).
      ibind (or_fail (subslice_bounds len from to from_end) PmSubslice) (\<lambda>(start, end').
        if end' < start then ifail PmSubslice
        else ibind (get_element_size env t) (\<lambda>size.
          let data_ptr = (case v of RefV f l \<Rightarrow> RefV f (unat (word_of_nat l + word_of_nat start * word_of_nat size :: u64)) | _ \<Rightarrow> RefV 0 0)
          in iret (AggV [data_ptr, IntV (word_of_nat (end' - start))], t))))"

fun read_projs :: "interp_env \<Rightarrow> interp \<Rightarrow> u32 \<Rightarrow> projection_elem list \<Rightarrow> interp_value \<times> ty \<Rightarrow> interp_value ires" where
  "read_projs env st base [] p = iret (fst p)"
| "read_projs env st base (e # es) p = ibind (read_step env st base e p) (read_projs env st base es)"

definition read_place :: "interp_env \<Rightarrow> interp \<Rightarrow> place \<Rightarrow> interp_value ires" where
  "read_place env st p =
    ibind (or_fail (get_local (ip_locals st) (unat (pl_local p))) (PmUninitialized (unat (pl_local p)))) (\<lambda>v.
      read_projs env st (pl_local p) (pl_projection p)
        (v, case get (ip_decls st) (unat (pl_local p)) of Some d \<Rightarrow> ld_ty d | None \<Rightarrow> Ty_ERROR))"

subsection \<open>Writing places\<close>

fun write_projs :: "interp \<Rightarrow> interp_value \<Rightarrow> projection_elem list \<Rightarrow> interp_value \<Rightarrow> interp_value ires" where
  "write_projs st base [] v = iret v"
| "write_projs st base (PField f # es) v =
    (case base of
       AggV vs \<Rightarrow>
        (if length vs \<le> unat f then ifail (PmFieldBounds (unat f) (length vs))
         else ibind (write_projs st (vs ! unat f) es v) (\<lambda>w. iret (AggV (vs[unat f := w]))))
     | _ \<Rightarrow> ifail PmFieldNonAggregate)"
| "write_projs st base (PIndex l # es) v =
    ibind (index_value st l) (\<lambda>i.
      case base of
        AggV vs \<Rightarrow>
         (if length vs \<le> i then ifail (PmIndexBounds i (length vs))
          else ibind (write_projs st (vs ! i) es v) (\<lambda>w. iret (AggV (vs[i := w]))))
      | _ \<Rightarrow> ifail PmIndexNonAggregate)"
| "write_projs st base (PDowncast _ # es) v = write_projs st base es v"
| "write_projs st base (PDeref # es) v = ifail PmDerefInWrite"
| "write_projs st base (PConstantIndex offset min_length from_end # es) v =
    (case base of
       AggV vs \<Rightarrow>
        ibind (or_fail (if from_end then if unat offset \<le> length vs then Some (length vs - unat offset) else None else Some (unat offset))
          PmConstantIndex) (\<lambda>i.
          if length vs \<le> i \<or> length vs < unat min_length then ifail PmConstantIndex else iret (AggV (vs[i := v])))
     | _ \<Rightarrow> ifail PmConstantIndex)"
| "write_projs st base (PSubslice from to from_end # es) v =
    (case (base, v) of
       (AggV vs, AggV ws) \<Rightarrow>
        ibind (or_fail (if from_end then if unat to \<le> length vs then Some (length vs - unat to) else None else Some (unat to)) PmSubslice) (\<lambda>end'.
          if end' < unat from \<or> length vs < end' \<or> end' - unat from \<noteq> length ws then ifail PmSubslice
          else iret (AggV (take (unat from) vs @ ws @ drop end' vs)))
     | _ \<Rightarrow> ifail PmSubslice)"

text \<open>A leading dereference moves to the frame and local of the reference.\<close>

function write_place_frame :: "nat \<Rightarrow> u32 \<Rightarrow> projection_elem list \<Rightarrow> interp_value \<Rightarrow> interp \<Rightarrow> interp ires" where
  "write_place_frame f l projs v st =
    ibind (or_fail (locals_for_ref_frame st f) (PmDeadFrame f)) (\<lambda>locals.
      if length locals \<le> unat l then ifail (PmLocalBounds (unat l))
      else case projs of
        [] \<Rightarrow> iret (set_frame_locals f (locals[unat l := Some v]) st)
      | e # es \<Rightarrow>
         ibind (or_fail (get_local locals (unat l)) (PmUninitialized (unat l))) (\<lambda>base.
           if e = PDeref
           then (case base of
                   RefV g k \<Rightarrow>
                    (if es \<noteq> [] then write_place_frame g (word_of_nat k) es v st
                     else ibind (or_fail (locals_for_ref_frame st g) (PmDeadFrame g)) (\<lambda>target.
                       if length target \<le> k then ifail (PmLocalBounds k) else iret (set_frame_locals g (target[k := Some v]) st)))
                 | _ \<Rightarrow> ifail PmDerefNonReference)
           else ibind (write_projs st base (e # es) v) (\<lambda>w. iret (set_frame_locals f (locals[unat l := Some w]) st))))"
  by pat_completeness auto
termination
  by (relation "measure (\<lambda>(f, l, projs, v, st). length projs)") auto

definition write_place :: "place \<Rightarrow> interp_value \<Rightarrow> interp \<Rightarrow> interp ires" where
  "write_place p v st = write_place_frame (ip_frame_depth st) (pl_local p) (pl_projection p) v st"

subsection \<open>Operators and constants\<close>

definition eval_int_op :: "bin_op \<Rightarrow> i128 \<Rightarrow> i128 \<Rightarrow> interp_value ires" where
  "eval_int_op op l r =
    (case op of
       Bin_Add \<Rightarrow> iret (IntV (l + r))
     | Bin_Sub \<Rightarrow> iret (IntV (l - r))
     | Bin_Mul \<Rightarrow> iret (IntV (l * r))
     | Bin_Div \<Rightarrow> if r = 0 then Some (Inl IeDivisionByZero)
         else iret (IntV (if i128_div_overflows l r then 0 else word_of_int (trunc_div (sint l) (sint r))))
     | Bin_Rem \<Rightarrow> if r = 0 then Some (Inl IeDivisionByZero)
         else iret (IntV (if i128_div_overflows l r then 0 else word_of_int (trunc_rem (sint l) (sint r))))
     | Bin_BitAnd \<Rightarrow> iret (IntV (l AND r))
     | Bin_BitOr \<Rightarrow> iret (IntV (l OR r))
     | Bin_BitXor \<Rightarrow> iret (IntV (l XOR r))
     | Bin_Shl \<Rightarrow> iret (IntV (push_bit (unat (ucast r :: u32) mod 128) l))
     | Bin_Shr \<Rightarrow> iret (IntV (signed_drop_bit (unat (ucast r :: u32) mod 128) l))
     | Bin_Eq \<Rightarrow> iret (BoolV (l = r))
     | Bin_Ne \<Rightarrow> iret (BoolV (l \<noteq> r))
     | Bin_Lt \<Rightarrow> iret (BoolV (sint l < sint r))
     | Bin_Gt \<Rightarrow> iret (BoolV (sint l > sint r))
     | Bin_LtEq \<Rightarrow> iret (BoolV (sint l \<le> sint r))
     | Bin_GtEq \<Rightarrow> iret (BoolV (sint l \<ge> sint r))
     | _ \<Rightarrow> ifail (PmBinary op (IntV l) (IntV r)))"

definition eval_uint_op :: "bin_op \<Rightarrow> u128 \<Rightarrow> u128 \<Rightarrow> interp_value ires" where
  "eval_uint_op op l r =
    (case op of
       Bin_Add \<Rightarrow> iret (UintV (l + r))
     | Bin_Sub \<Rightarrow> iret (UintV (l - r))
     | Bin_Mul \<Rightarrow> iret (UintV (l * r))
     | Bin_Div \<Rightarrow> if r = 0 then Some (Inl IeDivisionByZero) else iret (UintV (l div r))
     | Bin_Rem \<Rightarrow> if r = 0 then Some (Inl IeDivisionByZero) else iret (UintV (l mod r))
     | Bin_BitAnd \<Rightarrow> iret (UintV (l AND r))
     | Bin_BitOr \<Rightarrow> iret (UintV (l OR r))
     | Bin_BitXor \<Rightarrow> iret (UintV (l XOR r))
     | Bin_Shl \<Rightarrow> iret (UintV (push_bit (unat (ucast r :: u32) mod 128) l))
     | Bin_Shr \<Rightarrow> iret (UintV (drop_bit (unat (ucast r :: u32) mod 128) l))
     | Bin_Eq \<Rightarrow> iret (BoolV (l = r))
     | Bin_Ne \<Rightarrow> iret (BoolV (l \<noteq> r))
     | Bin_Lt \<Rightarrow> iret (BoolV (l < r))
     | Bin_Gt \<Rightarrow> iret (BoolV (l > r))
     | Bin_LtEq \<Rightarrow> iret (BoolV (l \<le> r))
     | Bin_GtEq \<Rightarrow> iret (BoolV (l \<ge> r))
     | _ \<Rightarrow> ifail (PmBinary op (UintV l) (UintV r)))"

definition eval_float_op :: "interp_floats \<Rightarrow> bin_op \<Rightarrow> u64 \<Rightarrow> u64 \<Rightarrow> interp_value ires" where
  "eval_float_op fo op l r =
    (case op of
       Bin_Add \<Rightarrow> iret (FloatV (fo_add fo l r))
     | Bin_Sub \<Rightarrow> iret (FloatV (fo_sub fo l r))
     | Bin_Mul \<Rightarrow> iret (FloatV (fo_mul fo l r))
     | Bin_Div \<Rightarrow> if fo_eq fo r 0 then ifail PmFloatDivision else iret (FloatV (fo_div fo l r))
     | Bin_Eq \<Rightarrow> iret (BoolV (fo_eq fo l r))
     | Bin_Ne \<Rightarrow> iret (BoolV (\<not> fo_eq fo l r))
     | Bin_Lt \<Rightarrow> iret (BoolV (fo_lt fo l r))
     | Bin_Gt \<Rightarrow> iret (BoolV (fo_lt fo r l))
     | Bin_LtEq \<Rightarrow> iret (BoolV (fo_le fo l r))
     | Bin_GtEq \<Rightarrow> iret (BoolV (fo_le fo r l))
     | _ \<Rightarrow> ifail (PmBinary op (FloatV l) (FloatV r)))"

definition eval_bool_op :: "bin_op \<Rightarrow> bool \<Rightarrow> bool \<Rightarrow> interp_value ires" where
  "eval_bool_op op l r =
    (case op of
       Bin_Eq \<Rightarrow> iret (BoolV (l = r)) | Bin_Ne \<Rightarrow> iret (BoolV (l \<noteq> r))
     | Bin_And \<Rightarrow> iret (BoolV (l \<and> r)) | Bin_Or \<Rightarrow> iret (BoolV (l \<or> r))
     | _ \<Rightarrow> ifail (PmBinary op (BoolV l) (BoolV r)))"

fun eval_binary_op :: "interp_env \<Rightarrow> bin_op \<Rightarrow> interp_value \<Rightarrow> interp_value \<Rightarrow> interp_value ires" where
  "eval_binary_op env op (IntV l) (IntV r) = eval_int_op op l r"
| "eval_binary_op env op (UintV l) (UintV r) = eval_uint_op op l r"
| "eval_binary_op env op (BoolV l) (BoolV r) = eval_bool_op op l r"
| "eval_binary_op env op (FloatV l) (FloatV r) = eval_float_op (en_floats env) op l r"
| "eval_binary_op env op l r = ifail (PmBinary op l r)"

fun eval_unary_op :: "interp_env \<Rightarrow> interp \<Rightarrow> un_op \<Rightarrow> interp_value \<Rightarrow> interp_value ires" where
  "eval_unary_op env st Un_Not (BoolV b) = iret (BoolV (\<not> b))"
| "eval_unary_op env st Un_Not (IntV i) = iret (IntV (NOT i))"
| "eval_unary_op env st Un_Not (UintV u) = iret (UintV (NOT u))"
| "eval_unary_op env st Un_Neg (IntV i) = iret (IntV (- i))"
| "eval_unary_op env st Un_Neg (FloatV f) = iret (FloatV (fo_neg (en_floats env) f))"
| "eval_unary_op env st Un_Deref (RefV f l) = deref_value st f l"
| "eval_unary_op env st op v = ifail (PmUnary op v)"

fun eval_mir_const :: "interp_env \<Rightarrow> mir_const \<Rightarrow> interp_value ires"
and eval_mir_consts :: "interp_env \<Rightarrow> mir_const list \<Rightarrow> interp_value list ires" where
  "eval_mir_const env (MirConst k t sp) =
    (case k of
       McInt v \<Rightarrow> iret (IntV v)
     | McUint v \<Rightarrow> iret (UintV v)
     | McBool b \<Rightarrow> iret (BoolV b)
     | McUnit \<Rightarrow> iret UnitV
     | McChar c \<Rightarrow> iret (IntV (ucast c))
     | McFloatBits f \<Rightarrow> iret (FloatV f)
     | McString n \<Rightarrow> iret (StringV (en_name env n))
     | McFn d _ \<Rightarrow> iret (FnV (0, d))
     | McConstRef d _ \<Rightarrow> iret (ConstRefV (0, d))
     | McAggregate cs \<Rightarrow> ibind (eval_mir_consts env cs) (\<lambda>vs. iret (AggV vs))
     | McError \<Rightarrow> ifail PmConst
     | McVirtualMethod _ _ \<Rightarrow> ifail PmConst)"
| "eval_mir_consts env [] = iret []"
| "eval_mir_consts env (c # cs) = ibind (eval_mir_const env c) (\<lambda>v. ibind (eval_mir_consts env cs) (\<lambda>vs. iret (v # vs)))"

fun eval_operand :: "interp_env \<Rightarrow> interp \<Rightarrow> operand \<Rightarrow> interp_value ires" where
  "eval_operand env st (Constant c) = eval_mir_const env c"
| "eval_operand env st (Copy p) = read_place env st p"
| "eval_operand env st (Move p) = read_place env st p"

fun eval_operands :: "interp_env \<Rightarrow> interp \<Rightarrow> operand list \<Rightarrow> interp_value list ires" where
  "eval_operands env st [] = iret []"
| "eval_operands env st (o1 # os) = ibind (eval_operand env st o1) (\<lambda>v. ibind (eval_operands env st os) (\<lambda>vs. iret (v # vs)))"

subsection \<open>Rvalues\<close>

definition eval_cast :: "interp_env \<Rightarrow> cast_kind \<Rightarrow> interp_value \<Rightarrow> interp_value ires" where
  "eval_cast env k v =
    (case k of
       CastFloatToFloat \<Rightarrow> (case v of FloatV f \<Rightarrow> iret v | _ \<Rightarrow> ifail (PmCast k))
     | CastIntToInt \<Rightarrow> iret v
     | CastIntToFloat \<Rightarrow> (case v of IntV i \<Rightarrow> iret (FloatV (if_of_int (en_floats env) i)) | _ \<Rightarrow> ifail (PmCast k))
     | CastFloatToInt \<Rightarrow> (case v of FloatV f \<Rightarrow> iret (IntV (if_to_int (en_floats env) f)) | _ \<Rightarrow> ifail (PmCast k))
     | CastPtrToPtr \<Rightarrow> iret v
     | CastFnPtrToPtr \<Rightarrow> iret v
     | CastPtrToInt \<Rightarrow>
         (case v of RefV f l \<Rightarrow> iret (UintV (push_bit 48 (word_of_nat f) OR word_of_nat l)) | _ \<Rightarrow> ifail (PmCast k))
     | CastIntToPtr \<Rightarrow>
         (case v of
            UintV a \<Rightarrow> iret (RefV (usize_of (drop_bit 48 a)) (usize_of (a AND mask 48)))
          | IntV a \<Rightarrow> if 0 \<le> sint a then iret (RefV 0 (usize_of a)) else ifail (PmCast k)
          | _ \<Rightarrow> ifail (PmCast k)))"

definition tag_aggregate :: "interp_env \<Rightarrow> aggregate_kind \<Rightarrow> interp_value list \<Rightarrow> interp_value" where
  "tag_aggregate env k vs =
    (if vs = [] then UnitV
     else case k of
       AggAdt adt_id variant _ \<Rightarrow>
        (case tc_adt_defs (en_tcx env) adt_id of
           Some d \<Rightarrow> if ad_kind d = AdtEnum then AggV (IntV (ucast variant) # vs) else AggV vs
         | None \<Rightarrow> AggV vs)
     | _ \<Rightarrow> AggV vs)"

definition eval_len :: "interp_env \<Rightarrow> interp \<Rightarrow> place \<Rightarrow> interp_value ires" where
  "eval_len env st p =
    ibind (or_abort (get (ip_decls st) (unat (pl_local p)))) (\<lambda>d.
      ibind (or_abort (ty_kind_of (en_tcx env) (ld_ty d))) (\<lambda>k.
        case k of
          TArray _ c \<Rightarrow>
           (case ct_kind c of
              CkInt n \<Rightarrow> iret (IntV (word_of_nat (usize_of n)))
            | CkUint n \<Rightarrow> iret (IntV (word_of_nat (usize_of n)))
            | _ \<Rightarrow> ifail PmLength)
        | TSlice _ \<Rightarrow>
           ibind (read_place env st p) (\<lambda>v. ibind (slice_length_from_value (en_fuel env) st v) (\<lambda>n. iret (IntV (word_of_nat n))))
        | _ \<Rightarrow> ifail PmLength))"

fun eval_rvalue :: "interp_env \<Rightarrow> interp \<Rightarrow> rvalue \<Rightarrow> interp_value ires" where
  "eval_rvalue env st (RvUse x) = eval_operand env st x"
| "eval_rvalue env st (RvBinaryOp op x y) =
    ibind (eval_operand env st x) (\<lambda>l. ibind (eval_operand env st y) (\<lambda>r. eval_binary_op env op l r))"
| "eval_rvalue env st (RvUnaryOp op x) = ibind (eval_operand env st x) (eval_unary_op env st op)"
| "eval_rvalue env st (RvRef p _) = iret (RefV (ip_frame_depth st) (unat (pl_local p)))"
| "eval_rvalue env st (RvAggregate k xs) = ibind (eval_operands env st xs) (\<lambda>vs. iret (tag_aggregate env k vs))"
| "eval_rvalue env st (RvDiscriminant p) =
    ibind (read_place env st p) (\<lambda>v.
      case v of
        AggV [] \<Rightarrow> iret (IntV 0)
      | AggV (w # _) \<Rightarrow> iret w
      | UnitV \<Rightarrow> iret (IntV 0)
      | _ \<Rightarrow> ifail PmDiscriminant)"
| "eval_rvalue env st (RvLen p) = eval_len env st p"
| "eval_rvalue env st (RvCast k x _) = ibind (eval_operand env st x) (eval_cast env k)"
| "eval_rvalue env st (RvRepeat x c) =
    ibind (eval_operand env st x) (\<lambda>v. ibind (eval_mir_const env c) (\<lambda>n.
      case n of
        IntV i \<Rightarrow> iret (AggV (replicate (usize_of i) v))
      | UintV u \<Rightarrow> iret (AggV (replicate (usize_of u) v))
      | _ \<Rightarrow> ifail PmRepeat))"

subsection \<open>Statements and unwinding\<close>

definition execute_statement :: "interp_env \<Rightarrow> statement \<Rightarrow> interp \<Rightarrow> interp ires" where
  "execute_statement env s st =
    (case st_kind s of
       StAssign p rv \<Rightarrow> ibind (eval_rvalue env st rv) (\<lambda>v. write_place p v st)
     | StStorageLive l \<Rightarrow>
        (if 1 \<le> unat l \<and> unat l \<le> ip_arg_count st then iret st
         else if unat l < length (ip_locals st) then iret (st\<lparr>ip_locals := (ip_locals st)[unat l := None]\<rparr>)
         else None)
     | StStorageDead _ \<Rightarrow> iret st
     | StNop \<Rightarrow> iret st)"

text \<open>Callers are popped, innermost first, until one has a cleanup edge for its call.\<close>

fun pop_to_cleanup :: "call_frame list \<Rightarrow> (call_frame \<times> u32 \<times> call_frame list) option" where
  "pop_to_cleanup [] = None"
| "pop_to_cleanup (f # fs) = (case cf_unwind_target f of Some b \<Rightarrow> Some (f, b, fs) | None \<Rightarrow> pop_to_cleanup fs)"

definition unwind_step :: "interp_env \<Rightarrow> interp_error \<Rightarrow> u32 option \<Rightarrow> interp \<Rightarrow> interp_error option \<times> interp" where
  "unwind_step env payload cleanup st =
    (if \<not> en_unwind env then (Some payload, st)
     else case cleanup of
       Some b \<Rightarrow> (None, st\<lparr>ip_bb := b\<rparr>)
     | None \<Rightarrow>
        let pending = (case ip_pending st of Some e \<Rightarrow> e | None \<Rightarrow> payload) in
        (case pop_to_cleanup (rev (ip_call_stack st)) of
           Some (f, b, fs) \<Rightarrow>
            (None, st\<lparr>ip_body := cf_body f, ip_bb := b, ip_locals := cf_locals f, ip_decls := bd_locals (cf_body f),
               ip_call_stack := rev fs, ip_recursion := ip_recursion st - (length (ip_call_stack st) - length fs),
               ip_pending := Some pending\<rparr>)
         | None \<Rightarrow>
            (Some (IeUnwind pending), st\<lparr>ip_call_stack := [], ip_recursion := ip_recursion st - length (ip_call_stack st), ip_pending := None\<rparr>)))"

text \<open>The loop over the statements of a block.  Its bound is the length at the start; the block and body of each turn
  are the current ones.\<close>

primrec run_statements :: "interp_env \<Rightarrow> u32 option \<Rightarrow> nat \<Rightarrow> nat \<Rightarrow> interp \<Rightarrow> (interp_error option \<times> interp) option" where
  "run_statements env cleanup 0 i st = Some (None, st)"
| "run_statements env cleanup (Suc k) i st =
    (case Option.bind (get (bd_blocks (ip_body st)) (unat (ip_bb st))) (\<lambda>b. get (bb_statements b) i) of
       None \<Rightarrow> None
     | Some s \<Rightarrow>
        (case execute_statement env s st of
           None \<Rightarrow> None
         | Some (Inr st') \<Rightarrow> run_statements env cleanup k (i + 1) st'
         | Some (Inl e) \<Rightarrow>
            (case unwind_step env e cleanup st of
               (Some e', st') \<Rightarrow> Some (Some e', st')
             | (None, st') \<Rightarrow> run_statements env cleanup k (i + 1) st')))"

subsection \<open>Terminators\<close>

datatype outcome = Running | Finished | Failed interp_error

definition cleanup_edge :: "terminator_kind \<Rightarrow> u32 option" where
  "cleanup_edge t =
    (case t of TAssert _ _ _ cleanup _ \<Rightarrow> cleanup | TCall _ _ _ _ cleanup \<Rightarrow> cleanup | TDrop _ _ cleanup \<Rightarrow> cleanup | _ \<Rightarrow> None)"

fun interp_value_to_u128 :: "interp_value \<Rightarrow> u128" where
  "interp_value_to_u128 (IntV i) = i"
| "interp_value_to_u128 (UintV u) = u"
| "interp_value_to_u128 (BoolV b) = bool_word b"
| "interp_value_to_u128 (AggV (v # vs)) = interp_value_to_u128 v"
| "interp_value_to_u128 (RefV f l) = word_of_nat l"
| "interp_value_to_u128 (FloatV f) = ucast f"
| "interp_value_to_u128 (StringV bs) = word_of_nat (length bs)"
| "interp_value_to_u128 _ = 0"

text \<open>This never fails, although the code returns a \<open>Result\<close>.\<close>

fun interp_value_to_bool :: "interp_env \<Rightarrow> interp_value \<Rightarrow> bool" where
  "interp_value_to_bool env (BoolV b) = b"
| "interp_value_to_bool env (IntV i) = (i \<noteq> 0)"
| "interp_value_to_bool env (UintV u) = (u \<noteq> 0)"
| "interp_value_to_bool env UnitV = False"
| "interp_value_to_bool env (AggV []) = False"
| "interp_value_to_bool env (AggV (v # vs)) = interp_value_to_bool env v"
| "interp_value_to_bool env (FloatV f) = (\<not> fo_eq (en_floats env) f 0)"
| "interp_value_to_bool env (StringV bs) = (bs \<noteq> [])"
| "interp_value_to_bool env _ = True"

definition switch_value :: "interp_env \<Rightarrow> ty \<Rightarrow> interp_value \<Rightarrow> u128" where
  "switch_value env t v = (if t = Ty_BOOL then bool_word (interp_value_to_bool env v) else interp_value_to_u128 v)"

definition switch_target :: "switch_targets \<Rightarrow> u128 \<Rightarrow> u32" where
  "switch_target targets v = (case find (\<lambda>p. fst p = v) (sw_branches targets) of Some p \<Rightarrow> snd p | None \<Rightarrow> sw_otherwise targets)"

text \<open>References are peeled off the receiver; of the three candidates of the code only the first can be a data type.\<close>

primrec resolve_trait_method :: "nat \<Rightarrow> interp_env \<Rightarrow> u32 \<Rightarrow> ty \<Rightarrow> name \<Rightarrow> u32 option option" where
  "resolve_trait_method 0 env trait_id t m = None"
| "resolve_trait_method (Suc n) env trait_id t m =
    (case ty_kind_of (en_tcx env) t of
       None \<Rightarrow> None
     | Some (TRef _ inner _) \<Rightarrow> resolve_trait_method n env trait_id inner m
     | Some (TAdt adt_id _) \<Rightarrow> Some (en_methods env trait_id adt_id m)
     | Some _ \<Rightarrow> Some None)"

fun operand_ty :: "interp \<Rightarrow> operand \<Rightarrow> ty option" where
  "operand_ty st (Constant c) = Some (mc_ty c)"
| "operand_ty st (Copy p) = map_option ld_ty (get (ip_decls st) (unat (pl_local p)))"
| "operand_ty st (Move p) = map_option ld_ty (get (ip_decls st) (unat (pl_local p)))"

text \<open>A call of a trait method becomes a direct call when the type of its first argument has the method.\<close>

definition devirtualize :: "interp_env \<Rightarrow> interp \<Rightarrow> operand \<Rightarrow> operand list \<Rightarrow> operand option" where
  "devirtualize env st func args =
    (case func of
       Constant (MirConst (McVirtualMethod trait_id m) _ sp) \<Rightarrow>
        (case args of
           [] \<Rightarrow> Some func
         | a # _ \<Rightarrow>
            (case operand_ty st a of
               None \<Rightarrow> Some func
             | Some recv_ty \<Rightarrow>
                map_option (\<lambda>r. case r of
                    Some f \<Rightarrow> Constant (MirConst (McFn f \<lparr>sub_index = 0, sub_len = 0\<rparr>) recv_ty sp)
                  | None \<Rightarrow> func)
                  (resolve_trait_method (en_fuel env) env trait_id recv_ty m)))
     | _ \<Rightarrow> Some func)"

definition callee_of_value :: "interp_value \<Rightarrow> ((u32 \<times> u32) \<times> interp_value list) ires" where
  "callee_of_value v =
    (case v of
       FnV d \<Rightarrow> iret (d, [])
     | AggV (FnV d # captured) \<Rightarrow> iret (d, captured)
     | _ \<Rightarrow> ifail PmCallee)"

fun resolve_callee :: "interp_env \<Rightarrow> interp \<Rightarrow> operand \<Rightarrow> ((u32 \<times> u32) \<times> interp_value list) ires" where
  "resolve_callee env st (Constant c) =
    (case mc_kind c of McFn d _ \<Rightarrow> iret ((0, d), []) | McInt i \<Rightarrow> iret ((0, ucast i), []) | _ \<Rightarrow> ifail PmCallee)"
| "resolve_callee env st (Copy p) = ibind (read_place env st p) callee_of_value"
| "resolve_callee env st (Move p) = ibind (read_place env st p) callee_of_value"

text \<open>The arguments go to the locals from 1 on; there must be room for them.\<close>

definition callee_frame :: "body \<Rightarrow> interp_value list \<Rightarrow> interp_value option list option" where
  "callee_frame callee vs =
    (let n = length (bd_locals callee) in
     if vs = [] then Some (replicate n None)
     else if length vs < n then Some (None # map Some vs @ replicate (n - 1 - length vs) None)
     else None)"

definition enter_call :: "body \<Rightarrow> interp_value option list \<Rightarrow> place \<Rightarrow> u32 option \<Rightarrow> u32 option \<Rightarrow> interp \<Rightarrow> interp" where
  "enter_call callee locals destination target cleanup st =
    (let next_bb = (case target of Some b \<Rightarrow> b | None \<Rightarrow> ip_bb st + 1);
         depth = ip_frame_depth st;
         gens = ip_generations st @ replicate (depth + 1 - length (ip_generations st)) 0;
         frame = \<lparr>cf_body = ip_body st, cf_locals = ip_locals st, cf_return_place = destination, cf_target_bb = next_bb,
           cf_unwind_target = cleanup, cf_generation = ip_next_gen st\<rparr>
     in st\<lparr>ip_body := callee, ip_bb := 0, ip_locals := locals, ip_decls := bd_locals callee, ip_arg_count := bd_arg_count callee,
          ip_owner := bd_owner callee, ip_call_stack := ip_call_stack st @ [frame], ip_frame_depth := depth + 1,
          ip_generations := gens[depth := ip_next_gen st], ip_next_gen := ip_next_gen st + 1\<rparr>)"

definition as_outcome :: "interp \<Rightarrow> 'a ires \<Rightarrow> ('a \<Rightarrow> (outcome \<times> interp) option) \<Rightarrow> (outcome \<times> interp) option" where
  "as_outcome st r f = (case r of None \<Rightarrow> None | Some (Inl e) \<Rightarrow> Some (Failed e, st) | Some (Inr x) \<Rightarrow> f x)"

definition interp_call ::
  "interp_env \<Rightarrow> operand \<Rightarrow> operand list \<Rightarrow> place \<Rightarrow> u32 option \<Rightarrow> u32 option \<Rightarrow> interp \<Rightarrow> (outcome \<times> interp) option" where
  "interp_call env func0 args destination target cleanup st =
    (case devirtualize env st func0 args of
       None \<Rightarrow> None
     | Some func \<Rightarrow>
        as_outcome st (resolve_callee env st func) (\<lambda>(callee_id, captured).
          as_outcome st (or_fail (en_functions env callee_id) (PmNotFound callee_id)) (\<lambda>callee.
            as_outcome st (eval_operands env st args) (\<lambda>vs.
              let st1 = st\<lparr>ip_recursion := ip_recursion st + 1\<rparr> in
              if en_recursion_limit env < ip_recursion st1 then Some (Failed StackOverflow, st1)
              else map_option (\<lambda>locals. (Running, enter_call callee locals destination target cleanup st1))
                (callee_frame callee (captured @ vs))))))"

definition interp_return :: "interp_env \<Rightarrow> interp \<Rightarrow> (outcome \<times> interp) option" where
  "interp_return env st0 =
    (let st = st0\<lparr>ip_pending := None\<rparr> in
     if ip_call_stack st = [] then Some (Finished, st)
     else let frame = last (ip_call_stack st); st1 = st\<lparr>ip_call_stack := butlast (ip_call_stack st)\<rparr> in
       as_outcome st1 (read_place env st1 (place_new 0)) (\<lambda>ret_val.
         let st2 = st1\<lparr>ip_bb := cf_target_bb frame, ip_locals := cf_locals frame, ip_decls := bd_locals (cf_body frame)\<rparr> in
         as_outcome st2 (write_place (cf_return_place frame) ret_val st2) (\<lambda>st3.
           let popped = ip_frame_depth st3 - 1 in
           Some (Running, st3\<lparr>ip_recursion := ip_recursion st3 - 1, ip_frame_depth := popped,
             ip_generations := (ip_generations st3)[popped := 0], ip_body := cf_body frame\<rparr>))))"

definition resume :: "interp_error option \<times> interp \<Rightarrow> outcome \<times> interp" where
  "resume r = (case r of (Some e, st) \<Rightarrow> (Failed e, st) | (None, st) \<Rightarrow> (Running, st))"

definition exec_terminator :: "interp_env \<Rightarrow> terminator_kind \<Rightarrow> interp \<Rightarrow> (outcome \<times> interp) option" where
  "exec_terminator env t st =
    (case t of
       TGoto target \<Rightarrow> Some (Running, st\<lparr>ip_bb := target\<rparr>)
     | TSwitchInt discr switch_ty targets \<Rightarrow>
        as_outcome st (eval_operand env st discr) (\<lambda>v.
          Some (Running, st\<lparr>ip_bb := switch_target targets (switch_value env switch_ty v)\<rparr>))
     | TReturn \<Rightarrow> interp_return env st
     | TUnreachable \<Rightarrow> Some (Failed (IePanic PmUnreachable), st)
     | TCall func args destination target cleanup \<Rightarrow> interp_call env func args destination target cleanup st
     | TAssert cond expected target cleanup msg \<Rightarrow>
        as_outcome st (eval_operand env st cond) (\<lambda>v.
          case v of
            BoolV b \<Rightarrow>
             if b = expected then Some (Running, st\<lparr>ip_bb := target\<rparr>)
             else Some (resume (unwind_step env (IePanic (PmAssertFailed msg)) cleanup st))
          | _ \<Rightarrow> Some (Failed (IePanic PmAssertNotBool), st))
     | TDrop _ target _ \<Rightarrow> Some (Running, st\<lparr>ip_bb := target\<rparr>))"

subsection \<open>The loop\<close>

text \<open>One turn: the terminator that is executed is the one read before the statements.\<close>

definition interp_step :: "interp_env \<Rightarrow> interp \<Rightarrow> (outcome \<times> interp) option" where
  "interp_step env st0 =
    (let st = st0\<lparr>ip_steps := ip_steps st0 + 1\<rparr> in
     if en_step_limit env < ip_steps st then Some (Failed TimedOut, st)
     else case get (bd_blocks (ip_body st)) (unat (ip_bb st)) of
       None \<Rightarrow> None
     | Some block \<Rightarrow>
        let t = tm_kind (bb_terminator block) in
        (case run_statements env (cleanup_edge t) (length (bb_statements block)) 0 st of
           None \<Rightarrow> None
         | Some (Some e, st') \<Rightarrow> Some (Failed e, st')
         | Some (None, st') \<Rightarrow> exec_terminator env t st'))"

text \<open>With fuel; \<open>Running\<close> means that the fuel was not enough.\<close>

primrec run_current_function :: "nat \<Rightarrow> interp_env \<Rightarrow> interp \<Rightarrow> (outcome \<times> interp) option" where
  "run_current_function 0 env st = Some (Running, st)"
| "run_current_function (Suc n) env st =
    (case interp_step env st of
       None \<Rightarrow> None
     | Some (Running, st') \<Rightarrow> run_current_function n env st'
     | Some r \<Rightarrow> Some r)"

text \<open>The state of \<open>run_body\<close>: what the last run left of the frame generations, the generation counter and a pending
  unwind is kept.\<close>

definition start_body :: "body \<Rightarrow> interp \<Rightarrow> interp" where
  "start_body bd st =
    st\<lparr>ip_owner := bd_owner bd, ip_arg_count := bd_arg_count bd, ip_body := bd, ip_bb := 0,
      ip_locals := replicate (length (bd_locals bd)) None, ip_decls := bd_locals bd, ip_call_stack := [], ip_frame_depth := 0,
      ip_steps := 0, ip_recursion := 1\<rparr>"

definition run_body :: "nat \<Rightarrow> interp_env \<Rightarrow> body \<Rightarrow> interp \<Rightarrow> (outcome \<times> interp) option" where
  "run_body n env bd st = run_current_function n env (start_body bd st)"

definition get_return_value :: "interp \<Rightarrow> interp_value option" where
  "get_return_value st = get_local (ip_locals st) 0"

definition interp_new :: "u32 \<times> u32 \<Rightarrow> interp" where
  "interp_new owner = \<lparr>ip_body = body_dummy owner, ip_bb = 0, ip_locals = [], ip_decls = [], ip_arg_count = 0, ip_owner = owner,
     ip_call_stack = [], ip_frame_depth = 0, ip_generations = [], ip_next_gen = 0, ip_steps = 0, ip_recursion = 0, ip_pending = None\<rparr>"

end
