(* ===== verification/Interp_Props.thy ===== *)
theory Interp_Props
  imports Interp
begin

text \<open>
  What the interpreter guarantees: it ends within its step limit, its frames stay consistent with the depths and
  generations it records, a value written to a place is read back, and its operators agree with constant folding.
\<close>

lemmas ires_simps = iret_def ifail_def ibind_def or_fail_def or_abort_def

lemma ibind_eq: "ibind r f = Some (Inr y) \<longleftrightarrow> (\<exists>x. r = Some (Inr x) \<and> f x = Some (Inr y))"
  by (auto simp: ibind_def split: option.splits sum.splits)

lemma iret_inj [simp]: "iret x = iret y \<longleftrightarrow> x = y"
  by (simp add: iret_def)

lemma iret_eq [simp]: "iret x = Some (Inr y) \<longleftrightarrow> x = y" "iret x = Some (Inl e) \<longleftrightarrow> False" "iret x \<noteq> None"
  by (auto simp: iret_def)

lemma ifail_eq [simp]: "ifail m = Some (Inr y) \<longleftrightarrow> False" "ifail m \<noteq> None"
  by (auto simp: ifail_def)

lemma or_fail_eq [simp]: "or_fail x m = Some (Inr y) \<longleftrightarrow> x = Some y"
  by (auto simp: or_fail_def split: option.splits)

lemma or_abort_eq [simp]: "or_abort x = Some (Inr y) \<longleftrightarrow> x = Some y"
  by (auto simp: or_abort_def)

lemma as_outcome_eq:
  "as_outcome st r f = Some (oc, s) \<longleftrightarrow> (\<exists>e. r = Some (Inl e) \<and> oc = Failed e \<and> s = st) \<or> (\<exists>x. r = Some (Inr x) \<and> f x = Some (oc, s))"
  by (auto simp: as_outcome_def split: option.splits sum.splits)

subsection \<open>What a write can change\<close>

text \<open>A write replaces locals of the current or of one stacked frame, and keeps their number.\<close>

declare write_place_frame.simps [simp del]

definition frame_kept :: "call_frame \<Rightarrow> call_frame \<Rightarrow> bool" where
  "frame_kept f f' \<longleftrightarrow> f' = f\<lparr>cf_locals := cf_locals f'\<rparr> \<and> length (cf_locals f') = length (cf_locals f)"

lemma frame_kept_refl [simp]: "frame_kept f f"
  by (simp add: frame_kept_def)

lemma frame_kept_trans: "frame_kept a b \<Longrightarrow> frame_kept b c \<Longrightarrow> frame_kept a c"
  by (cases a; cases b; cases c) (simp add: frame_kept_def)

definition only_locals :: "interp \<Rightarrow> interp \<Rightarrow> bool" where
  "only_locals st st' \<longleftrightarrow>
    st' = st\<lparr>ip_locals := ip_locals st', ip_call_stack := ip_call_stack st'\<rparr> \<and>
    length (ip_locals st') = length (ip_locals st) \<and>
    list_all2 frame_kept (ip_call_stack st) (ip_call_stack st')"

lemma only_locals_refl [simp]: "only_locals st st"
  by (simp add: only_locals_def list_all2_conv_all_nth)

lemma set_frame_locals_only:
  assumes "locals_for_ref_frame st f = Some locals" "length locals' = length locals"
  shows "only_locals st (set_frame_locals f locals' st)"
  using assms
  by (auto simp: only_locals_def set_frame_locals_def locals_for_ref_frame_def live_frame_def list_all2_conv_all_nth nth_list_update
      frame_kept_def split: if_splits)

lemma write_place_frame_only: "write_place_frame f l projs v st = Some (Inr st') \<Longrightarrow> only_locals st st'"
proof (induction f l projs v st rule: write_place_frame.induct)
  case (1 f l projs v st)
  from 1(2) obtain locals where locals: "locals_for_ref_frame st f = Some locals" "\<not> length locals \<le> unat l"
    by (subst (asm) write_place_frame.simps) (auto simp: ibind_eq split: if_splits)
  show ?case
  proof (cases projs)
    case Nil
    then show ?thesis
      using 1(2) locals by (subst (asm) write_place_frame.simps) (auto simp: ibind_eq intro!: set_frame_locals_only)
  next
    case (Cons e es)
    then obtain base where base: "get_local locals (unat l) = Some base"
      using 1(2) locals by (subst (asm) write_place_frame.simps) (auto simp: ibind_eq split: if_splits)
    show ?thesis
    proof (cases "e = PDeref")
      case False
      then show ?thesis
        using 1(2) locals base Cons
        by (subst (asm) write_place_frame.simps) (auto simp: ibind_eq intro!: set_frame_locals_only)
    next
      case True
      then obtain g k where r: "base = RefV g k"
        using 1(2) locals base Cons
        by (subst (asm) write_place_frame.simps) (auto simp: ibind_eq split: interp_value.splits)
      show ?thesis
      proof (cases "es = []")
        case False
        then have "write_place_frame g (word_of_nat k) es v st = Some (Inr st')"
          using 1(2) locals base Cons True r by (subst (asm) write_place_frame.simps) (auto simp: ibind_eq)
        from 1(1) [OF locals(2) Cons True r False this] show ?thesis .
      next
        case nil: True
        then show ?thesis
          using 1(2) locals base Cons True r
          by (subst (asm) write_place_frame.simps) (auto simp: ibind_eq split: if_splits intro!: set_frame_locals_only)
      qed
    qed
  qed
qed

lemma only_locals_trans: "only_locals a b \<Longrightarrow> only_locals b c \<Longrightarrow> only_locals a c"
proof -
  assume ab: "only_locals a b" and bc: "only_locals b c"
  have "list_all2 frame_kept (ip_call_stack a) (ip_call_stack c)"
    by (rule list_all2_trans [of frame_kept frame_kept frame_kept _ "ip_call_stack b"])
      (use ab bc in \<open>auto simp: only_locals_def intro: frame_kept_trans\<close>)
  then show ?thesis using ab bc by (cases a; cases b; cases c) (simp add: only_locals_def)
qed

lemma only_locals_steps: "only_locals st st' \<Longrightarrow> ip_steps st' = ip_steps st"
  by (cases st; cases st') (simp add: only_locals_def)

lemma write_place_only: "write_place p v st = Some (Inr st') \<Longrightarrow> only_locals st st'"
  unfolding write_place_def by (rule write_place_frame_only)

lemma execute_statement_only: "execute_statement env s st = Some (Inr st') \<Longrightarrow> only_locals st st'"
  by (auto simp: execute_statement_def ibind_eq split: statement_kind.splits if_splits intro: write_place_only)
    (auto simp: only_locals_def list_all2_conv_all_nth)

lemma unwind_step_steps: "ip_steps (snd (unwind_step env e c st)) = ip_steps st"
  by (simp add: unwind_step_def Let_def split: option.split)

lemma unwind_step_off: "\<not> en_unwind env \<Longrightarrow> unwind_step env e c st = (Some e, st)"
  by (simp add: unwind_step_def)

lemma run_statements_steps: "run_statements env c k i st = Some (r, st') \<Longrightarrow> ip_steps st' = ip_steps st"
proof (induction k arbitrary: i st)
  case (Suc k)
  then obtain s x where s: "Option.bind (get (bd_blocks (ip_body st)) (unat (ip_bb st))) (\<lambda>b. get (bb_statements b) i) = Some s"
      "execute_statement env s st = Some x"
    by (auto split: option.splits)
  show ?case
  proof (cases x)
    case (Inl e)
    with Suc s unwind_step_steps [of env e c st] show ?thesis
      by (cases "unwind_step env e c st") (auto split: option.splits)
  next
    case (Inr st1)
    with Suc s show ?thesis using only_locals_steps [OF execute_statement_only] by auto
  qed
qed simp

lemma run_statements_only: "\<not> en_unwind env \<Longrightarrow> run_statements env c k i st = Some (None, st') \<Longrightarrow> only_locals st st'"
proof (induction k arbitrary: i st)
  case (Suc k)
  then obtain s x where s: "Option.bind (get (bd_blocks (ip_body st)) (unat (ip_bb st))) (\<lambda>b. get (bb_statements b) i) = Some s"
      "execute_statement env s st = Some x"
    by (auto split: option.splits)
  with Suc.prems obtain st1 where "x = Inr st1" "run_statements env c k (i + 1) st1 = Some (None, st')"
    by (cases x) (auto simp: unwind_step_off)
  with Suc s show ?case using only_locals_trans [OF execute_statement_only] by blast
qed simp

lemma exec_call_steps: "interp_call env f args d t c st = Some (oc, st') \<Longrightarrow> ip_steps st' = ip_steps st"
  by (auto simp: interp_call_def as_outcome_eq enter_call_def Let_def split: option.splits if_splits prod.splits)

lemma exec_return_steps: "interp_return env st = Some (oc, st') \<Longrightarrow> ip_steps st' = ip_steps st"
  by (auto simp: interp_return_def as_outcome_eq Let_def split: if_splits dest!: write_place_only only_locals_steps)

lemma resume_eq: "resume p = (oc, s) \<longleftrightarrow> s = snd p \<and> oc = (case fst p of Some e \<Rightarrow> Failed e | None \<Rightarrow> Running)"
  by (cases p) (auto simp: resume_def split: option.splits)

text \<open>What a failed or passed assertion leaves.\<close>

lemma exec_assert_cases:
  assumes "exec_terminator env (TAssert cond expected target c msg) st = Some (oc, st')"
  obtains (failed) e where "oc = Failed e" "st' = st"
    | (passed) "oc = Running" "st' = st\<lparr>ip_bb := target\<rparr>"
    | (unwound) "(oc, st') = resume (unwind_step env (IePanic (PmAssertFailed msg)) c st)"
proof -
  from assms consider e where "oc = Failed e" "st' = st"
    | v where "eval_operand env st cond = Some (Inr v)" "(case v of
            BoolV b \<Rightarrow>
             if b = expected then Some (Running, st\<lparr>ip_bb := target\<rparr>)
             else Some (resume (unwind_step env (IePanic (PmAssertFailed msg)) c st))
          | _ \<Rightarrow> Some (Failed (IePanic PmAssertNotBool), st)) = Some (oc, st')"
    by (auto simp: exec_terminator_def as_outcome_eq)
  then show thesis
  proof cases
    case 2
    then show thesis using that by (cases v) (auto split: if_splits)
  qed (use that in blast)
qed

lemma exec_terminator_steps: "exec_terminator env t st = Some (oc, st') \<Longrightarrow> ip_steps st' = ip_steps st"
proof (cases t)
  case (TAssert cond expected target c msg)
  assume "exec_terminator env t st = Some (oc, st')"
  from this [unfolded TAssert] show ?thesis
  proof (cases rule: exec_assert_cases)
    case unwound
    then show ?thesis using unwind_step_steps [of env "IePanic (PmAssertFailed msg)" c st]
      by (auto simp: resume_def split: prod.splits option.splits)
  qed auto
qed (auto simp: exec_terminator_def as_outcome_eq dest: exec_call_steps exec_return_steps)

subsection \<open>Every run ends\<close>

lemma interp_step_steps: "interp_step env st = Some (oc, st') \<Longrightarrow> ip_steps st' = ip_steps st + 1"
  by (auto simp: interp_step_def Let_def split: if_splits option.splits dest!: run_statements_steps exec_terminator_steps)

lemma interp_step_limit: "interp_step env st = Some (Running, st') \<Longrightarrow> ip_steps st < en_step_limit env"
  by (auto simp: interp_step_def Let_def split: if_splits)

lemma run_ends: "run_current_function n env st = Some (Running, st') \<Longrightarrow> n = 0 \<or> ip_steps st + n \<le> en_step_limit env"
proof (induction n arbitrary: st)
  case (Suc n)
  then obtain st1 where st1: "interp_step env st = Some (Running, st1)" "run_current_function n env st1 = Some (Running, st')"
    by (auto split: option.splits outcome.splits)
  from Suc.IH [OF st1(2)] interp_step_steps [OF st1(1)] interp_step_limit [OF st1(1)] show ?case by auto
qed simp

lemma run_fuel: "run_current_function n env st = Some (oc, s) \<Longrightarrow> oc \<noteq> Running \<Longrightarrow> n \<le> m \<Longrightarrow> run_current_function m env st = Some (oc, s)"
proof (induction n arbitrary: m st)
  case (Suc n)
  then obtain k where "m = Suc k" "n \<le> k" by (cases m) auto
  with Suc show ?case by (auto split: option.splits outcome.splits)
qed simp

lemma run_none: "run_current_function n env st = None \<Longrightarrow> run_current_function (n + k) env st = None"
  by (induction n arbitrary: st) (auto split: option.splits outcome.splits)



subsection \<open>Frames, depths and generations\<close>

text \<open>Without unwinding the depths count the frames, every stacked frame carries the generation recorded for its depth,
  and every frame has the locals its body declares.\<close>

definition frames_ok :: "interp_env \<Rightarrow> interp \<Rightarrow> bool" where
  "frames_ok env st \<longleftrightarrow>
    ip_frame_depth st = length (ip_call_stack st) \<and> ip_recursion st = length (ip_call_stack st) + 1 \<and>
    ip_recursion st \<le> max 1 (en_recursion_limit env) \<and>
    (\<forall>f<length (ip_call_stack st). live_frame st f \<and> f < length (ip_generations st)) \<and>
    ip_decls st = bd_locals (ip_body st) \<and> length (ip_locals st) = length (ip_decls st) \<and>
    (\<forall>f\<in>set (ip_call_stack st). length (cf_locals f) = length (bd_locals (cf_body f)))"

lemma frames_ok_only:
  assumes "frames_ok env st" "only_locals st st'"
  shows "frames_ok env st'"
proof -
  have eq: "st' = st\<lparr>ip_locals := ip_locals st', ip_call_stack := ip_call_stack st'\<rparr>" and len: "length (ip_locals st') = length (ip_locals st)"
    and fr: "list_all2 frame_kept (ip_call_stack st) (ip_call_stack st')" using assms(2) by (auto simp: only_locals_def)
  have keep: "ip_frame_depth st' = ip_frame_depth st" "ip_recursion st' = ip_recursion st" "ip_generations st' = ip_generations st"
      "ip_decls st' = ip_decls st" "ip_body st' = ip_body st" by (subst eq, simp)+
  have frame: "cf_generation (ip_call_stack st' ! f) = cf_generation (ip_call_stack st ! f)"
      "cf_body (ip_call_stack st' ! f) = cf_body (ip_call_stack st ! f)"
      "length (cf_locals (ip_call_stack st' ! f)) = length (cf_locals (ip_call_stack st ! f))" if "f < length (ip_call_stack st)" for f
    using list_all2_nthD [OF fr that] unfolding frame_kept_def
    by (metis call_frame.select_convs(1,6) call_frame.surjective call_frame.update_convs(2))+
  have "length (ip_call_stack st') = length (ip_call_stack st)" using fr by (simp add: list_all2_lengthD)
  with keep frame len assms(1) show ?thesis
    by (auto simp: frames_ok_def live_frame_def generation_at_def all_set_conv_all_nth)
qed

lemma frames_ok_steps [simp]: "frames_ok env (st\<lparr>ip_steps := n\<rparr>) = frames_ok env st" "frames_ok env (st\<lparr>ip_bb := b\<rparr>) = frames_ok env st"
  by (simp_all add: frames_ok_def live_frame_def generation_at_def)

lemma callee_frame_length: "callee_frame callee vs = Some locals \<Longrightarrow> length locals = length (bd_locals callee)"
  by (auto simp: callee_frame_def Let_def split: if_splits)

lemma frames_ok_call:
  assumes "frames_ok env st" "ip_recursion st + 1 \<le> en_recursion_limit env" "callee_frame callee vs = Some locals"
  shows "frames_ok env (enter_call callee locals d t c (st\<lparr>ip_recursion := ip_recursion st + 1\<rparr>))"
proof -
  have le: "length (ip_call_stack st) \<le> length (ip_generations st)"
  proof (cases "length (ip_call_stack st)")
    case (Suc k)
    then show ?thesis using assms(1) by (auto simp: frames_ok_def dest!: spec [of _ k])
  qed simp
  show ?thesis
    using assms callee_frame_length [OF assms(3)] le
    by (auto simp: frames_ok_def enter_call_def Let_def live_frame_def generation_at_def get_def nth_append nth_list_update less_Suc_eq)
qed

lemma only_locals_depths:
  "only_locals a b \<Longrightarrow>
    only_locals (a\<lparr>ip_recursion := r, ip_frame_depth := d, ip_generations := g, ip_body := bd\<rparr>)
      (b\<lparr>ip_recursion := r, ip_frame_depth := d, ip_generations := g, ip_body := bd\<rparr>)"
  by (cases a; cases b) (simp add: only_locals_def)

lemma only_locals_fields:
  assumes "only_locals a b"
  shows "ip_recursion b = ip_recursion a" "ip_frame_depth b = ip_frame_depth a" "ip_generations b = ip_generations a"
  using assms by (cases a; cases b; simp add: only_locals_def)+

lemma frames_ok_return:
  assumes ok: "frames_ok env st" and run: "interp_return env st = Some (Running, st')"
  shows "frames_ok env st'"
proof -
  let ?frame = "last (ip_call_stack st)"
  let ?st1 = "st\<lparr>ip_pending := None, ip_call_stack := butlast (ip_call_stack st)\<rparr>"
  let ?st2 = "?st1\<lparr>ip_bb := cf_target_bb ?frame, ip_locals := cf_locals ?frame, ip_decls := bd_locals (cf_body ?frame)\<rparr>"
  let ?leave = "\<lambda>s. s\<lparr>ip_recursion := ip_recursion st - 1, ip_frame_depth := ip_frame_depth st - 1,
      ip_generations := (ip_generations st)[ip_frame_depth st - 1 := 0], ip_body := cf_body ?frame\<rparr>"
  have ne: "ip_call_stack st \<noteq> []" using run by (auto simp: interp_return_def Let_def split: if_splits)
  obtain v st3 where w: "write_place (cf_return_place ?frame) v ?st2 = Some (Inr st3)"
    and st': "st' = st3\<lparr>ip_recursion := ip_recursion st3 - 1, ip_frame_depth := ip_frame_depth st3 - 1,
      ip_generations := (ip_generations st3)[ip_frame_depth st3 - 1 := 0], ip_body := cf_body ?frame\<rparr>"
    using run ne by (auto simp: interp_return_def Let_def as_outcome_eq)
  have only: "only_locals ?st2 st3" by (rule write_place_only [OF w])
  have "st' = ?leave st3" using only_locals_fields [OF only] by (simp add: st')
  moreover have "frames_ok env (?leave ?st2)"
    using ok ne last_in_set [OF ne]
    by (auto simp: frames_ok_def live_frame_def generation_at_def get_def nth_butlast nth_list_update dest: in_set_butlastD)
  ultimately show ?thesis using frames_ok_only [OF _ only_locals_depths [OF only]] by metis
qed

lemma frames_ok_terminator:
  assumes "\<not> en_unwind env" "frames_ok env st" "exec_terminator env t st = Some (Running, st')"
  shows "frames_ok env st'"
proof (cases t)
  case (TCall func args d target c)
  then show ?thesis
    using assms frames_ok_call
    by (auto simp: exec_terminator_def interp_call_def as_outcome_eq Let_def split: option.splits prod.splits if_splits)
next
  case TReturn
  then show ?thesis using assms frames_ok_return by (simp add: exec_terminator_def)
next
  case (TAssert cond expected target c msg)
  from assms(3) [unfolded TAssert] show ?thesis
    by (cases rule: exec_assert_cases) (use assms(1,2) in \<open>auto simp: unwind_step_off resume_def\<close>)
qed (use assms in \<open>auto simp: exec_terminator_def as_outcome_eq\<close>)

lemma frames_ok_step:
  assumes "\<not> en_unwind env" "frames_ok env st" "interp_step env st = Some (Running, st')"
  shows "frames_ok env st'"
proof -
  obtain block where block: "get (bd_blocks (ip_body st)) (unat (ip_bb st)) = Some block"
    using assms(3) by (auto simp: interp_step_def Let_def split: if_splits option.splits)
  define t where "t = tm_kind (bb_terminator block)"
  obtain st1 where "run_statements env (cleanup_edge t) (length (bb_statements block)) 0 (st\<lparr>ip_steps := ip_steps st + 1\<rparr>) = Some (None, st1)"
    and t: "exec_terminator env t st1 = Some (Running, st')"
    using assms(3) block by (auto simp: interp_step_def t_def Let_def split: if_splits option.splits)
  then have "frames_ok env st1" using frames_ok_only run_statements_only [OF assms(1)] assms(2) frames_ok_steps(1) by blast
  from frames_ok_terminator [OF assms(1) this t] show ?thesis .
qed

lemma frames_ok_run:
  "\<not> en_unwind env \<Longrightarrow> frames_ok env st \<Longrightarrow> run_current_function n env st = Some (Running, st') \<Longrightarrow> frames_ok env st'"
proof (induction n arbitrary: st)
  case (Suc n)
  then obtain st1 where "interp_step env st = Some (Running, st1)" "run_current_function n env st1 = Some (Running, st')"
    by (auto split: option.splits outcome.splits)
  with Suc frames_ok_step show ?case by blast
qed simp

lemma frames_ok_start: "frames_ok env (start_body bd st)"
  by (simp add: frames_ok_def start_body_def)


subsection \<open>Reading back what was written\<close>

text \<open>A path of fields and elements through types that are not enums; its indices are not taken from the written local.\<close>

fun plain_path :: "interp_env \<Rightarrow> u32 \<Rightarrow> ty \<Rightarrow> projection_elem list \<Rightarrow> bool" where
  "plain_path env l t [] = True"
| "plain_path env l t (PField i # es) \<longleftrightarrow>
    is_enum_ty env t = Some False \<and> (\<exists>u. get_field_type env t (unat i) = Some u \<and> plain_path env l u es)"
| "plain_path env l t (PIndex k # es) \<longleftrightarrow> unat k \<noteq> unat l \<and> (\<exists>u. get_element_type env t = Some u \<and> plain_path env l u es)"
| "plain_path env l t _ = False"

lemma write_projs_read:
  assumes "\<And>k. unat k \<noteq> unat l \<Longrightarrow> index_value st' k = index_value st k" "unat l < length (ip_decls st')"
  shows "plain_path env l t es \<Longrightarrow> write_projs st base es v = Some (Inr w) \<Longrightarrow> read_projs env st' l es (w, t) = Some (Inr v)"
proof (induction es arbitrary: base t w)
  case (Cons e es)
  show ?case
  proof (cases e)
    case (PField i)
    then obtain u where u: "is_enum_ty env t = Some False" "get_field_type env t (unat i) = Some u" "plain_path env l u es"
      using Cons.prems(1) by auto
    obtain vs x where w: "base = AggV vs" "unat i < length vs" "write_projs st (vs ! unat i) es v = Some (Inr x)" "w = AggV (vs[unat i := x])"
      using Cons.prems(2) PField by (cases base) (auto simp: ibind_eq split: if_splits)
    have "read_step env st' l (PField i) (w, t) = Some (Inr (x, u))"
      using u(1,2) w(2) assms(2) by (simp add: w(4) read_field_def get_def ires_simps)
    then show ?thesis using Cons.IH [OF u(3) w(3)] PField by (simp add: ibind_def)
  next
    case (PIndex k)
    then obtain u where u: "unat k \<noteq> unat l" "get_element_type env t = Some u" "plain_path env l u es"
      using Cons.prems(1) by auto
    obtain i vs x where w: "index_value st k = Some (Inr i)" "base = AggV vs" "i < length vs"
        "write_projs st (vs ! i) es v = Some (Inr x)" "w = AggV (vs[i := x])"
      using Cons.prems(2) PIndex by (cases base) (auto simp: ibind_eq split: if_splits)
    have "read_step env st' l (PIndex k) (w, t) = Some (Inr (x, u))"
      using u(2) w(3) assms(1) [OF u(1)] by (simp add: w(1,5) get_def ires_simps)
    then show ?thesis using Cons.IH [OF u(3) w(4)] PIndex by (simp add: ibind_def)
  qed (use Cons.prems in auto)
qed simp


subsection \<open>Constant folding\<close>

lemma fold_int_interp:
  "fold_int op l r = Some (Some v) \<Longrightarrow>
    eval_int_op op l r = iret (IntV v) \<or> op \<in> {Bin_Div, Bin_Rem} \<and> r = 0 \<and> v = 0 \<and> eval_int_op op l r = Some (Inl IeDivisionByZero)"
  by (auto simp: fold_int_def eval_int_op_def split: bin_op.splits if_splits)

lemma fold_uint_interp:
  "fold_uint op l r = Some v \<Longrightarrow>
    eval_uint_op op l r = iret (UintV v) \<or> op \<in> {Bin_Div, Bin_Rem} \<and> r = 0 \<and> v = 0 \<and> eval_uint_op op l r = Some (Inl IeDivisionByZero)"
  by (auto simp: fold_uint_def eval_uint_op_def split: bin_op.splits if_splits)

lemma fold_bool_interp: "fold_bool op l r = Some v \<Longrightarrow> eval_bool_op op l r = iret (BoolV v)"
  by (auto simp: fold_bool_def eval_bool_op_def split: bin_op.splits)

text \<open>C19. A binary operation on integers or booleans that constant propagation folds has the folded constant as its value
  in the interpreter, unless it divides by zero: then the interpreter reports an error where the pass folds to zero.\<close>

theorem fold_binary_interp:
  assumes "fold_binary fo op l r = Some (Some c)" "\<not> (\<exists>f. mc_kind l = McFloatBits f)"
  shows "\<exists>x y z. eval_mir_const env l = iret x \<and> eval_mir_const env r = iret y \<and> eval_mir_const env c = iret z \<and>
    (eval_binary_op env op x y = iret z \<or>
     op \<in> {Bin_Div, Bin_Rem} \<and> y \<in> {IntV 0, UintV 0} \<and> z \<in> {IntV 0, UintV 0} \<and> eval_binary_op env op x y = Some (Inl IeDivisionByZero))"
proof -
  obtain kl tl sl kr tr sr where lr: "l = MirConst kl tl sl" "r = MirConst kr tr sr" by (cases l; cases r)
  then consider a b v where "kl = McInt a" "kr = McInt b" "fold_int op a b = Some (Some v)" "c = MirConst (McInt v) tl sl"
    | a b v where "kl = McUint a" "kr = McUint b" "fold_uint op a b = Some v" "c = MirConst (McUint v) tl sl"
    | a b v where "kl = McBool a" "kr = McBool b" "fold_bool op a b = Some v" "c = MirConst (McBool v) tl sl"
    using assms by (cases kl; cases kr) (auto simp: fold_binary_def Let_def)
  then show ?thesis
  proof cases
    case 1
    then show ?thesis using lr fold_int_interp [OF 1(3)] by auto
  next
    case 2
    then show ?thesis using lr fold_uint_interp [OF 2(3)] by auto
  next
    case 3
    then show ?thesis using lr fold_bool_interp [OF 3(3)] by auto
  qed
qed

subsection \<open>Examples\<close>

text \<open>Types: 4 is \<open>i64\<close>, 5 the pair \<open>(i64, i64)\<close>, 6 the enum 9.\<close>

definition interp_ctx :: ty_ctx where
  "interp_ctx = example_ctx\<lparr>tc_arena := \<lparr>ar_types =
     [TError, TNever, TUnit, TBool, TInt I64, TTuple \<lparr>sub_index = 0, sub_len = 2\<rparr>, TAdt 9 \<lparr>sub_index = 0, sub_len = 0\<rparr>],
     ar_flags = replicate 7 0, ar_substs = [[GaTy 4, GaTy 4]], ar_index = (\<lambda>_. None)\<rparr>,
     tc_adt_defs := [9 \<mapsto> \<lparr>ad_kind = AdtEnum, ad_fields = [], ad_variants = [], ad_generic_params = []\<rparr>]\<rparr>"

definition interp_no_floats :: interp_floats where
  "interp_no_floats = \<lparr>fo_add = (\<lambda>_ _. 0), fo_sub = (\<lambda>_ _. 0), fo_mul = (\<lambda>_ _. 0), fo_div = (\<lambda>_ _. 0), fo_neg = (\<lambda>_. 0),
     fo_eq = (=), fo_lt = (<), fo_le = (\<le>), if_of_int = (\<lambda>_. 0), if_to_int = (\<lambda>_. 0)\<rparr>"

abbreviation span_st :: "statement_kind \<Rightarrow> statement" where
  "span_st k \<equiv> \<lparr>st_kind = k, st_span = span_DUMMY\<rparr>"

abbreviation num :: "i128 \<Rightarrow> operand" where
  "num i \<equiv> Constant (MirConst (McInt i) 4 span_DUMMY)"

abbreviation fun_const :: "u32 \<Rightarrow> operand" where
  "fun_const f \<equiv> Constant (MirConst (McFn f \<lparr>sub_index = 0, sub_len = 0\<rparr>) 4 span_DUMMY)"

abbreviation set_to :: "u32 \<Rightarrow> rvalue \<Rightarrow> statement" where
  "set_to l rv \<equiv> span_st (StAssign (place_new l) rv)"

definition example_body :: "nat \<Rightarrow> nat \<Rightarrow> (statement_kind list \<times> terminator_kind) list \<Rightarrow> body" where
  "example_body args locals blocks = (body_dummy (0, 0))\<lparr>bd_arg_count := args,
     bd_locals := replicate locals \<lparr>ld_ty = 4, ld_mutability = MutMut, ld_span = span_DUMMY\<rparr>,
     bd_blocks := map (\<lambda>(ss, t). \<lparr>bb_statements = map span_st ss, bb_terminator = \<lparr>tm_kind = t, tm_span = span_DUMMY\<rparr>, bb_is_cleanup = False\<rparr>) blocks\<rparr>"

definition example_env :: "bool \<Rightarrow> (u32 \<times> body) list \<Rightarrow> interp_env" where
  "example_env unwind funs = \<lparr>en_tcx = interp_ctx, en_fuel = 20, en_floats = interp_no_floats, en_name = (\<lambda>_. []), en_methods = (\<lambda>_ _ _. None),
     en_unwind = unwind, en_step_limit = 30, en_recursion_limit = 5, en_functions = (\<lambda>(c, d). map_of funs d)\<rparr>"

definition result_of :: "(outcome \<times> interp) option \<Rightarrow> (outcome \<times> interp_value option) option" where
  "result_of r = map_option (\<lambda>(oc, s). (oc, get_return_value s)) r"

abbreviation deref_local :: "u32 \<Rightarrow> place" where
  "deref_local l \<equiv> \<lparr>pl_local = l, pl_projection = [PDeref]\<rparr>"

text \<open>A call of function 1, which loops forever.\<close>

definition spin_body :: body where
  "spin_body = example_body 0 1 [([], TCall (fun_const 1) [] (place_new 0) (Some 1) None), ([], TReturn)]"

definition spin_env :: interp_env where
  "spin_env = example_env False [(1, example_body 0 1 [([], TGoto 0)])]"




theorem fold_binary_interp_witness:
  "fold_binary (float_ops.truncate interp_no_floats) Bin_Add (MirConst (McInt 2) 4 span_DUMMY) (MirConst (McInt 3) 4 span_DUMMY) =
     Some (Some (MirConst (McInt 5) 4 span_DUMMY)) \<and>
   eval_binary_op spin_env Bin_Add (IntV 2) (IntV 3) = iret (IntV 5)"
proof -
  let ?l = "MirConst (McInt 2) 4 span_DUMMY" and ?r = "MirConst (McInt 3) 4 span_DUMMY"
  have f: "fold_binary (float_ops.truncate interp_no_floats) Bin_Add ?l ?r = Some (Some (MirConst (McInt 5) 4 span_DUMMY))"
    by (simp add: fold_binary_def fold_int_def)
  from fold_binary_interp [OF f, of spin_env] f show ?thesis by auto
qed

text \<open>A reference carries the depth of its frame and no generation, so after the frame is gone it reads whatever frame
  has that depth: function 1 returns a reference to its local 2, and function 2 reads its own local 2 through it.\<close>

lemma stale_reference_reads_callee:
  "result_of (run_body 30
      (example_env False
        [(1, example_body 0 3 [([StAssign (place_new 2) (RvUse (num 5)), StAssign (place_new 0) (RvRef (place_new 2) BkShared)], TReturn)]),
         (2, example_body 1 3 [([StAssign (place_new 2) (RvUse (num 99)), StAssign (place_new 0) (RvUse (Copy (deref_local 1)))], TReturn)])])
      (example_body 0 2
        [([], TCall (fun_const 1) [] (place_new 1) (Some 1) None),
         ([], TCall (fun_const 2) [Copy (place_new 1)] (place_new 0) (Some 2) None),
         ([], TReturn)])
      (interp_new (0, 0))) = Some (Finished, Some (IntV 99))"
  by code_simp

text \<open>A result cannot be returned through a reference to the caller: the depth is still the callee's.\<close>

lemma return_through_reference_fails:
  "result_of (run_body 30
      (example_env False [(1, example_body 0 1 [([StAssign (place_new 0) (RvUse (num 5))], TReturn)])])
      (example_body 0 3
        [([StAssign (place_new 1) (RvUse (num 0)), StAssign (place_new 2) (RvRef (place_new 1) BkShared)],
          TCall (fun_const 1) [] (deref_local 2) (Some 1) None),
         ([], TReturn)])
      (interp_new (0, 0))) = Some (Failed (IePanic (PmDeadFrame 0)), None)"
  by code_simp

text \<open>After a statement fails with a cleanup edge the loop over the statements and the terminator of the old block go on:
  the cleanup block 2 is never run and the failure is lost.\<close>

lemma failed_statement_skips_cleanup:
  "result_of (run_body 30 (example_env True [])
      (example_body 0 2
        [([StAssign (place_new 1) (RvLen (place_new 0))],
          TAssert (Constant (MirConst (McBool True) 3 span_DUMMY)) True 1 (Some 2) MsgBoundsCheck),
         ([StAssign (place_new 0) (RvUse (num 1))], TReturn),
         ([StAssign (place_new 0) (RvUse (num 2))], TReturn)])
      (interp_new (0, 0))) = Some (Finished, Some (IntV 1))"
  by code_simp

text \<open>Unwinding pops frames without lowering the frame depth: a reference of the caller to its own local is dead in the
  cleanup block, which fails.\<close>

lemma unwinding_loses_references:
  "result_of (run_body 30
      (example_env True [(1, example_body 0 1 [([], TAssert (Constant (MirConst (McBool False) 3 span_DUMMY)) True 0 None MsgBoundsCheck)])])
      (example_body 0 3
        [([StAssign (place_new 1) (RvUse (num 3)), StAssign (place_new 2) (RvRef (place_new 1) BkShared)],
          TCall (fun_const 1) [] (place_new 0) (Some 1) (Some 1)),
         ([StAssign (place_new 0) (RvUse (Copy (deref_local 2)))], TReturn)])
      (interp_new (0, 0))) = Some (Failed (IeUnwind (IePanic (PmAssertFailed MsgBoundsCheck))), None)"
  by code_simp

text \<open>A read of a variant's field skips the tag of the enum value, a write does not and replaces the tag.\<close>

definition enum_state :: interp where
  "enum_state = (interp_new (0, 0))\<lparr>ip_locals := [Some (AggV [IntV 1, IntV 42])], ip_decls := [\<lparr>ld_ty = 6, ld_mutability = MutMut, ld_span = span_DUMMY\<rparr>]\<rparr>"

lemma enum_write_hits_tag:
  "read_place (example_env False []) enum_state \<lparr>pl_local = 0, pl_projection = [PDowncast 1, PField 0]\<rparr> = Some (Inr (IntV 42)) \<and>
   ibind (write_place \<lparr>pl_local = 0, pl_projection = [PDowncast 1, PField 0]\<rparr> (IntV 7) enum_state)
     (\<lambda>st. iret (ip_locals st)) = Some (Inr [Some (AggV [IntV 7, IntV 42])])"
  by code_simp

text \<open>A variant without payload is built as the unit value, whose discriminant reads as 0 for every variant.\<close>

lemma fieldless_variant_discriminant:
  "eval_rvalue (example_env False []) enum_state (RvAggregate (AggAdt 9 variant \<lparr>sub_index = 0, sub_len = 0\<rparr>) []) = Some (Inr UnitV) \<and>
   eval_rvalue (example_env False []) (enum_state\<lparr>ip_locals := [Some UnitV]\<rparr>) (RvDiscriminant (place_new 0)) = Some (Inr (IntV 0))"
  by (simp add: iret_def ibind_def tag_aggregate_def read_place_def place_new_def get_local_def get_def or_fail_def)

end
