(* ===== verification/Hir.thy ===== *)
theory Hir
  imports Glyim_Types
begin

text \<open>
  The expression part of the high-level IR, \<^verbatim>\<open>crates/glyim-hir/src/lib.rs\<close>: expressions and patterns refer to one another by
  their indices in the arenas of a body.
\<close>

datatype path_kind = PkPlain | PkSelfPath | PkSuper u32 | PkCrate

datatype literal =
    LitInt i128 "int_ty option"
  | LitUint u128 "uint_ty option"
  | LitFloat u64 float_ty
  | LitBool bool
  | LitChar u32
  | LitString name
  | LitUnit

datatype type_ref =
    TrPath hir_path
  | TrFn "type_ref list" "type_ref option"
  | TrRef type_ref mutability
  | TrSlice type_ref
  | TrArray type_ref const_ref
  | TrTuple "type_ref list"
  | TrNever
  | TrInfer
  | TrDyn type_ref
  | TrError
and const_ref = CrLiteral literal | CrPath hir_path | CrError
and hir_path = HirPath (hp_segments: "path_segment list") (hp_kind: path_kind)
and path_segment = PathSegment (ps_name: name) (ps_generic_args: "type_ref list option")

definition as_name :: "hir_path \<Rightarrow> name option" where
  "as_name p = (case hp_segments p of [s] \<Rightarrow> if hp_kind p = PkPlain then Some (ps_name s) else None | _ \<Rightarrow> None)"

definition from_single :: "name \<Rightarrow> hir_path" where
  "from_single n = HirPath [PathSegment n None] PkPlain"

type_synonym expr_id = u32
type_synonym pat_id = u32

record match_arm =
  ma_pat :: pat_id
  ma_guard :: "expr_id option"
  ma_body :: expr_id

datatype expr =
    EMissing
  | EPath hir_path
  | ELiteral literal
  | EBlock "expr_id list" "expr_id option"
  | EIf expr_id expr_id "expr_id option"
  | EWhile expr_id expr_id
  | ELoop expr_id
  | EFor pat_id expr_id expr_id
  | EMatch expr_id "match_arm list"
  | ECall expr_id "expr_id list"
  | EMethodCall expr_id name "expr_id list"
  | EField expr_id name
  | EIndex expr_id expr_id
  | EUnary un_op expr_id
  | EBinary bin_op expr_id expr_id
  | ECast expr_id type_ref
  | ERef expr_id mutability
  | EAssign expr_id expr_id
  | EReturn "expr_id option"
  | EBreak "expr_id option"
  | EContinue
  | EClosure "pat_id list" expr_id bool
  | EArray "expr_id list"
  | ETuple "expr_id list"
  | ELet pat_id expr_id
  | EStruct hir_path "(name \<times> expr_id) list" "expr_id option"
  | ERange "expr_id option" "expr_id option" bool
  | EAwait expr_id
  | EErr

datatype pat =
    PWild
  | PBinding name mutability "pat_id option"
  | PStruct hir_path "(name \<times> pat_id) list" bool
  | PTuple "pat_id list"
  | PSlice "pat_id list"
  | POr "pat_id list"
  | PLiteral literal
  | PRange "literal option" "literal option" bool
  | PPath hir_path
  | PErr

record hir_body =
  hb_owner :: u32
  hb_exprs :: "expr list"
  hb_pats :: "pat list"
  hb_params :: "pat_id list"
  hb_span :: span
  hb_expr_spans :: "span list"

end
