(* ===== verification/Const_Eval.thy ===== *)
theory Const_Eval
  imports Hir Type_Context Opt_ConstProp
begin

unbundle bit_operations_syntax

text \<open>
  The constant evaluator of \<^verbatim>\<open>crates/glyim-const-eval/src\<close>: a tree walk over the HIR of a body with a stack of scopes, a
  recursion limit and iteration limits.  The recursion is on the depth that is left, so the limit is the code's own.
  \<open>None\<close> is a Rust panic or a pattern deeper than the fuel; an error keeps the state it was raised in.  Floating-point
  arithmetic, the interners and the table of primitive types are arguments.
\<close>

subsection \<open>Values\<close>

datatype ce_val =
    CvInt i128 int_ty
  | CvUint u128 uint_ty
  | CvFloatBits u64 float_ty
  | CvBool bool
  | CvChar u32
  | CvString name
  | CvUnit
  | CvTuple "ce_val list"
  | CvArray "ce_val list"
  | CvStruct "(name \<times> ce_val) list"
  | CvRange "ce_val option" "ce_val option" bool

record const_floats = float_ops +
  cf_rem :: "u64 \<Rightarrow> u64 \<Rightarrow> u64"
  cf_sqrt_uint :: "u128 \<Rightarrow> u128"
  cf_sqrt_int :: "i128 \<Rightarrow> i128"
  cf_to_f32 :: "u64 \<Rightarrow> u64"

text \<open>The bits of a signed type; those of \<open>isize\<close> and \<open>usize\<close> follow the pointer width.\<close>

fun int_bits :: "nat \<Rightarrow> int_ty \<Rightarrow> nat" where
  "int_bits pw I8 = 8"
| "int_bits pw I16 = 16"
| "int_bits pw I32 = 32"
| "int_bits pw I64 = 64"
| "int_bits pw Isize = (if pw = 64 then 64 else 32)"

fun uint_bits :: "nat \<Rightarrow> uint_ty \<Rightarrow> nat" where
  "uint_bits pw U8 = 8"
| "uint_bits pw U16 = 16"
| "uint_bits pw U32 = 32"
| "uint_bits pw U64 = 64"
| "uint_bits pw Usize = (if pw = 64 then 64 else 32)"

fun validate_range :: "nat \<Rightarrow> ce_val \<Rightarrow> ce_val option" where
  "validate_range pw (CvInt v t) =
    (if - (2 ^ (int_bits pw t - 1)) \<le> sint v \<and> sint v \<le> 2 ^ (int_bits pw t - 1) - 1 then Some (CvInt v t) else None)"
| "validate_range pw (CvUint v t) = (if uint v \<le> 2 ^ uint_bits pw t - 1 then Some (CvUint v t) else None)"
| "validate_range pw v = Some v"

fun as_bool :: "ce_val \<Rightarrow> bool option" where
  "as_bool (CvBool b) = Some b"
| "as_bool _ = None"

text \<open>\<open>as_i128\<close> and \<open>as_u128\<close> read the same bits.\<close>

fun as_i128 :: "ce_val \<Rightarrow> i128 option" where
  "as_i128 (CvInt v _) = Some v"
| "as_i128 (CvUint v _) = Some v"
| "as_i128 _ = None"

fun as_u128 :: "ce_val \<Rightarrow> u128 option" where
  "as_u128 (CvInt v _) = Some v"
| "as_u128 (CvUint v _) = Some v"
| "as_u128 _ = None"

fun as_f64 :: "ce_val \<Rightarrow> u64 option" where
  "as_f64 (CvFloatBits b _) = Some b"
| "as_f64 _ = None"

text \<open>The checked operations of \<open>i128\<close> and \<open>u128\<close>: the exact result if it is representable.\<close>

definition checked_int :: "int \<Rightarrow> i128 option" where
  "checked_int z = (if - (2 ^ 127) \<le> z \<and> z < 2 ^ 127 then Some (word_of_int z) else None)"

definition checked_uint :: "int \<Rightarrow> u128 option" where
  "checked_uint z = (if 0 \<le> z \<and> z < 2 ^ 128 then Some (word_of_int z) else None)"

definition checked_op ::
  "(int \<Rightarrow> int \<Rightarrow> int) \<Rightarrow> (u64 \<Rightarrow> u64 \<Rightarrow> u64) \<Rightarrow> ce_val \<Rightarrow> ce_val \<Rightarrow> ce_val option" where
  "checked_op f g l r =
    (case l of
       CvInt a s \<Rightarrow> (case r of CvInt b t \<Rightarrow> if s = t then map_option (\<lambda>v. CvInt v s) (checked_int (f (sint a) (sint b))) else None | _ \<Rightarrow> None)
     | CvUint a s \<Rightarrow> (case r of CvUint b t \<Rightarrow> if s = t then map_option (\<lambda>v. CvUint v s) (checked_uint (f (uint a) (uint b))) else None | _ \<Rightarrow> None)
     | CvFloatBits a s \<Rightarrow> (case r of CvFloatBits b t \<Rightarrow> if s = t then Some (CvFloatBits (g a b) s) else None | _ \<Rightarrow> None)
     | _ \<Rightarrow> None)"

definition checked_add :: "const_floats \<Rightarrow> ce_val \<Rightarrow> ce_val \<Rightarrow> ce_val option" where
  "checked_add fo = checked_op (+) (fo_add fo)"

definition checked_sub :: "const_floats \<Rightarrow> ce_val \<Rightarrow> ce_val \<Rightarrow> ce_val option" where
  "checked_sub fo = checked_op (-) (fo_sub fo)"

definition checked_mul :: "const_floats \<Rightarrow> ce_val \<Rightarrow> ce_val \<Rightarrow> ce_val option" where
  "checked_mul fo = checked_op (*) (fo_mul fo)"

definition F64_INFINITY :: u64 where "F64_INFINITY = 0x7FF0000000000000"

definition F64_NAN :: u64 where "F64_NAN = 0x7FF8000000000000"

text \<open>Division by zero of integers is \<open>None\<close>, of floats infinity whatever the dividend; the remainder of the least
  \<open>i128\<close> by -1 counts as an overflow.\<close>

definition checked_div :: "const_floats \<Rightarrow> ce_val \<Rightarrow> ce_val \<Rightarrow> ce_val option" where
  "checked_div fo l r =
    (case l of
       CvInt a s \<Rightarrow> (case r of CvInt b t \<Rightarrow>
         if s = t \<and> b \<noteq> 0 then map_option (\<lambda>v. CvInt v s) (checked_int (trunc_div (sint a) (sint b))) else None | _ \<Rightarrow> None)
     | CvUint a s \<Rightarrow> (case r of CvUint b t \<Rightarrow> if s = t \<and> b \<noteq> 0 then Some (CvUint (a div b) s) else None | _ \<Rightarrow> None)
     | CvFloatBits a s \<Rightarrow> (case r of CvFloatBits b t \<Rightarrow>
         if s = t then Some (CvFloatBits (if fo_eq fo b 0 then F64_INFINITY else fo_div fo a b) s) else None | _ \<Rightarrow> None)
     | _ \<Rightarrow> None)"

definition checked_rem :: "const_floats \<Rightarrow> ce_val \<Rightarrow> ce_val \<Rightarrow> ce_val option" where
  "checked_rem fo l r =
    (case l of
       CvInt a s \<Rightarrow> (case r of CvInt b t \<Rightarrow>
         if s = t \<and> b \<noteq> 0 \<and> \<not> i128_div_overflows a b then Some (CvInt (word_of_int (trunc_rem (sint a) (sint b))) s) else None | _ \<Rightarrow> None)
     | CvUint a s \<Rightarrow> (case r of CvUint b t \<Rightarrow> if s = t \<and> b \<noteq> 0 then Some (CvUint (a mod b) s) else None | _ \<Rightarrow> None)
     | CvFloatBits a s \<Rightarrow> (case r of CvFloatBits b t \<Rightarrow>
         if s = t then Some (CvFloatBits (if fo_eq fo b 0 then F64_NAN else cf_rem fo a b) s) else None | _ \<Rightarrow> None)
     | _ \<Rightarrow> None)"

fun checked_neg :: "const_floats \<Rightarrow> ce_val \<Rightarrow> ce_val option" where
  "checked_neg fo (CvInt v t) = map_option (\<lambda>r. CvInt r t) (checked_int (- sint v))"
| "checked_neg fo (CvFloatBits b t) = Some (CvFloatBits (fo_neg fo b) t)"
| "checked_neg fo _ = None"

fun const_not :: "ce_val \<Rightarrow> ce_val option" where
  "const_not (CvBool b) = Some (CvBool (\<not> b))"
| "const_not (CvInt v t) = Some (CvInt (NOT v) t)"
| "const_not (CvUint v t) = Some (CvUint (NOT v) t)"
| "const_not _ = None"

subsection \<open>Errors\<close>

datatype const_fn = FnAbs | FnMin | FnMax | FnSqrt | FnIsPowerOfTwo

datatype ce_message =
    CmRecursionLimit | CmPath | CmFieldMissing | CmFieldBase | CmIndexBounds | CmIndexBase | CmIndexType
  | CmAssign | CmCallee | CmArity nat nat | CmNoInterner | CmUnknownFn string | CmMissing | CmErr | CmAwait | CmClosure
  | CmOverflow bin_op | CmRange bin_op | CmDivZero bin_op | CmCompare | CmLogical bin_op | CmBitwise bin_op | CmShift bin_op
  | CmNot | CmNeg | CmNegRange | CmDeref | CmIfCond | CmMatch | CmWhileCond | CmWhileLimit | CmLoopLimit
  | CmForBounds | CmForIterable | CmIllegalCast | CmCast | CmCastTarget | CmBuiltin const_fn | CmTwoArgs

record ce_error =
  ce_message :: ce_message
  ce_span :: span

type_synonym ce_value = "ce_error + ce_val"

definition ce_err :: "ce_message \<Rightarrow> span \<Rightarrow> ce_error" where
  "ce_err m sp = \<lparr>ce_message = m, ce_span = sp\<rparr>"

subsection \<open>Operators\<close>

text \<open>The result of a checked operation, validated against its type.\<close>

definition validated :: "nat \<Rightarrow> bin_op \<Rightarrow> span \<Rightarrow> ce_val option \<Rightarrow> ce_value" where
  "validated pw op sp r =
    rbind (ok_or r (ce_err (CmOverflow op) sp)) (\<lambda>v. ok_or (validate_range pw v) (ce_err (CmRange op) sp))"

definition div_by_zero :: "ce_val \<Rightarrow> ce_val \<Rightarrow> bool" where
  "div_by_zero l r =
    (case l of
       CvInt _ _ \<Rightarrow> (case r of CvInt b _ \<Rightarrow> b = 0 | _ \<Rightarrow> False)
     | CvUint _ _ \<Rightarrow> (case r of CvUint b _ \<Rightarrow> b = 0 | _ \<Rightarrow> False)
     | _ \<Rightarrow> False)"

definition check_div_by_zero :: "bin_op \<Rightarrow> span \<Rightarrow> ce_val \<Rightarrow> ce_val \<Rightarrow> ce_error + unit" where
  "check_div_by_zero op sp l r = (if div_by_zero l r then Inl (ce_err (CmDivZero op) sp) else Inr ())"

definition compare_eq :: "ce_val \<Rightarrow> ce_val \<Rightarrow> bool" where
  "compare_eq l r =
    (case l of
       CvInt a _ \<Rightarrow> (case r of CvInt b _ \<Rightarrow> a = b | _ \<Rightarrow> False)
     | CvUint a _ \<Rightarrow> (case r of CvUint b _ \<Rightarrow> a = b | _ \<Rightarrow> False)
     | CvBool a \<Rightarrow> (case r of CvBool b \<Rightarrow> a = b | _ \<Rightarrow> False)
     | CvChar a \<Rightarrow> (case r of CvChar b \<Rightarrow> a = b | _ \<Rightarrow> False)
     | CvUnit \<Rightarrow> r = CvUnit
     | _ \<Rightarrow> False)"

definition compare_lt :: "span \<Rightarrow> ce_val \<Rightarrow> ce_val \<Rightarrow> ce_error + bool" where
  "compare_lt sp l r =
    ok_or (case l of
             CvInt a _ \<Rightarrow> (case r of CvInt b _ \<Rightarrow> Some (sint a < sint b) | _ \<Rightarrow> None)
           | CvUint a _ \<Rightarrow> (case r of CvUint b _ \<Rightarrow> Some (a < b) | _ \<Rightarrow> None)
           | CvChar a \<Rightarrow> (case r of CvChar b \<Rightarrow> Some (a < b) | _ \<Rightarrow> None)
           | _ \<Rightarrow> None) (ce_err CmCompare sp)"

definition logical_and :: "span \<Rightarrow> ce_val \<Rightarrow> ce_val \<Rightarrow> ce_value" where
  "logical_and sp l r =
    rbind (ok_or (as_bool l) (ce_err (CmLogical Bin_And) sp)) (\<lambda>a.
      if \<not> a then Inr (CvBool False) else rbind (ok_or (as_bool r) (ce_err (CmLogical Bin_And) sp)) (\<lambda>b. Inr (CvBool b)))"

definition logical_or :: "span \<Rightarrow> ce_val \<Rightarrow> ce_val \<Rightarrow> ce_value" where
  "logical_or sp l r =
    rbind (ok_or (as_bool l) (ce_err (CmLogical Bin_Or) sp)) (\<lambda>a.
      if a then Inr (CvBool True) else rbind (ok_or (as_bool r) (ce_err (CmLogical Bin_Or) sp)) (\<lambda>b. Inr (CvBool b)))"

definition bitwise ::
  "bin_op \<Rightarrow> (128 word \<Rightarrow> 128 word \<Rightarrow> 128 word) \<Rightarrow> (bool \<Rightarrow> bool \<Rightarrow> bool) \<Rightarrow> span \<Rightarrow> ce_val \<Rightarrow> ce_val \<Rightarrow> ce_value" where
  "bitwise op f g sp l r =
    ok_or (case l of
             CvInt a t \<Rightarrow> (case r of CvInt b _ \<Rightarrow> Some (CvInt (f a b) t) | _ \<Rightarrow> None)
           | CvUint a t \<Rightarrow> (case r of CvUint b _ \<Rightarrow> Some (CvUint (f a b) t) | _ \<Rightarrow> None)
           | CvBool a \<Rightarrow> (case r of CvBool b \<Rightarrow> Some (CvBool (g a b)) | _ \<Rightarrow> None)
           | _ \<Rightarrow> None) (ce_err (CmBitwise op) sp)"

text \<open>\<open>wrapping_shl\<close> and \<open>wrapping_shr\<close> reduce the amount modulo 128; it must be a signed value.\<close>

definition shift_amount :: "i128 \<Rightarrow> nat" where
  "shift_amount b = unat (ucast b :: u32) mod 128"

definition shift_left :: "span \<Rightarrow> ce_val \<Rightarrow> ce_val \<Rightarrow> ce_value" where
  "shift_left sp l r =
    ok_or (case r of
             CvInt b _ \<Rightarrow>
               (case l of
                  CvInt a t \<Rightarrow> Some (CvInt (push_bit (shift_amount b) a) t)
                | CvUint a t \<Rightarrow> Some (CvUint (push_bit (shift_amount b) a) t)
                | _ \<Rightarrow> None)
           | _ \<Rightarrow> None) (ce_err (CmShift Bin_Shl) sp)"

definition shift_right :: "span \<Rightarrow> ce_val \<Rightarrow> ce_val \<Rightarrow> ce_value" where
  "shift_right sp l r =
    ok_or (case r of
             CvInt b _ \<Rightarrow>
               (case l of
                  CvInt a t \<Rightarrow> Some (CvInt (signed_drop_bit (shift_amount b) a) t)
                | CvUint a t \<Rightarrow> Some (CvUint (drop_bit (shift_amount b) a) t)
                | _ \<Rightarrow> None)
           | _ \<Rightarrow> None) (ce_err (CmShift Bin_Shr) sp)"

definition as_value :: "ce_error + bool \<Rightarrow> ce_value" where
  "as_value r = rbind r (\<lambda>b. Inr (CvBool b))"

definition negated :: "ce_error + bool \<Rightarrow> ce_error + bool" where
  "negated r = rbind r (\<lambda>b. Inr (\<not> b))"

definition apply_binop :: "const_floats \<Rightarrow> nat \<Rightarrow> bin_op \<Rightarrow> ce_val \<Rightarrow> ce_val \<Rightarrow> span \<Rightarrow> ce_value" where
  "apply_binop fo pw op l r sp =
    (case op of
       Bin_Add \<Rightarrow> validated pw op sp (checked_add fo l r)
     | Bin_Sub \<Rightarrow> validated pw op sp (checked_sub fo l r)
     | Bin_Mul \<Rightarrow> validated pw op sp (checked_mul fo l r)
     | Bin_Div \<Rightarrow> rbind (check_div_by_zero op sp l r) (\<lambda>_. validated pw op sp (checked_div fo l r))
     | Bin_Rem \<Rightarrow> rbind (check_div_by_zero op sp l r) (\<lambda>_. validated pw op sp (checked_rem fo l r))
     | Bin_Eq \<Rightarrow> Inr (CvBool (compare_eq l r))
     | Bin_Ne \<Rightarrow> Inr (CvBool (\<not> compare_eq l r))
     | Bin_Lt \<Rightarrow> as_value (compare_lt sp l r)
     | Bin_Gt \<Rightarrow> as_value (compare_lt sp r l)
     | Bin_LtEq \<Rightarrow> as_value (negated (compare_lt sp r l))
     | Bin_GtEq \<Rightarrow> as_value (negated (compare_lt sp l r))
     | Bin_And \<Rightarrow> logical_and sp l r
     | Bin_Or \<Rightarrow> logical_or sp l r
     | Bin_BitAnd \<Rightarrow> bitwise op (AND) (\<and>) sp l r
     | Bin_BitOr \<Rightarrow> bitwise op (OR) (\<or>) sp l r
     | Bin_BitXor \<Rightarrow> bitwise op (XOR) (\<noteq>) sp l r
     | Bin_Shl \<Rightarrow> shift_left sp l r
     | Bin_Shr \<Rightarrow> shift_right sp l r)"

definition apply_unop :: "const_floats \<Rightarrow> nat \<Rightarrow> un_op \<Rightarrow> ce_val \<Rightarrow> span \<Rightarrow> ce_value" where
  "apply_unop fo pw op v sp =
    (case op of
       Un_Not \<Rightarrow> ok_or (const_not v) (ce_err CmNot sp)
     | Un_Neg \<Rightarrow> rbind (ok_or (checked_neg fo v) (ce_err CmNeg sp)) (\<lambda>r. ok_or (validate_range pw r) (ce_err CmNegRange sp))
     | Un_Deref \<Rightarrow> Inl (ce_err CmDeref sp))"

subsection \<open>State\<close>

datatype loop_control = LcBreak | LcContinue

text \<open>The scopes, innermost first.\<close>

record ce_state =
  cs_env :: "(name \<rightharpoonup> ce_val) list"
  cs_loop :: "loop_control option"

record body_fn =
  bf_params :: "pat_id list"
  bf_body :: expr_id

text \<open>What an evaluator keeps fixed: \<open>cn_types\<close> is the type context with its table of primitive types, \<open>cn_fallback\<close>
  the process-wide interner that casts use without one; an interner is \<open>None\<close> (a panic) at a name it does not hold.\<close>

record const_env =
  cn_body :: hir_body
  cn_pointer_width :: nat
  cn_interner :: "(name \<Rightarrow> string option) option"
  cn_fallback :: "name \<Rightarrow> string option"
  cn_types :: "(ty_ctx \<times> (string \<rightharpoonup> ty)) option"
  cn_const_fns :: "name \<rightharpoonup> body_fn"
  cn_floats :: const_floats
  cn_pat_fuel :: nat

type_synonym 'a ce = "ce_state \<Rightarrow> ((ce_error + 'a) \<times> ce_state) option"

definition ce_return :: "'a \<Rightarrow> 'a ce" where
  "ce_return x = (\<lambda>st. Some (Inr x, st))"

definition ce_lift :: "ce_error + 'a \<Rightarrow> 'a ce" where
  "ce_lift r = (\<lambda>st. Some (r, st))"

definition ce_fail :: "ce_message \<Rightarrow> span \<Rightarrow> 'a ce" where
  "ce_fail m sp = ce_lift (Inl (ce_err m sp))"

definition ce_some :: "'a option \<Rightarrow> 'a ce" where
  "ce_some m = (\<lambda>st. map_option (\<lambda>x. (Inr x, st)) m)"

definition ce_bind :: "'a ce \<Rightarrow> ('a \<Rightarrow> 'b ce) \<Rightarrow> 'b ce" where
  "ce_bind m f = (\<lambda>st.
    case m st of
      None \<Rightarrow> None
    | Some (r, st') \<Rightarrow> (case r of Inl e \<Rightarrow> Some (Inl e, st') | Inr x \<Rightarrow> f x st'))"

definition push_scope :: "unit ce" where
  "push_scope = (\<lambda>st. Some (Inr (), st\<lparr>cs_env := Map.empty # cs_env st\<rparr>))"

text \<open>The scope is popped whatever the result of the last expression was.\<close>

definition then_pop :: "'a ce \<Rightarrow> 'a ce" where
  "then_pop m = (\<lambda>st. map_option (\<lambda>(r, st'). (r, st'\<lparr>cs_env := tl (cs_env st')\<rparr>)) (m st))"

definition signal_loop :: "loop_control option \<Rightarrow> unit ce" where
  "signal_loop lc = (\<lambda>st. Some (Inr (), st\<lparr>cs_loop := lc\<rparr>))"

definition take_loop :: "loop_control option ce" where
  "take_loop = (\<lambda>st. Some (Inr (cs_loop st), st\<lparr>cs_loop := None\<rparr>))"

primrec lookup_in :: "(name \<rightharpoonup> ce_val) list \<Rightarrow> name \<Rightarrow> ce_val option" where
  "lookup_in [] n = None"
| "lookup_in (s # ss) n = (case s n of Some v \<Rightarrow> Some v | None \<Rightarrow> lookup_in ss n)"

definition lookup_name :: "name \<Rightarrow> ce_val option ce" where
  "lookup_name n = (\<lambda>st. Some (Inr (lookup_in (cs_env st) n), st))"

primrec update_in :: "name \<Rightarrow> ce_val \<Rightarrow> (name \<rightharpoonup> ce_val) list \<Rightarrow> (name \<rightharpoonup> ce_val) list option" where
  "update_in n v [] = None"
| "update_in n v (s # ss) = (if s n \<noteq> None then Some (s(n \<mapsto> v) # ss) else map_option ((#) s) (update_in n v ss))"

definition define_in :: "name \<Rightarrow> ce_val \<Rightarrow> (name \<rightharpoonup> ce_val) list \<Rightarrow> (name \<rightharpoonup> ce_val) list option" where
  "define_in n v env = (case env of [] \<Rightarrow> None | s # ss \<Rightarrow> Some (s(n \<mapsto> v) # ss))"

definition assign_name :: "name \<Rightarrow> ce_val \<Rightarrow> unit ce" where
  "assign_name n v = (\<lambda>st.
    map_option (\<lambda>env. (Inr (), st\<lparr>cs_env := env\<rparr>))
      (case update_in n v (cs_env st) of Some env \<Rightarrow> Some env | None \<Rightarrow> define_in n v (cs_env st)))"

text \<open>A binding pattern writes into the innermost scope, if there is one.\<close>

definition bind_name :: "name \<Rightarrow> ce_val \<Rightarrow> unit ce" where
  "bind_name n v = (\<lambda>st.
    Some (Inr (), case define_in n v (cs_env st) of Some env \<Rightarrow> st\<lparr>cs_env := env\<rparr> | None \<Rightarrow> st))"

subsection \<open>Literals, casts and built-in functions\<close>

fun eval_literal :: "literal \<Rightarrow> ce_val" where
  "eval_literal (LitInt v (Some t)) = CvInt v t"
| "eval_literal (LitInt v None) = CvInt v I32"
| "eval_literal (LitUint v (Some t)) = CvUint v t"
| "eval_literal (LitUint v None) = CvUint v U32"
| "eval_literal (LitFloat b t) = CvFloatBits b t"
| "eval_literal (LitBool b) = CvBool b"
| "eval_literal (LitChar c) = CvChar c"
| "eval_literal (LitString n) = CvString n"
| "eval_literal LitUnit = CvUnit"

definition const_fn_from_name :: "string \<Rightarrow> const_fn option" where
  "const_fn_from_name s =
    (if s = ''abs'' then Some FnAbs
     else if s = ''min'' then Some FnMin
     else if s = ''max'' then Some FnMax
     else if s = ''sqrt'' then Some FnSqrt
     else if s = ''is_power_of_two'' then Some FnIsPowerOfTwo
     else None)"

definition u128_is_power_of_two :: "u128 \<Rightarrow> bool" where
  "u128_is_power_of_two v \<longleftrightarrow> v \<noteq> 0 \<and> v AND (v - 1) = 0"

definition two_args :: "ce_val list \<Rightarrow> span \<Rightarrow> ce_error + ce_val \<times> ce_val" where
  "two_args args sp = (case args of [a, b] \<Rightarrow> Inr (a, b) | _ \<Rightarrow> Inl (ce_err CmTwoArgs sp))"

definition i128_abs :: "i128 \<Rightarrow> i128" where
  "i128_abs v = (if sint v < 0 then - v else v)"

text \<open>\<open>min\<close> and \<open>max\<close> pick an operand by the order of its type.\<close>

definition pick_int :: "(int \<Rightarrow> int \<Rightarrow> bool) \<Rightarrow> ce_val \<Rightarrow> ce_val \<Rightarrow> ce_val option" where
  "pick_int le a b =
    (case a of
       CvInt x s \<Rightarrow> (case b of CvInt y t \<Rightarrow> if s = t then Some (CvInt (if le (sint x) (sint y) then x else y) s) else None | _ \<Rightarrow> None)
     | CvUint x s \<Rightarrow> (case b of CvUint y t \<Rightarrow> if s = t then Some (CvUint (if le (uint x) (uint y) then x else y) s) else None | _ \<Rightarrow> None)
     | _ \<Rightarrow> None)"

definition apply_const_fn :: "const_floats \<Rightarrow> const_fn \<Rightarrow> ce_val list \<Rightarrow> span \<Rightarrow> ce_value" where
  "apply_const_fn fo f args sp =
    (let err = ce_err (CmBuiltin f) sp;
         first = (case args of [] \<Rightarrow> Inl err | x # _ \<Rightarrow> Inr x)
     in case f of
          FnAbs \<Rightarrow> rbind first (\<lambda>x. case x of CvInt v t \<Rightarrow> Inr (CvInt (i128_abs v) t) | _ \<Rightarrow> Inl err)
        | FnMin \<Rightarrow> rbind (two_args args sp) (\<lambda>(a, b). ok_or (pick_int (\<le>) a b) err)
        | FnMax \<Rightarrow> rbind (two_args args sp) (\<lambda>(a, b). ok_or (pick_int (\<ge>) a b) err)
        | FnSqrt \<Rightarrow> rbind first (\<lambda>x.
            case x of
              CvUint v t \<Rightarrow> Inr (CvUint (cf_sqrt_uint fo v) t)
            | CvInt v t \<Rightarrow> if 0 \<le> sint v then Inr (CvInt (i128_abs (cf_sqrt_int fo v)) t) else Inl err
            | _ \<Rightarrow> Inl err)
        | FnIsPowerOfTwo \<Rightarrow> rbind first (\<lambda>x.
            case x of
              CvUint v t \<Rightarrow> Inr (CvBool (u128_is_power_of_two v))
            | CvInt v t \<Rightarrow> if 0 \<le> sint v then Inr (CvBool (u128_is_power_of_two v)) else Inl err
            | _ \<Rightarrow> Inl err))"

text \<open>The name of the primitive type of a value, for the check of a cast.\<close>

definition value_ty_name :: "ce_val \<Rightarrow> string option" where
  "value_ty_name v =
    (case v of
       CvInt _ t \<Rightarrow> (case t of I8 \<Rightarrow> Some ''i8'' | I16 \<Rightarrow> Some ''i16'' | I32 \<Rightarrow> Some ''i32'' | I64 \<Rightarrow> Some ''i64'' | Isize \<Rightarrow> None)
     | CvUint _ t \<Rightarrow> (case t of U8 \<Rightarrow> Some ''u8'' | U16 \<Rightarrow> Some ''u16'' | U32 \<Rightarrow> Some ''u32'' | U64 \<Rightarrow> Some ''u64'' | Usize \<Rightarrow> None)
     | CvFloatBits _ t \<Rightarrow> (case t of F32 \<Rightarrow> Some ''f32'' | F64 \<Rightarrow> Some ''f64'')
     | CvBool _ \<Rightarrow> Some ''bool''
     | _ \<Rightarrow> None)"

definition ty_of_value :: "(string \<rightharpoonup> ty) \<Rightarrow> ce_val \<Rightarrow> ty option" where
  "ty_of_value tys v = Option.bind (value_ty_name v) tys"

text \<open>The single name of a path type; \<open>ty_of_typeref\<close> is \<open>None\<close> where resolving the name panics.\<close>

definition type_ref_name :: "type_ref \<Rightarrow> name option" where
  "type_ref_name t = (case t of TrPath p \<Rightarrow> as_name p | _ \<Rightarrow> None)"

definition ty_of_typeref :: "(string \<rightharpoonup> ty) \<Rightarrow> type_ref \<Rightarrow> (name \<Rightarrow> string option) \<Rightarrow> ty option option" where
  "ty_of_typeref tys t resolve = (case type_ref_name t of Some n \<Rightarrow> map_option tys (resolve n) | None \<Rightarrow> Some None)"

text \<open>Whether the check of a cast refuses it; it needs the type context, the interner and both types.\<close>

definition cast_refused :: "const_env \<Rightarrow> ce_val \<Rightarrow> ty option \<Rightarrow> type_ref \<Rightarrow> bool option" where
  "cast_refused env v from_ty t =
    (case (cn_types env, cn_interner env) of
       (Some (ctx, tys), Some resolve) \<Rightarrow>
         Option.bind (ty_of_typeref tys t resolve) (\<lambda>target.
           case (case from_ty of Some f \<Rightarrow> Some f | None \<Rightarrow> ty_of_value tys v, target) of
             (Some f, Some to_ty) \<Rightarrow> map_option Not (is_valid_cast ctx f to_ty)
           | _ \<Rightarrow> Some False)
     | _ \<Rightarrow> Some False)"

definition cast_to_name :: "const_floats \<Rightarrow> ce_val \<Rightarrow> string \<Rightarrow> span \<Rightarrow> ce_value" where
  "cast_to_name fo v n sp =
    (let int_to = (\<lambda>f t. ok_or (map_option (\<lambda>x. CvInt (f x) t) (as_i128 v)) (ce_err CmCast sp));
         uint_to = (\<lambda>f t. ok_or (map_option (\<lambda>x. CvUint (f x) t) (as_u128 v)) (ce_err CmCast sp));
         float_to = (\<lambda>f t. ok_or (map_option (\<lambda>x. CvFloatBits (f x) t) (as_f64 v)) (ce_err CmCast sp))
     in if n = ''i8'' then int_to (\<lambda>x. scast (ucast x :: 8 word)) I8
        else if n = ''i16'' then int_to (\<lambda>x. scast (ucast x :: 16 word)) I16
        else if n = ''i32'' then int_to (\<lambda>x. scast (ucast x :: 32 word)) I32
        else if n = ''i64'' then int_to (\<lambda>x. scast (ucast x :: 64 word)) I64
        else if n = ''u8'' then uint_to (\<lambda>x. ucast (ucast x :: 8 word)) U8
        else if n = ''u16'' then uint_to (\<lambda>x. ucast (ucast x :: 16 word)) U16
        else if n = ''u32'' then uint_to (\<lambda>x. ucast (ucast x :: 32 word)) U32
        else if n = ''u64'' then uint_to (\<lambda>x. ucast (ucast x :: 64 word)) U64
        else if n = ''f32'' then float_to (cf_to_f32 fo) F32
        else if n = ''f64'' then float_to (\<lambda>x. x) F64
        else if n = ''bool'' then Inr (CvBool (case as_i128 v of Some x \<Rightarrow> x \<noteq> 0 | None \<Rightarrow> False))
        else Inl (ce_err CmCastTarget sp))"

definition eval_const_cast :: "const_env \<Rightarrow> ce_val \<Rightarrow> ty option \<Rightarrow> type_ref \<Rightarrow> span \<Rightarrow> ce_val ce" where
  "eval_const_cast env v from_ty t sp =
    ce_bind (ce_some (cast_refused env v from_ty t)) (\<lambda>refused.
      if refused then ce_fail CmIllegalCast sp
      else case t of
             TrPath p \<Rightarrow>
               (case as_name p of
                  Some n \<Rightarrow>
                    ce_bind (ce_some ((case cn_interner env of Some resolve \<Rightarrow> resolve | None \<Rightarrow> cn_fallback env) n)) (\<lambda>s.
                      ce_lift (cast_to_name (cn_floats env) v s sp))
                | None \<Rightarrow> ce_fail CmCast sp)
           | _ \<Rightarrow> ce_fail CmCastTarget sp)"

subsection \<open>Patterns\<close>

text \<open>Patterns refer to one another by index, so the matcher recurses on fuel; running out of it is a pattern that
  contains itself, on which the code does not return.\<close>

primrec any_matches :: "(pat_id \<Rightarrow> ce_val \<Rightarrow> bool ce) \<Rightarrow> pat_id list \<Rightarrow> ce_val \<Rightarrow> bool ce" where
  "any_matches matches [] v = ce_return False"
| "any_matches matches (p # ps) v = ce_bind (matches p v) (\<lambda>b. if b then ce_return True else any_matches matches ps v)"

primrec all_match :: "(pat_id \<Rightarrow> ce_val \<Rightarrow> bool ce) \<Rightarrow> (pat_id \<times> ce_val) list \<Rightarrow> bool ce" where
  "all_match matches [] = ce_return True"
| "all_match matches (pv # pvs) =
    ce_bind (matches (fst pv) (snd pv)) (\<lambda>b. if b then all_match matches pvs else ce_return False)"

definition match_lists :: "(pat_id \<Rightarrow> ce_val \<Rightarrow> bool ce) \<Rightarrow> pat_id list \<Rightarrow> ce_val list \<Rightarrow> bool ce" where
  "match_lists matches ps vs = (if length ps \<noteq> length vs then ce_return False else all_match matches (zip ps vs))"

definition match_range :: "literal option \<Rightarrow> literal option \<Rightarrow> bool \<Rightarrow> ce_val \<Rightarrow> ce_error + bool" where
  "match_range start finish inclusive v =
    (case (start, finish) of
       (Some s, Some e) \<Rightarrow>
         rbind (negated (compare_lt span_DUMMY v (eval_literal s))) (\<lambda>ge_start.
         rbind (if inclusive then negated (compare_lt span_DUMMY (eval_literal e) v)
                else compare_lt span_DUMMY v (eval_literal e)) (\<lambda>le_end.
         Inr (ge_start \<and> le_end)))
     | _ \<Rightarrow> Inr False)"

definition match_pat :: "(pat_id \<Rightarrow> ce_val \<Rightarrow> bool ce) \<Rightarrow> pat \<Rightarrow> ce_val \<Rightarrow> bool ce" where
  "match_pat matches p v =
    (case p of
       PWild \<Rightarrow> ce_return True
     | PLiteral l \<Rightarrow> ce_return (eval_literal l = v)
     | POr ps \<Rightarrow> any_matches matches ps v
     | PTuple ps \<Rightarrow> (case v of CvTuple vs \<Rightarrow> match_lists matches ps vs | _ \<Rightarrow> ce_return False)
     | PBinding n _ _ \<Rightarrow> ce_bind (bind_name n v) (\<lambda>_. ce_return True)
     | PStruct _ fs _ \<Rightarrow> (case v of CvStruct vs \<Rightarrow> match_lists matches (map snd fs) (map snd vs) | _ \<Rightarrow> ce_return False)
     | PPath path \<Rightarrow>
         (case as_name path of
            Some n \<Rightarrow> ce_bind (lookup_name n) (\<lambda>r. ce_return (r = Some v))
          | None \<Rightarrow> ce_return False)
     | PSlice ps \<Rightarrow> (case v of CvArray vs \<Rightarrow> match_lists matches ps vs | _ \<Rightarrow> ce_return False)
     | PRange s e inclusive \<Rightarrow> ce_lift (match_range s e inclusive v)
     | PErr \<Rightarrow> ce_return False)"

primrec pattern_matches :: "nat \<Rightarrow> hir_body \<Rightarrow> pat_id \<Rightarrow> ce_val \<Rightarrow> bool ce" where
  "pattern_matches 0 body p v = (\<lambda>st. None)"
| "pattern_matches (Suc n) body p v =
    ce_bind (ce_some (get (hb_pats body) (unat p))) (\<lambda>pat. match_pat (pattern_matches n body) pat v)"

subsection \<open>Expressions\<close>

text \<open>\<open>ev\<close> is \<open>evaluate_at_depth\<close> at the next depth, \<open>pm\<close> is \<open>pattern_matches\<close>.\<close>

type_synonym ev = "expr_id \<Rightarrow> ce_val ce"
type_synonym pm = "pat_id \<Rightarrow> ce_val \<Rightarrow> bool ce"

primrec eval_exprs :: "ev \<Rightarrow> expr_id list \<Rightarrow> ce_val list ce" where
  "eval_exprs ev [] = ce_return []"
| "eval_exprs ev (e # es) = ce_bind (ev e) (\<lambda>v. ce_bind (eval_exprs ev es) (\<lambda>vs. ce_return (v # vs)))"

definition eval_opt :: "ev \<Rightarrow> expr_id option \<Rightarrow> ce_val option ce" where
  "eval_opt ev e = (case e of Some i \<Rightarrow> ce_bind (ev i) (\<lambda>v. ce_return (Some v)) | None \<Rightarrow> ce_return None)"

definition eval_or_unit :: "ev \<Rightarrow> expr_id option \<Rightarrow> ce_val ce" where
  "eval_or_unit ev e = (case e of Some i \<Rightarrow> ev i | None \<Rightarrow> ce_return CvUnit)"

definition eval_binary :: "const_env \<Rightarrow> ev \<Rightarrow> bin_op \<Rightarrow> expr_id \<Rightarrow> expr_id \<Rightarrow> span \<Rightarrow> ce_val ce" where
  "eval_binary env ev op lhs rhs sp =
    ce_bind (ev lhs) (\<lambda>l. ce_bind (ev rhs) (\<lambda>r. ce_lift (apply_binop (cn_floats env) (cn_pointer_width env) op l r sp)))"

definition eval_unary :: "const_env \<Rightarrow> ev \<Rightarrow> un_op \<Rightarrow> expr_id \<Rightarrow> span \<Rightarrow> ce_val ce" where
  "eval_unary env ev op e sp = ce_bind (ev e) (\<lambda>v. ce_lift (apply_unop (cn_floats env) (cn_pointer_width env) op v sp))"

definition eval_if :: "ev \<Rightarrow> expr_id \<Rightarrow> expr_id \<Rightarrow> expr_id option \<Rightarrow> span \<Rightarrow> ce_val ce" where
  "eval_if ev cond then_id else_id sp =
    ce_bind (ev cond) (\<lambda>c. ce_bind (ce_lift (ok_or (as_bool c) (ce_err CmIfCond sp))) (\<lambda>b.
      if b then ev then_id else eval_or_unit ev else_id))"

primrec eval_arms :: "ev \<Rightarrow> pm \<Rightarrow> match_arm list \<Rightarrow> ce_val \<Rightarrow> span \<Rightarrow> ce_val ce" where
  "eval_arms ev pm [] v sp = ce_fail CmMatch sp"
| "eval_arms ev pm (arm # arms) v sp =
    ce_bind (pm (ma_pat arm) v) (\<lambda>b. if b then ev (ma_body arm) else eval_arms ev pm arms v sp)"

definition eval_match :: "ev \<Rightarrow> pm \<Rightarrow> expr_id \<Rightarrow> match_arm list \<Rightarrow> span \<Rightarrow> ce_val ce" where
  "eval_match ev pm scrutinee arms sp = ce_bind (ev scrutinee) (\<lambda>v. eval_arms ev pm arms v sp)"

primrec eval_stmts :: "ev \<Rightarrow> expr_id list \<Rightarrow> unit ce" where
  "eval_stmts ev [] = ce_return ()"
| "eval_stmts ev (e # es) = ce_bind (ev e) (\<lambda>_. eval_stmts ev es)"

definition eval_block :: "ev \<Rightarrow> expr_id list \<Rightarrow> expr_id option \<Rightarrow> ce_val ce" where
  "eval_block ev stmts tail =
    ce_bind push_scope (\<lambda>_. ce_bind (eval_stmts ev stmts) (\<lambda>_. then_pop (eval_or_unit ev tail)))"

definition MAX_ITERS :: nat where "MAX_ITERS = 1000000"
definition MAX_FOR_ITERS :: nat where "MAX_FOR_ITERS = 1000000"
definition MAX_EVAL_DEPTH :: nat where "MAX_EVAL_DEPTH = 128"

primrec while_iters :: "nat \<Rightarrow> ev \<Rightarrow> expr_id \<Rightarrow> expr_id \<Rightarrow> span \<Rightarrow> ce_val ce" where
  "while_iters 0 ev cond body sp = ce_fail CmWhileLimit sp"
| "while_iters (Suc k) ev cond body sp =
    ce_bind (ev cond) (\<lambda>c. ce_bind (ce_lift (ok_or (as_bool c) (ce_err CmWhileCond sp))) (\<lambda>b.
      if \<not> b then ce_bind (signal_loop None) (\<lambda>_. ce_return CvUnit)
      else ce_bind (ev body) (\<lambda>_. ce_bind take_loop (\<lambda>lc.
             if lc = Some LcBreak then ce_return CvUnit else while_iters k ev cond body sp))))"

definition eval_while :: "ev \<Rightarrow> expr_id \<Rightarrow> expr_id \<Rightarrow> span \<Rightarrow> ce_val ce" where
  "eval_while = while_iters MAX_ITERS"

primrec loop_iters :: "nat \<Rightarrow> ev \<Rightarrow> expr_id \<Rightarrow> span \<Rightarrow> ce_val ce" where
  "loop_iters 0 ev body sp = ce_fail CmLoopLimit sp"
| "loop_iters (Suc k) ev body sp =
    ce_bind (ev body) (\<lambda>_. ce_bind take_loop (\<lambda>lc.
      if lc = Some LcBreak then ce_return CvUnit else loop_iters k ev body sp))"

definition eval_loop :: "ev \<Rightarrow> expr_id \<Rightarrow> span \<Rightarrow> ce_val ce" where
  "eval_loop = loop_iters MAX_ITERS"

text \<open>The elements of an iterable.  A range produces at most \<open>budget + 1\<close> elements and then stops without an error; the
  successor saturates, so a range that ends in the largest \<open>i128\<close> repeats it up to the budget.\<close>

definition i128_saturating_succ :: "i128 \<Rightarrow> i128" where
  "i128_saturating_succ i = (if sint i = 2 ^ 127 - 1 then i else i + 1)"

primrec range_elements :: "nat \<Rightarrow> bool \<Rightarrow> (i128 \<Rightarrow> ce_val) \<Rightarrow> i128 \<Rightarrow> i128 \<Rightarrow> ce_val list" where
  "range_elements 0 inclusive mk i e = []"
| "range_elements (Suc k) inclusive mk i e =
    (if (if inclusive then sint i \<le> sint e else sint i < sint e)
     then mk i # range_elements k inclusive mk (i128_saturating_succ i) e else [])"

definition range_value :: "ce_val option \<Rightarrow> i128 \<Rightarrow> ce_val" where
  "range_value proto i =
    (case proto of Some (CvInt _ t) \<Rightarrow> CvInt i t | Some (CvUint _ t) \<Rightarrow> CvUint i t | _ \<Rightarrow> CvInt i I32)"

definition materialize_elements :: "ce_val \<Rightarrow> nat \<Rightarrow> span \<Rightarrow> ce_error + ce_val list" where
  "materialize_elements v budget sp =
    (case v of
       CvRange start finish inclusive \<Rightarrow>
         (case (Option.bind start as_i128, Option.bind finish as_i128) of
            (Some s, Some e) \<Rightarrow>
              Inr (range_elements (budget + 1) inclusive (range_value (case start of Some x \<Rightarrow> Some x | None \<Rightarrow> finish)) s e)
          | _ \<Rightarrow> Inl (ce_err CmForBounds sp))
     | CvArray vs \<Rightarrow> Inr vs
     | CvTuple vs \<Rightarrow> Inr vs
     | _ \<Rightarrow> Inl (ce_err CmForIterable sp))"

primrec for_elements :: "ev \<Rightarrow> pm \<Rightarrow> pat_id \<Rightarrow> expr_id \<Rightarrow> ce_val list \<Rightarrow> ce_val ce" where
  "for_elements ev pm p body [] = ce_return CvUnit"
| "for_elements ev pm p body (v # vs) =
    ce_bind (pm p v) (\<lambda>_. ce_bind (ev body) (\<lambda>_. ce_bind take_loop (\<lambda>lc.
      if lc = Some LcBreak then ce_return CvUnit else for_elements ev pm p body vs)))"

definition eval_for :: "ev \<Rightarrow> pm \<Rightarrow> pat_id \<Rightarrow> expr_id \<Rightarrow> expr_id \<Rightarrow> span \<Rightarrow> ce_val ce" where
  "eval_for ev pm p iterable body sp =
    ce_bind (ev iterable) (\<lambda>it. ce_bind (ce_lift (materialize_elements it MAX_FOR_ITERS sp)) (\<lambda>vs.
      for_elements ev pm p body vs))"

primrec bind_params :: "pm \<Rightarrow> (pat_id \<times> ce_val) list \<Rightarrow> unit ce" where
  "bind_params pm [] = ce_return ()"
| "bind_params pm (pv # pvs) = ce_bind (pm (fst pv) (snd pv)) (\<lambda>_. bind_params pm pvs)"

definition bind_and_eval :: "ev \<Rightarrow> pm \<Rightarrow> pat_id list \<Rightarrow> expr_id \<Rightarrow> ce_val list \<Rightarrow> ce_val ce" where
  "bind_and_eval ev pm params body vs =
    ce_bind push_scope (\<lambda>_. ce_bind (bind_params pm (zip params vs)) (\<lambda>_. then_pop (ev body)))"

definition eval_closure_call :: "ev \<Rightarrow> pm \<Rightarrow> pat_id list \<Rightarrow> expr_id \<Rightarrow> expr_id list \<Rightarrow> span \<Rightarrow> ce_val ce" where
  "eval_closure_call ev pm params body args sp =
    (if length params \<noteq> length args then ce_fail (CmArity (length args) (length params)) sp
     else ce_bind (eval_exprs ev args) (bind_and_eval ev pm params body))"

definition eval_user_const_fn :: "ev \<Rightarrow> pm \<Rightarrow> body_fn \<Rightarrow> ce_val list \<Rightarrow> span \<Rightarrow> ce_val ce" where
  "eval_user_const_fn ev pm f vs sp =
    (if length (bf_params f) \<noteq> length vs then ce_fail (CmArity (length vs) (length (bf_params f))) sp
     else bind_and_eval ev pm (bf_params f) (bf_body f) vs)"

definition resolve_const_fn :: "const_env \<Rightarrow> name \<Rightarrow> span \<Rightarrow> const_fn ce" where
  "resolve_const_fn env n sp =
    ce_bind (ce_lift (ok_or (cn_interner env) (ce_err CmNoInterner sp))) (\<lambda>resolve.
    ce_bind (ce_some (resolve n)) (\<lambda>s.
    ce_lift (ok_or (const_fn_from_name s) (ce_err (CmUnknownFn s) sp))))"

definition eval_call :: "const_env \<Rightarrow> ev \<Rightarrow> pm \<Rightarrow> expr_id \<Rightarrow> expr_id list \<Rightarrow> span \<Rightarrow> ce_val ce" where
  "eval_call env ev pm func args sp =
    ce_bind (ce_some (get (hb_exprs (cn_body env)) (unat func))) (\<lambda>callee.
      case callee of
        EClosure params body _ \<Rightarrow> eval_closure_call ev pm params body args sp
      | EPath p \<Rightarrow>
          (case as_name p of
             None \<Rightarrow> ce_fail CmCallee sp
           | Some n \<Rightarrow>
               ce_bind (eval_exprs ev args) (\<lambda>vs.
                 case cn_const_fns env n of
                   Some f \<Rightarrow> eval_user_const_fn ev pm f vs sp
                 | None \<Rightarrow> ce_bind (resolve_const_fn env n sp) (\<lambda>f. ce_lift (apply_const_fn (cn_floats env) f vs sp))))
      | _ \<Rightarrow> ce_fail CmCallee sp)"

definition eval_method_call :: "const_env \<Rightarrow> ev \<Rightarrow> expr_id \<Rightarrow> name \<Rightarrow> expr_id list \<Rightarrow> span \<Rightarrow> ce_val ce" where
  "eval_method_call env ev receiver method args sp =
    ce_bind (ev receiver) (\<lambda>v. ce_bind (resolve_const_fn env method sp) (\<lambda>f. ce_bind (eval_exprs ev args) (\<lambda>vs.
      ce_lift (apply_const_fn (cn_floats env) f (v # vs) sp))))"

definition eval_field :: "ev \<Rightarrow> expr_id \<Rightarrow> name \<Rightarrow> span \<Rightarrow> ce_val ce" where
  "eval_field ev receiver field sp =
    ce_bind (ev receiver) (\<lambda>v.
      case v of
        CvStruct fs \<Rightarrow> ce_lift (ok_or (map_option snd (List.find (\<lambda>f. fst f = field) fs)) (ce_err CmFieldMissing sp))
      | _ \<Rightarrow> ce_fail CmFieldBase sp)"

definition eval_index :: "ev \<Rightarrow> expr_id \<Rightarrow> expr_id \<Rightarrow> span \<Rightarrow> ce_val ce" where
  "eval_index ev base index sp =
    ce_bind (ev base) (\<lambda>b. ce_bind (ev index) (\<lambda>i.
      ce_lift (rbind (ok_or (as_u128 i) (ce_err CmIndexType sp)) (\<lambda>idx.
        case b of
          CvArray vs \<Rightarrow> ok_or (get vs (unat (ucast idx :: u64))) (ce_err CmIndexBounds sp)
        | CvTuple vs \<Rightarrow> ok_or (get vs (unat (ucast idx :: u64))) (ce_err CmIndexBounds sp)
        | _ \<Rightarrow> Inl (ce_err CmIndexBase sp)))))"

definition eval_assign :: "const_env \<Rightarrow> ev \<Rightarrow> expr_id \<Rightarrow> expr_id \<Rightarrow> span \<Rightarrow> ce_val ce" where
  "eval_assign env ev lhs rhs sp =
    ce_bind (ev rhs) (\<lambda>v. ce_bind (ce_some (get (hb_exprs (cn_body env)) (unat lhs))) (\<lambda>target.
      case (case target of EPath p \<Rightarrow> as_name p | _ \<Rightarrow> None) of
        Some n \<Rightarrow> ce_bind (assign_name n v) (\<lambda>_. ce_return CvUnit)
      | None \<Rightarrow> ce_fail CmAssign sp))"

definition eval_let :: "const_env \<Rightarrow> ev \<Rightarrow> pat_id \<Rightarrow> expr_id \<Rightarrow> ce_val ce" where
  "eval_let env ev p e =
    ce_bind (ev e) (\<lambda>v. ce_bind (ce_some (get (hb_pats (cn_body env)) (unat p))) (\<lambda>pat.
      case pat of
        PBinding n _ _ \<Rightarrow> ce_bind (assign_name n v) (\<lambda>_. ce_return CvUnit)
      | _ \<Rightarrow> ce_return CvUnit))"

definition eval_path :: "hir_path \<Rightarrow> span \<Rightarrow> ce_val ce" where
  "eval_path p sp =
    (case as_name p of
       Some n \<Rightarrow> ce_bind (lookup_name n) (\<lambda>r. ce_lift (ok_or r (ce_err CmPath sp)))
     | None \<Rightarrow> ce_fail CmPath sp)"

definition eval_expr :: "const_env \<Rightarrow> ev \<Rightarrow> pm \<Rightarrow> expr \<Rightarrow> span \<Rightarrow> ce_val ce" where
  "eval_expr env ev pm e sp =
    (case e of
       ELiteral l \<Rightarrow> ce_return (eval_literal l)
     | EBinary op l r \<Rightarrow> eval_binary env ev op l r sp
     | EUnary op x \<Rightarrow> eval_unary env ev op x sp
     | EIf c t f \<Rightarrow> eval_if ev c t f sp
     | EMatch s arms \<Rightarrow> eval_match ev pm s arms sp
     | EBlock stmts tail \<Rightarrow> eval_block ev stmts tail
     | ETuple es \<Rightarrow> (if es = [] then ce_return CvUnit else ce_bind (eval_exprs ev es) (\<lambda>vs. ce_return (CvTuple vs)))
     | EPath p \<Rightarrow> eval_path p sp
     | EField x field \<Rightarrow> eval_field ev x field sp
     | EIndex b i \<Rightarrow> eval_index ev b i sp
     | EArray es \<Rightarrow> ce_bind (eval_exprs ev es) (\<lambda>vs. ce_return (CvArray vs))
     | EStruct _ fs _ \<Rightarrow> ce_bind (eval_exprs ev (map snd fs)) (\<lambda>vs. ce_return (CvStruct (zip (map fst fs) vs)))
     | ECast x t \<Rightarrow> ce_bind (ev x) (\<lambda>v. eval_const_cast env v None t sp)
     | ERef x _ \<Rightarrow> ev x
     | EAssign l r \<Rightarrow> eval_assign env ev l r sp
     | ELet p x \<Rightarrow> eval_let env ev p x
     | ECall f args \<Rightarrow> eval_call env ev pm f args sp
     | EMethodCall x m args \<Rightarrow> eval_method_call env ev x m args sp
     | EMissing \<Rightarrow> ce_fail CmMissing sp
     | EErr \<Rightarrow> ce_fail CmErr sp
     | EAwait _ \<Rightarrow> ce_fail CmAwait sp
     | EReturn x \<Rightarrow> eval_or_unit ev x
     | EBreak _ \<Rightarrow> ce_bind (signal_loop (Some LcBreak)) (\<lambda>_. ce_return CvUnit)
     | EContinue \<Rightarrow> ce_bind (signal_loop (Some LcContinue)) (\<lambda>_. ce_return CvUnit)
     | EClosure _ _ _ \<Rightarrow> ce_fail CmClosure sp
     | ERange s f inclusive \<Rightarrow>
         ce_bind (eval_opt ev s) (\<lambda>a. ce_bind (eval_opt ev f) (\<lambda>b. ce_return (CvRange a b inclusive)))
     | EWhile c body \<Rightarrow> eval_while ev c body sp
     | ELoop body \<Rightarrow> eval_loop ev body sp
     | EFor p x body \<Rightarrow> eval_for ev pm p x body sp)"

definition expr_span :: "hir_body \<Rightarrow> expr_id \<Rightarrow> span" where
  "expr_span body e = (case get (hb_expr_spans body) (unat e) of Some s \<Rightarrow> s | None \<Rightarrow> span_DUMMY)"

text \<open>\<open>evaluate_at_depth\<close> with \<open>n\<close> levels left; with none the code refuses before it looks at the expression's kind.\<close>

primrec evaluate_left :: "nat \<Rightarrow> const_env \<Rightarrow> expr_id \<Rightarrow> ce_val ce" where
  "evaluate_left 0 env e =
    ce_bind (ce_some (get (hb_exprs (cn_body env)) (unat e))) (\<lambda>_. ce_fail CmRecursionLimit (expr_span (cn_body env) e))"
| "evaluate_left (Suc n) env e =
    ce_bind (ce_some (get (hb_exprs (cn_body env)) (unat e))) (\<lambda>x.
      eval_expr env (evaluate_left n env) (pattern_matches (cn_pat_fuel env) (cn_body env)) x (expr_span (cn_body env) e))"

definition evaluate :: "const_env \<Rightarrow> expr_id \<Rightarrow> ce_val ce" where
  "evaluate = evaluate_left MAX_EVAL_DEPTH"

definition initial_state :: ce_state where
  "initial_state = \<lparr>cs_env = [Map.empty], cs_loop = None\<rparr>"

end
