(* ===== verification/Const_Eval_Props.thy ===== *)
theory Const_Eval_Props
  imports Const_Eval
begin

text \<open>
  What the constant evaluator guarantees: arithmetic is exact or refused, scopes are balanced and never lose a name, and
  on a well-formed body evaluation returns.  The scope discipline (\<open>keeps\<close>) and totality (\<open>completes\<close>) are predicates on
  computations with one rule for each combinator, collected in \<open>keeps_rules\<close> and \<open>total_rules\<close>.
\<close>

named_theorems keeps_rules
named_theorems total_rules

subsection \<open>Exact arithmetic\<close>

definition arithmetic_ops :: "bin_op set" where
  "arithmetic_ops = {Bin_Add, Bin_Sub, Bin_Mul, Bin_Div, Bin_Rem}"

definition exact_op :: "bin_op \<Rightarrow> int \<Rightarrow> int \<Rightarrow> int option" where
  "exact_op op a b =
    (case op of
       Bin_Add \<Rightarrow> Some (a + b)
     | Bin_Sub \<Rightarrow> Some (a - b)
     | Bin_Mul \<Rightarrow> Some (a * b)
     | Bin_Div \<Rightarrow> if b = 0 then None else Some (trunc_div a b)
     | Bin_Rem \<Rightarrow> if b = 0 then None else Some (trunc_rem a b)
     | _ \<Rightarrow> None)"

text \<open>The integer of type \<open>l\<close>'s type with the value \<open>z\<close>, whether it exists, and the value of an integer.\<close>

definition fits :: "nat \<Rightarrow> ce_val \<Rightarrow> int \<Rightarrow> bool" where
  "fits pw l z =
    (case l of
       CvInt _ t \<Rightarrow> - (2 ^ (int_bits pw t - 1)) \<le> z \<and> z < 2 ^ (int_bits pw t - 1)
     | CvUint _ t \<Rightarrow> 0 \<le> z \<and> z < 2 ^ uint_bits pw t
     | _ \<Rightarrow> False)"

definition const_int :: "ce_val \<Rightarrow> int option" where
  "const_int v = (case v of CvInt x _ \<Rightarrow> Some (sint x) | CvUint x _ \<Rightarrow> Some (uint x) | _ \<Rightarrow> None)"

definition same_int_type :: "ce_val \<Rightarrow> ce_val \<Rightarrow> bool" where
  "same_int_type l r =
    (case l of
       CvInt _ s \<Rightarrow> (case r of CvInt _ t \<Rightarrow> s = t | _ \<Rightarrow> False)
     | CvUint _ s \<Rightarrow> (case r of CvUint _ t \<Rightarrow> s = t | _ \<Rightarrow> False)
     | _ \<Rightarrow> False)"

lemma int_bits_le: "int_bits pw t - 1 \<le> 63" "0 < int_bits pw t"
  by (cases t; simp)+

lemma uint_bits_le: "uint_bits pw t \<le> 64"
  by (cases t) simp_all

lemma int_pow_mono: "m \<le> n \<Longrightarrow> (2 :: int) ^ m \<le> 2 ^ n"
  by (rule power_increasing) simp_all

lemma fits_int_128: "fits pw (CvInt x t) z \<Longrightarrow> - (2 ^ 127) \<le> z \<and> z < 2 ^ 127"
  using int_pow_mono [of "int_bits pw t - 1" 127] int_bits_le [of pw t] by (auto simp: fits_def)

lemma fits_uint_128: "fits pw (CvUint x t) z \<Longrightarrow> 0 \<le> z \<and> z < 2 ^ 128"
  using int_pow_mono [of "uint_bits pw t" 128] uint_bits_le [of pw t] by (auto simp: fits_def)

lemma sint_128: "- (2 ^ 127) \<le> z \<Longrightarrow> z < 2 ^ 127 \<Longrightarrow> sint (word_of_int z :: i128) = z"
  by (simp add: signed_take_bit_int_eq_self sint_sbintrunc')

lemma uint_128: "0 \<le> z \<Longrightarrow> z < 2 ^ 128 \<Longrightarrow> uint (word_of_int z :: u128) = z"
  by (simp add: uint_word_of_int)

lemma word128_zero: "sint b = 0 \<longleftrightarrow> b = 0" "uint b = 0 \<longleftrightarrow> b = 0" for b :: "128 word"
  by (simp_all add: signed_eq_0_iff unsigned_eq_0_iff)

lemma validate_int: "validate_range pw (CvInt x t) = (if fits pw (CvInt x t) (sint x) then Some (CvInt x t) else None)"
  by (auto simp: fits_def)

lemma validate_uint: "validate_range pw (CvUint x t) = (if fits pw (CvUint x t) (uint x) then Some (CvUint x t) else None)"
  by (auto simp: fits_def)

declare validate_range.simps [simp del]

text \<open>A checked 128-bit operation followed by the range check accepts exactly the results that fit.\<close>

lemma validated_int:
  "validated pw op sp (map_option (\<lambda>v. CvInt v t) (checked_int z)) = Inr v \<longleftrightarrow> fits pw (CvInt 0 t) z \<and> v = CvInt (word_of_int z) t"
  (is "?l = _ \<longleftrightarrow> _")
proof (cases "- (2 ^ 127) \<le> z \<and> z < 2 ^ 127")
  case True
  then have s: "sint (word_of_int z :: i128) = z" by (simp add: sint_128)
  have "fits pw (CvInt (word_of_int z) t) z = fits pw (CvInt 0 t) z" by (simp add: fits_def)
  with True s show ?thesis by (auto simp: validated_def checked_int_def validate_int result_simps)
next
  case False
  then have "\<not> fits pw (CvInt 0 t) z" using fits_int_128 by blast
  with False show ?thesis by (auto simp: validated_def checked_int_def)
qed

lemma validated_uint:
  "validated pw op sp (map_option (\<lambda>v. CvUint v t) (checked_uint z)) = Inr v \<longleftrightarrow> fits pw (CvUint 0 t) z \<and> v = CvUint (word_of_int z) t"
proof (cases "0 \<le> z \<and> z < 2 ^ 128")
  case True
  then have s: "uint (word_of_int z :: u128) = z" by (simp add: uint_128)
  have "fits pw (CvUint (word_of_int z) t) z = fits pw (CvUint 0 t) z" by (simp add: fits_def)
  with True s show ?thesis by (auto simp: validated_def checked_uint_def validate_uint result_simps)
next
  case False
  then have "\<not> fits pw (CvUint 0 t) z" using fits_uint_128 by blast
  with False show ?thesis by (auto simp: validated_def checked_uint_def)
qed

text \<open>Division and remainder of the operands of a type stay within 128 bits.\<close>

lemma trunc_rem_bound: "b \<noteq> 0 \<Longrightarrow> \<bar>trunc_rem a b\<bar> < \<bar>b\<bar>"
  by (auto simp: trunc_rem_def abs_mult sgn_if)

lemma trunc_rem_int:
  assumes "b \<noteq> 0" "- (2 ^ 127) \<le> b" "b < 2 ^ 127"
  shows "checked_int (trunc_rem a b) = Some (word_of_int (trunc_rem a b))"
  using trunc_rem_bound [OF assms(1), of a] assms by (auto simp: checked_int_def)

lemma checked_uint_div: "b \<noteq> 0 \<Longrightarrow> checked_uint (trunc_div (uint a) (uint b)) = Some (a div (b :: u128))"
proof -
  assume "b \<noteq> 0"
  then have b: "0 < uint b" using unsigned_eq_0_iff [of b] by (simp add: order_less_le)
  have "trunc_div (uint a) (uint b) = uint (a div b)" using b by (auto simp: trunc_div_def sgn_if uint_div)
  then show ?thesis using uint_lt2p [of "a div b"] by (simp add: checked_uint_def)
qed

lemma checked_uint_rem: "b \<noteq> 0 \<Longrightarrow> checked_uint (trunc_rem (uint a) (uint b)) = Some (a mod (b :: u128))"
proof -
  assume "b \<noteq> 0"
  then have b: "0 < uint b" using unsigned_eq_0_iff [of b] by (simp add: order_less_le)
  have "trunc_rem (uint a) (uint b) = uint (a mod b)"
    using b order_le_less [of 0 "uint a"] by (auto simp: trunc_rem_def sgn_if uint_mod)
  then show ?thesis using uint_lt2p [of "a mod b"] by (simp add: checked_uint_def)
qed

text \<open>A division that the code refuses for its zero divisor.\<close>

lemma div_rem_uint:
  "validated pw op sp (checked_div fo (CvUint a t) (CvUint b t)) = Inr v \<longleftrightarrow>
   b \<noteq> 0 \<and> fits pw (CvUint 0 t) (trunc_div (uint a) (uint b)) \<and> v = CvUint (word_of_int (trunc_div (uint a) (uint b))) t"
  "validated pw op sp (checked_rem fo (CvUint a t) (CvUint b t)) = Inr v \<longleftrightarrow>
   b \<noteq> 0 \<and> fits pw (CvUint 0 t) (trunc_rem (uint a) (uint b)) \<and> v = CvUint (word_of_int (trunc_rem (uint a) (uint b))) t"
proof -
  have none: "validated pw op sp None \<noteq> Inr v" by (simp add: validated_def)
  show "validated pw op sp (checked_div fo (CvUint a t) (CvUint b t)) = Inr v \<longleftrightarrow>
      b \<noteq> 0 \<and> fits pw (CvUint 0 t) (trunc_div (uint a) (uint b)) \<and> v = CvUint (word_of_int (trunc_div (uint a) (uint b))) t"
    using validated_uint [of pw op sp t "trunc_div (uint a) (uint b)" v] none
    by (cases "b = 0") (simp_all add: checked_div_def checked_uint_div)
  show "validated pw op sp (checked_rem fo (CvUint a t) (CvUint b t)) = Inr v \<longleftrightarrow>
      b \<noteq> 0 \<and> fits pw (CvUint 0 t) (trunc_rem (uint a) (uint b)) \<and> v = CvUint (word_of_int (trunc_rem (uint a) (uint b))) t"
    using validated_uint [of pw op sp t "trunc_rem (uint a) (uint b)" v] none
    by (cases "b = 0") (simp_all add: checked_rem_def checked_uint_rem)
qed

lemma div_rem_int:
  assumes "fits pw (CvInt 0 t) (sint a)" "fits pw (CvInt 0 t) (sint b)"
  shows "validated pw op sp (checked_div fo (CvInt a t) (CvInt b t)) = Inr v \<longleftrightarrow>
      b \<noteq> 0 \<and> fits pw (CvInt 0 t) (trunc_div (sint a) (sint b)) \<and> v = CvInt (word_of_int (trunc_div (sint a) (sint b))) t"
    and "validated pw op sp (checked_rem fo (CvInt a t) (CvInt b t)) = Inr v \<longleftrightarrow>
      b \<noteq> 0 \<and> fits pw (CvInt 0 t) (trunc_rem (sint a) (sint b)) \<and> v = CvInt (word_of_int (trunc_rem (sint a) (sint b))) t"
proof -
  have none: "validated pw op sp None \<noteq> Inr v" by (simp add: validated_def)
  have "int_bits pw t - 1 \<le> 63" by (rule int_bits_le)
  then have small: "\<not> i128_div_overflows a b"
    using assms(1) int_pow_mono [of "int_bits pw t - 1" 63] by (auto simp: fits_def i128_div_overflows_def)
  have rem: "checked_int (trunc_rem (sint a) (sint b)) = Some (word_of_int (trunc_rem (sint a) (sint b)))" if "b \<noteq> 0"
    using trunc_rem_int [of "sint b" "sint a"] fits_int_128 [OF assms(2)] that by (simp add: word128_zero)
  show "validated pw op sp (checked_div fo (CvInt a t) (CvInt b t)) = Inr v \<longleftrightarrow>
      b \<noteq> 0 \<and> fits pw (CvInt 0 t) (trunc_div (sint a) (sint b)) \<and> v = CvInt (word_of_int (trunc_div (sint a) (sint b))) t"
    using validated_int [of pw op sp t "trunc_div (sint a) (sint b)" v] none
    by (cases "b = 0") (simp_all add: checked_div_def)
  show "validated pw op sp (checked_rem fo (CvInt a t) (CvInt b t)) = Inr v \<longleftrightarrow>
      b \<noteq> 0 \<and> fits pw (CvInt 0 t) (trunc_rem (sint a) (sint b)) \<and> v = CvInt (word_of_int (trunc_rem (sint a) (sint b))) t"
    using validated_int [of pw op sp t "trunc_rem (sint a) (sint b)" v] none small rem
    by (cases "b = 0") (simp_all add: checked_rem_def)
qed

definition exact_result :: "nat \<Rightarrow> bin_op \<Rightarrow> ce_val \<Rightarrow> ce_val \<Rightarrow> ce_val \<Rightarrow> bool" where
  "exact_result pw op l r v \<longleftrightarrow>
    same_int_type l v \<and>
    (\<exists>a b z. const_int l = Some a \<and> const_int r = Some b \<and> exact_op op a b = Some z \<and> fits pw l z \<and> const_int v = Some z)"

lemma exact_result_int:
  "exact_result pw op (CvInt a t) (CvInt b t) v \<longleftrightarrow>
   (\<exists>z. exact_op op (sint a) (sint b) = Some z \<and> fits pw (CvInt 0 t) z \<and> v = CvInt (word_of_int z) t)" (is "?l \<longleftrightarrow> ?r")
proof
  assume ?l
  then show ?r by (auto simp: exact_result_def const_int_def same_int_type_def fits_def split: ce_val.splits)
next
  assume ?r
  then obtain z where z: "exact_op op (sint a) (sint b) = Some z" "fits pw (CvInt 0 t) z" "v = CvInt (word_of_int z) t" by blast
  then have "sint (word_of_int z :: i128) = z" using fits_int_128 sint_128 by blast
  with z show ?l by (auto simp: exact_result_def const_int_def same_int_type_def fits_def)
qed

lemma exact_result_uint:
  "exact_result pw op (CvUint a t) (CvUint b t) v \<longleftrightarrow>
   (\<exists>z. exact_op op (uint a) (uint b) = Some z \<and> fits pw (CvUint 0 t) z \<and> v = CvUint (word_of_int z) t)" (is "?l \<longleftrightarrow> ?r")
proof
  assume ?l
  then show ?r by (auto simp: exact_result_def const_int_def same_int_type_def fits_def split: ce_val.splits)
next
  assume ?r
  then obtain z where z: "exact_op op (uint a) (uint b) = Some z" "fits pw (CvUint 0 t) z" "v = CvUint (word_of_int z) t" by blast
  then have "uint (word_of_int z :: u128) = z" using fits_uint_128 uint_128 by blast
  with z show ?l by (auto simp: exact_result_def const_int_def same_int_type_def fits_def)
qed

lemma check_div_by_zero_eq:
  "rbind (check_div_by_zero op sp (CvInt a s) (CvInt b t)) f = Inr v \<longleftrightarrow> b \<noteq> 0 \<and> f () = Inr v"
  "rbind (check_div_by_zero op sp (CvUint a s') (CvUint b t')) f = Inr v \<longleftrightarrow> b \<noteq> 0 \<and> f () = Inr v"
  by (simp_all add: check_div_by_zero_def div_by_zero_def)

lemma apply_binop_int:
  assumes "op \<in> arithmetic_ops" "fits pw (CvInt 0 t) (sint a)" "fits pw (CvInt 0 t) (sint b)"
  shows "apply_binop fo pw op (CvInt a t) (CvInt b t) sp = Inr v \<longleftrightarrow> exact_result pw op (CvInt a t) (CvInt b t) v"
  using assms(1) div_rem_int [OF assms(2,3)]
  by (auto simp: arithmetic_ops_def apply_binop_def exact_op_def exact_result_int word128_zero check_div_by_zero_eq
      checked_add_def checked_sub_def checked_mul_def checked_op_def validated_int split: if_splits)

lemma apply_binop_uint:
  assumes "op \<in> arithmetic_ops"
  shows "apply_binop fo pw op (CvUint a t) (CvUint b t) sp = Inr v \<longleftrightarrow> exact_result pw op (CvUint a t) (CvUint b t) v"
  using assms
  by (auto simp: arithmetic_ops_def apply_binop_def exact_op_def exact_result_uint word128_zero check_div_by_zero_eq div_rem_uint
      checked_add_def checked_sub_def checked_mul_def checked_op_def validated_uint split: if_splits)

text \<open>
  C20. Compile-time integer arithmetic is exact or refused: for operands of one integer type that are in its range,
  \<open>apply_binop\<close> of \<open>+\<close>, \<open>-\<close>, \<open>*\<close>, \<open>/\<close> and \<open>%\<close> returns a value exactly when the mathematical result exists and lies
  in the range of the type for the target's pointer width, and then it returns that result with that type.  No result
  wraps, and no representable result is refused.
\<close>

theorem apply_binop_exact:
  assumes "op \<in> arithmetic_ops" "same_int_type l r"
    and "const_int l = Some a" "fits pw l a" "const_int r = Some b" "fits pw r b"
  shows "apply_binop fo pw op l r sp = Inr v \<longleftrightarrow> exact_result pw op l r v"
proof (cases l)
  case (CvInt x t)
  with assms(2) obtain y where r: "r = CvInt y t" by (auto simp: same_int_type_def split: ce_val.splits)
  have "fits pw (CvInt 0 t) (sint x)" "fits pw (CvInt 0 t) (sint y)"
    using assms(3-6) CvInt r by (auto simp: const_int_def fits_def)
  then show ?thesis using apply_binop_int [OF assms(1)] CvInt r by blast
next
  case (CvUint x t)
  with assms(2) obtain y where r: "r = CvUint y t" by (auto simp: same_int_type_def split: ce_val.splits)
  then show ?thesis using apply_binop_uint [OF assms(1)] CvUint by blast
qed (use assms(2) in \<open>simp_all add: same_int_type_def\<close>)

definition const_no_floats :: const_floats where
  "const_no_floats = \<lparr>fo_add = (\<lambda>_ _. 0), fo_sub = (\<lambda>_ _. 0), fo_mul = (\<lambda>_ _. 0), fo_div = (\<lambda>_ _. 0), fo_neg = (\<lambda>_. 0),
     fo_eq = (\<lambda>_ _. False), fo_lt = (\<lambda>_ _. False), fo_le = (\<lambda>_ _. False), cf_rem = (\<lambda>_ _. 0), cf_sqrt_uint = (\<lambda>_. 0),
     cf_sqrt_int = (\<lambda>_. 0), cf_to_f32 = (\<lambda>_. 0)\<rparr>"

theorem apply_binop_exact_witness:
  "exact_result 64 Bin_Add (CvInt 100 I8) (CvInt 27 I8) (CvInt 127 I8) \<and>
   apply_binop const_no_floats 64 Bin_Add (CvInt 100 I8) (CvInt 28 I8) span_DUMMY \<noteq> Inr (CvInt 128 I8)"
proof -
  have op: "Bin_Add \<in> arithmetic_ops" by (simp add: arithmetic_ops_def)
  have st: "same_int_type (CvInt 100 I8) (CvInt x I8)" for x by (simp add: same_int_type_def)
  have c: "const_int (CvInt 100 I8) = Some 100" "const_int (CvInt 27 I8) = Some 27" "const_int (CvInt 28 I8) = Some 28"
    by (simp_all add: const_int_def)
  have f: "fits 64 (CvInt 100 I8) 100" "fits 64 (CvInt 27 I8) 27" "fits 64 (CvInt 28 I8) 28" by (simp_all add: fits_def)
  have r: "apply_binop const_no_floats 64 Bin_Add (CvInt 100 I8) (CvInt 27 I8) span_DUMMY = Inr (CvInt 127 I8)" by code_simp
  have n: "\<not> exact_result 64 Bin_Add (CvInt 100 I8) (CvInt 28 I8) (CvInt 128 I8)"
    by (simp add: exact_result_def const_int_def exact_op_def fits_def)
  show ?thesis
    using apply_binop_exact [OF op st c(1) f(1) c(2) f(2), THEN iffD1, OF r]
      apply_binop_exact [OF op st c(1) f(1) c(3) f(3)] n by blast
qed

subsection \<open>Scopes\<close>

text \<open>How an evaluation may change the scopes: every scope keeps its names, a success leaves as many scopes as it found,
  an error may leave scopes behind.\<close>

definition grows :: "bool \<Rightarrow> (name \<rightharpoonup> ce_val) list \<Rightarrow> (name \<rightharpoonup> ce_val) list \<Rightarrow> bool" where
  "grows ok env env' \<longleftrightarrow>
    (\<exists>left scopes. env' = left @ scopes \<and> list_all2 (\<lambda>s s'. dom s \<subseteq> dom s') env scopes \<and> (ok \<longrightarrow> left = []))"

definition keeps :: "'a ce \<Rightarrow> bool" where
  "keeps m \<longleftrightarrow> (\<forall>st r st'. m st = Some (r, st') \<longrightarrow> grows (\<not> isl r) (cs_env st) (cs_env st'))"

definition completes :: "'a ce \<Rightarrow> bool" where
  "completes m \<longleftrightarrow> keeps m \<and> (\<forall>st. cs_env st \<noteq> [] \<longrightarrow> m st \<noteq> None)"

lemma grows_refl [simp]: "grows ok env env"
  by (force simp: grows_def intro: list.rel_refl)

lemma grows_nonempty: "grows ok env env' \<Longrightarrow> env \<noteq> [] \<Longrightarrow> env' \<noteq> []"
  by (cases env) (auto simp: grows_def list_all2_Cons1)

lemma subset_trans2: "list_all2 (\<lambda>s s'. dom s \<subseteq> dom s') a b \<Longrightarrow> list_all2 (\<lambda>s s'. dom s \<subseteq> dom s') b c \<Longrightarrow>
    list_all2 (\<lambda>s s'. dom s \<subseteq> dom s') a c"
  by (rule list_all2_trans [of "\<lambda>s s'. dom s \<subseteq> dom s'"]) auto

lemma grows_True: "grows True env env' \<longleftrightarrow> list_all2 (\<lambda>s s'. dom s \<subseteq> dom s') env env'"
  by (auto simp: grows_def)

lemma grows_trans:
  assumes "grows True env env'" "grows ok env' env''"
  shows "grows ok env env''"
proof -
  from assms(2) obtain left scopes
    where e: "env'' = left @ scopes" and s: "list_all2 (\<lambda>s s'. dom s \<subseteq> dom s') env' scopes" and l: "ok \<longrightarrow> left = []"
    by (auto simp only: grows_def)
  have "list_all2 (\<lambda>s s'. dom s \<subseteq> dom s') env scopes" using subset_trans2 [OF assms(1) [unfolded grows_True] s] .
  then show ?thesis unfolding grows_def using e l by (intro exI conjI)
qed

text \<open>Leaving the scope that was pushed.\<close>

lemma grows_pop:
  assumes "grows True (Map.empty # env) env1" "grows ok env1 env2"
  shows "grows ok env (tl env2)"
proof -
  from assms obtain s scopes where "env1 = s # scopes" and env: "list_all2 (\<lambda>s s'. dom s \<subseteq> dom s') env scopes"
    by (auto simp: grows_def list_all2_Cons1)
  with assms(2) obtain left s' scopes' where e2: "env2 = left @ s' # scopes'"
    and sc: "list_all2 (\<lambda>s s'. dom s \<subseteq> dom s') scopes scopes'" and l: "ok \<longrightarrow> left = []"
    by (auto simp: grows_def list_all2_Cons1)
  have all: "list_all2 (\<lambda>s s'. dom s \<subseteq> dom s') env scopes'" using subset_trans2 [OF env sc] .
  show ?thesis
  proof (cases left)
    case Nil
    with e2 all show ?thesis by (auto simp: grows_def)
  next
    case (Cons x xs)
    have "tl env2 = (xs @ [s']) @ scopes'" using e2 Cons by simp
    with Cons l all show ?thesis unfolding grows_def by blast
  qed
qed

lemma grows_push_error: "grows ok (Map.empty # env) env' \<Longrightarrow> grows False env env'"
proof -
  assume "grows ok (Map.empty # env) env'"
  then obtain left s scopes where "env' = (left @ [s]) @ scopes" "list_all2 (\<lambda>s s'. dom s \<subseteq> dom s') env scopes"
    by (auto simp: grows_def list_all2_Cons1)
  then show ?thesis unfolding grows_def by blast
qed

lemma keepsD: "keeps m \<Longrightarrow> m st = Some (r, st') \<Longrightarrow> grows (\<not> isl r) (cs_env st) (cs_env st')"
  by (simp add: keeps_def)

lemma totalD: "completes m \<Longrightarrow> cs_env st \<noteq> [] \<Longrightarrow> m st \<noteq> None"
  by (simp add: completes_def)

lemma total_keeps: "completes m \<Longrightarrow> keeps m"
  by (simp add: completes_def)

text \<open>Computations that leave the scopes alone.\<close>

lemma keeps_same [keeps_rules]:
  "keeps (ce_return x)" "keeps (ce_lift r)" "keeps (ce_fail msg sp)" "keeps (ce_some o')" "keeps (signal_loop lc)"
  "keeps take_loop" "keeps (lookup_name n)"
  by (auto simp: keeps_def ce_return_def ce_lift_def ce_fail_def ce_some_def signal_loop_def take_loop_def lookup_name_def)

lemma total_same [total_rules]:
  "completes (ce_return x)" "completes (ce_lift r)" "completes (ce_fail msg sp)" "completes (ce_some (Some y))" "completes (signal_loop lc)"
  "completes take_loop" "completes (lookup_name n)"
  by (simp_all add: completes_def keeps_rules)
    (auto simp: ce_return_def ce_lift_def ce_fail_def ce_some_def signal_loop_def take_loop_def lookup_name_def)

lemma update_in_grows: "update_in n v env = Some env' \<Longrightarrow> list_all2 (\<lambda>s s'. dom s \<subseteq> dom s') env env'"
  by (induction env arbitrary: env') (auto split: if_splits intro: list.rel_refl)

lemma define_in_grows: "define_in n v env = Some env' \<Longrightarrow> list_all2 (\<lambda>s s'. dom s \<subseteq> dom s') env env'"
  by (auto simp: define_in_def split: list.splits intro: list.rel_refl)

lemma grows_same_length: "list_all2 (\<lambda>s s'. dom s \<subseteq> dom s') env env' \<Longrightarrow> grows ok env env'"
  by (auto simp: grows_def)

lemma define_in_Some: "env \<noteq> [] \<Longrightarrow> \<exists>env'. define_in n v env = Some env'"
  by (auto simp: define_in_def split: list.splits)

lemma assign_total [total_rules]: "completes (assign_name n v)"
proof -
  have "keeps (assign_name n v)"
    unfolding keeps_def assign_name_def
    by (auto split: option.splits intro!: grows_same_length dest: update_in_grows define_in_grows)
  moreover have "assign_name n v st \<noteq> None" if "cs_env st \<noteq> []" for st
    using define_in_Some [OF that, of n v] by (auto simp: assign_name_def split: option.splits)
  ultimately show ?thesis by (simp add: completes_def)
qed

lemma bind_total [total_rules]: "completes (bind_name n v)"
  unfolding completes_def keeps_def bind_name_def
  by (auto split: option.splits intro!: grows_same_length dest: define_in_grows)

lemmas [keeps_rules] = assign_total [THEN total_keeps] bind_total [THEN total_keeps]

lemma ce_bind_cases:
  assumes "ce_bind m f st = Some (r, st'')"
  obtains e where "m st = Some (Inl e, st'')" "r = Inl e"
    | x st' where "m st = Some (Inr x, st')" "f x st' = Some (r, st'')"
  using assms by (auto simp: ce_bind_def split: option.splits sum.splits)

lemma keeps_bind [keeps_rules]: "keeps m \<Longrightarrow> (\<And>x. keeps (f x)) \<Longrightarrow> keeps (ce_bind m f)"
proof -
  assume m: "keeps m" and f: "\<And>x. keeps (f x)"
  have "grows (\<not> isl r) (cs_env st) (cs_env st')" if "ce_bind m f st = Some (r, st')" for st r st'
    using that
  proof (cases rule: ce_bind_cases)
    case (1 e)
    with keepsD [OF m 1(1)] show ?thesis by simp
  next
    case (2 x st1)
    from keepsD [OF m 2(1)] keepsD [OF f 2(2)] show ?thesis using grows_trans by simp
  qed
  then show ?thesis by (simp add: keeps_def)
qed

lemma total_bind [total_rules]:
  assumes "completes m" "\<And>x. completes (f x)"
  shows "completes (ce_bind m f)"
proof -
  have "ce_bind m f st \<noteq> None" if ne: "cs_env st \<noteq> []" for st
  proof -
    obtain r st' where m: "m st = Some (r, st')" using totalD [OF assms(1) ne] by auto
    have "cs_env st' \<noteq> []" using keepsD [OF total_keeps [OF assms(1)] m] ne by (rule grows_nonempty)
    then show ?thesis using m totalD [OF assms(2)] by (auto simp: ce_bind_def split: sum.splits)
  qed
  then show ?thesis using assms by (simp add: completes_def keeps_bind)
qed

lemma scoped_eq:
  "ce_bind push_scope (\<lambda>_. ce_bind m1 (\<lambda>_. then_pop m2)) st =
   ce_bind m1 (\<lambda>_. then_pop m2) (st\<lparr>cs_env := Map.empty # cs_env st\<rparr>)"
  by (simp add: ce_bind_def push_scope_def)

lemma keeps_scoped [keeps_rules]:
  assumes "keeps m1" "keeps m2"
  shows "keeps (ce_bind push_scope (\<lambda>_. ce_bind m1 (\<lambda>_. then_pop m2)))"
  unfolding keeps_def scoped_eq
proof (intro allI impI)
  fix st r st'
  assume "ce_bind m1 (\<lambda>_. then_pop m2) (st\<lparr>cs_env := Map.empty # cs_env st\<rparr>) = Some (r, st')"
  then show "grows (\<not> isl r) (cs_env st) (cs_env st')"
  proof (cases rule: ce_bind_cases)
    case (1 e)
    with keepsD [OF assms(1) 1(1)] show ?thesis by (auto dest: grows_push_error)
  next
    case (2 x st1)
    from 2(2) obtain st2 where m2: "m2 st1 = Some (r, st2)" and st': "cs_env st' = tl (cs_env st2)"
      by (auto simp: then_pop_def)
    from keepsD [OF assms(1) 2(1)] have "grows True (Map.empty # cs_env st) (cs_env st1)" by simp
    from grows_pop [OF this keepsD [OF assms(2) m2]] st' show ?thesis by simp
  qed
qed

lemma total_scoped [total_rules]:
  assumes "completes m1" "completes m2"
  shows "completes (ce_bind push_scope (\<lambda>_. ce_bind m1 (\<lambda>_. then_pop m2)))"
proof -
  have "ce_bind m1 (\<lambda>_. then_pop m2) st \<noteq> None" if ne: "cs_env st \<noteq> []" for st
  proof -
    obtain r st' where m: "m1 st = Some (r, st')" using totalD [OF assms(1) ne] by auto
    have "cs_env st' \<noteq> []" using keepsD [OF total_keeps [OF assms(1)] m] ne by (rule grows_nonempty)
    then show ?thesis using m totalD [OF assms(2)] by (auto simp: ce_bind_def then_pop_def split: sum.splits)
  qed
  then show ?thesis
    using keeps_scoped [OF assms [THEN total_keeps]] by (auto simp: completes_def scoped_eq)
qed

subsection \<open>The evaluator keeps the scopes\<close>

lemma keeps_none [keeps_rules]: "keeps (\<lambda>st. None)"
  by (simp add: keeps_def)

lemma keeps_any_matches: "(\<And>p v. keeps (pm p v)) \<Longrightarrow> keeps (any_matches pm ps v)"
  by (induction ps) (auto intro!: keeps_rules)

lemma keeps_all_match: "(\<And>p v. keeps (pm p v)) \<Longrightarrow> keeps (all_match pm pvs)"
  by (induction pvs) (auto intro!: keeps_rules)

lemma keeps_match_pat: "(\<And>p v. keeps (pm p v)) \<Longrightarrow> keeps (match_pat pm p v)"
  by (auto simp: match_pat_def match_lists_def split: pat.splits ce_val.splits option.splits
      intro!: keeps_rules keeps_any_matches keeps_all_match)

lemma keeps_pattern_matches [keeps_rules]: "keeps (pattern_matches n body p v)"
  by (induction n arbitrary: p v) (auto intro!: keeps_rules keeps_match_pat)

text \<open>What an operation of the evaluator assumes of the evaluation of its parts.\<close>

locale scoped_evaluator =
  fixes ev :: ev and pm :: pm
  assumes ev: "keeps (ev e)"
    and pm: "keeps (pm p v)"
begin

lemmas rules = keeps_rules ev pm

lemma keeps_exprs: "keeps (eval_exprs ev es)"
  by (induction es) (auto intro!: rules)

lemma keeps_opt: "keeps (eval_opt ev o')" "keeps (eval_or_unit ev o')"
  by (auto simp: eval_opt_def eval_or_unit_def split: option.splits intro!: rules)

lemma keeps_stmts: "keeps (eval_stmts ev es)"
  by (induction es) (auto intro!: rules)

lemma keeps_arms: "keeps (eval_arms ev pm arms v sp)"
  by (induction arms) (auto intro!: rules)

lemma keeps_while: "keeps (while_iters k ev c b sp)"
  by (induction k) (auto intro!: rules)

lemma keeps_loop: "keeps (loop_iters k ev b sp)"
  by (induction k) (auto intro!: rules)

lemma keeps_for: "keeps (for_elements ev pm p b vs)"
  by (induction vs) (auto intro!: rules)

lemma keeps_params: "keeps (bind_params pm pvs)"
  by (induction pvs) (auto intro!: rules)

lemma keeps_bind_and_eval: "keeps (bind_and_eval ev pm ps b vs)"
  by (auto simp: bind_and_eval_def intro!: rules keeps_params)

lemma keeps_cast: "keeps (eval_const_cast env v f t sp)"
  by (auto simp: eval_const_cast_def split: type_ref.splits option.splits intro!: rules)

lemma keeps_resolve: "keeps (resolve_const_fn env n sp)"
  by (auto simp: resolve_const_fn_def intro!: rules)

lemmas parts = rules keeps_exprs keeps_opt keeps_stmts keeps_arms keeps_while keeps_loop keeps_for keeps_params
  keeps_bind_and_eval keeps_cast keeps_resolve

lemma keeps_call: "keeps (eval_call env ev pm f args sp)"
  by (auto simp: eval_call_def eval_closure_call_def eval_user_const_fn_def split: expr.splits option.splits intro!: parts)

lemma keeps_simple:
  "keeps (eval_binary env ev op l r sp)" "keeps (eval_unary env ev uop x sp)" "keeps (eval_if ev c t o' sp)"
  "keeps (eval_match ev pm x arms sp)" "keeps (eval_block ev es o')" "keeps (eval_while ev c b sp)"
  "keeps (eval_loop ev b sp)" "keeps (eval_for ev pm p x b sp)" "keeps (eval_path path sp)"
  by (auto simp: eval_binary_def eval_unary_def eval_if_def eval_match_def eval_block_def eval_while_def eval_loop_def
      eval_for_def eval_path_def split: option.splits intro!: parts)

lemma keeps_places:
  "keeps (eval_field ev x field sp)" "keeps (eval_index ev x y sp)" "keeps (eval_assign env ev x y sp)"
  "keeps (eval_let env ev p x)" "keeps (eval_method_call env ev x m args sp)"
  by (auto simp: eval_field_def eval_index_def eval_assign_def eval_let_def eval_method_call_def
      split: option.splits ce_val.splits pat.splits intro!: parts)

lemma keeps_eval_expr: "keeps (eval_expr env ev pm e sp)"
  by (cases e) (simp_all add: eval_expr_def parts keeps_call keeps_simple keeps_places)

end

lemma keeps_evaluate_left: "keeps (evaluate_left n env e)"
proof (induction n arbitrary: e)
  case 0
  show ?case by (auto intro!: keeps_rules)
next
  case (Suc n)
  then have "scoped_evaluator (evaluate_left n env) (pattern_matches (cn_pat_fuel env) (cn_body env))"
    by (simp add: scoped_evaluator_def keeps_pattern_matches)
  from scoped_evaluator.keeps_eval_expr [OF this] show ?case by (auto intro!: keeps_rules)
qed

interpretation scoped: scoped_evaluator "evaluate_left n env" "pattern_matches (cn_pat_fuel env) (cn_body env)" for n env
  by unfold_locales (rule keeps_evaluate_left keeps_rules)+

text \<open>
  C22. The scope stack is balanced and monotone: whatever expression is evaluated, from whatever stack, a successful
  evaluation leaves exactly the scopes it found and an error leaves at least those, the extra ones innermost; in
  every scope that was there, every name that was bound is still bound.  So \<open>assign_name\<close> always has a scope to write
  to, and a block or a call cannot remove a variable of its caller.
\<close>

theorem evaluate_scopes:
  assumes "evaluate env e st = Some (r, st')"
  shows "grows (\<not> isl r) (cs_env st) (cs_env st')"
  using assms keepsD [OF keeps_evaluate_left] unfolding evaluate_def by blast

subsection \<open>Evaluation returns\<close>

fun sub_pats :: "pat \<Rightarrow> pat_id list" where
  "sub_pats (PBinding _ _ p) = (case p of Some q \<Rightarrow> [q] | None \<Rightarrow> [])"
| "sub_pats (PStruct _ fs _) = map snd fs"
| "sub_pats (PTuple ps) = ps"
| "sub_pats (PSlice ps) = ps"
| "sub_pats (POr ps) = ps"
| "sub_pats _ = []"

fun expr_pats :: "expr \<Rightarrow> pat_id list" where
  "expr_pats (EFor p _ _) = [p]"
| "expr_pats (EMatch _ arms) = map ma_pat arms"
| "expr_pats (EClosure ps _ _) = ps"
| "expr_pats (ELet p _) = [p]"
| "expr_pats _ = []"

abbreviation opt_ids :: "'a option \<Rightarrow> 'a list" where
  "opt_ids o' \<equiv> (case o' of Some i \<Rightarrow> [i] | None \<Rightarrow> [])"

fun sub_exprs :: "expr \<Rightarrow> expr_id list" where
  "sub_exprs (EBlock es tail) = opt_ids tail @ es"
| "sub_exprs (EIf c t f) = [c, t] @ opt_ids f"
| "sub_exprs (EWhile c b) = [c, b]"
| "sub_exprs (ELoop b) = [b]"
| "sub_exprs (EFor _ x b) = [x, b]"
| "sub_exprs (EMatch x arms) = x # map ma_body arms @ concat (map (opt_ids \<circ> ma_guard) arms)"
| "sub_exprs (ECall f args) = f # args"
| "sub_exprs (EMethodCall x _ args) = x # args"
| "sub_exprs (EField x _) = [x]"
| "sub_exprs (EIndex x y) = [x, y]"
| "sub_exprs (EUnary _ x) = [x]"
| "sub_exprs (EBinary _ x y) = [x, y]"
| "sub_exprs (ECast x _) = [x]"
| "sub_exprs (ERef x _) = [x]"
| "sub_exprs (EAssign x y) = [x, y]"
| "sub_exprs (EReturn x) = opt_ids x"
| "sub_exprs (EBreak x) = opt_ids x"
| "sub_exprs (EClosure _ b _) = [b]"
| "sub_exprs (EArray es) = es"
| "sub_exprs (ETuple es) = es"
| "sub_exprs (ELet _ x) = [x]"
| "sub_exprs (EStruct _ fs x) = map snd fs @ opt_ids x"
| "sub_exprs (ERange x y _) = opt_ids x @ opt_ids y"
| "sub_exprs (EAwait x) = [x]"
| "sub_exprs _ = []"

definition expr_in :: "const_env \<Rightarrow> expr_id \<Rightarrow> bool" where
  "expr_in env e \<longleftrightarrow> unat e < length (hb_exprs (cn_body env))"

definition pat_in :: "const_env \<Rightarrow> pat_id \<Rightarrow> bool" where
  "pat_in env p \<longleftrightarrow> unat p < length (hb_pats (cn_body env))"

text \<open>A well-formed evaluator: indices are in range, patterns nest to a depth below the fuel, the interner knows every
  name and the type context every type of the primitive table.\<close>

definition const_env_ok :: "const_env \<Rightarrow> (pat_id \<Rightarrow> nat) \<Rightarrow> bool" where
  "const_env_ok env rank \<longleftrightarrow>
    (\<forall>x \<in> set (hb_exprs (cn_body env)). list_all (expr_in env) (sub_exprs x) \<and> list_all (pat_in env) (expr_pats x)) \<and>
    (\<forall>p. pat_in env p \<longrightarrow> rank p < cn_pat_fuel env \<and>
       list_all (\<lambda>q. pat_in env q \<and> rank q < rank p) (sub_pats (hb_pats (cn_body env) ! unat p))) \<and>
    (\<forall>f \<in> ran (cn_const_fns env). expr_in env (bf_body f) \<and> list_all (pat_in env) (bf_params f)) \<and>
    (\<forall>n. cn_fallback env n \<noteq> None \<and> (\<forall>resolve. cn_interner env = Some resolve \<longrightarrow> resolve n \<noteq> None)) \<and>
    (\<forall>ctx tys s t. cn_types env = Some (ctx, tys) \<longrightarrow> tys s = Some t \<longrightarrow> ty_kind_of ctx t \<noteq> None)"

lemma total_any_matches: "(\<And>p v. p \<in> set ps \<Longrightarrow> completes (pm p v)) \<Longrightarrow> completes (any_matches pm ps v)"
  by (induction ps) (auto intro!: total_rules)

lemma total_all_match: "(\<And>pv. pv \<in> set pvs \<Longrightarrow> completes (pm (fst pv) (snd pv))) \<Longrightarrow> completes (all_match pm pvs)"
  by (induction pvs) (auto intro!: total_rules)

lemma total_match_lists: "(\<And>p v. p \<in> set ps \<Longrightarrow> completes (pm p v)) \<Longrightarrow> completes (match_lists pm ps vs)"
  by (auto simp: match_lists_def dest: set_zip_leftD intro!: total_rules total_all_match)

lemma total_match_pat: "(\<And>q v. q \<in> set (sub_pats p) \<Longrightarrow> completes (pm q v)) \<Longrightarrow> completes (match_pat pm p v)"
  by (cases p) (auto simp: match_pat_def split: ce_val.splits option.splits
      intro!: total_rules total_any_matches total_match_lists)

lemma total_get: "i < length xs \<Longrightarrow> completes (f (xs ! i)) \<Longrightarrow> completes (ce_bind (ce_some (get xs i)) f)"
proof -
  assume "i < length xs" "completes (f (xs ! i))"
  moreover have "ce_bind (ce_some (Some y)) f = f y" for y by (auto simp: ce_bind_def ce_some_def)
  ultimately show ?thesis by (simp add: get_def)
qed

lemma total_pattern_matches:
  assumes "const_env_ok env rank"
  shows "pat_in env p \<Longrightarrow> rank p < n \<Longrightarrow> completes (pattern_matches n (cn_body env) p v)"
proof (induction n arbitrary: p v)
  case (Suc n)
  have "completes (pattern_matches n (cn_body env) q w)" if "q \<in> set (sub_pats (hb_pats (cn_body env) ! unat p))" for q w
    using Suc.IH [of q w] assms Suc.prems that by (fastforce simp: const_env_ok_def list_all_iff)
  then show ?case using Suc.prems by (auto simp: pat_in_def intro!: total_get total_match_pat)
qed simp

text \<open>The same interface for totality, at the indices that are in range.\<close>

locale total_evaluator =
  fixes env :: const_env and rank :: "pat_id \<Rightarrow> nat" and ev :: ev and pm :: pm
  assumes env_ok: "const_env_ok env rank"
    and ev: "expr_in env e \<Longrightarrow> completes (ev e)"
    and pm: "pat_in env p \<Longrightarrow> completes (pm p v)"
begin

lemmas rules = total_rules ev pm

lemma total_exprs: "list_all (expr_in env) es \<Longrightarrow> completes (eval_exprs ev es)"
  by (induction es) (auto intro!: rules)

lemma total_opt:
  "list_all (expr_in env) (opt_ids o') \<Longrightarrow> completes (eval_opt ev o')"
  "list_all (expr_in env) (opt_ids o') \<Longrightarrow> completes (eval_or_unit ev o')"
  by (auto simp: eval_opt_def eval_or_unit_def split: option.splits intro!: rules)

lemma total_stmts: "list_all (expr_in env) es \<Longrightarrow> completes (eval_stmts ev es)"
  by (induction es) (auto intro!: rules)

lemma total_arms: "list_all (pat_in env) (map ma_pat arms) \<Longrightarrow> list_all (expr_in env) (map ma_body arms) \<Longrightarrow> completes (eval_arms ev pm arms v sp)"
  by (induction arms) (auto intro!: rules)

lemma total_while: "expr_in env c \<Longrightarrow> expr_in env b \<Longrightarrow> completes (while_iters k ev c b sp)"
  by (induction k) (auto intro!: rules)

lemma total_loop: "expr_in env b \<Longrightarrow> completes (loop_iters k ev b sp)"
  by (induction k) (auto intro!: rules)

lemma total_for: "pat_in env p \<Longrightarrow> expr_in env b \<Longrightarrow> completes (for_elements ev pm p b vs)"
  by (induction vs) (auto intro!: rules)

lemma total_params: "(\<And>pv. pv \<in> set pvs \<Longrightarrow> pat_in env (fst pv)) \<Longrightarrow> completes (bind_params pm pvs)"
  by (induction pvs) (auto intro!: rules)

lemma total_bind_and_eval: "list_all (pat_in env) ps \<Longrightarrow> expr_in env b \<Longrightarrow> completes (bind_and_eval ev pm ps b vs)"
  by (auto simp: bind_and_eval_def list_all_iff dest: set_zip_leftD intro!: rules total_params)

lemma fallback_Some: "\<exists>s. cn_fallback env n = Some s"
  using env_ok unfolding const_env_ok_def by (metis option.exhaust)

lemma interner_Some: "cn_interner env = Some resolve \<Longrightarrow> \<exists>s. resolve n = Some s"
  using env_ok unfolding const_env_ok_def by (metis option.exhaust)

lemma primitive_Some: "cn_types env = Some (ctx, tys) \<Longrightarrow> tys s = Some t \<Longrightarrow> \<exists>k. ty_kind_of ctx t = Some k"
  using env_ok unfolding const_env_ok_def by (metis option.exhaust)

lemma typeref_Some:
  assumes "cn_interner env = Some resolve"
  obtains r where "ty_of_typeref tys t resolve = Some r" "\<And>u. r = Some u \<Longrightarrow> \<exists>s. tys s = Some u"
proof (cases "type_ref_name t")
  case None
  then show ?thesis using that [of None] by (simp add: ty_of_typeref_def)
next
  case (Some n)
  obtain s where "resolve n = Some s" using interner_Some [OF assms] by blast
  with Some that [of "tys s"] show ?thesis by (auto simp: ty_of_typeref_def)
qed

lemma refused_Some: "\<exists>b. cast_refused env v None t = Some b"
proof (cases "\<exists>ctx tys resolve. cn_types env = Some (ctx, tys) \<and> cn_interner env = Some resolve")
  case True
  then obtain ctx tys resolve where env: "cn_types env = Some (ctx, tys)" "cn_interner env = Some resolve" by blast
  obtain r where r: "ty_of_typeref tys t resolve = Some r" and target: "\<And>u. r = Some u \<Longrightarrow> \<exists>s. tys s = Some u"
    using typeref_Some [OF env(2)] by metis
  have "\<exists>b. is_valid_cast ctx f u = Some b" if vf: "ty_of_value tys v = Some f" and ru: "r = Some u" for f u
  proof -
    obtain k where "ty_kind_of ctx u = Some k" using target [OF ru] primitive_Some [OF env(1)] by blast
    moreover obtain k' where "ty_kind_of ctx f = Some k'"
      using vf primitive_Some [OF env(1)] by (auto simp: ty_of_value_def bind_eq_Some_conv)
    ultimately show ?thesis by (simp add: is_valid_cast_def)
  qed
  then show ?thesis using env r by (cases "ty_of_value tys v"; cases r) (auto simp: cast_refused_def)
qed (auto simp: cast_refused_def split: option.splits)

lemma total_some: "\<exists>y. o' = Some y \<Longrightarrow> completes (ce_some o')"
  by (auto intro: total_rules)

lemma total_cast: "completes (eval_const_cast env v None t sp)"
proof -
  have resolve: "completes (ce_some ((case cn_interner env of Some resolve \<Rightarrow> resolve | None \<Rightarrow> cn_fallback env) n))" for n
    by (rule total_some) (auto split: option.splits intro: fallback_Some interner_Some)
  note refused = total_some [OF refused_Some]
  have path: "completes (case as_name p of
      Some n \<Rightarrow> ce_bind (ce_some ((case cn_interner env of Some resolve \<Rightarrow> resolve | None \<Rightarrow> cn_fallback env) n)) (\<lambda>s.
        ce_lift (cast_to_name (cn_floats env) v s sp))
    | None \<Rightarrow> ce_fail CmCast sp)" for p
    by (cases "as_name p") (simp_all add: total_same total_bind resolve)
  show ?thesis
    unfolding eval_const_cast_def by (cases t) (simp_all add: total_same total_bind refused path)
qed

lemma total_resolve: "completes (resolve_const_fn env n sp)"
proof (cases "cn_interner env")
  case None
  then show ?thesis by (auto simp: resolve_const_fn_def ce_bind_def ce_lift_def completes_def keeps_def)
next
  case (Some resolve)
  then obtain s where "resolve n = Some s" using interner_Some by blast
  with Some show ?thesis by (auto simp: resolve_const_fn_def ce_bind_def ce_lift_def ce_some_def completes_def keeps_def)
qed

lemmas parts = rules total_exprs total_opt total_stmts total_arms total_while total_loop total_for total_params
  total_bind_and_eval total_cast total_resolve

lemma total_call:
  assumes "expr_in env f" "list_all (expr_in env) args"
  shows "completes (eval_call env ev pm f args sp)"
proof -
  have callee: "hb_exprs (cn_body env) ! unat f \<in> set (hb_exprs (cn_body env))" using assms(1) by (simp add: expr_in_def)
  have "list_all (expr_in env) (sub_exprs (hb_exprs (cn_body env) ! unat f))"
    "list_all (pat_in env) (expr_pats (hb_exprs (cn_body env) ! unat f))"
    using env_ok callee by (auto simp: const_env_ok_def)
  moreover have "expr_in env (bf_body g)" "list_all (pat_in env) (bf_params g)" if "cn_const_fns env n = Some g" for n g
    using env_ok that by (auto simp: const_env_ok_def ran_def)
  ultimately show ?thesis
    unfolding eval_call_def using assms(1) [unfolded expr_in_def]
    by (intro total_get)
      (auto simp: eval_closure_call_def eval_user_const_fn_def assms(2) split: expr.splits option.splits intro!: parts)
qed

lemma total_lookups:
  "expr_in env y \<Longrightarrow> expr_in env x \<Longrightarrow> completes (eval_assign env ev y x sp)"
  "pat_in env p \<Longrightarrow> expr_in env x \<Longrightarrow> completes (eval_let env ev p x)"
  by (auto simp: eval_assign_def eval_let_def expr_in_def [of env y] pat_in_def split: option.splits pat.splits
      intro!: parts total_get)

lemma total_simple:
  "expr_in env x \<Longrightarrow> expr_in env y \<Longrightarrow> completes (eval_binary env ev op x y sp)"
  "expr_in env x \<Longrightarrow> completes (eval_unary env ev uop x sp)"
  "expr_in env x \<Longrightarrow> expr_in env y \<Longrightarrow> list_all (expr_in env) (opt_ids o') \<Longrightarrow> completes (eval_if ev x y o' sp)"
  "list_all (expr_in env) es \<Longrightarrow> list_all (expr_in env) (opt_ids o') \<Longrightarrow> completes (eval_block ev es o')"
  "completes (eval_path path sp)"
  "expr_in env x \<Longrightarrow> completes (eval_field ev x field sp)"
  "expr_in env x \<Longrightarrow> expr_in env y \<Longrightarrow> completes (eval_index ev x y sp)"
  "expr_in env x \<Longrightarrow> list_all (expr_in env) es \<Longrightarrow> completes (eval_method_call env ev x m es sp)"
  by (auto simp: eval_binary_def eval_unary_def eval_if_def eval_block_def eval_path_def eval_field_def eval_index_def
      eval_method_call_def split: option.split ce_val.splits intro!: parts)

lemma total_loops:
  "expr_in env x \<Longrightarrow> expr_in env y \<Longrightarrow> completes (eval_while ev x y sp)"
  "expr_in env y \<Longrightarrow> completes (eval_loop ev y sp)"
  "pat_in env p \<Longrightarrow> expr_in env x \<Longrightarrow> expr_in env y \<Longrightarrow> completes (eval_for ev pm p x y sp)"
  "expr_in env x \<Longrightarrow> list_all (pat_in env) (map ma_pat arms) \<Longrightarrow> list_all (expr_in env) (map ma_body arms) \<Longrightarrow>
    completes (eval_match ev pm x arms sp)"
  by (auto simp: eval_while_def eval_loop_def eval_for_def eval_match_def intro!: parts)

lemma total_eval_expr:
  "list_all (expr_in env) (sub_exprs e) \<Longrightarrow> list_all (pat_in env) (expr_pats e) \<Longrightarrow> completes (eval_expr env ev pm e sp)"
  by (cases e) (auto simp: eval_expr_def split: option.splits
      intro!: parts total_call total_lookups total_simple total_loops)

end

lemma total_evaluate_left:
  assumes ok: "const_env_ok env rank"
  shows "expr_in env e \<Longrightarrow> completes (evaluate_left n env e)"
proof (induction n arbitrary: e)
  case 0
  then show ?case by (simp add: expr_in_def total_get total_same)
next
  case (Suc n)
  have "completes (pattern_matches (cn_pat_fuel env) (cn_body env) p v)" if "pat_in env p" for p v
    using total_pattern_matches [OF ok that] ok that by (simp add: const_env_ok_def)
  then have "total_evaluator env rank (evaluate_left n env) (pattern_matches (cn_pat_fuel env) (cn_body env))"
    using Suc.IH ok by (simp add: total_evaluator_def)
  moreover have "hb_exprs (cn_body env) ! unat e \<in> set (hb_exprs (cn_body env))" using Suc.prems by (simp add: expr_in_def)
  ultimately show ?case
    using ok Suc.prems total_evaluator.total_eval_expr
    by (auto simp: expr_in_def const_env_ok_def intro!: total_get)
qed


text \<open>\<open>{ let x = 2; x + 3 }\<close>, with \<open>x\<close> the name 1.\<close>

definition const_example_body :: hir_body where
  "const_example_body = \<lparr>hb_owner = 0,
     hb_exprs = [ELiteral (LitInt 2 None), ELet 0 0, EPath (from_single 1), ELiteral (LitInt 3 None), EBinary Bin_Add 2 3,
       EBlock [1] (Some 4)],
     hb_pats = [PBinding 1 MutNot None], hb_params = [], hb_span = span_DUMMY, hb_expr_spans = []\<rparr>"

definition example_const_env :: const_env where
  "example_const_env = \<lparr>cn_body = const_example_body, cn_pointer_width = 64, cn_interner = None, cn_fallback = (\<lambda>_. Some []),
     cn_types = None, cn_const_fns = Map.empty, cn_floats = const_no_floats, cn_pat_fuel = 1\<rparr>"

lemma example_const_value: "map_option fst (evaluate example_const_env 5 initial_state) = Some (Inr (CvInt 5 I32))"
  by code_simp

lemma example_const_env_ok: "const_env_ok example_const_env (\<lambda>_. 0)"
  by (auto simp: const_env_ok_def example_const_env_def const_example_body_def expr_in_def pat_in_def less_Suc_eq)

theorem evaluate_scopes_witness:
  "\<exists>st'. evaluate example_const_env 5 initial_state = Some (Inr (CvInt 5 I32), st') \<and> length (cs_env st') = 1"
proof -
  obtain st' where e: "evaluate example_const_env 5 initial_state = Some (Inr (CvInt 5 I32), st')"
    using example_const_value by auto
  from evaluate_scopes [OF e] have "length (cs_env st') = 1"
    by (auto simp: grows_True initial_state_def dest: list_all2_lengthD)
  with e show ?thesis by blast
qed


end
