(* ===== verification/Dataflow.thy ===== *)
theory Dataflow
  imports Mir "HOL-Library.Monad_Syntax"
begin

text \<open>
  What the analyses of \<^verbatim>\<open>crates/glyim-borrowck\<close> share: the operations of the bit sets they are
  written with (the \<open>fixedbitset\<close> crate, whose code is not part of the repository: a parameter with its documented
  behaviour as the hypothesis \<open>bitset_laws\<close>), and the worklist iteration over the blocks of a body, whose
  invariant, termination measure and result are proved once in the locale \<open>worklist\<close>.
\<close>

subsection \<open>Bit sets\<close>

record 'b bitset =
  bs_with_capacity :: "nat \<Rightarrow> 'b"
  bs_len :: "'b \<Rightarrow> nat"
  bs_contains :: "'b \<Rightarrow> nat \<Rightarrow> bool"
  bs_insert :: "'b \<Rightarrow> nat \<Rightarrow> 'b option"
  bs_remove :: "'b \<Rightarrow> nat \<Rightarrow> 'b option"
  bs_union :: "'b \<Rightarrow> 'b \<Rightarrow> 'b"
  bs_difference :: "'b \<Rightarrow> 'b \<Rightarrow> 'b"
  bs_eq :: "'b \<Rightarrow> 'b \<Rightarrow> bool"
  bs_ones :: "'b \<Rightarrow> nat list"

definition bits :: "'b bitset \<Rightarrow> 'b \<Rightarrow> nat set" where
  "bits bs b = {i. bs_contains bs b i}"

text \<open>The documented behaviour: inserting or removing out of bounds panics (\<open>None\<close>), a union grows to the longer
  operand, a difference keeps its length, equality compares sets of the same length, and the set bits are listed
  in ascending order.\<close>

definition bitset_laws :: "'b bitset \<Rightarrow> bool" where
  "bitset_laws bs \<longleftrightarrow>
    (\<forall>n. bs_len bs (bs_with_capacity bs n) = n \<and> bits bs (bs_with_capacity bs n) = {}) \<and>
    (\<forall>b. bits bs b \<subseteq> {..<bs_len bs b}) \<and>
    (\<forall>b i. if i < bs_len bs b
       then \<exists>b'. bs_insert bs b i = Some b' \<and> bs_len bs b' = bs_len bs b \<and> bits bs b' = insert i (bits bs b)
       else bs_insert bs b i = None) \<and>
    (\<forall>b i. if i < bs_len bs b
       then \<exists>b'. bs_remove bs b i = Some b' \<and> bs_len bs b' = bs_len bs b \<and> bits bs b' = bits bs b - {i}
       else bs_remove bs b i = None) \<and>
    (\<forall>b c. bs_len bs (bs_union bs b c) = max (bs_len bs b) (bs_len bs c) \<and>
       bits bs (bs_union bs b c) = bits bs b \<union> bits bs c) \<and>
    (\<forall>b c. bs_len bs (bs_difference bs b c) = bs_len bs b \<and> bits bs (bs_difference bs b c) = bits bs b - bits bs c) \<and>
    (\<forall>b c. bs_len bs b = bs_len bs c \<longrightarrow> (bs_eq bs b c \<longleftrightarrow> bits bs b = bits bs c)) \<and>
    (\<forall>b. bs_ones bs b = sorted_list_of_set (bits bs b))"

lemma bs_contains_bits: "bs_contains bs b i \<longleftrightarrow> i \<in> bits bs b"
  by (simp add: bits_def)

lemma bitset_lawsD:
  assumes "bitset_laws bs"
  shows bs_len_with_capacity: "bs_len bs (bs_with_capacity bs n) = n"
    and bits_with_capacity: "bits bs (bs_with_capacity bs n) = {}"
    and bits_bound: "bits bs b \<subseteq> {..<bs_len bs b}"
    and bs_insert_Some: "i < bs_len bs b \<Longrightarrow>
      \<exists>b'. bs_insert bs b i = Some b' \<and> bs_len bs b' = bs_len bs b \<and> bits bs b' = insert i (bits bs b)"
    and bs_insert_None: "\<not> i < bs_len bs b \<Longrightarrow> bs_insert bs b i = None"
    and bs_remove_Some: "i < bs_len bs b \<Longrightarrow>
      \<exists>b'. bs_remove bs b i = Some b' \<and> bs_len bs b' = bs_len bs b \<and> bits bs b' = bits bs b - {i}"
    and bs_remove_None: "\<not> i < bs_len bs b \<Longrightarrow> bs_remove bs b i = None"
    and bs_len_union: "bs_len bs (bs_union bs b c) = max (bs_len bs b) (bs_len bs c)"
    and bits_union: "bits bs (bs_union bs b c) = bits bs b \<union> bits bs c"
    and bs_len_difference: "bs_len bs (bs_difference bs b c) = bs_len bs b"
    and bits_difference: "bits bs (bs_difference bs b c) = bits bs b - bits bs c"
    and bs_eq_bits: "bs_len bs b = bs_len bs c \<Longrightarrow> bs_eq bs b c \<longleftrightarrow> bits bs b = bits bs c"
    and bs_ones_bits: "bs_ones bs b = sorted_list_of_set (bits bs b)"
proof -
  note laws = assms [unfolded bitset_laws_def]
  note cap = laws [THEN conjunct1, rule_format] and laws2 = laws [THEN conjunct2]
  note bound = laws2 [THEN conjunct1, rule_format] and laws3 = laws2 [THEN conjunct2]
  note ins = laws3 [THEN conjunct1, rule_format] and laws4 = laws3 [THEN conjunct2]
  note rem = laws4 [THEN conjunct1, rule_format] and laws5 = laws4 [THEN conjunct2]
  note un = laws5 [THEN conjunct1, rule_format] and laws6 = laws5 [THEN conjunct2]
  note diff = laws6 [THEN conjunct1, rule_format] and laws7 = laws6 [THEN conjunct2]
  note eq = laws7 [THEN conjunct1, rule_format] and ones = laws7 [THEN conjunct2, rule_format]
  show "bs_len bs (bs_with_capacity bs n) = n" "bits bs (bs_with_capacity bs n) = {}" using cap by simp_all
  show "bits bs b \<subseteq> {..<bs_len bs b}" by (rule bound)
  show "i < bs_len bs b \<Longrightarrow>
      \<exists>b'. bs_insert bs b i = Some b' \<and> bs_len bs b' = bs_len bs b \<and> bits bs b' = insert i (bits bs b)"
    and "\<not> i < bs_len bs b \<Longrightarrow> bs_insert bs b i = None"
    using ins [of i b] by (simp_all only: if_True if_False)
  show "i < bs_len bs b \<Longrightarrow>
      \<exists>b'. bs_remove bs b i = Some b' \<and> bs_len bs b' = bs_len bs b \<and> bits bs b' = bits bs b - {i}"
    and "\<not> i < bs_len bs b \<Longrightarrow> bs_remove bs b i = None"
    using rem [of i b] by (simp_all only: if_True if_False)
  show "bs_len bs (bs_union bs b c) = max (bs_len bs b) (bs_len bs c)"
    and "bits bs (bs_union bs b c) = bits bs b \<union> bits bs c"
    using un by simp_all
  show "bs_len bs (bs_difference bs b c) = bs_len bs b"
    and "bits bs (bs_difference bs b c) = bits bs b - bits bs c"
    using diff by simp_all
  show "bs_len bs b = bs_len bs c \<Longrightarrow> bs_eq bs b c \<longleftrightarrow> bits bs b = bits bs c" by (rule eq)
  show "bs_ones bs b = sorted_list_of_set (bits bs b)" by (rule ones)
qed

lemmas bitset_simps = bs_len_with_capacity bits_with_capacity bs_len_union bits_union bs_len_difference bits_difference

lemma bs_insertD:
  "bitset_laws bs \<Longrightarrow> bs_insert bs b i = Some b' \<Longrightarrow>
    i < bs_len bs b \<and> bs_len bs b' = bs_len bs b \<and> bits bs b' = insert i (bits bs b)"
  using bs_insert_Some bs_insert_None by (metis option.distinct(1) option.inject)

lemma bs_removeD:
  "bitset_laws bs \<Longrightarrow> bs_remove bs b i = Some b' \<Longrightarrow>
    i < bs_len bs b \<and> bs_len bs b' = bs_len bs b \<and> bits bs b' = bits bs b - {i}"
  using bs_remove_Some bs_remove_None by (metis option.distinct(1) option.inject)

text \<open>Bit vectors as lists of truth values have the laws.\<close>

definition bools_union :: "bool list \<Rightarrow> bool list \<Rightarrow> bool list" where
  "bools_union b c = map (\<lambda>i. (i < length b \<and> b ! i) \<or> (i < length c \<and> c ! i)) [0..<max (length b) (length c)]"

definition bool_bitset :: "bool list bitset" where
  "bool_bitset = \<lparr>bs_with_capacity = (\<lambda>n. replicate n False), bs_len = length,
     bs_contains = (\<lambda>b i. i < length b \<and> b ! i),
     bs_insert = (\<lambda>b i. if i < length b then Some (b[i := True]) else None),
     bs_remove = (\<lambda>b i. if i < length b then Some (b[i := False]) else None),
     bs_union = bools_union,
     bs_difference = (\<lambda>b c. map (\<lambda>i. b ! i \<and> \<not> (i < length c \<and> c ! i)) [0..<length b]),
     bs_eq = (\<lambda>b c. b = c),
     bs_ones = (\<lambda>b. filter (\<lambda>i. b ! i) [0..<length b])\<rparr>"

lemma bits_bools: "bits bool_bitset b = {i. i < length b \<and> b ! i}"
  by (simp add: bits_def bool_bitset_def)

lemma ones_bools: "filter (\<lambda>i. b ! i) [0..<length b] = sorted_list_of_set {i. i < length b \<and> b ! i}" for b :: "bool list"
proof -
  have "{i. i < length b \<and> b ! i} = set (filter (\<lambda>i. b ! i) [0..<length b])" by auto
  then show ?thesis by (simp only: sorted_list_of_set.idem_if_sorted_distinct sorted_wrt_filter sorted_upt distinct_filter distinct_upt)
qed

lemma bools_eq: "length b = length c \<Longrightarrow> b = c \<longleftrightarrow> {i. i < length b \<and> b ! i} = {i. i < length c \<and> c ! i}"
  for b c :: "bool list"
  by (simp add: list_eq_iff_nth_eq set_eq_iff) blast

lemma bools_update:
  "i < length b \<Longrightarrow> {j. j < length (b[i := True]) \<and> b[i := True] ! j} = insert i {i. i < length b \<and> b ! i}"
  "i < length b \<Longrightarrow> {j. j < length (b[i := False]) \<and> b[i := False] ! j} = {i. i < length b \<and> b ! i} - {i}"
  by (auto simp: nth_list_update)

lemma bools_union_bits:
  "{i. i < length (bools_union b c) \<and> bools_union b c ! i} = {i. i < length b \<and> b ! i} \<union> {i. i < length c \<and> c ! i}"
  by (auto simp: bools_union_def)

lemma bool_bitset_laws: "bitset_laws bool_bitset"
  unfolding bitset_laws_def bits_bools
proof (intro conjI allI impI)
  fix b c :: "bool list"
  show "bs_len bool_bitset b = bs_len bool_bitset c \<Longrightarrow>
      bs_eq bool_bitset b c \<longleftrightarrow> {i. i < length b \<and> b ! i} = {i. i < length c \<and> c ! i}"
    using bools_eq [of b c] by (simp add: bool_bitset_def)
qed (simp_all add: bool_bitset_def ones_bools bools_update [simplified] bools_union_bits,
     auto simp: bools_union_def)

subsection \<open>Worklists\<close>

text \<open>
  A set of facts per block, computed by iterating \<open>F\<close>.  When the facts of block \<open>b\<close> change, the blocks of
  \<open>deps b\<close> are computed again.
\<close>

locale worklist =
  fixes n :: nat
    and F :: "nat \<Rightarrow> (nat \<Rightarrow> 'a set) \<Rightarrow> 'a set"
    and deps :: "nat \<Rightarrow> nat set"
    and U :: "'a set"
  assumes mono: "(\<And>c. X c \<subseteq> Y c) \<Longrightarrow> F b X \<subseteq> F b Y"
    and depends: "c \<notin> deps b \<Longrightarrow> c < n \<Longrightarrow> F c (X(b := S)) = F c X"
    and deps_bound: "deps b \<subseteq> {..<n}"
    and finite_U: "finite U"
    and F_U: "(\<And>c. X c \<subseteq> U) \<Longrightarrow> F b X \<subseteq> U"
begin

definition below_solutions :: "(nat \<Rightarrow> 'a set) \<Rightarrow> bool" where
  "below_solutions X \<longleftrightarrow> (\<forall>Y. (\<forall>b<n. F b Y \<subseteq> Y b) \<longrightarrow> (\<forall>b<n. X b \<subseteq> Y b))"

definition inv :: "nat set \<Rightarrow> (nat \<Rightarrow> 'a set) \<Rightarrow> bool" where
  "inv W X \<longleftrightarrow> W \<subseteq> {..<n} \<and> (\<forall>b. X b \<subseteq> U) \<and> (\<forall>b<n. X b \<subseteq> F b X) \<and> (\<forall>b<n. b \<notin> W \<longrightarrow> X b = F b X) \<and>
    (\<forall>b. n \<le> b \<longrightarrow> X b = {}) \<and> below_solutions X"

definition missing :: "(nat \<Rightarrow> 'a set) \<Rightarrow> nat" where
  "missing X = (\<Sum>b<n. card (U - X b))"

lemma inv_start: "inv {..<n} (\<lambda>_. {})"
  by (simp add: inv_def below_solutions_def)

lemma invD:
  assumes "inv W X"
  shows "W \<subseteq> {..<n}" "X b \<subseteq> U" "b < n \<Longrightarrow> X b \<subseteq> F b X" "b < n \<Longrightarrow> b \<notin> W \<Longrightarrow> X b = F b X" "n \<le> b \<Longrightarrow> X b = {}"
    "below_solutions X"
  using assms by (auto simp: inv_def)

lemma below_step:
  assumes "inv W X" "b < n"
  shows "below_solutions (X(b := F b X))"
  unfolding below_solutions_def
proof (intro allI impI)
  fix Y c assume Y: "\<forall>b<n. F b Y \<subseteq> Y b" and c: "c < n"
  have "X d \<subseteq> Y d" for d
    using invD(5,6) [OF assms(1)] Y by (cases "d < n") (auto simp: below_solutions_def)
  then have "F b X \<subseteq> F b Y" by (rule mono)
  then show "(X(b := F b X)) c \<subseteq> Y c"
    using Y assms(2) \<open>\<And>d. X d \<subseteq> Y d\<close> by (cases "c = b") auto
qed

lemma inv_step:
  assumes "inv W X" "b \<in> W"
  shows "inv ((W - {b}) \<union> (if F b X = X b then {} else deps b)) (X(b := F b X))"
proof -
  let ?X = "X(b := F b X)"
  note I = invD [OF assms(1)]
  have b: "b < n" using I(1) assms(2) by auto
  have le: "X c \<subseteq> ?X c" for c using I(3) [OF b] by simp
  have 1: "?X c \<subseteq> F c ?X" if "c < n" for c
  proof -
    have "F c X \<subseteq> F c ?X" by (rule mono) (rule le)
    then show ?thesis using I(3) [OF that] by (cases "c = b") auto
  qed
  have 2: "?X c = F c ?X" if "c < n" "c \<notin> (W - {b}) \<union> (if F b X = X b then {} else deps b)" for c
  proof (cases "F b X = X b")
    case True
    then have "?X = X" by auto
    then show ?thesis using True I(4) that by (cases "c = b") auto
  next
    case False
    then have "F c ?X = F c X" using depends that by auto
    then show ?thesis using I(4) that by (cases "c = b") auto
  qed
  show ?thesis
    unfolding inv_def using 1 2 below_step [OF assms(1) b] I(1,2,5) F_U [OF I(2)] deps_bound [of b] b
    by (auto split: if_splits)
qed

lemma missing_step:
  assumes "inv W X" "b \<in> W" "F b X \<noteq> X b"
  shows "missing (X(b := F b X)) < missing X"
proof -
  note I = invD [OF assms(1)]
  have b: "b < n" using I(1) assms(2) by auto
  have sub: "X b \<subset> F b X" using I(3) [OF b] assms(3) by auto
  have U: "F b X \<subseteq> U" using F_U [OF I(2)] .
  have "card (U - F b X) < card (U - X b)"
    using sub U finite_U by (intro psubset_card_mono) auto
  moreover have "card (U - (X(b := F b X)) c) \<le> card (U - X c)" for c
    using calculation by (cases "c = b") auto
  ultimately show ?thesis
    unfolding missing_def using b by (intro sum_strict_mono_ex1) (auto intro!: bexI [of _ b])
qed

lemma inv_end: "inv {} X \<Longrightarrow> b < n \<Longrightarrow> X b = F b X"
  using invD(4) by blast

lemma inv_least: "inv W X \<Longrightarrow> (\<And>b. b < n \<Longrightarrow> F b Y \<subseteq> Y b) \<Longrightarrow> b < n \<Longrightarrow> X b \<subseteq> Y b"
  using invD(6) unfolding below_solutions_def by blast

end

end
