(* ===== verification/Liveness.thy ===== *)
theory Liveness
  imports Dataflow
begin

text \<open>
  The traversal helpers and the liveness analysis of the borrow checker
  (\<^verbatim>\<open>crates/glyim-borrowck/src/visitor.rs\<close> and \<^verbatim>\<open>liveness.rs\<close>).  A visitor is run over the list of places it
  is shown.  \<open>None\<close> is a panic, or an iteration that does not end.
\<close>

subsection \<open>Traversal\<close>

fun walk_operand_reads :: "operand \<Rightarrow> place list" where
  "walk_operand_reads (Copy p) = [p]"
| "walk_operand_reads (Move p) = [p]"
| "walk_operand_reads (Constant _) = []"

fun walk_rvalue_reads :: "rvalue \<Rightarrow> place list" where
  "walk_rvalue_reads (RvUse x) = walk_operand_reads x"
| "walk_rvalue_reads (RvRef p _) = [p]"
| "walk_rvalue_reads (RvBinaryOp _ l r) = walk_operand_reads l @ walk_operand_reads r"
| "walk_rvalue_reads (RvUnaryOp _ x) = walk_operand_reads x"
| "walk_rvalue_reads (RvAggregate _ xs) = concat (map walk_operand_reads xs)"
| "walk_rvalue_reads (RvDiscriminant p) = [p]"
| "walk_rvalue_reads (RvLen p) = [p]"
| "walk_rvalue_reads (RvCast _ x _) = walk_operand_reads x"
| "walk_rvalue_reads (RvRepeat x _) = walk_operand_reads x"

fun walk_terminator_reads :: "terminator_kind \<Rightarrow> place list" where
  "walk_terminator_reads (TSwitchInt discr _ _) = walk_operand_reads discr"
| "walk_terminator_reads (TCall f args _ _ _) = walk_operand_reads f @ concat (map walk_operand_reads args)"
| "walk_terminator_reads (TAssert c _ _ _ _) = walk_operand_reads c"
| "walk_terminator_reads _ = []"

fun successor_blocks :: "terminator_kind \<Rightarrow> u32 list" where
  "successor_blocks (TGoto target) = [target]"
| "successor_blocks (TSwitchInt _ _ targets) = map snd (sw_branches targets) @ [sw_otherwise targets]"
| "successor_blocks TReturn = []"
| "successor_blocks TUnreachable = []"
| "successor_blocks (TCall _ _ _ target cleanup) =
    (case target of Some t \<Rightarrow> [t] | None \<Rightarrow> []) @ (case cleanup of Some c \<Rightarrow> [c] | None \<Rightarrow> [])"
| "successor_blocks (TAssert _ _ target cleanup _) = target # (case cleanup of Some c \<Rightarrow> [c] | None \<Rightarrow> [])"
| "successor_blocks (TDrop _ target cleanup) = target # (case cleanup of Some c \<Rightarrow> [c] | None \<Rightarrow> [])"

definition block_succs :: "basic_block \<Rightarrow> nat list" where
  "block_succs blk = map unat (successor_blocks (tm_kind (bb_terminator blk)))"

lemma successor_blocks_terminator: "successor_blocks (tm_kind t) = terminator_successors t"
  by (cases "tm_kind t") (auto simp: terminator_successors_def)

subsection \<open>Block summaries\<close>

definition stmt_capacity :: "nat \<Rightarrow> statement \<Rightarrow> nat" where
  "stmt_capacity m s = (case st_kind s of StAssign p _ \<Rightarrow> max m (unat (pl_local p) + 1) | _ \<Rightarrow> m)"

definition block_capacity :: "nat \<Rightarrow> basic_block \<Rightarrow> nat" where
  "block_capacity m blk =
    (let m' = foldl stmt_capacity m (bb_statements blk) in
     case tm_kind (bb_terminator blk) of TCall _ _ dest _ _ \<Rightarrow> max m' (unat (pl_local dest) + 1) | _ \<Rightarrow> m')"

definition local_capacity :: "body \<Rightarrow> nat" where
  "local_capacity body = foldl block_capacity (length (bd_locals body)) (bd_blocks body)"

text \<open>\<open>LivenessUseCollector::visit_read\<close> and \<open>LivenessGen::visit_read\<close>.\<close>

definition collect_use :: "'b bitset \<Rightarrow> 'b \<Rightarrow> place \<Rightarrow> 'b \<Rightarrow> 'b option" where
  "collect_use bs defs p uses =
    (if bs_contains bs defs (unat (pl_local p)) then Some uses else bs_insert bs uses (unat (pl_local p)))"

definition liveness_gen :: "'b bitset \<Rightarrow> place \<Rightarrow> 'b \<Rightarrow> 'b option" where
  "liveness_gen bs p live = bs_insert bs live (unat (pl_local p))"

definition summarize_stmt :: "'b bitset \<Rightarrow> statement \<Rightarrow> 'b \<times> 'b \<Rightarrow> ('b \<times> 'b) option" where
  "summarize_stmt bs s ud = (case (st_kind s, ud) of
     (StAssign p rv, uses, defs) \<Rightarrow>
       do {
         uses' \<leftarrow> fold_opt (collect_use bs defs) (walk_rvalue_reads rv) uses;
         defs' \<leftarrow> bs_insert bs defs (unat (pl_local p));
         Some (uses', defs')
       }
   | _ \<Rightarrow> Some ud)"

definition summarize_block :: "'b bitset \<Rightarrow> nat \<Rightarrow> basic_block \<Rightarrow> ('b \<times> 'b) option" where
  "summarize_block bs capacity blk =
    do {
      (uses, defs) \<leftarrow> fold_opt (summarize_stmt bs) (bb_statements blk)
        (bs_with_capacity bs capacity, bs_with_capacity bs capacity);
      uses' \<leftarrow> fold_opt (collect_use bs defs) (walk_terminator_reads (tm_kind (bb_terminator blk))) uses;
      case tm_kind (bb_terminator blk) of
        TCall _ _ dest _ _ \<Rightarrow> do { defs' \<leftarrow> bs_insert bs defs (unat (pl_local dest)); Some (uses', defs') }
      | _ \<Rightarrow> Some (uses', defs)
    }"

definition compute_block_summaries :: "'b bitset \<Rightarrow> body \<Rightarrow> ('b \<times> 'b) list option" where
  "compute_block_summaries bs body = map_opt (summarize_block bs (local_capacity body)) (bd_blocks body)"

subsection \<open>The fixed point\<close>

text \<open>\<open>predecessors[succ].push(block)\<close> for every edge, in block order.\<close>

definition push_pred :: "nat \<times> nat \<Rightarrow> nat list list \<Rightarrow> nat list list option" where
  "push_pred e preds = (if snd e < length preds then Some (preds[snd e := preds ! snd e @ [fst e]]) else None)"

definition flow_edges :: "basic_block list \<Rightarrow> (nat \<times> nat) list" where
  "flow_edges blocks = concat (map (\<lambda>i. map (\<lambda>s. (i, s)) (block_succs (blocks ! i))) [0..<length blocks])"

definition block_predecessors :: "basic_block list \<Rightarrow> nat list list option" where
  "block_predecessors blocks = fold_opt push_pred (flow_edges blocks) (replicate (length blocks) [])"

text \<open>\<open>if !in_worklist.contains(b) { in_worklist.insert(b); worklist.push(b) }\<close>; the top of the stack comes first.\<close>

definition enqueue :: "'b bitset \<Rightarrow> nat \<Rightarrow> nat list \<times> 'b \<Rightarrow> (nat list \<times> 'b) option" where
  "enqueue bs b q = (case q of (work, inw) \<Rightarrow>
     if bs_contains bs inw b then Some (work, inw)
     else do { inw' \<leftarrow> bs_insert bs inw b; Some (b # work, inw') })"

definition all_queued :: "'b bitset \<Rightarrow> nat \<Rightarrow> (nat list \<times> 'b) option" where
  "all_queued bs n =
    do { inw \<leftarrow> fold_opt (\<lambda>i b. bs_insert bs b i) [0..<n] (bs_with_capacity bs n); Some (rev [0..<n], inw) }"

definition live_update :: "'b bitset \<Rightarrow> nat \<Rightarrow> nat list list \<Rightarrow> ('b \<times> 'b) list \<Rightarrow> 'b list \<Rightarrow> nat \<Rightarrow> 'b \<times> 'b" where
  "live_update bs capacity succs summary live_in bi =
    (let new_live_out = foldl (\<lambda>acc s. bs_union bs acc (live_in ! s)) (bs_with_capacity bs capacity) (succs ! bi);
         new_live_in = bs_union bs (fst (summary ! bi)) (bs_difference bs new_live_out (snd (summary ! bi)))
     in (new_live_in, new_live_out))"

partial_function (option) live_loop ::
  "'b bitset \<Rightarrow> nat \<Rightarrow> nat list list \<Rightarrow> nat list list \<Rightarrow> ('b \<times> 'b) list \<Rightarrow> nat list \<Rightarrow> 'b \<Rightarrow> 'b list \<Rightarrow> 'b list \<Rightarrow> 'b list option"
where
  "live_loop bs capacity succs preds summary work inw live_in live_out =
    (case work of
       [] \<Rightarrow> Some live_out
     | bi # work' \<Rightarrow>
        do {
          inw' \<leftarrow> bs_remove bs inw bi;
          let new = live_update bs capacity succs summary live_in bi;
          if \<not> bs_eq bs (fst new) (live_in ! bi) \<or> \<not> bs_eq bs (snd new) (live_out ! bi)
          then do {
            (work'', inw'') \<leftarrow> fold_opt (enqueue bs) (preds ! bi) (work', inw');
            live_loop bs capacity succs preds summary work'' inw'' (live_in[bi := fst new]) (live_out[bi := snd new])
          }
          else live_loop bs capacity succs preds summary work' inw' live_in live_out
        })"

declare live_loop.simps [code]

definition compute_liveness :: "'b bitset \<Rightarrow> body \<Rightarrow> 'b list option" where
  "compute_liveness bs body =
    (let n = length (bd_blocks body);
         capacity = local_capacity body;
         empty = replicate n (bs_with_capacity bs capacity)
     in do {
       summary \<leftarrow> compute_block_summaries bs body;
       preds \<leftarrow> block_predecessors (bd_blocks body);
       (work, inw) \<leftarrow> all_queued bs n;
       live_loop bs capacity (map block_succs (bd_blocks body)) preds summary work inw empty empty
     })"

subsection \<open>Within a block\<close>

definition stmt_live_before :: "'b bitset \<Rightarrow> statement \<Rightarrow> 'b \<Rightarrow> 'b option" where
  "stmt_live_before bs s current =
    (case st_kind s of
       StAssign p rv \<Rightarrow>
         do {
           killed \<leftarrow> bs_remove bs current (unat (pl_local p));
           fold_opt (liveness_gen bs) (walk_rvalue_reads rv) killed
         }
     | StStorageDead l \<Rightarrow> bs_remove bs current (unat l)
     | _ \<Rightarrow> Some current)"

fun stmts_liveness :: "'b bitset \<Rightarrow> statement list \<Rightarrow> 'b \<Rightarrow> 'b list option" where
  "stmts_liveness bs [] live_out = Some [live_out]"
| "stmts_liveness bs (s # ss) live_out =
    do {
      after \<leftarrow> stmts_liveness bs ss live_out;
      before \<leftarrow> stmt_live_before bs s (hd after);
      Some (before # after)
    }"

definition compute_stmt_liveness :: "'b bitset \<Rightarrow> body \<Rightarrow> nat \<Rightarrow> 'b \<Rightarrow> 'b list option" where
  "compute_stmt_liveness bs body block live_out =
    do { blk \<leftarrow> get (bd_blocks body) block; stmts_liveness bs (bb_statements blk) live_out }"

end
