(* ===== verification/Liveness_Props.thy ===== *)
theory Liveness_Props
  imports Liveness
begin

text \<open>
  The liveness analysis terminates and computes the locals whose value may be read before they are assigned, on
  some path through the statements and terminators of the body.
\<close>

subsection \<open>Liveness of program points\<close>

definition place_locals :: "place list \<Rightarrow> nat set" where
  "place_locals ps = (\<lambda>p. unat (pl_local p)) ` set ps"

definition stmt_reads :: "statement \<Rightarrow> nat set" where
  "stmt_reads s = (case st_kind s of StAssign _ rv \<Rightarrow> place_locals (walk_rvalue_reads rv) | _ \<Rightarrow> {})"

definition stmt_defs :: "statement \<Rightarrow> nat set" where
  "stmt_defs s = (case st_kind s of StAssign p _ \<Rightarrow> {unat (pl_local p)} | _ \<Rightarrow> {})"

definition term_reads :: "basic_block \<Rightarrow> nat set" where
  "term_reads blk = place_locals (walk_terminator_reads (tm_kind (bb_terminator blk)))"

definition term_defs :: "basic_block \<Rightarrow> nat set" where
  "term_defs blk = (case tm_kind (bb_terminator blk) of TCall _ _ dest _ _ \<Rightarrow> {unat (pl_local dest)} | _ \<Rightarrow> {})"

text \<open>\<open>live_at body b i l\<close>: from statement \<open>i\<close> of block \<open>b\<close> on, some path reads local \<open>l\<close> before a
  statement or call assigns it; index \<open>length (bb_statements blk)\<close> is the terminator.\<close>

inductive live_at :: "body \<Rightarrow> nat \<Rightarrow> nat \<Rightarrow> nat \<Rightarrow> bool" for body where
  live_read: "b < length (bd_blocks body) \<Longrightarrow> i < length (bb_statements (bd_blocks body ! b)) \<Longrightarrow>
    l \<in> stmt_reads (bb_statements (bd_blocks body ! b) ! i) \<Longrightarrow> live_at body b i l"
| live_pass: "b < length (bd_blocks body) \<Longrightarrow> i < length (bb_statements (bd_blocks body ! b)) \<Longrightarrow>
    l \<notin> stmt_defs (bb_statements (bd_blocks body ! b) ! i) \<Longrightarrow> live_at body b (Suc i) l \<Longrightarrow> live_at body b i l"
| live_term: "b < length (bd_blocks body) \<Longrightarrow> l \<in> term_reads (bd_blocks body ! b) \<Longrightarrow>
    live_at body b (length (bb_statements (bd_blocks body ! b))) l"
| live_jump: "b < length (bd_blocks body) \<Longrightarrow> l \<notin> term_defs (bd_blocks body ! b) \<Longrightarrow>
    c \<in> set (block_succs (bd_blocks body ! b)) \<Longrightarrow> live_at body c 0 l \<Longrightarrow>
    live_at body b (length (bb_statements (bd_blocks body ! b))) l"

text \<open>The bodies the analysis is made for: jump targets exist and no read is of a local beyond the capacity.\<close>

definition flow_ok :: "body \<Rightarrow> bool" where
  "flow_ok body \<longleftrightarrow> list_all (\<lambda>blk. list_all (\<lambda>s. s < length (bd_blocks body)) (block_succs blk)) (bd_blocks body)"

definition body_reads :: "body \<Rightarrow> nat set" where
  "body_reads body = (\<Union>blk\<in>set (bd_blocks body). (\<Union>s\<in>set (bb_statements blk). stmt_reads s) \<union> term_reads blk)"

definition reads_ok :: "body \<Rightarrow> bool" where
  "reads_ok body \<longleftrightarrow> (\<forall>l\<in>body_reads body. l < local_capacity body)"

subsection \<open>Summaries\<close>

fun suffix_uses :: "basic_block \<Rightarrow> statement list \<Rightarrow> nat set" where
  "suffix_uses blk [] = term_reads blk"
| "suffix_uses blk (s # ss) = stmt_reads s \<union> (suffix_uses blk ss - stmt_defs s)"

fun suffix_defs :: "basic_block \<Rightarrow> statement list \<Rightarrow> nat set" where
  "suffix_defs blk [] = term_defs blk"
| "suffix_defs blk (s # ss) = stmt_defs s \<union> suffix_defs blk ss"

definition blk_uses :: "basic_block \<Rightarrow> nat set" where
  "blk_uses blk = suffix_uses blk (bb_statements blk)"

definition blk_defs :: "basic_block \<Rightarrow> nat set" where
  "blk_defs blk = suffix_defs blk (bb_statements blk)"

lemma place_locals_simps [simp]: "place_locals [] = {}" "place_locals (p # ps) = insert (unat (pl_local p)) (place_locals ps)"
  by (simp_all add: place_locals_def)

lemma fold_collect:
  assumes "bitset_laws bs" "place_locals ps \<subseteq> {..<bs_len bs uses}"
  shows "\<exists>uses'. fold_opt (collect_use bs defs) ps uses = Some uses' \<and> bs_len bs uses' = bs_len bs uses \<and>
    bits bs uses' = bits bs uses \<union> (place_locals ps - bits bs defs)"
  using assms(2)
proof (induction ps arbitrary: uses)
  case Nil
  then show ?case by simp
next
  case (Cons p ps)
  let ?l = "unat (pl_local p)"
  obtain u where u: "collect_use bs defs p uses = Some u" "bs_len bs u = bs_len bs uses"
      "bits bs u = bits bs uses \<union> ({?l} - bits bs defs)"
    using Cons.prems bs_insert_Some [OF assms(1), of ?l uses]
    by (cases "?l \<in> bits bs defs") (auto simp: collect_use_def bs_contains_bits insert_Diff_if)
  from Cons.IH [of u] u Cons.prems show ?case by (auto simp: insert_Diff_if)
qed

lemma fold_gen:
  assumes "bitset_laws bs" "place_locals ps \<subseteq> {..<bs_len bs live}"
  shows "\<exists>live'. fold_opt (liveness_gen bs) ps live = Some live' \<and> bs_len bs live' = bs_len bs live \<and>
    bits bs live' = bits bs live \<union> place_locals ps"
  using assms(2)
proof (induction ps arbitrary: live)
  case Nil
  then show ?case by simp
next
  case (Cons p ps)
  obtain u where u: "liveness_gen bs p live = Some u" "bs_len bs u = bs_len bs live"
      "bits bs u = insert (unat (pl_local p)) (bits bs live)"
    using Cons.prems bs_insert_Some [OF assms(1), of "unat (pl_local p)" live] by (auto simp: liveness_gen_def)
  from Cons.IH [of u] u Cons.prems show ?case by auto
qed

text \<open>A pair of bit sets of capacity \<open>cap\<close> with the members \<open>U\<close> and \<open>D\<close>.\<close>

definition holds :: "'b bitset \<Rightarrow> nat \<Rightarrow> 'b \<Rightarrow> nat set \<Rightarrow> bool" where
  "holds bs cap b S \<longleftrightarrow> bs_len bs b = cap \<and> bits bs b = S"

lemma summarize_stmt_holds:
  assumes "bitset_laws bs" "holds bs cap u U" "holds bs cap d D" "stmt_reads s \<subseteq> {..<cap}" "stmt_defs s \<subseteq> {..<cap}"
  shows "\<exists>u' d'. summarize_stmt bs s (u, d) = Some (u', d') \<and> holds bs cap u' (U \<union> (stmt_reads s - D)) \<and>
    holds bs cap d' (D \<union> stmt_defs s)"
proof (cases "st_kind s")
  case (StAssign p rv)
  obtain u' where u': "fold_opt (collect_use bs d) (walk_rvalue_reads rv) u = Some u'" "holds bs cap u' (U \<union> (stmt_reads s - D))"
    using fold_collect [OF assms(1), of "walk_rvalue_reads rv" u d] assms(2,3,4) StAssign
    by (auto simp: holds_def stmt_reads_def)
  obtain d' where "bs_insert bs d (unat (pl_local p)) = Some d'" "holds bs cap d' (D \<union> stmt_defs s)"
    using bs_insert_Some [OF assms(1), of "unat (pl_local p)" d] assms(3,5) StAssign by (auto simp: holds_def stmt_defs_def)
  then show ?thesis using u' StAssign by (simp add: summarize_stmt_def)
qed (use assms in \<open>simp_all add: summarize_stmt_def stmt_reads_def stmt_defs_def\<close>)

lemma fold_summarize:
  assumes "bitset_laws bs" "holds bs cap u U" "holds bs cap d D"
    "\<Union> (stmt_reads ` set ss) \<subseteq> {..<cap}" "\<Union> (stmt_defs ` set ss) \<subseteq> {..<cap}" "term_defs blk \<subseteq> {..<cap}" "term_reads blk \<subseteq> {..<cap}"
  shows "\<exists>u' d'. do {
      (uses, defs) \<leftarrow> fold_opt (summarize_stmt bs) ss (u, d);
      uses' \<leftarrow> fold_opt (collect_use bs defs) (walk_terminator_reads (tm_kind (bb_terminator blk))) uses;
      case tm_kind (bb_terminator blk) of
        TCall _ _ dest _ _ \<Rightarrow> do { defs' \<leftarrow> bs_insert bs defs (unat (pl_local dest)); Some (uses', defs') }
      | _ \<Rightarrow> Some (uses', defs)
    } = Some (u', d') \<and> holds bs cap u' (U \<union> (suffix_uses blk ss - D)) \<and> holds bs cap d' (D \<union> suffix_defs blk ss)"
  using assms(2-5)
proof (induction ss arbitrary: u d U D)
  case Nil
  obtain u' where u': "fold_opt (collect_use bs d) (walk_terminator_reads (tm_kind (bb_terminator blk))) u = Some u'"
      "holds bs cap u' (U \<union> (term_reads blk - D))"
    using fold_collect [OF assms(1), of "walk_terminator_reads (tm_kind (bb_terminator blk))" u d] Nil assms(7)
    by (auto simp: holds_def term_reads_def)
  show ?case
  proof (cases "tm_kind (bb_terminator blk)")
    case (TCall f args dest t c)
    obtain d' where "bs_insert bs d (unat (pl_local dest)) = Some d'" "holds bs cap d' (D \<union> term_defs blk)"
      using bs_insert_Some [OF assms(1), of "unat (pl_local dest)" d] Nil(2) assms(6) TCall
      by (auto simp: holds_def term_defs_def)
    then show ?thesis using u' TCall by simp
  qed (use u' Nil in \<open>simp_all add: term_defs_def\<close>)
next
  case (Cons s ss)
  obtain u1 d1 where 1: "summarize_stmt bs s (u, d) = Some (u1, d1)" "holds bs cap u1 (U \<union> (stmt_reads s - D))"
      "holds bs cap d1 (D \<union> stmt_defs s)"
    using summarize_stmt_holds [OF assms(1) Cons.prems(1,2), of s] Cons.prems(3,4) by auto
  have eq: "U \<union> (stmt_reads s - D) \<union> (suffix_uses blk ss - (D \<union> stmt_defs s)) = U \<union> (suffix_uses blk (s # ss) - D)"
    "D \<union> stmt_defs s \<union> suffix_defs blk ss = D \<union> suffix_defs blk (s # ss)" by auto
  show ?case using Cons.IH [OF 1(2,3)] Cons.prems(3,4) 1(1) unfolding eq by simp
qed

lemma capacity_mono: "m \<le> foldl stmt_capacity m ss" "m \<le> block_capacity m blk" "m \<le> foldl block_capacity m blks"
proof -
  show st: "m \<le> foldl stmt_capacity m ss" for m ss
  proof (induction ss arbitrary: m)
    case (Cons s ss)
    have "m \<le> stmt_capacity m s" by (simp add: stmt_capacity_def split: statement_kind.splits)
    then show ?case using Cons [of "stmt_capacity m s"] by simp
  qed simp
  show bl: "m \<le> block_capacity m blk" for m blk
    using st [of m "bb_statements blk"] by (auto simp: block_capacity_def Let_def split: terminator_kind.splits)
  show "m \<le> foldl block_capacity m blks"
    using bl by (induction blks arbitrary: m) (auto intro: order_trans)
qed

lemma stmt_defs_capacity: "s \<in> set ss \<Longrightarrow> stmt_defs s \<subseteq> {..<foldl stmt_capacity m ss}"
proof (induction ss arbitrary: m)
  case (Cons x ss)
  show ?case
  proof (cases "s = x")
    case True
    have "stmt_defs x \<subseteq> {..<stmt_capacity m x}"
      by (auto simp: stmt_defs_def stmt_capacity_def split: statement_kind.splits)
    then show ?thesis using capacity_mono(1) [of "stmt_capacity m x" ss] True by auto
  qed (use Cons in auto)
qed simp

lemma block_defs_capacity:
  "s \<in> set (bb_statements blk) \<Longrightarrow> stmt_defs s \<subseteq> {..<block_capacity m blk}" "term_defs blk \<subseteq> {..<block_capacity m blk}"
proof -
  show "stmt_defs s \<subseteq> {..<block_capacity m blk}" if "s \<in> set (bb_statements blk)"
    using stmt_defs_capacity [OF that, of m] by (auto simp: block_capacity_def Let_def split: terminator_kind.splits)
  show "term_defs blk \<subseteq> {..<block_capacity m blk}"
    by (auto simp: block_capacity_def term_defs_def Let_def split: terminator_kind.splits)
qed

lemma body_defs_capacity:
  assumes "blk \<in> set (bd_blocks body)"
  shows "\<Union> (stmt_defs ` set (bb_statements blk)) \<subseteq> {..<local_capacity body}" "term_defs blk \<subseteq> {..<local_capacity body}"
proof -
  have "\<exists>m. block_capacity m blk \<le> foldl block_capacity k blks" if "blk \<in> set blks" for k blks
    using that
  proof (induction blks arbitrary: k)
    case (Cons x blks)
    then show ?case using capacity_mono(3) [of "block_capacity k x" blks] by auto
  qed simp
  then obtain m where "block_capacity m blk \<le> local_capacity body" using assms by (auto simp: local_capacity_def)
  then show "\<Union> (stmt_defs ` set (bb_statements blk)) \<subseteq> {..<local_capacity body}"
      "term_defs blk \<subseteq> {..<local_capacity body}"
    using block_defs_capacity(1) [where blk = blk and m = m] block_defs_capacity(2) [of blk m] by fastforce+
qed

lemma map_opt_total:
  "(\<And>x. x \<in> set xs \<Longrightarrow> \<exists>y. f x = Some y \<and> P x y) \<Longrightarrow> \<exists>ys. map_opt f xs = Some ys \<and> list_all2 P xs ys"
  by (induction xs) fastforce+

lemma summaries_hold:
  assumes "bitset_laws bs" "reads_ok body"
  shows "\<exists>summary. compute_block_summaries bs body = Some summary \<and>
    list_all2 (\<lambda>blk ud. holds bs (local_capacity body) (fst ud) (blk_uses blk) \<and>
      holds bs (local_capacity body) (snd ud) (blk_defs blk)) (bd_blocks body) summary"
  unfolding compute_block_summaries_def
proof (rule map_opt_total)
  fix blk assume blk: "blk \<in> set (bd_blocks body)"
  have "\<Union> (stmt_reads ` set (bb_statements blk)) \<subseteq> {..<local_capacity body}" "term_reads blk \<subseteq> {..<local_capacity body}"
    using assms(2) blk by (auto simp: reads_ok_def body_reads_def)
  moreover have "holds bs (local_capacity body) (bs_with_capacity bs (local_capacity body)) {}"
    using assms(1) by (simp add: holds_def bitset_simps)
  ultimately show "\<exists>ud. summarize_block bs (local_capacity body) blk = Some ud \<and>
      holds bs (local_capacity body) (fst ud) (blk_uses blk) \<and> holds bs (local_capacity body) (snd ud) (blk_defs blk)"
    using fold_summarize [OF assms(1), of "local_capacity body" _ "{}" _ "{}" "bb_statements blk" blk] body_defs_capacity [OF blk]
    unfolding summarize_block_def blk_uses_def blk_defs_def by fastforce
qed

subsection \<open>Predecessors and the queue\<close>

lemma flow_edges_set: "(i, s) \<in> set (flow_edges blocks) \<longleftrightarrow> i < length blocks \<and> s \<in> set (block_succs (blocks ! i))"
  by (auto simp: flow_edges_def)

lemma fold_push_pred:
  assumes "\<forall>(i, s)\<in>set es. s < length ps"
  shows "\<exists>ps'. fold_opt push_pred es ps = Some ps' \<and> length ps' = length ps \<and>
    (\<forall>k<length ps. set (ps' ! k) = set (ps ! k) \<union> {i. (i, k) \<in> set es})"
  using assms
proof (induction es arbitrary: ps)
  case Nil
  then show ?case by simp
next
  case (Cons e es)
  obtain i s where e: "e = (i, s)" by (cases e)
  let ?ps = "ps[s := ps ! s @ [i]]"
  have s: "s < length ps" using Cons.prems e by simp
  from Cons.IH [of ?ps] Cons.prems obtain ps' where ps': "fold_opt push_pred es ?ps = Some ps'" "length ps' = length ps"
      "\<forall>k<length ps. set (ps' ! k) = set (?ps ! k) \<union> {i. (i, k) \<in> set es}" by auto
  moreover have "push_pred e ps = Some ?ps" using s e by (simp add: push_pred_def)
  ultimately show ?case using s e by (auto simp: nth_list_update)
qed

lemma block_predecessors_total:
  assumes "flow_ok body"
  shows "\<exists>preds. block_predecessors (bd_blocks body) = Some preds \<and> length preds = length (bd_blocks body) \<and>
    (\<forall>k<length (bd_blocks body). set (preds ! k) =
      {i. i < length (bd_blocks body) \<and> k \<in> set (block_succs (bd_blocks body ! i))})"
proof -
  let ?n = "length (bd_blocks body)"
  have "\<forall>(i, s)\<in>set (flow_edges (bd_blocks body)). s < length (replicate ?n ([] :: nat list))"
    using assms by (auto simp: flow_edges_set flow_ok_def list_all_iff) (metis nth_mem)
  from fold_push_pred [OF this] show ?thesis
    unfolding block_predecessors_def by (auto simp: flow_edges_set)
qed

text \<open>The queue and its membership bits agree.\<close>

definition queue_ok :: "'b bitset \<Rightarrow> nat \<Rightarrow> nat list \<Rightarrow> 'b \<Rightarrow> bool" where
  "queue_ok bs n work inw \<longleftrightarrow> distinct work \<and> set work \<subseteq> {..<n} \<and> holds bs n inw (set work)"

lemma queue_ok_length: "queue_ok bs n work inw \<Longrightarrow> length work \<le> n"
  using card_mono [of "{..<n}" "set work"] by (auto simp: queue_ok_def distinct_card)

lemma all_queued_ok:
  assumes "bitset_laws bs"
  shows "\<exists>work inw. all_queued bs n = Some (work, inw) \<and> set work = {..<n} \<and> queue_ok bs n work inw"
proof -
  have "\<exists>b'. fold_opt (\<lambda>i b. bs_insert bs b i) is b = Some b' \<and> holds bs n b' (bits bs b \<union> set is)"
    if "bs_len bs b = n" "set is \<subseteq> {..<n}" for "is" b
    using that
  proof (induction "is" arbitrary: b)
    case (Cons i "is")
    then obtain c where "bs_insert bs b i = Some c" "bs_len bs c = n" "bits bs c = insert i (bits bs b)"
      using bs_insert_Some [OF assms, of i b] by auto
    then show ?case using Cons.IH [of c] Cons.prems by auto
  qed (simp add: holds_def)
  from this [of "bs_with_capacity bs n" "[0..<n]"] obtain b where
    "fold_opt (\<lambda>i b. bs_insert bs b i) [0..<n] (bs_with_capacity bs n) = Some b" "holds bs n b {..<n}"
    using assms by (auto simp: bitset_simps atLeast0LessThan)
  then show ?thesis by (auto simp: all_queued_def queue_ok_def atLeast0LessThan)
qed

lemma queue_pop:
  assumes "bitset_laws bs" "queue_ok bs n (b # work) inw"
  shows "\<exists>inw'. bs_remove bs inw b = Some inw' \<and> queue_ok bs n work inw'"
  using bs_remove_Some [OF assms(1), of b inw] assms(2) by (auto simp: queue_ok_def holds_def)

lemma fold_enqueue:
  assumes "bitset_laws bs" "queue_ok bs n work inw" "set ps \<subseteq> {..<n}"
  shows "\<exists>work' inw'. fold_opt (enqueue bs) ps (work, inw) = Some (work', inw') \<and> queue_ok bs n work' inw' \<and>
    set work' = set work \<union> set ps"
  using assms(2,3)
proof (induction ps arbitrary: work inw)
  case (Cons p ps)
  have "\<exists>work' inw'. enqueue bs p (work, inw) = Some (work', inw') \<and> queue_ok bs n work' inw' \<and> set work' = insert p (set work)"
    using bs_insert_Some [OF assms(1), of p inw] Cons.prems
    by (auto simp: enqueue_def queue_ok_def holds_def bs_contains_bits)
  then obtain w i where "enqueue bs p (work, inw) = Some (w, i)" "queue_ok bs n w i" "set w = insert p (set work)" by blast
  then show ?case using Cons.IH [of w i] Cons.prems by auto
qed auto

subsection \<open>The equations\<close>

text \<open>Facts are tagged \<open>True\<close> on entry and \<open>False\<close> on exit.\<close>

definition live_F :: "nat \<Rightarrow> (nat \<Rightarrow> nat set) \<Rightarrow> (nat \<Rightarrow> nat set) \<Rightarrow> (nat \<Rightarrow> nat set) \<Rightarrow> nat \<Rightarrow>
    (nat \<Rightarrow> (bool \<times> nat) set) \<Rightarrow> (bool \<times> nat) set" where
  "live_F cap succ use kill b X =
    (let out = (\<Union>s\<in>succ b. {l. (True, l) \<in> X s}) in
     Pair True ` ((use b \<inter> {..<cap}) \<union> (out - kill b)) \<union> Pair False ` out)"

definition flow_deps :: "nat \<Rightarrow> (nat \<Rightarrow> nat set) \<Rightarrow> nat \<Rightarrow> nat set" where
  "flow_deps n succ b = {c. c < n \<and> b \<in> succ c}"

interpretation live: worklist n "live_F cap succ use kill" "flow_deps n succ" "UNIV \<times> {..<cap}"
  for n cap succ use kill
proof
  show "live_F cap succ use kill b X \<subseteq> live_F cap succ use kill b Y" if "\<And>c. X c \<subseteq> Y c" for X Y b
    using that unfolding live_F_def Let_def by (intro Un_mono image_mono Diff_mono UN_mono) auto
  show "live_F cap succ use kill c (X(b := S)) = live_F cap succ use kill c X" if "c \<notin> flow_deps n succ b" "c < n" for c b X S
  proof -
    have "(X(b := S)) s = X s" if "s \<in> succ c" for s using \<open>c \<notin> _\<close> \<open>c < n\<close> that by (auto simp: flow_deps_def)
    then show ?thesis by (simp add: live_F_def)
  qed
  show "live_F cap succ use kill b X \<subseteq> UNIV \<times> {..<cap}" if "\<And>c. X c \<subseteq> UNIV \<times> {..<cap}" for X b
    using that by (fastforce simp: live_F_def Let_def)
qed (auto simp: flow_deps_def)

subsection \<open>The loop\<close>

definition live_facts :: "'b bitset \<Rightarrow> 'b list \<Rightarrow> 'b list \<Rightarrow> nat \<Rightarrow> (bool \<times> nat) set" where
  "live_facts bs live_in live_out b =
    (if b < length live_in then Pair True ` bits bs (live_in ! b) \<union> Pair False ` bits bs (live_out ! b) else {})"

definition sets_ok :: "'b bitset \<Rightarrow> nat \<Rightarrow> nat \<Rightarrow> 'b list \<Rightarrow> bool" where
  "sets_ok bs n cap xs \<longleftrightarrow> length xs = n \<and> (\<forall>x\<in>set xs. bs_len bs x = cap)"

lemma tagged_eq: "Pair True ` A \<union> Pair False ` B = Pair True ` C \<union> Pair False ` D \<longleftrightarrow> A = C \<and> B = D"
  by (auto simp: set_eq_iff image_iff)

lemma fold_union:
  assumes "bitset_laws bs" "\<forall>s\<in>set ss. bs_len bs (xs ! s) = bs_len bs acc"
  shows "bs_len bs (foldl (\<lambda>acc s. bs_union bs acc (xs ! s)) acc ss) = bs_len bs acc \<and>
    bits bs (foldl (\<lambda>acc s. bs_union bs acc (xs ! s)) acc ss) = bits bs acc \<union> (\<Union>s\<in>set ss. bits bs (xs ! s))"
  using assms(2)
proof (induction ss arbitrary: acc)
  case (Cons s ss)
  then show ?case using Cons.IH [of "bs_union bs acc (xs ! s)"] by (auto simp: bitset_simps [OF assms(1)])
qed simp

lemma live_update_facts:
  assumes "bitset_laws bs" "sets_ok bs n cap live_in" "\<forall>s\<in>set (succs ! b). s < n"
    "holds bs cap (fst (summary ! b)) U" "holds bs cap (snd (summary ! b)) D" "b < n"
    "live_update bs cap succs summary live_in b = (new_in, new_out)"
    "succ b = set (succs ! b)" "use b = U" "kill b = D"
  shows "bs_len bs new_in = cap \<and> bs_len bs new_out = cap \<and>
    Pair True ` bits bs new_in \<union> Pair False ` bits bs new_out =
      live_F cap succ use kill b (live_facts bs live_in live_out)"
proof -
  have in_len: "\<forall>s\<in>set (succs ! b). bs_len bs (live_in ! s) = bs_len bs (bs_with_capacity bs cap)"
    using assms(1,2,3) by (auto simp: sets_ok_def bitset_simps)
  note fu = fold_union [OF assms(1) in_len]
  have out: "bs_len bs new_out = cap" "bits bs new_out = (\<Union>s\<in>succ b. {l. (True, l) \<in> live_facts bs live_in live_out s})"
    using fu assms(2,3,7,8) by (auto simp: live_update_def Let_def bitset_simps [OF assms(1)] live_facts_def sets_ok_def)
  have inn: "bs_len bs new_in = cap" "bits bs new_in = U \<union> (bits bs new_out - D)"
    using assms(4,5,7) fu by (auto simp: live_update_def Let_def bitset_simps [OF assms(1)] holds_def)
  have "U \<subseteq> {..<cap}" using bits_bound [OF assms(1), of "fst (summary ! b)"] assms(4) by (simp add: holds_def)
  then have "U \<inter> {..<cap} = U" by blast
  then show ?thesis using out inn assms(9,10) by (simp add: live_F_def Let_def)
qed

lemma live_facts_update:
  assumes "b < length live_in" "length live_out = length live_in"
  shows "live_facts bs (live_in[b := i]) (live_out[b := o']) =
    (live_facts bs live_in live_out)(b := Pair True ` bits bs i \<union> Pair False ` bits bs o')"
  using assms by (auto simp: live_facts_def nth_list_update fun_eq_iff)

lemma lex_measure: "m' < m \<Longrightarrow> k \<le> n \<Longrightarrow> m' * Suc n + k < m * Suc n + j" for m :: nat
  using mult_le_mono1 [of "Suc m'" m "Suc n"] by simp

lemma live_loop_Nil: "live_loop bs cap succs preds summary [] inw live_in live_out = Some live_out"
  by (subst live_loop.simps) simp

lemma live_loop_same:
  assumes "bs_remove bs inw b = Some inw'" "live_update bs cap succs summary live_in b = (ni, no)"
    "bs_eq bs ni (live_in ! b)" "bs_eq bs no (live_out ! b)"
  shows "live_loop bs cap succs preds summary (b # work) inw live_in live_out =
    live_loop bs cap succs preds summary work inw' live_in live_out"
  using assms by (subst live_loop.simps) simp

lemma live_loop_changed:
  assumes "bs_remove bs inw b = Some inw'" "live_update bs cap succs summary live_in b = (ni, no)"
    "\<not> (bs_eq bs ni (live_in ! b) \<and> bs_eq bs no (live_out ! b))"
    "fold_opt (enqueue bs) (preds ! b) (work, inw') = Some (w, i)"
  shows "live_loop bs cap succs preds summary (b # work) inw live_in live_out =
    live_loop bs cap succs preds summary w i (live_in[b := ni]) (live_out[b := no])"
  using assms by (subst live_loop.simps) auto

text \<open>What the loop is given, and its state.\<close>

definition flow_data :: "'b bitset \<Rightarrow> nat \<Rightarrow> nat \<Rightarrow> nat list list \<Rightarrow> nat list list \<Rightarrow> ('b \<times> 'b) list \<Rightarrow>
    (nat \<Rightarrow> nat set) \<Rightarrow> (nat \<Rightarrow> nat set) \<Rightarrow> (nat \<Rightarrow> nat set) \<Rightarrow> bool" where
  "flow_data bs n cap succs preds summary succ use kill \<longleftrightarrow> bitset_laws bs \<and>
    (\<forall>b<n. holds bs cap (fst (summary ! b)) (use b) \<and> holds bs cap (snd (summary ! b)) (kill b)) \<and>
    (\<forall>b<n. set (succs ! b) = succ b \<and> succ b \<subseteq> {..<n}) \<and> (\<forall>b<n. set (preds ! b) = flow_deps n succ b)"

definition live_state :: "'b bitset \<Rightarrow> nat \<Rightarrow> nat \<Rightarrow> (nat \<Rightarrow> nat set) \<Rightarrow> (nat \<Rightarrow> nat set) \<Rightarrow> (nat \<Rightarrow> nat set) \<Rightarrow>
    nat list \<Rightarrow> 'b \<Rightarrow> 'b list \<Rightarrow> 'b list \<Rightarrow> bool" where
  "live_state bs n cap succ use kill work inw live_in live_out \<longleftrightarrow> queue_ok bs n work inw \<and>
    sets_ok bs n cap live_in \<and> sets_ok bs n cap live_out \<and>
    live.inv n cap succ use kill (set work) (live_facts bs live_in live_out)"

lemma live_update_changed:
  assumes "flow_data bs n cap succs preds summary succ use kill"
    "live_state bs n cap succ use kill work inw live_in live_out" "b < n"
    "live_update bs cap succs summary live_in b = (ni, no)"
  shows "bs_len bs ni = cap \<and> bs_len bs no = cap \<and>
    (bs_eq bs ni (live_in ! b) \<and> bs_eq bs no (live_out ! b) \<longleftrightarrow>
      live_F cap succ use kill b (live_facts bs live_in live_out) = live_facts bs live_in live_out b) \<and>
    live_facts bs (live_in[b := ni]) (live_out[b := no]) =
      (live_facts bs live_in live_out)(b := live_F cap succ use kill b (live_facts bs live_in live_out))"
proof -
  let ?X = "live_facts bs live_in live_out"
  have laws: "bitset_laws bs" using assms(1) by (simp add: flow_data_def)
  have len: "bs_len bs (live_in ! b) = cap" "bs_len bs (live_out ! b) = cap" "length live_in = n" "length live_out = n"
    and sin: "sets_ok bs n cap live_in"
    using assms(2,3) by (auto simp: live_state_def sets_ok_def)
  have d: "\<forall>s\<in>set (succs ! b). s < n" "holds bs cap (fst (summary ! b)) (use b)" "holds bs cap (snd (summary ! b)) (kill b)"
      "succ b = set (succs ! b)"
    using assms(1,3) unfolding flow_data_def by auto
  have facts: "bs_len bs ni = cap" "bs_len bs no = cap"
      "Pair True ` bits bs ni \<union> Pair False ` bits bs no = live_F cap succ use kill b ?X"
    using live_update_facts [OF laws sin d(1-3) assms(3,4), where succ = succ and use = use and kill = kill and
        live_out = live_out, OF d(4) refl refl] by blast+
  have Xb: "?X b = Pair True ` bits bs (live_in ! b) \<union> Pair False ` bits bs (live_out ! b)"
    using assms(3) len by (simp add: live_facts_def)
  have "bs_eq bs ni (live_in ! b) \<and> bs_eq bs no (live_out ! b) \<longleftrightarrow> live_F cap succ use kill b ?X = ?X b"
    unfolding facts(3) [symmetric] Xb tagged_eq
    by (simp add: bs_eq_bits [OF laws, of ni "live_in ! b"] bs_eq_bits [OF laws, of no "live_out ! b"] facts(1,2) len(1,2))
  moreover have "live_facts bs (live_in[b := ni]) (live_out[b := no]) = ?X(b := live_F cap succ use kill b ?X)"
    using live_facts_update [of b live_in live_out bs ni no] assms(3) len(3,4) unfolding facts(3) by simp
  ultimately show ?thesis using facts(1,2) by blast
qed

lemma live_step:
  assumes data: "flow_data bs n cap succs preds summary succ use kill"
    and st: "live_state bs n cap succ use kill (b # work) inw live_in live_out"
  shows "\<exists>w i li lo. live_loop bs cap succs preds summary (b # work) inw live_in live_out =
      live_loop bs cap succs preds summary w i li lo \<and> live_state bs n cap succ use kill w i li lo \<and>
    live.missing n cap (live_facts bs li lo) * Suc n + length w
      < live.missing n cap (live_facts bs live_in live_out) * Suc n + length (b # work)"
proof -
  let ?X = "live_facts bs live_in live_out" and ?F = "live_F cap succ use kill b (live_facts bs live_in live_out)"
  have laws: "bitset_laws bs" using data by (simp add: flow_data_def)
  have q: "queue_ok bs n (b # work) inw" and inv: "live.inv n cap succ use kill (set (b # work)) ?X"
    using st by (auto simp: live_state_def)
  obtain inw' where pop: "bs_remove bs inw b = Some inw'" "queue_ok bs n work inw'" using queue_pop [OF laws q] by blast
  have b: "b < n" and W: "set (b # work) - {b} = set work" using q by (auto simp: queue_ok_def)
  have pb: "set (preds ! b) = flow_deps n succ b" using data b by (simp add: flow_data_def)
  obtain ni no where new: "live_update bs cap succs summary live_in b = (ni, no)" by fastforce
  note upd = live_update_changed [OF data st b new]
  have b_in: "b \<in> set (b # work)" by simp
  note step = live.inv_step [OF inv b_in, unfolded W]
  show ?thesis
  proof (cases "?F = ?X b")
    case True
    then have "?X(b := ?F) = ?X" by simp
    then have "live_state bs n cap succ use kill work inw' live_in live_out"
      using step True pop(2) st by (simp add: live_state_def)
    then show ?thesis using live_loop_same [OF pop(1) new, of live_out preds work] upd True
      by (intro exI [of _ work] exI [of _ inw'] exI [of _ live_in] exI [of _ live_out]) simp
  next
    case False
    have "set (preds ! b) \<subseteq> {..<n}" using pb by (auto simp: flow_deps_def)
    then obtain w i where w: "fold_opt (enqueue bs) (preds ! b) (work, inw') = Some (w, i)" "queue_ok bs n w i"
        "set w = set work \<union> set (preds ! b)"
      using fold_enqueue [OF laws pop(2)] by blast
    have "sets_ok bs n cap (live_in[b := ni])" "sets_ok bs n cap (live_out[b := no])"
      using st upd by (auto simp: live_state_def sets_ok_def dest!: set_update_subset_insert [THEN subsetD])
    then have "live_state bs n cap succ use kill w i (live_in[b := ni]) (live_out[b := no])"
      using step False w pb upd by (simp add: live_state_def)
    moreover have "live.missing n cap (live_facts bs (live_in[b := ni]) (live_out[b := no])) < live.missing n cap ?X"
      using live.missing_step [OF inv b_in False] upd by simp
    then have "live.missing n cap (live_facts bs (live_in[b := ni]) (live_out[b := no])) * Suc n + length w
        < live.missing n cap ?X * Suc n + length (b # work)"
      using queue_ok_length [OF w(2)] by (rule lex_measure)
    ultimately show ?thesis using live_loop_changed [OF pop(1) new _ w(1)] upd False by metis
  qed
qed

lemma live_loop_total:
  assumes "flow_data bs n cap succs preds summary succ use kill"
    "live_state bs n cap succ use kill work inw live_in live_out"
  shows "\<exists>inw' live_in' live_out'. live_loop bs cap succs preds summary work inw live_in live_out = Some live_out' \<and>
    live_state bs n cap succ use kill [] inw' live_in' live_out'"
  using assms(2)
proof (induction "live.missing n cap (live_facts bs live_in live_out) * Suc n + length work"
    arbitrary: work inw live_in live_out rule: less_induct)
  case less
  show ?case
  proof (cases work)
    case Nil
    then show ?thesis using less.prems live_loop_Nil [of bs cap succs preds summary inw live_in live_out] by auto
  next
    case (Cons b work')
    then show ?thesis using live_step [OF assms(1)] less by metis
  qed
qed

subsection \<open>Correctness\<close>

lemma suffix_live:
  assumes "b < length (bd_blocks body)" "blk = bd_blocks body ! b" "i \<le> length (bb_statements blk)"
    "l \<in> suffix_uses blk (drop i (bb_statements blk)) \<or>
      l \<notin> suffix_defs blk (drop i (bb_statements blk)) \<and> (\<exists>c\<in>set (block_succs blk). live_at body c 0 l)"
  shows "live_at body b i l"
  using assms(3,4)
proof (induction "length (bb_statements blk) - i" arbitrary: i)
  case 0
  then have "i = length (bb_statements blk)" by simp
  then show ?case using 0 assms(1,2) live_term live_jump by (auto simp: assms(2))
next
  case (Suc k)
  then have i: "i < length (bb_statements blk)" by simp
  have "drop i (bb_statements blk) = bb_statements blk ! i # drop (Suc i) (bb_statements blk)"
    using i by (simp add: Cons_nth_drop_Suc)
  then consider "l \<in> stmt_reads (bb_statements blk ! i)"
    | "l \<notin> stmt_defs (bb_statements blk ! i)" "l \<in> suffix_uses blk (drop (Suc i) (bb_statements blk)) \<or>
        l \<notin> suffix_defs blk (drop (Suc i) (bb_statements blk)) \<and> (\<exists>c\<in>set (block_succs blk). live_at body c 0 l)"
    using Suc.prems(2) by auto
  then show ?case
  proof cases
    case 1
    then show ?thesis using live_read [of b body i l] assms(1,2) i by simp
  next
    case 2
    then have "live_at body b (Suc i) l" using Suc.hyps(1) [of "Suc i"] Suc.hyps(2) i by simp
    then show ?thesis using live_pass [of b body i l] assms(1,2) i 2(1) by simp
  qed
qed

text \<open>The converse: a solution of the equations contains every live local.\<close>

lemma live_suffix:
  assumes "live_at body b i l"
    and sol: "\<And>b. b < length (bd_blocks body) \<Longrightarrow> blk_uses (bd_blocks body ! b) \<subseteq> IN b"
      "\<And>b. b < length (bd_blocks body) \<Longrightarrow> (\<Union>c\<in>set (block_succs (bd_blocks body ! b)). IN c) - blk_defs (bd_blocks body ! b) \<subseteq> IN b"
  shows "b < length (bd_blocks body) \<and> i \<le> length (bb_statements (bd_blocks body ! b)) \<and>
    (l \<in> suffix_uses (bd_blocks body ! b) (drop i (bb_statements (bd_blocks body ! b))) \<or>
     l \<notin> suffix_defs (bd_blocks body ! b) (drop i (bb_statements (bd_blocks body ! b))) \<and>
       (\<exists>c\<in>set (block_succs (bd_blocks body ! b)). l \<in> IN c))"
  using assms(1)
proof (induction rule: live_at.induct)
  case (live_jump b l c)
  have "l \<in> IN c"
    using live_jump.IH sol(1) [of c] sol(2) [of c] by (auto simp: blk_uses_def blk_defs_def)
  then show ?case using live_jump by auto
qed (auto simp: Cons_nth_drop_Suc [symmetric])

definition succ_of :: "body \<Rightarrow> nat \<Rightarrow> nat set" where
  "succ_of body b = set (block_succs (bd_blocks body ! b))"

lemma live_in_solution:
  assumes "live_at body c 0 l"
    "\<And>b. b < length (bd_blocks body) \<Longrightarrow> blk_uses (bd_blocks body ! b) \<subseteq> IN b"
    "\<And>b. b < length (bd_blocks body) \<Longrightarrow> (\<Union>c\<in>set (block_succs (bd_blocks body ! b)). IN c) - blk_defs (bd_blocks body ! b) \<subseteq> IN b"
  shows "l \<in> IN c"
  using live_suffix [OF assms] assms(2,3) [of c] by (auto simp: blk_uses_def blk_defs_def)

lemma blk_uses_bound:
  assumes "reads_ok body" "b < length (bd_blocks body)"
  shows "blk_uses (bd_blocks body ! b) \<subseteq> {..<local_capacity body}"
proof -
  have "suffix_uses blk ss \<subseteq> (\<Union>s\<in>set ss. stmt_reads s) \<union> term_reads blk" for blk ss
    by (induction ss) auto
  from this [of "bd_blocks body ! b" "bb_statements (bd_blocks body ! b)"] have "blk_uses (bd_blocks body ! b) \<subseteq> body_reads body"
    using nth_mem [OF assms(2)] unfolding blk_uses_def body_reads_def by fastforce
  then show ?thesis using assms(1) by (auto simp: reads_ok_def)
qed

lemma live_F_iff:
  "(True, l) \<in> live_F cap succ use kill b X \<longleftrightarrow> l \<in> use b \<and> l < cap \<or> l \<notin> kill b \<and> (\<exists>s\<in>succ b. (True, l) \<in> X s)"
  "(False, l) \<in> live_F cap succ use kill b X \<longleftrightarrow> (\<exists>s\<in>succ b. (True, l) \<in> X s)"
  by (auto simp: live_F_def Let_def image_iff)

lemma block_live:
  assumes "b < length (bd_blocks body)" "l \<in> blk_uses (bd_blocks body ! b) \<or>
      l \<notin> blk_defs (bd_blocks body ! b) \<and> (\<exists>c\<in>succ_of body b. live_at body c 0 l)"
  shows "live_at body b 0 l"
  using suffix_live [OF assms(1) refl, of 0 l] assms(2) by (simp add: blk_uses_def blk_defs_def succ_of_def)

lemma live_solution:
  assumes inv: "live.inv (length (bd_blocks body)) (local_capacity body) (succ_of body)
      (\<lambda>b. blk_uses (bd_blocks body ! b)) (\<lambda>b. blk_defs (bd_blocks body ! b)) {} X"
    and "reads_ok body" "b < length (bd_blocks body)"
  shows "{l. (False, l) \<in> X b} = {l. \<exists>c\<in>set (block_succs (bd_blocks body ! b)). live_at body c 0 l}"
proof -
  let ?n = "length (bd_blocks body)"
  let ?F = "live_F (local_capacity body) (succ_of body) (\<lambda>b. blk_uses (bd_blocks body ! b)) (\<lambda>b. blk_defs (bd_blocks body ! b))"
  define Y where "Y b = {(t, l). if t then live_at body b 0 l else \<exists>c\<in>succ_of body b. live_at body c 0 l}" for b
  have Y: "?F b Y \<subseteq> Y b" if "b < ?n" for b
  proof (rule subrelI)
    fix t l assume a: "(t, l) \<in> ?F b Y"
    then show "(t, l) \<in> Y b"
      using block_live [OF that, of l] by (cases t) (auto simp: live_F_iff Y_def)
  qed
  have XF: "X b = ?F b X" if "b < ?n" for b using live.inv_end [OF inv that] .
  have IN: "l \<in> {l. (True, l) \<in> X c}" if "live_at body c 0 l" for c l
  proof (rule live_in_solution [OF that])
    fix b assume b: "b < ?n"
    show "blk_uses (bd_blocks body ! b) \<subseteq> {l. (True, l) \<in> X b}"
      using blk_uses_bound [OF assms(2) b] by (subst XF [OF b]) (auto simp: live_F_iff)
    show "(\<Union>c\<in>set (block_succs (bd_blocks body ! b)). {l. (True, l) \<in> X c}) - blk_defs (bd_blocks body ! b)
        \<subseteq> {l. (True, l) \<in> X b}"
    proof
      fix l assume "l \<in> (\<Union>c\<in>set (block_succs (bd_blocks body ! b)). {l. (True, l) \<in> X c}) - blk_defs (bd_blocks body ! b)"
      then have "(True, l) \<in> ?F b X" by (auto simp: live_F_iff succ_of_def)
      then show "l \<in> {l. (True, l) \<in> X b}" using XF [OF b] by blast
    qed
  qed
  have "X b \<subseteq> Y b" by (rule live.inv_least [OF inv Y assms(3)])
  moreover have "(False, l) \<in> X b" if "c \<in> succ_of body b" "live_at body c 0 l" for c l
    using IN [OF that(2)] that(1) by (subst XF [OF assms(3)]) (auto simp: live_F_iff)
  ultimately show ?thesis by (auto simp: Y_def succ_of_def)
qed

lemma compute_liveness_total:
  assumes laws: "bitset_laws bs" and "flow_ok body" "reads_ok body"
  shows "\<exists>live_out. compute_liveness bs body = Some live_out \<and> sets_ok bs (length (bd_blocks body)) (local_capacity body) live_out \<and>
    (\<forall>b<length (bd_blocks body). bits bs (live_out ! b) =
      {l. \<exists>c\<in>set (block_succs (bd_blocks body ! b)). live_at body c 0 l})"
proof -
  let ?n = "length (bd_blocks body)" and ?cap = "local_capacity body" and ?succs = "map block_succs (bd_blocks body)"
  let ?use = "\<lambda>b. blk_uses (bd_blocks body ! b)" and ?kill = "\<lambda>b. blk_defs (bd_blocks body ! b)"
  let ?empty = "replicate ?n (bs_with_capacity bs ?cap)"
  obtain summary where summary: "compute_block_summaries bs body = Some summary"
      "list_all2 (\<lambda>blk ud. holds bs ?cap (fst ud) (blk_uses blk) \<and> holds bs ?cap (snd ud) (blk_defs blk)) (bd_blocks body) summary"
    using summaries_hold [OF laws assms(3)] by blast
  obtain preds where preds: "block_predecessors (bd_blocks body) = Some preds" "length preds = ?n"
      "\<forall>k<?n. set (preds ! k) = {i. i < ?n \<and> k \<in> set (block_succs (bd_blocks body ! i))}"
    using block_predecessors_total [OF assms(2)] by blast
  obtain work inw where q: "all_queued bs ?n = Some (work, inw)" "set work = {..<?n}" "queue_ok bs ?n work inw"
    using all_queued_ok [OF laws] by blast
  have "succ_of body b \<subseteq> {..<?n}" if "b < ?n" for b
    using assms(2) nth_mem [OF that] by (auto simp: flow_ok_def list_all_iff succ_of_def)
  then have data: "flow_data bs ?n ?cap ?succs preds summary (succ_of body) ?use ?kill"
    using laws summary(2) preds(3) by (auto simp: flow_data_def list_all2_conv_all_nth flow_deps_def succ_of_def)
  have "live_facts bs ?empty ?empty = (\<lambda>_. {})"
    using laws by (auto simp: live_facts_def bitset_simps fun_eq_iff)
  then have st: "live_state bs ?n ?cap (succ_of body) ?use ?kill work inw ?empty ?empty"
    using q laws live.inv_start by (simp add: live_state_def sets_ok_def bitset_simps)
  obtain inw' li lo where r: "live_loop bs ?cap ?succs preds summary work inw ?empty ?empty = Some lo"
      "live_state bs ?n ?cap (succ_of body) ?use ?kill [] inw' li lo"
    using live_loop_total [OF data st] by blast
  have "compute_liveness bs body = Some lo" using summary(1) preds(1) q(1) r(1) by (simp add: compute_liveness_def Let_def)
  moreover have "bits bs (lo ! b) = {l. \<exists>c\<in>set (block_succs (bd_blocks body ! b)). live_at body c 0 l}" if "b < ?n" for b
  proof -
    have "bits bs (lo ! b) = {l. (False, l) \<in> live_facts bs li lo b}"
      using r(2) that by (auto simp: live_state_def sets_ok_def live_facts_def)
    then show ?thesis using live_solution [OF _ assms(3) that] r(2) by (simp add: live_state_def)
  qed
  ultimately show ?thesis using r(2) by (auto simp: live_state_def)
qed

subsection \<open>Within a block\<close>

definition stmt_dead :: "statement \<Rightarrow> nat set" where
  "stmt_dead s = (case st_kind s of StStorageDead l \<Rightarrow> {unat l} | _ \<Rightarrow> {})"

definition storage_ok :: "body \<Rightarrow> bool" where
  "storage_ok body \<longleftrightarrow> list_all (\<lambda>blk. list_all (\<lambda>s. stmt_dead s \<subseteq> {..<local_capacity body}) (bb_statements blk)) (bd_blocks body)"

fun tail_live :: "nat set \<Rightarrow> statement list \<Rightarrow> nat set" where
  "tail_live L [] = L"
| "tail_live L (s # ss) = stmt_reads s \<union> (tail_live L ss - stmt_defs s - stmt_dead s)"

lemma stmt_live_before_holds:
  assumes "bitset_laws bs" "holds bs cap cur L" "stmt_reads s \<subseteq> {..<cap}" "stmt_defs s \<subseteq> {..<cap}" "stmt_dead s \<subseteq> {..<cap}"
  shows "\<exists>b. stmt_live_before bs s cur = Some b \<and> holds bs cap b (stmt_reads s \<union> (L - stmt_defs s - stmt_dead s))"
proof (cases "st_kind s")
  case (StAssign p rv)
  obtain k where k: "bs_remove bs cur (unat (pl_local p)) = Some k" "bs_len bs k = cap" "bits bs k = L - {unat (pl_local p)}"
    using bs_remove_Some [OF assms(1), of "unat (pl_local p)" cur] assms(2,4) StAssign by (auto simp: holds_def stmt_defs_def)
  then show ?thesis
    using fold_gen [OF assms(1), of "walk_rvalue_reads rv" k] assms(3) StAssign
    by (auto simp: stmt_live_before_def holds_def stmt_reads_def stmt_defs_def stmt_dead_def)
next
  case (StStorageDead l)
  then show ?thesis
    using bs_remove_Some [OF assms(1), of "unat l" cur] assms(2,5)
    by (auto simp: stmt_live_before_def holds_def stmt_reads_def stmt_defs_def stmt_dead_def)
qed (use assms in \<open>simp_all add: stmt_live_before_def stmt_reads_def stmt_defs_def stmt_dead_def\<close>)

lemma stmts_liveness_holds:
  assumes "bitset_laws bs" "holds bs cap out L"
    "\<And>s. s \<in> set ss \<Longrightarrow> stmt_reads s \<union> stmt_defs s \<union> stmt_dead s \<subseteq> {..<cap}"
  shows "\<exists>rs. stmts_liveness bs ss out = Some rs \<and> length rs = Suc (length ss) \<and>
    (\<forall>i\<le>length ss. holds bs cap (rs ! i) (tail_live L (drop i ss)))"
  using assms(3)
proof (induction ss)
  case Nil
  then show ?case using assms(2) by simp
next
  case (Cons s ss)
  then obtain rs where rs: "stmts_liveness bs ss out = Some rs" "length rs = Suc (length ss)"
      "\<forall>i\<le>length ss. holds bs cap (rs ! i) (tail_live L (drop i ss))" by auto
  then have hd: "holds bs cap (hd rs) (tail_live L ss)" by (cases rs) fastforce+
  obtain b where b: "stmt_live_before bs s (hd rs) = Some b" "holds bs cap b (tail_live L (s # ss))"
    using stmt_live_before_holds [OF assms(1) hd, of s] Cons.prems [of s] by auto
  have "holds bs cap ((b # rs) ! i) (tail_live L (drop i (s # ss)))" if "i \<le> length (s # ss)" for i
    using that b(2) rs(3) by (cases i) simp_all
  then show ?case using rs(1,2) b(1) by auto
qed

lemma tail_live_iff:
  assumes "b < length (bd_blocks body)" "blk = bd_blocks body ! b" "L = {l. \<exists>c\<in>set (block_succs blk). live_at body c 0 l}"
    "l \<notin> term_reads blk" "l \<notin> term_defs blk" "l \<notin> \<Union> (stmt_dead ` set (drop i (bb_statements blk)))" "i \<le> length (bb_statements blk)"
  shows "l \<in> tail_live L (drop i (bb_statements blk)) \<longleftrightarrow> live_at body b i l"
  using assms(6,7)
proof (induction "length (bb_statements blk) - i" arbitrary: i)
  case 0
  then have "i = length (bb_statements blk)" by simp
  then show ?case
    using assms(1-5) by (auto intro: live_jump elim: live_at.cases)
next
  case (Suc k)
  then have i: "i < length (bb_statements blk)" by simp
  then have d: "drop i (bb_statements blk) = bb_statements blk ! i # drop (Suc i) (bb_statements blk)"
    by (simp add: Cons_nth_drop_Suc)
  have IH: "l \<in> tail_live L (drop (Suc i) (bb_statements blk)) \<longleftrightarrow> live_at body b (Suc i) l"
    using Suc d i by (intro Suc.hyps(1)) auto
  have "live_at body b i l \<longleftrightarrow> l \<in> stmt_reads (bb_statements blk ! i) \<or>
      l \<notin> stmt_defs (bb_statements blk ! i) \<and> live_at body b (Suc i) l"
    using assms(1,2) i by (auto intro: live_read live_pass elim: live_at.cases)
  then show ?case using IH Suc.prems(1) unfolding d by auto
qed

lemma compute_stmt_liveness_total:
  assumes "bitset_laws bs" "flow_ok body" "reads_ok body" "storage_ok body" "b < length (bd_blocks body)"
  shows "\<exists>live_out rs. compute_liveness bs body = Some live_out \<and> compute_stmt_liveness bs body b (live_out ! b) = Some rs \<and>
    length live_out = length (bd_blocks body) \<and> length rs = Suc (length (bb_statements (bd_blocks body ! b))) \<and>
    (\<forall>i\<le>length (bb_statements (bd_blocks body ! b)). \<forall>l.
      l \<notin> term_reads (bd_blocks body ! b) \<and> l \<notin> term_defs (bd_blocks body ! b) \<and>
      l \<notin> \<Union> (stmt_dead ` set (drop i (bb_statements (bd_blocks body ! b)))) \<longrightarrow>
      (l \<in> bits bs (rs ! i) \<longleftrightarrow> live_at body b i l))"
proof -
  let ?blk = "bd_blocks body ! b" and ?cap = "local_capacity body"
  obtain lo where lo: "compute_liveness bs body = Some lo" "sets_ok bs (length (bd_blocks body)) ?cap lo"
      "bits bs (lo ! b) = {l. \<exists>c\<in>set (block_succs ?blk). live_at body c 0 l}"
    using compute_liveness_total [OF assms(1-3)] assms(5) by blast
  have blk: "?blk \<in> set (bd_blocks body)" using assms(5) by simp
  have "stmt_reads s \<union> stmt_defs s \<union> stmt_dead s \<subseteq> {..<?cap}" if "s \<in> set (bb_statements ?blk)" for s
    using assms(3,4) blk that body_defs_capacity(1) [OF blk]
    by (auto simp: reads_ok_def body_reads_def storage_ok_def list_all_iff)
  moreover have "holds bs ?cap (lo ! b) (bits bs (lo ! b))"
    using lo(2) assms(5) by (simp add: holds_def sets_ok_def)
  ultimately obtain rs where "stmts_liveness bs (bb_statements ?blk) (lo ! b) = Some rs" "length rs = Suc (length (bb_statements ?blk))"
      "\<forall>i\<le>length (bb_statements ?blk). holds bs ?cap (rs ! i) (tail_live (bits bs (lo ! b)) (drop i (bb_statements ?blk)))"
    using stmts_liveness_holds [OF assms(1)] by blast
  then show ?thesis
    using lo(1,2) assms(5) tail_live_iff [OF assms(5) refl lo(3)]
    by (auto simp: compute_stmt_liveness_def get_def holds_def sets_ok_def)
qed

subsection \<open>The theorems\<close>


definition mk_stmt :: "statement_kind \<Rightarrow> statement" where
  "mk_stmt k = \<lparr>st_kind = k, st_span = span_DUMMY\<rparr>"

definition mk_block :: "statement_kind list \<Rightarrow> terminator_kind \<Rightarrow> basic_block" where
  "mk_block ks t = \<lparr>bb_statements = map mk_stmt ks, bb_terminator = \<lparr>tm_kind = t, tm_span = span_DUMMY\<rparr>, bb_is_cleanup = False\<rparr>"

definition mk_body :: "nat \<Rightarrow> basic_block list \<Rightarrow> body" where
  "mk_body n blocks = (body_dummy (0, 0))
    \<lparr>bd_blocks := blocks, bd_locals := replicate n \<lparr>ld_ty = Ty_UNIT, ld_mutability = MutNot, ld_span = span_DUMMY\<rparr>\<rparr>"

text \<open>A loop: \<open>_1 = _0\<close>; then \<open>_2 = _1\<close> until the switch on \<open>_2\<close> leaves.\<close>

definition loop_example :: body where
  "loop_example = mk_body 3
    [mk_block [StAssign (place_new 1) (RvUse (Copy (place_new 0)))] (TGoto 1),
     mk_block [StAssign (place_new 2) (RvUse (Copy (place_new 1)))]
       (TSwitchInt (Copy (place_new 2)) Ty_UNIT (if_switch 1 2)),
     mk_block [] TReturn]"

lemma loop_example_ok: "flow_ok loop_example" "reads_ok loop_example"
  by code_simp+


text \<open>Inside a block, a local that the terminator neither reads nor assigns and whose storage does not end later in
  the block is in the live set before a statement exactly when some path from there reads it before it is assigned.\<close>

theorem compute_stmt_liveness_exact:
  assumes "bitset_laws bs" "flow_ok body" "reads_ok body" "storage_ok body" "b < length (bd_blocks body)"
  shows "\<exists>live_out rs. compute_liveness bs body = Some live_out \<and> compute_stmt_liveness bs body b (live_out ! b) = Some rs \<and>
    (\<forall>i\<le>length (bb_statements (bd_blocks body ! b)). \<forall>l.
      l \<notin> term_reads (bd_blocks body ! b) \<and> l \<notin> term_defs (bd_blocks body ! b) \<and>
      l \<notin> \<Union> (stmt_dead ` set (drop i (bb_statements (bd_blocks body ! b)))) \<longrightarrow>
      (l \<in> bits bs (rs ! i) \<longleftrightarrow> live_at body b i l))"
  using compute_stmt_liveness_total [OF assms] by blast

theorem compute_stmt_liveness_exact_witness:
  "compute_stmt_liveness bool_bitset loop_example 0 [False, True, False] = Some [[True, False, False], [False, True, False]] \<and>
   live_at loop_example 0 0 0"
proof -
  have v: "compute_liveness bool_bitset loop_example = Some [[False, True, False], [False, True, False], [False, False, False]]"
      "compute_stmt_liveness bool_bitset loop_example 0 [False, True, False] = Some [[True, False, False], [False, True, False]]"
      "storage_ok loop_example" "0 < length (bd_blocks loop_example)"
      "\<not> (0 \<in> term_reads (bd_blocks loop_example ! 0)) \<and> \<not> (0 \<in> term_defs (bd_blocks loop_example ! 0)) \<and>
        \<not> (0 \<in> \<Union> (stmt_dead ` set (drop 0 (bb_statements (bd_blocks loop_example ! 0)))))"
    by code_simp+
  have "0 \<in> bits bool_bitset [True, False, False]" by (simp add: bits_bools)
  then show ?thesis
    using compute_stmt_liveness_exact [OF bool_bitset_laws loop_example_ok v(3,4)] v by fastforce
qed

end
