(* ===== verification/Borrow_Conflicts.thy ===== *)
theory Borrow_Conflicts
  imports Liveness_Props
begin

text \<open>
  When two places of \<^verbatim>\<open>crates/glyim-borrowck/src/visitor.rs\<close> conflict, and what it means: a place stands
  for the memory cells whose access path goes through its projections.
\<close>

subsection \<open>The test\<close>

text \<open>One round of the loop: \<open>None\<close> goes on with the next projections, \<open>Some r\<close> returns \<open>r\<close>.\<close>

fun projs_conflict :: "projection_elem \<Rightarrow> projection_elem \<Rightarrow> bool option" where
  "projs_conflict PDeref PDeref = None"
| "projs_conflict (PField f1) (PField f2) = (if f1 = f2 then None else Some False)"
| "projs_conflict (PDowncast v1) (PDowncast v2) = (if v1 = v2 then None else Some False)"
| "projs_conflict (PIndex l1) (PIndex l2) = (if l1 = l2 then None else Some False)"
| "projs_conflict (PConstantIndex o1 _ e1) (PConstantIndex o2 _ e2) =
    (if \<not> e1 \<and> \<not> e2 then if o1 \<noteq> o2 then Some False else None else Some True)"
| "projs_conflict (PField _) (PIndex _) = Some False"
| "projs_conflict (PIndex _) (PField _) = Some False"
| "projs_conflict (PSubslice f1 t1 e1) (PSubslice f2 t2 e2) =
    (if \<not> e1 \<and> \<not> e2 then if f1 < t2 \<and> f2 < t1 then None else Some False else Some True)"
| "projs_conflict (PSubslice f t e1) (PConstantIndex off _ e2) =
    (if \<not> e1 \<and> \<not> e2 then if f \<le> off \<and> off < t then None else Some False else Some True)"
| "projs_conflict (PConstantIndex off _ e2) (PSubslice f t e1) =
    (if \<not> e1 \<and> \<not> e2 then if f \<le> off \<and> off < t then None else Some False else Some True)"
| "projs_conflict _ _ = Some True"

fun paths_conflict :: "projection_elem list \<Rightarrow> projection_elem list \<Rightarrow> bool" where
  "paths_conflict (p # ps) (q # qs) =
    (case projs_conflict p q of None \<Rightarrow> paths_conflict ps qs | Some r \<Rightarrow> r)"
| "paths_conflict _ _ = True"

definition places_conflict :: "place \<Rightarrow> place \<Rightarrow> bool" where
  "places_conflict a b \<longleftrightarrow> pl_local a = pl_local b \<and> paths_conflict (pl_projection a) (pl_projection b)"

subsection \<open>Memory\<close>

datatype access = ADeref | AField u32 | AVariant u32 | AElem nat

text \<open>\<open>cells ix ps path\<close>: the cell at \<open>path\<close> is part of the place with projections \<open>ps\<close> when the index
  locals have the values \<open>ix\<close>.  Positions inside a sub-slice count from its start; counted from the end they may be
  anywhere.\<close>

inductive cells :: "(u32 \<Rightarrow> nat) \<Rightarrow> projection_elem list \<Rightarrow> access list \<Rightarrow> bool" for ix where
  cells_all: "cells ix [] path"
| cells_deref: "cells ix ps path \<Longrightarrow> cells ix (PDeref # ps) (ADeref # path)"
| cells_field: "cells ix ps path \<Longrightarrow> cells ix (PField f # ps) (AField f # path)"
| cells_variant: "cells ix ps path \<Longrightarrow> cells ix (PDowncast v # ps) (AVariant v # path)"
| cells_index: "cells ix ps path \<Longrightarrow> cells ix (PIndex l # ps) (AElem (ix l) # path)"
| cells_const: "cells ix ps path \<Longrightarrow> cells ix (PConstantIndex off m False # ps) (AElem (unat off) # path)"
| cells_from_end: "cells ix ps path \<Longrightarrow> cells ix (PConstantIndex off m True # ps) (AElem k # path)"
| cells_slice: "unat f \<le> k \<Longrightarrow> k < unat t \<Longrightarrow> cells ix ps (AElem (k - unat f) # path) \<Longrightarrow>
    cells ix (PSubslice f t False # ps) (AElem k # path)"
| cells_slice_end: "unat f \<le> k \<Longrightarrow> cells ix ps (AElem (k - unat f) # path) \<Longrightarrow>
    cells ix (PSubslice f t True # ps) (AElem k # path)"

inductive_cases cells_ConsE: "cells ix (p # ps) path"

definition overlap :: "(u32 \<Rightarrow> nat) \<Rightarrow> place \<Rightarrow> place \<Rightarrow> bool" where
  "overlap ix a b \<longleftrightarrow> pl_local a = pl_local b \<and>
    (\<exists>path. cells ix (pl_projection a) path \<and> cells ix (pl_projection b) path)"

text \<open>Sub-slices come last, as the MIR validator asks of the places that are read.\<close>

fun slices_last :: "projection_elem list \<Rightarrow> bool" where
  "slices_last (PSubslice f t e # ps) = (ps = [])"
| "slices_last (p # ps) = slices_last ps"
| "slices_last [] = True"

text \<open>Two different index locals never hold the same position.\<close>

definition index_locals :: "projection_elem list \<Rightarrow> u32 set" where
  "index_locals ps = {l. PIndex l \<in> set ps}"

lemma index_locals_Cons: "index_locals ps \<subseteq> index_locals (p # ps)"
  by (auto simp: index_locals_def)

text \<open>The first step of the paths of a projection.\<close>

fun first_step :: "(u32 \<Rightarrow> nat) \<Rightarrow> projection_elem \<Rightarrow> access \<Rightarrow> bool" where
  "first_step ix PDeref h \<longleftrightarrow> h = ADeref"
| "first_step ix (PField f) h \<longleftrightarrow> h = AField f"
| "first_step ix (PDowncast v) h \<longleftrightarrow> h = AVariant v"
| "first_step ix (PIndex l) h \<longleftrightarrow> h = AElem (ix l)"
| "first_step ix (PConstantIndex off _ e) h \<longleftrightarrow> (\<exists>k. h = AElem k \<and> (e \<or> k = unat off))"
| "first_step ix (PSubslice f t e) h \<longleftrightarrow> (\<exists>k. h = AElem k \<and> unat f \<le> k \<and> (e \<or> k < unat t))"

lemma cells_first: "cells ix (p # ps) path \<Longrightarrow> \<exists>h rest. path = h # rest \<and> first_step ix p h"
  by (erule cells_ConsE) auto

lemma first_steps_apart:
  "projs_conflict p q = Some False \<Longrightarrow> first_step ix p h \<Longrightarrow>
    (\<And>l1 l2. p = PIndex l1 \<Longrightarrow> q = PIndex l2 \<Longrightarrow> l1 \<noteq> l2 \<Longrightarrow> ix l1 \<noteq> ix l2) \<Longrightarrow> \<not> first_step ix q h"
  by (cases p; cases q) (auto split: if_splits simp: word_less_nat_alt word_le_nat_alt word_unat_eq_iff)

fun is_slice :: "projection_elem \<Rightarrow> bool" where
  "is_slice (PSubslice _ _ _) = True"
| "is_slice _ = False"

lemma slices_last_Cons: "slices_last (p # ps) \<longleftrightarrow> (if is_slice p then ps = [] else slices_last ps)"
  by (cases p) auto

lemma cells_tail: "cells ix (p # ps) path \<Longrightarrow> \<not> is_slice p \<Longrightarrow> cells ix ps (tl path)"
  by (erule cells_ConsE) auto

lemma cells_apart:
  assumes "projs_conflict p q = Some False" "inj_on ix (index_locals (p # ps) \<union> index_locals (q # qs))"
    "cells ix (p # ps) path"
  shows "\<not> cells ix (q # qs) path"
proof
  assume q: "cells ix (q # qs) path"
  have ne: "ix l1 \<noteq> ix l2" if "p = PIndex l1" "q = PIndex l2" "l1 \<noteq> l2" for l1 l2
  proof -
    have "l1 \<in> index_locals (p # ps) \<union> index_locals (q # qs)" "l2 \<in> index_locals (p # ps) \<union> index_locals (q # qs)"
      using that by (simp_all add: index_locals_def)
    then show ?thesis using inj_onD [OF assms(2)] that(3) by blast
  qed
  obtain h where h: "first_step ix p h" "first_step ix q h" using cells_first [OF assms(3)] cells_first [OF q] by auto
  have "\<not> first_step ix q h" by (rule first_steps_apart [OF assms(1) h(1)]) (rule ne)
  then show False using h(2) by simp
qed

lemma paths_disjoint:
  assumes "\<not> paths_conflict ps qs" "slices_last ps" "slices_last qs"
    "inj_on ix (index_locals ps \<union> index_locals qs)" "cells ix ps path"
  shows "\<not> cells ix qs path"
  using assms
proof (induction ps qs arbitrary: path rule: paths_conflict.induct)
  case (1 p ps q qs)
  show ?case
  proof (cases "projs_conflict p q")
    case None
    then have nc: "\<not> paths_conflict ps qs" using 1(2) by simp
    then have ne: "ps \<noteq> []" "qs \<noteq> []" by auto
    have inj: "inj_on ix (index_locals ps \<union> index_locals qs)"
      using 1(5) by (rule inj_on_subset) (auto simp: index_locals_def)
    have sl: "\<not> is_slice p" "\<not> is_slice q" "slices_last ps" "slices_last qs"
      using 1(3,4) ne by (auto simp: slices_last_Cons split: if_splits)
    show ?thesis using 1(1) [OF None nc sl(3,4) inj] cells_tail [OF 1(6) sl(1)] cells_tail [OF _ sl(2)] by blast
  next
    case (Some r)
    then show ?thesis using cells_apart [OF _ 1(5,6)] 1(2) by simp
  qed
qed auto

lemma projs_conflict_sym: "projs_conflict p q = projs_conflict q p"
  by (cases p; cases q) auto

lemma paths_conflict_sym: "paths_conflict ps qs = paths_conflict qs ps"
proof (induction ps qs rule: paths_conflict.induct)
  case (1 p ps q qs)
  then show ?case by (auto simp: projs_conflict_sym [of p q] split: option.splits)
qed auto


definition elem_place :: "projection_elem list \<Rightarrow> place" where
  "elem_place ps = \<lparr>pl_local = 1, pl_projection = ps\<rparr>"


text \<open>Without these conditions the test misses overlaps: two index locals with the same value, and sub-slices that
  overlap but start at different positions.\<close>

lemma places_conflict_misses_index:
  "\<not> places_conflict (elem_place [PIndex 2]) (elem_place [PIndex 3]) \<and>
   overlap (\<lambda>_. 7) (elem_place [PIndex 2]) (elem_place [PIndex 3])"
proof -
  have "cells (\<lambda>_. 7) [PIndex l] [AElem 7]" for l using cells_index [OF cells_all, of "\<lambda>_. 7" l "[]"] by simp
  then show ?thesis by (auto simp: places_conflict_def elem_place_def overlap_def)
qed

lemma places_conflict_misses_slice:
  "\<not> places_conflict (elem_place [PSubslice 0 3 False, PConstantIndex 1 0 False])
      (elem_place [PSubslice 1 4 False, PConstantIndex 0 0 False]) \<and>
   overlap unat (elem_place [PSubslice 0 3 False, PConstantIndex 1 0 False])
      (elem_place [PSubslice 1 4 False, PConstantIndex 0 0 False])"
proof -
  have "cells unat [PSubslice f t False, PConstantIndex off 0 False] [AElem 1]"
    if "unat f \<le> 1" "1 < unat t" "unat off = 1 - unat f" for f t off
    using that cells_const [OF cells_all, of unat off 0 "[]"] by (intro cells_slice) simp_all
  then show ?thesis by (auto simp: places_conflict_def elem_place_def overlap_def intro!: exI [of _ "[AElem 1]"])
qed

end
