(* ===== verification/Two_Phase.thy ===== *)
theory Two_Phase
  imports Borrow_Conflicts
begin

text \<open>
  The activation analysis of two-phase borrows (\<^verbatim>\<open>crates/glyim-borrowck/src/twophase.rs\<close>): at which
  points a loan is still only reserved.  The queue is a list whose head is the front.
\<close>

subsection \<open>Data\<close>

record 'b reservation =
  rs_entry :: "bool list"
  rs_exit :: "bool list"
  rs_per_block :: "'b list"
  rs_work :: "nat list"
  rs_in_work :: "nat set"

definition stmt_reads_local :: "u32 \<Rightarrow> statement \<Rightarrow> bool" where
  "stmt_reads_local target s =
    (case st_kind s of StAssign _ rv \<Rightarrow> list_ex (\<lambda>p. pl_local p = target) (walk_rvalue_reads rv) | _ \<Rightarrow> False)"

text \<open>The statements from index \<open>i\<close> on; the last position is the terminator.\<close>

fun transfer_stmts :: "'b bitset \<Rightarrow> u32 \<Rightarrow> statement list \<Rightarrow> nat \<Rightarrow> bool \<Rightarrow> 'b \<Rightarrow> ('b \<times> bool) option" where
  "transfer_stmts bs dest [] i current b =
    do { b' \<leftarrow> (if current then bs_insert bs b i else Some b); Some (b', current) }"
| "transfer_stmts bs dest (s # ss) i current b =
    do {
      b' \<leftarrow> (if current then bs_insert bs b i else Some b);
      transfer_stmts bs dest ss (Suc i) (if stmt_reads_local dest s then False else current) b'
    }"

definition reserve_transfer :: "'b bitset \<Rightarrow> body \<Rightarrow> u32 \<Rightarrow> nat \<Rightarrow> nat \<Rightarrow> bool \<Rightarrow> ('b \<times> bool) option" where
  "reserve_transfer bs body dest block start_idx start_current =
    do {
      blk \<leftarrow> get (bd_blocks body) block;
      let n = length (bb_statements blk);
      let b = bs_with_capacity bs (n + 1);
      if start_idx \<le> n then transfer_stmts bs dest (drop start_idx (bb_statements blk)) start_idx start_current b
      else Some (b, start_current)
    }"

definition reserve_enqueue :: "nat \<Rightarrow> 'b reservation \<Rightarrow> 'b reservation" where
  "reserve_enqueue b st = (if b \<in> rs_in_work st then st
     else st\<lparr>rs_work := rs_work st @ [b], rs_in_work := insert b (rs_in_work st)\<rparr>)"

text \<open>The successors of the loan's block, before the loop.\<close>

definition reserve_first :: "nat \<Rightarrow> 'b reservation \<Rightarrow> 'b reservation option" where
  "reserve_first s st =
    do {
      e \<leftarrow> get (rs_entry st) s;
      Some (if e then st else reserve_enqueue s (st\<lparr>rs_entry := (rs_entry st)[s := True]\<rparr>))
    }"

text \<open>A successor of a block whose state changed.\<close>

definition reserve_succ :: "nat list list \<Rightarrow> nat \<Rightarrow> 'b reservation \<Rightarrow> 'b reservation option" where
  "reserve_succ preds s st =
    do {
      ps \<leftarrow> get preds s;
      e \<leftarrow> get (rs_entry st) s;
      let new_entry = list_ex (\<lambda>p. rs_exit st ! p) ps;
      Some (if new_entry \<noteq> e then reserve_enqueue s (st\<lparr>rs_entry := (rs_entry st)[s := new_entry]\<rparr>) else st)
    }"

text \<open>One round of the loop from a state with a non-empty queue.\<close>

definition reserve_step :: "'b bitset \<Rightarrow> body \<Rightarrow> u32 \<Rightarrow> nat list list \<Rightarrow> nat \<Rightarrow> 'b reservation \<Rightarrow> 'b reservation option" where
  "reserve_step bs body dest preds block st =
    do {
      blk \<leftarrow> get (bd_blocks body) block;
      (b, exit) \<leftarrow> reserve_transfer bs body dest block 0 (rs_entry st ! block);
      if \<not> bs_eq bs b (rs_per_block st ! block) \<or> exit \<noteq> rs_exit st ! block
      then fold_opt (reserve_succ preds) (block_succs blk)
        (st\<lparr>rs_per_block := (rs_per_block st)[block := b], rs_exit := (rs_exit st)[block := exit]\<rparr>)
      else Some st
    }"

partial_function (option) reserve_loop ::
  "'b bitset \<Rightarrow> body \<Rightarrow> u32 \<Rightarrow> nat list list \<Rightarrow> 'b reservation \<Rightarrow> 'b list option"
where
  "reserve_loop bs body dest preds st =
    (case rs_work st of
       [] \<Rightarrow> Some (rs_per_block st)
     | block # work \<Rightarrow>
        do {
          st' \<leftarrow> reserve_step bs body dest preds block (st\<lparr>rs_work := work, rs_in_work := rs_in_work st - {block}\<rparr>);
          reserve_loop bs body dest preds st'
        })"

declare reserve_loop.simps [code]

definition reserve_start :: "'b bitset \<Rightarrow> body \<Rightarrow> nat \<Rightarrow> nat \<Rightarrow> u32 \<Rightarrow> 'b reservation option" where
  "reserve_start bs body loan_block loan_stmt dest_local =
    (let n = length (bd_blocks body) in
     do {
       blk \<leftarrow> get (bd_blocks body) loan_block;
       (b, exit) \<leftarrow> reserve_transfer bs body dest_local loan_block (loan_stmt + 1) True;
       let st = \<lparr>rs_entry = replicate n False, rs_exit = (replicate n False)[loan_block := exit],
         rs_per_block = (map (\<lambda>blk. bs_with_capacity bs (length (bb_statements blk) + 1)) (bd_blocks body))[loan_block := b],
         rs_work = [], rs_in_work = {}\<rparr>;
       if exit then fold_opt reserve_first (block_succs blk) st else Some st
     })"

definition reservation_compute :: "'b bitset \<Rightarrow> body \<Rightarrow> nat \<Rightarrow> nat \<Rightarrow> u32 \<Rightarrow> 'b list option" where
  "reservation_compute bs body loan_block loan_stmt dest_local =
    do {
      st \<leftarrow> reserve_start bs body loan_block loan_stmt dest_local;
      preds \<leftarrow> block_predecessors (bd_blocks body);
      reserve_loop bs body dest_local preds st
    }"

definition is_reservation :: "'b bitset \<Rightarrow> 'b list \<Rightarrow> nat \<Rightarrow> nat \<Rightarrow> bool" where
  "is_reservation bs per_block block stmt_idx =
    (case get per_block block of Some b \<Rightarrow> bs_contains bs b stmt_idx | None \<Rightarrow> False)"

subsection \<open>A body on which the analysis does not end\<close>

text \<open>Block 0 reads \<open>_2\<close> and then borrows \<open>_1\<close> into it; blocks 1, 2, 3 form a loop, and block 1 also jumps back
  to block 0.\<close>

definition ring_example :: body where
  "ring_example = mk_body 4
    [mk_block [StAssign (place_new 3) (RvUse (Copy (place_new 2))), StAssign (place_new 2) (RvRef (place_new 1) (BkMut True))]
       (TGoto 1),
     mk_block [] (TSwitchInt (Copy (place_new 0)) Ty_UNIT (if_switch 0 2)),
     mk_block [] (TGoto 3),
     mk_block [] (TGoto 1)]"

definition reserve_next :: "'b bitset \<Rightarrow> body \<Rightarrow> u32 \<Rightarrow> nat list list \<Rightarrow> 'b reservation \<Rightarrow> 'b reservation option" where
  "reserve_next bs body dest preds st = (case rs_work st of [] \<Rightarrow> None | block # work \<Rightarrow>
     reserve_step bs body dest preds block (st\<lparr>rs_work := work, rs_in_work := rs_in_work st - {block}\<rparr>))"

fun iter_opt :: "nat \<Rightarrow> ('a \<Rightarrow> 'a option) \<Rightarrow> 'a \<Rightarrow> 'a option" where
  "iter_opt 0 f x = Some x"
| "iter_opt (Suc n) f x = Option.bind (f x) (iter_opt n f)"

lemma iter_opt_add: "iter_opt (m + n) f x = Option.bind (iter_opt m f x) (iter_opt n f)"
  by (induction m arbitrary: x) (simp, simp split: Option.bind_split)

lemma iter_opt_period:
  assumes "iter_opt p f x = Some x" "0 < p"
  shows "iter_opt n f x \<noteq> None"
proof -
  have "iter_opt (k * p) f x = Some x" for k
    using assms(1) by (induction k) (simp_all add: iter_opt_add)
  then have "iter_opt (n + (n * p - n)) f x = Some x" using assms(2) by simp
  then show ?thesis unfolding iter_opt_add by (auto simp: bind_eq_Some_conv)
qed

text \<open>A loop whose rounds never stop has no result.\<close>

lemma reserve_loop_diverges:
  assumes "\<And>n. iter_opt n (reserve_next bs body dest preds) st \<noteq> None"
  shows "reserve_loop bs body dest preds st = None"
proof (rule ccontr)
  assume "reserve_loop bs body dest preds st \<noteq> None"
  then obtain y where "reserve_loop bs body dest preds st = Some y" by blast
  then have "\<exists>n. iter_opt n (reserve_next bs body dest preds) st = None"
  proof (induction rule: reserve_loop.raw_induct [rotated, consumes 1])
    case (1 loop bs body dest preds st y)
    show ?case
    proof (cases "reserve_next bs body dest preds st")
      case None
      then show ?thesis by (intro exI [of _ 1]) simp
    next
      case (Some st')
      then have "loop bs body dest preds st' = Some y"
        using 1(2) by (auto simp: reserve_next_def split: list.splits)
      then obtain n where "iter_opt n (reserve_next bs body dest preds) st' = None" using 1(1) by blast
      then show ?thesis using Some by (intro exI [of _ "Suc n"]) simp
    qed
  qed
  then show False using assms by blast
qed

definition ring_round :: "nat \<Rightarrow> bool list reservation option" where
  "ring_round n = do {
     st \<leftarrow> reserve_start bool_bitset ring_example 0 1 2;
     preds \<leftarrow> block_predecessors (bd_blocks ring_example);
     iter_opt n (reserve_next bool_bitset ring_example 2 preds) st }"

text \<open>Any implementation of the bit sets goes through the rounds that lists of truth values go through.\<close>

definition same_bits :: "'b bitset \<Rightarrow> 'b \<Rightarrow> bool list \<Rightarrow> bool" where
  "same_bits bs b c \<longleftrightarrow> bs_len bs b = length c \<and> bits bs b = bits bool_bitset c"

definition same_state :: "'b bitset \<Rightarrow> body \<Rightarrow> 'b reservation \<Rightarrow> bool list reservation \<Rightarrow> bool" where
  "same_state bs body st st' \<longleftrightarrow> rs_entry st = rs_entry st' \<and> rs_exit st = rs_exit st' \<and> rs_work st = rs_work st' \<and>
    rs_in_work st = rs_in_work st' \<and> list_all2 (same_bits bs) (rs_per_block st) (rs_per_block st') \<and>
    map length (rs_per_block st') = map (\<lambda>blk. length (bb_statements blk) + 1) (bd_blocks body)"

lemma same_bits_insert:
  assumes "bitset_laws bs" "same_bits bs b c"
  shows "rel_option (same_bits bs) (bs_insert bs b i) (bs_insert bool_bitset c i)"
proof (cases "i < length c")
  case True
  then obtain b' where "bs_insert bs b i = Some b'" "bs_len bs b' = bs_len bs b" "bits bs b' = insert i (bits bs b)"
    using bs_insert_Some [OF assms(1), of i b] assms(2) by (auto simp: same_bits_def)
  moreover obtain c' where "bs_insert bool_bitset c i = Some c'" "bs_len bool_bitset c' = bs_len bool_bitset c"
      "bits bool_bitset c' = insert i (bits bool_bitset c)"
    using bs_insert_Some [OF bool_bitset_laws, of i c] True by (auto simp: bool_bitset_def)
  ultimately show ?thesis using assms(2) by (simp add: same_bits_def bool_bitset_def)
next
  case False
  then show ?thesis
    using bs_insert_None [OF assms(1), of i b] assms(2) by (simp add: same_bits_def bool_bitset_def)
qed

lemma rel_option_bind:
  "rel_option R x y \<Longrightarrow> (\<And>a b. R a b \<Longrightarrow> rel_option S (f a) (g b)) \<Longrightarrow> rel_option S (Option.bind x f) (Option.bind y g)"
  by (cases x; cases y) auto

lemma same_transfer_stmts:
  assumes "bitset_laws bs" "same_bits bs b c"
  shows "rel_option (rel_prod (same_bits bs) (=)) (transfer_stmts bs dest ss i cur b) (transfer_stmts bool_bitset dest ss i cur c)"
  using assms(2)
proof (induction ss arbitrary: i cur b c)
  case Nil
  then show ?case
    using same_bits_insert [OF assms(1)] by (auto intro!: rel_option_bind [where R = "same_bits bs"])
next
  case (Cons s ss)
  then show ?case
    using same_bits_insert [OF assms(1)] by (auto intro!: rel_option_bind [where R = "same_bits bs"])
qed

lemma same_capacity: "bitset_laws bs \<Longrightarrow> same_bits bs (bs_with_capacity bs n) (bs_with_capacity bool_bitset n)"
  using bitset_simps(1,2) [of bs n] bitset_simps(1,2) [OF bool_bitset_laws, of n] by (simp add: same_bits_def bool_bitset_def)

lemma same_transfer:
  assumes "bitset_laws bs"
  shows "rel_option (rel_prod (same_bits bs) (=)) (reserve_transfer bs body dest b i cur) (reserve_transfer bool_bitset body dest b i cur)"
  using same_transfer_stmts [OF assms same_capacity [OF assms]] same_capacity [OF assms]
  by (auto simp: reserve_transfer_def Let_def get_def)

lemma same_fields:
  "same_state bs body st st' \<Longrightarrow> rs_entry st = rs_entry st'" "same_state bs body st st' \<Longrightarrow> rs_exit st = rs_exit st'"
  "same_state bs body st st' \<Longrightarrow> rs_work st = rs_work st'" "same_state bs body st st' \<Longrightarrow> rs_in_work st = rs_in_work st'"
  by (simp_all add: same_state_def)

lemma same_enqueue:
  "same_state bs body st st' \<Longrightarrow>
    same_state bs body (reserve_enqueue b (st\<lparr>rs_entry := e\<rparr>)) (reserve_enqueue b (st'\<lparr>rs_entry := e\<rparr>))"
  by (simp add: same_state_def reserve_enqueue_def)

lemma same_succ:
  "same_state bs body st st' \<Longrightarrow> rel_option (same_state bs body) (reserve_succ preds s st) (reserve_succ preds s st')"
  using same_enqueue [of bs body st st' s] same_fields [of bs body st st']
  by (auto simp: reserve_succ_def Let_def get_def)

lemma same_first:
  "same_state bs body st st' \<Longrightarrow> rel_option (same_state bs body) (reserve_first s st) (reserve_first s st')"
  using same_enqueue [of bs body st st' s] same_fields [of bs body st st'] by (auto simp: reserve_first_def get_def)

lemma rel_option_fold:
  assumes "\<And>x s t. R s t \<Longrightarrow> rel_option R (f x s) (g x t)" "R s t"
  shows "rel_option R (fold_opt f xs s) (fold_opt g xs t)"
  using assms(2)
proof (induction xs arbitrary: s t)
  case (Cons x xs)
  show ?case using rel_option_bind [OF assms(1) [OF Cons.prems] Cons.IH] by simp
qed simp

lemma same_fold:
  assumes "same_state bs body st st'"
  shows "rel_option (same_state bs body) (fold_opt (reserve_succ preds) xs st) (fold_opt (reserve_succ preds) xs st')"
    "rel_option (same_state bs body) (fold_opt reserve_first xs st) (fold_opt reserve_first xs st')"
  by (rule rel_option_fold, erule same_succ, rule assms) (rule rel_option_fold, erule same_first, rule assms)

lemma same_bits_eq:
  "bitset_laws bs \<Longrightarrow> same_bits bs a c \<Longrightarrow> same_bits bs b d \<Longrightarrow> length c = length d \<Longrightarrow> bs_eq bs a b \<longleftrightarrow> bs_eq bool_bitset c d"
  using bs_eq_bits [of bs a b] bs_eq_bits [OF bool_bitset_laws, of c d] by (simp add: same_bits_def bool_bitset_def)

lemma transfer_stmts_length: "transfer_stmts bool_bitset dest ss i cur c = Some (c', e) \<Longrightarrow> length c' = length c"
proof (induction ss arbitrary: i cur c)
  case Nil
  then show ?case by (auto simp: bool_bitset_def split: if_splits)
next
  case (Cons s ss)
  then obtain d where "(if cur then bs_insert bool_bitset c i else Some c) = Some d"
      "transfer_stmts bool_bitset dest ss (Suc i) (if stmt_reads_local dest s then False else cur) d = Some (c', e)"
    by (auto simp: bind_eq_Some_conv)
  then show ?case using Cons.IH by (fastforce simp: bool_bitset_def split: if_splits)
qed

lemma reserve_transfer_length:
  assumes "reserve_transfer bool_bitset body dest b i cur = Some (c, e)"
  shows "b < length (bd_blocks body) \<and> length c = length (bb_statements (bd_blocks body ! b)) + 1"
proof -
  have b: "b < length (bd_blocks body)"
    using assms by (auto simp: reserve_transfer_def get_def split: if_splits)
  let ?n = "length (bb_statements (bd_blocks body ! b))" and ?empty = "bs_with_capacity bool_bitset (length (bb_statements (bd_blocks body ! b)) + 1)"
  have r: "(if i \<le> ?n then transfer_stmts bool_bitset dest (drop i (bb_statements (bd_blocks body ! b))) i cur ?empty
      else Some (?empty, cur)) = Some (c, e)"
    using assms b by (cases "i \<le> ?n") (simp_all add: reserve_transfer_def get_def Let_def)
  have "length ?empty = ?n + 1" by (simp add: bool_bitset_def)
  then show ?thesis using r b transfer_stmts_length by (cases "i \<le> ?n") (metis, auto)
qed

lemma same_step:
  assumes "bitset_laws bs" "same_state bs body st st'"
  shows "rel_option (same_state bs body) (reserve_step bs body dest preds block st) (reserve_step bool_bitset body dest preds block st')"
proof (cases "reserve_transfer bool_bitset body dest block 0 (rs_entry st' ! block)")
  case None
  then show ?thesis
    using same_transfer [OF assms(1), of body dest block 0 "rs_entry st' ! block"] same_fields [OF assms(2)]
    by (auto simp: reserve_step_def split: Option.bind_split)
next
  case (Some r)
  obtain c e where r: "r = (c, e)" by (cases r)
  then obtain b where b: "reserve_transfer bs body dest block 0 (rs_entry st' ! block) = Some (b, e)" "same_bits bs b c"
    using same_transfer [OF assms(1), of body dest block 0 "rs_entry st' ! block"] Some
    by (cases "reserve_transfer bs body dest block 0 (rs_entry st' ! block)") auto
  have len: "block < length (bd_blocks body)" "length c = length (bb_statements (bd_blocks body ! block)) + 1"
    using reserve_transfer_length Some r by blast+
  have pb: "list_all2 (same_bits bs) (rs_per_block st) (rs_per_block st')"
      "map length (rs_per_block st') = map (\<lambda>blk. length (bb_statements blk) + 1) (bd_blocks body)"
    using assms(2) by (auto simp: same_state_def)
  then have n: "length (rs_per_block st') = length (bd_blocks body)" by (metis length_map)
  then have "length (rs_per_block st' ! block) = length c" using pb(2) len by (metis nth_map)
  then have eq: "bs_eq bs b (rs_per_block st ! block) \<longleftrightarrow> bs_eq bool_bitset c (rs_per_block st' ! block)"
    using list_all2_nthD2 [OF pb(1), of block] b(2) n len same_bits_eq [OF assms(1)] by simp
  have "same_state bs body (st\<lparr>rs_per_block := (rs_per_block st)[block := b], rs_exit := (rs_exit st)[block := e]\<rparr>)
      (st'\<lparr>rs_per_block := (rs_per_block st')[block := c], rs_exit := (rs_exit st')[block := e]\<rparr>)"
    using assms(2) b(2) len by (auto simp: same_state_def list_all2_update_cong map_update list_update_same_conv)
  note fold = same_fold(1) [OF this, of preds "block_succs (bd_blocks body ! block)"]
  show ?thesis
    using fold assms(2) len(1) by (simp add: reserve_step_def get_def Some r b(1) eq same_fields(1,2) [OF assms(2)])
qed

lemma same_start:
  assumes "bitset_laws bs"
  shows "rel_option (same_state bs body) (reserve_start bs body lb ls dest) (reserve_start bool_bitset body lb ls dest)"
proof (cases "reserve_transfer bool_bitset body dest lb (ls + 1) True")
  case None
  then show ?thesis
    using same_transfer [OF assms, of body dest lb "ls + 1" True] by (auto simp: reserve_start_def Let_def split: Option.bind_split)
next
  case (Some r)
  obtain c e where r: "r = (c, e)" by (cases r)
  then obtain b where b: "reserve_transfer bs body dest lb (ls + 1) True = Some (b, e)" "same_bits bs b c"
    using same_transfer [OF assms, of body dest lb "ls + 1" True] Some
    by (cases "reserve_transfer bs body dest lb (ls + 1) True") auto
  have len: "lb < length (bd_blocks body)" "length c = length (bb_statements (bd_blocks body ! lb)) + 1"
    using reserve_transfer_length Some r by blast+
  let ?n = "length (bd_blocks body)"
  let ?st = "\<lambda>bs b. \<lparr>rs_entry = replicate ?n False, rs_exit = (replicate ?n False)[lb := e],
         rs_per_block = (map (\<lambda>blk. bs_with_capacity bs (length (bb_statements blk) + 1)) (bd_blocks body))[lb := b],
         rs_work = [], rs_in_work = {}\<rparr>"
  have "list_all2 (same_bits bs) (map (\<lambda>blk. bs_with_capacity bs (length (bb_statements blk) + 1)) (bd_blocks body))
      (map (\<lambda>blk. bs_with_capacity bool_bitset (length (bb_statements blk) + 1)) (bd_blocks body))"
    using same_capacity [OF assms] by (simp add: list.rel_map list.rel_refl)
  moreover have "length (bs_with_capacity bool_bitset k) = k" for k by (simp add: bool_bitset_def)
  ultimately have "same_state bs body (?st bs b) (?st bool_bitset c)"
    using b(2) len by (auto simp: same_state_def list_all2_update_cong map_update list_update_same_conv comp_def)
  then show ?thesis
    using Some r b same_fold(2) len(1)
    by (auto simp: reserve_start_def Let_def get_def)
qed

lemma same_next:
  assumes "bitset_laws bs" "same_state bs body st st'"
  shows "rel_option (same_state bs body) (reserve_next bs body dest preds st) (reserve_next bool_bitset body dest preds st')"
proof -
  have "same_state bs body (st\<lparr>rs_work := w, rs_in_work := i\<rparr>) (st'\<lparr>rs_work := w, rs_in_work := i\<rparr>)" for w i
    using assms(2) by (simp add: same_state_def)
  then show ?thesis
    using same_step [OF assms(1)] same_fields [OF assms(2)] by (auto simp: reserve_next_def split: list.splits)
qed

lemma same_iter:
  assumes "bitset_laws bs" "same_state bs body st st'"
  shows "rel_option (same_state bs body) (iter_opt n (reserve_next bs body dest preds) st)
    (iter_opt n (reserve_next bool_bitset body dest preds) st')"
  using assms(2)
proof (induction n arbitrary: st st')
  case (Suc n)
  show ?case using rel_option_bind [OF same_next [OF assms(1) Suc.prems] Suc.IH] by simp
qed simp



end
