(* ===== verification/Move_Analysis.thy ===== *)
theory Move_Analysis
  imports Opt_Validate Two_Phase
begin

text \<open>
  Move analysis of \<^verbatim>\<open>crates/glyim-borrowck/src/move_analysis.rs\<close>: the arena of move paths, the forward
  dataflow of moved and dead paths, and the check of the places statements use.  \<open>None\<close> is a panic (an index out of
  bounds, an insertion beyond the capacity of a bit set) or an iteration that does not end.
\<close>

subsection \<open>Move paths\<close>

record move_path =
  mp_place :: place
  mp_parent :: "u32 option"
  mp_children :: "u32 list"

record move_path_arena =
  ma_paths :: "move_path list"
  ma_roots :: "u32 option list"

record borrowck_ctx =
  bc_ty_ctx :: ty_ctx
  bc_is_copy :: "ty \<Rightarrow> bool option"

definition move_arena_new :: "nat \<Rightarrow> move_path_arena" where
  "move_arena_new num_locals = \<lparr>ma_paths = [], ma_roots = replicate num_locals None\<rparr>"

definition push_path :: "move_path \<Rightarrow> move_path_arena \<Rightarrow> u32 \<times> move_path_arena" where
  "push_path p a = (word_of_nat (length (ma_paths a)), a\<lparr>ma_paths := ma_paths a @ [p]\<rparr>)"

definition get_path :: "move_path_arena \<Rightarrow> u32 \<Rightarrow> move_path option" where
  "get_path a i = get (ma_paths a) (unat i)"

text \<open>\<open>get_mut(idx).children.push(child)\<close>.\<close>

definition push_child :: "u32 \<Rightarrow> u32 \<Rightarrow> move_path_arena \<Rightarrow> move_path_arena option" where
  "push_child i child a =
    do { p \<leftarrow> get_path a i;
         Some (a\<lparr>ma_paths := (ma_paths a)[unat i := p\<lparr>mp_children := mp_children p @ [child]\<rparr>]\<rparr>) }"

text \<open>Two projections stand for the same child: fields, variants and constant indices from the start.\<close>

fun same_child :: "projection_elem \<Rightarrow> projection_elem \<Rightarrow> bool" where
  "same_child (PDowncast v) (PDowncast w) \<longleftrightarrow> v = w"
| "same_child (PField f) (PField g) \<longleftrightarrow> f = g"
| "same_child (PConstantIndex o1 _ False) (PConstantIndex o2 _ False) \<longleftrightarrow> o1 = o2"
| "same_child _ _ \<longleftrightarrow> False"

fun find_child :: "move_path_arena \<Rightarrow> projection_elem \<Rightarrow> u32 list \<Rightarrow> u32 option option" where
  "find_child a e [] = Some None"
| "find_child a e (c # cs) =
    do {
      child \<leftarrow> get_path a c;
      let ps = pl_projection (mp_place child);
      if ps \<noteq> [] \<and> same_child (last ps) e then Some (Some c) else find_child a e cs
    }"

text \<open>A new child of \<open>cur\<close> for the projection \<open>e\<close>.\<close>

definition add_child :: "u32 \<Rightarrow> u32 \<Rightarrow> projection_elem \<Rightarrow> move_path_arena \<Rightarrow> (u32 \<times> move_path_arena) option" where
  "add_child l cur e a =
    do {
      p \<leftarrow> get_path a cur;
      let (i, a') = push_path \<lparr>mp_place = \<lparr>pl_local = l, pl_projection = pl_projection (mp_place p) @ [e]\<rparr>,
        mp_parent = Some cur, mp_children = []\<rparr> a;
      a'' \<leftarrow> push_child cur i a';
      Some (i, a'')
    }"

fun find_projs :: "u32 \<Rightarrow> u32 \<Rightarrow> projection_elem list \<Rightarrow> move_path_arena \<Rightarrow> (u32 \<times> move_path_arena) option" where
  "find_projs l cur [] a = Some (cur, a)"
| "find_projs l cur (e # es) a =
    (case e of
       PIndex _ \<Rightarrow> find_projs l cur es a
     | PField _ \<Rightarrow>
         do {
           p \<leftarrow> get_path a cur;
           found \<leftarrow> find_child a e (mp_children p);
           case found of Some c \<Rightarrow> find_projs l c es a | None \<Rightarrow> Some (cur, a)
         }
     | PDowncast v \<Rightarrow>
         do {
           p \<leftarrow> get_path a cur;
           found \<leftarrow> find_child a e (mp_children p);
           case found of
             Some c \<Rightarrow> find_projs l c es a
           | None \<Rightarrow> do { (c, a') \<leftarrow> add_child l cur (PDowncast v) a; find_projs l c es a' }
         }
     | PConstantIndex off _ from_end \<Rightarrow>
         if from_end then Some (cur, a)
         else do {
           p \<leftarrow> get_path a cur;
           found \<leftarrow> find_child a e (mp_children p);
           case found of
             Some c \<Rightarrow> find_projs l c es a
           | None \<Rightarrow> do { (c, a') \<leftarrow> add_child l cur (PConstantIndex off 0 False) a; find_projs l c es a' }
         }
     | PSubslice _ _ _ \<Rightarrow> Some (cur, a)
     | PDeref \<Rightarrow> Some (cur, a))"

definition find_root :: "move_path_arena \<Rightarrow> u32 \<Rightarrow> u32 option" where
  "find_root a l = (case get (ma_roots a) (unat l) of Some r \<Rightarrow> r | None \<Rightarrow> None)"

text \<open>\<open>MovePathArena::find\<close>: the path of a place, which may add paths.\<close>

definition find_path :: "place \<Rightarrow> move_path_arena \<Rightarrow> (u32 option \<times> move_path_arena) option" where
  "find_path p a =
    (case get (ma_roots a) (unat (pl_local p)) of
       None \<Rightarrow> Some (None, a)
     | Some root \<Rightarrow>
        if pl_projection p = [] then Some (root, a)
        else (case root of
                None \<Rightarrow> Some (None, a)
              | Some cur \<Rightarrow> map_option (\<lambda>(i, a'). (Some i, a')) (find_projs (pl_local p) cur (pl_projection p) a)))"

subsection \<open>Building the paths\<close>

definition count_fields :: "ty_ctx \<Rightarrow> ty \<Rightarrow> u32 option option" where
  "count_fields ctx t =
    do {
      k \<leftarrow> ty_kind_of ctx t;
      Some (case k of
              TTuple substs \<Rightarrow> Some (word_of_nat (sub_len substs))
            | TAdt adt_id _ \<Rightarrow> map_option (\<lambda>tys. word_of_nat (length tys)) (tc_adt_reprs ctx adt_id)
            | TArray _ len \<Rightarrow>
                (case ct_kind len of
                   CkUint n \<Rightarrow> Some (ucast n)
                 | CkInt n \<Rightarrow> if 0 \<le> sint n then Some (ucast n) else None
                 | _ \<Rightarrow> None)
            | _ \<Rightarrow> None)
    }"

definition add_field_path :: "u32 \<Rightarrow> u32 \<Rightarrow> nat \<Rightarrow> move_path_arena \<Rightarrow> move_path_arena option" where
  "add_field_path l root f a =
    (let (child, a') = push_path \<lparr>mp_place = \<lparr>pl_local = l, pl_projection = [PField (word_of_nat f)]\<rparr>,
        mp_parent = Some root, mp_children = []\<rparr> a
     in push_child root child a')"

definition add_local_paths :: "ty_ctx \<Rightarrow> nat \<times> local_decl \<Rightarrow> move_path_arena \<Rightarrow> move_path_arena option" where
  "add_local_paths ctx ld a =
    (let l = word_of_nat (fst ld);
         (root, a') = push_path \<lparr>mp_place = place_new l, mp_parent = None, mp_children = []\<rparr> a;
         a'' = a'\<lparr>ma_roots := (ma_roots a')[fst ld := Some root]\<rparr>
     in do {
       fields \<leftarrow> count_fields ctx (ld_ty (snd ld));
       case fields of None \<Rightarrow> Some a'' | Some n \<Rightarrow> fold_opt (add_field_path l root) [0..<unat n] a''
     })"

definition build_move_paths :: "borrowck_ctx \<Rightarrow> body \<Rightarrow> move_path_arena option" where
  "build_move_paths ctx body =
    fold_opt (add_local_paths (bc_ty_ctx ctx)) (enumerate 0 (bd_locals body)) (move_arena_new (length (bd_locals body)))"

subsection \<open>Effects\<close>

text \<open>\<open>record_move\<close> and \<open>record_init\<close>: a path and its children.\<close>

definition record_path :: "'b bitset \<Rightarrow> move_path_arena \<Rightarrow> u32 \<Rightarrow> 'b \<Rightarrow> 'b option" where
  "record_path bs a i s =
    do {
      s' \<leftarrow> bs_insert bs s (unat i);
      p \<leftarrow> get_path a i;
      fold_opt (\<lambda>c s. bs_insert bs s (unat c)) (mp_children p) s'
    }"

definition unrecord_path :: "'b bitset \<Rightarrow> move_path_arena \<Rightarrow> u32 \<Rightarrow> 'b \<Rightarrow> 'b option" where
  "unrecord_path bs a i s =
    do {
      s' \<leftarrow> bs_remove bs s (unat i);
      p \<leftarrow> get_path a i;
      fold_opt (\<lambda>c s. bs_remove bs s (unat c)) (mp_children p) s'
    }"

definition collect_operand_move ::
  "'b bitset \<Rightarrow> borrowck_ctx \<Rightarrow> local_decl list \<Rightarrow> operand \<Rightarrow> move_path_arena \<times> 'b \<Rightarrow> (move_path_arena \<times> 'b) option" where
  "collect_operand_move bs ctx decls x am =
    (case x of
       Move p \<Rightarrow>
         do {
           t \<leftarrow> place_ty (bc_ty_ctx ctx) decls p;
           copy \<leftarrow> bc_is_copy ctx t;
           if copy then Some am
           else do {
             (found, a') \<leftarrow> find_path p (fst am);
             case found of
               None \<Rightarrow> Some (a', snd am)
             | Some i \<Rightarrow> do { m \<leftarrow> record_path bs a' i (snd am); Some (a', m) }
           }
         }
     | _ \<Rightarrow> Some am)"

fun rvalue_operands :: "rvalue \<Rightarrow> operand list" where
  "rvalue_operands (RvUse x) = [x]"
| "rvalue_operands (RvRef _ _) = []"
| "rvalue_operands (RvBinaryOp _ l r) = [l, r]"
| "rvalue_operands (RvUnaryOp _ x) = [x]"
| "rvalue_operands (RvAggregate _ xs) = xs"
| "rvalue_operands (RvDiscriminant _) = []"
| "rvalue_operands (RvLen _) = []"
| "rvalue_operands (RvCast _ x _) = [x]"
| "rvalue_operands (RvRepeat x _) = [x]"

definition collect_rvalue_move_operands ::
  "'b bitset \<Rightarrow> borrowck_ctx \<Rightarrow> local_decl list \<Rightarrow> rvalue \<Rightarrow> move_path_arena \<times> 'b \<Rightarrow> (move_path_arena \<times> 'b) option" where
  "collect_rvalue_move_operands bs ctx decls rv am = fold_opt (collect_operand_move bs ctx decls) (rvalue_operands rv) am"

record 'b move_effects =
  me_moves :: 'b
  me_inits :: 'b
  me_deads :: 'b
  me_dead_inits :: 'b

definition init_path :: "'b bitset \<Rightarrow> move_path_arena \<Rightarrow> u32 option \<Rightarrow> 'b move_effects \<Rightarrow> 'b move_effects option" where
  "init_path bs a found e =
    (case found of
       None \<Rightarrow> Some e
     | Some i \<Rightarrow>
        do {
          inits \<leftarrow> record_path bs a i (me_inits e);
          dead_inits \<leftarrow> record_path bs a i (me_dead_inits e);
          Some (e\<lparr>me_inits := inits, me_dead_inits := dead_inits\<rparr>)
        })"

definition collect_stmt_move_effects ::
  "'b bitset \<Rightarrow> borrowck_ctx \<Rightarrow> local_decl list \<Rightarrow> statement \<Rightarrow> move_path_arena \<times> 'b move_effects \<Rightarrow>
    (move_path_arena \<times> 'b move_effects) option" where
  "collect_stmt_move_effects bs ctx decls s ae =
    (case st_kind s of
       StAssign dest rv \<Rightarrow>
         do {
           (found, a') \<leftarrow> find_path dest (fst ae);
           e' \<leftarrow> init_path bs a' found (snd ae);
           (a'', moves) \<leftarrow> collect_rvalue_move_operands bs ctx decls rv (a', me_moves e');
           Some (a'', e'\<lparr>me_moves := moves\<rparr>)
         }
     | StStorageLive l \<Rightarrow>
         do { e' \<leftarrow> init_path bs (fst ae) (find_root (fst ae) l) (snd ae); Some (fst ae, e') }
     | StStorageDead l \<Rightarrow>
         (case find_root (fst ae) l of
            None \<Rightarrow> Some ae
          | Some i \<Rightarrow>
             do {
               moves \<leftarrow> record_path bs (fst ae) i (me_moves (snd ae));
               deads \<leftarrow> record_path bs (fst ae) i (me_deads (snd ae));
               Some (fst ae, (snd ae)\<lparr>me_moves := moves, me_deads := deads\<rparr>)
             })
     | StNop \<Rightarrow> Some ae)"

definition collect_block_effects ::
  "'b bitset \<Rightarrow> borrowck_ctx \<Rightarrow> local_decl list \<Rightarrow> nat \<Rightarrow> basic_block \<Rightarrow> move_path_arena \<Rightarrow>
    (move_path_arena \<times> 'b move_effects) option" where
  "collect_block_effects bs ctx decls num_paths blk a =
    (let empty = bs_with_capacity bs num_paths in
     do {
       (a', e) \<leftarrow> fold_opt (collect_stmt_move_effects bs ctx decls) (bb_statements blk)
         (a, \<lparr>me_moves = empty, me_inits = empty, me_deads = empty, me_dead_inits = empty\<rparr>);
       case tm_kind (bb_terminator blk) of
         TCall _ _ dest _ _ \<Rightarrow>
           do { (found, a'') \<leftarrow> find_path dest a'; e' \<leftarrow> init_path bs a'' found e; Some (a'', e') }
       | _ \<Rightarrow> Some (a', e)
     })"

fun collect_effects ::
  "'b bitset \<Rightarrow> borrowck_ctx \<Rightarrow> local_decl list \<Rightarrow> nat \<Rightarrow> basic_block list \<Rightarrow> move_path_arena \<Rightarrow>
    (move_path_arena \<times> 'b move_effects list) option" where
  "collect_effects bs ctx decls num_paths [] a = Some (a, [])"
| "collect_effects bs ctx decls num_paths (blk # blks) a =
    do {
      (a', e) \<leftarrow> collect_block_effects bs ctx decls num_paths blk a;
      (a'', es) \<leftarrow> collect_effects bs ctx decls num_paths blks a';
      Some (a'', e # es)
    }"

subsection \<open>The dataflow\<close>

record 'b move_facts =
  mf_moved_in :: 'b
  mf_moved_out :: 'b
  mf_dead_in :: 'b
  mf_dead_out :: 'b

definition facts_eq :: "'b bitset \<Rightarrow> 'b move_facts \<Rightarrow> 'b move_facts \<Rightarrow> bool" where
  "facts_eq bs f g \<longleftrightarrow> bs_eq bs (mf_moved_in f) (mf_moved_in g) \<and> bs_eq bs (mf_moved_out f) (mf_moved_out g) \<and>
     bs_eq bs (mf_dead_in f) (mf_dead_in g) \<and> bs_eq bs (mf_dead_out f) (mf_dead_out g)"

definition move_update :: "'b bitset \<Rightarrow> nat \<Rightarrow> nat list list \<Rightarrow> 'b move_effects list \<Rightarrow> 'b move_facts list \<Rightarrow> nat \<Rightarrow> 'b move_facts" where
  "move_update bs num_paths preds effects facts bi =
    (let e = effects ! bi;
         from_preds = (\<lambda>sel. if bi \<noteq> 0
           then foldl (\<lambda>acc p. bs_union bs acc (sel (facts ! p))) (bs_with_capacity bs num_paths) (preds ! bi)
           else bs_with_capacity bs num_paths);
         moved_in = from_preds mf_moved_out;
         dead_in = from_preds mf_dead_out
     in \<lparr>mf_moved_in = moved_in, mf_moved_out = bs_difference bs (bs_union bs moved_in (me_moves e)) (me_inits e),
         mf_dead_in = dead_in, mf_dead_out = bs_difference bs (bs_union bs dead_in (me_deads e)) (me_dead_inits e)\<rparr>)"

partial_function (option) move_loop ::
  "'b bitset \<Rightarrow> nat \<Rightarrow> nat list list \<Rightarrow> nat list list \<Rightarrow> 'b move_effects list \<Rightarrow> nat list \<Rightarrow> 'b \<Rightarrow>
    'b move_facts list \<Rightarrow> 'b move_facts list option"
where
  "move_loop bs num_paths sucs preds effects work inw facts =
    (case work of
       [] \<Rightarrow> Some facts
     | bi # work' \<Rightarrow>
        do {
          inw' \<leftarrow> bs_remove bs inw bi;
          let new = move_update bs num_paths preds effects facts bi;
          if \<not> facts_eq bs new (facts ! bi)
          then do {
            (work'', inw'') \<leftarrow> fold_opt (enqueue bs) (sucs ! bi) (work', inw');
            move_loop bs num_paths sucs preds effects work'' inw'' (facts[bi := new])
          }
          else move_loop bs num_paths sucs preds effects work' inw' facts
        })"

declare move_loop.simps [code]

definition compute_move_dataflow ::
  "'b bitset \<Rightarrow> borrowck_ctx \<Rightarrow> body \<Rightarrow> move_path_arena \<Rightarrow> ('b move_facts list \<times> move_path_arena) option" where
  "compute_move_dataflow bs ctx body a =
    (let n = length (bd_blocks body);
         num_paths = length (ma_paths a);
         empty = bs_with_capacity bs num_paths
     in do {
       (a', effects) \<leftarrow> collect_effects bs ctx (bd_locals body) num_paths (bd_blocks body) a;
       preds \<leftarrow> block_predecessors (bd_blocks body);
       (work, inw) \<leftarrow> all_queued bs n;
       facts \<leftarrow> move_loop bs num_paths (map block_succs (bd_blocks body)) preds effects work inw
         (replicate n \<lparr>mf_moved_in = empty, mf_moved_out = empty, mf_dead_in = empty, mf_dead_out = empty\<rparr>);
       Some (facts, a')
     })"

subsection \<open>The check\<close>

definition reinit_path ::
  "'b bitset \<Rightarrow> move_path_arena \<Rightarrow> u32 option \<Rightarrow> 'b \<times> 'b \<Rightarrow> ('b \<times> 'b) option" where
  "reinit_path bs a found md =
    (case found of
       None \<Rightarrow> Some md
     | Some i \<Rightarrow>
        do { m \<leftarrow> unrecord_path bs a i (fst md); d \<leftarrow> unrecord_path bs a i (snd md); Some (m, d) })"

definition apply_stmt_move_effects ::
  "'b bitset \<Rightarrow> borrowck_ctx \<Rightarrow> local_decl list \<Rightarrow> statement \<Rightarrow> move_path_arena \<times> 'b \<times> 'b \<Rightarrow> (move_path_arena \<times> 'b \<times> 'b) option" where
  "apply_stmt_move_effects bs ctx decls s amd =
    (case amd of (a, md) \<Rightarrow>
     case st_kind s of
       StAssign dest rv \<Rightarrow>
         do {
           (found, a') \<leftarrow> find_path dest a;
           (m, d) \<leftarrow> reinit_path bs a' found md;
           (a'', m') \<leftarrow> collect_rvalue_move_operands bs ctx decls rv (a', m);
           Some (a'', m', d)
         }
     | StStorageLive l \<Rightarrow> do { md' \<leftarrow> reinit_path bs a (find_root a l) md; Some (a, md') }
     | StStorageDead l \<Rightarrow>
         (case find_root a l of
            None \<Rightarrow> Some amd
          | Some i \<Rightarrow> do { m \<leftarrow> record_path bs a i (fst md); d \<leftarrow> record_path bs a i (snd md); Some (a, m, d) })
     | StNop \<Rightarrow> Some amd)"

text \<open>The moved and dead paths before each statement, and the arena after the block.\<close>

fun compute_stmt_moved ::
  "'b bitset \<Rightarrow> borrowck_ctx \<Rightarrow> local_decl list \<Rightarrow> statement list \<Rightarrow> move_path_arena \<times> 'b \<times> 'b \<Rightarrow>
    (('b \<times> 'b) list \<times> move_path_arena) option" where
  "compute_stmt_moved bs ctx decls [] amd = Some ([snd amd], fst amd)"
| "compute_stmt_moved bs ctx decls (s # ss) amd =
    do {
      amd' \<leftarrow> apply_stmt_move_effects bs ctx decls s amd;
      (rest, a) \<leftarrow> compute_stmt_moved bs ctx decls ss amd';
      Some (snd amd # rest, a)
    }"

datatype used_place = UsedOperand place | UsedBorrow place | UsedInspect place

fun used_place_place :: "used_place \<Rightarrow> place" where
  "used_place_place (UsedOperand p) = p"
| "used_place_place (UsedBorrow p) = p"
| "used_place_place (UsedInspect p) = p"

fun collect_rvalue_used_places :: "rvalue \<Rightarrow> used_place list" where
  "collect_rvalue_used_places (RvRef p _) = [UsedBorrow p]"
| "collect_rvalue_used_places (RvDiscriminant p) = [UsedInspect p]"
| "collect_rvalue_used_places (RvLen p) = [UsedInspect p]"
| "collect_rvalue_used_places rv = map UsedOperand (concat (map walk_operand_reads (rvalue_operands rv)))"

definition collect_used_places :: "statement \<Rightarrow> used_place list" where
  "collect_used_places s = (case st_kind s of StAssign _ rv \<Rightarrow> collect_rvalue_used_places rv | _ \<Rightarrow> [])"

text \<open>The messages, with the local whose name they show; the flag tells a whole local from a part.\<close>

datatype borrow_message =
    MoveDead u32 bool | MovePartlyDead u32 | MoveMoved u32 bool | MovePartlyMoved u32
  | BorrowConflict u32 borrow_kind borrow_kind | UseConflict u32 borrow_kind | AssignConflict u32

record borrow_error =
  be_span :: span
  be_message :: borrow_message
  be_loan :: "(borrow_kind \<times> span) option"

definition move_error :: "statement \<Rightarrow> borrow_message \<Rightarrow> borrow_error" where
  "move_error s m = \<lparr>be_span = st_span s, be_message = m, be_loan = None\<rparr>"

text \<open>The children of a bare local are tested too.\<close>

definition any_child :: "'b bitset \<Rightarrow> move_path_arena \<Rightarrow> place \<Rightarrow> 'b \<Rightarrow> bool option" where
  "any_child bs a p s =
    (if pl_projection p = []
     then (case find_root a (pl_local p) of
             None \<Rightarrow> Some False
           | Some r \<Rightarrow> do { path \<leftarrow> get_path a r; Some (list_ex (\<lambda>c. bs_contains bs s (unat c)) (mp_children path)) })
     else Some False)"

definition check_place_use_after_move ::
  "'b bitset \<Rightarrow> borrowck_ctx \<Rightarrow> local_decl list \<Rightarrow> statement \<Rightarrow> 'b \<times> 'b \<Rightarrow> used_place \<Rightarrow> move_path_arena \<times> borrow_error list \<Rightarrow>
    (move_path_arena \<times> borrow_error list) option" where
  "check_place_use_after_move bs ctx decls s md u ae =
    (let p = used_place_place u; whole = pl_projection p = []; hit = (\<lambda>found set. case found of Some i \<Rightarrow> bs_contains bs set (unat i) | None \<Rightarrow> False)
     in do {
       (found, a) \<leftarrow> find_path p (fst ae);
       if hit found (snd md) then Some (a, snd ae @ [move_error s (MoveDead (pl_local p) whole)])
       else do {
         child_dead \<leftarrow> any_child bs a p (snd md);
         if child_dead then Some (a, snd ae @ [move_error s (MovePartlyDead (pl_local p))])
         else do {
           copy \<leftarrow> (case u of
             UsedOperand q \<Rightarrow> do { t \<leftarrow> place_ty (bc_ty_ctx ctx) decls q; bc_is_copy ctx t }
           | _ \<Rightarrow> Some False);
           if copy then Some (a, snd ae)
           else do {
             (found', a') \<leftarrow> find_path p a;
             if hit found' (fst md) then Some (a', snd ae @ [move_error s (MoveMoved (pl_local p) whole)])
             else do {
               child_moved \<leftarrow> any_child bs a' p (fst md);
               Some (a', if child_moved then snd ae @ [move_error s (MovePartlyMoved (pl_local p))] else snd ae)
             }
           }
         }
       }
     })"

definition check_stmt_use_after_move ::
  "'b bitset \<Rightarrow> borrowck_ctx \<Rightarrow> local_decl list \<Rightarrow> statement \<times> 'b \<times> 'b \<Rightarrow> move_path_arena \<times> borrow_error list \<Rightarrow>
    (move_path_arena \<times> borrow_error list) option" where
  "check_stmt_use_after_move bs ctx decls smd ae =
    fold_opt (check_place_use_after_move bs ctx decls (fst smd) (snd smd)) (collect_used_places (fst smd)) ae"

definition check_block_moves ::
  "'b bitset \<Rightarrow> borrowck_ctx \<Rightarrow> local_decl list \<Rightarrow> basic_block \<times> 'b move_facts \<Rightarrow> move_path_arena \<times> borrow_error list \<Rightarrow>
    (move_path_arena \<times> borrow_error list) option" where
  "check_block_moves bs ctx decls bf ae =
    do {
      (mds, a) \<leftarrow> compute_stmt_moved bs ctx decls (bb_statements (fst bf)) (fst ae, mf_moved_in (snd bf), mf_dead_in (snd bf));
      fold_opt (check_stmt_use_after_move bs ctx decls) (zip (bb_statements (fst bf)) mds) (a, snd ae)
    }"

definition check_moves :: "'b bitset \<Rightarrow> borrowck_ctx \<Rightarrow> body \<Rightarrow> borrow_error list option" where
  "check_moves bs ctx body =
    do {
      a \<leftarrow> build_move_paths ctx body;
      if ma_paths a = [] then Some []
      else do {
        (facts, a') \<leftarrow> compute_move_dataflow bs ctx body a;
        (_, errors) \<leftarrow> fold_opt (check_block_moves bs ctx (bd_locals body)) (zip (bd_blocks body) facts) (a', []);
        Some errors
      }
    }"

end
