(* ===== verification/Borrowck.thy ===== *)
theory Borrowck
  imports Move_Analysis
begin

text \<open>
  The borrow checker of \<^verbatim>\<open>crates/glyim-borrowck/src/lib.rs\<close>: loans, the loans that are active at a statement
  because the local that holds the reference is live, and the conflicts with what the statement does.  Messages keep
  the locals and borrow kinds that the diagnostics print.
\<close>

subsection \<open>Loans\<close>

record loan =
  ln_index :: nat
  ln_dest :: u32
  ln_place :: place
  ln_kind :: borrow_kind
  ln_span :: span
  ln_point :: "nat \<times> nat"

definition stmt_loan :: "nat \<Rightarrow> nat \<times> statement \<Rightarrow> loan list \<Rightarrow> loan list" where
  "stmt_loan b s loans =
    (case st_kind (snd s) of
       StAssign dest (RvRef borrowed kind) \<Rightarrow>
         loans @ [\<lparr>ln_index = length loans, ln_dest = pl_local dest, ln_place = borrowed, ln_kind = kind,
           ln_span = st_span (snd s), ln_point = (b, fst s)\<rparr>]
     | _ \<Rightarrow> loans)"

definition collect_loans :: "body \<Rightarrow> loan list" where
  "collect_loans body =
    fold (\<lambda>(b, blk). fold (stmt_loan b) (enumerate 0 (bb_statements blk))) (enumerate 0 (bd_blocks body)) []"

definition is_two_phase :: "borrow_kind \<Rightarrow> bool" where
  "is_two_phase k \<longleftrightarrow> k = BkMut True"

type_synonym 'b activation_cache = "nat \<Rightarrow> 'b list option"

definition loan_is_in_reservation :: "'b bitset \<Rightarrow> loan \<Rightarrow> nat \<Rightarrow> nat \<Rightarrow> 'b list \<Rightarrow> bool" where
  "loan_is_in_reservation bs l b i act \<longleftrightarrow> is_two_phase (ln_kind l) \<and> is_reservation bs act b i"

definition in_reservation :: "'b bitset \<Rightarrow> 'b activation_cache \<Rightarrow> loan \<Rightarrow> nat \<Rightarrow> nat \<Rightarrow> bool" where
  "in_reservation bs cache l b i =
    (case cache (ln_index l) of Some act \<Rightarrow> loan_is_in_reservation bs l b i act | None \<Rightarrow> False)"

fun conflicts_with_active :: "borrow_kind \<Rightarrow> borrow_kind \<Rightarrow> bool \<Rightarrow> bool" where
  "conflicts_with_active BkShared BkShared _ = False"
| "conflicts_with_active (BkMut _) BkShared reserved = (\<not> reserved)"
| "conflicts_with_active _ _ _ = True"

subsection \<open>Conflicts\<close>

definition loan_error :: "span \<Rightarrow> borrow_message \<Rightarrow> loan \<Rightarrow> borrow_error" where
  "loan_error sp m l = \<lparr>be_span = sp, be_message = m, be_loan = Some (ln_kind l, ln_span l)\<rparr>"

text \<open>Reads of a place that is mutably or uniquely borrowed.\<close>

definition read_conflicts :: "'b bitset \<Rightarrow> 'b activation_cache \<Rightarrow> span \<Rightarrow> place list \<Rightarrow> loan list \<Rightarrow> nat \<Rightarrow> nat \<Rightarrow> borrow_error list" where
  "read_conflicts bs cache sp reads active b i =
    concat (map (\<lambda>p. concat (map (\<lambda>l.
      if places_conflict p (ln_place l) \<and> ln_kind l \<noteq> BkShared \<and> \<not> in_reservation bs cache l b i
      then [loan_error sp (UseConflict (pl_local p) (ln_kind l)) l] else []) active)) reads)"

definition check_terminator_conflicts ::
  "'b bitset \<Rightarrow> 'b activation_cache \<Rightarrow> terminator \<Rightarrow> loan list \<Rightarrow> nat \<Rightarrow> nat \<Rightarrow> borrow_error list" where
  "check_terminator_conflicts bs cache t active b i =
    read_conflicts bs cache (tm_span t) (walk_terminator_reads (tm_kind t)) active b i"

definition check_stmt_conflicts ::
  "'b bitset \<Rightarrow> 'b activation_cache \<Rightarrow> statement \<Rightarrow> loan list \<Rightarrow> nat \<Rightarrow> nat \<Rightarrow> borrow_error list" where
  "check_stmt_conflicts bs cache s active b i =
    (case st_kind s of
       StAssign dest rv \<Rightarrow>
         (case rv of
            RvRef borrowed kind \<Rightarrow>
              concat (map (\<lambda>l.
                if places_conflict borrowed (ln_place l) \<and> conflicts_with_active (ln_kind l) kind (in_reservation bs cache l b i)
                then [loan_error (st_span s) (BorrowConflict (pl_local borrowed) kind (ln_kind l)) l] else []) active)
          | _ \<Rightarrow>
              read_conflicts bs cache (st_span s) (walk_rvalue_reads rv) active b i @
              concat (map (\<lambda>l. if places_conflict dest (ln_place l)
                then [loan_error (st_span s) (AssignConflict (pl_local dest)) l] else []) active))
     | _ \<Rightarrow> [])"

subsection \<open>The checker\<close>

definition cache_loan ::
  "'b bitset \<Rightarrow> body \<Rightarrow> loan \<Rightarrow> 'b activation_cache \<Rightarrow> 'b activation_cache option" where
  "cache_loan bs body l cache =
    (if is_two_phase (ln_kind l)
     then do {
       act \<leftarrow> reservation_compute bs body (fst (ln_point l)) (snd (ln_point l)) (ln_dest l);
       Some (cache(ln_index l \<mapsto> act))
     }
     else Some cache)"

definition push_loan :: "loan \<Rightarrow> nat list list \<Rightarrow> nat list list option" where
  "push_loan l by_dest =
    do { ls \<leftarrow> get by_dest (unat (ln_dest l)); Some (by_dest[unat (ln_dest l) := ls @ [ln_index l]]) }"

text \<open>The loans whose reference is in a live local, in the order of the locals.\<close>

fun active_loans :: "loan list \<Rightarrow> nat list list \<Rightarrow> nat list \<Rightarrow> loan list option" where
  "active_loans loans by_dest [] = Some []"
| "active_loans loans by_dest (l # ls) =
    do {
      is \<leftarrow> get by_dest l;
      here \<leftarrow> map_opt (get loans) is;
      rest \<leftarrow> active_loans loans by_dest ls;
      Some (here @ rest)
    }"

fun check_stmts ::
  "'b bitset \<Rightarrow> 'b activation_cache \<Rightarrow> loan list \<Rightarrow> nat list list \<Rightarrow> nat \<Rightarrow> nat \<Rightarrow> statement list \<Rightarrow> 'b list \<Rightarrow> borrow_error list option" where
  "check_stmts bs cache loans by_dest b i (s # ss) (live # lives) =
    do {
      active \<leftarrow> active_loans loans by_dest (bs_ones bs live);
      rest \<leftarrow> check_stmts bs cache loans by_dest b (Suc i) ss lives;
      Some (check_stmt_conflicts bs cache s active b i @ rest)
    }"
| "check_stmts bs cache loans by_dest b i _ _ = Some []"

definition check_block ::
  "'b bitset \<Rightarrow> body \<Rightarrow> 'b activation_cache \<Rightarrow> loan list \<Rightarrow> nat list list \<Rightarrow> 'b list \<Rightarrow> nat \<times> basic_block \<Rightarrow> borrow_error list option" where
  "check_block bs body cache loans by_dest live_out bb =
    do {
      out \<leftarrow> get live_out (fst bb);
      lives \<leftarrow> compute_stmt_liveness bs body (fst bb) out;
      errors \<leftarrow> check_stmts bs cache loans by_dest (fst bb) 0 (bb_statements (snd bb)) lives;
      active \<leftarrow> active_loans loans by_dest (bs_ones bs (last lives));
      Some (errors @ check_terminator_conflicts bs cache (bb_terminator (snd bb)) active (fst bb) (length (bb_statements (snd bb))))
    }"

definition check_borrows :: "'b bitset \<Rightarrow> borrowck_ctx \<Rightarrow> body \<Rightarrow> borrow_error list option" where
  "check_borrows bs ctx body =
    (let loans = collect_loans body in
     do {
       live_out \<leftarrow> compute_liveness bs body;
       cache \<leftarrow> fold_opt (cache_loan bs body) loans (\<lambda>_. None);
       by_dest \<leftarrow> fold_opt push_loan loans (replicate (length (bd_locals body)) []);
       errors \<leftarrow> map_opt (check_block bs body cache loans by_dest live_out) (enumerate 0 (bd_blocks body));
       move_errors \<leftarrow> check_moves bs ctx body;
       Some (concat errors @ move_errors)
     })"

end
