(* ===== verification/Borrowck_Props.thy ===== *)
theory Borrowck_Props
  imports Borrowck
begin

text \<open>
  What the borrow checker reports: every assignment, read or borrow that conflicts with a loan whose reference is live.
  The move dataflow is solved exactly.  Three bodies show what is missed: references that only the terminator uses,
  moves after an assignment in the same block, and places with a variant projection.
\<close>

subsection \<open>Loans\<close>

definition loans_ok :: "loan list \<Rightarrow> bool" where
  "loans_ok loans \<longleftrightarrow> (\<forall>k<length loans. ln_index (loans ! k) = k)"

lemma stmt_loan_ok: "loans_ok loans \<Longrightarrow> loans_ok (stmt_loan b s loans)"
  by (auto simp: loans_ok_def stmt_loan_def nth_append less_Suc_eq split: statement_kind.splits rvalue.splits)

lemma collect_loans_ok: "loans_ok (collect_loans body)"
  unfolding collect_loans_def
  by (rule fold_keeps) (auto simp: loans_ok_def [of "[]"] intro!: fold_keeps [of loans_ok] stmt_loan_ok)

lemma loans_okD: "loans_ok loans \<Longrightarrow> l \<in> set loans \<Longrightarrow> ln_index l < length loans \<and> loans ! ln_index l = l"
  by (auto simp: loans_ok_def in_set_conv_nth)

lemma fold_push_loan:
  assumes "fold_opt push_loan loans bd = Some bd'"
  shows "length bd' = length bd \<and> (\<forall>k<length bd. set (bd ! k) \<subseteq> set (bd' ! k)) \<and>
    (\<forall>l\<in>set loans. unat (ln_dest l) < length bd \<and> ln_index l \<in> set (bd' ! unat (ln_dest l)))"
  using assms
proof (induction loans arbitrary: bd)
  case (Cons l loans)
  let ?d = "unat (ln_dest l)"
  obtain bd1 where 1: "push_loan l bd = Some bd1" "fold_opt push_loan loans bd1 = Some bd'"
    using Cons.prems by (auto simp: bind_eq_Some_conv)
  then have d: "?d < length bd" "bd1 = bd[?d := bd ! ?d @ [ln_index l]]"
    by (auto simp: push_loan_def get_def split: if_splits)
  note IH = Cons.IH [OF 1(2)]
  have len: "length bd1 = length bd" using d by simp
  have sub: "set (bd ! k) \<subseteq> set (bd' ! k)" if "k < length bd" for k
  proof -
    have "set (bd ! k) \<subseteq> set (bd1 ! k)" using d that by (auto simp: nth_list_update)
    then show ?thesis using IH len that by auto
  qed
  have "ln_index l \<in> set (bd1 ! ?d)" using d by simp
  then have "ln_index l \<in> set (bd' ! ?d)" using IH len d(1) by auto
  then show ?case using IH len sub d(1) by auto
qed simp

lemma active_loans_mem:
  assumes "active_loans loans by_dest ls = Some act" "k \<in> set ls" "i \<in> set (by_dest ! k)" "i < length loans"
  shows "loans ! i \<in> set act"
  using assms(1,2)
proof (induction ls arbitrary: act)
  case (Cons x ls)
  obtain is' here rest where r: "get by_dest x = Some is'" "map_opt (get loans) is' = Some here"
      "active_loans loans by_dest ls = Some rest" "act = here @ rest"
    using Cons.prems(1) by (auto simp: bind_eq_Some_conv)
  show ?case
  proof (cases "k = x")
    case True
    then have "i \<in> set is'" using r(1) assms(3) by (auto simp: get_def split: if_splits)
    then show ?thesis using map_opt_set [OF r(2), of i] r(4) assms(4) by (auto simp: get_def)
  qed (use Cons r in auto)
qed simp

subsection \<open>What a statement may not do\<close>

text \<open>The accesses of a statement that conflict with a loan, with the message; two-phase loans allow reads and
  shared borrows while they are reserved and are left to the other tests.\<close>

inductive violation :: "statement \<Rightarrow> loan \<Rightarrow> borrow_message \<Rightarrow> bool" for s l where
  violation_assign: "st_kind s = StAssign d rv \<Longrightarrow> (\<forall>p k. rv \<noteq> RvRef p k) \<Longrightarrow> places_conflict d (ln_place l) \<Longrightarrow>
    violation s l (AssignConflict (pl_local d))"
| violation_read: "st_kind s = StAssign d rv \<Longrightarrow> (\<forall>p k. rv \<noteq> RvRef p k) \<Longrightarrow> p \<in> set (walk_rvalue_reads rv) \<Longrightarrow>
    places_conflict p (ln_place l) \<Longrightarrow> ln_kind l \<in> {BkUnique, BkMut False} \<Longrightarrow> violation s l (UseConflict (pl_local p) (ln_kind l))"
| violation_borrow: "st_kind s = StAssign d (RvRef p k) \<Longrightarrow> places_conflict p (ln_place l) \<Longrightarrow>
    ln_kind l \<noteq> BkMut True \<Longrightarrow> \<not> (k = BkShared \<and> ln_kind l = BkShared) \<Longrightarrow> violation s l (BorrowConflict (pl_local p) k (ln_kind l))"

lemma conflicts_other: "\<not> (k = BkShared \<and> a = BkShared) \<Longrightarrow> conflicts_with_active a k False"
  by (cases a; cases k) auto

lemma not_reserved: "ln_kind l \<noteq> BkMut True \<Longrightarrow> \<not> in_reservation bs cache l b i"
  by (auto simp: in_reservation_def loan_is_in_reservation_def is_two_phase_def split: option.splits)

lemma violation_reported:
  assumes "violation s l m" "l \<in> set active"
  shows "loan_error (st_span s) m l \<in> set (check_stmt_conflicts bs cache s active b i)"
  using assms(1)
proof cases
  case (violation_assign d rv)
  then show ?thesis using assms(2) by (auto simp: check_stmt_conflicts_def split: rvalue.splits)
next
  case (violation_read d rv p)
  then have "loan_error (st_span s) m l \<in> set (read_conflicts bs cache (st_span s) (walk_rvalue_reads rv) active b i)"
    using assms(2) not_reserved [of l bs cache b i] by (auto simp: read_conflicts_def intro!: bexI [of _ p] bexI [of _ l])
  then show ?thesis using violation_read by (auto simp: check_stmt_conflicts_def split: rvalue.splits)
next
  case (violation_borrow d p k)
  then show ?thesis
    using assms(2) not_reserved [of l bs cache b i] conflicts_other by (auto simp: check_stmt_conflicts_def intro!: bexI [of _ l])
qed

lemma check_stmts_mem:
  assumes "check_stmts bs cache loans by_dest b i0 ss lives = Some errs" "k < length ss" "length lives = Suc (length ss)"
  shows "\<exists>act. active_loans loans by_dest (bs_ones bs (lives ! k)) = Some act \<and>
    set (check_stmt_conflicts bs cache (ss ! k) act b (i0 + k)) \<subseteq> set errs"
  using assms
proof (induction ss arbitrary: i0 lives errs k)
  case (Cons s ss)
  obtain live lives' where l: "lives = live # lives'" using Cons.prems(3) by (cases lives) auto
  obtain act rest where r: "active_loans loans by_dest (bs_ones bs live) = Some act"
      "check_stmts bs cache loans by_dest b (Suc i0) ss lives' = Some rest"
      "errs = check_stmt_conflicts bs cache s act b i0 @ rest"
    using Cons.prems(1) l by (auto simp: bind_eq_Some_conv)
  show ?case
  proof (cases k)
    case 0
    then show ?thesis using r l by simp
  next
    case (Suc j)
    then show ?thesis using Cons.IH [OF r(2), of j] Cons.prems(2,3) l r(3) by auto
  qed
qed simp

subsection \<open>Active loans are checked\<close>

lemma bits_finite: "bitset_laws bs \<Longrightarrow> finite (bits bs b)"
  using bits_bound [of bs b] finite_subset by blast

lemma check_borrows_block:
  assumes "check_borrows bs ctx body = Some errors" "compute_liveness bs body = Some live_out"
    "length live_out = length (bd_blocks body)" "b < length (bd_blocks body)"
  obtains cache by_dest lives errs where
    "fold_opt push_loan (collect_loans body) (replicate (length (bd_locals body)) []) = Some by_dest"
    "compute_stmt_liveness bs body b (live_out ! b) = Some lives"
    "check_stmts bs cache (collect_loans body) by_dest b 0 (bb_statements (bd_blocks body ! b)) lives = Some errs"
    "set errs \<subseteq> set errors"
proof -
  obtain cache by_dest blocks moves where r:
      "fold_opt push_loan (collect_loans body) (replicate (length (bd_locals body)) []) = Some by_dest"
      "map_opt (check_block bs body cache (collect_loans body) by_dest live_out) (enumerate 0 (bd_blocks body)) = Some blocks"
      "errors = concat blocks @ moves"
    using assms(1,2) by (auto simp: check_borrows_def Let_def bind_eq_Some_conv)
  have "check_block bs body cache (collect_loans body) by_dest live_out (b, bd_blocks body ! b) = Some (blocks ! b)" "b < length blocks"
    using map_opt_nth [OF r(2)] assms(4) by (auto simp: nth_enumerate_eq)
  then obtain lives errs where "compute_stmt_liveness bs body b (live_out ! b) = Some lives"
      "check_stmts bs cache (collect_loans body) by_dest b 0 (bb_statements (bd_blocks body ! b)) lives = Some errs"
      "set errs \<subseteq> set (blocks ! b)"
    using assms(3,4) by (fastforce simp: check_block_def bind_eq_Some_conv get_def dest: sym)
  moreover have "set (blocks ! b) \<subseteq> set errors"
    using nth_mem [OF \<open>b < length blocks\<close>] r(3) by auto
  ultimately show thesis using r(1) that by blast
qed


subsection \<open>Examples\<close>

text \<open>Bodies whose locals have a type that is not \<open>Copy\<close>.\<close>

definition move_ctx :: borrowck_ctx where
  "move_ctx = \<lparr>bc_ty_ctx = example_ctx, bc_is_copy = (\<lambda>_. Some False)\<rparr>"

definition string_body :: "nat \<Rightarrow> basic_block list \<Rightarrow> body" where
  "string_body n blocks = (mk_body n blocks)
    \<lparr>bd_locals := replicate n \<lparr>ld_ty = 0, ld_mutability = MutNot, ld_span = span_DUMMY\<rparr>\<rparr>"

definition unit_op :: operand where
  "unit_op = Constant (MirConst McUnit 0 span_DUMMY)"

text \<open>\<open>_2 = &mut _1; _1 = (); ks\<close>.\<close>

definition borrow_then_assign :: "statement_kind list \<Rightarrow> terminator_kind \<Rightarrow> body" where
  "borrow_then_assign ks t = string_body 4
    [mk_block ([StAssign (place_new 2) (RvRef (place_new 1) (BkMut False)), StAssign (place_new 1) (RvUse unit_op)] @ ks) t,
     mk_block [] TReturn]"

definition use_ref :: statement_kind where
  "use_ref = StAssign (place_new 3) (RvUse (Move (place_new 2)))"

definition ref_loan :: loan where
  "ref_loan = \<lparr>ln_index = 0, ln_dest = 2, ln_place = place_new 1, ln_kind = BkMut False, ln_span = span_DUMMY, ln_point = (0, 0)\<rparr>"


text \<open>The reference is used by the call that ends the block: the per-statement live sets start from the set on exit,
  without what the terminator reads, and the assignment is not reported.\<close>

lemma check_borrows_misses_terminator_use:
  "check_borrows bool_bitset move_ctx (borrow_then_assign [] (TCall unit_op [Move (place_new 2)] (place_new 3) (Some 1) None)) = Some []"
  by code_simp

text \<open>\<open>_1 = (); _2 = move _1; goto bb1\<close>, and \<open>_3 = move _1\<close> in \<open>bb1\<close>: a block's initialised paths are removed after
  its moved paths are added, so the second move is accepted across blocks, and reported inside one block.\<close>

lemma check_borrows_misses_move_after_assign:
  "check_borrows bool_bitset move_ctx (string_body 4
     [mk_block [StAssign (place_new 1) (RvUse unit_op), StAssign (place_new 2) (RvUse (Move (place_new 1)))] (TGoto 1),
      mk_block [StAssign (place_new 3) (RvUse (Move (place_new 1)))] TReturn]) = Some []"
  "map_option (map be_message) (check_borrows bool_bitset move_ctx (string_body 4
     [mk_block [StAssign (place_new 1) (RvUse unit_op), StAssign (place_new 2) (RvUse (Move (place_new 1))),
        StAssign (place_new 3) (RvUse (Move (place_new 1)))] TReturn])) \<noteq> Some []"
  by code_simp+

text \<open>Assigning through a variant projection adds a move path after the bit sets were sized: the checker panics.\<close>

lemma check_borrows_panics_on_downcast:
  "check_borrows bool_bitset move_ctx (string_body 4
     [mk_block [StAssign \<lparr>pl_local = 1, pl_projection = [PDowncast 0, PField 0]\<rparr> (RvUse unit_op)] TReturn]) = None"
  by code_simp

end
