(* ===== verification/Bytecode_Vm.thy ===== *)
theory Bytecode_Vm
  imports Glyim_Prelude
begin

unbundle bit_operations_syntax

text \<open>
  The switch-dispatch bytecode machine of \<^verbatim>\<open>crates/glyim-bytecode-vm/src/lib.rs\<close>.
  Scalars are 64-bit words (\<open>sint\<close> reads them as \<open>i64\<close>), code is a list of
  bytes, \<open>usize\<close> values are natural numbers.  The operand stack and the call
  stack have their top at the head of the list (the Rust vectors have it at the
  end).  A Rust panic (an index out of range, an overflowing \<open>addr + 1\<close>) is the
  failure \<open>VmPanic\<close>, every \<open>VmError\<close> is \<open>VmErr\<close>.  Limits of the host
  allocator are not modelled.
\<close>

subsection \<open>Values, opcodes, functions, modules\<close>

datatype vm_value = VInt i64 | VTuple "vm_value list"

definition as_int :: "vm_value \<Rightarrow> i64" where
  "as_int v = (case v of VInt i \<Rightarrow> i | VTuple _ \<Rightarrow> 0)"

datatype opcode =
    Opcode_LoadConst | Opcode_Add | Opcode_Sub | Opcode_Mul | Opcode_Div | Opcode_Rem
  | Opcode_Eq | Opcode_Ne | Opcode_Lt | Opcode_Gt | Opcode_Le | Opcode_Ge
  | Opcode_And | Opcode_Or | Opcode_Not | Opcode_Neg
  | Opcode_BitAnd | Opcode_BitOr | Opcode_BitXor | Opcode_Shl | Opcode_Shr
  | Opcode_LoadLocal | Opcode_StoreLocal | Opcode_Return | Opcode_JumpIf | Opcode_Jump
  | Opcode_Call | Opcode_Cast | Opcode_Aggregate | Opcode_Discriminant | Opcode_Len
  | Opcode_SwitchInt | Opcode_Assert | Opcode_CallIndirect | Opcode_LoadLocalAddr
  | Opcode_StoreField | Opcode_Deref | Opcode_Drop | Opcode_Repeat | Opcode_Trap

text \<open>The \<open>repr(u8)\<close> discriminants.\<close>

fun opcode_u8 :: "opcode \<Rightarrow> u8" where
  "opcode_u8 Opcode_LoadConst = 0x01"
| "opcode_u8 Opcode_Add = 0x02"
| "opcode_u8 Opcode_Sub = 0x03"
| "opcode_u8 Opcode_Mul = 0x04"
| "opcode_u8 Opcode_Div = 0x05"
| "opcode_u8 Opcode_Rem = 0x06"
| "opcode_u8 Opcode_Eq = 0x07"
| "opcode_u8 Opcode_Ne = 0x08"
| "opcode_u8 Opcode_Lt = 0x09"
| "opcode_u8 Opcode_Gt = 0x0A"
| "opcode_u8 Opcode_Le = 0x0B"
| "opcode_u8 Opcode_Ge = 0x0C"
| "opcode_u8 Opcode_And = 0x0D"
| "opcode_u8 Opcode_Or = 0x0E"
| "opcode_u8 Opcode_Not = 0x0F"
| "opcode_u8 Opcode_Neg = 0x10"
| "opcode_u8 Opcode_BitAnd = 0x11"
| "opcode_u8 Opcode_BitOr = 0x12"
| "opcode_u8 Opcode_BitXor = 0x13"
| "opcode_u8 Opcode_Shl = 0x14"
| "opcode_u8 Opcode_Shr = 0x15"
| "opcode_u8 Opcode_LoadLocal = 0x16"
| "opcode_u8 Opcode_StoreLocal = 0x17"
| "opcode_u8 Opcode_Return = 0x18"
| "opcode_u8 Opcode_JumpIf = 0x19"
| "opcode_u8 Opcode_Jump = 0x1A"
| "opcode_u8 Opcode_Call = 0x1B"
| "opcode_u8 Opcode_Cast = 0x1C"
| "opcode_u8 Opcode_Aggregate = 0x1D"
| "opcode_u8 Opcode_Discriminant = 0x1E"
| "opcode_u8 Opcode_Len = 0x1F"
| "opcode_u8 Opcode_SwitchInt = 0x20"
| "opcode_u8 Opcode_Assert = 0x21"
| "opcode_u8 Opcode_CallIndirect = 0x22"
| "opcode_u8 Opcode_LoadLocalAddr = 0x29"
| "opcode_u8 Opcode_StoreField = 0x2A"
| "opcode_u8 Opcode_Deref = 0x2B"
| "opcode_u8 Opcode_Drop = 0x2C"
| "opcode_u8 Opcode_Repeat = 0x2D"
| "opcode_u8 Opcode_Trap = 0xFF"

text \<open>The decoder's match, as a table in the order of its arms.\<close>

definition from_u8 :: "u8 \<Rightarrow> opcode option" where
  "from_u8 b = map_of
    [(0x01, Opcode_LoadConst), (0x02, Opcode_Add), (0x03, Opcode_Sub), (0x04, Opcode_Mul),
     (0x05, Opcode_Div), (0x06, Opcode_Rem), (0x07, Opcode_Eq), (0x08, Opcode_Ne),
     (0x09, Opcode_Lt), (0x0A, Opcode_Gt), (0x0B, Opcode_Le), (0x0C, Opcode_Ge),
     (0x0D, Opcode_And), (0x0E, Opcode_Or), (0x0F, Opcode_Not), (0x10, Opcode_Neg),
     (0x11, Opcode_BitAnd), (0x12, Opcode_BitOr), (0x13, Opcode_BitXor), (0x14, Opcode_Shl),
     (0x15, Opcode_Shr), (0x16, Opcode_LoadLocal), (0x17, Opcode_StoreLocal),
     (0x18, Opcode_Return), (0x19, Opcode_JumpIf), (0x1A, Opcode_Jump), (0x1B, Opcode_Call),
     (0x1C, Opcode_Cast), (0x1D, Opcode_Aggregate), (0x1E, Opcode_Discriminant),
     (0x1F, Opcode_Len), (0x20, Opcode_SwitchInt), (0x21, Opcode_Assert),
     (0x22, Opcode_CallIndirect), (0x29, Opcode_LoadLocalAddr), (0x2A, Opcode_StoreField),
     (0x2B, Opcode_Deref), (0x2C, Opcode_Drop), (0x2D, Opcode_Repeat), (0xFF, Opcode_Trap)] b"

record vm_function =
  fn_code :: "u8 list"
  fn_n_locals :: nat
  fn_arg_count :: nat
  fn_block_offsets :: "nat list"

definition function_new :: "u8 list \<Rightarrow> nat \<Rightarrow> nat \<Rightarrow> vm_function" where
  "function_new code n_locals arg_count =
     \<lparr>fn_code = code, fn_n_locals = n_locals, fn_arg_count = arg_count, fn_block_offsets = []\<rparr>"

definition function_with_blocks :: "u8 list \<Rightarrow> nat \<Rightarrow> nat \<Rightarrow> nat list \<Rightarrow> vm_function" where
  "function_with_blocks code n_locals arg_count block_offsets =
     \<lparr>fn_code = code, fn_n_locals = n_locals, fn_arg_count = arg_count,
      fn_block_offsets = block_offsets\<rparr>"

record vm_module =
  md_functions :: "vm_function list"
  md_entry :: nat

datatype vm_error =
    UnexpectedEndOfCode
  | UnknownOpcode u8
  | UnsupportedOpcode opcode
  | StackUnderflow
  | LocalOutOfBounds nat
  | EmptyReturn
  | AbnormalTermination
  | AssertionFailed
  | CallFrameOverflow
  | FunctionOutOfBounds nat
  | SwitchNoTarget

datatype vm_failure = VmErr vm_error | VmPanic

text \<open>\<open>block_offsets[target]\<close> panics out of range.\<close>

definition resolve_target :: "vm_function \<Rightarrow> u32 \<Rightarrow> vm_failure + nat" where
  "resolve_target f target =
     (if fn_block_offsets f \<noteq> [] then ok_or (get (fn_block_offsets f) (unat target)) VmPanic
      else Inr (unat target))"

definition MAX_CALL_DEPTH :: nat where
  "MAX_CALL_DEPTH = 1024"

record vm_frame =
  fr_locals :: "vm_value list"
  fr_mem :: "vm_value list"
  fr_func :: nat
  fr_pc :: nat
  fr_resume_target :: u32
  fr_dest_local :: nat

record vm =
  vm_stack :: "vm_value list"
  vm_frames :: "vm_frame list"

definition vm_new :: vm where
  "vm_new = \<lparr>vm_stack = [], vm_frames = []\<rparr>"

subsection \<open>Helpers of the driver\<close>

definition vm_pop :: "vm_value list \<Rightarrow> vm_failure + vm_value \<times> vm_value list" where
  "vm_pop st = (case st of [] \<Rightarrow> Inl (VmErr StackUnderflow) | v # st' \<Rightarrow> Inr (v, st'))"

definition read_u32 :: "u8 list \<Rightarrow> nat \<Rightarrow> vm_failure + u32 \<times> nat" where
  "read_u32 code pc =
     (if length code < pc + 4 then Inl (VmErr UnexpectedEndOfCode)
      else Inr (u32_from_le (take 4 (drop pc code)), pc + 4))"

definition read_i64 :: "u8 list \<Rightarrow> nat \<Rightarrow> vm_failure + i64 \<times> nat" where
  "read_i64 code pc =
     (if length code < pc + 8 then Inl (VmErr UnexpectedEndOfCode)
      else Inr (i64_from_le (take 8 (drop pc code)), pc + 8))"

text \<open>\<open>code[pc]\<close>, which panics at the end of the code.\<close>

definition read_byte :: "u8 list \<Rightarrow> nat \<Rightarrow> vm_failure + u8 \<times> nat" where
  "read_byte code pc = rbind (ok_or (get code pc) VmPanic) (\<lambda>b. Inr (b, pc + 1))"

fun vm_binop :: "opcode \<Rightarrow> i64 \<Rightarrow> i64 \<Rightarrow> i64 option" where
  "vm_binop Opcode_Add a b = Some (a + b)"
| "vm_binop Opcode_Sub a b = Some (a - b)"
| "vm_binop Opcode_Mul a b = Some (a * b)"
| "vm_binop Opcode_Div a b = Some (case checked_div_i64 a b of None \<Rightarrow> 0 | Some q \<Rightarrow> q)"
| "vm_binop Opcode_Rem a b = Some (case checked_rem_i64 a b of None \<Rightarrow> 0 | Some r \<Rightarrow> r)"
| "vm_binop Opcode_Eq a b = Some (bool_word (a = b))"
| "vm_binop Opcode_Ne a b = Some (bool_word (a \<noteq> b))"
| "vm_binop Opcode_Lt a b = Some (bool_word (sint a < sint b))"
| "vm_binop Opcode_Gt a b = Some (bool_word (sint a > sint b))"
| "vm_binop Opcode_Le a b = Some (bool_word (sint a \<le> sint b))"
| "vm_binop Opcode_Ge a b = Some (bool_word (sint a \<ge> sint b))"
| "vm_binop Opcode_And a b = Some (bool_word (a \<noteq> 0 \<and> b \<noteq> 0))"
| "vm_binop Opcode_Or a b = Some (bool_word (a \<noteq> 0 \<or> b \<noteq> 0))"
| "vm_binop Opcode_BitAnd a b = Some (a AND b)"
| "vm_binop Opcode_BitOr a b = Some (a OR b)"
| "vm_binop Opcode_BitXor a b = Some (a XOR b)"
| "vm_binop Opcode_Shl a b = Some (push_bit (unat b mod 2 ^ 32 mod 64) a)"
| "vm_binop Opcode_Shr a b = Some (signed_drop_bit (unat b mod 2 ^ 32 mod 64) a)"
| "vm_binop _ a b = None"

fun vm_unop :: "opcode \<Rightarrow> i64 \<Rightarrow> i64 option" where
  "vm_unop Opcode_Not a = Some (bool_word (a = 0))"
| "vm_unop Opcode_Neg a = Some (- a)"
| "vm_unop _ a = None"

definition local_ref :: "vm_frame \<Rightarrow> nat \<Rightarrow> vm_failure + vm_value" where
  "local_ref fr idx = ok_or (get (fr_locals fr) idx) (VmErr (LocalOutOfBounds idx))"

text \<open>
  The mirror loop of \<open>set_local\<close>: element \<open>i\<close> of a tuple goes to slot
  \<open>idx + 1 + i\<close> where that slot exists (\<open>list_update\<close> ignores the others).
\<close>

fun mirror_elems :: "vm_value list \<Rightarrow> nat \<Rightarrow> vm_value list \<Rightarrow> vm_value list" where
  "mirror_elems mem a [] = mem"
| "mirror_elems mem a (e # es) =
     mirror_elems (if a < length mem then mem[a := e] else mem) (a + 1) es"

definition set_local :: "vm_frame \<Rightarrow> nat \<Rightarrow> vm_value \<Rightarrow> vm_failure + vm_frame" where
  "set_local fr idx v =
     (if length (fr_locals fr) \<le> idx then Inl (VmErr (LocalOutOfBounds idx))
      else let fr1 = fr\<lparr>fr_locals := (fr_locals fr)[idx := v]\<rparr>
           in if idx < length (fr_mem fr1)
              then let m1 = (fr_mem fr1)[idx := v]
                   in Inr (fr1\<lparr>fr_mem := (case v of VTuple elems \<Rightarrow> mirror_elems m1 (idx + 1) elems
                                          | VInt _ \<Rightarrow> m1)\<rparr>)
              else Inr fr1)"

definition mem_ref :: "vm_frame \<Rightarrow> nat \<Rightarrow> vm_failure + vm_value" where
  "mem_ref fr addr = ok_or (get (fr_mem fr) addr) (VmErr (LocalOutOfBounds addr))"

text \<open>
  \<open>set_mem\<close> grows the memory to \<open>addr + 1\<close> slots; for \<open>addr = usize::MAX\<close> the
  addition overflows, which panics (or wraps to an empty resize followed by an
  out-of-range store, which panics too).
\<close>

definition set_mem :: "vm_frame \<Rightarrow> nat \<Rightarrow> vm_value \<Rightarrow> vm_failure + vm_frame" where
  "set_mem fr addr v =
     (if length (fr_mem fr) \<le> addr
      then if 2 ^ 64 \<le> addr + 1 then Inl VmPanic
           else Inr (fr\<lparr>fr_mem :=
             (fr_mem fr @ replicate (addr + 1 - length (fr_mem fr)) (VInt 0))[addr := v]\<rparr>)
      else Inr (fr\<lparr>fr_mem := (fr_mem fr)[addr := v]\<rparr>))"

fun fill_args :: "vm_value list \<Rightarrow> nat \<Rightarrow> vm_value list \<Rightarrow> vm_value list" where
  "fill_args locals i [] = locals"
| "fill_args locals i (a # as) = fill_args (locals[i := a]) (i + 1) as"

definition push_frame ::
  "vm_module \<Rightarrow> vm \<Rightarrow> nat \<Rightarrow> vm_value list \<Rightarrow> u32 \<Rightarrow> nat \<Rightarrow> vm_failure + vm" where
  "push_frame m vm func args resume_target dest_local =
     (if MAX_CALL_DEPTH \<le> length (vm_frames vm) then Inl (VmErr CallFrameOverflow)
      else rbind (ok_or (get (md_functions m) func) (VmErr (FunctionOutOfBounds func)))
        (\<lambda>f. let n_locals = max (fn_n_locals f) (length args);
                 locals = fill_args (replicate n_locals (VInt 0)) 0 args;
                 mem_size = max (n_locals * 8) 8
             in Inr (vm\<lparr>vm_frames :=
                  \<lparr>fr_locals = locals, fr_mem = replicate mem_size (VInt 0), fr_func = func,
                   fr_pc = 0, fr_resume_target = resume_target, fr_dest_local = dest_local\<rparr>
                  # vm_frames vm\<rparr>)))"

text \<open>The pop loops of \<open>OP_AGGREGATE\<close> and \<open>OP_CALL\<close>: \<open>acc\<close> is the vector built so far.\<close>

fun pop_loop ::
  "nat \<Rightarrow> vm_value list \<Rightarrow> vm_value list \<Rightarrow> vm_failure + vm_value list \<times> vm_value list" where
  "pop_loop 0 acc st = Inr (acc, st)"
| "pop_loop (Suc n) acc st = rbind (vm_pop st) (\<lambda>(v, st'). pop_loop n (acc @ [v]) st')"

text \<open>The arms of \<open>OP_SWITCH_INT\<close>: a later matching arm overwrites \<open>taken\<close>.\<close>

fun switch_loop ::
  "u8 list \<Rightarrow> nat \<Rightarrow> i64 \<Rightarrow> nat \<Rightarrow> u32 option \<Rightarrow> vm_failure + u32 option \<times> nat" where
  "switch_loop code 0 discr pc taken = Inr (taken, pc)"
| "switch_loop code (Suc n) discr pc taken =
     rbind (read_i64 code pc) (\<lambda>(v, pc1).
     rbind (read_u32 code pc1) (\<lambda>(t, pc2).
       switch_loop code n discr pc2 (if v = discr then Some t else taken)))"

subsection \<open>One instruction\<close>

datatype vm_next = Next vm | Done vm_value vm

definition resume_at :: "vm_frame \<Rightarrow> vm_frame list \<Rightarrow> vm_value list \<Rightarrow> vm_failure + vm_next" where
  "resume_at fr rest st = Inr (Next \<lparr>vm_stack = st, vm_frames = fr # rest\<rparr>)"

definition is_binary_opcode :: "opcode \<Rightarrow> bool" where
  "is_binary_opcode op \<longleftrightarrow> op \<in>
     {Opcode_Add, Opcode_Sub, Opcode_Mul, Opcode_Div, Opcode_Rem, Opcode_Eq, Opcode_Ne,
      Opcode_Lt, Opcode_Gt, Opcode_Le, Opcode_Ge, Opcode_And, Opcode_Or, Opcode_BitAnd,
      Opcode_BitOr, Opcode_BitXor, Opcode_Shl, Opcode_Shr}"

definition exec_binary ::
  "opcode \<Rightarrow> vm_frame \<Rightarrow> vm_frame list \<Rightarrow> vm_value list \<Rightarrow> vm_failure + vm_next" where
  "exec_binary op fr rest st =
     rbind (vm_pop st) (\<lambda>(vb, st1).
     rbind (vm_pop st1) (\<lambda>(va, st2).
     rbind (ok_or (vm_binop op (as_int va) (as_int vb)) VmPanic) (\<lambda>r.
       resume_at fr rest (VInt r # st2))))"

definition exec_unary ::
  "opcode \<Rightarrow> vm_frame \<Rightarrow> vm_frame list \<Rightarrow> vm_value list \<Rightarrow> vm_failure + vm_next" where
  "exec_unary op fr rest st =
     rbind (vm_pop st) (\<lambda>(va, st1).
     rbind (ok_or (vm_unop op (as_int va)) VmPanic) (\<lambda>r.
       resume_at fr rest (VInt r # st1)))"

text \<open>
  Locals and memory.  \<open>fr\<close> is the top frame with its program counter already
  past the opcode byte, \<open>rest\<close> the frames below it.
\<close>

definition exec_locals ::
  "u8 list \<Rightarrow> opcode \<Rightarrow> vm_frame \<Rightarrow> vm_frame list \<Rightarrow> vm_value list \<Rightarrow> vm_failure + vm_next" where
  "exec_locals code op fr rest st =
    (case op of
       Opcode_LoadConst \<Rightarrow>
         rbind (read_i64 code (fr_pc fr)) (\<lambda>(v, pc).
           resume_at (fr\<lparr>fr_pc := pc\<rparr>) rest (VInt v # st))
     | Opcode_LoadLocal \<Rightarrow>
         rbind (read_u32 code (fr_pc fr)) (\<lambda>(i, pc).
         rbind (local_ref fr (unat i)) (\<lambda>v.
           resume_at (fr\<lparr>fr_pc := pc\<rparr>) rest (v # st)))
     | Opcode_StoreLocal \<Rightarrow>
         rbind (read_u32 code (fr_pc fr)) (\<lambda>(i, pc).
         rbind (vm_pop st) (\<lambda>(v, st1).
         rbind (set_local (fr\<lparr>fr_pc := pc\<rparr>) (unat i) v) (\<lambda>fr1.
           resume_at fr1 rest st1)))
     | Opcode_LoadLocalAddr \<Rightarrow>
         rbind (read_u32 code (fr_pc fr)) (\<lambda>(i, pc).
           resume_at (fr\<lparr>fr_pc := pc\<rparr>) rest (VInt (word_of_nat (unat i)) # st))
     | Opcode_StoreField \<Rightarrow>
         rbind (vm_pop st) (\<lambda>(a, st1).
         rbind (vm_pop st1) (\<lambda>(v, st2).
         rbind (set_mem fr (unat (as_int a)) v) (\<lambda>fr1.
           resume_at fr1 rest st2)))
     | Opcode_Deref \<Rightarrow>
         rbind (vm_pop st) (\<lambda>(a, st1).
         rbind (mem_ref fr (unat (as_int a))) (\<lambda>v.
           resume_at fr rest (v # st1)))
     | _ \<Rightarrow> Inl VmPanic)"

text \<open>Control transfer inside the current function.\<close>

definition exec_control ::
  "vm_function \<Rightarrow> opcode \<Rightarrow> vm_frame \<Rightarrow> vm_frame list \<Rightarrow> vm_value list
   \<Rightarrow> vm_failure + vm_next" where
  "exec_control f op fr rest st =
    (let code = fn_code f in
     case op of
       Opcode_Jump \<Rightarrow>
         rbind (read_u32 code (fr_pc fr)) (\<lambda>(t, pc).
         rbind (resolve_target f t) (\<lambda>off.
           resume_at (fr\<lparr>fr_pc := off\<rparr>) rest st))
     | Opcode_JumpIf \<Rightarrow>
         rbind (read_u32 code (fr_pc fr)) (\<lambda>(t, pc).
         rbind (resolve_target f t) (\<lambda>off.
         rbind (vm_pop st) (\<lambda>(c, st1).
           resume_at (fr\<lparr>fr_pc := (if as_int c \<noteq> 0 then off else pc)\<rparr>) rest st1)))
     | Opcode_SwitchInt \<Rightarrow>
         rbind (vm_pop st) (\<lambda>(d, st1).
         rbind (read_u32 code (fr_pc fr)) (\<lambda>(count, pc1).
         rbind (switch_loop code (unat count) (as_int d) pc1 None) (\<lambda>(taken, pc2).
         rbind (read_u32 code pc2) (\<lambda>(otherwise, pc3).
         rbind (resolve_target f (case taken of Some t \<Rightarrow> t | None \<Rightarrow> otherwise)) (\<lambda>off.
           resume_at (fr\<lparr>fr_pc := off\<rparr>) rest st1)))))
     | Opcode_Assert \<Rightarrow>
         rbind (read_byte code (fr_pc fr)) (\<lambda>(expected, pc1).
         rbind (read_u32 code pc1) (\<lambda>(t, pc2).
         rbind (vm_pop st) (\<lambda>(c, st1).
           if (as_int c \<noteq> 0) \<noteq> (expected \<noteq> 0) then Inl (VmErr AssertionFailed)
           else rbind (resolve_target f t) (\<lambda>off.
             resume_at (fr\<lparr>fr_pc := off\<rparr>) rest st1))))
     | Opcode_Drop \<Rightarrow>
         rbind (vm_pop st) (\<lambda>(a, st1).
         rbind (read_u32 code (fr_pc fr)) (\<lambda>(t, pc).
         rbind (resolve_target f t) (\<lambda>off.
           resume_at (fr\<lparr>fr_pc := off\<rparr>) rest st1)))
     | _ \<Rightarrow> Inl VmPanic)"

text \<open>Casts and aggregates.\<close>

definition exec_data ::
  "u8 list \<Rightarrow> opcode \<Rightarrow> vm_frame \<Rightarrow> vm_frame list \<Rightarrow> vm_value list \<Rightarrow> vm_failure + vm_next" where
  "exec_data code op fr rest st =
    (case op of
       Opcode_Cast \<Rightarrow>
         rbind (read_byte code (fr_pc fr)) (\<lambda>(kind, pc).
           resume_at (fr\<lparr>fr_pc := pc\<rparr>) rest st)
     | Opcode_Len \<Rightarrow>
         rbind (read_u32 code (fr_pc fr)) (\<lambda>(l, pc).
           resume_at (fr\<lparr>fr_pc := pc\<rparr>) rest (VInt 0 # st))
     | Opcode_Discriminant \<Rightarrow>
         rbind (vm_pop st) (\<lambda>(v, st1).
           resume_at fr rest
             (VInt (case v of VTuple elems \<Rightarrow> word_of_nat (length elems) | VInt _ \<Rightarrow> 0) # st1))
     | Opcode_Aggregate \<Rightarrow>
         rbind (read_u32 code (fr_pc fr)) (\<lambda>(n, pc).
         rbind (pop_loop (unat n) [] st) (\<lambda>(elems, st1).
           resume_at (fr\<lparr>fr_pc := pc\<rparr>) rest (VTuple (rev elems) # st1)))
     | Opcode_Repeat \<Rightarrow>
         rbind (vm_pop st) (\<lambda>(v, st1).
         rbind (vm_pop st1) (\<lambda>(c, st2).
           resume_at fr rest (VTuple (replicate (nat (max (sint (as_int c)) 0)) v) # st2)))
     | _ \<Rightarrow> Inl VmPanic)"

definition exec_return ::
  "vm_module \<Rightarrow> vm_frame \<Rightarrow> vm_frame list \<Rightarrow> vm_value list \<Rightarrow> vm_failure + vm_next" where
  "exec_return m finished rest st =
    (case st of
       [] \<Rightarrow> Inl (VmErr EmptyReturn)
     | retval # st1 \<Rightarrow>
        (case rest of
           [] \<Rightarrow> Inr (Done retval \<lparr>vm_stack = st1, vm_frames = []\<rparr>)
         | caller # rest' \<Rightarrow>
             rbind (ok_or (get (md_functions m) (fr_func caller)) VmPanic) (\<lambda>cf.
             rbind (resolve_target cf (fr_resume_target finished)) (\<lambda>resume.
               let dest = fr_dest_local finished;
                   caller1 = (if dest < length (fr_locals caller)
                              then caller\<lparr>fr_locals := (fr_locals caller)[dest := retval]\<rparr>
                              else caller)
               in resume_at (caller1\<lparr>fr_pc := resume\<rparr>) rest' st1))))"

definition exec_call ::
  "vm_module \<Rightarrow> u8 list \<Rightarrow> vm_frame \<Rightarrow> vm_frame list \<Rightarrow> vm_value list
   \<Rightarrow> vm_failure + vm_next" where
  "exec_call m code fr rest st =
     rbind (read_u32 code (fr_pc fr)) (\<lambda>(argc, pc1).
     rbind (read_u32 code pc1) (\<lambda>(dest_local, pc2).
     rbind (read_u32 code pc2) (\<lambda>(target, pc3).
     rbind (pop_loop (unat argc) [] st) (\<lambda>(args, st1).
     rbind (vm_pop st1) (\<lambda>(fv, st2).
     rbind (push_frame m \<lparr>vm_stack = st2, vm_frames = fr\<lparr>fr_pc := pc3\<rparr> # rest\<rparr>
              (unat (as_int fv)) (rev args) target (unat dest_local)) (\<lambda>vm'.
       Inr (Next vm')))))))"

definition exec_op ::
  "vm_module \<Rightarrow> vm_function \<Rightarrow> opcode \<Rightarrow> vm_frame \<Rightarrow> vm_frame list \<Rightarrow> vm_value list
   \<Rightarrow> vm_failure + vm_next" where
  "exec_op m f op fr rest st =
    (if is_binary_opcode op then exec_binary op fr rest st
     else if op \<in> {Opcode_Not, Opcode_Neg} then exec_unary op fr rest st
     else if op \<in> {Opcode_LoadConst, Opcode_LoadLocal, Opcode_StoreLocal, Opcode_LoadLocalAddr,
                   Opcode_StoreField, Opcode_Deref} then exec_locals (fn_code f) op fr rest st
     else if op \<in> {Opcode_Jump, Opcode_JumpIf, Opcode_SwitchInt, Opcode_Assert, Opcode_Drop}
       then exec_control f op fr rest st
     else if op \<in> {Opcode_Cast, Opcode_Len, Opcode_Discriminant, Opcode_Aggregate, Opcode_Repeat}
       then exec_data (fn_code f) op fr rest st
     else if op = Opcode_Return then exec_return m fr rest st
     else if op \<in> {Opcode_Call, Opcode_CallIndirect} then exec_call m (fn_code f) fr rest st
     else Inl (VmErr AbnormalTermination))"

text \<open>One turn of the loop of \<open>drive\<close>.\<close>

definition drive_step :: "vm_module \<Rightarrow> vm \<Rightarrow> vm_failure + vm_next" where
  "drive_step m vm =
    (case vm_frames vm of
       [] \<Rightarrow> (case vm_stack vm of
                [] \<Rightarrow> Inl (VmErr EmptyReturn)
              | v # st \<Rightarrow> Inr (Done v (vm\<lparr>vm_stack := st\<rparr>)))
     | fr # rest \<Rightarrow>
         rbind (ok_or (get (md_functions m) (fr_func fr)) VmPanic) (\<lambda>f.
         rbind (ok_or (get (fn_code f) (fr_pc fr)) (VmErr UnexpectedEndOfCode)) (\<lambda>raw.
         rbind (ok_or (from_u8 raw) (VmErr (UnknownOpcode raw))) (\<lambda>op.
           exec_op m f op (fr\<lparr>fr_pc := fr_pc fr + 1\<rparr>) rest (vm_stack vm)))))"

text \<open>The loop, with fuel: \<open>None\<close> means that \<open>fuel\<close> turns were not enough.\<close>

fun drive :: "nat \<Rightarrow> vm_module \<Rightarrow> vm \<Rightarrow> (vm_failure + vm_value \<times> vm) option" where
  "drive 0 m vm = None"
| "drive (Suc fuel) m vm =
    (case drive_step m vm of
       Inl e \<Rightarrow> Some (Inl e)
     | Inr (Done v vm') \<Rightarrow> Some (Inr (v, vm'))
     | Inr (Next vm') \<Rightarrow> drive fuel m vm')"

definition entry_frame :: "vm_module \<Rightarrow> vm \<Rightarrow> vm_failure + vm" where
  "entry_frame m vm =
    (if md_functions m = [] then Inl (VmErr (FunctionOutOfBounds 0))
     else push_frame m vm (md_entry m) [] (- 1) (2 ^ 64 - 1))"

definition run_module :: "nat \<Rightarrow> vm_module \<Rightarrow> vm \<Rightarrow> (vm_failure + vm_value \<times> vm) option" where
  "run_module fuel m vm =
    (case entry_frame m vm of Inl e \<Rightarrow> Some (Inl e) | Inr vm' \<Rightarrow> drive fuel m vm')"

record vm_chunk =
  ch_code :: "u8 list"
  ch_n_locals :: nat
  ch_entry :: nat

definition vm_run :: "nat \<Rightarrow> vm_chunk \<Rightarrow> vm \<Rightarrow> (vm_failure + vm_value \<times> vm) option" where
  "vm_run fuel c vm =
     run_module fuel \<lparr>md_functions = [function_new (ch_code c) (ch_n_locals c) 0], md_entry = 0\<rparr> vm"


subsection \<open>Wire format\<close>

lemma from_u8_opcode_u8 [simp]: "from_u8 (opcode_u8 op) = Some op"
  by (cases op) (simp_all add: from_u8_def)

lemma opcode_u8_from_u8: "from_u8 b = Some op \<Longrightarrow> opcode_u8 op = b"
  unfolding from_u8_def by (drule map_of_SomeD) auto

lemma opcode_u8_eq_iff [simp]: "opcode_u8 op = opcode_u8 op' \<longleftrightarrow> op = op'"
  by (metis from_u8_opcode_u8 option.inject)

lemma read_u32_Inr [result_simps]:
  "read_u32 code pc = Inr (w, pc') \<longleftrightarrow>
     pc + 4 \<le> length code \<and> w = u32_from_le (take 4 (drop pc code)) \<and> pc' = pc + 4"
  by (auto simp: read_u32_def)

lemma read_i64_Inr [result_simps]:
  "read_i64 code pc = Inr (w, pc') \<longleftrightarrow>
     pc + 8 \<le> length code \<and> w = i64_from_le (take 8 (drop pc code)) \<and> pc' = pc + 8"
  by (auto simp: read_i64_def)

lemma read_byte_Inr [result_simps]:
  "read_byte code pc = Inr (b, pc') \<longleftrightarrow> pc < length code \<and> b = code ! pc \<and> pc' = pc + 1"
  by (auto simp: read_byte_def result_simps)

lemma vm_pop_Inr [result_simps]: "vm_pop st = Inr (v, st') \<longleftrightarrow> st = v # st'"
  by (cases st) (auto simp: vm_pop_def)

lemma vm_pop_Inl [result_simps]: "vm_pop st = Inl e \<longleftrightarrow> st = [] \<and> e = VmErr StackUnderflow"
  by (cases st) (auto simp: vm_pop_def)

lemma vm_pop_Cons [simp]: "vm_pop (v # st) = Inr (v, st)"
  by (simp add: vm_pop_def)

lemma resume_at_eq [result_simps]:
  "resume_at fr rest st = Inr (Next vm') \<longleftrightarrow> vm' = \<lparr>vm_stack = st, vm_frames = fr # rest\<rparr>"
  by (auto simp: resume_at_def)

lemma resume_at_not_Done [simp]: "resume_at fr rest st \<noteq> Inr (Done v vm')"
  by (simp add: resume_at_def)

lemma pop_loop_eq:
  "pop_loop n acc st =
    (if n \<le> length st then Inr (acc @ take n st, drop n st) else Inl (VmErr StackUnderflow))"
proof (induction n arbitrary: acc st)
  case (Suc n)
  then show ?case by (cases st) (auto simp: vm_pop_def)
qed simp

lemma fill_args_eq:
  "i + length as \<le> length ls \<Longrightarrow> fill_args ls i as = take i ls @ as @ drop (i + length as) ls"
proof (induction as arbitrary: ls i)
  case (Cons a as)
  from Cons.prems have "fill_args (ls[i := a]) (i + 1) as
      = take (i + 1) (ls[i := a]) @ as @ drop (i + 1 + length as) (ls[i := a])"
    by (intro Cons.IH) simp
  also have "take (i + 1) (ls[i := a]) = take i ls @ [a]"
    using Cons.prems by (simp add: take_Suc_conv_app_nth)
  finally show ?case using Cons.prems by simp
qed simp

lemma length_fill_args [simp]: "length (fill_args ls i as) = length ls"
  by (induction as arbitrary: ls i) auto

lemma length_mirror_elems [simp]: "length (mirror_elems mem a es) = length mem"
  by (induction es arbitrary: mem a) auto

lemma nth_mirror_elems:
  "j < length mem \<Longrightarrow>
   mirror_elems mem a es ! j = (if a \<le> j \<and> j < a + length es then es ! (j - a) else mem ! j)"
proof (induction es arbitrary: mem a)
  case (Cons e es)
  have "mirror_elems mem a (e # es) ! j
      = (if Suc a \<le> j \<and> j < Suc a + length es then es ! (j - Suc a)
         else (if a < length mem then mem[a := e] else mem) ! j)"
    using Cons.prems by (simp add: Cons.IH)
  then show ?case using Cons.prems by (auto simp: nth_Cons')
qed auto

subsection \<open>How one step changes the call stack\<close>

definition frame_evolves :: "vm_frame \<Rightarrow> vm_frame \<Rightarrow> bool" where
  "frame_evolves fr fr' \<longleftrightarrow>
     fr_func fr' = fr_func fr \<and> fr_resume_target fr' = fr_resume_target fr \<and>
     fr_dest_local fr' = fr_dest_local fr \<and> length (fr_locals fr') = length (fr_locals fr) \<and>
     length (fr_mem fr) \<le> length (fr_mem fr')"

definition frame_ok :: "vm_module \<Rightarrow> vm_frame \<Rightarrow> bool" where
  "frame_ok m fr \<longleftrightarrow>
     fr_func fr < length (md_functions m) \<and>
     fn_n_locals (md_functions m ! fr_func fr) \<le> length (fr_locals fr) \<and>
     max (8 * length (fr_locals fr)) 8 \<le> length (fr_mem fr)"

text \<open>
  The three ways the call stack moves: the running frame evolves, a callee is
  pushed on it, or it is popped and its value lands in the caller's local.
\<close>

inductive frames_step :: "vm_module \<Rightarrow> vm_frame list \<Rightarrow> vm_frame list \<Rightarrow> bool" for m where
  evolve: "frame_evolves fr fr' \<Longrightarrow> frames_step m (fr # rest) (fr' # rest)"
| call: "length rest + 1 < MAX_CALL_DEPTH \<Longrightarrow> frame_ok m new \<Longrightarrow> fr_pc new = 0 \<Longrightarrow>
    frames_step m (fr # rest) (new # fr\<lparr>fr_pc := pc\<rparr> # rest)"
| return: "caller' = (if fr_dest_local fr < length (fr_locals caller)
      then caller\<lparr>fr_locals := (fr_locals caller)[fr_dest_local fr := v]\<rparr> else caller)\<lparr>fr_pc := pc\<rparr> \<Longrightarrow>
    frames_step m (fr # caller # rest) (caller' # rest)"

inductive_cases frames_step_Cons: "frames_step m (fr # rest) frs'"

lemma frame_evolves_refl [simp]: "frame_evolves fr fr"
  and frame_evolves_pc [simp]: "frame_evolves fr (fr\<lparr>fr_pc := pc\<rparr>)"
  by (simp_all add: frame_evolves_def)

lemma frame_evolves_ok: "frame_evolves fr fr' \<Longrightarrow> frame_ok m fr \<Longrightarrow> frame_ok m fr'"
  by (auto simp: frame_evolves_def frame_ok_def)

lemma frame_evolves_trans: "frame_evolves a b \<Longrightarrow> frame_evolves b c \<Longrightarrow> frame_evolves a c"
  by (auto simp: frame_evolves_def)

lemma set_local_evolves: "set_local fr i v = Inr fr' \<Longrightarrow> frame_evolves fr fr'"
  by (auto simp: set_local_def frame_evolves_def Let_def split: if_splits vm_value.splits)

lemma set_mem_evolves: "set_mem fr i v = Inr fr' \<Longrightarrow> frame_evolves fr fr'"
  by (auto simp: set_mem_def frame_evolves_def split: if_splits)

lemma exec_binary_frames:
  "exec_binary op fr rest st = Inr (Next vm') \<Longrightarrow> frames_step m (fr # rest) (vm_frames vm')"
  by (auto simp: exec_binary_def result_simps split: prod.splits intro!: evolve)

lemma exec_unary_frames:
  "exec_unary op fr rest st = Inr (Next vm') \<Longrightarrow> frames_step m (fr # rest) (vm_frames vm')"
  by (auto simp: exec_unary_def result_simps split: prod.splits intro!: evolve)

lemma exec_locals_frames:
  assumes "exec_locals code op fr rest st = Inr (Next vm')"
  shows "frames_step m (fr # rest) (vm_frames vm')"
proof -
  have "\<exists>fr' st'. vm' = \<lparr>vm_stack = st', vm_frames = fr' # rest\<rparr> \<and> frame_evolves fr fr'"
    using assms
    by (cases op) (auto simp: exec_locals_def result_simps
          dest!: set_local_evolves set_mem_evolves intro: frame_evolves_trans [OF frame_evolves_pc])
  then show ?thesis by (auto intro: evolve)
qed

lemma exec_control_frames:
  "exec_control f op fr rest st = Inr (Next vm') \<Longrightarrow> frames_step m (fr # rest) (vm_frames vm')"
  by (cases op) (auto simp: exec_control_def result_simps Let_def split: if_splits intro!: evolve)

lemma exec_data_frames:
  "exec_data code op fr rest st = Inr (Next vm') \<Longrightarrow> frames_step m (fr # rest) (vm_frames vm')"
  by (cases op) (auto simp: exec_data_def result_simps intro!: evolve)

lemma exec_return_frames:
  "exec_return m fr rest st = Inr (Next vm') \<Longrightarrow> frames_step m (fr # rest) (vm_frames vm')"
  by (auto simp: exec_return_def result_simps Let_def split: list.splits if_splits
      intro!: return)

lemma push_frame_Inr:
  "push_frame m vm func args t d = Inr vm' \<longleftrightarrow>
     length (vm_frames vm) < MAX_CALL_DEPTH \<and> func < length (md_functions m) \<and>
     (let n = max (fn_n_locals (md_functions m ! func)) (length args)
      in vm' = vm\<lparr>vm_frames :=
         \<lparr>fr_locals = args @ replicate (n - length args) (VInt 0),
          fr_mem = replicate (max (n * 8) 8) (VInt 0), fr_func = func, fr_pc = 0,
          fr_resume_target = t, fr_dest_local = d\<rparr> # vm_frames vm\<rparr>)"
  by (auto simp: push_frame_def result_simps Let_def fill_args_eq)

lemma push_frame_ok:
  assumes "push_frame m vm func args t d = Inr vm'"
  obtains new where "vm' = vm\<lparr>vm_frames := new # vm_frames vm\<rparr>" "frame_ok m new" "fr_pc new = 0"
    "length (vm_frames vm) < MAX_CALL_DEPTH"
  using assms by (auto simp: push_frame_Inr Let_def frame_ok_def)

lemma exec_call_frames:
  assumes "exec_call m code fr rest st = Inr (Next vm')"
  shows "frames_step m (fr # rest) (vm_frames vm')"
proof -
  from assms obtain pc st2 func args t d where
    "push_frame m \<lparr>vm_stack = st2, vm_frames = fr\<lparr>fr_pc := pc\<rparr> # rest\<rparr> func args t d = Inr vm'"
    by (auto simp: exec_call_def result_simps)
  then show ?thesis by (rule push_frame_ok) (auto intro: call)
qed

lemmas exec_frames = exec_binary_frames exec_unary_frames exec_locals_frames
  exec_control_frames exec_data_frames exec_return_frames exec_call_frames

lemma exec_op_frames:
  "exec_op m f op fr rest st = Inr (Next vm') \<Longrightarrow> frames_step m (fr # rest) (vm_frames vm')"
  by (auto simp: exec_op_def split: if_splits dest: exec_frames [where m = m])

lemma frames_step_pc:
  assumes "frames_step m (fr\<lparr>fr_pc := pc\<rparr> # rest) frs'"
  shows "frames_step m (fr # rest) frs'"
  using assms
proof (cases rule: frames_step.cases)
  case (evolve fr')
  then show ?thesis by (auto simp: frame_evolves_def intro!: frames_step.evolve)
next
  case (call new pc')
  then show ?thesis using frames_step.call [of rest m new fr pc'] by simp
next
  case (return caller' caller v pc' rest')
  then show ?thesis by (auto intro!: frames_step.return)
qed

lemma drive_step_Cons:
  assumes "drive_step m vm = Inr nx" and "vm_frames vm = fr # rest"
  obtains f op where "fr_func fr < length (md_functions m)" "f = md_functions m ! fr_func fr"
    "fr_pc fr < length (fn_code f)" "from_u8 (fn_code f ! fr_pc fr) = Some op"
    "exec_op m f op (fr\<lparr>fr_pc := fr_pc fr + 1\<rparr>) rest (vm_stack vm) = Inr nx"
  using assms by (auto simp: drive_step_def result_simps)

lemma drive_step_frames:
  assumes "drive_step m vm = Inr (Next vm')"
  shows "frames_step m (vm_frames vm) (vm_frames vm')"
proof (cases "vm_frames vm")
  case Nil
  with assms show ?thesis by (auto simp: drive_step_def split: list.splits)
next
  case (Cons fr rest)
  with assms obtain f op where
    "exec_op m f op (fr\<lparr>fr_pc := fr_pc fr + 1\<rparr>) rest (vm_stack vm) = Inr (Next vm')"
    by (rule drive_step_Cons)
  then have "frames_step m (fr\<lparr>fr_pc := fr_pc fr + 1\<rparr> # rest) (vm_frames vm')"
    by (rule exec_op_frames)
  with Cons show ?thesis by (simp add: frames_step_pc)
qed

subsection \<open>The machine invariant\<close>

definition vm_inv :: "vm_module \<Rightarrow> vm \<Rightarrow> bool" where
  "vm_inv m vm \<longleftrightarrow>
     length (vm_frames vm) \<le> MAX_CALL_DEPTH \<and> (\<forall>fr \<in> set (vm_frames vm). frame_ok m fr)"

inductive vm_reachable :: "vm_module \<Rightarrow> vm \<Rightarrow> bool" for m where
  start: "entry_frame m vm_new = Inr vm \<Longrightarrow> vm_reachable m vm"
| step: "vm_reachable m vm \<Longrightarrow> drive_step m vm = Inr (Next vm') \<Longrightarrow> vm_reachable m vm'"

lemma frames_step_inv:
  assumes "frames_step m frs frs'" and "length frs \<le> MAX_CALL_DEPTH"
    and "\<forall>fr \<in> set frs. frame_ok m fr"
  shows "frs' \<noteq> [] \<and> length frs' \<le> MAX_CALL_DEPTH \<and> (\<forall>fr \<in> set frs'. frame_ok m fr)"
  using assms
proof (induction rule: frames_step.induct)
  case (evolve fr fr' rest)
  then show ?case by (auto intro: frame_evolves_ok)
next
  case (call rest new fr pc)
  then show ?case by (auto simp: frame_ok_def)
next
  case (return caller' fr caller v pc rest)
  then show ?case by (auto simp: frame_ok_def)
qed

lemma drive_step_inv:
  assumes "drive_step m vm = Inr (Next vm')" and "vm_inv m vm"
  shows "vm_inv m vm' \<and> vm_frames vm' \<noteq> []"
  using frames_step_inv [OF drive_step_frames [OF assms(1)]] assms(2) by (simp add: vm_inv_def)

lemma entry_frame_inv:
  assumes "entry_frame m vm = Inr vm'" and "vm_inv m vm"
  shows "vm_inv m vm' \<and> vm_frames vm' \<noteq> []"
  using assms by (auto simp: entry_frame_def vm_inv_def split: if_splits elim!: push_frame_ok)

lemma vm_reachable_inv: "vm_reachable m vm \<Longrightarrow> vm_inv m vm \<and> vm_frames vm \<noteq> []"
proof (induction rule: vm_reachable.induct)
  case (start vm)
  then show ?case by (rule entry_frame_inv) (simp add: vm_inv_def vm_new_def)
next
  case (step vm vm')
  then show ?case by (simp add: drive_step_inv)
qed

subsection \<open>Fuel\<close>

lemma drive_fuel_mono: "drive fuel m vm = Some r \<Longrightarrow> fuel \<le> fuel' \<Longrightarrow> drive fuel' m vm = Some r"
proof (induction fuel arbitrary: fuel' vm)
  case (Suc fuel)
  from Suc.prems(2) obtain k where k: "fuel' = Suc k" "fuel \<le> k" by (cases fuel') auto
  with Suc show ?case by (auto split: sum.splits vm_next.splits)
qed simp

subsection \<open>Executing a known instruction\<close>

definition code_at :: "u8 list \<Rightarrow> nat \<Rightarrow> u8 list \<Rightarrow> bool" where
  "code_at code pc bs \<longleftrightarrow> (\<exists>pre post. code = pre @ bs @ post \<and> length pre = pc)"

lemma code_at_append:
  assumes "code_at code pc (xs @ ys)"
  shows "code_at code pc xs" and "code_at code (pc + length xs) ys"
proof -
  from assms obtain pre post where code: "code = pre @ (xs @ ys) @ post" "length pre = pc"
    by (auto simp: code_at_def)
  then have "code = pre @ xs @ (ys @ post)" "code = (pre @ xs) @ ys @ post" by simp_all
  with code(2) show "code_at code pc xs" "code_at code (pc + length xs) ys"
    unfolding code_at_def by (metis length_append)+
qed

lemma code_at_Cons:
  assumes "code_at code pc (x # ys)"
  shows "get code pc = Some x" and "code_at code (Suc pc) ys"
proof -
  from assms show "get code pc = Some x" by (auto simp: code_at_def get_def)
  show "code_at code (Suc pc) ys" using assms code_at_append(2) [of code pc "[x]" ys] by simp
qed

lemma code_at_u32: "code_at code pc (u32_to_le w) \<Longrightarrow> read_u32 code pc = Inr (w, pc + 4)"
  by (auto simp: code_at_def read_u32_def)

lemma code_at_i64: "code_at code pc (i64_to_le w) \<Longrightarrow> read_i64 code pc = Inr (w, pc + 8)"
  by (auto simp: code_at_def read_i64_def)

text \<open>Any number of successful turns of the loop.\<close>

definition vm_steps :: "vm_module \<Rightarrow> vm \<Rightarrow> vm \<Rightarrow> bool" where
  "vm_steps m = (\<lambda>vm vm'. drive_step m vm = Inr (Next vm'))\<^sup>*\<^sup>*"

lemma vm_steps_refl [simp]: "vm_steps m vm vm"
  by (simp add: vm_steps_def)

lemma vm_steps_trans: "vm_steps m a b \<Longrightarrow> vm_steps m b c \<Longrightarrow> vm_steps m a c"
  by (simp add: vm_steps_def)

lemma vm_steps_one: "drive_step m a = Inr (Next b) \<Longrightarrow> vm_steps m a b"
  by (simp add: vm_steps_def r_into_rtranclp)

lemma vm_steps_reachable: "vm_steps m a b \<Longrightarrow> vm_reachable m a \<Longrightarrow> vm_reachable m b"
  unfolding vm_steps_def by (induction rule: rtranclp_induct) (auto intro: vm_reachable.step)

definition vm_at :: "vm_value list \<Rightarrow> vm_frame \<Rightarrow> nat \<Rightarrow> vm_frame list \<Rightarrow> vm" where
  "vm_at st fr pc rest = \<lparr>vm_stack = st, vm_frames = fr\<lparr>fr_pc := pc\<rparr> # rest\<rparr>"

definition in_function :: "vm_module \<Rightarrow> vm_frame \<Rightarrow> vm_function \<Rightarrow> bool" where
  "in_function m fr f \<longleftrightarrow> get (md_functions m) (fr_func fr) = Some f"

lemma in_function_evolves: "frame_evolves fr fr' \<Longrightarrow> in_function m fr' f = in_function m fr f"
  by (simp add: in_function_def frame_evolves_def)

lemma drive_step_at:
  assumes "in_function m fr f" and "code_at (fn_code f) pc (opcode_u8 op # bs)"
  shows "drive_step m (vm_at st fr pc rest) = exec_op m f op (fr\<lparr>fr_pc := Suc pc\<rparr>) rest st"
  using assms(1) code_at_Cons(1) [OF assms(2)]
  by (simp add: drive_step_def vm_at_def in_function_def)

lemmas exec_unfold = exec_op_def is_binary_opcode_def exec_binary_def exec_unary_def
  exec_locals_def exec_data_def exec_control_def

lemma step_LoadConst:
  assumes "in_function m fr f" "code_at (fn_code f) pc (opcode_u8 Opcode_LoadConst # i64_to_le v)"
  shows "drive_step m (vm_at st fr pc rest) = Inr (Next (vm_at (VInt v # st) fr (pc + 9) rest))"
  using drive_step_at [OF assms] code_at_i64 [OF code_at_Cons(2) [OF assms(2)]]
  by (simp add: exec_unfold resume_at_def vm_at_def eval_nat_numeral)

lemma step_LoadLocal:
  assumes "in_function m fr f" "code_at (fn_code f) pc (opcode_u8 Opcode_LoadLocal # u32_to_le i)"
    and "unat i < length (fr_locals fr)"
  shows "drive_step m (vm_at st fr pc rest)
    = Inr (Next (vm_at (fr_locals fr ! unat i # st) fr (pc + 5) rest))"
  using drive_step_at [OF assms(1,2)] code_at_u32 [OF code_at_Cons(2) [OF assms(2)]] assms(3)
  by (simp add: exec_unfold resume_at_def vm_at_def local_ref_def get_def eval_nat_numeral)

lemma step_StoreLocal:
  assumes "in_function m fr f" "code_at (fn_code f) pc (opcode_u8 Opcode_StoreLocal # u32_to_le i)"
    and "set_local fr (unat i) v = Inr fr'"
  shows "drive_step m (vm_at (v # st) fr pc rest) = Inr (Next (vm_at st fr' (pc + 5) rest))"
proof -
  have "set_local (fr\<lparr>fr_pc := k\<rparr>) (unat i) v = Inr (fr'\<lparr>fr_pc := k\<rparr>)" for k
    using assms(3) by (auto simp: set_local_def Let_def split: if_splits vm_value.splits)
  then show ?thesis
    using drive_step_at [OF assms(1,2)] code_at_u32 [OF code_at_Cons(2) [OF assms(2)]]
    by (simp add: exec_unfold resume_at_def vm_at_def eval_nat_numeral)
qed

lemma step_binary:
  assumes "in_function m fr f" "code_at (fn_code f) pc (opcode_u8 op # bs)"
    and "vm_binop op (as_int a) (as_int b) = Some r"
  shows "drive_step m (vm_at (b # a # st) fr pc rest)
    = Inr (Next (vm_at (VInt r # st) fr (pc + 1) rest))"
  using drive_step_at [OF assms(1,2)] assms(3)
  by (cases op) (simp_all add: exec_unfold resume_at_def vm_at_def)

lemma step_unary:
  assumes "in_function m fr f" "code_at (fn_code f) pc (opcode_u8 op # bs)"
    and "vm_unop op (as_int a) = Some r"
  shows "drive_step m (vm_at (a # st) fr pc rest)
    = Inr (Next (vm_at (VInt r # st) fr (pc + 1) rest))"
  using drive_step_at [OF assms(1,2)] assms(3)
  by (cases op) (simp_all add: exec_unfold resume_at_def vm_at_def)

lemma step_Cast:
  assumes "in_function m fr f" "code_at (fn_code f) pc [opcode_u8 Opcode_Cast, k]"
  shows "drive_step m (vm_at st fr pc rest) = Inr (Next (vm_at st fr (pc + 2) rest))"
  using drive_step_at [OF assms] code_at_Cons(1) [OF code_at_Cons(2) [OF assms(2)]]
  by (simp add: exec_unfold resume_at_def vm_at_def read_byte_def)

lemma step_Jump:
  assumes "in_function m fr f" "code_at (fn_code f) pc (opcode_u8 Opcode_Jump # u32_to_le t)"
    and "resolve_target f t = Inr off"
  shows "drive_step m (vm_at st fr pc rest) = Inr (Next (vm_at st fr off rest))"
  using drive_step_at [OF assms(1,2)] code_at_u32 [OF code_at_Cons(2) [OF assms(2)]] assms(3)
  by (simp add: exec_unfold resume_at_def vm_at_def)

lemma step_JumpIf:
  assumes "in_function m fr f" "code_at (fn_code f) pc (opcode_u8 Opcode_JumpIf # u32_to_le t)"
    and "resolve_target f t = Inr off"
  shows "drive_step m (vm_at (c # st) fr pc rest)
    = Inr (Next (vm_at st fr (if as_int c \<noteq> 0 then off else pc + 5) rest))"
  using drive_step_at [OF assms(1,2)] code_at_u32 [OF code_at_Cons(2) [OF assms(2)]] assms(3)
  by (simp add: exec_unfold resume_at_def vm_at_def)

subsection \<open>Straight-line code\<close>

text \<open>
  \<open>op_len\<close> is the width of a fixed-width instruction; \<open>straight op\<close> holds of the
  opcodes that fall through to the next instruction or return.
\<close>

definition op_len :: "opcode \<Rightarrow> nat" where
  "op_len op =
    (if op = Opcode_LoadConst then 9
     else if op \<in> {Opcode_LoadLocal, Opcode_StoreLocal, Opcode_LoadLocalAddr, Opcode_Len,
                   Opcode_Aggregate} then 5
     else if op = Opcode_Cast then 2 else 1)"

definition straight :: "opcode \<Rightarrow> bool" where
  "straight op \<longleftrightarrow> op \<notin> {Opcode_Jump, Opcode_JumpIf, Opcode_SwitchInt, Opcode_Assert, Opcode_Drop,
                            Opcode_Call, Opcode_CallIndirect}"

lemma op_len_pos [simp]: "0 < op_len op"
  by (simp add: op_len_def)

function straight_line :: "u8 list \<Rightarrow> nat \<Rightarrow> bool" where
  "straight_line code pc =
    (if length code \<le> pc then True
     else case from_u8 (code ! pc) of
            None \<Rightarrow> True
          | Some op \<Rightarrow> straight op \<and> straight_line code (pc + op_len op))"
  by pat_completeness auto
termination
  by (relation "measure (\<lambda>(code, pc). length code - pc)") (auto simp: op_len_def)

declare straight_line.simps [simp del]

lemma set_local_pc: "set_local fr i v = Inr fr' \<Longrightarrow> fr_pc fr' = fr_pc fr \<and> fr_func fr' = fr_func fr"
  by (auto simp: set_local_def Let_def split: if_splits)

lemma set_mem_pc: "set_mem fr i v = Inr fr' \<Longrightarrow> fr_pc fr' = fr_pc fr \<and> fr_func fr' = fr_func fr"
  by (auto simp: set_mem_def split: if_splits)

lemma exec_op_straight:
  assumes "exec_op m f op fr [] st = Inr (Next vm')" and "straight op"
  shows "\<exists>fr'. vm_frames vm' = [fr'] \<and> fr_func fr' = fr_func fr \<and>
    fr_pc fr' + 1 = fr_pc fr + op_len op"
  using assms
  by (cases op) (auto simp: exec_unfold straight_def op_len_def result_simps exec_return_def
      Let_def split: if_splits list.splits dest!: set_local_pc set_mem_pc)

lemma straight_line_drives:
  assumes "in_function m fr f" and "straight_line (fn_code f) (fr_pc fr)"
    and "vm_frames vm = [fr]" and "length (fn_code f) - fr_pc fr < fuel"
  shows "\<exists>r. drive fuel m vm = Some r"
  using assms
proof (induction "length (fn_code f) - fr_pc fr" arbitrary: fr vm fuel rule: less_induct)
  case less
  from less.prems(4) obtain k where fuel: "fuel = Suc k" by (cases fuel) auto
  show ?case
  proof (cases "drive_step m vm")
    case (Inr nx)
    show ?thesis
    proof (cases nx)
      case (Next vm')
      from Inr less.prems(3) obtain f' op where
        f': "fr_func fr < length (md_functions m)" "f' = md_functions m ! fr_func fr"
          "fr_pc fr < length (fn_code f')" "from_u8 (fn_code f' ! fr_pc fr) = Some op"
          "exec_op m f' op (fr\<lparr>fr_pc := fr_pc fr + 1\<rparr>) [] (vm_stack vm) = Inr nx"
        by (rule drive_step_Cons)
      with less.prems(1) have "f' = f" by (auto simp: in_function_def get_def)
      note f' = f' [unfolded this Next]
      from less.prems(2) f'(3,4) have st: "straight op" "straight_line (fn_code f) (fr_pc fr + op_len op)"
        by (subst (asm) straight_line.simps; simp)+
      from exec_op_straight [OF f'(5) st(1)] obtain fr' where
        fr': "vm_frames vm' = [fr']" "fr_func fr' = fr_func fr" "fr_pc fr' = fr_pc fr + op_len op"
        by auto
      obtain j where "op_len op = Suc j" using op_len_pos [of op] by (cases "op_len op") auto
      then have "\<exists>r. drive k m vm' = Some r"
        using less.prems fr' f'(3) st(2) fuel
        by (intro less.hyps [of fr']) (auto simp: in_function_def)
      with Inr Next fuel show ?thesis by simp
    qed (use Inr fuel in simp)
  qed (use fuel in simp)
qed

subsection \<open>Properties of the machine\<close>

text \<open>
  C1.  Every state the driver can reach from the entry frame has between one and
  \<open>MAX_CALL_DEPTH\<close> call frames, and every frame runs a function that exists
  in the module, has at least the locals that function declares, and has at least eight
  memory slots per local: the unchecked \<open>module.functions[func]\<close> and the mirror
  stores of \<open>set_local\<close> never go out of range.
\<close>

theorem vm_reachable_safe:
  assumes "vm_reachable m vm"
  shows "0 < length (vm_frames vm) \<and> length (vm_frames vm) \<le> 1024 \<and>
    (\<forall>fr \<in> set (vm_frames vm).
       fr_func fr < length (md_functions m) \<and>
       fn_n_locals (md_functions m ! fr_func fr) \<le> length (fr_locals fr) \<and>
       max (8 * length (fr_locals fr)) 8 \<le> length (fr_mem fr))"
  using vm_reachable_inv [OF assms] by (simp add: vm_inv_def frame_ok_def MAX_CALL_DEPTH_def)

definition example_module :: vm_module where
  "example_module =
    \<lparr>md_functions = [function_new
       (opcode_u8 Opcode_LoadConst # i64_to_le 3 @ opcode_u8 Opcode_LoadConst # i64_to_le 4
        @ [opcode_u8 Opcode_Add, opcode_u8 Opcode_Return]) 1 0], md_entry = 0\<rparr>"

lemma vm_reachable_safe_witness:
  "\<exists>vm. vm_reachable example_module vm \<and>
     0 < length (vm_frames vm) \<and> length (vm_frames vm) \<le> 1024"
proof -
  obtain vm where e: "entry_frame example_module vm_new = Inr vm"
    by (auto simp: entry_frame_def push_frame_def example_module_def vm_new_def MAX_CALL_DEPTH_def
        get_def function_new_def Let_def)
  note r = vm_reachable.start [OF e]
  from r vm_reachable_safe [OF r] show ?thesis by blast
qed

text \<open>
   One turn of the driver touches the call stack in one of three ways only: the
  running frame evolves in place (its function, its return data and its number of locals
  stay, its memory may grow), a callee frame is pushed below the depth limit, or the frame
  is popped and its value goes to the recorded local of its caller.  No other frame changes.
\<close>

theorem vm_step_call_stack:
  assumes "drive_step m vm = Inr (Next vm')"
  shows "frames_step m (vm_frames vm) (vm_frames vm')"
  by (rule drive_step_frames [OF assms])

lemma vm_step_call_stack_witness:
  "\<exists>vm vm'. drive_step example_module vm = Inr (Next vm') \<and>
     frames_step example_module (vm_frames vm) (vm_frames vm')"
proof -
  obtain vm where e: "entry_frame example_module vm_new = Inr vm"
    and vm: "vm = vm_at [] (hd (vm_frames vm)) 0 []" "fr_func (hd (vm_frames vm)) = 0"
    by (auto simp: entry_frame_def push_frame_def example_module_def vm_new_def MAX_CALL_DEPTH_def
        get_def function_new_def Let_def vm_at_def)
  let ?f = "hd (md_functions example_module)"
  have "in_function example_module (hd (vm_frames vm)) ?f"
    using vm(2) by (simp add: in_function_def example_module_def get_def)
  moreover have "code_at (fn_code ?f) 0 (opcode_u8 Opcode_LoadConst # i64_to_le 3)"
    by (auto simp: code_at_def example_module_def function_new_def)
  ultimately have "drive_step example_module (vm_at [] (hd (vm_frames vm)) 0 [])
      = Inr (Next (vm_at [VInt 3] (hd (vm_frames vm)) (0 + 9) []))"
    by (rule step_LoadConst)
  then have s: "drive_step example_module vm = Inr (Next (vm_at [VInt 3] (hd (vm_frames vm)) 9 []))"
    using vm(1) by simp
  from s vm_step_call_stack [OF s] show ?thesis by blast
qed

text \<open>
  The decoder inverts the opcode encoding: a byte decodes to an opcode exactly when
  it is the discriminant of that opcode.
\<close>

theorem opcode_wire_roundtrip: "from_u8 b = Some op \<longleftrightarrow> b = opcode_u8 op"
  using opcode_u8_from_u8 by auto

text \<open>
  Storing to a local is coherent with the addressable memory of the frame: after
  \<open>set_local\<close> the local and the memory slot of the same index both hold the value, the
  elements of a tuple sit in the slots that follow it (\<open>Field(k)\<close> at \<open>base + k + 1\<close>),
  and every other local is unchanged.
\<close>

theorem set_local_coherent:
  assumes ok: "frame_ok m fr" and i: "i < length (fr_locals fr)"
  shows "\<exists>fr'. set_local fr i v = Inr fr' \<and> local_ref fr' i = Inr v \<and> mem_ref fr' i = Inr v \<and>
    (\<forall>es k. v = VTuple es \<and> k < length es \<and> i + 1 + k < length (fr_mem fr) \<longrightarrow>
       mem_ref fr' (i + 1 + k) = Inr (es ! k)) \<and>
    (\<forall>j. j \<noteq> i \<longrightarrow> local_ref fr' j = local_ref fr j)"
proof -
  from ok i have "i < length (fr_mem fr)" by (simp add: frame_ok_def)
  with i show ?thesis
    by (cases v) (auto simp: set_local_def Let_def local_ref_def mem_ref_def get_def nth_mirror_elems)
qed

lemma set_local_coherent_witness:
  "\<exists>fr'. set_local \<lparr>fr_locals = [VInt 0, VInt 0], fr_mem = replicate 16 (VInt 0), fr_func = 0,
       fr_pc = 0, fr_resume_target = 0, fr_dest_local = 0\<rparr> 1 (VTuple [VInt 7, VInt 9]) = Inr fr' \<and>
     mem_ref fr' 3 = Inr (VInt 9)"
proof -
  let ?fr = "\<lparr>fr_locals = [VInt 0, VInt 0], fr_mem = replicate 16 (VInt 0), fr_func = 0,
       fr_pc = 0, fr_resume_target = 0, fr_dest_local = 0\<rparr>"
  have "frame_ok example_module ?fr"
    by (simp add: frame_ok_def example_module_def function_new_def)
  then obtain fr' where "set_local ?fr 1 (VTuple [VInt 7, VInt 9]) = Inr fr'"
    and e: "\<forall>es k. VTuple [VInt 7, VInt 9] = VTuple es \<and> k < length es \<and>
      1 + 1 + k < length (fr_mem ?fr) \<longrightarrow> mem_ref fr' (1 + 1 + k) = Inr (es ! k)"
    using set_local_coherent [of example_module ?fr 1 "VTuple [VInt 7, VInt 9]"] by auto
  moreover have "mem_ref fr' 3 = Inr (VInt 9)"
    using spec [OF spec [OF e, of "[VInt 7, VInt 9]"], of 1] by (simp add: numeral_3_eq_3)
  ultimately show ?thesis by blast
qed

text \<open>
   Code without control transfer always halts: if walking the instructions of a
  chunk meets no jump, switch, assert, drop or call, the driver returns a value or an error
  within one turn more than the chunk has bytes.
\<close>

theorem straight_line_terminates:
  assumes "straight_line (ch_code c) 0"
  shows "\<exists>r. vm_run (length (ch_code c) + 1) c vm_new = Some r"
proof -
  let ?m = "\<lparr>md_functions = [function_new (ch_code c) (ch_n_locals c) 0], md_entry = 0\<rparr>"
  obtain fr where fr: "entry_frame ?m vm_new = Inr \<lparr>vm_stack = [], vm_frames = [fr]\<rparr>"
    "fr_func fr = 0" "fr_pc fr = 0"
    by (auto simp: entry_frame_def push_frame_def vm_new_def MAX_CALL_DEPTH_def get_def Let_def)
  have "\<exists>r. drive (length (ch_code c) + 1) ?m \<lparr>vm_stack = [], vm_frames = [fr]\<rparr> = Some r"
    by (rule straight_line_drives [where fr = fr and f = "function_new (ch_code c) (ch_n_locals c) 0"])
      (use fr assms in \<open>simp_all add: in_function_def get_def function_new_def\<close>)
  with fr(1) show ?thesis by (simp add: vm_run_def run_module_def)
qed

lemma straight_line_terminates_witness:
  "\<exists>r. vm_run 3 \<lparr>ch_code = [0x0F, 0x18], ch_n_locals = 0, ch_entry = 0\<rparr> vm_new = Some r"
proof -
  have "straight_line [0x0F, 0x18] 0"
    by (simp add: straight_line.simps from_u8_def straight_def op_len_def)
  then show ?thesis
    using straight_line_terminates [of "\<lparr>ch_code = [0x0F, 0x18], ch_n_locals = 0, ch_entry = 0\<rparr>"]
    by (simp add: numeral_3_eq_3)
qed

lemma step_Call:
  assumes "in_function m fr f"
    and code: "code_at (fn_code f) pc
      (opcode_u8 Opcode_Call # u32_to_le argc @ u32_to_le dest @ u32_to_le target)"
    and args: "length args = unat argc"
    and fi: "get (md_functions m) (unat fi) = Some g"
    and depth: "length rest + 1 < MAX_CALL_DEPTH"
  shows "drive_step m (vm_at (rev args @ VInt fi # st) fr pc rest) =
    Inr (Next \<lparr>vm_stack = st, vm_frames =
      \<lparr>fr_locals = args @ replicate (max (fn_n_locals g) (length args) - length args) (VInt 0),
       fr_mem = replicate (max (max (fn_n_locals g) (length args) * 8) 8) (VInt 0),
       fr_func = unat fi, fr_pc = 0, fr_resume_target = target, fr_dest_local = unat dest\<rparr>
      # fr\<lparr>fr_pc := pc + 13\<rparr> # rest\<rparr>)"
proof -
  note c = code_at_Cons(2) [OF code]
  have "read_u32 (fn_code f) (Suc pc) = Inr (argc, pc + 5)"
    using code_at_u32 [OF code_at_append(1) [OF c]] by simp
  moreover have "read_u32 (fn_code f) (pc + 5) = Inr (dest, pc + 9)"
    using code_at_u32 [OF code_at_append(1) [OF code_at_append(2) [OF c]]] by (simp add: add.commute)
  moreover have "read_u32 (fn_code f) (pc + 9) = Inr (target, pc + 13)"
    using code_at_u32 [OF code_at_append(2) [OF code_at_append(2) [OF c]]] by (simp add: add.commute)
  moreover have "push_frame m \<lparr>vm_stack = st, vm_frames = fr\<lparr>fr_pc := pc + 13\<rparr> # rest\<rparr> (unat fi) args
      target (unat dest) = Inr \<lparr>vm_stack = st, vm_frames =
      \<lparr>fr_locals = args @ replicate (max (fn_n_locals g) (length args) - length args) (VInt 0),
       fr_mem = replicate (max (max (fn_n_locals g) (length args) * 8) 8) (VInt 0),
       fr_func = unat fi, fr_pc = 0, fr_resume_target = target, fr_dest_local = unat dest\<rparr>
      # fr\<lparr>fr_pc := pc + 13\<rparr> # rest\<rparr>"
    using fi depth by (simp add: push_frame_Inr Let_def get_Some)
  ultimately show ?thesis
    using drive_step_at [OF assms(1) code] args
    by (simp add: exec_unfold exec_call_def pop_loop_eq as_int_def)
qed

lemma step_Return:
  assumes "in_function m fr g" and "in_function m caller f"
    and "code_at (fn_code g) (fr_pc fr) [opcode_u8 Opcode_Return]"
    and "resolve_target f (fr_resume_target fr) = Inr off"
    and "fr_dest_local fr < length (fr_locals caller)"
  shows "drive_step m \<lparr>vm_stack = v # st, vm_frames = fr # caller # rest\<rparr> =
    Inr (Next (vm_at st (caller\<lparr>fr_locals := (fr_locals caller)[fr_dest_local fr := v]\<rparr>) off rest))"
  using drive_step_at [OF assms(1,3), of "v # st" "caller # rest"] assms(2,4,5)
  by (simp add: vm_at_def exec_unfold exec_return_def in_function_def resume_at_def)

text \<open>
  C27.  The calling convention.  With a function index and the arguments on the operand
  stack, \<open>OP_CALL\<close> starts the callee at offset 0 with exactly these arguments in its
  leading locals, in order, and zeros after them; the caller is suspended behind the
  instruction.  Whenever that callee frame (however it has evolved) executes
  \<open>OP_RETURN\<close> with \<open>v\<close> on the stack, the caller resumes at the target block with
  \<open>v\<close> in the destination local and everything else as it was.
\<close>

theorem call_return_protocol:
  assumes fr: "in_function m fr f"
    and code: "code_at (fn_code f) pc
      (opcode_u8 Opcode_Call # u32_to_le argc @ u32_to_le dest @ u32_to_le target)"
    and args: "length args = unat argc"
    and g: "get (md_functions m) (unat fi) = Some g"
    and depth: "length rest + 1 < MAX_CALL_DEPTH"
    and off: "resolve_target f target = Inr off"
    and dest: "unat dest < length (fr_locals fr)"
  shows "\<exists>callee. drive_step m (vm_at (rev args @ VInt fi # st) fr pc rest)
        = Inr (Next \<lparr>vm_stack = st, vm_frames = callee # fr\<lparr>fr_pc := pc + 13\<rparr> # rest\<rparr>) \<and>
      in_function m callee g \<and> fr_pc callee = 0 \<and>
      (\<exists>n. fr_locals callee = args @ replicate n (VInt 0)) \<and>
      (\<forall>callee' v st'. frame_evolves callee callee' \<and>
         code_at (fn_code g) (fr_pc callee') [opcode_u8 Opcode_Return] \<longrightarrow>
         drive_step m \<lparr>vm_stack = v # st', vm_frames = callee' # fr\<lparr>fr_pc := pc + 13\<rparr> # rest\<rparr>
           = Inr (Next (vm_at st' (fr\<lparr>fr_locals := (fr_locals fr)[unat dest := v]\<rparr>) off rest)))"
proof -
  let ?callee = "\<lparr>fr_locals = args @ replicate (max (fn_n_locals g) (length args) - length args) (VInt 0),
       fr_mem = replicate (max (max (fn_n_locals g) (length args) * 8) 8) (VInt 0),
       fr_func = unat fi, fr_pc = 0, fr_resume_target = target, fr_dest_local = unat dest\<rparr>"
  have "drive_step m \<lparr>vm_stack = v # st', vm_frames = callee' # fr\<lparr>fr_pc := pc + 13\<rparr> # rest\<rparr>
      = Inr (Next (vm_at st' (fr\<lparr>fr_locals := (fr_locals fr)[unat dest := v]\<rparr>) off rest))"
    if ev: "frame_evolves ?callee callee'"
      and ret: "code_at (fn_code g) (fr_pc callee') [opcode_u8 Opcode_Return]" for callee' v st'
  proof -
    from ev g have "in_function m callee' g"
      by (simp add: in_function_def frame_evolves_def)
    moreover have "in_function m (fr\<lparr>fr_pc := pc + 13\<rparr>) f" using fr by (simp add: in_function_def)
    ultimately show ?thesis
      using step_Return [of m callee' g "fr\<lparr>fr_pc := pc + 13\<rparr>" f off v st' rest] ret off dest ev
      by (simp add: frame_evolves_def vm_at_def)
  qed
  then show ?thesis using step_Call [OF fr code args g depth, of st] g
    by (intro exI [of _ ?callee]) (auto simp: in_function_def)
qed

definition call_module :: vm_module where
  "call_module =
    \<lparr>md_functions = [function_new
       (opcode_u8 Opcode_Call # u32_to_le 1 @ u32_to_le 0 @ u32_to_le 13) 1 0,
       function_new [opcode_u8 Opcode_Return] 1 1], md_entry = 0\<rparr>"

lemma call_return_protocol_witness:
  "\<exists>fr callee. drive_step call_module (vm_at [VInt 5, VInt 1] fr 0 [])
      = Inr (Next \<lparr>vm_stack = [], vm_frames = [callee, fr\<lparr>fr_pc := 13\<rparr>]\<rparr>) \<and>
     (\<exists>n. fr_locals callee = VInt 5 # replicate n (VInt 0))"
proof -
  let ?fr = "\<lparr>fr_locals = [VInt 0], fr_mem = [], fr_func = 0, fr_pc = 0,
    fr_resume_target = 0, fr_dest_local = 0\<rparr>"
  let ?f = "md_functions call_module ! 0" and ?g = "md_functions call_module ! 1"
  have 1: "in_function call_module ?fr ?f"
    by (simp add: in_function_def get_def call_module_def)
  have 2: "code_at (fn_code ?f) 0 (opcode_u8 Opcode_Call # u32_to_le 1 @ u32_to_le 0 @ u32_to_le 13)"
    by (auto simp: code_at_def call_module_def function_new_def)
  have 3: "get (md_functions call_module) (unat (1 :: i64)) = Some ?g"
    by (simp add: get_def call_module_def)
  have 4: "resolve_target ?f 13 = Inr 13"
    by (simp add: resolve_target_def call_module_def function_new_def)
  have 5: "unat (0 :: u32) < length (fr_locals ?fr)" by simp
  have 6: "length [VInt 5] = unat (1 :: u32)" "length ([] :: vm_frame list) + 1 < MAX_CALL_DEPTH"
    by (simp_all add: MAX_CALL_DEPTH_def)
  from call_return_protocol [OF 1 2 6(1) 3 6(2) 4 5, of "[]"] obtain callee n where
    "drive_step call_module (vm_at [VInt 5, VInt 1] ?fr 0 [])
      = Inr (Next \<lparr>vm_stack = [], vm_frames = [callee, ?fr\<lparr>fr_pc := 13\<rparr>]\<rparr>)"
    "fr_locals callee = VInt 5 # replicate n (VInt 0)" by auto
  then show ?thesis by blast
qed

text \<open>
   The driver is deterministic in its fuel: two runs of the same module that both
  finish give the same result, and giving a finished run more fuel does not change it.
\<close>

theorem drive_result_unique:
  assumes "drive fuel m vm = Some r"
  shows "drive (fuel + k) m vm = Some r \<and> (\<forall>fuel' r'. drive fuel' m vm = Some r' \<longrightarrow> r' = r)"
proof -
  have "r' = r" if r': "drive fuel' m vm = Some r'" for fuel' r'
  proof -
    have "drive (max fuel fuel') m vm = Some r" by (rule drive_fuel_mono [OF assms]) simp
    moreover have "drive (max fuel fuel') m vm = Some r'" by (rule drive_fuel_mono [OF r']) simp
    ultimately show ?thesis by simp
  qed
  moreover have "drive (fuel + k) m vm = Some r" by (rule drive_fuel_mono [OF assms]) simp
  ultimately show ?thesis by blast
qed

lemma drive_result_unique_witness:
  "drive 1 \<lparr>md_functions = [], md_entry = 0\<rparr> \<lparr>vm_stack = [VInt 4], vm_frames = []\<rparr>
     = Some (Inr (VInt 4, vm_new)) \<and>
   drive 8 \<lparr>md_functions = [], md_entry = 0\<rparr> \<lparr>vm_stack = [VInt 4], vm_frames = []\<rparr>
     = Some (Inr (VInt 4, vm_new))"
proof -
  have h: "drive 1 \<lparr>md_functions = [], md_entry = 0\<rparr> \<lparr>vm_stack = [VInt 4], vm_frames = []\<rparr>
     = Some (Inr (VInt 4, vm_new))"
    by (simp add: drive_step_def vm_new_def)
  with drive_result_unique [OF h, of 7] show ?thesis by simp
qed

end
