(* ===== verification/Bytecode_Codegen.thy ===== *)
theory Bytecode_Codegen
  imports Mir Bytecode_Vm
begin

unbundle bit_operations_syntax

text \<open>
  The bytecode backend of \<^verbatim>\<open>crates/glyim-codegen/src/lib.rs\<close>: emission of operands,
  rvalues, places, statements and terminators, and the peephole pass with its decoder.
  An emitter returns the bytes it appends to \<open>bc\<close> together with the updated interior
  state of the backend (\<open>string_table\<close>, \<open>fn_table\<close>, \<open>const_is_int\<close>).  A panic
  of the Rust code is \<open>CgPanic\<close>.  Unsigned products wrap as in a release build.
  The layout provider and the type context are records of their methods.
\<close>

subsection \<open>Opcodes of the emitter\<close>

definition OP_LOAD_CONST :: u8 where "OP_LOAD_CONST = 0x01"
definition OP_ADD :: u8 where "OP_ADD = 0x02"
definition OP_SUB :: u8 where "OP_SUB = 0x03"
definition OP_MUL :: u8 where "OP_MUL = 0x04"
definition OP_DIV :: u8 where "OP_DIV = 0x05"
definition OP_REM :: u8 where "OP_REM = 0x06"
definition OP_EQ :: u8 where "OP_EQ = 0x07"
definition OP_NE :: u8 where "OP_NE = 0x08"
definition OP_LT :: u8 where "OP_LT = 0x09"
definition OP_GT :: u8 where "OP_GT = 0x0A"
definition OP_LE :: u8 where "OP_LE = 0x0B"
definition OP_GE :: u8 where "OP_GE = 0x0C"
definition OP_AND :: u8 where "OP_AND = 0x0D"
definition OP_OR :: u8 where "OP_OR = 0x0E"
definition OP_NOT :: u8 where "OP_NOT = 0x0F"
definition OP_NEG :: u8 where "OP_NEG = 0x10"
definition OP_BITAND :: u8 where "OP_BITAND = 0x11"
definition OP_BITOR :: u8 where "OP_BITOR = 0x12"
definition OP_BITXOR :: u8 where "OP_BITXOR = 0x13"
definition OP_SHL :: u8 where "OP_SHL = 0x14"
definition OP_SHR :: u8 where "OP_SHR = 0x15"
definition OP_LOAD_LOCAL :: u8 where "OP_LOAD_LOCAL = 0x16"
definition OP_STORE_LOCAL :: u8 where "OP_STORE_LOCAL = 0x17"
definition OP_RETURN :: u8 where "OP_RETURN = 0x18"
definition OP_JUMP_IF :: u8 where "OP_JUMP_IF = 0x19"
definition OP_JUMP :: u8 where "OP_JUMP = 0x1A"
definition OP_CALL :: u8 where "OP_CALL = 0x1B"
definition OP_CAST :: u8 where "OP_CAST = 0x1C"
definition OP_AGGREGATE :: u8 where "OP_AGGREGATE = 0x1D"
definition OP_DISCRIMINANT :: u8 where "OP_DISCRIMINANT = 0x1E"
definition OP_LEN :: u8 where "OP_LEN = 0x1F"
definition OP_SWITCH_INT :: u8 where "OP_SWITCH_INT = 0x20"
definition OP_ASSERT :: u8 where "OP_ASSERT = 0x21"
definition OP_CALL_INDIRECT :: u8 where "OP_CALL_INDIRECT = 0x22"
definition OP_LOAD_LOCAL_ADDR :: u8 where "OP_LOAD_LOCAL_ADDR = 0x29"
definition OP_STORE_FIELD :: u8 where "OP_STORE_FIELD = 0x2A"
definition OP_DEREF :: u8 where "OP_DEREF = 0x2B"
definition OP_DROP :: u8 where "OP_DROP = 0x2C"
definition OP_REPEAT :: u8 where "OP_REPEAT = 0x2D"
definition OP_TRAP :: u8 where "OP_TRAP = 0xFF"

lemmas OP_defs = OP_LOAD_CONST_def OP_ADD_def OP_SUB_def OP_MUL_def OP_DIV_def OP_REM_def
  OP_EQ_def OP_NE_def OP_LT_def OP_GT_def OP_LE_def OP_GE_def OP_AND_def OP_OR_def OP_NOT_def
  OP_NEG_def OP_BITAND_def OP_BITOR_def OP_BITXOR_def OP_SHL_def OP_SHR_def OP_LOAD_LOCAL_def
  OP_STORE_LOCAL_def OP_RETURN_def OP_JUMP_IF_def OP_JUMP_def OP_CALL_def OP_CAST_def
  OP_AGGREGATE_def OP_DISCRIMINANT_def OP_LEN_def OP_SWITCH_INT_def OP_ASSERT_def
  OP_CALL_INDIRECT_def OP_LOAD_LOCAL_ADDR_def OP_STORE_FIELD_def OP_DEREF_def OP_DROP_def
  OP_REPEAT_def OP_TRAP_def

subsection \<open>The backend and its tables\<close>

datatype opt_level = O0 | O1 | O2 | O3

record layout_provider =
  lp_field_offset :: "ty \<Rightarrow> u32 \<Rightarrow> u64"
  lp_size_of :: "ty \<Rightarrow> u64"
  lp_tag_offset :: "ty \<Rightarrow> u64"

record codegen_ctx =
  cx_ty_kind :: "ty \<Rightarrow> ty_kind"
  cx_name_str :: "name \<Rightarrow> string"

record backend =
  be_layout_provider :: layout_provider
  be_ty_ctx :: "codegen_ctx option"
  be_opt_level :: opt_level

record cg_state =
  cg_string_table :: "string list"
  cg_fn_table :: "(u32 \<times> substitution) list"
  cg_const_is_int :: "bool list"

datatype cg_failure = CgPanic

text \<open>\<open>self.ty_ctx.as_ref().map(|c| c.ty_kind(t)).unwrap_or(&TyKind::Error)\<close>.\<close>

definition be_kind :: "backend \<Rightarrow> ty \<Rightarrow> ty_kind" where
  "be_kind be t = (case be_ty_ctx be of Some c \<Rightarrow> cx_ty_kind c t | None \<Rightarrow> TError)"

text \<open>The linear search of \<open>intern_string\<close> and \<open>intern_fn\<close>.\<close>

fun find_from :: "nat \<Rightarrow> 'a \<Rightarrow> 'a list \<Rightarrow> nat option" where
  "find_from i x [] = None"
| "find_from i x (y # ys) = (if y = x then Some i else find_from (i + 1) x ys)"

definition intern :: "'a list \<Rightarrow> 'a \<Rightarrow> u32 \<times> 'a list" where
  "intern table x =
    (case find_from 0 x table of
       Some i \<Rightarrow> (word_of_nat i, table)
     | None \<Rightarrow> (word_of_nat (length (table @ [x]) - 1), table @ [x]))"

definition intern_string :: "cg_state \<Rightarrow> string \<Rightarrow> u32 \<times> cg_state" where
  "intern_string s x = (let (i, t) = intern (cg_string_table s) x in (i, s\<lparr>cg_string_table := t\<rparr>))"

definition intern_fn :: "cg_state \<Rightarrow> u32 \<Rightarrow> substitution \<Rightarrow> u32 \<times> cg_state" where
  "intern_fn s d sub = (let (i, t) = intern (cg_fn_table s) (d, sub) in (i, s\<lparr>cg_fn_table := t\<rparr>))"

subsection \<open>Places\<close>

definition load_const :: "i64 \<Rightarrow> u8 list" where
  "load_const v = OP_LOAD_CONST # i64_to_le v"

definition const_as_u64 :: "ty_const \<Rightarrow> u64" where
  "const_as_u64 c = (case ct_kind c of CkUint n \<Rightarrow> ucast n | CkInt n \<Rightarrow> ucast n | _ \<Rightarrow> 0)"

text \<open>One projection of \<open>emit_place_address\<close>: bytes and the type that follows.\<close>

definition emit_projection ::
  "backend \<Rightarrow> u32 \<Rightarrow> ty \<Rightarrow> projection_elem \<Rightarrow> u8 list \<times> ty" where
  "emit_projection be local t proj =
    (let lp = be_layout_provider be in
     case proj of
       PDeref \<Rightarrow>
         ([OP_DEREF],
          (case be_kind be t of TRef _ inner _ \<Rightarrow> inner | TRawPtr inner _ \<Rightarrow> inner | _ \<Rightarrow> Ty_ERROR))
     | PField idx \<Rightarrow> (load_const (lp_field_offset lp t idx) @ [OP_ADD], t)
     | PIndex l \<Rightarrow>
         (let elem_size = lp_size_of lp t;
              bytes =
               (if elem_size = 0
                then (OP_LOAD_LOCAL # u32_to_le l)
                  @ (case be_kind be t of
                       TArray _ len \<Rightarrow> load_const (const_as_u64 len)
                     | TSlice _ \<Rightarrow> OP_LEN # u32_to_le local
                     | _ \<Rightarrow> load_const 0)
                  @ [OP_LT, OP_ASSERT, 1] @ u32_to_le (- 1)
                  @ load_const 0 @ [OP_ADD]
                else (OP_LOAD_LOCAL # u32_to_le l) @ load_const elem_size @ [OP_MUL, OP_ADD])
          in (bytes, (case be_kind be t of TArray e _ \<Rightarrow> e | TSlice e \<Rightarrow> e | _ \<Rightarrow> Ty_ERROR)))
     | PDowncast _ \<Rightarrow>
         (let tag_off = lp_tag_offset lp t
          in (if tag_off \<noteq> 0 then load_const tag_off @ [OP_ADD] else [], t))
     | PConstantIndex offset _ from_end \<Rightarrow>
         (let elem_size = lp_size_of lp t;
              const_index = (\<lambda>index_val. (load_const (index_val * elem_size) @ [OP_ADD], Ty_ERROR))
          in if \<not> from_end then const_index offset
             else (case be_ty_ctx be of
                     None \<Rightarrow> const_index offset
                   | Some c \<Rightarrow>
                      (case cx_ty_kind c t of
                         TArray _ len \<Rightarrow>
                           (let n = const_as_u64 len in const_index (if n < offset then 0 else n - offset))
                       | _ \<Rightarrow>
                           ((OP_LOAD_LOCAL # u32_to_le local) @ [OP_LEN] @ load_const offset @ [OP_SUB]
                              @ load_const elem_size @ [OP_MUL, OP_ADD],
                            (case be_kind be t of TSlice e \<Rightarrow> e | _ \<Rightarrow> Ty_ERROR)))))
     | PSubslice from _ _ \<Rightarrow> (load_const (from * lp_size_of lp t) @ [OP_ADD], t))"

fun emit_projections :: "backend \<Rightarrow> u32 \<Rightarrow> ty \<Rightarrow> projection_elem list \<Rightarrow> u8 list" where
  "emit_projections be local t [] = []"
| "emit_projections be local t (p # ps) =
    (let (bytes, t') = emit_projection be local t p in bytes @ emit_projections be local t' ps)"

definition emit_place_address ::
  "backend \<Rightarrow> place \<Rightarrow> local_decl list \<Rightarrow> cg_failure + u8 list" where
  "emit_place_address be p local_tys =
    (let base = OP_LOAD_LOCAL_ADDR # u32_to_le (pl_local p) in
     if pl_projection p = [] then Inr base
     else if length local_tys \<le> unat (pl_local p) then Inl CgPanic
     else Inr (base @ emit_projections be (pl_local p)
                 (ld_ty (local_tys ! unat (pl_local p))) (pl_projection p)))"

subsection \<open>Operands\<close>

definition push_int_flag :: "bool \<Rightarrow> cg_state \<Rightarrow> cg_state" where
  "push_int_flag b s = s\<lparr>cg_const_is_int := cg_const_is_int s @ [b]\<rparr>"

fun emit_const :: "backend \<Rightarrow> cg_state \<Rightarrow> mir_const \<Rightarrow> u8 list \<times> cg_state"
  and emit_consts :: "backend \<Rightarrow> cg_state \<Rightarrow> mir_const list \<Rightarrow> u8 list \<times> cg_state" where
  "emit_const be s (MirConst k t sp) =
    (case k of
       McInt v \<Rightarrow> (load_const (ucast v), push_int_flag True s)
     | McUint v \<Rightarrow> (load_const (ucast v), push_int_flag True s)
     | McBool b \<Rightarrow> (load_const (bool_word b), push_int_flag True s)
     | McChar c \<Rightarrow> (load_const (ucast c), push_int_flag True s)
     | McFloatBits b \<Rightarrow> (load_const b, push_int_flag False s)
     | McString n \<Rightarrow>
         (let str = (case be_ty_ctx be of Some c \<Rightarrow> cx_name_str c n | None \<Rightarrow> ''string_payload'');
              (i, s') = intern_string s str
          in (load_const (ucast i), push_int_flag False s'))
     | McFn d sub \<Rightarrow>
         (let (i, s') = intern_fn s d sub in (load_const (ucast i), push_int_flag False s'))
     | McConstRef d _ \<Rightarrow> (load_const (ucast d), push_int_flag False s)
     | McAggregate elems \<Rightarrow> emit_consts be s elems
     | McUnit \<Rightarrow> (load_const 0, push_int_flag True s)
     | McError \<Rightarrow> (load_const 0, push_int_flag True s)
     | McVirtualMethod _ _ \<Rightarrow> (load_const 0, push_int_flag True s))"
| "emit_consts be s [] = ([], s)"
| "emit_consts be s (c # cs) =
    (let (b1, s1) = emit_const be s c; (b2, s2) = emit_consts be s1 cs in (b1 @ b2, s2))"

definition emit_operand ::
  "backend \<Rightarrow> local_decl list \<Rightarrow> operand \<Rightarrow> cg_state \<Rightarrow> cg_failure + u8 list \<times> cg_state" where
  "emit_operand be local_tys op s =
    (let emit_place = (\<lambda>p.
        if pl_projection p = [] then Inr (OP_LOAD_LOCAL # u32_to_le (pl_local p), s)
        else rbind (emit_place_address be p local_tys) (\<lambda>bs. Inr (bs @ [OP_DEREF], s)))
     in case op of
          Copy p \<Rightarrow> emit_place p
        | Move p \<Rightarrow> emit_place p
        | Constant c \<Rightarrow> Inr (emit_const be s c))"

fun emit_operands ::
  "backend \<Rightarrow> local_decl list \<Rightarrow> operand list \<Rightarrow> cg_state \<Rightarrow> cg_failure + u8 list \<times> cg_state" where
  "emit_operands be local_tys [] s = Inr ([], s)"
| "emit_operands be local_tys (o1 # os) s =
     rbind (emit_operand be local_tys o1 s) (\<lambda>(b1, s1).
     rbind (emit_operands be local_tys os s1) (\<lambda>(b2, s2). Inr (b1 @ b2, s2)))"

subsection \<open>Rvalues, statements, terminators\<close>

fun binop_byte :: "bin_op \<Rightarrow> u8" where
  "binop_byte Bin_Add = OP_ADD"
| "binop_byte Bin_Sub = OP_SUB"
| "binop_byte Bin_Mul = OP_MUL"
| "binop_byte Bin_Div = OP_DIV"
| "binop_byte Bin_Rem = OP_REM"
| "binop_byte Bin_Eq = OP_EQ"
| "binop_byte Bin_Ne = OP_NE"
| "binop_byte Bin_Lt = OP_LT"
| "binop_byte Bin_Gt = OP_GT"
| "binop_byte Bin_LtEq = OP_LE"
| "binop_byte Bin_GtEq = OP_GE"
| "binop_byte Bin_And = OP_AND"
| "binop_byte Bin_Or = OP_OR"
| "binop_byte Bin_BitAnd = OP_BITAND"
| "binop_byte Bin_BitOr = OP_BITOR"
| "binop_byte Bin_BitXor = OP_BITXOR"
| "binop_byte Bin_Shl = OP_SHL"
| "binop_byte Bin_Shr = OP_SHR"

fun unop_byte :: "un_op \<Rightarrow> u8" where
  "unop_byte Un_Not = OP_NOT"
| "unop_byte Un_Neg = OP_NEG"
| "unop_byte Un_Deref = OP_DEREF"

fun cast_byte :: "cast_kind \<Rightarrow> u8" where
  "cast_byte CastIntToInt = 0"
| "cast_byte CastFloatToInt = 1"
| "cast_byte CastIntToFloat = 2"
| "cast_byte CastPtrToPtr = 3"
| "cast_byte CastFnPtrToPtr = 4"
| "cast_byte CastPtrToInt = 5"
| "cast_byte CastIntToPtr = 6"
| "cast_byte CastFloatToFloat = 7"

text \<open>\<open>emit_then\<close> appends fixed bytes to what an emitter produced.\<close>

definition emit_then ::
  "cg_failure + u8 list \<times> cg_state \<Rightarrow> u8 list \<Rightarrow> cg_failure + u8 list \<times> cg_state" where
  "emit_then r bytes = rbind r (\<lambda>(b, s). Inr (b @ bytes, s))"

fun emit_rvalue ::
  "backend \<Rightarrow> local_decl list \<Rightarrow> rvalue \<Rightarrow> cg_state \<Rightarrow> cg_failure + u8 list \<times> cg_state" where
  "emit_rvalue be tys (RvUse op) s = emit_operand be tys op s"
| "emit_rvalue be tys (RvBinaryOp op l r) s =
     rbind (emit_operand be tys l s) (\<lambda>(b1, s1).
     rbind (emit_operand be tys r s1) (\<lambda>(b2, s2). Inr (b1 @ b2 @ [binop_byte op], s2)))"
| "emit_rvalue be tys (RvUnaryOp op x) s = emit_then (emit_operand be tys x s) [unop_byte op]"
| "emit_rvalue be tys (RvRef p _) s = rbind (emit_place_address be p tys) (\<lambda>b. Inr (b, s))"
| "emit_rvalue be tys (RvAggregate _ ops) s =
     rbind (emit_operands be tys ops s) (\<lambda>(b, s1).
       Inr (OP_AGGREGATE # u32_to_le (word_of_nat (length ops)) @ b, s1))"
| "emit_rvalue be tys (RvDiscriminant p) s = emit_then (emit_operand be tys (Copy p) s) [OP_DISCRIMINANT]"
| "emit_rvalue be tys (RvLen p) s = emit_then (emit_operand be tys (Copy p) s) [OP_LEN]"
| "emit_rvalue be tys (RvCast k x _) s = emit_then (emit_operand be tys x s) [OP_CAST, cast_byte k]"
| "emit_rvalue be tys (RvRepeat x c) s =
     rbind (emit_operand be tys x s) (\<lambda>(b1, s1).
     rbind (emit_operand be tys (Constant c) s1) (\<lambda>(b2, s2). Inr (OP_REPEAT # b1 @ b2, s2)))"

definition emit_statement ::
  "backend \<Rightarrow> local_decl list \<Rightarrow> statement_kind \<Rightarrow> cg_state \<Rightarrow> cg_failure + u8 list \<times> cg_state" where
  "emit_statement be tys k s =
    (case k of
       StAssign p rv \<Rightarrow>
         rbind (emit_rvalue be tys rv s) (\<lambda>(b, s1).
           if pl_projection p = [] then Inr (b @ OP_STORE_LOCAL # u32_to_le (pl_local p), s1)
           else rbind (emit_place_address be p tys) (\<lambda>a. Inr (b @ a @ [OP_STORE_FIELD], s1)))
     | _ \<Rightarrow> Inr ([], s))"

fun emit_terminator ::
  "backend \<Rightarrow> local_decl list \<Rightarrow> terminator_kind \<Rightarrow> cg_state \<Rightarrow> cg_failure + u8 list \<times> cg_state" where
  "emit_terminator be tys TReturn s = Inr ([OP_RETURN], s)"
| "emit_terminator be tys (TSwitchInt discr switch_ty targets) s =
    (if switch_ty = Ty_BOOL
     then let false_target = (case sw_branches targets of
                                (_, t) # _ \<Rightarrow> t | [] \<Rightarrow> sw_otherwise targets);
              true_target = sw_otherwise targets
          in emit_then (emit_operand be tys discr s)
               (OP_JUMP_IF # u32_to_le true_target @ OP_JUMP # u32_to_le false_target)
     else emit_then (emit_operand be tys discr s)
            (OP_SWITCH_INT # u32_to_le (word_of_nat (length (sw_branches targets)))
             @ concat (map (\<lambda>(v, t). le_bytes 16 (unat v) @ u32_to_le t) (sw_branches targets))
             @ u32_to_le (sw_otherwise targets)))"
| "emit_terminator be tys (TGoto target) s = Inr (OP_JUMP # u32_to_le target, s)"
| "emit_terminator be tys (TCall func args dest target cleanup) s =
     rbind (emit_operand be tys func s) (\<lambda>(b1, s1).
     rbind (emit_operands be tys args s1) (\<lambda>(b2, s2).
       let is_indirect = (case func of Constant _ \<Rightarrow> False | _ \<Rightarrow> True);
           t = (case target of Some t \<Rightarrow> t | None \<Rightarrow> - 1)
       in Inr (b1 @ b2 @ [if is_indirect then OP_CALL_INDIRECT else OP_CALL]
               @ u32_to_le (word_of_nat (length args)) @ u32_to_le (pl_local dest) @ u32_to_le t, s2)))"
| "emit_terminator be tys TUnreachable s = Inr ([OP_TRAP], s)"
| "emit_terminator be tys (TAssert cond expected target cleanup msg) s =
     emit_then (emit_operand be tys cond s)
       (OP_ASSERT # (if expected then 1 else 0) # u32_to_le target)"
| "emit_terminator be tys (TDrop p target cleanup) s =
     rbind (emit_place_address be p tys) (\<lambda>b.
       Inr (b @ OP_DROP # OP_JUMP # u32_to_le target, s))"

fun emit_statements ::
  "backend \<Rightarrow> local_decl list \<Rightarrow> statement list \<Rightarrow> cg_state \<Rightarrow> cg_failure + u8 list \<times> cg_state" where
  "emit_statements be tys [] s = Inr ([], s)"
| "emit_statements be tys (x # xs) s =
     rbind (emit_statement be tys (st_kind x) s) (\<lambda>(b1, s1).
     rbind (emit_statements be tys xs s1) (\<lambda>(b2, s2). Inr (b1 @ b2, s2)))"

fun emit_blocks ::
  "backend \<Rightarrow> local_decl list \<Rightarrow> basic_block list \<Rightarrow> cg_state \<Rightarrow> cg_failure + u8 list \<times> cg_state" where
  "emit_blocks be tys [] s = Inr ([], s)"
| "emit_blocks be tys (bb # bbs) s =
     rbind (emit_statements be tys (bb_statements bb) s) (\<lambda>(b1, s1).
     rbind (emit_terminator be tys (tm_kind (bb_terminator bb)) s1) (\<lambda>(b2, s2).
     rbind (emit_blocks be tys bbs s2) (\<lambda>(b3, s3). Inr (b1 @ b2 @ b3, s3))))"

subsection \<open>The peephole pass\<close>

text \<open>
  \<open>fold_int_binop\<close>: \<open>None\<close> is the panic of \<open>a.rem(b)\<close> on a zero divisor or an
  overflowing quotient, \<open>Some None\<close> the Rust \<open>None\<close>.
\<close>

definition fold_int_binop :: "u8 \<Rightarrow> i64 \<Rightarrow> i64 \<Rightarrow> i64 option option" where
  "fold_int_binop op a b =
    (if op = OP_ADD then Some (Some (a + b))
     else if op = OP_SUB then Some (Some (a - b))
     else if op = OP_MUL then Some (Some (a * b))
     else if op = OP_DIV then Some (checked_div_i64 a b)
     else if op = OP_REM then map_option Some (checked_rem_i64 a b)
     else if op = OP_EQ then Some (Some (bool_word (a = b)))
     else if op = OP_NE then Some (Some (bool_word (a \<noteq> b)))
     else if op = OP_LT then Some (Some (bool_word (sint a < sint b)))
     else if op = OP_GT then Some (Some (bool_word (sint b < sint a)))
     else if op = OP_LE then Some (Some (bool_word (sint a \<le> sint b)))
     else if op = OP_GE then Some (Some (bool_word (sint b \<le> sint a)))
     else if op = OP_AND then Some (Some (bool_word (a \<noteq> 0 \<and> b \<noteq> 0)))
     else if op = OP_OR then Some (Some (bool_word (a \<noteq> 0 \<or> b \<noteq> 0)))
     else if op = OP_BITAND then Some (Some (a AND b))
     else if op = OP_BITOR then Some (Some (a OR b))
     else if op = OP_BITXOR then Some (Some (a XOR b))
     else if op = OP_SHL then Some (Some (push_bit (unat b mod 2 ^ 32 mod 64) a))
     else if op = OP_SHR then Some (Some (signed_drop_bit (unat b mod 2 ^ 32 mod 64) a))
     else Some None)"

definition is_foldable_binop :: "u8 \<Rightarrow> bool" where
  "is_foldable_binop op \<longleftrightarrow> op \<in>
     {OP_ADD, OP_SUB, OP_MUL, OP_DIV, OP_REM, OP_EQ, OP_NE, OP_LT, OP_GT, OP_LE, OP_GE, OP_AND,
      OP_OR, OP_BITAND, OP_BITOR, OP_BITXOR, OP_SHL, OP_SHR}"

record instr =
  in_op :: u8
  in_operand :: "u8 list"

definition inner_encoded_len :: "instr \<Rightarrow> nat" where
  "inner_encoded_len i = 1 + length (in_operand i)"

definition encode_bytecode :: "instr list \<Rightarrow> u8 list" where
  "encode_bytecode is = concat (map (\<lambda>i. in_op i # in_operand i) is)"

text \<open>
  The decoder works on the suffix of the stream behind the current position: \<open>take_n\<close>
  is the closure \<open>take\<close>, always relative to the start \<open>i\<close> of the operand.  The inner
  loops of \<open>AGGREGATE\<close> and \<open>CALL\<close> decode the whole remaining stream and use its first
  instruction.  \<open>None\<close> is the panic of a slice that runs past the end of the stream.
\<close>

definition take_n :: "u8 list \<Rightarrow> nat \<Rightarrow> u8 list \<times> nat" where
  "take_n rest n = (take n rest, min n (length rest))"

function (sequential) decode_bytecode :: "u8 list \<Rightarrow> instr list option"
  and decode_operand :: "u8 list \<Rightarrow> u8 \<Rightarrow> (u8 list \<times> nat) option"
  and decode_inner :: "u8 list \<Rightarrow> nat \<Rightarrow> u8 list \<Rightarrow> nat \<Rightarrow> (u8 list \<times> nat) option" where
  "decode_bytecode [] = Some []"
| "decode_bytecode (op # rest) =
    (case decode_operand rest op of
       None \<Rightarrow> None
     | Some (operand, consumed) \<Rightarrow>
         (case decode_bytecode (drop consumed rest) of
            None \<Rightarrow> None
          | Some is \<Rightarrow> Some (\<lparr>in_op = op, in_operand = operand\<rparr> # is)))"
| "decode_operand rest op =
    (if op = OP_LOAD_CONST then Some (take_n rest 8)
     else if op \<in> {OP_LOAD_LOCAL, OP_STORE_LOCAL, OP_JUMP, OP_JUMP_IF, OP_LEN, OP_DISCRIMINANT}
       then Some (take_n rest 4)
     else if op = OP_CAST then Some (take_n rest 1)
     else if op = OP_ASSERT
       then let (a, c1) = take_n rest 1; (b, c2) = take_n rest 4 in Some (a @ b, c1 + c2)
     else if op = OP_AGGREGATE
       then let cnt_bytes = fst (take_n rest 4) in
            if length cnt_bytes = 4
            then decode_inner rest (unat (u32_from_le cnt_bytes)) cnt_bytes 4
            else Some (cnt_bytes, 4)
     else if op = OP_CALL \<or> op = OP_CALL_INDIRECT
       then let cnt_bytes = fst (take_n rest 4) in
            if length cnt_bytes = 4
            then (case decode_inner rest (unat (u32_from_le cnt_bytes)) cnt_bytes 4 of
                    None \<Rightarrow> None
                  | Some (v, consumed) \<Rightarrow>
                      let (r, c) = take_n rest 8 in Some (v @ r, consumed + c))
            else Some (cnt_bytes, 4)
     else if op = OP_SWITCH_INT
       then let cnt_bytes = fst (take_n rest 4) in
            if length cnt_bytes = 4
            then let count = unat (u32_from_le cnt_bytes);
                     (pair, c) = take_n rest 12;
                     (otherwise, c') = take_n rest 4
                 in Some (cnt_bytes @ concat (replicate count pair) @ otherwise, 4 + count * c + c')
            else Some (cnt_bytes, 4)
     else Some ([], 0))"
| "decode_inner rest 0 v consumed = Some (v, consumed)"
| "decode_inner rest (Suc n) v consumed =
    (if length rest \<le> consumed then Some (v, consumed)
     else (case decode_bytecode (drop consumed rest) of
             None \<Rightarrow> None
           | Some [] \<Rightarrow> Some (v, consumed)
           | Some (i # _) \<Rightarrow>
               (let used = inner_encoded_len i in
                if length rest < consumed + used then None
                else decode_inner rest n (v @ take used (drop consumed rest)) (consumed + used))))"
  by pat_completeness auto
termination
  by (relation "measures
       [\<lambda>x. case x of Inl bs \<Rightarrow> 3 * length bs
                    | Inr (Inl (rest, op)) \<Rightarrow> 3 * length rest + 2
                    | Inr (Inr (rest, n, v, c)) \<Rightarrow> 3 * length rest + 1,
        \<lambda>x. case x of Inr (Inr (rest, n, v, c)) \<Rightarrow> n | _ \<Rightarrow> 0]") auto

text \<open>
  The loop of \<open>peephole\<close> over the decoded instructions, with the not yet consumed
  \<open>const_is_int\<close> flags.  \<open>None\<close> is a panic (a truncated constant operand, or
  \<open>fold_int_binop\<close>).
\<close>

definition instr_const :: "instr \<Rightarrow> i64 option" where
  "instr_const i = (if length (in_operand i) < 8 then None
                    else Some (i64_from_le (take 8 (in_operand i))))"

definition next_flag :: "bool list \<Rightarrow> bool \<times> bool list" where
  "next_flag fs = (case fs of [] \<Rightarrow> (False, []) | b # bs \<Rightarrow> (b, bs))"

function (sequential) peephole_loop :: "instr list \<Rightarrow> bool list \<Rightarrow> instr list option" where
  "peephole_loop [] ints = Some []"
| "peephole_loop (i1 # is) ints =
    (if in_op i1 = OP_LOAD_CONST
     then (case instr_const i1 of
             None \<Rightarrow> None
           | Some v \<Rightarrow>
              (let (is_int, ints1) = next_flag ints;
                   keep = map_option (\<lambda>out. i1 # out) (peephole_loop is ints1)
               in case is of
                    i2 # i3 # is' \<Rightarrow>
                      (if is_int \<and> in_op i2 = OP_LOAD_CONST \<and> fst (next_flag ints1)
                          \<and> is_foldable_binop (in_op i3)
                       then (case instr_const i2 of
                               None \<Rightarrow> None
                             | Some v2 \<Rightarrow>
                                (case fold_int_binop (in_op i3) v v2 of
                                   None \<Rightarrow> None
                                 | Some None \<Rightarrow> keep
                                 | Some (Some folded) \<Rightarrow>
                                     map_option (\<lambda>out. \<lparr>in_op = OP_LOAD_CONST,
                                                        in_operand = i64_to_le folded\<rparr> # out)
                                       (peephole_loop is' (snd (next_flag ints1)))))
                       else keep)
                  | _ \<Rightarrow> keep))
     else if in_op i1 = OP_NEG
     then (case is of
             i2 # is' \<Rightarrow>
               (if in_op i2 = OP_NEG then peephole_loop is' ints
                else map_option (\<lambda>out. i1 # out) (peephole_loop is ints))
           | [] \<Rightarrow> map_option (\<lambda>out. i1 # out) (peephole_loop is ints))
     else map_option (\<lambda>out. i1 # out) (peephole_loop is ints))"
  by pat_completeness auto
termination
  by (relation "measure (\<lambda>(is, ints). length is)") auto

declare peephole_loop.simps(2) [simp del]

definition peephole :: "cg_state \<Rightarrow> u8 list \<Rightarrow> cg_failure + u8 list" where
  "peephole s bc =
    (case decode_bytecode bc of
       None \<Rightarrow> Inl CgPanic
     | Some is \<Rightarrow>
         (case peephole_loop is (cg_const_is_int s) of
            None \<Rightarrow> Inl CgPanic
          | Some out \<Rightarrow> Inr (encode_bytecode out)))"

definition generate_function :: "backend \<Rightarrow> body \<Rightarrow> cg_state \<Rightarrow> cg_failure + u8 list \<times> cg_state" where
  "generate_function be bd s =
     rbind (emit_blocks be (bd_locals bd) (bd_blocks bd) (s\<lparr>cg_const_is_int := []\<rparr>)) (\<lambda>(bc, s1).
       if be_opt_level be \<noteq> O0 then rbind (peephole s1 bc) (\<lambda>bc'. Inr (bc', s1))
       else Inr (bc, s1))"

text \<open>A backend with empty tables, and a short instruction stream.\<close>

definition empty_state :: cg_state where
  "empty_state = \<lparr>cg_string_table = [], cg_fn_table = [], cg_const_is_int = []\<rparr>"

definition fold_example :: "instr list" where
  "fold_example = [\<lparr>in_op = OP_LOAD_CONST, in_operand = i64_to_le 3\<rparr>,
     \<lparr>in_op = OP_LOAD_CONST, in_operand = i64_to_le 5\<rparr>, \<lparr>in_op = OP_ADD, in_operand = []\<rparr>]"

end
