(* ===== verification/Codegen_Vm.thy ===== *)
theory Codegen_Vm
  imports Bytecode_Codegen
begin

unbundle bit_operations_syntax

declare vm_steps_trans [trans]

text \<open>
  What the bytecode backend and the machine owe each other: the opcode bytes agree, the
  code emitted for assignments computes the assigned values on the machine, constant
  folding computes what the machine would compute, and the peephole rewriting preserves
  the effect of an instruction sequence.  The rewriting is proved correct against the
  interface \<open>instr_machine\<close> (the three laws of constants, binary operators and
  negation it relies on), which is interpreted on the machine of \<open>Bytecode_Vm\<close>.
\<close>

subsection \<open>Opcode bytes\<close>

lemma OP_opcode:
  "OP_LOAD_CONST = opcode_u8 Opcode_LoadConst" "OP_LOAD_LOCAL = opcode_u8 Opcode_LoadLocal"
  "OP_STORE_LOCAL = opcode_u8 Opcode_StoreLocal" "OP_NEG = opcode_u8 Opcode_Neg"
  "OP_NOT = opcode_u8 Opcode_Not" "OP_JUMP = opcode_u8 Opcode_Jump"
  "OP_JUMP_IF = opcode_u8 Opcode_JumpIf" "OP_CAST = opcode_u8 Opcode_Cast"
  by (simp_all add: OP_defs)

fun binop_opcode :: "bin_op \<Rightarrow> opcode" where
  "binop_opcode Bin_Add = Opcode_Add"
| "binop_opcode Bin_Sub = Opcode_Sub"
| "binop_opcode Bin_Mul = Opcode_Mul"
| "binop_opcode Bin_Div = Opcode_Div"
| "binop_opcode Bin_Rem = Opcode_Rem"
| "binop_opcode Bin_Eq = Opcode_Eq"
| "binop_opcode Bin_Ne = Opcode_Ne"
| "binop_opcode Bin_Lt = Opcode_Lt"
| "binop_opcode Bin_Gt = Opcode_Gt"
| "binop_opcode Bin_LtEq = Opcode_Le"
| "binop_opcode Bin_GtEq = Opcode_Ge"
| "binop_opcode Bin_And = Opcode_And"
| "binop_opcode Bin_Or = Opcode_Or"
| "binop_opcode Bin_BitAnd = Opcode_BitAnd"
| "binop_opcode Bin_BitOr = Opcode_BitOr"
| "binop_opcode Bin_BitXor = Opcode_BitXor"
| "binop_opcode Bin_Shl = Opcode_Shl"
| "binop_opcode Bin_Shr = Opcode_Shr"

lemma binop_byte_opcode: "binop_byte op = opcode_u8 (binop_opcode op)"
  by (cases op) (simp_all add: OP_defs)

subsection \<open>Reference semantics of scalar rvalues\<close>

text \<open>Two's complement arithmetic on 64 bits; a failing division gives 0.\<close>

fun i64_binop :: "bin_op \<Rightarrow> i64 \<Rightarrow> i64 \<Rightarrow> i64" where
  "i64_binop Bin_Add a b = word_of_int (sint a + sint b)"
| "i64_binop Bin_Sub a b = word_of_int (sint a - sint b)"
| "i64_binop Bin_Mul a b = word_of_int (sint a * sint b)"
| "i64_binop Bin_Div a b =
     (if b = 0 \<or> i64_div_overflows a b then 0 else word_of_int (trunc_div (sint a) (sint b)))"
| "i64_binop Bin_Rem a b =
     (if b = 0 \<or> i64_div_overflows a b then 0 else word_of_int (trunc_rem (sint a) (sint b)))"
| "i64_binop Bin_Eq a b = (if sint a = sint b then 1 else 0)"
| "i64_binop Bin_Ne a b = (if sint a = sint b then 0 else 1)"
| "i64_binop Bin_Lt a b = (if sint a < sint b then 1 else 0)"
| "i64_binop Bin_Gt a b = (if sint b < sint a then 1 else 0)"
| "i64_binop Bin_LtEq a b = (if sint b < sint a then 0 else 1)"
| "i64_binop Bin_GtEq a b = (if sint a < sint b then 0 else 1)"
| "i64_binop Bin_And a b = (if a = 0 then 0 else if b = 0 then 0 else 1)"
| "i64_binop Bin_Or a b = (if a = 0 then if b = 0 then 0 else 1 else 1)"
| "i64_binop Bin_BitAnd a b = and a b"
| "i64_binop Bin_BitOr a b = or a b"
| "i64_binop Bin_BitXor a b = xor a b"
| "i64_binop Bin_Shl a b = push_bit (unat b mod 64) a"
| "i64_binop Bin_Shr a b = signed_drop_bit (unat b mod 64) a"

fun i64_unop :: "un_op \<Rightarrow> i64 \<Rightarrow> i64 option" where
  "i64_unop Un_Not a = Some (if a = 0 then 1 else 0)"
| "i64_unop Un_Neg a = Some (word_of_int (- sint a))"
| "i64_unop Un_Deref a = None"

fun const_value :: "mir_const_kind \<Rightarrow> i64 option" where
  "const_value (McInt v) = Some (word_of_int (sint v))"
| "const_value (McUint v) = Some (word_of_nat (unat v))"
| "const_value (McBool b) = Some (bool_word b)"
| "const_value (McChar c) = Some (word_of_nat (unat c))"
| "const_value (McFloatBits b) = Some b"
| "const_value McUnit = Some 0"
| "const_value _ = None"

definition operand_value :: "vm_value list \<Rightarrow> operand \<Rightarrow> vm_value option" where
  "operand_value ls op =
    (case op of
       Constant c \<Rightarrow> map_option VInt (const_value (mc_kind c))
     | Copy p \<Rightarrow> if pl_projection p = [] then get ls (unat (pl_local p)) else None
     | Move p \<Rightarrow> if pl_projection p = [] then get ls (unat (pl_local p)) else None)"

fun rvalue_value :: "vm_value list \<Rightarrow> rvalue \<Rightarrow> vm_value option" where
  "rvalue_value ls (RvUse op) = operand_value ls op"
| "rvalue_value ls (RvBinaryOp op l r) =
     (case (operand_value ls l, operand_value ls r) of
        (Some a, Some b) \<Rightarrow> Some (VInt (i64_binop op (as_int a) (as_int b)))
      | _ \<Rightarrow> None)"
| "rvalue_value ls (RvUnaryOp op x) =
     Option.bind (operand_value ls x) (\<lambda>a. map_option VInt (i64_unop op (as_int a)))"
| "rvalue_value ls _ = None"

text \<open>The effect of a block's statements on a machine frame, where it is scalar.\<close>

fun exec_statements :: "statement list \<Rightarrow> vm_frame \<Rightarrow> vm_frame option" where
  "exec_statements [] fr = Some fr"
| "exec_statements (x # xs) fr =
    (case st_kind x of
       StAssign p rv \<Rightarrow>
         (if pl_projection p = [] then
            (case rvalue_value (fr_locals fr) rv of
               None \<Rightarrow> None
             | Some v \<Rightarrow> (case set_local fr (unat (pl_local p)) v of
                             Inl _ \<Rightarrow> None | Inr fr' \<Rightarrow> exec_statements xs fr'))
          else None)
     | _ \<Rightarrow> exec_statements xs fr)"

lemma shift_mod: "n mod 4294967296 mod 64 = n mod (64::nat)"
  by (simp add: mod_mod_cancel)

lemma sint_eq_iff: "sint a = sint b \<longleftrightarrow> a = (b :: i64)"
  by (auto intro: signed_word_eqI)

lemma ucast_i128: "(ucast (v :: i128) :: i64) = word_of_int (sint v)"
  by transfer (simp add: take_bit_signed_take_bit)

lemma vm_binop_i64: "vm_binop (binop_opcode op) a b = Some (i64_binop op a b)"
  by (cases op) (auto simp: checked_div_i64_def checked_rem_i64_def shift_mod sint_eq_iff)

lemma vm_unop_i64:
  assumes "i64_unop op a = Some r"
  obtains o' where "unop_byte op = opcode_u8 o'" "vm_unop o' a = Some r"
proof (cases op)
  case Un_Not
  with assms that [of Opcode_Not] show thesis by (simp add: OP_opcode bool_word_def)
next
  case Un_Neg
  with assms that [of Opcode_Neg] show thesis by (simp add: OP_opcode)
qed (use assms in simp)

lemma emit_const_scalar:
  assumes "const_value k = Some v"
  obtains b where "emit_const be s (MirConst k t sp) = (load_const v, push_int_flag b s)"
  using assms by (cases k) (simp_all add: ucast_i128)

subsection \<open>Emitted code on the machine\<close>

lemma load_const_steps:
  assumes "in_function m fr f" "code_at (fn_code f) pc (load_const v)"
  shows "vm_steps m (vm_at st fr pc rest) (vm_at (VInt v # st) fr (pc + length (load_const v)) rest)"
  using step_LoadConst [OF assms(1)] assms(2)
  by (simp add: load_const_def OP_opcode vm_steps_one)

lemma load_local_steps:
  assumes "in_function m fr f" "code_at (fn_code f) pc (OP_LOAD_LOCAL # u32_to_le l)"
    and "get (fr_locals fr) (unat l) = Some v"
  shows "vm_steps m (vm_at st fr pc rest) (vm_at (v # st) fr (pc + 5) rest)"
  using step_LoadLocal [OF assms(1), of pc l st rest] assms(2,3)
  by (auto simp: OP_opcode vm_steps_one get_Some)

lemma emit_operand_steps:
  assumes fr: "in_function m fr f" and code: "code_at (fn_code f) pc bs"
    and emit: "emit_operand be tys op s = Inr (bs, s')"
    and v: "operand_value (fr_locals fr) op = Some v"
  shows "vm_steps m (vm_at st fr pc rest) (vm_at (v # st) fr (pc + length bs) rest)"
proof (cases op)
  case (Constant c)
  obtain k t sp where c: "c = MirConst k t sp" by (cases c)
  from v Constant c obtain i where i: "const_value k = Some i" "v = VInt i"
    by (auto simp: operand_value_def)
  from emit_const_scalar [OF i(1)] obtain b where
    "emit_const be s (MirConst k t sp) = (load_const i, push_int_flag b s)" .
  with emit Constant c have "bs = load_const i" by (simp add: emit_operand_def)
  with load_const_steps [OF fr] code i(2) show ?thesis by simp
qed (use emit v code load_local_steps [OF fr] in
      \<open>auto simp: emit_operand_def operand_value_def split: if_splits\<close>)

lemma emit_rvalue_steps:
  assumes fr: "in_function m fr f" and code: "code_at (fn_code f) pc bs"
    and emit: "emit_rvalue be tys rv s = Inr (bs, s')"
    and v: "rvalue_value (fr_locals fr) rv = Some v"
  shows "vm_steps m (vm_at st fr pc rest) (vm_at (v # st) fr (pc + length bs) rest)"
proof (cases rv)
  case (RvUse op)
  with assms show ?thesis by (auto intro: emit_operand_steps)
next
  case (RvBinaryOp op l r)
  from v RvBinaryOp obtain a b where ab: "operand_value (fr_locals fr) l = Some a"
    "operand_value (fr_locals fr) r = Some b" "v = VInt (i64_binop op (as_int a) (as_int b))"
    by (auto split: option.splits)
  from emit RvBinaryOp obtain b1 s1 b2 s2 where e: "emit_operand be tys l s = Inr (b1, s1)"
    "emit_operand be tys r s1 = Inr (b2, s2)" "bs = b1 @ b2 @ [binop_byte op]"
    by (auto simp: result_simps)
  note c1 = code [unfolded e(3)]
  note c2 = code_at_append(2) [OF c1]
  have "vm_steps m (vm_at st fr pc rest) (vm_at (a # st) fr (pc + length b1) rest)"
    by (rule emit_operand_steps [OF fr code_at_append(1) [OF c1] e(1) ab(1)])
  also have "vm_steps m \<dots> (vm_at (b # a # st) fr (pc + length b1 + length b2) rest)"
    by (rule emit_operand_steps [OF fr code_at_append(1) [OF c2] e(2) ab(2)])
  also have "vm_steps m \<dots> (vm_at (v # st) fr (pc + length b1 + length b2 + 1) rest)"
    unfolding ab(3)
    by (rule vm_steps_one, rule step_binary [OF fr _ vm_binop_i64])
       (use code_at_append(2) [OF c2] in \<open>simp add: binop_byte_opcode\<close>)
  finally show ?thesis by (simp add: e(3) add.assoc)
next
  case (RvUnaryOp op x)
  from v RvUnaryOp obtain a r where a: "operand_value (fr_locals fr) x = Some a"
    "i64_unop op (as_int a) = Some r" "v = VInt r"
    by (auto simp: bind_eq_Some_conv)
  from emit RvUnaryOp obtain b1 where e: "emit_operand be tys x s = Inr (b1, s')"
    "bs = b1 @ [unop_byte op]"
    by (auto simp: emit_then_def result_simps)
  from vm_unop_i64 [OF a(2)] obtain o' where o': "unop_byte op = opcode_u8 o'"
    "vm_unop o' (as_int a) = Some r" .
  note c1 = code [unfolded e(2)]
  have "vm_steps m (vm_at st fr pc rest) (vm_at (a # st) fr (pc + length b1) rest)"
    by (rule emit_operand_steps [OF fr code_at_append(1) [OF c1] e(1) a(1)])
  also have "vm_steps m \<dots> (vm_at (v # st) fr (pc + length b1 + 1) rest)"
    unfolding a(3)
    by (rule vm_steps_one, rule step_unary [OF fr _ o'(2)])
       (use code_at_append(2) [OF c1] o'(1) in simp)
  finally show ?thesis by (simp add: e(2))
qed (use v in simp_all)

lemma emit_assign_steps:
  assumes fr: "in_function m fr f" and code: "code_at (fn_code f) pc bs"
    and emit: "emit_statement be tys (StAssign p rv) s = Inr (bs, s')"
    and p: "pl_projection p = []"
    and v: "rvalue_value (fr_locals fr) rv = Some v"
    and fr': "set_local fr (unat (pl_local p)) v = Inr fr'"
  shows "vm_steps m (vm_at st fr pc rest) (vm_at st fr' (pc + length bs) rest)"
proof -
  from emit p obtain b where e: "emit_rvalue be tys rv s = Inr (b, s')"
    "bs = b @ OP_STORE_LOCAL # u32_to_le (pl_local p)"
    by (auto simp: emit_statement_def result_simps)
  note c1 = code [unfolded e(2)]
  have "vm_steps m (vm_at st fr pc rest) (vm_at (v # st) fr (pc + length b) rest)"
    by (rule emit_rvalue_steps [OF fr code_at_append(1) [OF c1] e(1) v])
  also have "vm_steps m \<dots> (vm_at st fr' (pc + length b + 5) rest)"
    by (rule vm_steps_one, rule step_StoreLocal [OF fr _ fr'])
       (use code_at_append(2) [OF c1] in \<open>simp add: OP_opcode\<close>)
  finally show ?thesis by (simp add: e(2) add.assoc)
qed

subsection \<open>Peephole rewriting over an abstract instruction machine\<close>

fun run_instrs :: "(instr \<Rightarrow> 's \<Rightarrow> 's option) \<Rightarrow> instr list \<Rightarrow> 's \<Rightarrow> 's option" where
  "run_instrs exec [] s = Some s"
| "run_instrs exec (i # is) s = Option.bind (exec i s) (run_instrs exec is)"

text \<open>Along the run every negation meets an integer on top of the operand stack.\<close>

fun negs_typed ::
  "(instr \<Rightarrow> 's \<Rightarrow> 's option) \<Rightarrow> ('s \<Rightarrow> bool) \<Rightarrow> instr list \<Rightarrow> 's \<Rightarrow> bool" where
  "negs_typed exec int_top [] s = True"
| "negs_typed exec int_top (i # is) s =
    ((in_op i = OP_NEG \<longrightarrow> int_top s) \<and>
     (case exec i s of None \<Rightarrow> True | Some s' \<Rightarrow> negs_typed exec int_top is s'))"

text \<open>Operand widths the decoder guarantees for the instructions the pass rewrites.\<close>

definition instr_wf :: "instr \<Rightarrow> bool" where
  "instr_wf i \<longleftrightarrow>
     (in_op i = OP_LOAD_CONST \<longrightarrow> length (in_operand i) = 8) \<and>
     (in_op i = OP_NEG \<or> is_foldable_binop (in_op i) \<longrightarrow> in_operand i = [])"

lemma fold_int_binop_sound:
  assumes "fold_int_binop b x y = Some (Some r)"
  obtains op where "from_u8 b = Some op" "vm_binop op x y = Some r"
proof -
  have "\<exists>op. b = opcode_u8 op \<and> vm_binop op x y = Some r"
  proof (rule ccontr)
    assume *: "\<not> ?thesis"
    have n: "b = opcode_u8 op \<Longrightarrow> vm_binop op x y \<noteq> Some r" for op using * by blast
    from assms show False
      using n [of Opcode_Add] n [of Opcode_Sub] n [of Opcode_Mul] n [of Opcode_Div]
        n [of Opcode_Rem] n [of Opcode_Eq] n [of Opcode_Ne] n [of Opcode_Lt] n [of Opcode_Gt]
        n [of Opcode_Le] n [of Opcode_Ge] n [of Opcode_And] n [of Opcode_Or] n [of Opcode_BitAnd]
        n [of Opcode_BitOr] n [of Opcode_BitXor] n [of Opcode_Shl] n [of Opcode_Shr]
      by (auto simp: fold_int_binop_def OP_defs split: if_splits)
  qed
  then show thesis using that by auto
qed

text \<open>What one turn of the peephole loop can do.\<close>

lemma peephole_loop_cases:
  assumes "peephole_loop (i1 # is) ints = Some out"
  obtains (keep) ints' out' where "out = i1 # out'" "peephole_loop is ints' = Some out'"
  | (fold) i2 i3 is' ints' out' v v2 r where "is = i2 # i3 # is'"
      "in_op i1 = OP_LOAD_CONST" "in_op i2 = OP_LOAD_CONST" "is_foldable_binop (in_op i3)"
      "instr_const i1 = Some v" "instr_const i2 = Some v2"
      "fold_int_binop (in_op i3) v v2 = Some (Some r)"
      "out = \<lparr>in_op = OP_LOAD_CONST, in_operand = i64_to_le r\<rparr> # out'"
      "peephole_loop is' ints' = Some out'"
  | (neg) i2 is' where "is = i2 # is'" "in_op i1 = OP_NEG" "in_op i2 = OP_NEG"
      "peephole_loop is' ints = Some out"
proof -
  have neq: "OP_LOAD_CONST \<noteq> OP_NEG" by (simp add: OP_defs)
  from assms show thesis
    unfolding peephole_loop.simps(2)
    by (auto simp: Let_def neq split: if_splits option.splits prod.splits list.splits
        intro: keep fold neg)
qed

locale instr_machine =
  fixes exec :: "instr \<Rightarrow> 's \<Rightarrow> 's option"
    and push :: "i64 \<Rightarrow> 's \<Rightarrow> 's"
    and int_top :: "'s \<Rightarrow> bool"
  assumes exec_const:
    "in_op i = OP_LOAD_CONST \<Longrightarrow> length (in_operand i) = 8 \<Longrightarrow>
     exec i s = Some (push (i64_from_le (in_operand i)) s)"
    and exec_binop:
    "from_u8 (in_op i) = Some op \<Longrightarrow> in_operand i = [] \<Longrightarrow> vm_binop op a b = Some r \<Longrightarrow>
     exec i (push b (push a s)) = Some (push r s)"
    and exec_neg_neg:
    "in_op i = OP_NEG \<Longrightarrow> in_operand i = [] \<Longrightarrow> int_top s \<Longrightarrow> Option.bind (exec i s) (exec i) = Some s"
begin

lemma run_fold:
  assumes "in_op i1 = OP_LOAD_CONST" "in_op i2 = OP_LOAD_CONST"
    and "length (in_operand i1) = 8" "length (in_operand i2) = 8" "in_operand i3 = []"
    and "from_u8 (in_op i3) = Some op"
    and "vm_binop op (i64_from_le (in_operand i1)) (i64_from_le (in_operand i2)) = Some r"
  shows "run_instrs exec (i1 # i2 # i3 # is) s
    = run_instrs exec (\<lparr>in_op = OP_LOAD_CONST, in_operand = i64_to_le r\<rparr> # is) s"
  using assms exec_const [of "\<lparr>in_op = OP_LOAD_CONST, in_operand = i64_to_le r\<rparr>" s]
  by (simp add: exec_const exec_binop)

lemma negs_typed_fold:
  assumes "in_op i1 = OP_LOAD_CONST" "in_op i2 = OP_LOAD_CONST"
    and "length (in_operand i1) = 8" "length (in_operand i2) = 8" "in_operand i3 = []"
    and "from_u8 (in_op i3) = Some op"
    and "vm_binop op (i64_from_le (in_operand i1)) (i64_from_le (in_operand i2)) = Some r"
    and "negs_typed exec int_top (i1 # i2 # i3 # is) s"
  shows "negs_typed exec int_top is (push r s)"
  using assms by (simp add: exec_const exec_binop)

lemma run_neg_neg:
  assumes "in_op i1 = OP_NEG" "in_op i2 = OP_NEG" "in_operand i1 = []" "in_operand i2 = []"
    and "negs_typed exec int_top (i1 # i2 # is) s"
  shows "run_instrs exec (i1 # i2 # is) s = run_instrs exec is s \<and> negs_typed exec int_top is s"
proof -
  from assms(1-4) have i2: "i2 = i1" by simp
  from assms(1,5) have "int_top s" by simp
  with assms(1,3) have "Option.bind (exec i1 s) (exec i1) = Some s" by (rule exec_neg_neg)
  then obtain s1 where "exec i1 s = Some s1" "exec i1 s1 = Some s"
    by (auto simp: bind_eq_Some_conv)
  with assms(5) i2 show ?thesis by simp
qed

lemma peephole_run:
  assumes "peephole_loop ins ints = Some out" "list_all instr_wf ins"
    and "negs_typed exec int_top ins s"
  shows "run_instrs exec out s = run_instrs exec ins s"
  using assms
proof (induction ins arbitrary: ints out s rule: length_induct)
  case (1 ins)
  show ?case
  proof (cases ins)
    case Nil
    with "1.prems" show ?thesis by simp
  next
    case (Cons i1 ins1)
    note wf = "1.prems"(2) [unfolded Cons]
    from "1.prems"(1) [unfolded Cons] show ?thesis
    proof (cases rule: peephole_loop_cases)
      case (keep ints' out')
      have "run_instrs exec out' s' = run_instrs exec ins1 s'" if "exec i1 s = Some s'" for s'
        using "1.IH" Cons keep(2) wf "1.prems"(3) that by auto
      with keep(1) Cons show ?thesis by (cases "exec i1 s") auto
    next
      case (fold i2 i3 ins' ints' out' v v2 r)
      from wf fold have l: "length (in_operand i1) = 8" "length (in_operand i2) = 8" "in_operand i3 = []"
        by (auto simp: instr_wf_def)
      with fold(5,6) have v: "v = i64_from_le (in_operand i1)" "v2 = i64_from_le (in_operand i2)"
        by (auto simp: instr_const_def split: if_splits)
      from fold_int_binop_sound [OF fold(7)] obtain op where
        op: "from_u8 (in_op i3) = Some op" "vm_binop op v v2 = Some r" .
      have typed: "negs_typed exec int_top ins' (push r s)"
        using negs_typed_fold [OF fold(2,3) l op(1) op(2) [unfolded v]] "1.prems"(3) Cons fold(1) by simp
      have "run_instrs exec out' (push r s) = run_instrs exec ins' (push r s)"
        using "1.IH" Cons fold(1,9) wf typed by auto
      moreover have "run_instrs exec ins s
          = run_instrs exec (\<lparr>in_op = OP_LOAD_CONST, in_operand = i64_to_le r\<rparr> # ins') s"
        unfolding Cons fold(1) by (rule run_fold [OF fold(2,3) l op(1) op(2) [unfolded v]])
      ultimately show ?thesis using fold(8)
        exec_const [of "\<lparr>in_op = OP_LOAD_CONST, in_operand = i64_to_le r\<rparr>" s] by simp
    next
      case (neg i2 ins')
      from wf neg have "in_operand i1 = []" "in_operand i2 = []" by (auto simp: instr_wf_def)
      from run_neg_neg [OF neg(2,3) this] "1.prems"(3) Cons neg(1)
      have "run_instrs exec ins s = run_instrs exec ins' s" "negs_typed exec int_top ins' s" by auto
      with "1.IH" Cons neg(1,4) wf show ?thesis by auto
    qed
  qed
qed

end

subsection \<open>The machine of the development implements the interface\<close>

text \<open>
  One instruction on the bytecode machine: the effect of \<open>drive_step\<close> on the operand
  stack, the locals and the memory of a frame whose function consists of that instruction,
  provided control falls through to the end of it.
\<close>

definition instr_module :: "instr \<Rightarrow> vm_module" where
  "instr_module i = \<lparr>md_functions = [function_new (in_op i # in_operand i) 0 0], md_entry = 0\<rparr>"

type_synonym data_state = "vm_value list \<times> vm_value list \<times> vm_value list"

definition data_frame :: "data_state \<Rightarrow> vm_frame" where
  "data_frame s = \<lparr>fr_locals = fst (snd s), fr_mem = snd (snd s), fr_func = 0, fr_pc = 0,
     fr_resume_target = 0, fr_dest_local = 0\<rparr>"

definition vm_exec_instr :: "instr \<Rightarrow> data_state \<Rightarrow> data_state option" where
  "vm_exec_instr i s =
    (case drive_step (instr_module i) (vm_at (fst s) (data_frame s) 0 []) of
       Inr (Next vm') \<Rightarrow>
         (case vm_frames vm' of
            [fr'] \<Rightarrow> if fr_pc fr' = inner_encoded_len i
                      then Some (vm_stack vm', fr_locals fr', fr_mem fr') else None
          | _ \<Rightarrow> None)
     | _ \<Rightarrow> None)"

definition push_int :: "i64 \<Rightarrow> data_state \<Rightarrow> data_state" where
  "push_int v s = (VInt v # fst s, snd s)"

definition int_on_top :: "data_state \<Rightarrow> bool" where
  "int_on_top s \<longleftrightarrow> (case fst s of VInt _ # _ \<Rightarrow> True | _ \<Rightarrow> False)"

lemma instr_in_function:
  "in_function (instr_module i) (data_frame s) (function_new (in_op i # in_operand i) 0 0)"
  by (simp add: in_function_def instr_module_def data_frame_def get_def)

lemma instr_code_at: "code_at (fn_code (function_new (in_op i # in_operand i) 0 0)) 0 (in_op i # in_operand i)"
  by (auto simp: code_at_def function_new_def)

lemma vm_exec_instr_Some:
  assumes "drive_step (instr_module i) (vm_at (fst s) (data_frame s) 0 [])
    = Inr (Next (vm_at st (data_frame s) (inner_encoded_len i) []))"
  shows "vm_exec_instr i s = Some (st, snd s)"
  using assms by (simp add: vm_exec_instr_def vm_at_def data_frame_def)

interpretation vm_instr: instr_machine vm_exec_instr push_int int_on_top
proof
  fix i :: instr and s
  assume i: "in_op i = OP_LOAD_CONST" "length (in_operand i) = 8"
  then have "i64_to_le (i64_from_le (in_operand i)) = in_operand i"
    using le_val_bound [of "in_operand i"] le_bytes_le_val [of "in_operand i"]
    by (simp add: i64_to_le_def i64_from_le_def unat_of_nat)
  then have "drive_step (instr_module i) (vm_at (fst s) (data_frame s) 0 [])
    = Inr (Next (vm_at (VInt (i64_from_le (in_operand i)) # fst s) (data_frame s) (0 + 9) []))"
    using step_LoadConst [OF instr_in_function [of i s], of 0 "i64_from_le (in_operand i)" "fst s" "[]"]
      instr_code_at [of i] i(1) by (simp add: OP_opcode)
  with i(2) have "vm_exec_instr i s = Some (VInt (i64_from_le (in_operand i)) # fst s, snd s)"
    by (intro vm_exec_instr_Some) (simp add: inner_encoded_len_def)
  then show "vm_exec_instr i s = Some (push_int (i64_from_le (in_operand i)) s)"
    by (simp add: push_int_def)
next
  fix i :: instr and op a b r s
  assume i: "from_u8 (in_op i) = Some op" "in_operand i = []" and r: "vm_binop op a b = Some r"
  have c: "code_at (fn_code (function_new (in_op i # in_operand i) 0 0)) 0 (opcode_u8 op # [])"
    using instr_code_at [of i] i opcode_u8_from_u8 by simp
  have "drive_step (instr_module i)
      (vm_at (VInt b # VInt a # fst s) (data_frame (push_int b (push_int a s))) 0 [])
    = Inr (Next (vm_at (VInt r # fst s) (data_frame (push_int b (push_int a s))) (0 + 1) []))"
    by (rule step_binary [OF instr_in_function c]) (simp add: as_int_def r)
  then show "vm_exec_instr i (push_int b (push_int a s)) = Some (push_int r s)"
    using i(2) vm_exec_instr_Some [of i "push_int b (push_int a s)" "VInt r # fst s"]
    by (simp add: push_int_def inner_encoded_len_def)
next
  fix i :: instr and s
  assume i: "in_op i = OP_NEG" "in_operand i = []" and top: "int_on_top s"
  then obtain a st where s: "fst s = VInt a # st"
    by (auto simp: int_on_top_def split: list.splits vm_value.splits)
  have c: "code_at (fn_code (function_new (in_op i # in_operand i) 0 0)) 0 (opcode_u8 Opcode_Neg # [])"
    using instr_code_at [of i] i by (simp add: OP_opcode)
  have neg: "vm_exec_instr i t = Some (VInt (- x) # st, snd t)" if "fst t = VInt x # st" for t x
  proof -
    have "drive_step (instr_module i) (vm_at (VInt x # st) (data_frame t) 0 [])
      = Inr (Next (vm_at (VInt (- x) # st) (data_frame t) (0 + 1) []))"
      by (rule step_unary [OF instr_in_function c]) (simp add: as_int_def)
    with that i(2) show ?thesis by (simp add: vm_exec_instr_Some inner_encoded_len_def)
  qed
  show "Option.bind (vm_exec_instr i s) (vm_exec_instr i) = Some s"
    using neg [OF s] neg [of "(VInt (- a) # st, snd s)" "- a"] s by (simp add: prod_eq_iff)
qed

subsection \<open>Properties\<close>

lemma exec_statements_evolves: "exec_statements xs fr = Some fr' \<Longrightarrow> frame_evolves fr fr'"
proof (induction xs arbitrary: fr)
  case (Cons x xs)
  then show ?case
    by (auto split: statement_kind.splits if_splits option.splits sum.splits
        dest!: set_local_evolves intro: frame_evolves_trans)
qed simp

lemma emit_statements_steps:
  assumes "in_function m fr f" "code_at (fn_code f) pc bs"
    and "emit_statements be tys xs s = Inr (bs, s')"
    and "exec_statements xs fr = Some fr'"
  shows "vm_steps m (vm_at st fr pc rest) (vm_at st fr' (pc + length bs) rest)"
  using assms
proof (induction xs arbitrary: fr pc bs s)
  case (Cons x xs)
  from Cons.prems(3) obtain b1 s1 b2 where e: "emit_statement be tys (st_kind x) s = Inr (b1, s1)"
    "emit_statements be tys xs s1 = Inr (b2, s')" "bs = b1 @ b2"
    by (auto simp: result_simps)
  note c = Cons.prems(2) [unfolded e(3)]
  show ?case
  proof (cases "st_kind x")
    case (StAssign p rv)
    with Cons.prems(4) obtain v fr1 where p: "pl_projection p = []"
      "rvalue_value (fr_locals fr) rv = Some v" "set_local fr (unat (pl_local p)) v = Inr fr1"
      "exec_statements xs fr1 = Some fr'"
      by (auto split: if_splits option.splits sum.splits)
    have "vm_steps m (vm_at st fr pc rest) (vm_at st fr1 (pc + length b1) rest)"
      by (rule emit_assign_steps [OF Cons.prems(1) code_at_append(1) [OF c] e(1) [unfolded StAssign] p(1-3)])
    also have "vm_steps m \<dots> (vm_at st fr' (pc + length b1 + length b2) rest)"
      by (rule Cons.IH [OF _ code_at_append(2) [OF c] e(2) p(4)])
         (use Cons.prems(1) set_local_evolves [OF p(3)] in \<open>simp add: in_function_evolves\<close>)
    finally show ?thesis by (simp add: e(3) add.assoc)
  qed (use Cons.IH [OF Cons.prems(1) _ e(2)] c Cons.prems(4) e in
        \<open>auto simp: emit_statement_def\<close>)
qed simp


definition plain_backend :: backend where
  "plain_backend = \<lparr>be_layout_provider = \<lparr>lp_field_offset = (\<lambda>_ _. 0), lp_size_of = (\<lambda>_. 0),
     lp_tag_offset = (\<lambda>_. 0)\<rparr>, be_ty_ctx = None, be_opt_level = O1\<rparr>"

definition int_const :: "int \<Rightarrow> mir_const" where
  "int_const v = MirConst (McInt (word_of_int v)) 11 span_DUMMY"

definition assign_example :: "statement list" where
  "assign_example =
    [\<lparr>st_kind = StAssign (place_new 0) (RvBinaryOp Bin_Add (Constant (int_const 3)) (Constant (int_const 4))),
      st_span = span_DUMMY\<rparr>]"


text \<open>
  Constant folding is exact: whenever \<open>fold_int_binop\<close> yields a constant, the
  byte is an opcode of the machine and the machine computes the same word from the same
  operands.
\<close>

theorem fold_int_binop_agrees:
  assumes "fold_int_binop b x y = Some (Some r)"
  shows "\<exists>op. from_u8 b = Some op \<and> vm_binop op x y = Some r"
  using fold_int_binop_sound [OF assms] by blast

lemma fold_int_binop_agrees_witness:
  "fold_int_binop OP_DIV 7 2 = Some (Some 3) \<and>
   (\<exists>op. from_u8 OP_DIV = Some op \<and> vm_binop op 7 2 = Some 3)"
proof -
  have h: "fold_int_binop OP_DIV 7 2 = Some (Some 3)"
    by (simp add: fold_int_binop_def OP_defs checked_div_i64_def i64_div_overflows_def trunc_div_def)
  with fold_int_binop_agrees [OF h] show ?thesis by blast
qed



end
