(* ===== verification/Bytecode_Codec.thy ===== *)
theory Bytecode_Codec
  imports Bytecode_Codegen
begin

text \<open>
  The instruction codec of the peephole pass (\<open>encode_bytecode\<close>, \<open>decode_bytecode\<close>,
  \<open>decode_operand\<close> of \<open>glyim-codegen/src/lib.rs\<close>) and the interning tables of the
  backend: the round trip on instructions of fixed width, the stability of the tables, and
  the instructions the decoder misreads.
\<close>

declare decode_operand.simps [simp del]

lemmas decode_operand_eq = decode_operand.simps

text \<open>Operand widths of the decoder, for the opcodes of fixed width.\<close>

definition operand_width :: "u8 \<Rightarrow> nat option" where
  "operand_width op =
    (if op = OP_LOAD_CONST then Some 8
     else if op \<in> {OP_LOAD_LOCAL, OP_STORE_LOCAL, OP_JUMP, OP_JUMP_IF, OP_LEN, OP_DISCRIMINANT} then Some 4
     else if op = OP_CAST then Some 1
     else if op \<in> {OP_ASSERT, OP_AGGREGATE, OP_CALL, OP_CALL_INDIRECT, OP_SWITCH_INT} then None
     else Some 0)"

definition fixed_wf :: "instr \<Rightarrow> bool" where
  "fixed_wf i \<longleftrightarrow> operand_width (in_op i) = Some (length (in_operand i))"

lemma decode_operand_fixed:
  assumes "operand_width op = Some n"
  shows "decode_operand rest op = Some (take n rest, min n (length rest))"
proof -
  let ?four = "{OP_LOAD_LOCAL, OP_STORE_LOCAL, OP_JUMP, OP_JUMP_IF, OP_LEN, OP_DISCRIMINANT}"
  let ?nested = "{OP_ASSERT, OP_AGGREGATE, OP_CALL, OP_CALL_INDIRECT, OP_SWITCH_INT}"
  consider "op = OP_LOAD_CONST" | "op \<noteq> OP_LOAD_CONST" "op \<in> ?four"
    | "op \<noteq> OP_LOAD_CONST" "op \<notin> ?four" "op = OP_CAST"
    | "op \<noteq> OP_LOAD_CONST" "op \<notin> ?four" "op \<noteq> OP_CAST" "op \<in> ?nested"
    | "op \<noteq> OP_LOAD_CONST" "op \<notin> ?four" "op \<noteq> OP_CAST" "op \<notin> ?nested"
    by blast
  then show ?thesis
    using assms unfolding operand_width_def decode_operand_eq
    by cases (simp_all only: if_True if_False option.inject option.distinct take_n_def, simp_all)
qed

lemma decode_encode: "list_all fixed_wf ins \<Longrightarrow> decode_bytecode (encode_bytecode ins) = Some ins"
proof (induction ins)
  case (Cons i ins)
  then have "decode_operand (in_operand i @ encode_bytecode ins) (in_op i)
      = Some (in_operand i, length (in_operand i))"
    by (simp add: fixed_wf_def decode_operand_fixed)
  with Cons show ?case by (simp add: encode_bytecode_def)
qed (simp add: encode_bytecode_def)

text \<open>
  Decoding inverts encoding on every stream of fixed-width instructions: the peephole
  pass sees exactly the instructions that were encoded, so a stream it does not rewrite is
  written back unchanged.
\<close>

theorem decode_encode_roundtrip:
  assumes "list_all fixed_wf ins"
  shows "decode_bytecode (encode_bytecode ins) = Some ins"
  by (rule decode_encode [OF assms])

lemma decode_encode_roundtrip_witness:
  "decode_bytecode (encode_bytecode fold_example) = Some fold_example"
  by (rule decode_encode_roundtrip)
     (simp add: fold_example_def fixed_wf_def operand_width_def OP_defs)

lemma find_from_Some:
  "find_from i x ys = Some j \<Longrightarrow> i \<le> j \<and> j < i + length ys \<and> ys ! (j - i) = x"
proof (induction ys arbitrary: i)
  case (Cons y ys)
  show ?case
  proof (cases "y = x")
    case False
    with Cons.prems have "Suc i \<le> j \<and> j < Suc i + length ys \<and> ys ! (j - Suc i) = x"
      using Cons.IH [of "i + 1"] by simp
    then show ?thesis by (auto simp: nth_Cons')
  qed (use Cons.prems in auto)
qed simp

lemma find_from_None: "find_from i x ys = None \<longleftrightarrow> x \<notin> set ys"
  by (induction ys arbitrary: i) auto

text \<open>
  The interning tables of the backend (string constants, function references) are
  stable and free of duplicates: the index \<open>intern\<close> returns denotes the interned entry,
  every earlier index keeps its entry, a known entry leaves the table as it is, and distinct
  entries stay distinct.
\<close>

theorem intern_stable:
  assumes "intern table x = (i, table')" and "length table < 2 ^ 32"
  shows "unat i < length table' \<and> table' ! unat i = x \<and> take (length table) table' = table \<and>
    (x \<in> set table \<longrightarrow> table' = table) \<and> (distinct table \<longrightarrow> distinct table')"
proof (cases "find_from 0 x table")
  case None
  with assms show ?thesis by (auto simp: intern_def find_from_None unat_of_nat)
next
  case (Some j)
  with find_from_Some [OF Some] assms show ?thesis by (auto simp: intern_def unat_of_nat)
qed

lemma intern_stable_witness:
  "fst (intern [''a'', ''b''] ''b'') = 1 \<and>
   (let t' = snd (intern [''a'', ''b''] ''b'') in unat (1::u32) < length t' \<and> t' ! unat (1::u32) = ''b'')"
proof -
  have h: "intern [''a'', ''b''] ''b'' = (1, [''a'', ''b''])"
    by (simp add: intern_def)
  from intern_stable [OF h] show ?thesis using h by simp
qed

subsection \<open>Where the peephole decoder and the emitter disagree\<close>

text \<open>
  The operand of \<open>OP_ASSERT\<close> is decoded with both reads starting at the same byte, so the
  pass writes the instruction back with its target shifted by one byte: an assertion that
  continues at block 5 is rewritten to continue at block 1281.
\<close>

lemma peephole_corrupts_assert:
  "peephole empty_state (OP_ASSERT # 1 # u32_to_le 5)
     = Inr (OP_ASSERT # 1 # u32_to_le (5 * 256 + 1))"
  by code_simp

text \<open>
  The decoder gives \<open>OP_LOAD_LOCAL_ADDR\<close> no operand although the emitter writes four
  bytes, so the index bytes are read as opcodes: the address of local 4112 loses two of its
  bytes to the double negation rule.
\<close>

lemma peephole_corrupts_local_addr:
  "peephole empty_state (OP_LOAD_LOCAL_ADDR # u32_to_le 0x1010)
     = Inr [OP_LOAD_LOCAL_ADDR, 0, 0]"
  by code_simp

text \<open>A constant remainder by zero panics in the pass instead of being left to the machine.\<close>

lemma peephole_rem_zero_panics:
  "peephole (empty_state\<lparr>cg_const_is_int := [True, True]\<rparr>)
     (load_const 5 @ load_const 0 @ [OP_REM]) = Inl CgPanic"
  by code_simp

end
