(* ===== verification/Opt_Pipeline.thy ===== *)
theory Opt_Pipeline
  imports Opt_ConstProp
begin

text \<open>
  The optimizer (\<^verbatim>\<open>crates/glyim-opt/src/lib.rs\<close>): validation, slice desugaring, the check
  that no sub-slice survives, constant propagation, dead-code elimination and the two block
  graph passes, in this order.  \<open>None\<close> is a panic.
\<close>

definition optimize :: "nat \<Rightarrow> float_ops \<Rightarrow> ty_ctx \<Rightarrow> body \<Rightarrow> body option" where
  "optimize fuel fo ctx body =
    (case validate_body fuel ctx body of
       None \<Rightarrow> None
     | Some (Inl e) \<Rightarrow> None
     | Some (Inr _) \<Rightarrow>
        (case slice_desugar ctx body of
           None \<Rightarrow> None
         | Some body1 \<Rightarrow>
            (case validate_no_subslice (bd_blocks body1) of
               Inl e \<Rightarrow> None
             | Inr _ \<Rightarrow>
                (case constant_prop fo body1 of
                   None \<Rightarrow> None
                 | Some body2 \<Rightarrow>
                    (let body3 = dce body2;
                         blocks4 = cfg_simplify (bd_blocks body3)
                     in map_option (\<lambda>blocks5. body3\<lparr>bd_blocks := blocks5\<rparr>) (unreachable_elim blocks4))))))"

subsection \<open>The block graph through the statement passes\<close>

definition block_targets :: "basic_block list \<Rightarrow> u32 list list" where
  "block_targets bl = map (\<lambda>b. terminator_successors (bb_terminator b)) bl"

lemma succs_targets: "i < length bl \<Longrightarrow> succs bl i = map unat (block_targets bl ! i)"
  by (simp add: succs_def block_targets_def)

lemma cfg_wf_targets:
  assumes "block_targets a = block_targets b"
  shows "cfg_wf a \<longleftrightarrow> cfg_wf b"
proof -
  have len: "length a = length b" using arg_cong [OF assms, of length] by (simp add: block_targets_def)
  then have "a = [] \<longleftrightarrow> b = []" by auto
  then show ?thesis using len by (simp add: cfg_wf_def succs_targets assms)
qed

lemma validated_cfg_wf:
  assumes "validate_body fuel ctx bd = Some (Inr ())" "bd_blocks bd \<noteq> []" "length (bd_blocks bd) \<le> 2 ^ 32"
  shows "cfg_wf (bd_blocks bd)"
  using assms validated_targets [OF assms(1)] by (auto simp: cfg_wf_def)

lemma slice_desugar_targets:
  "slice_desugar ctx bd = Some bd' \<Longrightarrow> block_targets (bd_blocks bd') = block_targets (bd_blocks bd)"
  by (auto simp: slice_desugar_def block_targets_def dest!: desugar_blocks_ok)

lemma replace_block_terminator [simp]: "bb_terminator (replace_block x b) = bb_terminator b"
  by (simp add: replace_block_def split: option.splits)

lemma constant_prop_targets:
  assumes "constant_prop fo bd = Some bd'"
  shows "block_targets (bd_blocks bd') = block_targets (bd_blocks bd)"
proof (cases "bd_blocks bd = []")
  case True
  then show ?thesis using assms by (simp add: constant_prop_def)
next
  case False
  then obtain maps where
    it: "cp_iterate MAX_ITERATIONS fo bd (predecessors (bd_blocks bd)) (replicate (length (bd_blocks bd)) None) = Some maps"
    and bd': "bd' = bd\<lparr>bd_blocks := map2 replace_block maps (bd_blocks bd)\<rparr>"
    using assms by (auto simp: constant_prop_def split: option.splits)
  have "length maps = length (bd_blocks bd)" using cp_iterate_length [OF it] by simp
  then show ?thesis by (simp add: bd' block_targets_def list_eq_iff_nth_eq)
qed

lemma dce_targets [simp]: "block_targets (bd_blocks (dce bd)) = block_targets (bd_blocks bd)"
  by (simp add: dce_def Let_def block_targets_def dce_block_def)

lemma optimizeE:
  assumes "optimize fuel fo ctx bd = Some r"
  obtains bd1 bd2 bl where "validate_body fuel ctx bd = Some (Inr ())" "slice_desugar ctx bd = Some bd1"
    "validate_no_subslice (bd_blocks bd1) = Inr ()" "constant_prop fo bd1 = Some bd2"
    "unreachable_elim (cfg_simplify (bd_blocks (dce bd2))) = Some bl" "r = (dce bd2)\<lparr>bd_blocks := bl\<rparr>"
  using assms by (auto simp: optimize_def Let_def split: option.splits sum.splits)

text \<open>
  C30.  The optimizer keeps bodies well formed and its graph passes keep their meaning: from
  a non-empty body it accepts, it produces a body in which every jump target exists and every
  block is reachable from the entry, and whose complete and partial traces are those of the
  body that the statement passes (slice desugaring, constant propagation and dead-code
  elimination) handed to the graph passes, a body with the jumps of the original.
\<close>

theorem optimize_graph:
  assumes "optimize fuel fo ctx bd = Some r" and "bd_blocks bd \<noteq> []" and "length (bd_blocks bd) \<le> 2 ^ 32"
  shows "cfg_wf (bd_blocks r) \<and> list_all (cfg_reach (bd_blocks r)) [0..<length (bd_blocks r)] \<and>
    (\<exists>bd1 bd2. slice_desugar ctx bd = Some bd1 \<and> constant_prop fo bd1 = Some bd2 \<and>
       block_targets (bd_blocks (dce bd2)) = block_targets (bd_blocks bd) \<and>
       cfg_complete (bd_blocks r) = cfg_complete (bd_blocks (dce bd2)) \<and>
       cfg_prefixes (bd_blocks r) = cfg_prefixes (bd_blocks (dce bd2)))"
proof -
  obtain bd1 bd2 bl where v: "validate_body fuel ctx bd = Some (Inr ())" and d: "slice_desugar ctx bd = Some bd1"
    and c: "constant_prop fo bd1 = Some bd2"
    and u: "unreachable_elim (cfg_simplify (bd_blocks (dce bd2))) = Some bl"
    and r: "r = (dce bd2)\<lparr>bd_blocks := bl\<rparr>"
    using optimizeE [OF assms(1)] by blast
  have t: "block_targets (bd_blocks (dce bd2)) = block_targets (bd_blocks bd)"
    using constant_prop_targets [OF c] slice_desugar_targets [OF d] by simp
  have wf: "cfg_wf (bd_blocks (dce bd2))"
    using validated_cfg_wf [OF v assms(2,3)] cfg_wf_targets [OF t] by simp
  have wf': "cfg_wf (cfg_simplify (bd_blocks (dce bd2)))"
    using simplify_pass.pass_result [OF wf refl] by blast
  have eq: "cfg_wf bl \<and> cfg_equiv bl (bd_blocks (dce bd2))"
    using graph_passes.seq.pass_result [OF wf] u by simp
  have "list_all (cfg_reach bl) [0..<length bl]"
    using unreachable_elim_reach [OF wf' u] by (simp add: list_all_iff)
  then show ?thesis using eq d c t by (auto simp: r cfg_equiv_def)
qed

definition pipeline_body :: body where
  "pipeline_body = with_locals 2 ((body_dummy (0, 0))\<lparr>bd_blocks :=
     [\<lparr>bb_statements = [assign_stmt 1 (RvUse (int_operand 5))],
       bb_terminator = \<lparr>tm_kind = TGoto 2, tm_span = span_DUMMY\<rparr>, bb_is_cleanup = False\<rparr>,
      goto_block 0,
      \<lparr>bb_statements = [assign_stmt 0 (RvUnaryOp Un_Neg (copy_local 1))],
       bb_terminator = return_terminator, bb_is_cleanup = False\<rparr>]\<rparr>)"

lemma optimize_graph_witness:
  "\<exists>r. optimize 0 no_floats example_ctx pipeline_body = Some r \<and> cfg_wf (bd_blocks r)"
proof -
  have "optimize 0 no_floats example_ctx pipeline_body \<noteq> None" by code_simp
  then obtain r where r: "optimize 0 no_floats example_ctx pipeline_body = Some r" by blast
  have "bd_blocks pipeline_body \<noteq> []" "length (bd_blocks pipeline_body) \<le> 2 ^ 32"
    by (simp_all add: pipeline_body_def with_locals_def)
  from optimize_graph [OF r this] r show ?thesis by blast
qed

subsection \<open>Sub-slices\<close>

lemma desugar_statement_rvalue:
  assumes "desugar_statement ctx locals s = Some (s', st')" "stmt_slices_ok s"
  shows "stmt_subslice s' = stmt_subslice s"
  using assms by (auto simp: desugar_statement_def stmt_slices_ok_def stmt_subslice_def desugar_rvalue_id
      split: statement_kind.splits option.splits)

lemma desugar_statements_subslice:
  assumes "desugar_statements ctx locals ss = Some (ss', locals')" "list_all stmt_slices_ok ss"
    and "list_ex stmt_subslice ss"
  shows "list_ex stmt_subslice ss'"
  using assms
proof (induction ss arbitrary: locals ss')
  case (Cons s ss)
  from Cons.prems(1) obtain s' l1 prelude ss1 l2 where
    "desugar_statement ctx locals s = Some (s', l1, prelude)" "desugar_statements ctx l1 ss = Some (ss1, l2)"
    "ss' = prelude @ s' # ss1" "locals' = l2"
    by (auto split: option.splits)
  then show ?case using Cons.IH Cons.prems(2,3) desugar_statement_rvalue by fastforce
qed simp

lemma desugar_blocks_subslice:
  assumes "desugar_blocks ctx locals bs = Some (bs', locals')"
    and "list_all (\<lambda>b. list_all stmt_slices_ok (bb_statements b)) bs"
    and "list_ex (\<lambda>b. list_ex stmt_subslice (bb_statements b)) bs"
  shows "list_ex (\<lambda>b. list_ex stmt_subslice (bb_statements b)) bs'"
  using assms
proof (induction bs arbitrary: locals bs')
  case (Cons b bs)
  from Cons.prems(1) obtain b' l1 bs1 where b: "desugar_block ctx locals b = Some (b', l1)"
    and bs1: "desugar_blocks ctx l1 bs = Some (bs1, locals')" and bs': "bs' = b' # bs1"
    by (auto split: option.splits)
  from b obtain ss l0 prelude where "desugar_statements ctx locals (bb_statements b) = Some (ss, l0)"
    "bb_statements b' = ss @ prelude"
    by (auto simp: desugar_block_def split: option.splits)
  then show ?case
    using Cons.IH [OF bs1] Cons.prems(2,3) desugar_statements_subslice by (auto simp: bs')
qed simp

lemma validate_no_subslice_ok:
  "validate_no_subslice bs = Inr () \<Longrightarrow> list_ex (\<lambda>b. list_ex stmt_subslice (bb_statements b)) bs \<Longrightarrow> False"
  by (induction bs) (auto split: if_splits)



end
