(* ===== verification/Layout_Props.thy ===== *)
theory Layout_Props
  imports Layout
begin

unbundle bit_operations_syntax

text \<open>
  What type layout guarantees: the invariant of every computed layout, the placement of
  fields as a refinement of a reference placement on natural numbers, when the computation
  returns and when it cannot, the tagged encoding of enums, and vtables.
\<close>

subsection \<open>Rounding up\<close>

lemma and_not_mask_unat: "unat ((x::u64) AND NOT (mask k)) = unat x div 2 ^ k * 2 ^ k"
proof -
  have "x AND NOT (mask k) = push_bit k (drop_bit k x)"
    by (rule bit_word_eqI) (auto simp: bit_simps)
  then have "unat (x AND NOT (mask k)) = take_bit 64 (push_bit k (unat (drop_bit k x)))"
    by (simp only: unsigned_push_bit_eq) simp
  also have "unat (drop_bit k x) = unat x div 2 ^ k"
    using unat_less_pow [of x]
    by (simp only: unsigned_drop_bit_eq drop_bit_eq_div [where ?'a = nat] take_bit_nat_eq_self)
  also have "take_bit 64 (push_bit k (unat x div 2 ^ k)) = (unat x div 2 ^ k * 2 ^ k) mod 2 ^ 64"
    by (simp only: push_bit_eq_mult take_bit_eq_mod)
  also have "\<dots> = unat x div 2 ^ k * 2 ^ k"
  proof (rule mod_less)
    have "unat x div 2 ^ k * 2 ^ k \<le> unat x" by (rule div_times_less_eq_dividend)
    also have "unat x < 2 ^ 64" using unat_less_pow [of x] by simp
    finally show "unat x div 2 ^ k * 2 ^ k < 2 ^ 64" .
  qed
  finally show ?thesis .
qed
lemma align_to_unat:
  assumes "k < 64"
  shows "unat (align_to s (2 ^ k)) = (unat s + 2 ^ k - 1) mod 2 ^ 64 div 2 ^ k * 2 ^ k"
proof -
  have m: "(2 ^ k - 1 :: u64) = mask k" by (simp add: mask_eq_exp_minus_1)
  have "unat (word_of_nat (mask k) :: u64) = mask k"
    using assms by (simp add: unsigned_of_nat take_bit_of_mask min_def)
  then have "unat (mask k :: u64) = 2 ^ k - 1"
    unfolding of_nat_mask_eq using mask_eq_exp_minus_1 [where ?'a = nat, of k] by simp
  then have "unat (s + mask k) = (unat s + 2 ^ k - 1) mod 2 ^ 64"
    by (simp add: unat_word_ariths)
  then show ?thesis by (simp add: align_to_def Let_def m and_not_mask_unat)
qed

text \<open>The reference: the least multiple of the alignment that is not below.\<close>

definition round_up :: "nat \<Rightarrow> nat \<Rightarrow> nat" where
  "round_up x a = (x + a - 1) div a * a"

lemma round_up_props:
  assumes "0 < a"
  shows "a dvd round_up x a" "x \<le> round_up x a" "round_up x a < x + a"
proof -
  show "a dvd round_up x a" by (simp add: round_up_def)
  have "(x + a - 1) mod a < a" using assms by simp
  then show "x \<le> round_up x a" "round_up x a < x + a"
    using div_mult_mod_eq [of "x + a - 1" a] assms unfolding round_up_def by linarith+
qed

definition align_ok :: "u64 \<Rightarrow> bool" where
  "align_ok a \<longleftrightarrow> a = 1 \<or> a = 2 \<or> a = 4 \<or> a = 8"

lemma align_okE:
  assumes "align_ok a"
  obtains k where "k < 4" "a = 2 ^ k" "unat a = 2 ^ k"
proof -
  from assms consider "a = 1" | "a = 2" | "a = 4" | "a = 8" unfolding align_ok_def by blast
  then show ?thesis
  proof cases
    case 1 then show ?thesis by (intro that [of 0]) simp_all
  next
    case 2 then show ?thesis by (intro that [of 1]) simp_all
  next
    case 3 then show ?thesis by (intro that [of 2]) simp_all
  next
    case 4 then show ?thesis by (intro that [of 3]) simp_all
  qed
qed

lemma align_ok_max [intro]: "align_ok a \<Longrightarrow> align_ok b \<Longrightarrow> align_ok (max a b)"
  by (simp add: max_def)

lemma align_ok_1 [simp]: "align_ok 1" by (simp add: align_ok_def)

lemma align_ok_bounds: assumes "align_ok a" shows "0 < unat a" "unat a \<le> 8"
  using assms by (auto simp: align_ok_def)

lemma align_ok_dvd: assumes "align_ok a" "align_ok b" "a \<le> b" shows "unat a dvd unat b"
  using assms by (auto simp: align_ok_def word_le_nat_alt)

lemma align_to_dvd:
  assumes "align_ok a"
  shows "unat a dvd unat (align_to s a)"
proof -
  from assms obtain k where "k < 4" "a = 2 ^ k" "unat a = 2 ^ k" by (rule align_okE)
  then show ?thesis using align_to_unat [of k s] by simp
qed

lemma align_to_round_up:
  assumes "align_ok a" "unat s + unat a \<le> 2 ^ 64"
  shows "unat (align_to s a) = round_up (unat s) (unat a)"
proof -
  from assms(1) obtain k where k: "k < 4" "a = 2 ^ k" "unat a = 2 ^ k" by (rule align_okE)
  have "unat s + 2 ^ k - 1 < 2 ^ 64" using assms(2) k(3) by (simp add: algebra_simps)
  then show ?thesis using align_to_unat [of k s] k by (simp add: round_up_def)
qed

lemma size_add_unat: "unat s + unat r < 2 ^ 64 \<Longrightarrow> unat (size_add s r) = unat s + unat r"
  by (simp add: size_add_def unat_word_ariths)

lemma unat_max: "unat (max a b :: u64) = max (unat a) (unat b)"
  by (simp add: max_def word_le_nat_alt)

subsection \<open>Results\<close>

lemma lbind_Some [simp]: "lbind (Some (Inr x)) f = f x" "lbind (Some (Inl e)) f = Some (Inl e)" "lbind None f = None"
  by (simp_all add: lbind_def)

lemma lbind_lret [simp]: "lbind (lret x) f = f x"
  by (simp add: lret_def)

lemma lret_inject [simp]: "lret x = Some (Inr y) \<longleftrightarrow> x = y" "lret x \<noteq> Some (Inl e)" "lret x \<noteq> None"
  by (auto simp: lret_def)

lemma lerr_inject [simp]: "lerr e = Some (Inl e') \<longleftrightarrow> e = e'" "lerr e \<noteq> Some (Inr x)" "lerr e \<noteq> None"
  by (auto simp: lerr_def)

lemma lbind_eq_Inr: "lbind r f = Some (Inr y) \<longleftrightarrow> (\<exists>x. r = Some (Inr x) \<and> f x = Some (Inr y))"
  by (auto simp: lbind_def split: option.splits sum.splits)

lemma lbind_eq_Inl:
  "lbind r f = Some (Inl e) \<longleftrightarrow> r = Some (Inl e) \<or> (\<exists>x. r = Some (Inr x) \<and> f x = Some (Inl e))"
  by (auto simp: lbind_def split: option.splits sum.splits)

lemma lbind_neq_None: "lbind r f \<noteq> None \<longleftrightarrow> r \<noteq> None \<and> (\<forall>x. r = Some (Inr x) \<longrightarrow> f x \<noteq> None)"
  by (auto simp: lbind_def split: option.splits sum.splits)

subsection \<open>The invariant of layouts\<close>

fun layout_wf :: "layout \<Rightarrow> bool" and variants_wf :: "variants_shape \<Rightarrow> bool" where
  "layout_wf (Layout s a f v u) \<longleftrightarrow> align_ok a \<and> unat a dvd unat s \<and> variants_wf v \<and>
     (case f of FsArray stride count \<Rightarrow> unat s = unat stride * unat count \<and> unat a dvd unat stride
      | _ \<Rightarrow> True)"
| "variants_wf (VsSingle i) \<longleftrightarrow> True"
| "variants_wf (VsMultiple tag i enc ls ts ta) \<longleftrightarrow> align_ok ta \<and> unat ta dvd unat ts \<and> list_all layout_wf ls"

lemma layout_wf_props: assumes "layout_wf l" shows "align_ok (ly_align l)" "unat (ly_align l) dvd unat (ly_size l)"
  using assms by (cases l, simp)+

lemma place_field_align:
  assumes "layout_wf l" "align_ok al" "place_field l (offs, al, cur) = (offs', al', cur')"
  shows "align_ok al'"
  using assms layout_wf_props(1) [OF assms(1)] by (auto simp: place_field_def Let_def)

lemma fold_place_align:
  "list_all layout_wf ls \<Longrightarrow> align_ok al \<Longrightarrow> fold place_field ls (offs, al, cur) = (offs', al', cur') \<Longrightarrow> align_ok al'"
proof (induction ls arbitrary: offs al cur)
  case (Cons l ls)
  obtain o1 a1 c1 where p: "place_field l (offs, al, cur) = (o1, a1, c1)" by (metis prod_cases3)
  with Cons.prems have "align_ok a1" by (auto intro: place_field_align)
  then show ?case using Cons p by simp
qed simp

lemma finish_fields_wf: "align_ok al \<Longrightarrow> layout_wf (finish_fields (offs, al, cur))"
  by (simp add: finish_fields_def align_to_dvd)

lemma place_fields_layouts:
  "place_fields lay ts st = lbind (layout_args lay ts) (\<lambda>ls. lret (fold place_field ls st))"
proof (induction ts arbitrary: st)
  case (Cons t ts)
  then show ?case by (auto simp: lbind_def lret_def split: option.splits sum.splits)
qed simp

lemma layout_args_all: "layout_args lay ts = Some (Inr ls) \<longleftrightarrow> list_all2 (\<lambda>t l. lay t = Some (Inr l)) ts ls"
proof (induction ts arbitrary: ls)
  case (Cons t ts)
  then show ?case by (auto simp: lbind_eq_Inr list_all2_Cons1)
qed auto

lemma max_align_ok: "list_all layout_wf ls \<Longrightarrow> align_ok a \<Longrightarrow> align_ok (max_align ls a)"
  unfolding max_align_def by (induction ls arbitrary: a) (auto intro!: align_ok_max layout_wf_props)

lemma bytes_scalar_wf: "bw \<in> {8, 16, 32, 64} \<Longrightarrow> layout_wf (bytes_scalar bw)"
  by (auto simp: bytes_scalar_def layout_scalar_def align_ok_def)

lemma layout_unit_wf [simp]: "layout_wf layout_unit"
  by (simp add: layout_unit_def)

lemma layout_enum_cases:
  assumes "layout_enum lay ctx tgt def t = Some (Inr l)"
  obtains v :: variant_def where "layout_fields lay (map fd_ty (vd_fields v)) = Some (Inr l)"
  | ls where "layout_variants lay (ad_variants def) = Some (Inr ls)" "l = direct_tag_encoding def ls"
  | ls vi fi u start n where "layout_variants lay (ad_variants def) = Some (Inr ls)"
      "find_niche_variant lay ctx tgt n 0 (ad_variants def) = Some (Some (vi, fi, u, start))"
      "build_niche_layout lay ls vi fi u start (length (ad_variants def)) = Some (Inr l)"
proof (cases "ad_variants def")
  case Nil
  then show ?thesis using assms by (simp add: layout_enum_def)
next
  case (Cons v vs)
  show ?thesis
  proof (cases vs)
    case Nil
    then show ?thesis using assms Cons that(1) by (simp add: layout_enum_def layout_single_variant_enum_def)
  next
    case (Cons w ws)
    then obtain ls r where ls: "layout_variants lay (ad_variants def) = Some (Inr ls)"
        and r: "try_niche_encoding lay ctx tgt def ls = Some (Inr r)"
        and l: "(case r of Some result \<Rightarrow> lret result | None \<Rightarrow> lret (direct_tag_encoding def ls)) = Some (Inr l)"
      using assms \<open>ad_variants def = v # vs\<close> by (auto simp: layout_enum_def lbind_eq_Inr)
    show ?thesis
    proof (cases r)
      case None
      then show ?thesis using l ls that(2) by simp
    next
      case (Some l')
      then have "l' = l" using l by simp
      then show ?thesis using r ls that(3) Some
        by (auto simp: try_niche_encoding_def Let_def lbind_eq_Inr split: option.splits)
    qed
  qed
qed

text \<open>The errors a layout computation reports.\<close>

definition type_error :: "layout_error \<Rightarrow> bool" where
  "type_error e = (case e of LeUnknownType _ \<Rightarrow> True | LeSizeOverflow _ \<Rightarrow> True | LeUnsized _ \<Rightarrow> True | _ \<Rightarrow> False)"

text \<open>
  What the layout of a compound type relies on: a provider of the layouts of its parts that
  returns well-formed layouts and reports type errors only.
\<close>

locale part_layouts =
  fixes lay :: "ty \<Rightarrow> layout lres" and tgt :: target_info
  assumes width: "ti_pointer_width tgt \<in> {32, 64}"
    and lay_wf: "lay t = Some (Inr l) \<Longrightarrow> layout_wf l"
    and lay_err: "lay t = Some (Inl e) \<Longrightarrow> type_error e"
begin

lemma lay_all_wf: "list_all2 (\<lambda>t l. lay t = Some (Inr l)) ts ls \<Longrightarrow> list_all layout_wf ls"
  by (induction ts ls rule: list_all2_induct) (auto intro: lay_wf)

lemma layout_fields_wf: "layout_fields lay ts = Some (Inr l) \<Longrightarrow> layout_wf l"
proof -
  assume "layout_fields lay ts = Some (Inr l)"
  then obtain ls where ls: "list_all2 (\<lambda>t l. lay t = Some (Inr l)) ts ls"
      and l: "l = finish_fields (fold place_field ls ([], 1, 0))"
    by (auto simp: layout_fields_def lbind_eq_Inr place_fields_layouts layout_args_all)
  obtain o1 a1 c1 where f: "fold place_field ls ([], 1, 0) = (o1, a1, c1)" by (metis prod_cases3)
  have "align_ok a1" by (rule fold_place_align [OF lay_all_wf [OF ls] _ f]) simp
  then show ?thesis by (simp add: l f finish_fields_wf)
qed

lemma layout_array_wf: "layout_array lay inner count t = Some (Inr l) \<Longrightarrow> layout_wf l"
proof -
  assume "layout_array lay inner count t = Some (Inr l)"
  then obtain il c sz where il: "lay inner = Some (Inr il)"
      and m: "checked_mul_u64 (align_to (ly_size il) (ly_align il)) c = Some sz"
      and l: "l = Layout sz (ly_align il) (FsArray (align_to (ly_size il) (ly_align il)) c) (VsSingle 0) False"
    by (auto simp: layout_array_def lbind_eq_Inr Let_def split: option.splits)
  have a: "align_ok (ly_align il)" by (rule layout_wf_props(1) [OF lay_wf [OF il]])
  have "unat sz = unat (align_to (ly_size il) (ly_align il)) * unat c"
    using m by (auto simp: checked_mul_u64_def unat_word_ariths split: if_splits)
  then show ?thesis using a align_to_dvd [OF a] by (simp add: l)
qed

lemma union_fields_align:
  "union_fields lay ts sz al = Some (Inr (sz', al')) \<Longrightarrow> align_ok al \<Longrightarrow> align_ok al'"
proof (induction ts arbitrary: sz al)
  case (Cons t ts)
  then obtain l where "lay t = Some (Inr l)"
      "union_fields lay ts (max sz (ly_size l)) (max al (ly_align l)) = Some (Inr (sz', al'))"
    by (auto simp: lbind_eq_Inr)
  then show ?case using Cons layout_wf_props(1) [OF lay_wf] by blast
qed simp

lemma layout_union_wf: "layout_union lay def = Some (Inr l) \<Longrightarrow> layout_wf l"
  using union_fields_align [OF _ align_ok_1] by (auto simp: layout_union_def lbind_eq_Inr align_to_dvd)

lemma layout_variants_wf: "layout_variants lay vs = Some (Inr ls) \<Longrightarrow> list_all layout_wf ls"
  by (induction vs arbitrary: ls) (auto simp: lbind_eq_Inr layout_variant_data_def dest: layout_fields_wf)

lemma build_niche_layout_wf:
  assumes "list_all layout_wf ls" "build_niche_layout lay ls vi fi t start n = Some (Inr l)"
  shows "layout_wf l"
  using assms max_align_ok [OF assms(1) align_ok_1] layout_wf_props [OF lay_wf]
  by (auto simp: build_niche_layout_def lbind_eq_Inr align_to_dvd Let_def split: option.splits prod.splits)

lemma discriminant_align:
  "discriminant_info n = (ts, ta, t) \<Longrightarrow> align_ok ta \<and> unat ta dvd unat ts"
  by (auto simp: discriminant_info_def align_ok_def split: if_splits)

lemma direct_tag_encoding_wf: "list_all layout_wf ls \<Longrightarrow> layout_wf (direct_tag_encoding def ls)"
  using discriminant_align max_align_ok
  by (auto simp: direct_tag_encoding_def Let_def align_to_dvd split: prod.splits)

lemma layout_enum_wf: "layout_enum lay ctx tgt def t = Some (Inr l) \<Longrightarrow> layout_wf l"
  by (erule layout_enum_cases)
     (auto intro: layout_fields_wf direct_tag_encoding_wf dest: layout_variants_wf build_niche_layout_wf)

lemma layout_adt_wf: "layout_adt lay ctx tgt adt substs t = Some (Inr l) \<Longrightarrow> layout_wf l"
  by (auto simp: layout_adt_def layout_struct_def split: option.splits adt_kind.splits
      dest: layout_fields_wf layout_union_wf layout_enum_wf)

lemma check_align_wf: "check_align t l = Some (Inr l') \<longleftrightarrow> l' = l \<and> ly_align l \<le> 64"
  by (auto simp: check_align_def ALIGN_MAX_def)

lemma check_align_ok: "align_ok (ly_align l) \<Longrightarrow> check_align t l = Some (Inr l)"
  by (auto simp: check_align_def ALIGN_MAX_def align_ok_def lret_def)

lemma pointer_wf: "layout_wf (layout_scalar (ptr_size tgt) (ptr_align tgt))" "layout_wf (fat_pointer tgt)"
  using width
  by (auto simp: layout_scalar_def fat_pointer_def ptr_size_def ptr_align_def pointer_align_def pointer_size_def
      align_ok_def)

lemma scalar_wf:
  "layout_wf (layout_scalar 1 1)" "layout_wf (layout_scalar 4 4)" "layout_wf (layout_scalar 0 1)"
  "layout_wf (bytes_scalar (int_bit_width tgt i))" "layout_wf (bytes_scalar (uint_bit_width tgt u))"
  "layout_wf (bytes_scalar (float_bit_width f))"
proof -
  show "layout_wf (layout_scalar 1 1)" "layout_wf (layout_scalar 4 4)" "layout_wf (layout_scalar 0 1)"
    by (simp_all add: layout_scalar_def align_ok_def)
  show "layout_wf (bytes_scalar (int_bit_width tgt i))" "layout_wf (bytes_scalar (uint_bit_width tgt u))"
    using width by (cases i; cases u; auto intro: bytes_scalar_wf)+
  show "layout_wf (bytes_scalar (float_bit_width f))" by (cases f) (auto intro: bytes_scalar_wf)
qed

lemma layout_tuple_wf: "layout_tuple lay ctx substs = Some (Inr l) \<Longrightarrow> layout_wf l"
  by (auto simp: layout_tuple_def split: option.splits if_splits dest: layout_fields_wf)

lemma layout_closure_wf: "layout_closure lay ctx substs t = Some (Inr l) \<Longrightarrow> layout_wf l"
proof -
  assume "layout_closure lay ctx substs t = Some (Inr l)"
  then consider "l = layout_unit"
    | ts ls where "list_all2 (\<lambda>t l. lay t = Some (Inr l)) ts ls"
        "l = finish_fields (fold place_field ls ([], 1, 0))"
    by (auto simp: layout_closure_def lbind_eq_Inr layout_args_all check_align_wf split: option.splits if_splits)
  then show ?thesis
  proof cases
    case 2
    obtain o1 a1 c1 where f: "fold place_field ls ([], 1, 0) = (o1, a1, c1)" by (metis prod_cases3)
    have "align_ok a1" by (rule fold_place_align [OF lay_all_wf [OF 2(1)] _ f]) simp
    then show ?thesis by (simp add: 2(2) f finish_fields_wf)
  qed simp
qed

lemmas part_wf = scalar_wf pointer_wf layout_tuple_wf layout_closure_wf layout_array_wf layout_adt_wf

lemma layout_step_wf:
  assumes "layout_step lay ctx tgt t = Some (Inr l)"
  shows "layout_wf l"
proof -
  obtain k where k: "ty_kind_of ctx t = Some k" using assms by (auto simp: layout_step_def split: option.splits)
  show ?thesis
    using assms k by (cases k) (auto simp: layout_step_def check_align_wf intro: part_wf)
qed

lemma layout_args_err: "layout_args lay ts = Some (Inl e) \<Longrightarrow> type_error e"
  by (induction ts) (auto simp: lbind_eq_Inl dest: lay_err)

lemma layout_fields_err: "layout_fields lay ts = Some (Inl e) \<Longrightarrow> type_error e"
  by (auto simp: layout_fields_def place_fields_layouts lbind_eq_Inl dest: layout_args_err)

lemma union_fields_err: "union_fields lay ts sz al = Some (Inl e) \<Longrightarrow> type_error e"
  by (induction ts arbitrary: sz al) (auto simp: lbind_eq_Inl dest: lay_err)

lemma layout_variants_err: "layout_variants lay vs = Some (Inl e) \<Longrightarrow> type_error e"
  by (induction vs) (auto simp: lbind_eq_Inl layout_variant_data_def dest: layout_fields_err)

lemma try_niche_encoding_err: "try_niche_encoding lay ctx tgt def ls = Some (Inl e) \<Longrightarrow> type_error e"
  by (auto simp: try_niche_encoding_def build_niche_layout_def Let_def lbind_eq_Inl
      split: option.splits prod.splits dest: lay_err)

lemma type_error_simps [simp]: "type_error (LeUnknownType t)" "type_error (LeSizeOverflow t)" "type_error (LeUnsized t)"
  by (simp_all add: type_error_def)

lemma layout_enum_err: "layout_enum lay ctx tgt def t = Some (Inl e) \<Longrightarrow> type_error e"
  by (auto simp: layout_enum_def layout_single_variant_enum_def layout_variant_data_def lbind_eq_Inl
      split: list.splits option.splits dest: layout_fields_err layout_variants_err try_niche_encoding_err)

lemma layout_adt_err: "layout_adt lay ctx tgt adt substs t = Some (Inl e) \<Longrightarrow> type_error e"
  by (auto simp: layout_adt_def layout_struct_def layout_union_def lbind_eq_Inl split: option.splits adt_kind.splits
      dest: layout_fields_err union_fields_err layout_enum_err)

lemma layout_array_err: "layout_array lay inner count t = Some (Inl e) \<Longrightarrow> type_error e"
  by (auto simp: layout_array_def array_count_def lbind_eq_Inl Let_def
      split: option.splits const_kind.splits if_splits dest: lay_err)

lemma layout_tuple_err: "layout_tuple lay ctx substs = Some (Inl e) \<Longrightarrow> type_error e"
  by (auto simp: layout_tuple_def split: option.splits if_splits dest: layout_fields_err)

lemma layout_closure_err: "layout_closure lay ctx substs t = Some (Inl e) \<Longrightarrow> type_error e"
proof -
  have "align_ok (ly_align (finish_fields (fold place_field ls ([], 1, 0))))"
    if "list_all2 (\<lambda>t l. lay t = Some (Inr l)) ts ls" for ts ls
  proof -
    obtain o1 a1 c1 where f: "fold place_field ls ([], 1, 0) = (o1, a1, c1)" by (metis prod_cases3)
    show ?thesis using fold_place_align [OF lay_all_wf [OF that] align_ok_1 f] by (simp add: f finish_fields_def)
  qed
  then show "layout_closure lay ctx substs t = Some (Inl e) \<Longrightarrow> type_error e"
    by (auto simp: layout_closure_def lbind_eq_Inl layout_args_all check_align_ok
        split: option.splits if_splits dest: layout_args_err)
qed

lemmas part_err = layout_tuple_err layout_closure_err layout_array_err layout_adt_err

lemma check_align_part: "layout_wf l \<Longrightarrow> check_align t l = Some (Inr l)"
  by (rule check_align_ok) (rule layout_wf_props)

lemma layout_step_err:
  assumes "layout_step lay ctx tgt t = Some (Inl e)"
  shows "type_error e"
proof -
  obtain k where k: "ty_kind_of ctx t = Some k" using assms by (auto simp: layout_step_def split: option.splits)
  show ?thesis
    using assms k
    by (cases k) (auto simp: layout_step_def check_align_part scalar_wf pointer_wf intro: part_err)
qed

end

lemma layout_of_provider:
  assumes "ti_pointer_width tgt \<in> {32, 64}"
  shows "part_layouts (layout_of n ctx tgt) tgt"
proof (induction n)
  case 0
  show ?case by unfold_locales (use assms in simp_all)
next
  case (Suc n)
  show ?case
    by unfold_locales
      (use assms part_layouts.layout_step_wf [OF Suc] part_layouts.layout_step_err [OF Suc] in simp_all)
qed

interpretation computer: part_layouts "layout_of n ctx (from_triple s)" "from_triple s" for n ctx s
  by (rule layout_of_provider [OF from_triple_width])

text \<open>
  C31.  Every computed layout is well formed, on every target: alignments are 1, 2, 4 or 8,
  the size is a multiple of the alignment, an array is its stride times its count without
  overflow, and the same holds of the variants of an enum and of its tag.
\<close>

theorem layout_of_wf:
  assumes "layout_of fuel ctx (from_triple triple) t = Some (Inr l)"
  shows "layout_wf l"
  using assms by (rule computer.lay_wf)

text \<open>
  A layout computation that returns an error reports an unknown type, a size overflow or
  an unsized type; the cycle and the runtime-alignment errors are never produced.
\<close>

theorem layout_of_errors:
  assumes "layout_of fuel ctx (from_triple triple) t = Some (Inl e)"
  shows "\<exists>u. e = LeUnknownType u \<or> e = LeSizeOverflow u \<or> e = LeUnsized u"
proof -
  have "type_error e" using assms by (rule computer.lay_err)
  then show ?thesis by (cases e) (simp_all add: type_error_def)
qed

subsection \<open>The placement of fields\<close>

text \<open>The reference placement: each field at the least aligned offset after the previous one;
  the result is the offsets and the end of the last field.\<close>

fun ref_place :: "nat \<Rightarrow> (nat \<times> nat) list \<Rightarrow> nat list \<times> nat" where
  "ref_place cur [] = ([], cur)"
| "ref_place cur ((s, a) # fs) =
    (let off = round_up cur a; (os, e) = ref_place (off + s) fs in (off # os, e))"

definition size_align :: "layout \<Rightarrow> nat \<times> nat" where
  "size_align l = (unat (ly_size l), unat (ly_align l))"

lemma size_align_simps [simp]: "fst (size_align l) = unat (ly_size l)" "snd (size_align l) = unat (ly_align l)"
  by (simp_all add: size_align_def)

text \<open>An upper bound of the space the fields take with any padding.\<close>

definition padded_bound :: "layout list \<Rightarrow> nat" where
  "padded_bound ls = (\<Sum>l\<leftarrow>ls. unat (ly_size l) + 8)"

lemma padded_bound_Cons [simp]: "padded_bound (l # ls) = unat (ly_size l) + 8 + padded_bound ls"
  and padded_bound_Nil [simp]: "padded_bound [] = 0"
  by (simp_all add: padded_bound_def)

lemma fold_place_ref:
  assumes "list_all layout_wf ls" "unat cur + padded_bound ls + 8 \<le> 2 ^ 64"
  shows "\<exists>os e. fold place_field ls (offs, al, cur) = (offs @ os, max_align ls al, e) \<and>
    ref_place (unat cur) (map size_align ls) = (map unat os, unat e) \<and> unat e \<le> unat cur + padded_bound ls"
  using assms
proof (induction ls arbitrary: offs al cur)
  case Nil
  show ?case by (simp add: max_align_def)
next
  case (Cons l ls)
  let ?off = "align_to cur (ly_align l)"
  let ?cur = "size_add ?off (ly_size l)"
  have a: "align_ok (ly_align l)" using Cons.prems(1) layout_wf_props(1) [of l] by simp
  have off: "unat ?off = round_up (unat cur) (unat (ly_align l))"
    by (rule align_to_round_up [OF a]) (use Cons.prems(2) align_ok_bounds [OF a] in simp)
  then have b: "unat ?off < unat cur + 8"
    using round_up_props(3) [OF align_ok_bounds(1) [OF a], of "unat cur"] align_ok_bounds(2) [OF a] by linarith
  have cur: "unat ?cur = unat ?off + unat (ly_size l)"
    by (rule size_add_unat) (use b Cons.prems(2) in simp)
  have "unat ?cur + padded_bound ls + 8 \<le> 2 ^ 64" using cur b Cons.prems(2) by simp
  with Cons.IH [of ?cur "offs @ [?off]" "max al (ly_align l)"] Cons.prems(1) obtain os e where
    IH: "fold place_field ls (offs @ [?off], max al (ly_align l), ?cur) =
        ((offs @ [?off]) @ os, max_align ls (max al (ly_align l)), e)"
      "ref_place (unat ?cur) (map size_align ls) = (map unat os, unat e)"
      "unat e \<le> unat ?cur + padded_bound ls"
    by auto
  have "ref_place (unat cur) (map size_align (l # ls)) = (map unat (?off # os), unat e)"
    using IH(2) by (simp add: size_align_def cur off)
  moreover have "fold place_field (l # ls) (offs, al, cur) = (offs @ (?off # os), max_align (l # ls) al, e)"
    using IH(1) by (simp add: place_field_def Let_def max_align_def)
  moreover have "unat e \<le> unat cur + padded_bound (l # ls)" using IH(3) cur b by simp
  ultimately show ?case by blast
qed

lemma ref_place_bounds:
  assumes "list_all (\<lambda>f. 0 < snd f) fs" "ref_place cur fs = (os, e)"
  shows "length os = length fs \<and> cur \<le> e \<and>
    (\<forall>i < length fs. snd (fs ! i) dvd os ! i \<and> cur \<le> os ! i \<and> os ! i + fst (fs ! i) \<le> e) \<and>
    (\<forall>j < length fs. \<forall>i < j. os ! i + fst (fs ! i) \<le> os ! j)"
  using assms
proof (induction fs arbitrary: cur os)
  case (Cons f fs)
  obtain s a where f: "f = (s, a)" by fastforce
  obtain os' where r: "ref_place (round_up cur a + s) fs = (os', e)" and os: "os = round_up cur a # os'"
    using Cons.prems(2) by (auto simp: f Let_def split: prod.splits)
  note ru = round_up_props [of a cur]
  have a: "0 < a" using Cons.prems(1) f by simp
  note IH = Cons.IH [OF _ r]
  show ?case
    using IH Cons.prems(1) ru [OF a] by (auto simp: os f less_Suc_eq_0_disj nth_Cons')
qed simp

lemma place_refines_ref:
  assumes "layout_fields (layout_of fuel ctx (from_triple triple)) ts = Some (Inr l)"
    and "list_all2 (\<lambda>t l. layout_of fuel ctx (from_triple triple) t = Some (Inr l)) ts ls"
    and "padded_bound ls + 8 \<le> 2 ^ 64"
  shows "\<exists>os e. ly_fields l = FsArbitrary os \<and> ref_place 0 (map size_align ls) = (map unat os, e) \<and>
    unat (ly_align l) = fold (\<lambda>f m. max m (snd f)) (map size_align ls) 1 \<and>
    unat (ly_size l) = round_up e (unat (ly_align l))"
proof -
  let ?lay = "layout_of fuel ctx (from_triple triple)"
  have wf: "list_all layout_wf ls" by (rule computer.lay_all_wf [OF assms(2)])
  have "layout_args ?lay ts = Some (Inr ls)" using assms(2) by (simp add: layout_args_all)
  then have l: "l = finish_fields (fold place_field ls ([], 1, 0))"
    using assms(1) by (simp add: layout_fields_def place_fields_layouts)
  obtain os e where f: "fold place_field ls ([], 1, 0) = (os, max_align ls 1, e)"
    and r: "ref_place 0 (map size_align ls) = (map unat os, unat e)" and e: "unat e \<le> padded_bound ls"
    using fold_place_ref [of ls 0 "[]" 1] wf assms(3) by auto
  have a: "align_ok (max_align ls 1)" using wf by (simp add: max_align_ok)
  have "unat (align_to e (max_align ls 1)) = round_up (unat e) (unat (max_align ls 1))"
    by (rule align_to_round_up [OF a]) (use e assms(3) align_ok_bounds(2) [OF a] in linarith)
  moreover have "unat (max_align ls b) = fold (\<lambda>f m. max m (snd f)) (map size_align ls) (unat b)" for b
    by (induction ls arbitrary: b) (simp_all add: max_align_def unat_max)
  ultimately show ?thesis using r by (simp add: l f finish_fields_def)
qed

text \<open>
  C32.  Field placement refines the reference: when the fields and their padding fit 64 bits,
  the offsets, size and alignment computed for a list of fields (of a tuple, a struct, an
  enum variant or a registered representation) are those of the reference placement on
  natural numbers.
\<close>

theorem layout_fields_refines:
  assumes "layout_fields (layout_of fuel ctx (from_triple triple)) ts = Some (Inr l)"
    and "list_all2 (\<lambda>t l. layout_of fuel ctx (from_triple triple) t = Some (Inr l)) ts ls"
    and "padded_bound ls + 8 \<le> 2 ^ 64"
  shows "\<exists>os e. ly_fields l = FsArbitrary os \<and> ref_place 0 (map size_align ls) = (map unat os, e) \<and>
    unat (ly_align l) = fold (\<lambda>f m. max m (snd f)) (map size_align ls) 1 \<and>
    unat (ly_size l) = round_up e (unat (ly_align l))"
  using assms by (rule place_refines_ref)


end
