(* ===== verification/Layout_Total.thy ===== *)
theory Layout_Total
  imports Layout_Props
begin

text \<open>
  When a layout computation returns: more fuel does not change a result, a context whose
  types are built from earlier ranks needs no more fuel than the rank, and a struct that
  contains itself never gets a layout.
\<close>

subsection \<open>More fuel\<close>

definition agrees :: "'a option \<Rightarrow> 'a option \<Rightarrow> bool" where
  "agrees r r' \<longleftrightarrow> r = None \<or> r' = r"

lemma agrees_refl [simp]: "agrees r r" "agrees None r"
  by (simp_all add: agrees_def)

lemma agrees_lbind: "agrees r r' \<Longrightarrow> (\<And>x. r = Some (Inr x) \<Longrightarrow> agrees (f x) (g x)) \<Longrightarrow> agrees (lbind r f) (lbind r' g)"
  by (auto simp: agrees_def lbind_def split: option.splits sum.splits)

text \<open>A provider that answers more: what the layout of compound types keeps of it.\<close>

locale richer_provider =
  fixes lay lay' :: "ty \<Rightarrow> layout lres"
  assumes richer: "agrees (lay t) (lay' t)"
begin

lemma layout_args_richer: "agrees (layout_args lay ts) (layout_args lay' ts)"
  by (induction ts) (auto intro!: agrees_lbind richer)

lemma layout_fields_richer: "agrees (layout_fields lay ts) (layout_fields lay' ts)"
  unfolding layout_fields_def place_fields_layouts by (intro agrees_lbind layout_args_richer) simp_all

lemma union_fields_richer: "agrees (union_fields lay ts s a) (union_fields lay' ts s a)"
  by (induction ts arbitrary: s a) (auto intro!: agrees_lbind richer)

lemma layout_variants_richer: "agrees (layout_variants lay vs) (layout_variants lay' vs)"
  by (induction vs) (auto simp: layout_variant_data_def intro!: agrees_lbind layout_fields_richer)

lemma niche_info_richer: "agrees (niche_info lay ctx tgt t) (niche_info lay' ctx tgt t)"
  using richer [of t] by (auto simp: agrees_def niche_info_def split: option.splits ty_kind.splits)

lemma find_niche_richer: "agrees (find_niche lay ctx tgt n i ts) (find_niche lay' ctx tgt n i ts)"
proof (induction ts arbitrary: i)
  case (Cons t ts)
  then show ?case
    using niche_info_richer [of ctx tgt t] by (auto simp: agrees_def split: option.splits)
qed simp

lemma find_niche_variant_richer:
  "agrees (find_niche_variant lay ctx tgt n i vs) (find_niche_variant lay' ctx tgt n i vs)"
proof (induction vs arbitrary: i)
  case (Cons v vs)
  then show ?case
    using find_niche_richer [of ctx tgt n 0 "map fd_ty (vd_fields v)"] by (auto simp: agrees_def split: option.splits)
qed simp

lemma build_niche_richer:
  "agrees (build_niche_layout lay ls vi fi t st n) (build_niche_layout lay' ls vi fi t st n)"
  by (auto simp: build_niche_layout_def Let_def split: option.splits prod.splits intro!: agrees_lbind richer)

lemma try_niche_richer: "agrees (try_niche_encoding lay ctx tgt def ls) (try_niche_encoding lay' ctx tgt def ls)"
proof -
  let ?n = "word_of_nat (length (ad_variants def) - 1)"
  show ?thesis
  proof (cases "find_niche_variant lay ctx tgt ?n 0 (ad_variants def)")
    case None
    then show ?thesis by (simp add: try_niche_encoding_def Let_def)
  next
    case (Some r)
    then have "find_niche_variant lay' ctx tgt ?n 0 (ad_variants def) = Some r"
      using find_niche_variant_richer [of ctx tgt ?n 0 "ad_variants def"] by (auto simp: agrees_def)
    with Some show ?thesis
      by (auto simp: try_niche_encoding_def Let_def split: option.splits intro!: agrees_lbind build_niche_richer)
  qed
qed

lemma layout_enum_richer: "agrees (layout_enum lay ctx tgt def t) (layout_enum lay' ctx tgt def t)"
proof -
  have "agrees (lbind (layout_variants lay vs) f) (lbind (layout_variants lay' vs) g)"
    if "\<And>x. agrees (f x) (g x)" for vs and f g :: "layout list \<Rightarrow> layout lres"
    by (rule agrees_lbind [OF layout_variants_richer]) (rule that)
  moreover have "agrees (lbind (try_niche_encoding lay ctx tgt def ls) h) (lbind (try_niche_encoding lay' ctx tgt def ls) h)"
    for ls and h :: "layout option \<Rightarrow> layout lres"
    by (rule agrees_lbind [OF try_niche_richer]) simp
  ultimately show ?thesis
    by (cases "ad_variants def" rule: remdups_adj.cases)
       (simp_all add: layout_enum_def layout_single_variant_enum_def layout_fields_richer del: layout_variants.simps)
qed

lemma layout_adt_richer: "agrees (layout_adt lay ctx tgt adt substs t) (layout_adt lay' ctx tgt adt substs t)"
proof -
  have "agrees (layout_union lay def) (layout_union lay' def)" for def
    unfolding layout_union_def by (rule agrees_lbind [OF union_fields_richer]) simp
  then show ?thesis
    by (auto simp: layout_adt_def layout_struct_def layout_fields_richer layout_enum_richer
        split: option.splits adt_kind.splits)
qed

lemma layout_step_richer: "agrees (layout_step lay ctx tgt t) (layout_step lay' ctx tgt t)"
proof (cases "ty_kind_of ctx t")
  case (Some k)
  have array: "agrees (layout_array lay i c t) (layout_array lay' i c t)" for i c
    unfolding layout_array_def by (rule agrees_lbind [OF richer]) simp
  have tuple: "agrees (layout_tuple lay ctx s) (layout_tuple lay' ctx s)" for s
    by (simp add: layout_tuple_def layout_fields_richer split: option.splits)
  have "agrees (lbind (layout_args lay ts) f) (lbind (layout_args lay' ts) f)" for ts and f :: "layout list \<Rightarrow> layout lres"
    by (rule agrees_lbind [OF layout_args_richer]) simp
  then have closure: "agrees (layout_closure lay ctx s t) (layout_closure lay' ctx s t)" for s
    by (simp add: layout_closure_def split: option.splits)
  show ?thesis
    using Some array tuple closure layout_adt_richer by (cases k) (simp_all add: layout_step_def)
qed (simp add: layout_step_def)

end

lemma layout_of_richer: "richer_provider (layout_of n ctx tgt) (layout_of (n + m) ctx tgt)"
proof (induction n)
  case 0
  show ?case by unfold_locales simp
next
  case (Suc n)
  show ?case by unfold_locales (simp add: richer_provider.layout_step_richer [OF Suc])
qed

interpretation more_fuel: richer_provider "layout_of n ctx tgt" "layout_of (n + m) ctx tgt" for n m ctx tgt
  by (rule layout_of_richer)

lemma layout_of_fuel: "layout_of n ctx tgt t = Some r \<Longrightarrow> n \<le> m \<Longrightarrow> layout_of m ctx tgt t = Some r"
  using more_fuel.richer [of n ctx tgt t "m - n"] by (simp add: agrees_def)

subsection \<open>Enough fuel\<close>

text \<open>The types whose layout the layout of a type needs; \<open>None\<close> when a substitution is not
  in the arena.\<close>

definition layout_parts :: "ty_ctx \<Rightarrow> ty_kind \<Rightarrow> ty list option" where
  "layout_parts ctx k =
    (case k of
       TTuple substs \<Rightarrow> type_list ctx substs
     | TClosure _ substs \<Rightarrow> type_list ctx substs
     | TArray inner _ \<Rightarrow> Some [inner]
     | TAdt adt_id substs \<Rightarrow>
         (case tc_adt_defs ctx adt_id of
            None \<Rightarrow> Some (case tc_adt_reprs ctx adt_id of Some tys \<Rightarrow> tys | None \<Rightarrow> [])
          | Some def \<Rightarrow>
              map_option (\<lambda>_. map fd_ty (ad_fields def) @ concat (map (\<lambda>v. map fd_ty (vd_fields v)) (ad_variants def)))
                (substitution_args ctx substs))
     | _ \<Rightarrow> Some [])"

definition tag_valid :: "ty_ctx \<Rightarrow> layout \<Rightarrow> bool" where
  "tag_valid ctx l = (case ly_variants l of VsSingle _ \<Rightarrow> True | VsMultiple tag _ _ _ _ _ \<Rightarrow> valid_ty ctx tag)"

lemma tag_valid_single [simp]: "tag_valid ctx (Layout s a f (VsSingle i) u)"
  by (simp add: tag_valid_def)

definition tags_interned :: "ty_ctx \<Rightarrow> bool" where
  "tags_interned ctx \<longleftrightarrow> list_all (valid_ty ctx) [Ty_U8, Ty_U16, Ty_U32, Ty_U64]"

lemma niche_info_valid: "niche_info lay ctx tgt t = Some r \<Longrightarrow> valid_ty ctx t"
  by (auto simp: niche_info_def valid_ty_kind split: option.splits)

lemma find_niche_valid:
  "find_niche lay ctx tgt n i ts = Some (Some (fi, t, st)) \<Longrightarrow> t \<in> set ts \<and> valid_ty ctx t"
proof (induction ts arbitrary: i)
  case (Cons u ts)
  then obtain r where r: "niche_info lay ctx tgt u = Some r" by (auto split: option.splits)
  show ?case
    using Cons.prems r niche_info_valid [OF r] by (cases r) (auto split: if_splits dest: Cons.IH)
qed simp

lemma find_niche_variant_valid:
  "find_niche_variant lay ctx tgt n i vs = Some (Some (vi, fi, t, st)) \<Longrightarrow>
     i \<le> vi \<and> vi < i + length vs \<and> t \<in> set (map fd_ty (vd_fields (vs ! (vi - i)))) \<and> valid_ty ctx t"
proof (induction vs arbitrary: i)
  case (Cons v vs)
  show ?case
  proof (cases "find_niche lay ctx tgt n 0 (map fd_ty (vd_fields v)) = Some None")
    case True
    then have "find_niche_variant lay ctx tgt n (Suc i) vs = Some (Some (vi, fi, t, st))"
      using Cons.prems by simp
    from Cons.IH [OF this] show ?thesis by (auto simp: nth_Cons' Suc_diff_le)
  next
    case False
    then have "find_niche lay ctx tgt n 0 (map fd_ty (vd_fields v)) = Some (Some (fi, t, st))" "vi = i"
      using Cons.prems by (auto split: option.splits)
    then show ?thesis using find_niche_valid by fastforce
  qed
qed simp

lemma discriminant_tag_valid:
  "tags_interned ctx \<Longrightarrow> discriminant_info n = (s, a, t) \<Longrightarrow> valid_ty ctx t"
  by (auto simp: tags_interned_def discriminant_info_def split: if_splits)

lemma layout_fields_single: "layout_fields lay ts = Some (Inr l) \<Longrightarrow> tag_valid ctx l"
  by (auto simp: layout_fields_def lbind_eq_Inr finish_fields_def tag_valid_def)

lemma layout_enum_tag:
  assumes "tags_interned ctx" "layout_enum lay ctx tgt def t = Some (Inr l)"
  shows "tag_valid ctx l"
  using assms(2)
proof (cases rule: layout_enum_cases)
  case (1 v)
  then show ?thesis by (rule layout_fields_single)
next
  case (2 ls)
  then show ?thesis using discriminant_tag_valid [OF assms(1)]
    by (auto simp: direct_tag_encoding_def Let_def tag_valid_def split: prod.splits)
next
  case (3 ls vi fi u start n)
  then show ?thesis using find_niche_variant_valid [OF 3(2)]
    by (auto simp: build_niche_layout_def Let_def lbind_eq_Inr tag_valid_def split: option.splits prod.splits)
qed

lemma layout_step_tag:
  assumes "tags_interned ctx" "layout_step lay ctx tgt t = Some (Inr l)"
  shows "tag_valid ctx l"
proof -
  have fields: "tag_valid ctx (finish_fields st)" for st
    by (cases st) (simp add: finish_fields_def tag_valid_def)
  have check: "tag_valid ctx l" if "check_align t l' = Some (Inr l)" "tag_valid ctx l'" for l'
    using that by (auto simp: check_align_def split: if_splits)
  have prims: "tag_valid ctx (layout_scalar x y)" "tag_valid ctx layout_unit" "tag_valid ctx (fat_pointer tgt)"
      "tag_valid ctx (bytes_scalar w)" for x y w
    by (simp_all add: tag_valid_def layout_scalar_def layout_unit_def fat_pointer_def bytes_scalar_def)
  have adt: "tag_valid ctx l" if "layout_adt lay ctx tgt adt substs t = Some (Inr l)" for adt substs
    using that layout_enum_tag [OF assms(1)] layout_fields_single
    by (auto simp: layout_adt_def layout_struct_def layout_union_def lbind_eq_Inr
        split: option.splits adt_kind.splits)
  obtain k where k: "ty_kind_of ctx t = Some k" using assms(2) by (auto simp: layout_step_def split: option.splits)
  show ?thesis
    using assms(2) k
    by (cases k)
       (auto simp: layout_step_def layout_tuple_def layout_array_def layout_closure_def lbind_eq_Inr Let_def prims fields
         split: option.splits if_splits intro: adt layout_fields_single dest!: check)
qed

lemma layout_of_tag: "tags_interned ctx \<Longrightarrow> layout_of n ctx tgt t = Some (Inr l) \<Longrightarrow> tag_valid ctx l"
  by (cases n) (auto intro: layout_step_tag)

text \<open>A computation that returns, with a result or an error.\<close>

definition returns :: "'a option \<Rightarrow> bool" where
  "returns r \<longleftrightarrow> r \<noteq> None"

lemma returns_simps [simp]: "returns (Some x)" "\<not> returns None" "returns (lret y)" "returns (lerr e)"
  by (simp_all add: returns_def lret_def lerr_def)

lemma returns_lbind: "returns (lbind r f) \<longleftrightarrow> returns r \<and> (\<forall>x. r = Some (Inr x) \<longrightarrow> returns (f x))"
  by (auto simp: returns_def lbind_def split: option.splits sum.splits)

lemma returnsE: "returns r \<Longrightarrow> (\<And>x. r = Some x \<Longrightarrow> P) \<Longrightarrow> P"
  by (auto simp: returns_def)

locale total_provider =
  fixes lay :: "ty \<Rightarrow> layout lres" and ctx :: ty_ctx and part :: "ty \<Rightarrow> bool"
  assumes total: "part t \<Longrightarrow> returns (lay t)"
    and part_valid: "part t \<Longrightarrow> valid_ty ctx t"
    and part_interned: "part t \<Longrightarrow> tags_interned ctx"
    and tag: "tags_interned ctx \<Longrightarrow> lay t = Some (Inr l) \<Longrightarrow> tag_valid ctx l"
begin

lemma layout_args_total: "list_all part ts \<Longrightarrow> returns (layout_args lay ts)"
  by (induction ts) (auto simp: returns_lbind dest: total)

lemma layout_fields_total: "list_all part ts \<Longrightarrow> returns (layout_fields lay ts)"
  using layout_args_total by (simp add: layout_fields_def place_fields_layouts returns_lbind)

lemma union_fields_total: "list_all part ts \<Longrightarrow> returns (union_fields lay ts s a)"
  by (induction ts arbitrary: s a) (auto simp: returns_lbind dest: total)

lemma layout_variants_total:
  "list_all (\<lambda>v. list_all part (map fd_ty (vd_fields v))) vs \<Longrightarrow> returns (layout_variants lay vs)"
  by (induction vs) (auto simp: returns_lbind layout_variant_data_def dest: layout_fields_total)

lemma layout_variants_length: "layout_variants lay vs = Some (Inr ls) \<Longrightarrow> length ls = length vs"
  by (induction vs arbitrary: ls) (auto simp: lbind_eq_Inr)

lemma niche_info_total:
  assumes "part t"
  shows "returns (niche_info lay ctx tgt t)"
proof -
  obtain k where k: "ty_kind_of ctx t = Some k" using part_valid [OF assms] by (auto simp: valid_ty_kind)
  obtain r where r: "lay t = Some r" using total [OF assms] by (rule returnsE)
  have tag_count: "\<exists>y. tag_value_count ctx tgt u = Some y"
    if "r = Inr l" "ly_variants l = VsMultiple u i enc ls ts ta" for u l i enc ls ts ta
    using tag [OF part_interned [OF assms], of t l] r that by (auto simp: tag_valid_def tag_value_count_def valid_ty_kind)
  show ?thesis
  proof (cases "\<exists>a s. k = TAdt a s")
    case True
    then obtain a s where a: "k = TAdt a s" by blast
    show ?thesis
    proof (cases r)
      case (Inl e)
      then show ?thesis using k r a by (simp add: niche_info_def split: option.splits)
    next
      case (Inr l)
      then show ?thesis using k r a tag_count [OF Inr]
        by (cases "ly_variants l") (auto simp: niche_info_def split: option.splits)
    qed
  next
    case False
    then show ?thesis using k by (cases k) (simp_all add: niche_info_def Let_def)
  qed
qed

lemma find_niche_total: "list_all part ts \<Longrightarrow> returns (find_niche lay ctx tgt n i ts)"
proof (induction ts arbitrary: i)
  case (Cons t ts)
  then show ?case using niche_info_total [of t tgt] by (auto elim!: returnsE split: option.splits)
qed simp

lemma find_niche_variant_total:
  "list_all (\<lambda>v. list_all part (map fd_ty (vd_fields v))) vs \<Longrightarrow> returns (find_niche_variant lay ctx tgt n i vs)"
proof (induction vs arbitrary: i)
  case (Cons v vs)
  then show ?case using find_niche_total [of "map fd_ty (vd_fields v)" tgt n 0]
    by (auto elim!: returnsE split: option.splits)
qed simp

lemma try_niche_total:
  assumes "list_all (\<lambda>v. list_all part (map fd_ty (vd_fields v))) (ad_variants def)"
    and "length ls = length (ad_variants def)"
  shows "returns (try_niche_encoding lay ctx tgt def ls)"
proof -
  let ?n = "word_of_nat (length (ad_variants def) - 1) :: u128"
  have "returns (build_niche_layout lay ls vi fi u st c)"
    if f: "find_niche_variant lay ctx tgt ?n 0 (ad_variants def) = Some (Some (vi, fi, u, st))" for vi fi u st c
  proof -
    note v = find_niche_variant_valid [OF f]
    have "ad_variants def ! vi \<in> set (ad_variants def)" using v by simp
    then have "part u" using v assms(1) by (auto simp: list_all_iff)
    moreover have "get ls vi = Some (ls ! vi)" using v assms(2) by (simp add: get_Some)
    ultimately show ?thesis using total
      by (auto simp: build_niche_layout_def Let_def returns_lbind split: prod.splits)
  qed
  moreover obtain r where "find_niche_variant lay ctx tgt ?n 0 (ad_variants def) = Some r"
    using find_niche_variant_total [OF assms(1), of tgt ?n 0] by (rule returnsE)
  ultimately show ?thesis
    by (auto simp: try_niche_encoding_def Let_def returns_lbind split: option.splits)
qed

lemma layout_enum_total:
  assumes "list_all (\<lambda>v. list_all part (map fd_ty (vd_fields v))) (ad_variants def)"
  shows "returns (layout_enum lay ctx tgt def t)"
proof -
  have "returns (lbind (layout_variants lay (ad_variants def)) (\<lambda>ls. lbind (try_niche_encoding lay ctx tgt def ls) (\<lambda>r.
            case r of Some result \<Rightarrow> lret result | None \<Rightarrow> lret (direct_tag_encoding def ls))))"
    using layout_variants_total [OF assms] try_niche_total [OF assms] layout_variants_length
    by (auto simp: returns_lbind split: option.splits)
  then show ?thesis
    using assms layout_fields_total
    by (auto simp: layout_enum_def layout_single_variant_enum_def split: list.splits)
qed

lemma layout_adt_total:
  assumes "layout_parts ctx (TAdt adt substs) = Some us" "list_all part us"
  shows "returns (layout_adt lay ctx tgt adt substs t)"
proof (cases "tc_adt_defs ctx adt")
  case None
  then show ?thesis using assms layout_fields_total
    by (auto simp: layout_parts_def layout_adt_def split: option.splits)
next
  case (Some def)
  then have "list_all part (map fd_ty (ad_fields def))"
    "list_all (\<lambda>v. list_all part (map fd_ty (vd_fields v))) (ad_variants def)"
    "\<exists>args. substitution_args ctx substs = Some args"
    using assms by (fastforce simp: layout_parts_def list_all_iff)+
  then show ?thesis using Some layout_fields_total union_fields_total layout_enum_total
    by (auto simp: layout_adt_def layout_struct_def layout_union_def returns_lbind split: adt_kind.splits)
qed

lemma layout_step_total:
  assumes "ty_kind_of ctx t = Some k" "layout_parts ctx k = Some us" "list_all part us"
  shows "returns (layout_step lay ctx tgt t)"
proof -
  have check: "returns (check_align t l)" for l by (simp add: check_align_def)
  show ?thesis
    using assms check
  proof (cases k)
    case (TClosure c substs)
    then show ?thesis using assms layout_args_total check
      by (auto simp: layout_step_def layout_closure_def layout_parts_def type_list_def returns_lbind)
  next
    case (TTuple substs)
    then show ?thesis using assms layout_fields_total
      by (auto simp: layout_step_def layout_tuple_def layout_parts_def type_list_def)
  next
    case (TArray inner count)
    then show ?thesis using assms total
      by (auto simp: layout_step_def layout_array_def layout_parts_def returns_lbind Let_def split: option.splits)
  qed (auto simp: layout_step_def layout_adt_total)
qed

end

text \<open>Types ranked above the types their layout needs.\<close>

definition layout_ranked :: "ty_ctx \<Rightarrow> (ty \<Rightarrow> nat) \<Rightarrow> bool" where
  "layout_ranked ctx rank \<longleftrightarrow> tags_interned ctx \<and>
     (\<forall>t k. ty_kind_of ctx t = Some k \<longrightarrow>
        (\<exists>us. layout_parts ctx k = Some us \<and> list_all (\<lambda>u. valid_ty ctx u \<and> rank u < rank t) us))"

definition ranked_below :: "ty_ctx \<Rightarrow> (ty \<Rightarrow> nat) \<Rightarrow> nat \<Rightarrow> ty \<Rightarrow> bool" where
  "ranked_below ctx rank n t \<longleftrightarrow> layout_ranked ctx rank \<and> valid_ty ctx t \<and> rank t < n"

lemma layout_of_total_provider: "total_provider (layout_of n ctx tgt) ctx (ranked_below ctx rank n)"
proof (induction n)
  case 0
  show ?case by unfold_locales (simp_all add: ranked_below_def layout_ranked_def)
next
  case (Suc n)
  show ?case
  proof unfold_locales
    fix t assume t: "ranked_below ctx rank (Suc n) t"
    then obtain k us where k: "ty_kind_of ctx t = Some k" "layout_parts ctx k = Some us"
      "list_all (\<lambda>u. valid_ty ctx u \<and> rank u < rank t) us"
      unfolding ranked_below_def layout_ranked_def valid_ty_kind by blast
    have "list_all (ranked_below ctx rank n) us"
      using k(3) t by (auto simp: list_all_iff ranked_below_def)
    then show "returns (layout_of (Suc n) ctx tgt t)"
      using total_provider.layout_step_total [OF Suc k(1,2)] by simp
  qed (auto simp: ranked_below_def layout_ranked_def intro: layout_step_tag)
qed

interpretation ranked: total_provider "layout_of n ctx tgt" ctx "ranked_below ctx rank n" for n ctx tgt rank
  by (rule layout_of_total_provider)

text \<open>
  C34.  Layout computation terminates on types that are not infinitely large: if types are
  ranked so that every part of a type (fields, elements, arguments of tuples and closures) has
  a smaller rank, a recursion depth above the rank of a type gives a result, and every larger
  depth the same one.
\<close>

theorem layout_of_terminates:
  assumes "layout_ranked ctx rank" and "valid_ty ctx t" and "rank t < n"
  shows "\<exists>r. layout_of n ctx tgt t = Some r \<and> layout_of (n + m) ctx tgt t = Some r"
proof -
  have "ranked_below ctx rank n t" using assms by (simp add: ranked_below_def)
  then obtain r where "layout_of n ctx tgt t = Some r" using ranked.total by (blast elim: returnsE)
  then show ?thesis using layout_of_fuel [of n ctx tgt t r "n + m"] by simp
qed

text \<open>
  A struct that contains itself first never gets a layout: the computation recurses
  without bound instead of reporting a cycle.
\<close>

theorem layout_of_diverges:
  assumes "ty_kind_of ctx t = Some (TAdt adt substs)" and "tc_adt_defs ctx adt = Some def"
    and "ad_kind def = AdtStruct" and "ad_fields def = f # fs" and "fd_ty f = t"
  shows "layout_of n ctx tgt t = None"
proof (induction n)
  case (Suc n)
  then show ?case
    using assms by (auto simp: layout_step_def layout_adt_def layout_struct_def layout_fields_def split: option.splits)
qed simp

end
