(* ===== verification/Layout_Enum.thy ===== *)
theory Layout_Enum
  imports Layout_Total
begin

text \<open>
  Tagged enums, call ABIs and vtables, with the concrete layouts that witness the theorems of
  the previous theories and the layouts where the encoding of an enum goes wrong.
\<close>

subsection \<open>A context\<close>

definition no_substs :: substitution where
  "no_substs = \<lparr>sub_index = 0, sub_len = 0\<rparr>"

definition one_variant :: "ty list \<Rightarrow> variant_def" where
  "one_variant ts = \<lparr>vd_name = 0, vd_fields = map (\<lambda>t. \<lparr>fd_name = 0, fd_ty = t\<rparr>) ts, vd_style = StyleTuple\<rparr>"

definition struct_def :: "ty list \<Rightarrow> adt_def" where
  "struct_def ts = \<lparr>ad_kind = AdtStruct, ad_fields = map (\<lambda>t. \<lparr>fd_name = 0, fd_ty = t\<rparr>) ts,
     ad_variants = [one_variant ts], ad_generic_params = []\<rparr>"

definition enum_def :: "ty list list \<Rightarrow> adt_def" where
  "enum_def tss = \<lparr>ad_kind = AdtEnum, ad_fields = [], ad_variants = map one_variant tss, ad_generic_params = []\<rparr>"

text \<open>
  The primitive types, then \<open>i8\<close> (9), \<open>[u8; 15]\<close> (10), the enum \<open>A(u64) | B([u8; 15])\<close> (11),
  the struct \<open>{u8, u32, u16}\<close> (12), the enums \<open>A(i8) | B\<close> (13), \<open>A | B(bool) | C\<close> (14),
  \<open>A(bool) | B(u64)\<close> (15), and a struct whose first field is itself (16) when the flag is set.
\<close>

definition layout_ctx :: "bool \<Rightarrow> ty_ctx" where
  "layout_ctx cyclic = example_ctx\<lparr>tc_arena := \<lparr>ar_types =
      [TError, TNever, TUnit, TBool, TUint U8, TUint U16, TUint U32, TUint U64, TUint Usize,
       TInt I8, TArray 4 \<lparr>ct_kind = CkUint 15, ct_ty = Ty_USIZE\<rparr>] @ map (\<lambda>i. TAdt i no_substs) [0, 1, 2, 3, 4, 5],
      ar_flags = [], ar_substs = [], ar_index = (\<lambda>_. None)\<rparr>,
    tc_adt_defs := (\<lambda>i. map_of [(0, enum_def [[7], [10]]), (1, struct_def [4, 6, 5]), (2, enum_def [[9], []]),
        (3, enum_def [[], [3], []]), (4, enum_def [[3], [7]]),
        (5, struct_def (if cyclic then [16] else [12]))] i)\<rparr>"

abbreviation x86 :: target_info where "x86 \<equiv> from_triple ''x86_64-unknown-linux-gnu''"

lemma x86_default [simp]: "x86 = default_target"
  by code_simp

lemma layout_of_wf_witness:
  "\<exists>l. layout_of 3 (layout_ctx False) x86 12 = Some (Inr l) \<and> layout_wf l \<and> ly_size l = 12"
proof -
  have v: "layout_of 3 (layout_ctx False) x86 12 = Some (Inr (Layout 12 4 (FsArbitrary [0, 4, 8]) (VsSingle 0) False))"
    unfolding x86_default by code_simp
  from layout_of_wf [OF v] v show ?thesis by (simp del: x86_default layout_of.simps)
qed

lemma layout_of_errors_witness: "\<exists>u. layout_of 1 (layout_ctx False) x86 0 = Some (Inl (LeUnknownType u))"
proof -
  have v: "layout_of 1 (layout_ctx False) x86 0 = Some (Inl (LeUnknownType 0))"
    unfolding x86_default by code_simp
  from layout_of_errors [OF v] v show ?thesis by (simp del: x86_default layout_of.simps)
qed

abbreviation small :: "u64 \<Rightarrow> layout" where "small n \<equiv> Layout n n FsPrimitive (VsSingle 0) False"

lemma struct_example:
  "layout_fields (layout_of 1 (layout_ctx False) x86) [4, 6, 5] =
     Some (Inr (Layout 12 4 (FsArbitrary [0, 4, 8]) (VsSingle 0) False))"
  "layout_of 1 (layout_ctx False) x86 4 = Some (Inr (small 1))"
  "layout_of 1 (layout_ctx False) x86 6 = Some (Inr (small 4))"
  "layout_of 1 (layout_ctx False) x86 5 = Some (Inr (small 2))"
  unfolding x86_default by code_simp+

lemma layout_fields_refines_witness:
  "\<exists>os e. ref_place 0 [(1, 1), (4, 4), (2, 2)] = (map unat os, e) \<and> os = [0, 4, 8 :: u64] \<and> round_up e 4 = 12"
  using layout_fields_refines [OF struct_example(1), of "[small 1, small 4, small 2]"] struct_example(2-4)
  by (simp add: padded_bound_def size_align_def del: x86_default layout_of.simps)


text \<open>A ranking is checked type by type.\<close>

definition rank_check :: "ty_ctx \<Rightarrow> (ty \<Rightarrow> nat) \<Rightarrow> bool" where
  "rank_check ctx rank \<longleftrightarrow> tags_interned ctx \<and> int (length (ar_types (tc_arena ctx))) \<le> 2 ^ 32 \<and>
     list_all (\<lambda>i. case layout_parts ctx (ar_types (tc_arena ctx) ! i) of None \<Rightarrow> False
        | Some us \<Rightarrow> list_all (\<lambda>u. valid_ty ctx u \<and> rank u < rank (word_of_nat i)) us)
       [0..<length (ar_types (tc_arena ctx))]"

lemma rank_check_ranked:
  assumes "rank_check ctx rank"
  shows "layout_ranked ctx rank"
  unfolding layout_ranked_def
proof (intro conjI allI impI)
  show "tags_interned ctx" using assms by (simp add: rank_check_def)
  fix t k assume "ty_kind_of ctx t = Some k"
  then have "unat t < length (ar_types (tc_arena ctx))" "ar_types (tc_arena ctx) ! unat t = k"
    by (auto simp: ty_kind_of_def arena_ty_kind_def get_Some)
  then show "\<exists>us. layout_parts ctx k = Some us \<and> list_all (\<lambda>u. valid_ty ctx u \<and> rank u < rank t) us"
    using assms unfolding rank_check_def list_all_iff
    by (fastforce split: option.splits)
qed

lemma layout_of_terminates_witness:
  "\<exists>r. layout_of 17 (layout_ctx False) x86 16 = Some r \<and> layout_of (17 + 82) (layout_ctx False) x86 16 = Some r"
proof -
  have r: "rank_check (layout_ctx False) unat" by code_simp
  have v: "valid_ty (layout_ctx False) 16" by (simp add: valid_ty_def layout_ctx_def)
  have "unat (16 :: u32) < 17" by simp
  from layout_of_terminates [OF rank_check_ranked [OF r] v this] show ?thesis .
qed

lemma layout_of_diverges_witness: "layout_of 1000 (layout_ctx True) x86 16 = None"
  by (rule layout_of_diverges [where f = "\<lparr>fd_name = 0, fd_ty = 16\<rparr>" and fs = "[]" and def = "struct_def [16]" and adt = 5
        and substs = no_substs])
     (simp_all add: layout_ctx_def struct_def_def ty_kind_of_def arena_ty_kind_def get_def)

subsection \<open>Tagged enums\<close>

lemma fold_max_init: "a \<le> fold (\<lambda>l m. max m (f l)) xs (a :: u64)"
  by (induction xs arbitrary: a) (auto intro: order_trans [OF max.cobounded1])

lemma fold_max_ge: "x \<in> set xs \<Longrightarrow> f x \<le> fold (\<lambda>l m. max m (f l)) xs (a :: u64)"
  by (induction xs arbitrary: a) (auto intro: order_trans [OF max.cobounded2 fold_max_init])

lemma fold_max_le: "(\<And>x. x \<in> set xs \<Longrightarrow> f x \<le> b) \<Longrightarrow> a \<le> b \<Longrightarrow> fold (\<lambda>l m. max m (f l)) xs a \<le> (b :: u64)"
  by (induction xs arbitrary: a) auto

lemma variant_end_unat:
  assumes "align_ok (ly_align v)" "unat tag_size \<le> 8" "unat (ly_size v) + 24 \<le> 2 ^ 64"
  shows "unat (variant_end tag_size v) = unat (align_to tag_size (ly_align v)) + unat (ly_size v)"
    and "unat tag_size \<le> unat (align_to tag_size (ly_align v))" "unat (align_to tag_size (ly_align v)) < 16"
proof -
  have r: "unat (align_to tag_size (ly_align v)) = round_up (unat tag_size) (unat (ly_align v))"
    using align_to_round_up [OF assms(1), of tag_size] assms(2) align_ok_bounds(2) [OF assms(1)] by simp
  show *: "unat tag_size \<le> unat (align_to tag_size (ly_align v))" "unat (align_to tag_size (ly_align v)) < 16"
    using r round_up_props [OF align_ok_bounds(1) [OF assms(1)], of "unat tag_size"]
      assms(2) align_ok_bounds(2) [OF assms(1)] by simp_all
  show "unat (variant_end tag_size v) = unat (align_to tag_size (ly_align v)) + unat (ly_size v)"
    unfolding variant_end_def by (rule size_add_unat) (use * assms(3) in simp)
qed

lemma discriminant_bounds: "discriminant_info n = (ts, ta, t) \<Longrightarrow> unat ts \<le> 8"
  by (auto simp: discriminant_info_def split: if_splits)

text \<open>
  A tagged enum has room for each of its variants: placed after the tag at the first
  multiple of its own alignment, the data of every variant ends inside the enum, and starts
  at an aligned offset that is not inside the tag.
\<close>

theorem direct_tag_fits:
  assumes "layout_variants (layout_of fuel ctx (from_triple triple)) (ad_variants def) = Some (Inr ls)"
    and "\<forall>v \<in> set ls. unat (ly_size v) + 32 \<le> 2 ^ 64"
    and "discriminant_info (length (ad_variants def)) = (tag_size, tag_align, tag_ty)"
    and "v \<in> set ls"
  shows "let start = align_to tag_size (ly_align v) in
     unat (ly_align v) dvd unat start \<and> unat tag_size \<le> unat start \<and>
     unat start + unat (ly_size v) \<le> unat (ly_size (direct_tag_encoding def ls))"
proof -
  let ?m = "fold (\<lambda>l m. max m (variant_end tag_size l)) ls 0"
  let ?a = "max_align ls tag_align"
  have wf: "list_all layout_wf ls" by (rule computer.layout_variants_wf [OF assms(1)])
  then have al: "\<And>v. v \<in> set ls \<Longrightarrow> align_ok (ly_align v)" using layout_wf_props by (auto simp: list_all_iff)
  note ts = discriminant_bounds [OF assms(3)]
  have ends: "unat (variant_end tag_size x) = unat (align_to tag_size (ly_align x)) + unat (ly_size x)"
    "unat (align_to tag_size (ly_align x)) < 16" "unat tag_size \<le> unat (align_to tag_size (ly_align x))"
    if "x \<in> set ls" for x
    using variant_end_unat [OF al [OF that] ts] assms(2) that by auto
  have "?m \<le> - 16"
  proof (rule fold_max_le)
    fix x assume x: "x \<in> set ls"
    have "unat (variant_end tag_size x) \<le> 2 ^ 64 - 16" using ends [OF x] assms(2) x by force
    then show "variant_end tag_size x \<le> - 16" by (simp add: word_le_nat_alt)
  qed simp
  then have m: "unat ?m \<le> 2 ^ 64 - 16" by (simp add: word_le_nat_alt)
  have a: "align_ok ?a" using computer.discriminant_align [OF assms(3)] max_align_ok [OF wf] by blast
  have sz: "unat (align_to ?m ?a) = round_up (unat ?m) (unat ?a)"
    by (rule align_to_round_up [OF a]) (use m align_ok_bounds(2) [OF a] in simp)
  have "unat (variant_end tag_size v) \<le> unat ?m"
    using fold_max_ge [OF assms(4)] by (simp add: word_le_nat_alt)
  also have "\<dots> \<le> unat (align_to ?m ?a)" using round_up_props(2) [OF align_ok_bounds(1) [OF a]] sz by simp
  finally show ?thesis
    using ends [OF assms(4)] align_to_dvd [OF al [OF assms(4)]] assms(3)
    by (simp add: direct_tag_encoding_def Let_def)
qed

lemma direct_tag_fits_witness:
  "\<exists>ls. layout_variants (layout_of 2 (layout_ctx False) x86) (ad_variants (enum_def [[7], [10]])) = Some (Inr ls) \<and>
     unat (align_to 1 (ly_align (ls ! 0))) + unat (ly_size (ls ! 0))
       \<le> unat (ly_size (direct_tag_encoding (enum_def [[7], [10]]) ls))"
proof -
  let ?ls = "[Layout 8 8 (FsArbitrary [0]) (VsSingle 0) False, Layout 15 1 (FsArbitrary [0]) (VsSingle 0) False]"
  have v: "layout_variants (layout_of 2 (layout_ctx False) x86) (ad_variants (enum_def [[7], [10]])) = Some (Inr ?ls)"
    unfolding x86_default by code_simp
  have d: "discriminant_info (length (ad_variants (enum_def [[7], [10]]))) = (1, 1, Ty_U8)"
    by (simp add: discriminant_info_def enum_def_def)
  have "\<forall>v \<in> set ?ls. unat (ly_size v) + 32 \<le> 2 ^ 64" by simp
  from direct_tag_fits [OF v this d, of "?ls ! 0"] v show ?thesis
    by (simp add: Let_def del: x86_default)
qed

text \<open>
  The common offset of the data that the layout records for all variants is computed with the
  largest variant alignment, while the size is the largest of the ends computed with each
  variant's own: for \<open>A(u64) | B([u8; 15])\<close> the size is 16, the data offset is 8, and the
  15 bytes of \<open>B\<close> would end at 23.
\<close>

lemma direct_tag_data_offset:
  "layout_of 3 (layout_ctx False) x86 11 =
     Some (Inr (Layout 16 8 (FsArbitrary [0, 8]) (VsMultiple Ty_U8 0 TagDirect
        [Layout 8 8 (FsArbitrary [0]) (VsSingle 0) False, Layout 15 1 (FsArbitrary [0]) (VsSingle 0) False] 1 1) False))"
  unfolding x86_default by code_simp

text \<open>
  Niches that are not free.  The value \<open>0x80\<close> that stands for \<open>B\<close> in \<open>A(i8) | B\<close> is the
  valid \<open>i8\<close> value -128.  In \<open>A | B(bool) | C\<close> only variant 0 is in the range of the niche,
  so \<open>C\<close> has no encoding of its own.  In \<open>A(bool) | B(u64)\<close> the data of \<open>B\<close> lies over the
  niche.
\<close>

lemma niche_of_i8:
  "layout_of 3 (layout_ctx False) x86 13 =
     Some (Inr (Layout 1 1 (FsArbitrary [0]) (VsMultiple 9 0 (TagNiche 0 1 1 0x80)
        [Layout 1 1 (FsArbitrary [0]) (VsSingle 0) False, Layout 0 1 (FsArbitrary []) (VsSingle 0) False] 1 1) False)) \<and>
   sint (0x80 :: 8 word) = - 128"
  unfolding x86_default by code_simp

lemma niche_misses_variant:
  "layout_of 3 (layout_ctx False) x86 14 =
     Some (Inr (Layout 1 1 (FsArbitrary [0]) (VsMultiple Ty_BOOL 0 (TagNiche 1 0 0 2)
        [Layout 0 1 (FsArbitrary []) (VsSingle 0) False, Layout 1 1 (FsArbitrary [0]) (VsSingle 0) False,
         Layout 0 1 (FsArbitrary []) (VsSingle 0) False] 1 1) False))"
  unfolding x86_default by code_simp

lemma niche_overlapped:
  "layout_of 3 (layout_ctx False) x86 15 =
     Some (Inr (Layout 8 8 (FsArbitrary [0]) (VsMultiple Ty_BOOL 0 (TagNiche 0 1 1 2)
        [Layout 1 1 (FsArbitrary [0]) (VsSingle 0) False, Layout 8 8 (FsArbitrary [0]) (VsSingle 0) False] 1 1) False))"
  unfolding x86_default by code_simp

text \<open>
  The sum of the fields is not checked for overflow: with a current offset of \<open>2 ^ 64 - 1\<close>
  the next 8-byte field is placed at offset 0.
\<close>

lemma align_to_wraps: "align_to (- 1) 8 = 0"
  by code_simp

text \<open>
   The tag of an enum is wide enough and no wider: a tag of \<open>s\<close> bytes has at least as
  many values as the enum has variants, and every smaller tag width of 1, 2 or 4 bytes has
  too few.
\<close>

theorem discriminant_info_fits:
  assumes "discriminant_info n = (s, a, t)" and "n < 2 ^ 64"
  shows "n \<le> 2 ^ (8 * unat s) \<and> a = s \<and> s \<in> {1, 2, 4, 8} \<and>
    (\<forall>s' \<in> {1, 2, 4}. s' < unat s \<longrightarrow> 2 ^ (8 * s') < n)"
  using assms by (auto simp: discriminant_info_def split: if_splits)

lemma discriminant_info_fits_witness:
  "discriminant_info 257 = (2, 2, Ty_U16) \<and> (257::nat) \<le> 2 ^ (8 * unat (2 :: u64)) \<and> (2::nat) ^ (8 * 1) < 257"
proof -
  have d: "discriminant_info 257 = (2, 2, Ty_U16)" by (simp add: discriminant_info_def)
  have "(257 :: nat) < 2 ^ 64" by simp
  from discriminant_info_fits [OF d this] d show ?thesis by auto
qed

subsection \<open>Call ABIs\<close>

lemma arg_abis_all:
  assumes "arg_abis fuel ctx tgt conv ts = Some as"
    and "list_all (\<lambda>t. \<exists>l. layout_of fuel ctx tgt t = Some (Inr l)) ts"
  shows "map aa_ty as = ts \<and>
    list_all (\<lambda>a. layout_of fuel ctx tgt (aa_ty a) = Some (Inr (aa_layout a)) \<and>
       pass_mode_for ctx (aa_ty a) (aa_layout a) conv = Some (aa_mode a)) as"
  using assms by (induction ts arbitrary: as) (auto split: option.splits)

text \<open>
   When every input type has a layout, the ABI of a signature lists exactly the inputs in
  order, each with its layout and the pass mode of that layout; zero-sized and never-typed
  values are ignored, and the C conventions pass values of more than 16 bytes indirectly.
\<close>

theorem fn_abi_of_args:
  assumes "fn_abi_of fuel ctx tgt sig = Some (Inr abi)" and "type_list ctx (fs_inputs sig) = Some ts"
    and "list_all (\<lambda>t. \<exists>l. layout_of fuel ctx tgt t = Some (Inr l)) ts"
  shows "map aa_ty (fa_args abi) = ts \<and> aa_ty (fa_ret abi) = fs_output sig \<and>
    fa_conv abi = call_convention_of (fs_abi sig) \<and>
    (\<forall>a \<in> set (fa_ret abi # fa_args abi). layout_of fuel ctx tgt (aa_ty a) = Some (Inr (aa_layout a)) \<and>
       (ly_size (aa_layout a) = 0 \<and> \<not> ly_is_unsized (aa_layout a) \<longrightarrow> aa_mode a = PmIgnore) \<and>
       (aa_mode a = PmIndirect False \<longrightarrow> fs_abi sig \<noteq> AbiGlyim \<and> 16 < ly_size (aa_layout a)) \<and>
       (fs_abi sig \<noteq> AbiGlyim \<and> aa_mode a = PmDirect \<longrightarrow> ly_size (aa_layout a) \<le> 16))"
proof -
  let ?c = "call_convention_of (fs_abi sig)"
  obtain as rl rm where as: "arg_abis fuel ctx tgt ?c ts = Some as"
    and ret: "layout_of fuel ctx tgt (fs_output sig) = Some (Inr rl)" "pass_mode_for ctx (fs_output sig) rl ?c = Some rm"
    and abi: "abi = \<lparr>fa_args = as, fa_ret = \<lparr>aa_ty = fs_output sig, aa_layout = rl, aa_mode = rm\<rparr>,
        fa_conv = ?c, fa_c_variadic = fs_c_variadic sig\<rparr>"
    using assms(1,2) by (auto simp: fn_abi_of_def type_list_def lbind_eq_Inr Let_def split: option.splits)
  have mode: "(ly_size l = 0 \<and> \<not> ly_is_unsized l \<longrightarrow> m = PmIgnore) \<and>
      (m = PmIndirect False \<longrightarrow> fs_abi sig \<noteq> AbiGlyim \<and> 16 < ly_size l) \<and>
      (fs_abi sig \<noteq> AbiGlyim \<and> m = PmDirect \<longrightarrow> ly_size l \<le> 16)"
    if "pass_mode_for ctx t l ?c = Some m" for t l m
    using that by (cases "fs_abi sig") (auto simp: pass_mode_for_def split: option.splits if_splits)
  show ?thesis
    using arg_abis_all [OF as assms(3)] ret mode by (auto simp: abi list_all_iff)
qed

definition example_sig :: "substitution \<Rightarrow> fn_sig" where
  "example_sig inputs = \<lparr>fs_inputs = inputs, fs_output = 2, fs_c_variadic = False, fs_unsafety = Safe, fs_abi = AbiC\<rparr>"

definition sig_ctx :: "ty list \<Rightarrow> ty_ctx" where
  "sig_ctx ts = (layout_ctx False)\<lparr>tc_arena := (tc_arena (layout_ctx False))\<lparr>ar_substs := [map GaTy ts]\<rparr>\<rparr>"

lemma fn_abi_of_args_witness:
  "\<exists>abi. fn_abi_of 3 (sig_ctx [12, 4]) x86 (example_sig \<lparr>sub_index = 0, sub_len = 2\<rparr>) = Some (Inr abi) \<and>
     map aa_ty (fa_args abi) = [12, 4]"
proof -
  let ?abi = "fn_abi_of 3 (sig_ctx [12, 4]) x86 (example_sig \<lparr>sub_index = 0, sub_len = 2\<rparr>)"
  have "(case ?abi of Some (Inr _) \<Rightarrow> True | _ \<Rightarrow> False)" unfolding x86_default by code_simp
  then obtain abi where abi: "?abi = Some (Inr abi)" by (auto split: option.splits sum.splits)
  have ts: "type_list (sig_ctx [12, 4]) (fs_inputs (example_sig \<lparr>sub_index = 0, sub_len = 2\<rparr>)) = Some [12, 4]"
    by code_simp
  have "(case layout_of 3 (sig_ctx [12, 4]) x86 t of Some (Inr _) \<Rightarrow> True | _ \<Rightarrow> False)" if "t = 12 \<or> t = 4" for t
    using that unfolding x86_default by (elim disjE; hypsubst; code_simp)
  then have "list_all (\<lambda>t. \<exists>l. layout_of 3 (sig_ctx [12, 4]) x86 t = Some (Inr l)) [12, 4]"
    by (fastforce split: option.splits sum.splits simp del: x86_default)
  from fn_abi_of_args [OF abi ts this] have "map aa_ty (fa_args abi) = [12, 4]" by (rule conjunct1)
  with abi show ?thesis by (intro exI conjI)
qed

text \<open>An input whose layout fails is dropped from the ABI without an error: here the first of
  two inputs, of the error type.\<close>

lemma fn_abi_of_drops:
  "map_option (map_sum id (\<lambda>abi. map aa_ty (fa_args abi)))
     (fn_abi_of 3 (sig_ctx [0, 4]) x86 (example_sig \<lparr>sub_index = 0, sub_len = 2\<rparr>)) = Some (Inr [4])"
  unfolding x86_default by code_simp

subsection \<open>Vtables\<close>

text \<open>
  The method slots of a vtable lie inside it, behind the drop, size and alignment slots,
  and do not overlap, as long as the table fits 64 bits.
\<close>

theorem vtable_slots:
  assumes "(3 + length (vt_methods vt)) * unat psize < 2 ^ 64" and "i < length (vt_methods vt)"
  shows "3 * unat psize \<le> unat (method_offset i psize) \<and>
    unat (method_offset i psize) + unat psize \<le> unat (vs_size (memory_size vt psize)) \<and>
    (\<forall>j < i. unat (method_offset j psize) + unat psize \<le> unat (method_offset i psize))"
proof (cases "unat psize = 0")
  case True
  then have "psize = 0" by (simp add: unat_eq_zero)
  then show ?thesis by (simp add: method_offset_def memory_size_def)
next
  case False
  have exact: "unat (word_of_nat k * psize) = k * unat psize" if "k \<le> 3 + length (vt_methods vt)" for k
  proof -
    have k: "k * unat psize < 2 ^ 64"
      using mult_le_mono1 [OF that, of "unat psize"] assms(1) by linarith
    moreover have "k \<le> k * unat psize" using False by simp
    ultimately have "k < 2 ^ 64" by linarith
    then show ?thesis using k by (simp add: unat_word_ariths unsigned_of_nat take_bit_eq_mod)
  qed
  show ?thesis
  proof (intro conjI allI impI)
    show "3 * unat psize \<le> unat (method_offset i psize)"
      unfolding method_offset_def using assms(2) by (subst exact) simp_all
    have "(3 + i) * unat psize + unat psize = (4 + i) * unat psize" by (simp add: algebra_simps)
    also have "\<dots> \<le> (3 + length (vt_methods vt)) * unat psize" using assms(2) by (intro mult_le_mono1) simp
    finally show "unat (method_offset i psize) + unat psize \<le> unat (vs_size (memory_size vt psize))"
      using assms(2) exact [of "3 + i"] exact [of "3 + length (vt_methods vt)"]
      by (simp add: method_offset_def memory_size_def)
    fix j assume j: "j < i"
    have "(3 + j) * unat psize + unat psize = (4 + j) * unat psize" by (simp add: algebra_simps)
    also have "\<dots> \<le> (3 + i) * unat psize" using j by (intro mult_le_mono1) simp
    finally show "unat (method_offset j psize) + unat psize \<le> unat (method_offset i psize)"
      using assms(2) j exact [of "3 + i"] exact [of "3 + j"] by (simp add: method_offset_def)
  qed
qed

lemma vtable_slots_witness:
  "unat (method_offset 1 8) + 8 \<le> unat (vs_size (memory_size \<lparr>vt_trait_def_id = 0, vt_concrete_ty = 4, vt_size = 1,
     vt_align = 1, vt_drop_fn = None, vt_methods = replicate 2 \<lparr>ve_name = 0, ve_sig = example_sig no_substs,
     ve_fn_def_id = 0\<rparr>\<rparr> 8))"
  using vtable_slots [of "\<lparr>vt_trait_def_id = 0, vt_concrete_ty = 4, vt_size = 1,
     vt_align = 1, vt_drop_fn = None, vt_methods = replicate 2 \<lparr>ve_name = 0, ve_sig = example_sig no_substs,
     ve_fn_def_id = 0\<rparr>\<rparr>" 8 1]
  by simp

end
