(* ===== verification/Spec2Isabelle.thy ===== *)
theory Spec2Isabelle
  imports Parser_Total Infer_Props Solver_Props Interp_Props Const_Eval_Props Borrowck_Props Codegen_Vm Bytecode_Codec Opt_Pipeline Layout_Enum
begin

text \<open>
  A verification development for the Glyim compiler: a Rust workspace of crates under \<^verbatim>\<open>src/crates\<close>.  A source
  text is lexed and parsed (\<^verbatim>\<open>glyim-frontend\<close>) into a syntax tree, lowered to a high-level IR (\<^verbatim>\<open>glyim-hir\<close>), typed with
  inference and a trait solver (\<^verbatim>\<open>glyim-solve\<close>, \<^verbatim>\<open>glyim-type\<close>), lowered to bodies of a mid-level IR (\<^verbatim>\<open>glyim-mir\<close>), checked
  for borrows and moves (\<^verbatim>\<open>glyim-borrowck\<close>), optimized (\<^verbatim>\<open>glyim-opt\<close>) and either interpreted (\<^verbatim>\<open>glyim-mir-interp\<close>) or
  translated to bytecode (\<^verbatim>\<open>glyim-codegen\<close>) for a stack machine (\<^verbatim>\<open>glyim-bytecode-vm\<close>).  Constants are evaluated on the HIR
  (\<^verbatim>\<open>glyim-const-eval\<close>), and memory layouts are computed from types (\<^verbatim>\<open>glyim-layout\<close>).  The theories model these phases as
  functions on explicit state and prove what each one promises to the next, or show by an example where it does not.

  \<^bold>\<open>Conventions.\<close>  Structs are records, enums are datatypes with the constructors of the source, machine integers are words
  of their width, and arithmetic is that of a release build: it wraps where the code does not check.  Errors are values of
  a sum type, \<open>Inl\<close> the error.  A result \<open>None\<close> stands for a panic (an index out of bounds, an explicit panic) or for a
  recursion or iteration that has used up its fuel; where both can happen the theory says how they are told apart.  Code
  that is not in the workspace is an argument with its documented behaviour as hypotheses: the bit sets of
  \<^verbatim>\<open>fixedbitset\<close>, the Unicode tables behind the character classes, 64-bit float arithmetic, and the tree builder, whose sequence of
  calls is the parser's output.  Interners and name tables are arguments too.  The texts of diagnostics and panics are
  constructors or strings; log output is left out.

  \<^bold>\<open>Shared theories.\<close>  \<open>Glyim_Prelude\<close> has the integer types, the result type with its bind, byte encodings and the general
  lemmas.  \<open>Glyim_Types\<close> has the primitive enums, the target description and alignment check of \<^verbatim>\<open>glyim-core\<close>, spans
  (\<^verbatim>\<open>glyim-span\<close>) and the type language (\<^verbatim>\<open>glyim-type\<close>).  \<open>Type_Context\<close> is the type arena and the frozen context: interning
  gives one handle per kind and handles keep their meaning, flags, and the queries such as \<open>needs_drop\<close>, which is shown to
  return on every closed context and to be right.  \<open>Auto_Traits\<close> computes \<open>Send\<close>, \<open>Sync\<close> and \<open>Unpin\<close> with the cache and is
  compared with the greatest solution of the rules.  \<open>Mir\<close> and \<open>Hir\<close> hold the data of the two IRs.

  \<^bold>\<open>Front end.\<close>  \<open>Lexer\<close> models \<^verbatim>\<open>lexer.rs\<close>; \<open>Lexer_Grammar\<close> states the lexical grammar and \<open>Lexer_Props\<close> proves that the tokens
  tile the source with the longest match, that spans are ordered, and that printed tokens are read back.  \<open>Parser\<close> has the
  state and primitive operations of \<^verbatim>\<open>parser/mod.rs\<close> and the control flow of grammar functions, \<open>Parser_Grammar\<close> and
  \<open>Parser_Items\<close> one definition per grammar function of \<^verbatim>\<open>expr.rs\<close>, \<^verbatim>\<open>pat.rs\<close>, \<^verbatim>\<open>ty.rs\<close>, \<^verbatim>\<open>stmt.rs\<close> and \<^verbatim>\<open>item.rs\<close>, with the recursion
  as an argument \<open>call\<close> that \<open>parse_nt\<close> closes with fuel.  \<open>Parser_Logic\<close> passes over the grammar once: the locale
  \<open>grammar_logic\<close> proves of all grammar functions any judgement that is closed under their control flow.  \<open>Parser_Props\<close>
  interprets it twice, for the preservation of the source's tokens and for the nesting of the builder's calls.
  \<open>Parser_Returns\<close> and \<open>Parser_Progress\<close> prove that every grammar function takes a token when one is left; the measure is
  twice the tokens left plus the queued closing angles.  Fuel \<open>2 * m + 2\<close> is enough at a state of measure \<open>m\<close>, one more for
  the nonterminals that begin with another one, as each unit of measure costs at most two calls and a loop has more turns
  than units.  \<open>Parser_Total\<close> concludes that sources without \<open>use\<close> are parsed and that a list of imports may be parsed for ever.

  \<^bold>\<open>Types.\<close>  \<open>Infer\<close> is the inference table of \<^verbatim>\<open>infer.rs\<close>, \<open>Infer_Props\<close> the soundness of unification on types whose variables are
  distinct and unbound, the termination of shallow resolution, and examples of what goes wrong otherwise.  \<open>Solver\<close> models
  \<^verbatim>\<open>solver.rs\<close> and \<^verbatim>\<open>fulfill.rs\<close>; \<open>Solver_Props\<close> defines matching and provability inductively and shows the answers right, with
  the obligation queue proved over the interface \<open>trait_solver\<close>, which is interpreted on \<open>can_prove\<close>.

  \<^bold>\<open>Constants.\<close>  \<open>Const_Eval\<close> models the evaluator of \<^verbatim>\<open>eval.rs\<close> and the arithmetic of \<^verbatim>\<open>value.rs\<close>.  \<open>Const_Eval_Props\<close> shows the
  arithmetic exact or refused, the scopes balanced (interface \<open>scoped_evaluator\<close>) and evaluation total on well-formed bodies
  (interface \<open>total_evaluator\<close>): the depth limit of the code bounds the recursion of expressions, and the fuel for patterns
  has to exceed the rank of the pattern ids.

  \<^bold>\<open>Borrow checking.\<close>  \<open>Dataflow\<close> has the operations of bit sets with their laws and the interface \<open>worklist\<close> for a solver over
  blocks.  \<open>Liveness\<close> and \<open>Liveness_Props\<close>: the analysis returns and computes the locals that some path reads before it
  writes them.  \<open>Borrow_Conflicts\<close>: places that do not conflict share no memory.  \<open>Two_Phase\<close>: the reservation analysis,
  whose worklist may never become empty.  \<open>Move_Analysis\<close>: move paths and the forward analysis.  \<open>Borrowck\<close> and
  \<open>Borrowck_Props\<close>: the checker reports every conflict with a loan whose reference some path still uses, and the cases that
  it misses.

  \<^bold>\<open>Optimizer.\<close>  \<open>Mir_Traces\<close> is the observational semantics against which passes are judged.  \<open>Opt_Cfg\<close>: block merging and
  removal of unreachable blocks keep the traces; the interface \<open>cfg_pass\<close> composes such passes (\<open>cfg_pass_seq\<close>).
  \<open>Opt_Validate\<close>: the validator and the slice pass.  \<open>Opt_Dce\<close> and \<open>Opt_ConstProp\<close>: dead-code elimination and constant
  propagation with its iteration limit.  \<open>Opt_Pipeline\<close>: the composition of the entry point \<open>optimize\<close>.

  \<^bold>\<open>Layout.\<close>  \<open>Layout\<close> models sizes, alignments, enum tags and niches, call conventions and vtables.  \<open>Layout_Props\<close>: the
  invariant of every computed layout and the refinement of a placement on natural numbers, over the interface
  \<open>part_layouts\<close>.  \<open>Layout_Total\<close>: more fuel gives the same layout, and the rank of a type above its parts is enough.
  \<open>Layout_Enum\<close>: tagged enums and the encodings that overlap.

  \<^bold>\<open>Execution.\<close>  \<open>Interp\<close> and \<open>Interp_Props\<close>: the MIR interpreter ends within its step limit, keeps its frames consistent,
  reads back what it writes and agrees with constant folding.  \<open>Bytecode_Vm\<close>: the stack machine with its invariant and the
  protocol of calls; the fuel of \<open>drive\<close> counts instructions.  \<open>Bytecode_Codegen\<close> models the backend, \<open>Bytecode_Codec\<close> the
  instruction codec, and \<open>Codegen_Vm\<close> proves the emitted code for scalar assignments and the peephole rewriting correct on
  the machine, the latter over the interface \<open>instr_machine\<close>.

  \<^bold>\<open>Not modelled.\<close>  The lowering of syntax trees to the HIR, name resolution and the type checker work on trees of a
  third-party crate and on tables of items that the models do not have; MIR lowering takes their output.  Of the parser the
  checks of macro fragments are left out, of the optimizer drop elaboration, of the solver the instantiation of
  higher-ranked lifetimes, of the context the tables for methods and associated types.  The LLVM backend and the runtime
  are calls into foreign code over raw memory; metadata, package manager, pipeline, language server, command line,
  diagnostics rendering and test support are input and output around the phases above.
\<close>

end
